(* ===== verification/Prelude.thy ===== *)
theory Prelude
  imports Main "HOL-Library.Word" "HOL-Library.Multiset" "HOL-Library.Monad_Syntax"
begin

text \<open>
  Shared material of the development.

  \<^item> The types the models use for C's integers: \<open>u16\<close>, \<open>u32\<close> and \<open>u64\<close> are machine words and
    wrap around; a C \<open>int\<close> or \<open>long\<close> whose value stays in range is an \<open>int\<close>, with
    truncating division \<open>c_div\<close> and \<open>c_mod\<close>.
  \<^item> Undefined behaviour, a kernel \<open>BUG()\<close> and a violated contract of a list primitive are the
    value \<open>None\<close> of an \<open>option\<close>; the do-notation of the option monad sequences such steps.
  \<^item> The intrusive lists \<open>struct list_head queue[N]\<close> of the scheduler are a list of queues, each
    a list of the tasks linked on it, front first. The operations below are the documented
    behaviour of the primitives of \<open>linux/list.h\<close> that the sources call.
  \<^item> Levelled queue arrays, the representation invariant that the time-sharing and the real-time
    class share (their interface is the locale of theory \<open>Class_Spec\<close>).
\<close>

unbundle bit_operations_syntax

type_synonym u8 = "8 word"
type_synonym u16 = "16 word"
type_synonym u32 = "32 word"
type_synonym u64 = "64 word"

named_theorems keeps_intros \<open>operations that leave the queues and the views of the tasks alone\<close>
named_theorems frame_intros \<open>operations that leave the current task and the views alone\<close>


section \<open>C arithmetic\<close>

definition c_div :: "int \<Rightarrow> int \<Rightarrow> int" where
  "c_div a b = sgn a * sgn b * (\<bar>a\<bar> div \<bar>b\<bar>)"

definition c_mod :: "int \<Rightarrow> int \<Rightarrow> int" where
  "c_mod a b = a - b * c_div a b"

lemma c_div_nonneg [simp]: "0 \<le> a \<Longrightarrow> 0 < b \<Longrightarrow> c_div a b = a div b"
  by (cases "a = 0") (simp_all add: c_div_def)

lemma c_mod_nonneg [simp]: "0 \<le> a \<Longrightarrow> 0 < b \<Longrightarrow> c_mod a b = a mod b"
  by (simp add: c_mod_def minus_mult_div_eq_mod)

lemma div_in_decade: "(10::int) * k \<le> a \<Longrightarrow> a < 10 * k + 10 \<Longrightarrow> a div 10 = k"
  by arith

lemma word_dec_unat: "x \<noteq> 0 \<Longrightarrow> unat (x - 1 :: 'a::len word) = unat x - 1"
  by (simp add: unat_gt_0 unat_minus_one)

lemma word_inc_unat: "x < y \<Longrightarrow> unat (x + 1 :: 'a::len word) = Suc (unat x)"
proof -
  assume "x < y"
  then have "Suc (unat x) \<le> unat y" by (simp add: word_less_nat_alt)
  then have "Suc (unat x) < 2 ^ LENGTH('a)" by (rule le_less_trans) (rule unsigned_less)
  then show ?thesis by (simp add: unat_word_ariths)
qed

lemma sint_u32: "- (2 ^ 31) \<le> i \<Longrightarrow> i < 2 ^ 31 \<Longrightarrow> sint (word_of_int i :: u32) = i"
  by (simp add: int_word_sint)

lemma word_of_nat_dec: "x \<noteq> 0 \<Longrightarrow> of_nat (unat x - Suc 0) = (x - 1 :: 'a::len word)"
proof -
  assume "x \<noteq> 0"
  then have "of_nat (unat x - Suc 0) = (of_nat (unat (x - 1)) :: 'a word)"
    by (simp add: word_dec_unat)
  then show ?thesis by simp
qed


lemma bind_Some_prod: "Option.bind x (\<lambda>(a, b). Some (f a b)) = map_option (\<lambda>(a, b). f a b) x"
  by (cases x) auto


section \<open>Arrays of intrusive lists\<close>

type_synonym 'a qarray = "'a list list"

definition linked :: "'a \<Rightarrow> 'a qarray \<Rightarrow> bool" where
  "linked e qs \<longleftrightarrow> (\<exists>q \<in> set qs. e \<in> set q)"

definition in_range :: "int \<Rightarrow> 'a list \<Rightarrow> bool" where
  "in_range i qs \<longleftrightarrow> 0 \<le> i \<and> nat i < length qs"

text \<open>
  \<open>list_add(e, &q[i])\<close> and \<open>list_add_tail(e, &q[i])\<close>: the entry must not be on a list, and the
  index must be inside the array.
\<close>

definition list_add :: "'a \<Rightarrow> int \<Rightarrow> 'a qarray \<Rightarrow> 'a qarray option" where
  "list_add e i qs =
     (if in_range i qs \<and> \<not> linked e qs then Some (qs[nat i := e # qs ! nat i]) else None)"

definition list_add_tail :: "'a \<Rightarrow> int \<Rightarrow> 'a qarray \<Rightarrow> 'a qarray option" where
  "list_add_tail e i qs =
     (if in_range i qs \<and> \<not> linked e qs then Some (qs[nat i := qs ! nat i @ [e]]) else None)"

text \<open>The entry is taken off the list it is on.\<close>

definition unlink :: "'a \<Rightarrow> 'a qarray \<Rightarrow> 'a qarray" where
  "unlink e qs = map (remove1 e) qs"

text \<open>
  \<open>list_del(e)\<close> needs \<open>e\<close> on a list, since it leaves the entry's pointers poisoned;
  \<open>list_del_init(e)\<close> leaves an empty list in the entry, so that deleting twice is harmless.
\<close>

definition list_del :: "'a \<Rightarrow> 'a qarray \<Rightarrow> 'a qarray option" where
  "list_del e qs = (if linked e qs then Some (unlink e qs) else None)"

definition list_del_init :: "'a \<Rightarrow> 'a qarray \<Rightarrow> 'a qarray" where
  "list_del_init e qs = unlink e qs"

definition list_move :: "'a \<Rightarrow> int \<Rightarrow> 'a qarray \<Rightarrow> 'a qarray option" where
  "list_move e i qs =
     (if in_range i qs \<and> linked e qs
      then Some ((unlink e qs)[nat i := e # unlink e qs ! nat i]) else None)"

definition list_move_tail :: "'a \<Rightarrow> int \<Rightarrow> 'a qarray \<Rightarrow> 'a qarray option" where
  "list_move_tail e i qs =
     (if in_range i qs \<and> linked e qs
      then Some ((unlink e qs)[nat i := unlink e qs ! nat i @ [e]]) else None)"

lemma length_unlink [simp]: "length (unlink e qs) = length qs"
  by (simp add: unlink_def)

lemma nth_unlink [simp]: "i < length qs \<Longrightarrow> unlink e qs ! i = remove1 e (qs ! i)"
  by (simp add: unlink_def)

lemma in_range_unlink [simp]: "in_range i (unlink e qs) = in_range i qs"
  by (simp add: in_range_def)

lemma linked_iff_concat: "linked e qs \<longleftrightarrow> e \<in> set (concat qs)"
  by (auto simp: linked_def)

lemma linked_nth: "linked e qs \<longleftrightarrow> (\<exists>i < length qs. e \<in> set (qs ! i))"
  unfolding linked_def by (metis in_set_conv_nth)

lemma linkedI: "i < length qs \<Longrightarrow> e \<in> set (qs ! i) \<Longrightarrow> linked e qs"
  by (auto simp: linked_nth)

lemma mset_concat_upd:
  "i < length qs \<Longrightarrow>
   mset (concat (qs[i := q])) + mset (qs ! i) = mset (concat qs) + mset q"
proof (induction qs arbitrary: i)
  case (Cons a qs)
  then show ?case by (cases i) (auto simp: ac_simps)
qed simp

lemma mset_concat_add:
  assumes "i < length qs"
  shows "mset (concat (qs[i := qs ! i @ [e]])) = add_mset e (mset (concat qs))"
    and "mset (concat (qs[i := e # qs ! i])) = add_mset e (mset (concat qs))"
  using mset_concat_upd [OF assms, of "qs ! i @ [e]"] mset_concat_upd [OF assms, of "e # qs ! i"]
  by (simp_all add: union_commute)

lemma distinct_concat_add:
  assumes "i < length qs"
  shows "distinct (concat (qs[i := qs ! i @ [e]])) \<longleftrightarrow> \<not> linked e qs \<and> distinct (concat qs)"
    and "distinct (concat (qs[i := e # qs ! i])) \<longleftrightarrow> \<not> linked e qs \<and> distinct (concat qs)"
proof -
  have "mset (concat (qs[i := qs ! i @ [e]])) = mset (e # concat qs)"
    and "mset (concat (qs[i := e # qs ! i])) = mset (e # concat qs)"
    using mset_concat_add [OF assms] by simp_all
  then show "distinct (concat (qs[i := qs ! i @ [e]])) \<longleftrightarrow> \<not> linked e qs \<and> distinct (concat qs)"
    and "distinct (concat (qs[i := e # qs ! i])) \<longleftrightarrow> \<not> linked e qs \<and> distinct (concat qs)"
    by (metis distinct.simps(2) linked_iff_concat mset_eq_imp_distinct_iff)+
qed

lemma linked_add [simp]:
  assumes "i < length qs"
  shows "linked x (qs[i := qs ! i @ [e]]) \<longleftrightarrow> x = e \<or> linked x qs"
    and "linked x (qs[i := e # qs ! i]) \<longleftrightarrow> x = e \<or> linked x qs"
  using mset_concat_add [OF assms, of e]
  by (metis insert_iff linked_iff_concat set_mset_add_mset_insert set_mset_mset)+

lemma remove1_concat:
  "distinct (concat qs) \<Longrightarrow> concat (unlink e qs) = remove1 e (concat qs)"
proof (induction qs)
  case (Cons q qs)
  have "unlink e qs = qs" if "e \<in> set q"
    using Cons.prems that by (auto simp: unlink_def intro!: map_idI remove1_idem)
  with Cons show ?case
    by (auto simp: unlink_def remove1_append remove1_idem)
qed (simp add: unlink_def)

lemma distinct_unlink: "distinct (concat qs) \<Longrightarrow> distinct (concat (unlink e qs))"
  by (simp add: remove1_concat)

lemma linked_unlink:
  "distinct (concat qs) \<Longrightarrow> linked x (unlink e qs) \<longleftrightarrow> x \<noteq> e \<and> linked x qs"
  by (auto simp: linked_iff_concat remove1_concat simp del: set_concat)

lemma unlink_unlinked: "\<not> linked e qs \<Longrightarrow> unlink e qs = qs"
  by (auto simp: unlink_def linked_def intro!: map_idI remove1_idem)

lemma distinct_nth_concat: "distinct (concat qs) \<Longrightarrow> i < length qs \<Longrightarrow> distinct (qs ! i)"
proof (induction qs arbitrary: i)
  case (Cons a qs)
  then show ?case by (cases i) auto
qed simp

lemma distinct_concat_unique:
  "distinct (concat qs) \<Longrightarrow> i < length qs \<Longrightarrow> j < length qs \<Longrightarrow>
   e \<in> set (qs ! i) \<Longrightarrow> e \<in> set (qs ! j) \<Longrightarrow> i = j"
proof (induction qs arbitrary: i j)
  case (Cons a qs)
  then show ?case
    by (cases i; cases j) (fastforce dest: nth_mem)+
qed simp

text \<open>Where a queue update lands, read through the array.\<close>

lemma in_set_upd_tail:
  "i < length qs \<Longrightarrow> j < length qs \<Longrightarrow>
   x \<in> set (qs[i := qs ! i @ [e]] ! j) \<longleftrightarrow> x \<in> set (qs ! j) \<or> (x = e \<and> i = j)"
  by (cases "i = j") auto

lemma in_set_upd_head:
  "i < length qs \<Longrightarrow> j < length qs \<Longrightarrow>
   x \<in> set (qs[i := e # qs ! i] ! j) \<longleftrightarrow> x \<in> set (qs ! j) \<or> (x = e \<and> i = j)"
  by (cases "i = j") auto

lemma in_set_unlink:
  "distinct (concat qs) \<Longrightarrow> j < length qs \<Longrightarrow>
   x \<in> set (unlink e qs ! j) \<longleftrightarrow> x \<noteq> e \<and> x \<in> set (qs ! j)"
  by (auto dest: distinct_nth_concat)

lemmas qarray_defs = list_add_def list_add_tail_def list_del_def list_del_init_def
  list_move_def list_move_tail_def in_range_def


section \<open>Levelled queue arrays\<close>

text \<open>
  A queue array is levelled for \<open>idx\<close> when no entry is linked twice and every entry of queue
  \<open>i\<close> has level \<open>idx e = i\<close>: the representation invariant of both scheduling classes.
\<close>

definition levelled :: "('a \<Rightarrow> nat) \<Rightarrow> 'a qarray \<Rightarrow> bool" where
  "levelled idx qs \<longleftrightarrow>
     distinct (concat qs) \<and> (\<forall>i < length qs. \<forall>e \<in> set (qs ! i). idx e = i)"

lemma levelledD:
  assumes "levelled idx qs" "linked e qs"
  shows "idx e < length qs" "e \<in> set (qs ! idx e)"
  using assms by (auto simp: levelled_def linked_nth)

lemma levelled_distinct [simp]: "levelled idx qs \<Longrightarrow> distinct (concat qs)"
  by (simp add: levelled_def)

lemma levelled_add_tail:
  "levelled idx qs \<Longrightarrow> \<not> linked e qs \<Longrightarrow> idx e < length qs \<Longrightarrow>
   levelled idx (qs[idx e := qs ! idx e @ [e]])"
  by (auto simp: levelled_def distinct_concat_add in_set_upd_tail)

lemma levelled_add_head:
  "levelled idx qs \<Longrightarrow> \<not> linked e qs \<Longrightarrow> idx e < length qs \<Longrightarrow>
   levelled idx (qs[idx e := e # qs ! idx e])"
  by (auto simp: levelled_def distinct_concat_add in_set_upd_head)

lemma levelled_unlink: "levelled idx qs \<Longrightarrow> levelled idx (unlink e qs)"
  by (auto simp: levelled_def distinct_unlink in_set_unlink simp del: nth_unlink)

lemma levelled_cong:
  "(\<And>e. linked e qs \<Longrightarrow> idx e = idx' e) \<Longrightarrow> levelled idx qs = levelled idx' qs"
  unfolding levelled_def linked_nth by metis

lemma unlink_not_linked: "levelled idx qs \<Longrightarrow> \<not> linked e (unlink e qs)"
  by (simp add: linked_unlink)

end
