(* ===== verification/Sched_Data.thy ===== *)
theory Sched_Data
  imports Prelude
begin

text \<open>
  The data of the kernel scheduler (\<open>ASS5\<close>): the scheduling policies and flag words of
  \<open>include/uapi/linux/sched.h\<close> and \<open>kernel/sched/sched.h\<close>, the parts of \<open>task_struct\<close> and of
  the run queue that \<open>core.c\<close>, \<open>rt.c\<close> and \<open>ts.c\<close> read and write, and the small helpers of
  the headers.

  The configuration modelled is a uniprocessor 64-bit kernel (\<open>CONFIG_SMP\<close>,
  \<open>CONFIG_SCHED_DEBUG\<close>, \<open>CONFIG_SCHEDSTATS\<close>, \<open>CONFIG_NO_HZ_FULL\<close> and high resolution ticks
  off, \<open>CONFIG_RT_MUTEXES\<close> and \<open>CONFIG_POSIX_TIMERS\<close> on), so there is one run queue. A task is
  named by a number standing for its address; \<open>tsk\<close> is the memory holding the task structures.
  The linkage fields of tasks (\<open>run_list\<close>, \<open>ts.list\<close>) are the queues themselves. Locks, memory
  barriers, tracing and \<open>printk\<close> have no counterpart: a modelled operation is one critical
  section. The state of the classes whose sources are not here (deadline, fair, idle) is the
  type parameter of \<open>kern\<close>.
\<close>


section \<open>Policies, priorities and flags\<close>

definition SCHED_NORMAL :: int where "SCHED_NORMAL = 0"
definition SCHED_FIFO :: int where "SCHED_FIFO = 1"
definition SCHED_RR :: int where "SCHED_RR = 2"
definition SCHED_BATCH :: int where "SCHED_BATCH = 3"
definition SCHED_IDLE :: int where "SCHED_IDLE = 5"
definition SCHED_DEADLINE :: int where "SCHED_DEADLINE = 6"
definition SCHED_TS :: int where "SCHED_TS = 10"
definition SCHED_RESET_ON_FORK :: int where "SCHED_RESET_ON_FORK = 0x40000000"

definition SCHED_FLAG_RESET_ON_FORK :: u64 where "SCHED_FLAG_RESET_ON_FORK = 1"
definition SCHED_FLAG_RECLAIM :: u64 where "SCHED_FLAG_RECLAIM = 2"
definition SCHED_FLAG_DL_OVERRUN :: u64 where "SCHED_FLAG_DL_OVERRUN = 4"
definition SCHED_FLAG_SUGOV :: u64 where "SCHED_FLAG_SUGOV = 0x10000000"
definition SCHED_FLAG_ALL :: u64 where
  "SCHED_FLAG_ALL = SCHED_FLAG_RESET_ON_FORK OR SCHED_FLAG_RECLAIM OR SCHED_FLAG_DL_OVERRUN"

lemmas policy_defs = SCHED_NORMAL_def SCHED_FIFO_def SCHED_RR_def SCHED_BATCH_def SCHED_IDLE_def
  SCHED_DEADLINE_def SCHED_TS_def

text \<open>The priority scale of \<open>linux/sched/prio.h\<close>: the range \<open>0 .. 99\<close> is real time, \<open>100 .. 139\<close>
  is nice \<open>-20 .. 19\<close>; deadline tasks have negative priorities.\<close>

definition MAX_RT_PRIO :: int where "MAX_RT_PRIO = 100"
definition MAX_USER_RT_PRIO :: int where "MAX_USER_RT_PRIO = 100"
definition MAX_DL_PRIO :: int where "MAX_DL_PRIO = 0"
definition MIN_NICE :: int where "MIN_NICE = -20"
definition MAX_NICE :: int where "MAX_NICE = 19"
definition NICE_WIDTH :: int where "NICE_WIDTH = MAX_NICE - MIN_NICE + 1"
definition DEFAULT_PRIO :: int where "DEFAULT_PRIO = MAX_RT_PRIO + NICE_WIDTH div 2"

definition NICE_TO_PRIO :: "int \<Rightarrow> int" where "NICE_TO_PRIO nice = nice + DEFAULT_PRIO"
definition PRIO_TO_NICE :: "int \<Rightarrow> int" where "PRIO_TO_NICE pr = pr - DEFAULT_PRIO"
definition rt_prio :: "int \<Rightarrow> bool" where "rt_prio pr \<longleftrightarrow> pr < MAX_RT_PRIO"
definition dl_prio :: "int \<Rightarrow> bool" where "dl_prio pr \<longleftrightarrow> pr < MAX_DL_PRIO"

lemmas prio_defs = MAX_RT_PRIO_def MAX_USER_RT_PRIO_def MAX_DL_PRIO_def MIN_NICE_def MAX_NICE_def
  NICE_WIDTH_def DEFAULT_PRIO_def NICE_TO_PRIO_def PRIO_TO_NICE_def rt_prio_def dl_prio_def

definition TASK_RUNNING :: int where "TASK_RUNNING = 0"
definition TASK_INTERRUPTIBLE :: int where "TASK_INTERRUPTIBLE = 1"
definition TASK_UNINTERRUPTIBLE :: int where "TASK_UNINTERRUPTIBLE = 2"
definition TASK_DEAD :: int where "TASK_DEAD = 0x80"
definition TASK_NOLOAD :: int where "TASK_NOLOAD = 0x400"
definition TASK_NEW :: int where "TASK_NEW = 0x800"
definition TASK_NORMAL :: int where "TASK_NORMAL = TASK_INTERRUPTIBLE OR TASK_UNINTERRUPTIBLE"

lemmas state_defs = TASK_RUNNING_def TASK_INTERRUPTIBLE_def TASK_UNINTERRUPTIBLE_def
  TASK_DEAD_def TASK_NOLOAD_def TASK_NEW_def TASK_NORMAL_def

definition PF_WQ_WORKER :: u32 where "PF_WQ_WORKER = 0x20"
definition PF_FROZEN :: u32 where "PF_FROZEN = 0x10000"
definition PF_KTHREAD :: u32 where "PF_KTHREAD = 0x200000"
definition PF_NOFREEZE :: u32 where "PF_NOFREEZE = 0x8000"

definition TASK_ON_RQ_QUEUED :: int where "TASK_ON_RQ_QUEUED = 1"

definition DEQUEUE_SLEEP :: int where "DEQUEUE_SLEEP = 0x01"
definition DEQUEUE_SAVE :: int where "DEQUEUE_SAVE = 0x02"
definition DEQUEUE_MOVE :: int where "DEQUEUE_MOVE = 0x04"
definition DEQUEUE_NOCLOCK :: int where "DEQUEUE_NOCLOCK = 0x08"
definition ENQUEUE_WAKEUP :: int where "ENQUEUE_WAKEUP = 0x01"
definition ENQUEUE_RESTORE :: int where "ENQUEUE_RESTORE = 0x02"
definition ENQUEUE_MOVE :: int where "ENQUEUE_MOVE = 0x04"
definition ENQUEUE_NOCLOCK :: int where "ENQUEUE_NOCLOCK = 0x08"
definition ENQUEUE_HEAD :: int where "ENQUEUE_HEAD = 0x10"
definition ENQUEUE_REPLENISH :: int where "ENQUEUE_REPLENISH = 0x20"

lemmas flag_defs = DEQUEUE_SLEEP_def DEQUEUE_SAVE_def DEQUEUE_MOVE_def DEQUEUE_NOCLOCK_def
  ENQUEUE_WAKEUP_def ENQUEUE_RESTORE_def ENQUEUE_MOVE_def ENQUEUE_NOCLOCK_def ENQUEUE_HEAD_def
  ENQUEUE_REPLENISH_def

definition WF_SYNC :: int where "WF_SYNC = 0x01"
definition WF_FORK :: int where "WF_FORK = 0x02"

definition RQCF_REQ_SKIP :: u32 where "RQCF_REQ_SKIP = 0x01"
definition RQCF_ACT_SKIP :: u32 where "RQCF_ACT_SKIP = 0x02"

definition RUNTIME_INF :: u64 where "RUNTIME_INF = NOT 0"
definition NSEC_PER_USEC :: u64 where "NSEC_PER_USEC = 1000"

definition idle_policy :: "int \<Rightarrow> bool" where "idle_policy pol \<longleftrightarrow> pol = SCHED_IDLE"
definition fair_policy :: "int \<Rightarrow> bool" where
  "fair_policy pol \<longleftrightarrow> pol = SCHED_NORMAL \<or> pol = SCHED_BATCH"
definition rt_policy :: "int \<Rightarrow> bool" where "rt_policy pol \<longleftrightarrow> pol = SCHED_FIFO \<or> pol = SCHED_RR"
definition dl_policy :: "int \<Rightarrow> bool" where "dl_policy pol \<longleftrightarrow> pol = SCHED_DEADLINE"
definition ts_policy :: "int \<Rightarrow> bool" where "ts_policy pol \<longleftrightarrow> pol = SCHED_TS"
definition valid_policy :: "int \<Rightarrow> bool" where
  "valid_policy pol \<longleftrightarrow> idle_policy pol \<or> fair_policy pol \<or> rt_policy pol \<or> dl_policy pol \<or>
     ts_policy pol"

lemmas policy_preds = idle_policy_def fair_policy_def rt_policy_def dl_policy_def ts_policy_def
  valid_policy_def


section \<open>Tasks\<close>

type_synonym pid = nat \<comment> \<open>the address of a \<open>task_struct\<close>\<close>

text \<open>The address held by a task's \<open>sched_class\<close> pointer.\<close>

datatype class_id = StopClass | DlClass | RtClass | TsClass | FairClass | IdleClass

record load_weight =
  weight :: u64
  inv_weight :: u32

record sched_entity =
  load :: load_weight
  se_on_rq :: u32
  exec_start :: u64
  sum_exec_runtime :: u64
  vruntime :: u64
  prev_sum_exec_runtime :: u64
  nr_migrations :: u64

record sched_rt_entity =
  rt_timeout :: u64
  watchdog_stamp :: u64
  rt_time_slice :: u32
  rt_on_rq :: bool
  rt_on_list :: bool

record sched_dl_entity =
  deadline :: u64
  dl_flags :: u32
  dl_boosted :: bool

record sched_ts_entity =
  ts_time_slice :: u32

record task_struct =
  state :: int
  tflags :: u32
  on_rq :: int
  prio :: int
  static_prio :: int
  normal_prio :: int
  rt_priority :: u32
  sched_class :: class_id
  se :: sched_entity
  rt :: sched_rt_entity
  dl :: sched_dl_entity
  ts :: sched_ts_entity
  policy :: int
  nr_cpus_allowed :: int
  has_mm :: bool
  sched_reset_on_fork :: bool
  in_iowait :: bool
  need_resched :: bool
  nvcsw :: u64
  nivcsw :: u64
  pi_top_task :: "pid option"
  sched_exp :: u64
  uid :: nat
  euid :: nat


section \<open>The run queue\<close>

record rt_prio_array =
  bitmap :: "bool list"
  rt_queue :: "pid qarray"

record rt_rq =
  active :: rt_prio_array
  rt_nr_running :: u32
  rr_nr_running :: u32
  rt_queued :: bool
  rt_throttled :: bool
  rt_time :: u64
  rt_runtime :: u64

record ts_rq =
  queue :: "pid qarray"

record rt_bandwidth =
  rt_period :: u64
  bw_rt_runtime :: u64
  rt_period_active :: bool

record 'x kern =
  tsk :: "pid \<Rightarrow> task_struct"
  nr_running :: u32
  h_nr_running :: u32
  nr_switches :: u64
  nr_uninterruptible :: u64
  curr :: pid
  idle :: pid
  stop :: "pid option"
  clock :: u64
  clock_task :: u64
  clock_update_flags :: u32
  nr_iowait :: int
  rq_rt :: rt_rq
  rq_ts :: ts_rq
  dl_nr_running :: u64
  def_rt_bandwidth :: rt_bandwidth
  sysctl_sched_rt_period :: u32
  sysctl_sched_rt_runtime :: int
  sched_rr_timeslice :: u32
  jiffies :: u64
  sched_clock :: u64
  ext :: 'x

abbreviation upd_task :: "'x kern \<Rightarrow> pid \<Rightarrow> (task_struct \<Rightarrow> task_struct) \<Rightarrow> 'x kern" where
  "upd_task k p f \<equiv> k\<lparr>tsk := (tsk k)(p := f (tsk k p))\<rparr>"

abbreviation upd_rt :: "'x kern \<Rightarrow> (rt_rq \<Rightarrow> rt_rq) \<Rightarrow> 'x kern" where
  "upd_rt k f \<equiv> k\<lparr>rq_rt := f (rq_rt k)\<rparr>"


section \<open>Helpers of the headers and of core.c that every class uses\<close>

definition task_has_rt_policy :: "'a task_struct_scheme \<Rightarrow> bool" where
  "task_has_rt_policy t = rt_policy (policy t)"

definition task_has_dl_policy :: "'a task_struct_scheme \<Rightarrow> bool" where
  "task_has_dl_policy t = dl_policy (policy t)"

definition task_nice :: "'a task_struct_scheme \<Rightarrow> int" where
  "task_nice t = PRIO_TO_NICE (static_prio t)"

definition task_contributes_to_load :: "'a task_struct_scheme \<Rightarrow> bool" where
  "task_contributes_to_load t \<longleftrightarrow>
     state t AND TASK_UNINTERRUPTIBLE \<noteq> 0 \<and> tflags t AND PF_FROZEN = 0 \<and>
     state t AND TASK_NOLOAD = 0"

definition task_current :: "'x kern \<Rightarrow> pid \<Rightarrow> bool" where
  "task_current k p \<longleftrightarrow> curr k = p"

definition task_on_rq_queued :: "'a task_struct_scheme \<Rightarrow> bool" where
  "task_on_rq_queued t \<longleftrightarrow> on_rq t = TASK_ON_RQ_QUEUED"

text \<open>On a uniprocessor \<open>task_running\<close> is \<open>task_current\<close>.\<close>

definition task_running :: "'x kern \<Rightarrow> pid \<Rightarrow> bool" where
  "task_running k p = task_current k p"

definition set_tsk_need_resched :: "pid \<Rightarrow> 'x kern \<Rightarrow> 'x kern" where
  "set_tsk_need_resched p k = upd_task k p (\<lambda>t. t\<lparr>need_resched := True\<rparr>)"

definition clear_tsk_need_resched :: "pid \<Rightarrow> 'x kern \<Rightarrow> 'x kern" where
  "clear_tsk_need_resched p k = upd_task k p (\<lambda>t. t\<lparr>need_resched := False\<rparr>)"

text \<open>\<open>resched_curr\<close>: the run queue's CPU is this CPU.\<close>

definition resched_curr :: "'x kern \<Rightarrow> 'x kern" where
  "resched_curr k =
     (if need_resched (tsk k (curr k)) then k else set_tsk_need_resched (curr k) k)"

definition add_nr_running :: "u32 \<Rightarrow> 'x kern \<Rightarrow> 'x kern" where
  "add_nr_running n k = k\<lparr>nr_running := nr_running k + n\<rparr>"

definition sub_nr_running :: "u32 \<Rightarrow> 'x kern \<Rightarrow> 'x kern" where
  "sub_nr_running n k = k\<lparr>nr_running := nr_running k - n\<rparr>"

definition rq_clock_skip_update :: "'x kern \<Rightarrow> 'x kern" where
  "rq_clock_skip_update k = k\<lparr>clock_update_flags := clock_update_flags k OR RQCF_REQ_SKIP\<rparr>"

definition rq_clock_cancel_skipupdate :: "'x kern \<Rightarrow> 'x kern" where
  "rq_clock_cancel_skipupdate k =
     k\<lparr>clock_update_flags := clock_update_flags k AND NOT RQCF_REQ_SKIP\<rparr>"

definition update_rq_clock_task :: "u64 \<Rightarrow> 'x kern \<Rightarrow> 'x kern" where
  "update_rq_clock_task delta k = k\<lparr>clock_task := clock_task k + delta\<rparr>"

definition update_rq_clock :: "'x kern \<Rightarrow> 'x kern" where
  "update_rq_clock k =
     (if clock_update_flags k AND RQCF_ACT_SKIP \<noteq> 0 then k
      else let delta = sched_clock k - clock k
           in if sint delta < 0 then k
              else update_rq_clock_task delta (k\<lparr>clock := clock k + delta\<rparr>))"

definition rt_bandwidth_enabled :: "'x kern \<Rightarrow> bool" where
  "rt_bandwidth_enabled k \<longleftrightarrow> sysctl_sched_rt_runtime k \<ge> 0"

definition global_rt_period :: "'x kern \<Rightarrow> u64" where
  "global_rt_period k = ucast (sysctl_sched_rt_period k) * NSEC_PER_USEC"

definition global_rt_runtime :: "'x kern \<Rightarrow> u64" where
  "global_rt_runtime k =
     (if sysctl_sched_rt_runtime k < 0 then RUNTIME_INF
      else word_of_int (sysctl_sched_rt_runtime k) * NSEC_PER_USEC)"

text \<open>The clock never runs backwards, whatever the hardware clock reads.\<close>

lemma update_rq_clock_frame [simp]:
  "tsk (update_rq_clock k) = tsk k" "curr (update_rq_clock k) = curr k"
  "idle (update_rq_clock k) = idle k" "stop (update_rq_clock k) = stop k"
  "rq_rt (update_rq_clock k) = rq_rt k" "rq_ts (update_rq_clock k) = rq_ts k"
  "nr_running (update_rq_clock k) = nr_running k"
  "h_nr_running (update_rq_clock k) = h_nr_running k" "ext (update_rq_clock k) = ext k"
  "sysctl_sched_rt_runtime (update_rq_clock k) = sysctl_sched_rt_runtime k"
  "def_rt_bandwidth (update_rq_clock k) = def_rt_bandwidth k"
  by (auto simp: update_rq_clock_def update_rq_clock_task_def Let_def)

lemma resched_curr_frame [simp]:
  "rq_rt (resched_curr k) = rq_rt k" "rq_ts (resched_curr k) = rq_ts k"
  "curr (resched_curr k) = curr k" "idle (resched_curr k) = idle k"
  "nr_running (resched_curr k) = nr_running k" "ext (resched_curr k) = ext k"
  "h_nr_running (resched_curr k) = h_nr_running k"
  "stop (resched_curr k) = stop k"
  by (simp_all add: resched_curr_def set_tsk_need_resched_def)

text \<open>Rescheduling sets one flag of the current task and nothing else.\<close>

lemma resched_curr_task:
  "tsk (resched_curr k) p = (if p = curr k then (tsk k p)\<lparr>need_resched := True\<rparr> else tsk k p)"
  by (simp add: resched_curr_def set_tsk_need_resched_def)

lemma resched_curr_task_fields [simp]:
  "prio (tsk (resched_curr k) p) = prio (tsk k p)"
  "sched_class (tsk (resched_curr k) p) = sched_class (tsk k p)"
  "policy (tsk (resched_curr k) p) = policy (tsk k p)"
  "ts (tsk (resched_curr k) p) = ts (tsk k p)"
  "rt (tsk (resched_curr k) p) = rt (tsk k p)"
  "se (tsk (resched_curr k) p) = se (tsk k p)"
  "on_rq (tsk (resched_curr k) p) = on_rq (tsk k p)"
  "state (tsk (resched_curr k) p) = state (tsk k p)"
  by (simp_all add: resched_curr_task)


section \<open>Concrete states\<close>

text \<open>A task and a run queue with every field at rest, from which examples are built.\<close>

definition blank_task :: task_struct where
  "blank_task = \<lparr>state = 0, tflags = 0, on_rq = 0, prio = 120, static_prio = 120, normal_prio = 120,
     rt_priority = 0, sched_class = FairClass,
     se = \<lparr>load = \<lparr>weight = 0, inv_weight = 0\<rparr>, se_on_rq = 0, exec_start = 0, sum_exec_runtime = 0,
       vruntime = 0, prev_sum_exec_runtime = 0, nr_migrations = 0\<rparr>,
     rt = \<lparr>rt_timeout = 0, watchdog_stamp = 0, rt_time_slice = 0, rt_on_rq = False,
       rt_on_list = False\<rparr>,
     dl = \<lparr>deadline = 0, dl_flags = 0, dl_boosted = False\<rparr>,
     ts = \<lparr>ts_time_slice = 0\<rparr>,
     policy = 0, nr_cpus_allowed = 1, has_mm = True, sched_reset_on_fork = False,
     in_iowait = False, need_resched = False, nvcsw = 0, nivcsw = 0, pi_top_task = None,
     sched_exp = 0, uid = 0, euid = 0\<rparr>"

definition blank_kern :: "unit kern" where
  "blank_kern = \<lparr>tsk = (\<lambda>_. blank_task), nr_running = 0, h_nr_running = 0, nr_switches = 0,
     nr_uninterruptible = 0, curr = 0, idle = 0, stop = None, clock = 0, clock_task = 0,
     clock_update_flags = 0, nr_iowait = 0,
     rq_rt = \<lparr>active = \<lparr>bitmap = replicate 100 False @ [True], rt_queue = replicate 100 []\<rparr>,
       rt_nr_running = 0, rr_nr_running = 0, rt_queued = False, rt_throttled = False,
       rt_time = 0, rt_runtime = 950000000\<rparr>,
     rq_ts = \<lparr>queue = replicate 40 []\<rparr>, dl_nr_running = 0,
     def_rt_bandwidth = \<lparr>rt_period = 1000000000, bw_rt_runtime = 950000000,
       rt_period_active = False\<rparr>,
     sysctl_sched_rt_period = 1000000, sysctl_sched_rt_runtime = 950000,
     sched_rr_timeslice = 25, jiffies = 0, sched_clock = 0, ext = ()\<rparr>"

end
