(* ===== verification/Class_Spec.thy ===== *)
theory Class_Spec
  imports Sched_Data
begin

text \<open>
  What \<open>core.c\<close> relies on when it calls a scheduling class through \<open>struct sched_class\<close>: the
  class keeps a set of runnable tasks; enqueueing adds one, dequeueing removes one, and picking
  returns a runnable task of the best priority, or nothing exactly when none is runnable. The
  time-sharing class (theory \<open>Sched_Ts\<close>) and the real-time class (theory \<open>Sched_Rt\<close>) are
  instances. The abstract specification is the set of runnable tasks alone.
\<close>

datatype rq_op = Enq pid | Deq pid

fun abs_op :: "rq_op \<Rightarrow> pid set \<Rightarrow> pid set option" where
  "abs_op (Enq p) R = (if p \<in> R then None else Some (insert p R))"
| "abs_op (Deq p) R = (if p \<in> R then Some (R - {p}) else None)"

fun abs_ops :: "rq_op list \<Rightarrow> pid set \<Rightarrow> pid set option" where
  "abs_ops [] R = Some R"
| "abs_ops (x # xs) R = Option.bind (abs_op x R) (abs_ops xs)"

fun conc_op :: "('s \<Rightarrow> pid \<Rightarrow> 's option) \<Rightarrow> ('s \<Rightarrow> pid \<Rightarrow> 's option) \<Rightarrow> rq_op \<Rightarrow> 's \<Rightarrow> 's option"
  where
  "conc_op enq deq (Enq p) s = enq s p"
| "conc_op enq deq (Deq p) s = deq s p"

fun conc_ops ::
  "('s \<Rightarrow> pid \<Rightarrow> 's option) \<Rightarrow> ('s \<Rightarrow> pid \<Rightarrow> 's option) \<Rightarrow> rq_op list \<Rightarrow> 's \<Rightarrow> 's option"
  where
  "conc_ops enq deq [] s = Some s"
| "conc_ops enq deq (x # xs) s = Option.bind (conc_op enq deq x s) (conc_ops enq deq xs)"

fun op_task :: "rq_op \<Rightarrow> pid" where
  "op_task (Enq p) = p"
| "op_task (Deq p) = p"

locale class_queue =
  fixes inv :: "'s \<Rightarrow> bool"
    and runnable :: "'s \<Rightarrow> pid set"
    and level :: "'s \<Rightarrow> pid \<Rightarrow> int"
    and ready :: "'s \<Rightarrow> pid \<Rightarrow> bool"
    and enq :: "'s \<Rightarrow> pid \<Rightarrow> 's option"
    and deq :: "'s \<Rightarrow> pid \<Rightarrow> 's option"
    and pick :: "'s \<Rightarrow> pid option"
  assumes enq_ok: "inv s \<Longrightarrow> ready s p \<Longrightarrow> p \<notin> runnable s \<Longrightarrow>
      \<exists>s'. enq s p = Some s' \<and> inv s' \<and> runnable s' = insert p (runnable s)"
    and deq_ok: "inv s \<Longrightarrow> p \<in> runnable s \<Longrightarrow>
      \<exists>s'. deq s p = Some s' \<and> inv s' \<and> runnable s' = runnable s - {p}"
    and enq_ready: "enq s p = Some s' \<Longrightarrow> ready s q \<Longrightarrow> ready s' q"
    and deq_ready: "deq s p = Some s' \<Longrightarrow> ready s q \<Longrightarrow> ready s' q"
    and pick_none: "inv s \<Longrightarrow> pick s = None \<longleftrightarrow> runnable s = {}"
    and pick_best: "inv s \<Longrightarrow> pick s = Some p \<Longrightarrow>
      p \<in> runnable s \<and> (\<forall>q \<in> runnable s. level s p \<le> level s q)"
begin

lemma op_refines:
  assumes "inv s" "ready s (op_task x)" "abs_op x (runnable s) = Some R"
  shows "\<exists>s'. conc_op enq deq x s = Some s' \<and> inv s' \<and> runnable s' = R \<and>
           (\<forall>q. ready s q \<longrightarrow> ready s' q)"
proof (cases x)
  case (Enq p)
  with assms enq_ok [of s p] show ?thesis
    by (auto split: if_splits dest: enq_ready)
next
  case (Deq p)
  with assms deq_ok [of s p] show ?thesis
    by (auto split: if_splits dest: deq_ready)
qed

lemma ops_refine:
  "inv s \<Longrightarrow> \<forall>x \<in> set xs. ready s (op_task x) \<Longrightarrow> abs_ops xs (runnable s) = Some R \<Longrightarrow>
   \<exists>s'. conc_ops enq deq xs s = Some s' \<and> inv s' \<and> runnable s' = R"
proof (induction xs arbitrary: s)
  case (Cons x xs)
  from Cons.prems(3) obtain R1 where R1: "abs_op x (runnable s) = Some R1" "abs_ops xs R1 = Some R"
    by (auto simp: bind_eq_Some_conv)
  from op_refines [OF Cons.prems(1) _ R1(1)] Cons.prems(2) obtain s1
    where s1: "conc_op enq deq x s = Some s1" "inv s1" "runnable s1 = R1"
      "\<And>q. ready s q \<Longrightarrow> ready s1 q"
    by auto
  with Cons.IH [of s1] R1(2) Cons.prems(2) show ?case by auto
qed simp

lemma pick_runnable: "inv s \<Longrightarrow> runnable s \<noteq> {} \<Longrightarrow>
   \<exists>p \<in> runnable s. pick s = Some p \<and> (\<forall>q \<in> runnable s. level s p \<le> level s q)"
  using pick_none [of s] pick_best [of s] by (cases "pick s") auto

lemma ops_then_pick:
  assumes "inv s" "\<forall>x \<in> set xs. ready s (op_task x)" "abs_ops xs (runnable s) = Some R" "R \<noteq> {}"
  shows "\<exists>s' p. conc_ops enq deq xs s = Some s' \<and> pick s' = Some p \<and> p \<in> R \<and>
           (\<forall>q \<in> R. level s' p \<le> level s' q)"
  using ops_refine [OF assms(1-3)] pick_runnable assms(4) by metis

end

end
