(* ===== verification/Sched_Ts.thy ===== *)
theory Sched_Ts
  imports Class_Spec
begin

text \<open>
  The time-sharing scheduling class, \<open>kernel/sched/ts.c\<close>: forty queues, one per nice priority,
  with time slices of 4, 8, 12 and 16 ticks by decade, demotion by ten levels when a slice is
  used up and promotion to the top decade on wakeup. Every operation of \<open>ts_sched_class\<close> is a
  definition; \<open>None\<close> is an access outside \<open>queue[40]\<close>, a use of an entry that violates the list
  contract, or the use of the uninitialised result of \<open>prioTimeslice\<close>.

  The lemmas show the representation invariant \<open>ts_wf\<close>, the functional behaviour of each
  operation on every branch, and that the class meets the contract \<open>class_queue\<close>.
\<close>


section \<open>The operations\<close>

definition prioQueue :: "int \<Rightarrow> int" where
  "prioQueue pr = -1 * (pr - 139)"

definition prioTimeslice :: "int \<Rightarrow> u32 option" where
  "prioTimeslice pr =
     (let d = c_div pr 10
      in if d = 13 then Some 16
         else if d = 12 then Some 12
         else if d = 11 then Some 8
         else if d = 10 then Some 4
         else None)"

definition init_ts_rq :: "ts_rq \<Rightarrow> ts_rq" where
  "init_ts_rq q = foldl (\<lambda>q x. q\<lparr>queue := (queue q)[x := []]\<rparr>) q [0..<40]"

text \<open>The priority a woken task gets (the \<open>if\<close> chain of \<open>enqueue_task_ts\<close>).\<close>

definition wakeup_prio :: "int \<Rightarrow> int" where
  "wakeup_prio pr =
     (if c_div pr 10 = 13 then 109
      else if c_div pr 10 = 12 then 108
      else if c_div pr 10 = 10 then 100
      else if pr = 119 then 107
      else if pr = 118 then 106
      else if pr = 117 then 105
      else if pr = 116 then 104
      else if pr = 115 \<or> pr = 114 then 103
      else if pr = 113 \<or> pr = 112 then 102
      else if pr = 111 \<or> pr = 110 then 101
      else pr)"

definition set_ts_queue :: "'x kern \<Rightarrow> pid qarray \<Rightarrow> 'x kern" where
  "set_ts_queue k qs = k\<lparr>rq_ts := (rq_ts k)\<lparr>queue := qs\<rparr>\<rparr>"

abbreviation ts_queue :: "'x kern \<Rightarrow> pid qarray" where
  "ts_queue k \<equiv> queue (rq_ts k)"

definition enqueue_task_ts :: "'x kern \<Rightarrow> pid \<Rightarrow> int \<Rightarrow> 'x kern option" where
  "enqueue_task_ts k p flags =
     (let k = (if flags AND ENQUEUE_WAKEUP \<noteq> 0
               then upd_task k p (\<lambda>t. t\<lparr>prio := wakeup_prio (prio t)\<rparr>) else k)
      in map_option (set_ts_queue k)
           (list_add_tail p (prioQueue (prio (tsk k p))) (ts_queue k)))"

definition dequeue_task_ts :: "'x kern \<Rightarrow> pid \<Rightarrow> int \<Rightarrow> 'x kern option" where
  "dequeue_task_ts k p flags = map_option (set_ts_queue k) (list_del p (ts_queue k))"

definition yield_task_ts :: "'x kern \<Rightarrow> 'x kern option" where
  "yield_task_ts k =
     map_option (set_ts_queue k)
       (list_move_tail (curr k) (prioQueue (prio (tsk k (curr k)))) (ts_queue k))"

definition check_preempt_curr_ts :: "'x kern \<Rightarrow> pid \<Rightarrow> int \<Rightarrow> 'x kern" where
  "check_preempt_curr_ts k p flags =
     (if prio (tsk k (curr k)) > prio (tsk k p) then resched_curr k else k)"

text \<open>
  The scan of \<open>pick_next_task_ts\<close>: \<open>for (x = 39; x >= 0; x--)\<close> stops at the first queue that is
  not empty; \<open>-1\<close> when all are. \<open>ts_scan qs n\<close> looks at the queues \<open>n - 1, \<dots>, 0\<close>.
\<close>

fun ts_scan :: "pid qarray \<Rightarrow> nat \<Rightarrow> int" where
  "ts_scan qs 0 = -1"
| "ts_scan qs (Suc x) = (if qs ! x \<noteq> [] then int x else ts_scan qs x)"

text \<open>
  \<open>pick_next_task_ts\<close> calls \<open>put_prev_task\<close>, which goes through the class of \<open>prev\<close>; that call
  is the first argument. The result is the task picked, if any, and the state after the call.
\<close>

definition pick_next_task_ts ::
  "('x kern \<Rightarrow> pid \<Rightarrow> 'x kern option) \<Rightarrow> 'x kern \<Rightarrow> pid \<Rightarrow> (pid option \<times> 'x kern) option" where
  "pick_next_task_ts put_prev k prev =
     (let x = ts_scan (ts_queue k) 40
      in if x = -1 then Some (None, k)
         else do {
           k \<leftarrow> put_prev k prev;
           Some (Some (hd (ts_queue k ! nat x)), k)
         })"

definition put_prev_task_ts :: "'x kern \<Rightarrow> pid \<Rightarrow> 'x kern" where
  "put_prev_task_ts k p = k"

definition set_curr_task_ts :: "'x kern \<Rightarrow> 'x kern" where
  "set_curr_task_ts k = k"

definition task_tick_ts :: "'x kern \<Rightarrow> pid \<Rightarrow> bool \<Rightarrow> 'x kern option" where
  "task_tick_ts k p queued =
     (if policy (tsk k p) \<noteq> SCHED_TS then Some k
      else
        let k = upd_task k p (\<lambda>t. t\<lparr>ts := (ts t)\<lparr>ts_time_slice := ts_time_slice (ts t) - 1\<rparr>\<rparr>)
        in if ts_time_slice (ts (tsk k p)) \<noteq> 0 then Some k
           else
             let k = (if prio (tsk k p) + 10 \<ge> 139
                      then upd_task k p (\<lambda>t. t\<lparr>prio := 139\<rparr>)
                      else upd_task k p (\<lambda>t. t\<lparr>prio := prio t + 10\<rparr>))
             in do {
               slice \<leftarrow> prioTimeslice (prio (tsk k p));
               let k = upd_task k p (\<lambda>t. t\<lparr>ts := (ts t)\<lparr>ts_time_slice := slice\<rparr>\<rparr>);
               qs \<leftarrow> list_move_tail p (prioQueue (prio (tsk k p))) (ts_queue k);
               Some (set_tsk_need_resched p (set_ts_queue k qs))
             })"

definition get_rr_interval_ts :: "'x kern \<Rightarrow> pid \<Rightarrow> u32 option" where
  "get_rr_interval_ts k p = prioTimeslice (prio (tsk k p))"

definition prio_changed_ts :: "'x kern \<Rightarrow> pid \<Rightarrow> int \<Rightarrow> 'x kern" where
  "prio_changed_ts k p oldprio = k"

definition switched_to_ts :: "'x kern \<Rightarrow> pid \<Rightarrow> 'x kern" where
  "switched_to_ts k p = k"

definition update_curr_ts :: "'x kern \<Rightarrow> 'x kern" where
  "update_curr_ts k = k"


section \<open>Priorities, queues and slices\<close>

definition ts_prio_ok :: "int \<Rightarrow> bool" where
  "ts_prio_ok pr \<longleftrightarrow> 100 \<le> pr \<and> pr \<le> 139"

definition ts_level :: "'x kern \<Rightarrow> pid \<Rightarrow> nat" where
  "ts_level k p = nat (prioQueue (prio (tsk k p)))"

text \<open>Priorities and queue indexes correspond one to one on the range of the class.\<close>

lemma prioQueue_range: "ts_prio_ok pr \<longleftrightarrow> 0 \<le> prioQueue pr \<and> prioQueue pr < 40"
  by (auto simp: ts_prio_ok_def prioQueue_def)

lemma prioQueue_nat [simp]: "ts_prio_ok pr \<Longrightarrow> nat (prioQueue pr) < 40"
  by (auto simp: ts_prio_ok_def prioQueue_def)

lemma prioQueue_less: "prioQueue a < prioQueue b \<longleftrightarrow> b < a"
  by (auto simp: prioQueue_def)

lemma decade:
  assumes "ts_prio_ok pr"
  shows "100 \<le> pr \<and> pr \<le> 109 \<and> c_div pr 10 = 10 \<or> 110 \<le> pr \<and> pr \<le> 119 \<and> c_div pr 10 = 11 \<or>
    120 \<le> pr \<and> pr \<le> 129 \<and> c_div pr 10 = 12 \<or> 130 \<le> pr \<and> pr \<le> 139 \<and> c_div pr 10 = 13"
proof -
  have "c_div pr 10 = pr div 10" using assms by (simp add: ts_prio_ok_def)
  then show ?thesis using assms unfolding ts_prio_ok_def by arith
qed

lemma prioTimeslice_Some:
  assumes "ts_prio_ok pr"
  shows "prioTimeslice pr = Some (4 * word_of_int (pr div 10 - 9))"
proof -
  have "pr div 10 = c_div pr 10" using assms by (simp add: ts_prio_ok_def)
  then show ?thesis
    using decade [OF assms] by (elim disjE conjE) (simp_all add: prioTimeslice_def)
qed

lemma prioTimeslice_nonzero: "ts_prio_ok pr \<Longrightarrow> \<exists>x. prioTimeslice pr = Some x \<and> x \<noteq> 0 \<and> unat x \<le> 16"
  using decade [of pr] by (auto simp: prioTimeslice_def)

lemma wakeup_prio_bounds:
  assumes "ts_prio_ok pr"
  shows "100 \<le> wakeup_prio pr \<and> wakeup_prio pr \<le> 109 \<and> wakeup_prio pr \<le> pr"
  using decade [OF assms] by (elim disjE conjE) (simp_all add: wakeup_prio_def, arith)

lemma wakeup_prio_step:
  assumes "100 \<le> a" "a \<le> 138"
  shows "wakeup_prio a \<le> wakeup_prio (a + 1)"
proof -
  have "a \<le> 108 \<or> a = 109 \<or> a = 110 \<or> a = 111 \<or> a = 112 \<or> a = 113 \<or> a = 114 \<or> a = 115 \<or>
      a = 116 \<or> a = 117 \<or> a = 118 \<or> a = 119 \<or> (120 \<le> a \<and> a \<le> 128) \<or> a = 129 \<or> 130 \<le> a"
    using assms by presburger
  moreover have ?thesis if "a \<le> 108"
  proof -
    from that have "c_div a 10 = 10" "c_div (a + 1) 10 = 10" using assms by auto
    then show ?thesis by (simp add: wakeup_prio_def)
  qed
  moreover have ?thesis if "120 \<le> a \<and> a \<le> 128"
  proof -
    from that have "c_div a 10 = 12" "c_div (a + 1) 10 = 12" by auto
    then show ?thesis by (simp add: wakeup_prio_def)
  qed
  moreover have ?thesis if "130 \<le> a"
  proof -
    from that have "c_div a 10 = 13" "c_div (a + 1) 10 = 13" using assms by auto
    then show ?thesis by (simp add: wakeup_prio_def)
  qed
  ultimately show ?thesis by (elim disjE) (simp_all add: wakeup_prio_def)
qed

lemma wakeup_prio_mono: "a \<le> b \<Longrightarrow> 100 \<le> a \<Longrightarrow> b \<le> 139 \<Longrightarrow> wakeup_prio a \<le> wakeup_prio b"
proof (induction b rule: int_ge_induct)
  case (step i)
  then have "wakeup_prio i \<le> wakeup_prio (i + 1)" using wakeup_prio_step by simp
  with step show ?case by simp
qed simp

lemma wakeup_prio_ok: "ts_prio_ok pr \<Longrightarrow> ts_prio_ok (wakeup_prio pr)"
  using wakeup_prio_bounds [of pr] by (simp add: ts_prio_ok_def)

section \<open>The representation invariant\<close>

definition ts_runnable :: "'x kern \<Rightarrow> pid set" where
  "ts_runnable k = {p. linked p (ts_queue k)}"

definition ts_wf :: "'x kern \<Rightarrow> bool" where
  "ts_wf k \<longleftrightarrow> length (ts_queue k) = 40 \<and> levelled (ts_level k) (ts_queue k) \<and>
     (\<forall>p \<in> ts_runnable k. ts_prio_ok (prio (tsk k p)))"

lemma ts_runnable_iff [simp]: "p \<in> ts_runnable k \<longleftrightarrow> linked p (ts_queue k)"
  by (simp add: ts_runnable_def)

lemma set_ts_queue_frame [simp]:
  "tsk (set_ts_queue k qs) = tsk k" "ts_queue (set_ts_queue k qs) = qs"
  "curr (set_ts_queue k qs) = curr k" "rq_rt (set_ts_queue k qs) = rq_rt k"
  "nr_running (set_ts_queue k qs) = nr_running k" "idle (set_ts_queue k qs) = idle k"
  "h_nr_running (set_ts_queue k qs) = h_nr_running k" "ext (set_ts_queue k qs) = ext k"
  "stop (set_ts_queue k qs) = stop k"
  by (simp_all add: set_ts_queue_def)

lemma set_need_resched_frame [simp]:
  "rq_ts (set_tsk_need_resched p k) = rq_ts k" "curr (set_tsk_need_resched p k) = curr k"
  "rq_rt (set_tsk_need_resched p k) = rq_rt k"
  "nr_running (set_tsk_need_resched p k) = nr_running k"
  by (simp_all add: set_tsk_need_resched_def)

lemma ts_level_set [simp]: "ts_level (set_ts_queue k qs) = ts_level k"
  by (simp add: ts_level_def fun_eq_iff)

lemma ts_level_lt: "ts_prio_ok (prio (tsk k p)) \<Longrightarrow> ts_level k p < 40"
  by (simp add: ts_level_def)

lemma ts_in_range: "ts_prio_ok pr \<Longrightarrow> length qs = 40 \<Longrightarrow> in_range (prioQueue pr) qs"
  using prioQueue_range [of pr] by (simp add: in_range_def)

lemma ts_wfD:
  assumes "ts_wf k"
  shows "length (ts_queue k) = 40" "levelled (ts_level k) (ts_queue k)" "distinct (concat (ts_queue k))"
    and "linked p (ts_queue k) \<Longrightarrow> ts_prio_ok (prio (tsk k p))"
    and "linked p (ts_queue k) \<Longrightarrow> p \<in> set (ts_queue k ! ts_level k p)"
  using assms by (auto simp: ts_wf_def dest: levelledD)

text \<open>Only the priorities of the linked tasks and the queues matter for the invariant.\<close>

lemma ts_wf_cong:
  assumes "ts_queue k' = ts_queue k"
    and "\<And>p. linked p (ts_queue k) \<Longrightarrow> prio (tsk k' p) = prio (tsk k p)"
  shows "ts_wf k' = ts_wf k"
  using assms levelled_cong [of "ts_queue k" "ts_level k'" "ts_level k"]
  by (auto simp: ts_wf_def ts_level_def)

lemma ts_wf_add_tail:
  assumes wf: "ts_wf k" and nl: "\<not> linked p (ts_queue k)" and pr: "ts_prio_ok pr"
  defines "n \<equiv> nat (prioQueue pr)"
  shows "ts_wf (set_ts_queue (upd_task k p (\<lambda>t. t\<lparr>prio := pr\<rparr>))
           ((ts_queue k)[n := ts_queue k ! n @ [p]]))" (is "ts_wf ?k")
proof -
  let ?k1 = "upd_task k p (\<lambda>t. t\<lparr>prio := pr\<rparr>)"
  have n: "n = ts_level ?k1 p" "n < 40"
    using pr by (simp_all add: ts_level_def n_def)
  have "levelled (ts_level ?k1) (ts_queue k) = levelled (ts_level k) (ts_queue k)"
    by (rule levelled_cong) (use nl in \<open>auto simp: ts_level_def\<close>)
  then have lev: "levelled (ts_level ?k1) (ts_queue k)" using ts_wfD(2) [OF wf] by simp
  have "levelled (ts_level ?k1) ((ts_queue k)[n := ts_queue k ! n @ [p]])"
    using levelled_add_tail [OF lev nl] n ts_wfD(1) [OF wf] by simp
  then show ?thesis
    using wf n(2) pr by (auto simp: ts_wf_def ts_level_def)
qed

lemma ts_wf_unlink: "ts_wf k \<Longrightarrow> ts_wf (set_ts_queue k (unlink p (ts_queue k)))"
  by (auto simp: ts_wf_def levelled_unlink linked_unlink)


section \<open>What each operation does\<close>

lemma upd_task_id [simp]: "upd_task k p (\<lambda>t. t\<lparr>prio := prio (tsk k p)\<rparr>) = k"
  by simp

definition enqueue_prio :: "int \<Rightarrow> int \<Rightarrow> int" where
  "enqueue_prio flags pr = (if flags AND ENQUEUE_WAKEUP \<noteq> 0 then wakeup_prio pr else pr)"

lemma enqueue_prio_ok: "ts_prio_ok pr \<Longrightarrow> ts_prio_ok (enqueue_prio flags pr)"
  by (simp add: enqueue_prio_def wakeup_prio_ok)

lemma enqueue_task_ts_eq:
  fixes flags :: int
  assumes "ts_wf k" "\<not> linked p (ts_queue k)" "ts_prio_ok (prio (tsk k p))"
  defines "pr \<equiv> enqueue_prio flags (prio (tsk k p))"
  shows "enqueue_task_ts k p flags =
     Some (set_ts_queue (upd_task k p (\<lambda>t. t\<lparr>prio := pr\<rparr>))
       ((ts_queue k)[nat (prioQueue pr) := ts_queue k ! nat (prioQueue pr) @ [p]]))"
proof -
  have "in_range (prioQueue pr) (ts_queue k)"
    using assms(3) ts_wfD(1) [OF assms(1)] by (simp add: pr_def enqueue_prio_ok ts_in_range)
  then show ?thesis
    using assms(2) by (auto simp: enqueue_task_ts_def list_add_tail_def pr_def enqueue_prio_def)
qed

lemma enqueue_task_ts_ok:
  assumes "ts_wf k" "\<not> linked p (ts_queue k)" "ts_prio_ok (prio (tsk k p))"
  shows "\<exists>k'. enqueue_task_ts k p flags = Some k' \<and> ts_wf k' \<and>
           ts_runnable k' = insert p (ts_runnable k)"
proof -
  let ?pr = "enqueue_prio flags (prio (tsk k p))"
  have "ts_prio_ok ?pr" by (simp add: assms(3) enqueue_prio_ok)
  then have "nat (prioQueue ?pr) < length (ts_queue k)"
    using prioQueue_range [of ?pr] ts_wfD(1) [OF assms(1)] by auto
  then show ?thesis
    using ts_wf_add_tail [OF assms(1,2) \<open>ts_prio_ok ?pr\<close>]
    by (auto simp: enqueue_task_ts_eq [OF assms] ts_runnable_def)
qed

lemma dequeue_task_ts_ok:
  assumes "ts_wf k" "linked p (ts_queue k)"
  shows "\<exists>k'. dequeue_task_ts k p flags = Some k' \<and> ts_wf k' \<and>
           ts_runnable k' = ts_runnable k - {p}"
  using assms ts_wf_unlink [OF assms(1), of p]
  by (auto simp: dequeue_task_ts_def list_del_def ts_runnable_def linked_unlink ts_wfD)

text \<open>Both moving operations give the task a new priority and put it at that queue's tail.\<close>

lemma ts_wf_move_tail:
  assumes wf: "ts_wf k" and l: "linked p (ts_queue k)" and pr: "ts_prio_ok pr"
  defines "qs \<equiv> unlink p (ts_queue k)" and "n \<equiv> nat (prioQueue pr)"
  shows "list_move_tail p (prioQueue pr) (ts_queue k) = Some (qs[n := qs ! n @ [p]])"
    and "ts_wf (set_ts_queue (upd_task k p (\<lambda>t. t\<lparr>prio := pr\<rparr>)) (qs[n := qs ! n @ [p]]))"
    and "ts_runnable (set_ts_queue (upd_task k p (\<lambda>t. t\<lparr>prio := pr\<rparr>)) (qs[n := qs ! n @ [p]])) =
           ts_runnable k"
proof -
  let ?k1 = "set_ts_queue k qs"
  have len: "length qs = 40" and n: "n < 40"
    using ts_wfD(1) [OF wf] pr by (simp_all add: qs_def n_def)
  have nl: "\<not> linked p (ts_queue ?k1)" and wf1: "ts_wf ?k1"
    using wf ts_wf_unlink [OF wf] by (simp_all add: qs_def linked_unlink ts_wfD)
  show "list_move_tail p (prioQueue pr) (ts_queue k) = Some (qs[n := qs ! n @ [p]])"
    using l ts_in_range [OF pr ts_wfD(1) [OF wf]]
    by (simp add: list_move_tail_def qs_def n_def)
  show "ts_wf (set_ts_queue (upd_task k p (\<lambda>t. t\<lparr>prio := pr\<rparr>)) (qs[n := qs ! n @ [p]]))"
    using ts_wf_add_tail [OF wf1 nl pr] by (simp add: n_def set_ts_queue_def)
  show "ts_runnable (set_ts_queue (upd_task k p (\<lambda>t. t\<lparr>prio := pr\<rparr>)) (qs[n := qs ! n @ [p]])) =
           ts_runnable k"
  proof -
    have "linked x (qs[n := qs ! n @ [p]]) \<longleftrightarrow> x = p \<or> linked x qs" for x
      using n len by simp
    then show ?thesis using wf l by (auto simp: ts_runnable_def qs_def linked_unlink ts_wfD)
  qed
qed

lemma yield_task_ts_ok:
  assumes "ts_wf k" "linked (curr k) (ts_queue k)"
  shows "\<exists>k'. yield_task_ts k = Some k' \<and> ts_wf k' \<and> ts_runnable k' = ts_runnable k"
  using ts_wf_move_tail [OF assms ts_wfD(4) [OF assms]]
  by (simp add: yield_task_ts_def)

text \<open>The new priority and slice of a task whose slice runs out.\<close>

definition demoted :: "int \<Rightarrow> int" where
  "demoted pr = min 139 (pr + 10)"

lemma demoted_ok: "ts_prio_ok pr \<Longrightarrow> ts_prio_ok (demoted pr)"
  by (auto simp: ts_prio_ok_def demoted_def)

lemma task_tick_ts_other: "policy (tsk k p) \<noteq> SCHED_TS \<Longrightarrow> task_tick_ts k p q = Some k"
  by (simp add: task_tick_ts_def)

lemma task_tick_ts_running:
  "policy (tsk k p) = SCHED_TS \<Longrightarrow> ts_time_slice (ts (tsk k p)) \<noteq> 1 \<Longrightarrow>
   task_tick_ts k p q =
     Some (upd_task k p (\<lambda>t. t\<lparr>ts := (ts t)\<lparr>ts_time_slice := ts_time_slice (ts t) - 1\<rparr>\<rparr>))"
  by (simp add: task_tick_ts_def)

lemma task_tick_ts_expired:
  assumes "policy (tsk k p) = SCHED_TS" "ts_time_slice (ts (tsk k p)) = 1"
    and "ts_wf k" "linked p (ts_queue k)"
  defines "pr \<equiv> demoted (prio (tsk k p))"
  shows "\<exists>k'. task_tick_ts k p q = Some k' \<and> ts_wf k' \<and> ts_runnable k' = ts_runnable k \<and>
     prio (tsk k' p) = pr \<and> Some (ts_time_slice (ts (tsk k' p))) = prioTimeslice pr \<and>
     need_resched (tsk k' p) \<and> last (ts_queue k' ! nat (prioQueue pr)) = p \<and>
     policy (tsk k' p) = SCHED_TS \<and> (\<forall>q. q \<noteq> p \<longrightarrow> tsk k' q = tsk k q)"
proof -
  have pr: "ts_prio_ok pr" using ts_wfD(4) [OF assms(3,4)] by (simp add: pr_def demoted_ok)
  obtain sl where sl: "prioTimeslice pr = Some sl" using prioTimeslice_nonzero [OF pr] by blast
  have n: "nat (prioQueue pr) < 40" using pr by simp
  let ?qs = "unlink p (ts_queue k)"
  let ?k' = "set_tsk_need_resched p (set_ts_queue
     (upd_task k p (\<lambda>t. t\<lparr>prio := pr, ts := (ts t)\<lparr>ts_time_slice := sl\<rparr>\<rparr>))
     (?qs[nat (prioQueue pr) := ?qs ! nat (prioQueue pr) @ [p]]))"
  have tick: "task_tick_ts k p q = Some ?k'"
    using assms(1,2) ts_wf_move_tail(1) [OF assms(3,4) pr] sl
    by (auto simp: task_tick_ts_def pr_def demoted_def set_ts_queue_def min_def)
  have "ts_wf ?k'"
    using ts_wf_move_tail(2) [OF assms(3,4) pr]
    by (subst ts_wf_cong [of _ "set_ts_queue (upd_task k p (\<lambda>t. t\<lparr>prio := pr\<rparr>))
       (?qs[nat (prioQueue pr) := ?qs ! nat (prioQueue pr) @ [p]])"])
      (auto simp: set_tsk_need_resched_def)
  moreover have "ts_runnable ?k' = ts_runnable k"
    using ts_wf_move_tail(3) [OF assms(3,4) pr] by (simp add: ts_runnable_def)
  ultimately show ?thesis
    using n ts_wfD(1) [OF assms(3)] sl assms(1)
    by (intro exI [of _ ?k'] conjI) (simp_all add: tick set_tsk_need_resched_def)
qed


section \<open>Picking the next task\<close>

lemma ts_scan_spec:
  "ts_scan qs n = -1 \<and> (\<forall>i < n. qs ! i = []) \<or>
   (\<exists>x < n. ts_scan qs n = int x \<and> qs ! x \<noteq> [] \<and> (\<forall>i. x < i \<and> i < n \<longrightarrow> qs ! i = []))"
proof (induction n)
  case (Suc n)
  then show ?case
    by (cases "qs ! n = []") (auto simp: less_Suc_eq)
qed simp

lemma ts_scan_none: "ts_wf k \<Longrightarrow> ts_scan (ts_queue k) 40 = -1 \<longleftrightarrow> ts_runnable k = {}"
  using ts_scan_spec [of "ts_queue k" 40] ts_wfD(1) [of k]
  by (fastforce simp: ts_runnable_def linked_nth neq_Nil_conv)

lemma ts_scan_some:
  assumes wf: "ts_wf k" and x: "ts_scan (ts_queue k) 40 = int x"
  shows "x < 40" "ts_queue k ! x \<noteq> []"
    and "linked q (ts_queue k) \<Longrightarrow> prio (tsk k q) \<ge> 139 - int x"
    and "q \<in> set (ts_queue k ! x) \<Longrightarrow> prio (tsk k q) = 139 - int x"
proof -
  from ts_scan_spec [of "ts_queue k" 40] x
  show x40: "x < 40" and ne: "ts_queue k ! x \<noteq> []" by auto
  from ts_scan_spec [of "ts_queue k" 40] x
  have above: "x < i \<Longrightarrow> i < 40 \<Longrightarrow> ts_queue k ! i = []" for i by auto
  have lvl: "ts_level k q \<le> x" if "linked q (ts_queue k)" for q
    using above [of "ts_level k q"] ts_wfD [OF wf] that ts_level_lt [of k q]
    by (metis empty_iff list.set(1) not_le)
  show "prio (tsk k q) \<ge> 139 - int x" if "linked q (ts_queue k)"
    using lvl [OF that] ts_wfD(4) [OF wf that]
    by (auto simp: ts_level_def prioQueue_def ts_prio_ok_def)
  show "prio (tsk k q) = 139 - int x" if "q \<in> set (ts_queue k ! x)"
  proof -
    have "linked q (ts_queue k)" using that x40 ts_wfD(1) [OF wf] by (auto intro: linkedI)
    moreover have "ts_level k q = x"
      using wf that x40 by (auto simp: ts_wf_def levelled_def)
    ultimately show ?thesis
      using ts_wfD(4) [OF wf] by (auto simp: ts_level_def prioQueue_def ts_prio_ok_def)
  qed
qed

lemma pick_next_task_ts_cases:
  assumes wf: "ts_wf k" and put: "put k prev = Some k1" and frame: "ts_queue k1 = ts_queue k"
  shows "ts_runnable k = {} \<and> pick_next_task_ts put k prev = Some (None, k) \<or>
    (\<exists>x p. ts_scan (ts_queue k) 40 = int x \<and> p = hd (ts_queue k ! x) \<and> p \<in> ts_runnable k \<and>
       pick_next_task_ts put k prev = Some (Some p, k1) \<and>
       (\<forall>q \<in> ts_runnable k. prio (tsk k p) \<le> prio (tsk k q)))"
proof (cases "ts_scan (ts_queue k) 40 = -1")
  case True
  with ts_scan_none [OF wf] show ?thesis by (simp add: pick_next_task_ts_def)
next
  case False
  with ts_scan_spec [of "ts_queue k" 40] obtain x where x: "ts_scan (ts_queue k) 40 = int x" by auto
  let ?p = "hd (ts_queue k ! x)"
  have "?p \<in> set (ts_queue k ! x)" using ts_scan_some(2) [OF wf x] by simp
  moreover from this have "?p \<in> ts_runnable k"
    using ts_scan_some(1) [OF wf x] ts_wfD(1) [OF wf] by (auto intro: linkedI)
  ultimately show ?thesis
    using ts_scan_some(3,4) [OF wf x] put frame x
    by (auto simp: pick_next_task_ts_def)
qed

text \<open>What \<open>schedule()\<close> gets when the task it leaves is a time-sharing task.\<close>

definition ts_pick :: "'x kern \<Rightarrow> pid option" where
  "ts_pick k =
     Option.bind (pick_next_task_ts (\<lambda>k p. Some (put_prev_task_ts k p)) k (curr k)) fst"

lemma ts_pick_cases:
  assumes "ts_wf k"
  shows "ts_runnable k = {} \<and> ts_pick k = None \<or>
    (\<exists>x. ts_scan (ts_queue k) 40 = int x \<and> ts_pick k = Some (hd (ts_queue k ! x)) \<and>
       hd (ts_queue k ! x) \<in> ts_runnable k \<and>
       (\<forall>q \<in> ts_runnable k. prio (tsk k (hd (ts_queue k ! x))) \<le> prio (tsk k q)))"
  using pick_next_task_ts_cases [OF assms, of "\<lambda>k p. Some (put_prev_task_ts k p)" "curr k" k]
  by (auto simp: ts_pick_def put_prev_task_ts_def)


section \<open>The class meets the contract of core.c\<close>

lemma enqueue_task_ts_ready:
  "enqueue_task_ts k p flags = Some k' \<Longrightarrow> ts_prio_ok (prio (tsk k q)) \<Longrightarrow> ts_prio_ok (prio (tsk k' q))"
  by (auto simp: enqueue_task_ts_def Let_def wakeup_prio_ok split: if_splits)

lemma dequeue_task_ts_tsk: "dequeue_task_ts k p flags = Some k' \<Longrightarrow> tsk k' = tsk k"
  by (auto simp: dequeue_task_ts_def)

interpretation tsq: class_queue ts_wf ts_runnable "\<lambda>k p. prio (tsk k p)"
  "\<lambda>k p. ts_prio_ok (prio (tsk k p))" "\<lambda>k p. enqueue_task_ts k p ENQUEUE_WAKEUP"
  "\<lambda>k p. dequeue_task_ts k p DEQUEUE_SLEEP" ts_pick
proof unfold_locales
  fix k :: "'x kern" and p
  show "ts_wf k \<Longrightarrow> ts_pick k = None \<longleftrightarrow> ts_runnable k = {}"
    and "ts_wf k \<Longrightarrow> ts_pick k = Some p \<Longrightarrow>
      p \<in> ts_runnable k \<and> (\<forall>q \<in> ts_runnable k. prio (tsk k p) \<le> prio (tsk k q))"
    using ts_pick_cases [of k] by auto
qed (auto simp: enqueue_task_ts_ok dequeue_task_ts_ok intro: enqueue_task_ts_ready
       dest: dequeue_task_ts_tsk)

interpretation tsr: class_queue ts_wf ts_runnable "\<lambda>k p. prio (tsk k p)"
  "\<lambda>k p. ts_prio_ok (prio (tsk k p))" "\<lambda>k p. enqueue_task_ts k p ENQUEUE_RESTORE"
  "\<lambda>k p. dequeue_task_ts k p DEQUEUE_SAVE" ts_pick
  by unfold_locales
    (auto simp: enqueue_task_ts_ok dequeue_task_ts_ok tsq.pick_none intro: enqueue_task_ts_ready
       dest: dequeue_task_ts_tsk tsq.pick_best)


section \<open>Time slices\<close>

fun ts_ticks :: "nat \<Rightarrow> 'x kern \<Rightarrow> pid \<Rightarrow> 'x kern option" where
  "ts_ticks 0 k p = Some k"
| "ts_ticks (Suc n) k p = Option.bind (task_tick_ts k p False) (\<lambda>k. ts_ticks n k p)"

lemma ts_ticks_add: "ts_ticks (m + n) k p = Option.bind (ts_ticks m k p) (\<lambda>k. ts_ticks n k p)"
  by (induction m arbitrary: k) (auto split: bind_split)

abbreviation ts_slice :: "'x kern \<Rightarrow> pid \<Rightarrow> u32" where
  "ts_slice k p \<equiv> ts_time_slice (ts (tsk k p))"

lemma ts_ticks_quiet:
  assumes "policy (tsk k p) = SCHED_TS" "n < unat (ts_slice k p)"
  shows "ts_ticks n k p =
    Some (upd_task k p (\<lambda>t. t\<lparr>ts := (ts t)\<lparr>ts_time_slice := ts_slice k p - of_nat n\<rparr>\<rparr>))"
  using assms
proof (induction n arbitrary: k)
  case (Suc n)
  let ?k = "upd_task k p (\<lambda>t. t\<lparr>ts := (ts t)\<lparr>ts_time_slice := ts_slice k p - 1\<rparr>\<rparr>)"
  have "ts_slice k p \<noteq> 1" "ts_slice k p \<noteq> 0" using Suc.prems(2) by auto
  then have "n < unat (ts_slice ?k p)" using Suc.prems(2) by (simp add: word_dec_unat)
  with Suc.IH [of ?k] Suc.prems \<open>ts_slice k p \<noteq> 1\<close> show ?case
    by (simp add: task_tick_ts_running diff_diff_add add.commute cong: if_cong)
qed simp

lemma ts_ticks_expire:
  assumes wf: "ts_wf k" "linked p (ts_queue k)" and pol: "policy (tsk k p) = SCHED_TS"
    and sl: "ts_slice k p \<noteq> 0"
  shows "\<exists>k'. ts_ticks (unat (ts_slice k p)) k p = Some k' \<and> ts_wf k' \<and>
     linked p (ts_queue k') \<and> policy (tsk k' p) = SCHED_TS \<and> need_resched (tsk k' p) \<and>
     prio (tsk k' p) = demoted (prio (tsk k p)) \<and>
     Some (ts_slice k' p) = prioTimeslice (demoted (prio (tsk k p)))"
proof -
  let ?n = "unat (ts_slice k p) - 1"
  let ?k = "upd_task k p (\<lambda>t. t\<lparr>ts := (ts t)\<lparr>ts_time_slice := ts_slice k p - of_nat ?n\<rparr>\<rparr>)"
  have pos: "0 < unat (ts_slice k p)" using sl by (simp add: unat_gt_0)
  then have quiet: "ts_ticks ?n k p = Some ?k" using pol by (intro ts_ticks_quiet) auto
  have "of_nat ?n = ts_slice k p - 1"
    using sl by (simp add: word_of_nat_dec)
  then have one: "ts_slice ?k p = 1" by simp
  have wf': "ts_wf ?k" using wf(1) by (subst ts_wf_cong [of _ k]) auto
  have "ts_ticks (unat (ts_slice k p)) k p = ts_ticks (?n + 1) k p" using pos by simp
  also have "\<dots> = task_tick_ts ?k p False"
    unfolding ts_ticks_add quiet by (simp split: bind_split)
  finally show ?thesis
    using task_tick_ts_expired [of ?k p False] one wf' wf(2) pol
    by (auto simp: ts_runnable_def set_eq_iff)
qed

lemma ts_ticks_bottom:
  assumes "ts_wf k" "linked p (ts_queue k)" "policy (tsk k p) = SCHED_TS" "ts_slice k p \<noteq> 0"
    and "139 - prio (tsk k p) \<le> 10 * int j"
  shows "\<exists>n k'. n \<le> (if j = 0 then 0 else unat (ts_slice k p) + 16 * (j - 1)) \<and>
     ts_ticks n k p = Some k' \<and> ts_wf k' \<and> prio (tsk k' p) = 139"
  using assms
proof (induction j arbitrary: k)
  case 0
  then have "prio (tsk k p) = 139"
    using ts_wfD(4) [of k p] by (auto simp: ts_prio_ok_def)
  with 0 show ?case by (intro exI [of _ 0] exI [of _ k]) simp
next
  case (Suc j)
  let ?n = "unat (ts_slice k p)"
  from ts_ticks_expire [OF Suc.prems(1-4)] obtain k1
    where k1: "ts_ticks ?n k p = Some k1" "ts_wf k1" "linked p (ts_queue k1)"
      "policy (tsk k1 p) = SCHED_TS" "prio (tsk k1 p) = demoted (prio (tsk k p))"
      "Some (ts_slice k1 p) = prioTimeslice (demoted (prio (tsk k p)))" by blast
  have "ts_prio_ok (demoted (prio (tsk k p)))" using ts_wfD(4) [OF k1(2,3)] k1(5) by simp
  from prioTimeslice_nonzero [OF this] k1(6) have sl: "ts_slice k1 p \<noteq> 0" "unat (ts_slice k1 p) \<le> 16"
    by auto
  have "139 - prio (tsk k1 p) \<le> 10 * int j" using Suc.prems(5) by (auto simp: k1(5) demoted_def)
  from Suc.IH [OF k1(2,3,4) sl(1) this] obtain n k'
    where n: "n \<le> (if j = 0 then 0 else unat (ts_slice k1 p) + 16 * (j - 1))"
      "ts_ticks n k1 p = Some k'" "ts_wf k'" "prio (tsk k' p) = 139" by blast
  have "?n + n \<le> ?n + 16 * j" using n(1) sl(2) by (cases j) auto
  with n k1(1) show ?case
    by (intro exI [of _ "?n + n"] exI [of _ k']) (simp add: ts_ticks_add)
qed


section \<open>Round robin among tasks of one priority\<close>

text \<open>\<open>sched_yield\<close> by a time-sharing task, followed by the choice of the next task.\<close>

definition ts_yield_round :: "'x kern \<Rightarrow> 'x kern option" where
  "ts_yield_round k = do {
     k \<leftarrow> yield_task_ts k;
     (r, k) \<leftarrow> pick_next_task_ts (\<lambda>k p. Some (put_prev_task_ts k p)) k (curr k);
     p \<leftarrow> r;
     Some (k\<lparr>curr := p\<rparr>)
   }"

fun ts_yield_rounds :: "nat \<Rightarrow> 'x kern \<Rightarrow> 'x kern option" where
  "ts_yield_rounds 0 k = Some k"
| "ts_yield_rounds (Suc n) k = Option.bind (ts_yield_round k) (ts_yield_rounds n)"

lemma unlink_head:
  assumes "distinct (concat qs)" "i < length qs" "qs ! i = p # q"
  shows "unlink p qs = qs[i := q]"
proof (rule nth_equalityI)
  fix j assume "j < length (unlink p qs)"
  then have j: "j < length qs" by simp
  have "p \<notin> set (qs ! j)" if "j \<noteq> i"
    using distinct_concat_unique [OF assms(1) j assms(2)] assms(3) that by fastforce
  with j assms(3) show "unlink p qs ! j = qs[i := q] ! j"
    by (cases "j = i") (auto simp: remove1_idem)
qed simp

lemma ts_scan_cong:
  "(\<And>i. i < n \<Longrightarrow> qs ! i = [] \<longleftrightarrow> qs' ! i = []) \<Longrightarrow> ts_scan qs n = ts_scan qs' n"
  by (induction n) auto

text \<open>A position from which the tasks of the highest queue take turns.\<close>

definition ts_turn :: "'x kern \<Rightarrow> nat \<Rightarrow> pid list \<Rightarrow> bool" where
  "ts_turn k x xs \<longleftrightarrow> ts_wf k \<and> ts_scan (ts_queue k) 40 = int x \<and> ts_queue k ! x = xs \<and>
     curr k = hd xs"

lemma ts_yield_round_step:
  assumes "ts_turn k x xs"
  shows "\<exists>k'. ts_yield_round k = Some k' \<and> ts_turn k' x (rotate1 xs)"
proof -
  have wf: "ts_wf k" and sc: "ts_scan (ts_queue k) 40 = int x" and cur: "curr k = hd xs"
    using assms by (auto simp: ts_turn_def)
  note x = ts_scan_some [OF wf sc]
  obtain q where xs: "xs = curr k # q" and xs': "ts_queue k ! x = xs"
    using assms x(2) by (cases xs) (auto simp: ts_turn_def)
  have len: "length (ts_queue k) = 40" by (rule ts_wfD [OF wf])
  have mem: "curr k \<in> set (ts_queue k ! x)" by (simp add: xs xs')
  then have l: "linked (curr k) (ts_queue k)" using x(1) len by (auto intro: linkedI)
  have pq: "prioQueue (prio (tsk k (curr k))) = int x" using x(4) [OF mem] by (simp add: prioQueue_def)
  let ?qs = "(ts_queue k)[x := q @ [curr k]]"
  let ?k = "set_ts_queue k ?qs"
  have un: "unlink (curr k) (ts_queue k) = (ts_queue k)[x := q]"
    using unlink_head [of "ts_queue k" x] ts_wfD(3) [OF wf] x(1) len xs xs' by simp
  have y: "yield_task_ts k = Some ?k"
    using ts_wf_move_tail(1) [OF wf l ts_wfD(4) [OF wf l]] x(1) len
    by (simp add: yield_task_ts_def pq un)
  have wf': "ts_wf ?k" using yield_task_ts_ok [OF wf l] y by simp
  have "ts_scan ?qs 40 = ts_scan (ts_queue k) 40"
    by (rule ts_scan_cong) (use xs xs' x(1) in \<open>auto simp: nth_list_update len\<close>)
  with sc have sc': "ts_scan (ts_queue ?k) 40 = int x" by simp
  have top: "ts_queue ?k ! x = q @ [curr k]" using x(1) len by simp
  have "pick_next_task_ts (\<lambda>k p. Some (put_prev_task_ts k p)) ?k (curr k) =
      Some (Some (hd (q @ [curr k])), ?k)"
    using sc' top by (simp add: pick_next_task_ts_def put_prev_task_ts_def)
  then have "ts_yield_round k = Some (?k\<lparr>curr := hd (q @ [curr k])\<rparr>)"
    by (simp add: ts_yield_round_def y)
  moreover have "ts_wf (?k\<lparr>curr := hd (q @ [curr k])\<rparr>)"
    using wf' by (subst ts_wf_cong [of _ ?k]) auto
  ultimately show ?thesis
    using sc' top by (auto simp: ts_turn_def xs)
qed

lemma ts_yield_rounds_turn:
  "ts_turn k x xs \<Longrightarrow> \<exists>k'. ts_yield_rounds n k = Some k' \<and> ts_turn k' x (rotate n xs)"
proof (induction n arbitrary: k xs)
  case (Suc n)
  from ts_yield_round_step [OF Suc.prems] obtain k1
    where k1: "ts_yield_round k = Some k1" "ts_turn k1 x (rotate1 xs)" by blast
  from Suc.IH [OF k1(2)] k1(1) show ?case by (auto simp: rotate1_rotate_swap)
qed simp


section \<open>Reachable states\<close>

text \<open>
  The steps core.c can make on the class: wakeups, other enqueues of tasks off the queue,
  dequeues, yields and ticks of a queued current task, the switch to the picked task, and any
  change outside the queues and the priorities of the queued tasks.
\<close>

inductive ts_step :: "'x kern \<Rightarrow> 'x kern \<Rightarrow> bool" where
  enq: "\<not> linked p (ts_queue k) \<Longrightarrow> ts_prio_ok (prio (tsk k p)) \<Longrightarrow>
     enqueue_task_ts k p flags = Some k' \<Longrightarrow> ts_step k k'"
| deq: "linked p (ts_queue k) \<Longrightarrow> dequeue_task_ts k p flags = Some k' \<Longrightarrow> ts_step k k'"
| yield: "linked (curr k) (ts_queue k) \<Longrightarrow> yield_task_ts k = Some k' \<Longrightarrow> ts_step k k'"
| tick: "linked p (ts_queue k) \<Longrightarrow> task_tick_ts k p q = Some k' \<Longrightarrow> ts_step k k'"
| switch: "ts_pick k = Some p \<Longrightarrow> ts_step k (k\<lparr>curr := p\<rparr>)"
| preempt: "ts_step k (check_preempt_curr_ts k p flags)"
| other: "ts_queue k' = ts_queue k \<Longrightarrow> (\<And>p. linked p (ts_queue k) \<Longrightarrow> prio (tsk k' p) = prio (tsk k p)) \<Longrightarrow>
     ts_step k k'"

inductive ts_reach :: "'x kern \<Rightarrow> bool" where
  boot: "length (queue q) = 40 \<Longrightarrow> rq_ts k = init_ts_rq q \<Longrightarrow> ts_reach k"
| step: "ts_reach k \<Longrightarrow> ts_step k k' \<Longrightarrow> ts_reach k'"

lemma init_loop:
  "queue (foldl (\<lambda>q x. q\<lparr>queue := (queue q)[x := []]\<rparr>) q [0..<n]) =
   map (\<lambda>i. if i < n then [] else queue q ! i) [0..<length (queue q)]"
proof (induction n)
  case 0
  then show ?case by (simp add: map_nth)
next
  case (Suc n)
  show ?case
    by (cases "n < length (queue q)"; rule nth_equalityI)
      (auto simp: Suc nth_list_update list_update_beyond less_Suc_eq)
qed

lemma init_ts_rq_empty: "length (queue q) = 40 \<Longrightarrow> queue (init_ts_rq q) = replicate 40 []"
  unfolding init_ts_rq_def init_loop by (simp add: list_eq_iff_nth_eq)

lemma ts_wf_empty: "ts_queue k = replicate 40 [] \<Longrightarrow> ts_wf k"
  by (auto simp: ts_wf_def levelled_def linked_def)

lemma task_tick_ts_ok:
  assumes "ts_wf k" "linked p (ts_queue k)"
  shows "\<exists>k'. task_tick_ts k p q = Some k' \<and> ts_wf k' \<and> ts_runnable k' = ts_runnable k"
proof (cases "policy (tsk k p) = SCHED_TS")
  case True
  show ?thesis
  proof (cases "ts_slice k p = 1")
    case False
    let ?k = "upd_task k p (\<lambda>t. t\<lparr>ts := (ts t)\<lparr>ts_time_slice := ts_time_slice (ts t) - 1\<rparr>\<rparr>)"
    have "ts_wf ?k" using assms(1) by (subst ts_wf_cong [of _ k]) auto
    then show ?thesis by (simp add: task_tick_ts_running [OF True False] ts_runnable_def)
  qed (use task_tick_ts_expired [OF True _ assms] in blast)
qed (use assms(1) in \<open>simp add: task_tick_ts_other\<close>)

lemma ts_step_wf: "ts_step k k' \<Longrightarrow> ts_wf k \<Longrightarrow> ts_wf k'"
proof (induction rule: ts_step.induct)
  case (enq p k flags k')
  then show ?case using enqueue_task_ts_ok [of k p flags] by auto
next
  case (deq p k flags k')
  then show ?case using dequeue_task_ts_ok [of k p flags] by auto
next
  case (yield k k')
  then show ?case using yield_task_ts_ok [of k] by auto
next
  case (tick p k q k')
  then show ?case using task_tick_ts_ok [of k p q] by auto
next
  case (switch k p)
  then show ?case by (subst ts_wf_cong [of _ k]) auto
next
  case (preempt k p flags)
  then show ?case by (subst ts_wf_cong [of _ k]) (auto simp: check_preempt_curr_ts_def)
next
  case (other k' k)
  then show ?case by (subst ts_wf_cong [of _ k]) auto
qed

lemma ts_reach_wf: "ts_reach k \<Longrightarrow> ts_wf k"
  by (induction rule: ts_reach.induct) (auto simp: init_ts_rq_empty ts_wf_empty ts_step_wf)


section \<open>Properties\<close>

text \<open>A run queue with two time-sharing tasks of priority 120, the first of them running.\<close>

definition ts_demo_task :: "int \<Rightarrow> u32 \<Rightarrow> task_struct" where
  "ts_demo_task pr sl =
     blank_task\<lparr>prio := pr, policy := SCHED_TS, sched_class := TsClass, ts := \<lparr>ts_time_slice = sl\<rparr>\<rparr>"

definition ts_demo :: "unit kern" where
  "ts_demo = blank_kern\<lparr>tsk := (\<lambda>p. ts_demo_task 120 2), curr := 5,
     rq_ts := \<lparr>queue = (replicate 40 [])[19 := [5, 7]]\<rparr>\<rparr>"

lemma ts_demo_linked [simp]: "linked p (ts_queue ts_demo) \<longleftrightarrow> p = 5 \<or> p = 7"
  by (auto simp: ts_demo_def linked_nth nth_list_update split: if_splits)

lemma ts_demo_simps [simp]:
  "prio (tsk ts_demo p) = 120" "policy (tsk ts_demo p) = SCHED_TS" "ts_slice ts_demo p = 2"
  "curr ts_demo = 5"
  by (simp_all add: ts_demo_def ts_demo_task_def)

lemma ts_demo_queue: "ts_queue ts_demo = (replicate 40 [])[19 := [5, 7]]"
  by (simp add: ts_demo_def)

lemma ts_demo_wf [simp]: "ts_wf ts_demo"
proof -
  have "distinct (concat (ts_queue ts_demo))" by code_simp
  then show ?thesis
    unfolding ts_wf_def levelled_def
    by (auto simp: ts_level_def prioQueue_def ts_prio_ok_def nth_list_update
        ts_demo_queue split: if_splits dest: nth_mem)
qed

definition ts_boot :: "unit kern" where
  "ts_boot = blank_kern\<lparr>tsk := (\<lambda>p. ts_demo_task 120 2)\<rparr>"

lemma ts_boot_reach: "ts_reach ts_boot"
proof (rule ts_reach.boot)
  have "queue (init_ts_rq (rq_ts blank_kern)) = replicate 40 []"
    by (rule init_ts_rq_empty) (simp add: blank_kern_def)
  then show "rq_ts ts_boot = init_ts_rq (rq_ts blank_kern)"
    by (simp add: ts_boot_def blank_kern_def)
qed (simp add: blank_kern_def)

text \<open>The state after a wakeup: the task of priority 120 has been put on the queue of 108.\<close>

definition ts_woken :: "unit kern" where
  "ts_woken = set_ts_queue (upd_task ts_boot 5 (\<lambda>t. t\<lparr>prio := 108\<rparr>)) ((replicate 40 [])[31 := [5]])"

lemma ts_boot_wake: "enqueue_task_ts ts_boot 5 ENQUEUE_WAKEUP = Some ts_woken"
  by (simp add: enqueue_task_ts_def ts_woken_def ts_boot_def ts_demo_task_def blank_kern_def
      ENQUEUE_WAKEUP_def wakeup_prio_def list_add_tail_def in_range_def linked_def prioQueue_def
      set_ts_queue_def)

lemma ts_woken_reach: "ts_reach ts_woken"
proof (rule ts_reach.step [OF ts_boot_reach])
  show "ts_step ts_boot ts_woken"
    by (rule ts_step.enq [OF _ _ ts_boot_wake])
      (simp_all add: ts_boot_def blank_kern_def linked_def ts_demo_task_def ts_prio_ok_def)
qed

lemma ts_woken_linked: "linked p (ts_queue ts_woken) \<longleftrightarrow> p = 5"
  by (auto simp: ts_woken_def linked_nth nth_list_update split: if_splits)

text \<open>
  In every state the time-sharing class can reach from its initialised run queue by the
  steps of core.c, the forty queues hold each runnable task exactly once, in the queue of its
  own priority, and that priority is in the range of the class.
\<close>

lemma ts_reachable_invariant:
  assumes "ts_reach k"
  shows "length (ts_queue k) = 40 \<and> distinct (concat (ts_queue k)) \<and>
    (\<forall>p i. i < 40 \<longrightarrow> p \<in> set (ts_queue k ! i) \<longrightarrow>
       int i = prioQueue (prio (tsk k p)) \<and> 100 \<le> prio (tsk k p) \<and> prio (tsk k p) \<le> 139)"
proof -
  have wf: "ts_wf k" by (rule ts_reach_wf [OF assms])
  have "int i = prioQueue (prio (tsk k p)) \<and> ts_prio_ok (prio (tsk k p))"
    if "i < 40" "p \<in> set (ts_queue k ! i)" for p i
  proof -
    have l: "linked p (ts_queue k)" using that ts_wfD(1) [OF wf] by (auto intro: linkedI)
    have "ts_level k p = i" using wf that by (auto simp: ts_wf_def levelled_def)
    with ts_wfD(4) [OF wf l] prioQueue_range show ?thesis by (auto simp: ts_level_def)
  qed
  with ts_wfD [OF wf] show ?thesis by (auto simp: ts_prio_ok_def)
qed

text \<open>
  No operation of the time-sharing class leaves the queue array, touches an entry that is
  not on a list or uses an unset time slice: in every reachable state, enqueueing a task that
  is off the queues, dequeueing or ticking one that is on them, and yielding all succeed.
\<close>

lemma ts_reachable_no_fault:
  assumes "ts_reach k"
  shows "(\<not> linked p (ts_queue k) \<and> ts_prio_ok (prio (tsk k p)) \<longrightarrow>
            enqueue_task_ts k p flags \<noteq> None) \<and>
    (linked p (ts_queue k) \<longrightarrow> dequeue_task_ts k p flags \<noteq> None \<and> task_tick_ts k p q \<noteq> None \<and>
            get_rr_interval_ts k p \<noteq> None) \<and>
    (linked (curr k) (ts_queue k) \<longrightarrow> yield_task_ts k \<noteq> None)"
proof -
  have wf: "ts_wf k" by (rule ts_reach_wf [OF assms])
  show ?thesis
    using enqueue_task_ts_ok [OF wf, of p flags] dequeue_task_ts_ok [OF wf, of p flags]
      task_tick_ts_ok [OF wf, of p q] yield_task_ts_ok [OF wf] ts_wfD(4) [OF wf, of p]
      prioTimeslice_nonzero [of "prio (tsk k p)"]
    by (auto simp: get_rr_interval_ts_def)
qed

text \<open>
  \<open>pick_next_task_ts\<close> returns no task exactly when no time-sharing task is runnable (and
  then leaves \<open>prev\<close> alone); otherwise it puts \<open>prev\<close> and returns the task at the front of the
  queue of the numerically lowest, that is best, priority.
\<close>

lemma pick_next_task_ts_best:
  assumes "ts_wf k" and "put k prev = Some k1" and "ts_queue k1 = ts_queue k"
  shows "(ts_runnable k = {} \<longrightarrow> pick_next_task_ts put k prev = Some (None, k)) \<and>
    (ts_runnable k \<noteq> {} \<longrightarrow>
      (\<exists>p \<in> ts_runnable k. pick_next_task_ts put k prev = Some (Some p, k1) \<and>
         p = hd (ts_queue k ! nat (prioQueue (prio (tsk k p)))) \<and>
         (\<forall>q \<in> ts_runnable k. prio (tsk k p) \<le> prio (tsk k q))))"
proof -
  have "p = hd (ts_queue k ! nat (prioQueue (prio (tsk k p))))"
    if "ts_scan (ts_queue k) 40 = int x" "p = hd (ts_queue k ! x)" for x p
    using ts_scan_some(2,4) [OF assms(1) that(1)] that(2) by (simp add: prioQueue_def)
  with pick_next_task_ts_cases [of k put prev, OF assms] show ?thesis by fastforce
qed

text \<open>
  C20. The time-sharing class implements its abstract specification, a set of runnable tasks:
  any sequence of wakeups and sleeps that the set allows succeeds on the queues, ends in the
  same set, and the task picked afterwards is one of the set with the best priority.
\<close>

theorem ts_class_refines_set:
  assumes "ts_wf k" and "\<forall>x \<in> set xs. ts_prio_ok (prio (tsk k (op_task x)))"
    and "abs_ops xs (ts_runnable k) = Some R" and "R \<noteq> {}"
  shows "\<exists>k' p. conc_ops (\<lambda>k p. enqueue_task_ts k p ENQUEUE_WAKEUP)
             (\<lambda>k p. dequeue_task_ts k p DEQUEUE_SLEEP) xs k = Some k' \<and>
           ts_pick k' = Some p \<and> p \<in> R \<and> (\<forall>q \<in> R. prio (tsk k' p) \<le> prio (tsk k' q))"
  by (rule tsq.ops_then_pick [OF assms])

theorem ts_class_refines_set_witness:
  "\<exists>k' p. conc_ops (\<lambda>k p. enqueue_task_ts k p ENQUEUE_WAKEUP)
             (\<lambda>k p. dequeue_task_ts k p DEQUEUE_SLEEP) [Enq 9, Deq 5] ts_demo = Some k' \<and>
           ts_pick k' = Some p \<and> p \<in> {7, 9} \<and> (\<forall>q \<in> {7, 9}. prio (tsk k' p) \<le> prio (tsk k' q))"
proof (rule ts_class_refines_set)
  have "ts_runnable ts_demo = {5, 7}" by (auto simp: ts_runnable_def)
  then show "abs_ops [Enq 9, Deq 5] (ts_runnable ts_demo) = Some {7, 9}"
    by (auto simp: insert_commute)
qed (simp_all add: ts_prio_ok_def)



text \<open>
  C23. A time-sharing task that only computes sinks to the lowest priority: within its current
  slice and 48 more ticks it has priority 139.
\<close>

theorem ts_cpu_bound_sinks:
  assumes "ts_wf k" and "linked p (ts_queue k)" and "policy (tsk k p) = SCHED_TS"
    and "ts_slice k p \<noteq> 0"
  shows "\<exists>n k'. n \<le> unat (ts_slice k p) + 48 \<and> ts_ticks n k p = Some k' \<and> prio (tsk k' p) = 139"
proof -
  have "139 - prio (tsk k p) \<le> 10 * int 4"
    using ts_wfD(4) [OF assms(1,2)] by (auto simp: ts_prio_ok_def)
  from ts_ticks_bottom [OF assms this] show ?thesis by auto
qed

theorem ts_cpu_bound_sinks_witness:
  "\<exists>n k'. n \<le> 50 \<and> ts_ticks n ts_demo 5 = Some k' \<and> prio (tsk k' 5) = 139"
  using ts_cpu_bound_sinks [of ts_demo 5] by auto

text \<open>
  C22. Tasks of the best priority take turns: if the running task is the first of that queue
  \<open>xs\<close> and every running task yields, then after \<open>n\<close> yields the running task is number
  \<open>n mod length xs\<close> of \<open>xs\<close>, so each gets the CPU once every \<open>length xs\<close> rounds.
\<close>

theorem ts_round_robin:
  assumes "ts_turn k x xs"
  shows "\<exists>k'. ts_yield_rounds n k = Some k' \<and> curr k' = xs ! (n mod length xs) \<and>
           ts_queue k' ! x = rotate n xs"
proof -
  have "xs \<noteq> []" using assms ts_scan_some(2) by (auto simp: ts_turn_def)
  with ts_yield_rounds_turn [OF assms, of n] show ?thesis
    by (auto simp: ts_turn_def hd_rotate_conv_nth)
qed

theorem ts_round_robin_witness:
  "\<exists>k'. ts_yield_rounds 3 ts_demo = Some k' \<and> curr k' = 7"
proof -
  have "ts_scan ((replicate 40 [])[19 := [5, 7]]) 40 = int 19" by code_simp
  then have "ts_turn ts_demo 19 [5, 7]"
    by (simp add: ts_turn_def ts_demo_queue)
  from ts_round_robin [OF this, of 3] show ?thesis by (auto simp: numeral_2_eq_2 [symmetric])
qed

text \<open>
  The wakeup bonus maps the class's range into its top decade, never lowers a priority,
  and keeps the order of any two tasks.
\<close>

lemma wakeup_prio_bonus:
  assumes "ts_prio_ok a" and "ts_prio_ok b" and "a \<le> b"
  shows "100 \<le> wakeup_prio a \<and> wakeup_prio a \<le> 109 \<and> wakeup_prio a \<le> a \<and>
    wakeup_prio a \<le> wakeup_prio b"
  using wakeup_prio_bounds [OF assms(1)] wakeup_prio_mono [OF assms(3)] assms(1,2)
  by (simp add: ts_prio_ok_def)

end
