(* ===== verification/Sched_Rt.thy ===== *)
theory Sched_Rt
  imports Class_Spec
begin

text \<open>
  The real-time scheduling class, \<open>kernel/sched/rt.c\<close>, in the uniprocessor configuration without
  real-time groups: a hundred queues and a bitmap of the ones in use, the accounting of the class
  in \<open>rq->nr_running\<close> as a whole (\<open>enqueue_top_rt_rq\<close>), the throttling of real-time tasks by a
  runtime per period, the tick with round-robin slices and the limit on real-time CPU time, and
  the handlers of the two sysctl files.

  In this configuration every entity is a task and \<open>for_each_sched_rt_entity\<close> runs once. \<open>None\<close> is
  a \<open>BUG_ON\<close>, an index outside the array or a violated contract of a list. A high resolution
  timer is known by whether it is active, and by the overrun counts it reports.
\<close>


section \<open>Queue array\<close>

abbreviation rtq :: "'x kern \<Rightarrow> pid qarray" where
  "rtq k \<equiv> rt_queue (active (rq_rt k))"

abbreviation rtb :: "'x kern \<Rightarrow> bool list" where
  "rtb k \<equiv> bitmap (active (rq_rt k))"

definition set_rtq :: "'x kern \<Rightarrow> pid qarray \<Rightarrow> 'x kern" where
  "set_rtq k qs = upd_rt k (\<lambda>r. r\<lparr>active := (active r)\<lparr>rt_queue := qs\<rparr>\<rparr>)"

definition set_rtb :: "'x kern \<Rightarrow> int \<Rightarrow> bool \<Rightarrow> 'x kern" where
  "set_rtb k i b = upd_rt k (\<lambda>r. r\<lparr>active := (active r)\<lparr>bitmap := (bitmap (active r))[nat i := b]\<rparr>\<rparr>)"

definition upd_rt_se :: "'x kern \<Rightarrow> pid \<Rightarrow> (sched_rt_entity \<Rightarrow> sched_rt_entity) \<Rightarrow> 'x kern" where
  "upd_rt_se k p f = upd_task k p (\<lambda>t. t\<lparr>rt := f (rt t)\<rparr>)"

definition rt_se_prio :: "'x kern \<Rightarrow> pid \<Rightarrow> int" where
  "rt_se_prio k p = prio (tsk k p)"

definition on_rt_rq :: "'x kern \<Rightarrow> pid \<Rightarrow> bool" where
  "on_rt_rq k p = rt_on_rq (rt (tsk k p))"

definition init_rt_rq :: "rt_rq \<Rightarrow> rt_rq" where
  "init_rt_rq r =
     (let a = foldl (\<lambda>a i. a\<lparr>rt_queue := (rt_queue a)[i := []], bitmap := (bitmap a)[i := False]\<rparr>)
                (active r) [0..<100];
          a = a\<lparr>bitmap := (bitmap a)[100 := True]\<rparr>
      in r\<lparr>active := a, rt_queued := False, rt_time := 0, rt_throttled := False, rt_runtime := 0\<rparr>)"

definition init_rt_bandwidth :: "u64 \<Rightarrow> u64 \<Rightarrow> rt_bandwidth \<Rightarrow> rt_bandwidth" where
  "init_rt_bandwidth period runtime b = b\<lparr>rt_period := period, bw_rt_runtime := runtime\<rparr>"

definition start_rt_bandwidth :: "'x kern \<Rightarrow> 'x kern" where
  "start_rt_bandwidth k =
     (if \<not> rt_bandwidth_enabled k \<or> bw_rt_runtime (def_rt_bandwidth k) = RUNTIME_INF then k
      else if \<not> rt_period_active (def_rt_bandwidth k)
      then k\<lparr>def_rt_bandwidth := (def_rt_bandwidth k)\<lparr>rt_period_active := True\<rparr>\<rparr>
      else k)"

definition sched_rt_runtime :: "'x kern \<Rightarrow> u64" where
  "sched_rt_runtime k = rt_runtime (rq_rt k)"

definition sched_rt_period :: "'x kern \<Rightarrow> u64" where
  "sched_rt_period k = rt_period (def_rt_bandwidth k)"

definition rt_rq_throttled :: "'x kern \<Rightarrow> bool" where
  "rt_rq_throttled k = rt_throttled (rq_rt k)"

definition sched_rt_bandwidth_account :: "bool \<Rightarrow> 'x kern \<Rightarrow> bool" where
  "sched_rt_bandwidth_account timer_active k \<longleftrightarrow>
     timer_active \<or> rt_time (rq_rt k) < bw_rt_runtime (def_rt_bandwidth k)"


section \<open>The class in the run queue\<close>

definition dequeue_top_rt_rq :: "'x kern \<Rightarrow> 'x kern option" where
  "dequeue_top_rt_rq k =
     (if \<not> rt_queued (rq_rt k) then Some k
      else if nr_running k = 0 then None
      else Some (upd_rt (sub_nr_running (rt_nr_running (rq_rt k)) k) (\<lambda>r. r\<lparr>rt_queued := False\<rparr>)))"

definition enqueue_top_rt_rq :: "'x kern \<Rightarrow> 'x kern" where
  "enqueue_top_rt_rq k =
     (if rt_queued (rq_rt k) then k
      else if rt_rq_throttled k then k
      else if rt_nr_running (rq_rt k) \<noteq> 0
      then upd_rt (add_nr_running (rt_nr_running (rq_rt k)) k) (\<lambda>r. r\<lparr>rt_queued := True\<rparr>)
      else k)"

definition sched_rt_rq_enqueue :: "'x kern \<Rightarrow> 'x kern" where
  "sched_rt_rq_enqueue k =
     (if rt_nr_running (rq_rt k) = 0 then k else resched_curr (enqueue_top_rt_rq k))"

definition sched_rt_rq_dequeue :: "'x kern \<Rightarrow> 'x kern option" where
  "sched_rt_rq_dequeue k = dequeue_top_rt_rq k"

text \<open>The flag says whether the class is (now) throttled.\<close>

definition sched_rt_runtime_exceeded :: "'x kern \<Rightarrow> (bool \<times> 'x kern) option" where
  "sched_rt_runtime_exceeded k =
     (if rt_throttled (rq_rt k) then Some (rt_rq_throttled k, k)
      else if sched_rt_runtime k \<ge> sched_rt_period k then Some (False, k)
      else if sched_rt_runtime k = RUNTIME_INF then Some (False, k)
      else if rt_time (rq_rt k) > sched_rt_runtime k then
        let k = (if bw_rt_runtime (def_rt_bandwidth k) \<noteq> 0
                 then upd_rt k (\<lambda>r. r\<lparr>rt_throttled := True\<rparr>)
                 else upd_rt k (\<lambda>r. r\<lparr>rt_time := 0\<rparr>))
        in if rt_rq_throttled k then do { k \<leftarrow> sched_rt_rq_dequeue k; Some (True, k) }
           else Some (False, k)
      else Some (False, k))"

definition update_curr_rt :: "'x kern \<Rightarrow> 'x kern option" where
  "update_curr_rt k =
     (let c = curr k
      in if sched_class (tsk k c) \<noteq> RtClass then Some k
         else
           let now = clock_task k; delta_exec = now - exec_start (se (tsk k c))
           in if sint delta_exec \<le> 0 then Some k
              else
                let k = upd_task k c (\<lambda>t. t\<lparr>se := (se t)\<lparr>
                          sum_exec_runtime := sum_exec_runtime (se t) + delta_exec, exec_start := now\<rparr>\<rparr>)
                in if \<not> rt_bandwidth_enabled k then Some k
                   else if sched_rt_runtime k \<noteq> RUNTIME_INF then do {
                     (ex, k) \<leftarrow> sched_rt_runtime_exceeded
                                 (upd_rt k (\<lambda>r. r\<lparr>rt_time := rt_time r + delta_exec\<rparr>));
                     Some (if ex then resched_curr k else k)
                   } else Some k)"


section \<open>Enqueueing and dequeueing\<close>

definition rt_se_rr_nr_running :: "'x kern \<Rightarrow> pid \<Rightarrow> u32" where
  "rt_se_rr_nr_running k p = (if policy (tsk k p) = SCHED_RR then 1 else 0)"

definition inc_rt_tasks :: "'x kern \<Rightarrow> pid \<Rightarrow> 'x kern" where
  "inc_rt_tasks k p =
     start_rt_bandwidth (upd_rt k (\<lambda>r. r\<lparr>rt_nr_running := rt_nr_running r + 1,
       rr_nr_running := rr_nr_running r + rt_se_rr_nr_running k p\<rparr>))"

definition dec_rt_tasks :: "'x kern \<Rightarrow> pid \<Rightarrow> 'x kern" where
  "dec_rt_tasks k p =
     upd_rt k (\<lambda>r. r\<lparr>rt_nr_running := rt_nr_running r - 1,
       rr_nr_running := rr_nr_running r - rt_se_rr_nr_running k p\<rparr>)"

definition move_entity :: "int \<Rightarrow> bool" where
  "move_entity flags = (flags AND (DEQUEUE_SAVE OR DEQUEUE_MOVE) \<noteq> DEQUEUE_SAVE)"

definition delist_rt_entity :: "'x kern \<Rightarrow> pid \<Rightarrow> 'x kern option" where
  "delist_rt_entity k p =
     (if \<not> in_range (rt_se_prio k p) (rtq k) then None
      else
        let k = set_rtq k (list_del_init p (rtq k));
            k = (if rtq k ! nat (rt_se_prio k p) = [] then set_rtb k (rt_se_prio k p) False else k)
        in Some (upd_rt_se k p (\<lambda>e. e\<lparr>rt_on_list := False\<rparr>)))"

definition enqueue_rt_entity_self :: "'x kern \<Rightarrow> pid \<Rightarrow> int \<Rightarrow> 'x kern option" where
  "enqueue_rt_entity_self k p flags = do {
     k \<leftarrow> (if move_entity flags then do {
             qs \<leftarrow> (if flags AND ENQUEUE_HEAD \<noteq> 0 then list_add p (rt_se_prio k p) (rtq k)
                   else list_add_tail p (rt_se_prio k p) (rtq k));
             let k = set_rtb (set_rtq k qs) (rt_se_prio k p) True;
             Some (upd_rt_se k p (\<lambda>e. e\<lparr>rt_on_list := True\<rparr>))
           } else Some k);
     Some (inc_rt_tasks (upd_rt_se k p (\<lambda>e. e\<lparr>rt_on_rq := True\<rparr>)) p)
   }"

definition dequeue_rt_entity_self :: "'x kern \<Rightarrow> pid \<Rightarrow> int \<Rightarrow> 'x kern option" where
  "dequeue_rt_entity_self k p flags = do {
     k \<leftarrow> (if move_entity flags then delist_rt_entity k p else Some k);
     Some (dec_rt_tasks (upd_rt_se k p (\<lambda>e. e\<lparr>rt_on_rq := False\<rparr>)) p)
   }"

definition dequeue_rt_stack :: "'x kern \<Rightarrow> pid \<Rightarrow> int \<Rightarrow> 'x kern option" where
  "dequeue_rt_stack k p flags = do {
     k \<leftarrow> dequeue_top_rt_rq k;
     (if on_rt_rq k p then dequeue_rt_entity_self k p flags else Some k)
   }"

definition enqueue_rt_entity :: "'x kern \<Rightarrow> pid \<Rightarrow> int \<Rightarrow> 'x kern option" where
  "enqueue_rt_entity k p flags = do {
     k \<leftarrow> dequeue_rt_stack k p flags;
     k \<leftarrow> enqueue_rt_entity_self k p flags;
     Some (enqueue_top_rt_rq k)
   }"

definition dequeue_rt_entity :: "'x kern \<Rightarrow> pid \<Rightarrow> int \<Rightarrow> 'x kern option" where
  "dequeue_rt_entity k p flags = do {
     k \<leftarrow> dequeue_rt_stack k p flags;
     Some (enqueue_top_rt_rq k)
   }"

definition enqueue_task_rt :: "'x kern \<Rightarrow> pid \<Rightarrow> int \<Rightarrow> 'x kern option" where
  "enqueue_task_rt k p flags =
     (let k = (if flags AND ENQUEUE_WAKEUP \<noteq> 0 then upd_rt_se k p (\<lambda>e. e\<lparr>rt_timeout := 0\<rparr>) else k)
      in enqueue_rt_entity k p flags)"

definition dequeue_task_rt :: "'x kern \<Rightarrow> pid \<Rightarrow> int \<Rightarrow> 'x kern option" where
  "dequeue_task_rt k p flags = do { k \<leftarrow> update_curr_rt k; dequeue_rt_entity k p flags }"

definition requeue_rt_entity :: "'x kern \<Rightarrow> pid \<Rightarrow> bool \<Rightarrow> 'x kern option" where
  "requeue_rt_entity k p head =
     (if on_rt_rq k p
      then map_option (set_rtq k)
             (if head then list_move p (rt_se_prio k p) (rtq k)
              else list_move_tail p (rt_se_prio k p) (rtq k))
      else Some k)"

definition requeue_task_rt :: "'x kern \<Rightarrow> pid \<Rightarrow> bool \<Rightarrow> 'x kern option" where
  "requeue_task_rt k p head = requeue_rt_entity k p head"

definition yield_task_rt :: "'x kern \<Rightarrow> 'x kern option" where
  "yield_task_rt k = requeue_task_rt k (curr k) False"

definition check_preempt_curr_rt :: "'x kern \<Rightarrow> pid \<Rightarrow> int \<Rightarrow> 'x kern" where
  "check_preempt_curr_rt k p flags =
     (if prio (tsk k p) < prio (tsk k (curr k)) then resched_curr k else k)"


section \<open>Picking, ticks and changes\<close>

text \<open>\<open>sched_find_first_bit\<close>; the bit at \<open>MAX_RT_PRIO\<close> is always set.\<close>

fun find_first_bit :: "bool list \<Rightarrow> nat" where
  "find_first_bit [] = 0"
| "find_first_bit (b # bs) = (if b then 0 else Suc (find_first_bit bs))"

definition pick_next_rt_entity :: "'x kern \<Rightarrow> pid option" where
  "pick_next_rt_entity k =
     (let idx = find_first_bit (rtb k)
      in if 100 \<le> idx then None
         else case rtq k ! idx of [] \<Rightarrow> None | p # _ \<Rightarrow> Some p)"

definition pick_rt_head :: "'x kern \<Rightarrow> (pid \<times> 'x kern) option" where
  "pick_rt_head k = do {
     p \<leftarrow> pick_next_rt_entity k;
     Some (p, upd_task k p (\<lambda>t. t\<lparr>se := (se t)\<lparr>exec_start := clock_task k\<rparr>\<rparr>))
   }"

definition pick_next_task_rt ::
  "('x kern \<Rightarrow> pid \<Rightarrow> 'x kern option) \<Rightarrow> 'x kern \<Rightarrow> pid \<Rightarrow> (pid option \<times> 'x kern) option" where
  "pick_next_task_rt put_prev k prev = do {
     k \<leftarrow> (if sched_class (tsk k prev) = RtClass then update_curr_rt k else Some k);
     (if \<not> rt_queued (rq_rt k) then Some (None, k)
      else do {
        k \<leftarrow> put_prev k prev;
        (p, k) \<leftarrow> pick_rt_head k;
        Some (Some p, k)
      })
   }"

definition put_prev_task_rt :: "'x kern \<Rightarrow> pid \<Rightarrow> 'x kern option" where
  "put_prev_task_rt k p = update_curr_rt k"

definition set_curr_task_rt :: "'x kern \<Rightarrow> 'x kern" where
  "set_curr_task_rt k = upd_task k (curr k) (\<lambda>t. t\<lparr>se := (se t)\<lparr>exec_start := clock_task k\<rparr>\<rparr>)"

definition switched_to_rt :: "'x kern \<Rightarrow> pid \<Rightarrow> 'x kern" where
  "switched_to_rt k p =
     (if task_on_rq_queued (tsk k p) \<and> curr k \<noteq> p \<and> prio (tsk k p) < prio (tsk k (curr k))
      then resched_curr k else k)"

definition prio_changed_rt :: "'x kern \<Rightarrow> pid \<Rightarrow> int \<Rightarrow> 'x kern" where
  "prio_changed_rt k p oldprio =
     (if \<not> task_on_rq_queued (tsk k p) then k
      else if curr k = p then (if oldprio < prio (tsk k p) then resched_curr k else k)
      else if prio (tsk k p) < prio (tsk k (curr k)) then resched_curr k else k)"

text \<open>The limits of the task on real-time CPU time, in microseconds, and the tick rate.\<close>

record rlimits =
  rl_soft :: u64
  rl_hard :: u64
  rl_HZ :: u64

definition RLIM_INFINITY :: u64 where "RLIM_INFINITY = NOT 0"
definition USEC_PER_SEC :: u64 where "USEC_PER_SEC = 1000000"

definition watchdog :: "rlimits \<Rightarrow> 'x kern \<Rightarrow> pid \<Rightarrow> 'x kern" where
  "watchdog L k p =
     (if rl_soft L \<noteq> RLIM_INFINITY then
        let k = (if watchdog_stamp (rt (tsk k p)) \<noteq> jiffies k
                 then upd_rt_se k p (\<lambda>e. e\<lparr>rt_timeout := rt_timeout e + 1, watchdog_stamp := jiffies k\<rparr>)
                 else k);
            d = USEC_PER_SEC div rl_HZ L;
            next = (min (rl_soft L) (rl_hard L) + d - 1) div d
        in if rt_timeout (rt (tsk k p)) > next
           then upd_task k p (\<lambda>t. t\<lparr>sched_exp := sum_exec_runtime (se t)\<rparr>) else k
      else k)"

text \<open>\<open>rt_se->run_list.prev != rt_se->run_list.next\<close>: another task is on the list of \<open>p\<close>.\<close>

definition rt_shares_list :: "'x kern \<Rightarrow> pid \<Rightarrow> bool" where
  "rt_shares_list k p = list_ex (\<lambda>q. p \<in> set q \<and> 1 < length q) (rtq k)"

definition task_tick_rt :: "rlimits \<Rightarrow> 'x kern \<Rightarrow> pid \<Rightarrow> bool \<Rightarrow> 'x kern option" where
  "task_tick_rt L k p queued = do {
     k \<leftarrow> update_curr_rt k;
     let k = watchdog L k p;
     (if policy (tsk k p) \<noteq> SCHED_RR then Some k
      else
        let k = upd_rt_se k p (\<lambda>e. e\<lparr>rt_time_slice := rt_time_slice e - 1\<rparr>)
        in if rt_time_slice (rt (tsk k p)) \<noteq> 0 then Some k
           else
             let k = upd_rt_se k p (\<lambda>e. e\<lparr>rt_time_slice := sched_rr_timeslice k\<rparr>)
             in if rt_shares_list k p then map_option resched_curr (requeue_task_rt k p False)
                else Some k)
   }"

definition get_rr_interval_rt :: "'x kern \<Rightarrow> pid \<Rightarrow> u32" where
  "get_rr_interval_rt k p = (if policy (tsk k p) = SCHED_RR then sched_rr_timeslice k else 0)"


section \<open>The period timer and the sysctl handlers\<close>

text \<open>
  The body for the one CPU; \<open>share\<close> is the scheduler feature \<open>RT_RUNTIME_SHARE\<close>. The flag returned
  is \<open>idle\<close>.
\<close>

definition do_sched_rt_period_timer :: "bool \<Rightarrow> int \<Rightarrow> 'x kern \<Rightarrow> bool \<times> 'x kern" where
  "do_sched_rt_period_timer share overrun k =
     (let k = (if \<not> share \<and> rt_runtime (rq_rt k) \<noteq> RUNTIME_INF
               then upd_rt k (\<lambda>r. r\<lparr>rt_runtime := bw_rt_runtime (def_rt_bandwidth k)\<rparr>) else k);
          skip = (rt_time (rq_rt k) = 0 \<and> rt_nr_running (rq_rt k) = 0);
          (idl, throttled, k) =
            (if skip then (True, False, k)
             else
               let k = update_rq_clock k;
                   (idl, enq, k) =
                     (if rt_time (rq_rt k) \<noteq> 0 then
                        let runtime = rt_runtime (rq_rt k);
                            k = upd_rt k (\<lambda>r. r\<lparr>rt_time := rt_time r -
                                  min (rt_time r) (word_of_int overrun * runtime)\<rparr>);
                            (enq, k) =
                              (if rt_throttled (rq_rt k) \<and> rt_time (rq_rt k) < runtime
                               then (True, let k = upd_rt k (\<lambda>r. r\<lparr>rt_throttled := False\<rparr>)
                                           in if rt_nr_running (rq_rt k) \<noteq> 0 \<and> curr k = idle k
                                              then rq_clock_cancel_skipupdate k else k)
                               else (False, k))
                        in (\<not> (rt_time (rq_rt k) \<noteq> 0 \<or> rt_nr_running (rq_rt k) \<noteq> 0), enq, k)
                      else if rt_nr_running (rq_rt k) \<noteq> 0 then (False, \<not> rt_rq_throttled k, k)
                      else (True, False, k));
                   throttled = rt_throttled (rq_rt k)
               in (idl, throttled, if enq then sched_rt_rq_enqueue k else k))
      in (if \<not> throttled \<and> (\<not> rt_bandwidth_enabled k \<or> bw_rt_runtime (def_rt_bandwidth k) = RUNTIME_INF)
          then True else idl, k))"

text \<open>The timer function, for the overrun counts that \<open>hrtimer_forward_now\<close> returns before 0;
  the result says whether the timer is restarted.\<close>

fun rt_period_loop :: "bool \<Rightarrow> int list \<Rightarrow> bool \<Rightarrow> 'x kern \<Rightarrow> bool \<times> 'x kern" where
  "rt_period_loop share [] idl k = (idl, k)"
| "rt_period_loop share (ov # ovs) idl k =
     (case do_sched_rt_period_timer share ov k of (idl, k) \<Rightarrow> rt_period_loop share ovs idl k)"

definition sched_rt_period_timer :: "bool \<Rightarrow> int list \<Rightarrow> 'x kern \<Rightarrow> bool \<times> 'x kern" where
  "sched_rt_period_timer share overruns k =
     (case rt_period_loop share overruns False k of (idl, k) \<Rightarrow>
        (\<not> idl, if idl then k\<lparr>def_rt_bandwidth := (def_rt_bandwidth k)\<lparr>rt_period_active := False\<rparr>\<rparr> else k))"

definition EINVAL :: int where "EINVAL = 22"

definition sched_rt_global_constraints :: "'x kern \<Rightarrow> int \<times> 'x kern" where
  "sched_rt_global_constraints k = (0, upd_rt k (\<lambda>r. r\<lparr>rt_runtime := global_rt_runtime k\<rparr>))"

text \<open>\<open>sysctl_sched_rt_runtime\<close> is an \<open>int\<close>, compared with an \<open>u64\<close> and with an \<open>unsigned int\<close>.\<close>

definition sched_rt_global_validate :: "'x kern \<Rightarrow> int" where
  "sched_rt_global_validate k =
     (if sysctl_sched_rt_period k = 0 then - EINVAL
      else if word_of_int (sysctl_sched_rt_runtime k) \<noteq> RUNTIME_INF \<and>
              (word_of_int (sysctl_sched_rt_runtime k) :: u32) > sysctl_sched_rt_period k
      then - EINVAL else 0)"

definition sched_rt_do_global :: "'x kern \<Rightarrow> 'x kern" where
  "sched_rt_do_global k =
     k\<lparr>def_rt_bandwidth := (def_rt_bandwidth k)\<lparr>bw_rt_runtime := global_rt_runtime k,
         rt_period := global_rt_period k\<rparr>\<rparr>"

text \<open>
  \<open>parsed\<close> is the effect of \<open>proc_dointvec\<close>: an error, or the values now in the two variables;
  \<open>dl_ok\<close> and \<open>dl_do\<close> are the deadline class's \<open>sched_dl_global_validate\<close> and \<open>sched_dl_do_global\<close>.
\<close>

definition sched_rt_handler ::
  "('x kern \<Rightarrow> int) \<Rightarrow> ('x kern \<Rightarrow> 'x kern) \<Rightarrow> int + u32 \<times> int \<Rightarrow> bool \<Rightarrow> 'x kern \<Rightarrow> int \<times> 'x kern" where
  "sched_rt_handler dl_ok dl_do parsed wr k =
     (let old_period = sysctl_sched_rt_period k; old_runtime = sysctl_sched_rt_runtime k
      in case parsed of Inl ret \<Rightarrow> (ret, k)
         | Inr (period, runtime) \<Rightarrow>
             let k = k\<lparr>sysctl_sched_rt_period := period, sysctl_sched_rt_runtime := runtime\<rparr>;
                 undo = (\<lambda>k. k\<lparr>sysctl_sched_rt_period := old_period, sysctl_sched_rt_runtime := old_runtime\<rparr>)
             in if \<not> wr then (0, k)
                else if sched_rt_global_validate k \<noteq> 0 then (sched_rt_global_validate k, undo k)
                else if dl_ok k \<noteq> 0 then (dl_ok k, undo k)
                else case sched_rt_global_constraints k of (ret, k) \<Rightarrow>
                  if ret \<noteq> 0 then (ret, undo k) else (0, dl_do (sched_rt_do_global k)))"

definition sched_rr_handler :: "u32 \<Rightarrow> (int \<Rightarrow> u32) \<Rightarrow> int + int \<Rightarrow> bool \<Rightarrow> 'x kern \<Rightarrow> int \<times> 'x kern" where
  "sched_rr_handler RR_TIMESLICE msecs_to_jiffies parsed wr k =
     (case parsed of Inl ret \<Rightarrow> (ret, k)
      | Inr ms \<Rightarrow>
          (0, if wr then k\<lparr>sched_rr_timeslice := (if ms \<le> 0 then RR_TIMESLICE else msecs_to_jiffies ms)\<rparr>
              else k))"


section \<open>The invariant\<close>

definition rt_level :: "'x kern \<Rightarrow> pid \<Rightarrow> nat" where
  "rt_level k p = nat (prio (tsk k p))"

definition rt_prio_ok :: "int \<Rightarrow> bool" where
  "rt_prio_ok pr \<longleftrightarrow> 0 \<le> pr \<and> pr < 100"

text \<open>The largest number of tasks of a system, \<open>PID_MAX_LIMIT\<close>.\<close>

definition max_tasks :: nat where "max_tasks = 2 ^ 22"

text \<open>
  The queues hold each task of the class once, at its priority; the bitmap marks the queues in
  use; a task is marked as being on the run queue exactly when it is linked; the counter counts.
\<close>

definition rt_wf :: "'x kern \<Rightarrow> bool" where
  "rt_wf k \<longleftrightarrow> length (rtq k) = 100 \<and> levelled (rt_level k) (rtq k) \<and>
     (\<forall>p. linked p (rtq k) \<longrightarrow> rt_prio_ok (prio (tsk k p)) \<and> p < max_tasks) \<and>
     length (rtb k) = 101 \<and> rtb k ! 100 \<and> (\<forall>i < 100. rtb k ! i \<longleftrightarrow> rtq k ! i \<noteq> []) \<and>
     (\<forall>p. on_rt_rq k p \<longleftrightarrow> linked p (rtq k)) \<and>
     rt_nr_running (rq_rt k) = of_nat (length (concat (rtq k)))"

text \<open>The tasks of the other classes in \<open>nr_running\<close>.\<close>

definition nr_others :: "'x kern \<Rightarrow> u32" where
  "nr_others k = nr_running k - (if rt_queued (rq_rt k) then rt_nr_running (rq_rt k) else 0)"

definition rt_off :: "'x kern \<Rightarrow> bool" where
  "rt_off k \<longleftrightarrow> rt_wf k \<and> \<not> rt_queued (rq_rt k) \<and> unat (nr_running k) < 2 ^ 31"

definition rt_inv :: "'x kern \<Rightarrow> bool" where
  "rt_inv k \<longleftrightarrow> rt_wf k \<and> unat (nr_others k) < 2 ^ 31 \<and>
     (rt_queued (rq_rt k) \<longleftrightarrow> \<not> rt_throttled (rq_rt k) \<and> rt_nr_running (rq_rt k) \<noteq> 0)"

definition rt_runnable :: "'x kern \<Rightarrow> pid set" where
  "rt_runnable k = {p. linked p (rtq k)}"

lemma rt_runnable_iff [simp]: "p \<in> rt_runnable k \<longleftrightarrow> linked p (rtq k)"
  by (simp add: rt_runnable_def)

lemma rt_setters [simp]:
  "rtq (set_rtq k qs) = qs" "rtb (set_rtq k qs) = rtb k" "tsk (set_rtq k qs) = tsk k"
  "rtq (set_rtb k i b) = rtq k" "rtb (set_rtb k i b) = (rtb k)[nat i := b]" "tsk (set_rtb k i b) = tsk k"
  "rq_rt (upd_rt_se k p f) = rq_rt k"
  "rt_nr_running (rq_rt (set_rtq k qs)) = rt_nr_running (rq_rt k)"
  "rt_nr_running (rq_rt (set_rtb k i b)) = rt_nr_running (rq_rt k)"
  "rt_queued (rq_rt (set_rtq k qs)) = rt_queued (rq_rt k)"
  "rt_queued (rq_rt (set_rtb k i b)) = rt_queued (rq_rt k)"
  "rt_throttled (rq_rt (set_rtq k qs)) = rt_throttled (rq_rt k)"
  "rt_throttled (rq_rt (set_rtb k i b)) = rt_throttled (rq_rt k)"
  "nr_running (set_rtq k qs) = nr_running k" "nr_running (set_rtb k i b) = nr_running k"
  "nr_running (upd_rt_se k p f) = nr_running k"
  by (simp_all add: set_rtq_def set_rtb_def upd_rt_se_def)

lemma upd_rt_se_task [simp]:
  "tsk (upd_rt_se k p f) q = (if q = p then (tsk k p)\<lparr>rt := f (rt (tsk k p))\<rparr> else tsk k q)"
  by (simp add: upd_rt_se_def)

lemma rt_wfD:
  assumes "rt_wf k"
  shows "length (rtq k) = 100" "levelled (rt_level k) (rtq k)" "distinct (concat (rtq k))"
    "length (rtb k) = 101" "on_rt_rq k p \<longleftrightarrow> linked p (rtq k)" "rtb k ! 100"
    and "linked p (rtq k) \<Longrightarrow> rt_prio_ok (prio (tsk k p))" "linked p (rtq k) \<Longrightarrow> p < max_tasks"
    and "linked p (rtq k) \<Longrightarrow> p \<in> set (rtq k ! rt_level k p)"
    and "i < 100 \<Longrightarrow> rtb k ! i \<longleftrightarrow> rtq k ! i \<noteq> []"
    and "rt_nr_running (rq_rt k) = of_nat (length (concat (rtq k)))"
  using assms by (auto simp: rt_wf_def dest: levelledD)

text \<open>Only some fields matter.\<close>

lemma rt_wf_cong:
  assumes "rtq k' = rtq k" "rtb k' = rtb k" "rt_nr_running (rq_rt k') = rt_nr_running (rq_rt k)"
    and "\<And>p. prio (tsk k' p) = prio (tsk k p)" "\<And>p. rt_on_rq (rt (tsk k' p)) = rt_on_rq (rt (tsk k p))"
  shows "rt_wf k' = rt_wf k"
  unfolding rt_wf_def rt_level_def on_rt_rq_def assms ..

text \<open>No more tasks than task numbers.\<close>

lemma rt_count_small:
  assumes "rt_wf k"
  shows "length (concat (rtq k)) \<le> max_tasks" "unat (rt_nr_running (rq_rt k)) = length (concat (rtq k))"
    "rt_nr_running (rq_rt k) = 0 \<longleftrightarrow> rt_runnable k = {}"
proof -
  have "set (concat (rtq k)) \<subseteq> {..<max_tasks}"
    using rt_wfD(8) [OF assms] by (auto simp: linked_iff_concat simp del: set_concat)
  then have "card (set (concat (rtq k))) \<le> max_tasks"
    by (metis card_lessThan card_mono finite_lessThan)
  then show le: "length (concat (rtq k)) \<le> max_tasks"
    using distinct_card [OF rt_wfD(3) [OF assms]] by simp
  then have "length (concat (rtq k)) < 2 ^ 32" by (simp add: max_tasks_def)
  then show u: "unat (rt_nr_running (rq_rt k)) = length (concat (rtq k))"
    unfolding rt_wfD(11) [OF assms] by (simp add: unat_of_nat)
  have "rt_nr_running (rq_rt k) = 0 \<longleftrightarrow> concat (rtq k) = []"
    using u by (metis length_0_conv unat_eq_zero)
  also have "\<dots> \<longleftrightarrow> rt_runnable k = {}"
  proof -
    have "rt_runnable k = set (concat (rtq k))"
      by (auto simp: linked_iff_concat simp del: set_concat)
    then show ?thesis by (metis set_empty)
  qed
  finally show "rt_nr_running (rq_rt k) = 0 \<longleftrightarrow> rt_runnable k = {}" .
qed

text \<open>What taking the class off the run queue needs.\<close>

definition rt_acct :: "'x kern \<Rightarrow> bool" where
  "rt_acct k \<longleftrightarrow> rt_wf k \<and> unat (nr_others k) < 2 ^ 31 \<and>
     (rt_queued (rq_rt k) \<longrightarrow> rt_nr_running (rq_rt k) \<noteq> 0)"

lemma rt_inv_acct: "rt_inv k \<Longrightarrow> rt_acct k"
  by (simp add: rt_inv_def rt_acct_def)

lemma dequeue_top_ok:
  assumes "rt_acct k"
  shows "\<exists>k1. dequeue_top_rt_rq k = Some k1 \<and> rt_off k1 \<and> rtq k1 = rtq k \<and> tsk k1 = tsk k \<and>
    rt_throttled (rq_rt k1) = rt_throttled (rq_rt k) \<and> nr_running k1 = nr_others k"
proof (cases "rt_queued (rq_rt k)")
  case True
  have wf: "rt_wf k" using assms by (simp add: rt_acct_def)
  have "nr_running k = nr_others k + rt_nr_running (rq_rt k)" using True by (simp add: nr_others_def)
  moreover have "unat (nr_others k + rt_nr_running (rq_rt k)) = unat (nr_others k) + unat (rt_nr_running (rq_rt k))"
    using assms rt_count_small [OF wf] by (simp add: unat_word_ariths rt_acct_def max_tasks_def)
  moreover have "rt_nr_running (rq_rt k) \<noteq> 0" using assms True by (simp add: rt_acct_def)
  ultimately have "nr_running k \<noteq> 0" by (metis add_eq_0_iff_both_eq_0 unat_0 unat_eq_zero)
  moreover have "rt_wf (upd_rt (sub_nr_running n k) (\<lambda>r. r\<lparr>rt_queued := False\<rparr>))" for n
    using wf by (subst rt_wf_cong [of _ k]) (simp_all add: sub_nr_running_def)
  ultimately show ?thesis
    using assms True by (auto simp: dequeue_top_rt_rq_def rt_off_def sub_nr_running_def nr_others_def rt_acct_def)
qed (use assms in \<open>auto simp: dequeue_top_rt_rq_def rt_off_def rt_acct_def nr_others_def\<close>)

lemma enqueue_top_ok:
  assumes "rt_off k"
  shows "rt_inv (enqueue_top_rt_rq k)" "rtq (enqueue_top_rt_rq k) = rtq k" "tsk (enqueue_top_rt_rq k) = tsk k"
    "nr_others (enqueue_top_rt_rq k) = nr_running k"
    "rt_throttled (rq_rt (enqueue_top_rt_rq k)) = rt_throttled (rq_rt k)"
proof -
  have wf: "rt_wf k" using assms by (simp add: rt_off_def)
  have "rt_wf (enqueue_top_rt_rq k)"
    using wf by (subst rt_wf_cong [of _ k]) (simp_all add: enqueue_top_rt_rq_def add_nr_running_def)
  then show "rt_inv (enqueue_top_rt_rq k)"
    using assms by (auto simp: rt_inv_def rt_off_def enqueue_top_rt_rq_def rt_rq_throttled_def
        nr_others_def add_nr_running_def)
  show "rtq (enqueue_top_rt_rq k) = rtq k" "tsk (enqueue_top_rt_rq k) = tsk k"
    "nr_others (enqueue_top_rt_rq k) = nr_running k"
    "rt_throttled (rq_rt (enqueue_top_rt_rq k)) = rt_throttled (rq_rt k)"
    using assms by (auto simp: enqueue_top_rt_rq_def rt_rq_throttled_def nr_others_def add_nr_running_def rt_off_def)
qed

lemma start_rt_bandwidth_frame [simp]:
  "rq_rt (start_rt_bandwidth k) = rq_rt k" "tsk (start_rt_bandwidth k) = tsk k"
  "nr_running (start_rt_bandwidth k) = nr_running k"
  by (simp_all add: start_rt_bandwidth_def)

lemma inc_dec_frame [simp]:
  "rtq (inc_rt_tasks k p) = rtq k" "rtb (inc_rt_tasks k p) = rtb k" "tsk (inc_rt_tasks k p) = tsk k"
  "rt_nr_running (rq_rt (inc_rt_tasks k p)) = rt_nr_running (rq_rt k) + 1"
  "rt_queued (rq_rt (inc_rt_tasks k p)) = rt_queued (rq_rt k)"
  "rt_throttled (rq_rt (inc_rt_tasks k p)) = rt_throttled (rq_rt k)" "nr_running (inc_rt_tasks k p) = nr_running k"
  "rtq (dec_rt_tasks k p) = rtq k" "rtb (dec_rt_tasks k p) = rtb k" "tsk (dec_rt_tasks k p) = tsk k"
  "rt_nr_running (rq_rt (dec_rt_tasks k p)) = rt_nr_running (rq_rt k) - 1"
  "rt_queued (rq_rt (dec_rt_tasks k p)) = rt_queued (rq_rt k)"
  "rt_throttled (rq_rt (dec_rt_tasks k p)) = rt_throttled (rq_rt k)" "nr_running (dec_rt_tasks k p) = nr_running k"
  by (simp_all add: inc_rt_tasks_def dec_rt_tasks_def)

lemma rt_in_range: "rt_prio_ok pr \<Longrightarrow> length qs = 100 \<Longrightarrow> in_range pr qs"
  by (auto simp: rt_prio_ok_def in_range_def)

text \<open>Linking a task at its priority, at either end of the queue.\<close>

lemma rt_wf_link:
  assumes wf: "rt_wf k" and nl: "\<not> linked p (rtq k)" and pr: "rt_prio_ok (prio (tsk k p))" "p < max_tasks"
    and qs: "qs = (rtq k)[rt_level k p := rtq k ! rt_level k p @ [p]] \<or>
             qs = (rtq k)[rt_level k p := p # rtq k ! rt_level k p]"
    and k': "rtq k' = qs" "rtb k' = (rtb k)[rt_level k p := True]"
      "rt_nr_running (rq_rt k') = rt_nr_running (rq_rt k) + 1"
      "\<And>q. prio (tsk k' q) = prio (tsk k q)"
      "\<And>q. rt_on_rq (rt (tsk k' q)) \<longleftrightarrow> q = p \<or> rt_on_rq (rt (tsk k q))"
  shows "rt_wf k'" "rt_runnable k' = insert p (rt_runnable k)"
proof -
  let ?n = "rt_level k p"
  have n: "?n < length (rtq k)" "?n < 100" using pr rt_wfD(1) [OF wf] by (auto simp: rt_level_def rt_prio_ok_def)
  have lv: "rt_level k' = rt_level k" by (simp add: rt_level_def fun_eq_iff k')
  have lev: "levelled (rt_level k) qs"
    using qs levelled_add_tail [OF rt_wfD(2) [OF wf] nl n(1)] levelled_add_head [OF rt_wfD(2) [OF wf] nl n(1)] by auto
  have lk: "linked q qs \<longleftrightarrow> q = p \<or> linked q (rtq k)" for q using qs linked_add [OF n(1)] by auto
  have "mset (concat qs) = add_mset p (mset (concat (rtq k)))" using qs mset_concat_add [OF n(1)] by auto
  then have cnt: "length (concat qs) = Suc (length (concat (rtq k)))" by (metis size_add_mset size_mset)
  have bm: "rtb k' ! i \<longleftrightarrow> qs ! i \<noteq> []" if "i < 100" for i
    using rt_wfD(1,4) [OF wf] rt_wfD(10) [OF wf that] that qs n by (cases "i = ?n") (auto simp: k')
  have "rtb k' ! 100" "length (rtb k') = 101" "length qs = 100"
    using rt_wfD(1,4,6) [OF wf] n qs by (auto simp: k' nth_list_update)
  then show "rt_wf k'"
    using lev lk bm cnt pr rt_wfD(5,7,8,11) [OF wf]
    by (auto simp: rt_wf_def lv k'(1,3,4,5) on_rt_rq_def add.commute)
  show "rt_runnable k' = insert p (rt_runnable k)" using lk by (auto simp: k'(1))
qed

lemma enqueue_self_ok:
  assumes off: "rt_off k" and nl: "\<not> linked p (rtq k)"
    and pr: "rt_prio_ok (prio (tsk k p))" "p < max_tasks" and mv: "move_entity flags"
  shows "\<exists>k'. enqueue_rt_entity_self k p flags = Some k' \<and> rt_off k' \<and>
    rt_runnable k' = insert p (rt_runnable k) \<and> (\<forall>q. prio (tsk k' q) = prio (tsk k q)) \<and>
    rt_throttled (rq_rt k') = rt_throttled (rq_rt k) \<and> nr_running k' = nr_running k"
proof -
  have wf: "rt_wf k" using off by (simp add: rt_off_def)
  let ?n = "rt_level k p"
  let ?qs = "if flags AND ENQUEUE_HEAD \<noteq> 0 then (rtq k)[?n := p # rtq k ! ?n] else (rtq k)[?n := rtq k ! ?n @ [p]]"
  let ?k1 = "upd_rt_se (set_rtb (set_rtq k ?qs) (rt_se_prio k p) True) p (\<lambda>e. e\<lparr>rt_on_list := True\<rparr>)"
  let ?k' = "inc_rt_tasks (upd_rt_se ?k1 p (\<lambda>e. e\<lparr>rt_on_rq := True\<rparr>)) p"
  have e: "enqueue_rt_entity_self k p flags = Some ?k'"
    using mv nl rt_in_range [OF pr(1) rt_wfD(1) [OF wf]]
    by (simp add: enqueue_rt_entity_self_def list_add_def list_add_tail_def rt_se_prio_def rt_level_def)
  have "rt_wf ?k'" "rt_runnable ?k' = insert p (rt_runnable k)"
    by (rule rt_wf_link [OF wf nl pr, of ?qs]; simp add: rt_level_def rt_se_prio_def)+
  then show ?thesis using e off by (auto simp: rt_off_def)
qed

text \<open>Unlinking a task.\<close>

lemma rt_wf_unlink:
  assumes wf: "rt_wf k" and l: "linked p (rtq k)"
    and k': "rtq k' = unlink p (rtq k)"
      "rtb k' = (if unlink p (rtq k) ! rt_level k p = [] then (rtb k)[rt_level k p := False] else rtb k)"
      "rt_nr_running (rq_rt k') = rt_nr_running (rq_rt k) - 1"
      "\<And>q. prio (tsk k' q) = prio (tsk k q)"
      "\<And>q. rt_on_rq (rt (tsk k' q)) \<longleftrightarrow> q \<noteq> p \<and> rt_on_rq (rt (tsk k q))"
  shows "rt_wf k'" "rt_runnable k' = rt_runnable k - {p}"
proof -
  let ?n = "rt_level k p"
  have n: "?n < 100" using levelledD(1) [OF rt_wfD(2) [OF wf] l] rt_wfD(1) [OF wf] by simp
  have lv: "rt_level k' = rt_level k" by (simp add: rt_level_def fun_eq_iff k')
  have d: "distinct (concat (rtq k))" by (rule rt_wfD(3) [OF wf])
  have lk: "linked q (unlink p (rtq k)) \<longleftrightarrow> q \<noteq> p \<and> linked q (rtq k)" for q by (rule linked_unlink [OF d])
  have "length (concat (unlink p (rtq k))) = length (concat (rtq k)) - 1" "p \<in> set (concat (rtq k))"
    using remove1_concat [OF d, of p] l by (auto simp: linked_iff_concat length_remove1 simp del: set_concat length_concat)
  then have cnt: "Suc (length (concat (unlink p (rtq k)))) = length (concat (rtq k))"
    by (metis One_nat_def Suc_pred length_pos_if_in_set)
  have same: "unlink p (rtq k) ! i = rtq k ! i" if "i < 100" "i \<noteq> ?n" for i
  proof -
    have "p \<notin> set (rtq k ! i)" using that rt_wfD(1,2) [OF wf] by (auto simp: levelled_def)
    then show ?thesis using that rt_wfD(1) [OF wf] by (simp add: remove1_idem)
  qed
  have ne: "rtq k ! ?n \<noteq> []" using rt_wfD(9) [OF wf l] by auto
  have bm: "rtb k' ! i \<longleftrightarrow> unlink p (rtq k) ! i \<noteq> []" if "i < 100" for i
    using rt_wfD(10) [OF wf that] same [OF that] ne that rt_wfD(4) [OF wf]
    by (cases "i = ?n") (auto simp: k'(2) simp del: nth_unlink)
  have "rtb k' ! 100" "length (rtb k') = 101" using rt_wfD(4,6) [OF wf] n by (simp_all add: k'(2))
  moreover have "rt_nr_running (rq_rt k') = of_nat (length (concat (unlink p (rtq k))))"
    using cnt rt_wfD(11) [OF wf] by (metis add_diff_cancel_left' k'(3) of_nat_Suc)
  ultimately show "rt_wf k'"
    using levelled_unlink [OF rt_wfD(2) [OF wf], of p] lk bm rt_wfD(1,5,7,8) [OF wf]
    by (auto simp: rt_wf_def lv k'(1,4,5) on_rt_rq_def simp del: nth_unlink)
  show "rt_runnable k' = rt_runnable k - {p}" by (simp add: set_eq_iff k'(1) lk conj_commute)
qed

lemma dequeue_self_ok:
  assumes off: "rt_off k" and l: "linked p (rtq k)" and mv: "move_entity flags"
  shows "\<exists>k'. dequeue_rt_entity_self k p flags = Some k' \<and> rt_off k' \<and>
    rt_runnable k' = rt_runnable k - {p} \<and> (\<forall>q. prio (tsk k' q) = prio (tsk k q)) \<and>
    rt_throttled (rq_rt k') = rt_throttled (rq_rt k) \<and> nr_running k' = nr_running k"
proof -
  have wf: "rt_wf k" using off by (simp add: rt_off_def)
  let ?k0 = "set_rtq k (unlink p (rtq k))"
  let ?k1 = "if unlink p (rtq k) ! rt_level k p = [] then set_rtb ?k0 (prio (tsk k p)) False else ?k0"
  let ?k' = "dec_rt_tasks (upd_rt_se (upd_rt_se ?k1 p (\<lambda>e. e\<lparr>rt_on_list := False\<rparr>)) p (\<lambda>e. e\<lparr>rt_on_rq := False\<rparr>)) p"
  have e: "dequeue_rt_entity_self k p flags = Some ?k'"
    using mv rt_in_range [OF rt_wfD(7) [OF wf l] rt_wfD(1) [OF wf]]
    by (simp add: dequeue_rt_entity_self_def delist_rt_entity_def list_del_init_def rt_se_prio_def
        rt_level_def Let_def)
  have "rt_wf ?k'" "rt_runnable ?k' = rt_runnable k - {p}"
    by (rule rt_wf_unlink [OF wf l]; simp add: rt_level_def)+
  then show ?thesis using e off by (auto simp: rt_off_def)
qed


section \<open>What each operation does\<close>

text \<open>Everything of a task but its times and flags; what the accounting of time keeps.\<close>

definition rt_frame :: "'x kern \<Rightarrow> 'x kern \<Rightarrow> bool" where
  "rt_frame k k' \<longleftrightarrow> rtq k' = rtq k \<and> nr_others k' = nr_others k \<and> curr k' = curr k \<and>
     sched_rr_timeslice k' = sched_rr_timeslice k \<and>
     (\<forall>q. prio (tsk k' q) = prio (tsk k q) \<and> policy (tsk k' q) = policy (tsk k q) \<and>
          sched_class (tsk k' q) = sched_class (tsk k q) \<and> rt (tsk k' q) = rt (tsk k q))"

lemma rt_frame_refl [simp]: "rt_frame k k"
  by (simp add: rt_frame_def)

lemma rt_frame_trans: "rt_frame k k1 \<Longrightarrow> rt_frame k1 k2 \<Longrightarrow> rt_frame k k2"
  by (simp add: rt_frame_def)

lemma rt_inv_cong:
  assumes "rt_frame k k'" "rtb k' = rtb k" "rt_nr_running (rq_rt k') = rt_nr_running (rq_rt k)"
    and "rt_queued (rq_rt k') = rt_queued (rq_rt k)" "rt_throttled (rq_rt k') = rt_throttled (rq_rt k)"
  shows "rt_inv k' = rt_inv k"
  using rt_wf_cong [of k' k] assms by (simp add: rt_inv_def rt_frame_def)

lemma exceeded_ok:
  assumes inv: "rt_inv k"
  shows "\<exists>ex k'. sched_rt_runtime_exceeded k = Some (ex, k') \<and> rt_inv k' \<and> rt_frame k k' \<and>
    (ex \<longrightarrow> rt_throttled (rq_rt k') \<and> \<not> rt_queued (rq_rt k')) \<and>
    (rt_throttled (rq_rt k') \<longleftrightarrow> rt_throttled (rq_rt k) \<or>
       sched_rt_runtime k < sched_rt_period k \<and> sched_rt_runtime k \<noteq> RUNTIME_INF \<and>
       sched_rt_runtime k < rt_time (rq_rt k) \<and> bw_rt_runtime (def_rt_bandwidth k) \<noteq> 0)"
proof (cases "\<not> rt_throttled (rq_rt k) \<and> sched_rt_runtime k < sched_rt_period k \<and>
    sched_rt_runtime k \<noteq> RUNTIME_INF \<and> sched_rt_runtime k < rt_time (rq_rt k)")
  case True
  show ?thesis
  proof (cases "bw_rt_runtime (def_rt_bandwidth k) \<noteq> 0")
    case bw: True
    let ?k1 = "upd_rt k (\<lambda>r. r\<lparr>rt_throttled := True\<rparr>)"
    have "rt_wf ?k1 = rt_wf k" by (rule rt_wf_cong) simp_all
    moreover have "nr_others ?k1 = nr_others k" by (simp add: nr_others_def)
    ultimately have "rt_acct ?k1" using rt_inv_acct [OF inv] by (simp add: rt_acct_def)
    from dequeue_top_ok [OF this] obtain k2 where k2: "dequeue_top_rt_rq ?k1 = Some k2" "rt_off k2"
      "rtq k2 = rtq k" "tsk k2 = tsk k" "rt_throttled (rq_rt k2)" "nr_running k2 = nr_others k"
      by (auto simp: nr_others_def)
    have "curr k2 = curr k \<and> sched_rr_timeslice k2 = sched_rr_timeslice k"
      using k2(1) by (auto simp: dequeue_top_rt_rq_def sub_nr_running_def split: if_splits)
    with k2 True bw show ?thesis
      by (auto simp: sched_rt_runtime_exceeded_def rt_rq_throttled_def sched_rt_rq_dequeue_def rt_inv_def
          rt_off_def nr_others_def rt_frame_def)
  next
    case False
    let ?k1 = "upd_rt k (\<lambda>r. r\<lparr>rt_time := 0\<rparr>)"
    have fr: "rt_frame k ?k1" by (simp add: rt_frame_def nr_others_def)
    have "rt_inv ?k1" using inv rt_inv_cong [OF fr] by simp
    moreover have "sched_rt_runtime_exceeded k = Some (False, ?k1)"
      using True False by (auto simp: sched_rt_runtime_exceeded_def rt_rq_throttled_def)
    ultimately show ?thesis using fr True False by (intro exI [of _ False] exI [of _ ?k1]) simp
  qed
next
  case False
  have "rt_throttled (rq_rt k) \<longrightarrow> \<not> rt_queued (rq_rt k)" using inv by (simp add: rt_inv_def)
  moreover have "sched_rt_runtime_exceeded k = Some (rt_throttled (rq_rt k), k)"
    using False by (auto simp: sched_rt_runtime_exceeded_def rt_rq_throttled_def)
  ultimately show ?thesis
    using False inv by (intro exI [of _ "rt_throttled (rq_rt k)"] exI [of _ k]) auto
qed

lemma resched_curr_rt_frame: "rt_frame k (resched_curr k)" "rt_inv (resched_curr k) = rt_inv k"
proof -
  have "sched_rr_timeslice (resched_curr k) = sched_rr_timeslice k"
    by (simp add: resched_curr_def set_tsk_need_resched_def)
  then show fr: "rt_frame k (resched_curr k)" by (simp add: rt_frame_def nr_others_def)
  show "rt_inv (resched_curr k) = rt_inv k" by (rule rt_inv_cong [OF fr]) simp_all
qed

lemma update_curr_rt_ok:
  assumes inv: "rt_inv k"
  shows "\<exists>k'. update_curr_rt k = Some k' \<and> rt_inv k' \<and> rt_frame k k'"
proof -
  let ?c = "curr k" let ?d = "clock_task k - exec_start (se (tsk k (curr k)))"
  let ?k1 = "upd_task k ?c (\<lambda>t. t\<lparr>se := (se t)\<lparr>sum_exec_runtime := sum_exec_runtime (se t) + ?d,
      exec_start := clock_task k\<rparr>\<rparr>)"
  let ?k2 = "upd_rt ?k1 (\<lambda>r. r\<lparr>rt_time := rt_time r + ?d\<rparr>)"
  have f1: "rt_frame k ?k1" and f2: "rt_frame k ?k2" by (simp_all add: rt_frame_def nr_others_def)
  have i1: "rt_inv ?k1" and i2: "rt_inv ?k2" using inv rt_inv_cong [OF f1] rt_inv_cong [OF f2] by simp_all
  from exceeded_ok [OF i2] obtain ex k3 where k3: "sched_rt_runtime_exceeded ?k2 = Some (ex, k3)"
    "rt_inv k3" "rt_frame ?k2 k3" by blast
  have f3: "rt_frame k k3" by (rule rt_frame_trans [OF f2 k3(3)])
  have f4: "rt_frame k (resched_curr k3)" "rt_inv (resched_curr k3)"
    using rt_frame_trans [OF f3 resched_curr_rt_frame(1)] k3(2) resched_curr_rt_frame(2) by auto
  have "update_curr_rt k \<in> {Some k, Some ?k1, Some k3, Some (resched_curr k3)}"
    using k3(1) by (auto simp: update_curr_rt_def Let_def simp del: fun_upd_apply)
  with inv i1 f1 k3(2) f3 f4 show ?thesis by fastforce
qed

lemma rt_wf_frame_iff: "rt_frame k k' \<Longrightarrow> rt_runnable k' = rt_runnable k"
  by (simp add: rt_frame_def rt_runnable_def)

lemma enqueue_task_rt_ok:
  assumes inv: "rt_inv k" and nl: "\<not> linked p (rtq k)"
    and pr: "rt_prio_ok (prio (tsk k p))" "p < max_tasks" and mv: "move_entity flags"
  shows "\<exists>k'. enqueue_task_rt k p flags = Some k' \<and> rt_inv k' \<and> rt_runnable k' = insert p (rt_runnable k) \<and>
    (\<forall>q. prio (tsk k' q) = prio (tsk k q)) \<and> nr_others k' = nr_others k \<and>
    rt_throttled (rq_rt k') = rt_throttled (rq_rt k)"
proof -
  let ?k0 = "if flags AND ENQUEUE_WAKEUP \<noteq> 0 then upd_rt_se k p (\<lambda>e. e\<lparr>rt_timeout := 0\<rparr>) else k"
  have t0: "prio (tsk ?k0 q) = prio (tsk k q)" "rt_on_rq (rt (tsk ?k0 q)) = rt_on_rq (rt (tsk k q))"
    "rq_rt ?k0 = rq_rt k" "nr_others ?k0 = nr_others k" for q by (simp_all add: nr_others_def)
  have "rt_wf ?k0 = rt_wf k" by (rule rt_wf_cong) (simp_all add: t0)
  then have "rt_acct ?k0" using rt_inv_acct [OF inv] by (simp add: rt_acct_def t0)
  from dequeue_top_ok [OF this] t0 obtain k1 where k1: "dequeue_top_rt_rq ?k0 = Some k1" "rt_off k1"
    "rtq k1 = rtq k" "tsk k1 = tsk ?k0" "rt_throttled (rq_rt k1) = rt_throttled (rq_rt k)"
    "nr_running k1 = nr_others k" by auto
  have no: "\<not> on_rt_rq k1 p" using k1(2,3) nl rt_wfD(5) [of k1 p] by (auto simp: rt_off_def)
  have "\<not> linked p (rtq k1)" "rt_prio_ok (prio (tsk k1 p))" using k1 nl pr t0 by simp_all
  from enqueue_self_ok [OF k1(2) this pr(2) mv] obtain k2 where
    k2: "enqueue_rt_entity_self k1 p flags = Some k2" "rt_off k2" "rt_runnable k2 = insert p (rt_runnable k1)"
    "\<forall>q. prio (tsk k2 q) = prio (tsk k1 q)" "rt_throttled (rq_rt k2) = rt_throttled (rq_rt k1)"
    "nr_running k2 = nr_running k1" by blast
  have "enqueue_task_rt k p flags = Some (enqueue_top_rt_rq k2)"
    using k1(1) no k2(1) by (simp add: enqueue_task_rt_def enqueue_rt_entity_def dequeue_rt_stack_def)
  then show ?thesis
    using enqueue_top_ok [OF k2(2)] k1 k2 t0 by (auto simp: rt_runnable_def)
qed

lemma dequeue_rt_entity_ok:
  assumes inv: "rt_inv k" and l: "linked p (rtq k)" and mv: "move_entity flags"
  shows "\<exists>k'. dequeue_rt_entity k p flags = Some k' \<and> rt_inv k' \<and> rt_runnable k' = rt_runnable k - {p} \<and>
    (\<forall>q. prio (tsk k' q) = prio (tsk k q)) \<and> nr_others k' = nr_others k \<and>
    rt_throttled (rq_rt k') = rt_throttled (rq_rt k)"
proof -
  from dequeue_top_ok [OF rt_inv_acct [OF inv]] obtain k1 where k1: "dequeue_top_rt_rq k = Some k1"
    "rt_off k1" "rtq k1 = rtq k" "tsk k1 = tsk k" "rt_throttled (rq_rt k1) = rt_throttled (rq_rt k)"
    "nr_running k1 = nr_others k" by blast
  have l1: "linked p (rtq k1)" "on_rt_rq k1 p" using k1(2,3) l rt_wfD(5) [of k1 p] by (auto simp: rt_off_def)
  from dequeue_self_ok [OF k1(2) l1(1) mv] obtain k2 where
    k2: "dequeue_rt_entity_self k1 p flags = Some k2" "rt_off k2" "rt_runnable k2 = rt_runnable k1 - {p}"
    "\<forall>q. prio (tsk k2 q) = prio (tsk k1 q)" "rt_throttled (rq_rt k2) = rt_throttled (rq_rt k1)"
    "nr_running k2 = nr_running k1" by blast
  have "dequeue_rt_entity k p flags = Some (enqueue_top_rt_rq k2)"
    using k1(1) l1 k2(1) by (simp add: dequeue_rt_entity_def dequeue_rt_stack_def)
  then show ?thesis
    using enqueue_top_ok [OF k2(2)] k1 k2 by (auto simp: rt_runnable_def)
qed

lemma dequeue_task_rt_ok:
  assumes inv: "rt_inv k" and l: "linked p (rtq k)" and mv: "move_entity flags"
  shows "\<exists>k'. dequeue_task_rt k p flags = Some k' \<and> rt_inv k' \<and> rt_runnable k' = rt_runnable k - {p} \<and>
    (\<forall>q. prio (tsk k' q) = prio (tsk k q)) \<and> nr_others k' = nr_others k"
proof -
  from update_curr_rt_ok [OF inv] obtain k1 where k1: "update_curr_rt k = Some k1" "rt_inv k1" "rt_frame k k1"
    by blast
  then have "linked p (rtq k1)" using l by (simp add: rt_frame_def)
  from dequeue_rt_entity_ok [OF k1(2) this mv] k1 show ?thesis
    by (auto simp: dequeue_task_rt_def rt_frame_def rt_runnable_def)
qed

text \<open>Moving a task to an end of its own queue keeps the queues otherwise.\<close>

lemma rt_wf_requeue:
  assumes inv: "rt_inv k" and l: "linked p (rtq k)"
    and qs: "qs = (unlink p (rtq k))[rt_level k p := unlink p (rtq k) ! rt_level k p @ [p]]"
  shows "rt_inv (set_rtq k qs)" "rt_runnable (set_rtq k qs) = rt_runnable k"
proof -
  have wf: "rt_wf k" using inv by (simp add: rt_inv_def)
  let ?n = "rt_level k p" let ?u = "unlink p (rtq k)"
  note d = rt_wfD(3) [OF wf]
  have n: "?n < length ?u" "?n < 100" using levelledD(1) [OF rt_wfD(2) [OF wf] l] rt_wfD(1) [OF wf] by simp_all
  have nl: "\<not> linked p ?u" by (rule unlink_not_linked [OF rt_wfD(2) [OF wf]])
  have lv: "rt_level (set_rtq k qs) = rt_level k" by (simp add: rt_level_def fun_eq_iff)
  have lev: "levelled (rt_level k) qs"
    using levelled_add_tail [OF levelled_unlink [OF rt_wfD(2) [OF wf]] nl n(1)] qs by simp
  have lk: "linked q qs \<longleftrightarrow> linked q (rtq k)" for q
    using linked_add(1) [OF n(1)] linked_unlink [OF d] l qs by auto
  have "mset (concat qs) = add_mset p (mset (concat ?u))" using qs mset_concat_add(1) [OF n(1)] by simp
  also have "\<dots> = mset (concat (rtq k))"
    using l unfolding remove1_concat [OF d] by (simp add: linked_iff_concat del: set_concat mset_concat)
  finally have cnt: "length (concat qs) = length (concat (rtq k))" by (metis size_mset)
  have "qs ! i = [] \<longleftrightarrow> rtq k ! i = []" if "i < 100" for i
  proof (cases "i = ?n")
    case True
    then show ?thesis using qs n rt_wfD(9) [OF wf l] by auto
  next
    case False
    have "p \<notin> set (rtq k ! i)" using False that rt_wfD(1,2) [OF wf] by (auto simp: levelled_def)
    then show ?thesis using False that qs rt_wfD(1) [OF wf] by (simp add: remove1_idem)
  qed
  moreover have "length qs = 100" using qs rt_wfD(1) [OF wf] by simp
  ultimately have "rt_wf (set_rtq k qs)"
    using wf lev lk cnt unfolding rt_wf_def lv by (simp add: on_rt_rq_def)
  moreover have "nr_others (set_rtq k qs) = nr_others k" by (simp add: nr_others_def)
  ultimately show "rt_inv (set_rtq k qs)" using inv by (simp add: rt_inv_def)
  show "rt_runnable (set_rtq k qs) = rt_runnable k" by (simp add: rt_runnable_def lk)
qed

lemma requeue_task_rt_ok:
  assumes inv: "rt_inv k" and l: "linked p (rtq k)"
  shows "\<exists>k'. requeue_task_rt k p False = Some k' \<and> rt_inv k' \<and> rt_runnable k' = rt_runnable k \<and> tsk k' = tsk k \<and>
    rtq k' = (unlink p (rtq k))[rt_level k p := unlink p (rtq k) ! rt_level k p @ [p]] \<and> curr k' = curr k"
proof -
  have wf: "rt_wf k" using inv by (simp add: rt_inv_def)
  have "on_rt_rq k p" using rt_wfD(5) [OF wf] l by simp
  moreover have "in_range (prio (tsk k p)) (rtq k)" by (rule rt_in_range [OF rt_wfD(7) [OF wf l] rt_wfD(1) [OF wf]])
  ultimately have "requeue_task_rt k p False =
      Some (set_rtq k ((unlink p (rtq k))[rt_level k p := unlink p (rtq k) ! rt_level k p @ [p]]))"
    using l by (simp add: requeue_task_rt_def requeue_rt_entity_def list_move_tail_def rt_se_prio_def rt_level_def)
  then show ?thesis using rt_wf_requeue [OF inv l refl] by (auto simp: set_rtq_def)
qed

text \<open>The first bit set marks the first queue in use.\<close>

lemma find_first_bit_least:
  "i < length bs \<Longrightarrow> bs ! i \<Longrightarrow>
   bs ! find_first_bit bs \<and> find_first_bit bs \<le> i \<and> (\<forall>j < find_first_bit bs. \<not> bs ! j)"
proof (induction bs arbitrary: i)
  case (Cons b bs)
  show ?case
  proof (cases b)
    case False
    then obtain i' where "i = Suc i'" "i' < length bs" "bs ! i'" using Cons.prems by (cases i) auto
    with Cons.IH [of i'] False show ?thesis by (auto simp: nth_Cons split: nat.splits)
  qed simp
qed simp

lemma pick_next_rt_entity_best:
  assumes wf: "rt_wf k" and ne: "rt_runnable k \<noteq> {}"
  shows "\<exists>p. pick_next_rt_entity k = Some p \<and> p \<in> rt_runnable k \<and> p = hd (rtq k ! rt_level k p) \<and>
    (\<forall>q \<in> rt_runnable k. prio (tsk k p) \<le> prio (tsk k q))"
proof -
  let ?x = "find_first_bit (rtb k)"
  obtain q where q: "linked q (rtq k)" using ne by auto
  have lq: "rt_level k r < 100 \<and> rtb k ! rt_level k r" if "linked r (rtq k)" for r
    using levelledD(1) [OF rt_wfD(2) [OF wf] that] rt_wfD(1) [OF wf] rt_wfD(9) [OF wf that]
      rt_wfD(10) [OF wf, of "rt_level k r"] by auto
  have least: "rtb k ! ?x \<and> ?x \<le> rt_level k r" if "linked r (rtq k)" for r
    using find_first_bit_least [of "rt_level k r" "rtb k"] lq [OF that] rt_wfD(4) [OF wf] by simp
  then have x: "?x < 100" "rtb k ! ?x" using lq [OF q] least [OF q] by auto
  then obtain p ps where p: "rtq k ! ?x = p # ps" using rt_wfD(10) [OF wf x(1)] by (cases "rtq k ! ?x") auto
  then have lp: "linked p (rtq k)" "rt_level k p = ?x"
    using x(1) rt_wfD(1,2) [OF wf] by (auto simp: levelled_def intro: linkedI)
  have "prio (tsk k p) \<le> prio (tsk k r)" if "linked r (rtq k)" for r
  proof -
    have "nat (prio (tsk k p)) \<le> nat (prio (tsk k r))" using least [OF that] lp(2) by (simp add: rt_level_def)
    moreover have "0 \<le> prio (tsk k r)" using rt_wfD(7) [OF wf that] by (simp add: rt_prio_ok_def)
    ultimately show ?thesis using nat_le_eq_zle by blast
  qed
  moreover have "pick_next_rt_entity k = Some p" using x p by (simp add: pick_next_rt_entity_def)
  ultimately show ?thesis using lp p by auto
qed

text \<open>No operation of the class changes a priority or the sysctl settings.\<close>

definition rt_keeps :: "'x kern \<Rightarrow> 'x kern \<Rightarrow> bool" where
  "rt_keeps k k' \<longleftrightarrow> sysctl_sched_rt_runtime k' = sysctl_sched_rt_runtime k \<and>
     (\<forall>q. prio (tsk k' q) = prio (tsk k q))"

lemma rt_keeps_refl: "rt_keeps k k"
  by (simp add: rt_keeps_def)

lemma rt_keeps_trans: "rt_keeps k k1 \<Longrightarrow> rt_keeps k1 k2 \<Longrightarrow> rt_keeps k k2"
  by (simp add: rt_keeps_def)

lemma rt_keeps_small:
  "dequeue_top_rt_rq k = Some k' \<Longrightarrow> rt_keeps k k'"
  "rt_keeps k (enqueue_top_rt_rq k)" "rt_keeps k (upd_rt_se k p g)" "rt_keeps k (inc_rt_tasks k p)"
  "rt_keeps k (dec_rt_tasks k p)" "rt_keeps k (set_rtq k qs)" "rt_keeps k (set_rtb k i b)"
  "rt_keeps k (resched_curr k)"
  by (auto simp: rt_keeps_def dequeue_top_rt_rq_def enqueue_top_rt_rq_def sub_nr_running_def
      add_nr_running_def upd_rt_se_def inc_rt_tasks_def dec_rt_tasks_def start_rt_bandwidth_def set_rtq_def
      set_rtb_def resched_curr_def set_tsk_need_resched_def split: if_splits)

lemma rt_sysctl_frame [simp]:
  "sysctl_sched_rt_runtime (set_rtq k qs) = sysctl_sched_rt_runtime k"
  "sysctl_sched_rt_runtime (set_rtb k i b) = sysctl_sched_rt_runtime k"
  "sysctl_sched_rt_runtime (upd_rt_se k p g) = sysctl_sched_rt_runtime k"
  "sysctl_sched_rt_runtime (inc_rt_tasks k p) = sysctl_sched_rt_runtime k"
  "sysctl_sched_rt_runtime (dec_rt_tasks k p) = sysctl_sched_rt_runtime k"
  by (simp_all add: set_rtq_def set_rtb_def upd_rt_se_def inc_rt_tasks_def dec_rt_tasks_def start_rt_bandwidth_def)

lemma rt_keeps_self:
  "enqueue_rt_entity_self k p flags = Some k' \<Longrightarrow> rt_keeps k k'"
  "dequeue_rt_entity_self k p flags = Some k' \<Longrightarrow> rt_keeps k k'"
  unfolding enqueue_rt_entity_self_def dequeue_rt_entity_self_def delist_rt_entity_def rt_keeps_def
  by (auto simp: bind_eq_Some_conv Let_def split: if_splits)

lemma rt_keeps_stack: "dequeue_rt_stack k p flags = Some k' \<Longrightarrow> rt_keeps k k'"
  by (auto simp: dequeue_rt_stack_def bind_eq_Some_conv split: if_splits
      intro: rt_keeps_trans [OF rt_keeps_small(1)] rt_keeps_self(2) rt_keeps_small(1))

lemma rt_keeps_enqueue: "enqueue_task_rt k p flags = Some k' \<Longrightarrow> rt_keeps k k'"
proof -
  assume "enqueue_task_rt k p flags = Some k'"
  then obtain k0 k1 k2 where "rt_keeps k k0" "dequeue_rt_stack k0 p flags = Some k1"
    "enqueue_rt_entity_self k1 p flags = Some k2" "k' = enqueue_top_rt_rq k2"
    by (auto simp: enqueue_task_rt_def enqueue_rt_entity_def bind_eq_Some_conv Let_def split: if_splits
        intro: rt_keeps_refl rt_keeps_small(3))
  then show ?thesis by (metis rt_keeps_trans rt_keeps_stack rt_keeps_self(1) rt_keeps_small(2))
qed

lemma rt_keeps_exceeded: "sched_rt_runtime_exceeded k = Some (ex, k') \<Longrightarrow> rt_keeps k k'"
proof (cases "rt_throttled (rq_rt k) \<or> sched_rt_runtime k \<ge> sched_rt_period k \<or>
    sched_rt_runtime k = RUNTIME_INF \<or> \<not> rt_time (rq_rt k) > sched_rt_runtime k")
  case False
  moreover assume "sched_rt_runtime_exceeded k = Some (ex, k')"
  ultimately have "k' = upd_rt k (\<lambda>r. r\<lparr>rt_time := 0\<rparr>) \<or>
      dequeue_top_rt_rq (upd_rt k (\<lambda>r. r\<lparr>rt_throttled := True\<rparr>)) = Some k'"
    by (auto simp: sched_rt_runtime_exceeded_def rt_rq_throttled_def sched_rt_rq_dequeue_def Let_def
        bind_eq_Some_conv split: if_splits)
  then show ?thesis by (auto simp: rt_keeps_def dest!: rt_keeps_small(1))
qed (auto simp: sched_rt_runtime_exceeded_def rt_keeps_refl split: if_splits)

text \<open>The three ways through \<open>update_curr_rt\<close>.\<close>

definition charge_curr :: "'x kern \<Rightarrow> 'x kern" where
  "charge_curr k = upd_task k (curr k) (\<lambda>t. t\<lparr>se := (se t)\<lparr>
     sum_exec_runtime := sum_exec_runtime (se t) + (clock_task k - exec_start (se (tsk k (curr k)))),
     exec_start := clock_task k\<rparr>\<rparr>)"

lemma update_curr_rt_alt:
  "update_curr_rt k =
     (if sched_class (tsk k (curr k)) \<noteq> RtClass \<or> sint (clock_task k - exec_start (se (tsk k (curr k)))) \<le> 0
      then Some k
      else if \<not> rt_bandwidth_enabled k \<or> sched_rt_runtime k = RUNTIME_INF then Some (charge_curr k)
      else map_option (\<lambda>(ex, k). if ex then resched_curr k else k)
             (sched_rt_runtime_exceeded (upd_rt (charge_curr k)
               (\<lambda>r. r\<lparr>rt_time := rt_time r + (clock_task k - exec_start (se (tsk k (curr k))))\<rparr>))))"
  by (simp add: update_curr_rt_def charge_curr_def Let_def rt_bandwidth_enabled_def sched_rt_runtime_def
      bind_Some_prod)

lemma charge_curr_frame [simp]:
  "rq_rt (charge_curr k) = rq_rt k" "curr (charge_curr k) = curr k" "nr_running (charge_curr k) = nr_running k"
  "def_rt_bandwidth (charge_curr k) = def_rt_bandwidth k"
  "sysctl_sched_rt_runtime (charge_curr k) = sysctl_sched_rt_runtime k"
  "prio (tsk (charge_curr k) q) = prio (tsk k q)" "rt (tsk (charge_curr k) q) = rt (tsk k q)"
  "policy (tsk (charge_curr k) q) = policy (tsk k q)" "sched_class (tsk (charge_curr k) q) = sched_class (tsk k q)"
  by (simp_all add: charge_curr_def)

lemma rt_keeps_update_curr: "update_curr_rt k = Some k' \<Longrightarrow> rt_keeps k k'"
proof -
  assume u: "update_curr_rt k = Some k'"
  let ?k2 = "upd_rt (charge_curr k)
    (\<lambda>r. r\<lparr>rt_time := rt_time r + (clock_task k - exec_start (se (tsk k (curr k))))\<rparr>)"
  have c: "rt_keeps k (charge_curr k)" "rt_keeps k ?k2" by (simp_all add: rt_keeps_def)
  consider "k' = k" | "k' = charge_curr k"
    | ex k3 where "sched_rt_runtime_exceeded ?k2 = Some (ex, k3)" "k' = k3 \<or> k' = resched_curr k3"
    using u by (auto simp: update_curr_rt_alt split: if_splits)
  then show ?thesis
  proof cases
    case 3
    from rt_keeps_trans [OF c(2) rt_keeps_exceeded [OF 3(1)]] 3(2) show ?thesis
      using rt_keeps_trans [OF _ rt_keeps_small(8)] by auto
  qed (simp_all add: c rt_keeps_refl)
qed

lemma rt_keeps_dequeue: "dequeue_task_rt k p flags = Some k' \<Longrightarrow> rt_keeps k k'"
proof -
  assume "dequeue_task_rt k p flags = Some k'"
  then obtain k1 k2 where "update_curr_rt k = Some k1" "dequeue_rt_stack k1 p flags = Some k2"
    "k' = enqueue_top_rt_rq k2"
    by (auto simp: dequeue_task_rt_def dequeue_rt_entity_def bind_eq_Some_conv)
  then show ?thesis by (metis rt_keeps_trans rt_keeps_stack rt_keeps_update_curr rt_keeps_small(2))
qed

text \<open>With throttling turned off (\<open>-1\<close> in the sysctl file) the class meets its contract.\<close>

definition rt_free :: "'x kern \<Rightarrow> bool" where
  "rt_free k \<longleftrightarrow> rt_inv k \<and> \<not> rt_throttled (rq_rt k) \<and> sysctl_sched_rt_runtime k < 0"

definition rt_ready :: "'x kern \<Rightarrow> pid \<Rightarrow> bool" where
  "rt_ready k p \<longleftrightarrow> rt_prio_ok (prio (tsk k p)) \<and> p < max_tasks"

definition rt_pick :: "'x kern \<Rightarrow> pid option" where
  "rt_pick k = (if rt_queued (rq_rt k) then pick_next_rt_entity k else None)"

lemma move_entity_sleep [simp]: "move_entity DEQUEUE_SLEEP" "move_entity ENQUEUE_WAKEUP"
  by (simp_all add: move_entity_def flag_defs)

lemma rt_queued_iff: "rt_inv k \<Longrightarrow> rt_queued (rq_rt k) \<longleftrightarrow> \<not> rt_throttled (rq_rt k) \<and> rt_runnable k \<noteq> {}"
  using rt_count_small(3) [of k] by (auto simp: rt_inv_def)

lemma update_curr_unthrottled:
  assumes "update_curr_rt k = Some k'" "sysctl_sched_rt_runtime k < 0"
  shows "rt_throttled (rq_rt k') = rt_throttled (rq_rt k)"
  using assms by (auto simp: update_curr_rt_def rt_bandwidth_enabled_def Let_def split: if_splits)

interpretation rtc: class_queue rt_free rt_runnable "\<lambda>k p. prio (tsk k p)" rt_ready
  "\<lambda>k p. enqueue_task_rt k p ENQUEUE_WAKEUP" "\<lambda>k p. dequeue_task_rt k p DEQUEUE_SLEEP" rt_pick
proof (unfold_locales, goal_cases)
  case (1 s p)
  then show ?case
    using enqueue_task_rt_ok [of s p ENQUEUE_WAKEUP] rt_keeps_enqueue [of s p ENQUEUE_WAKEUP]
    by (auto simp: rt_free_def rt_ready_def rt_keeps_def)
next
  case (2 s p)
  from update_curr_rt_ok [of s] 2 obtain s1 where s1: "update_curr_rt s = Some s1" "rt_inv s1" "rt_frame s s1"
    by (auto simp: rt_free_def)
  have l: "linked p (rtq s1)" using s1(3) 2(2) by (simp add: rt_frame_def)
  from dequeue_rt_entity_ok [OF s1(2) l move_entity_sleep(1)] obtain s' where
    s': "dequeue_rt_entity s1 p DEQUEUE_SLEEP = Some s'" "rt_inv s'" "rt_runnable s' = rt_runnable s1 - {p}"
    "rt_throttled (rq_rt s') = rt_throttled (rq_rt s1)" by blast
  have "dequeue_task_rt s p DEQUEUE_SLEEP = Some s'" using s1 s' by (simp add: dequeue_task_rt_def)
  with 2 s1 s' update_curr_unthrottled [OF s1(1)] rt_keeps_dequeue [OF this] show ?case
    by (auto simp: rt_free_def rt_keeps_def rt_wf_frame_iff)
next
  case (3 s p s' q)
  then show ?case using rt_keeps_enqueue [OF 3(1)] by (simp add: rt_ready_def rt_keeps_def)
next
  case (4 s p s' q)
  then show ?case using rt_keeps_dequeue [OF 4(1)] by (simp add: rt_ready_def rt_keeps_def)
next
  case (5 s)
  then show ?case
    using pick_next_rt_entity_best [of s] rt_queued_iff [of s] by (auto simp: rt_pick_def rt_free_def rt_inv_def)
next
  case (6 s p)
  then have "rt_queued (rq_rt s)" "rt_wf s" by (auto simp: rt_pick_def rt_free_def rt_inv_def split: if_splits)
  with 6 pick_next_rt_entity_best [of s] rt_queued_iff [of s] show ?case
    by (auto simp: rt_pick_def rt_free_def)
qed


section \<open>Throttling and the period timer\<close>

lemma rt_inv_throttled_off: "rt_inv k \<Longrightarrow> rt_throttled (rq_rt k) \<Longrightarrow> rt_off k"
  by (auto simp: rt_inv_def rt_off_def nr_others_def)

text \<open>One period of a throttled class with tasks waiting.\<close>

lemma period_timer_throttled:
  fixes k :: "'x kern"
  assumes inv: "rt_inv k" and th: "rt_throttled (rq_rt k)" and ne: "rt_runnable k \<noteq> {}"
    and tm: "rt_time (rq_rt k) \<noteq> 0"
  defines "t' \<equiv> rt_time (rq_rt k) - min (rt_time (rq_rt k)) (rt_runtime (rq_rt k))"
  shows "snd (do_sched_rt_period_timer True 1 k) =
    (let k1 = upd_rt (update_rq_clock k) (\<lambda>r. r\<lparr>rt_time := t'\<rparr>)
     in if t' < rt_runtime (rq_rt k)
        then sched_rt_rq_enqueue (let k2 = upd_rt k1 (\<lambda>r. r\<lparr>rt_throttled := False\<rparr>)
               in if curr k2 = idle k2 then rq_clock_cancel_skipupdate k2 else k2)
        else k1)"
proof -
  have "rt_nr_running (rq_rt k) \<noteq> 0" using rt_count_small(3) [of k] ne inv by (simp add: rt_inv_def)
  then show ?thesis using th tm by (simp add: do_sched_rt_period_timer_def Let_def t'_def rt_rq_throttled_def)
qed

lemma rt_off_cong:
  assumes "rt_off k" "rtq k' = rtq k" "rtb k' = rtb k" "rt_nr_running (rq_rt k') = rt_nr_running (rq_rt k)"
    and "tsk k' = tsk k" "rt_queued (rq_rt k') = rt_queued (rq_rt k)" "nr_running k' = nr_running k"
  shows "rt_off k'"
  using rt_wf_cong [of k' k] assms by (simp add: rt_off_def)

lemma sched_rt_rq_enqueue_ok:
  assumes off: "rt_off k" and th: "\<not> rt_throttled (rq_rt k)" and ne: "rt_runnable k \<noteq> {}"
  shows "rt_inv (sched_rt_rq_enqueue k) \<and> rt_queued (rq_rt (sched_rt_rq_enqueue k)) \<and>
    \<not> rt_throttled (rq_rt (sched_rt_rq_enqueue k)) \<and> need_resched (tsk (sched_rt_rq_enqueue k) (curr k)) \<and>
    rtq (sched_rt_rq_enqueue k) = rtq k"
proof -
  have nz: "rt_nr_running (rq_rt k) \<noteq> 0" using rt_count_small(3) [of k] ne off by (simp add: rt_off_def)
  let ?k1 = "enqueue_top_rt_rq k"
  have c: "curr ?k1 = curr k" by (simp add: enqueue_top_rt_rq_def add_nr_running_def)
  have q: "rt_queued (rq_rt ?k1)" using th nz by (simp add: enqueue_top_rt_rq_def rt_rq_throttled_def add_nr_running_def)
  show ?thesis
    using enqueue_top_ok [OF off] th nz q c resched_curr_rt_frame(2) [of ?k1]
    by (auto simp: sched_rt_rq_enqueue_def resched_curr_task)
qed

lemma period_timer_steps:
  assumes "rt_inv k" "rt_throttled (rq_rt k)" "rt_runnable k \<noteq> {}" "rt_time (rq_rt k) \<noteq> 0"
    and r: "rt_runtime (rq_rt k) \<noteq> 0"
  defines "k' \<equiv> snd (do_sched_rt_period_timer True 1 k)"
  shows "if unat (rt_time (rq_rt k)) < 2 * unat (rt_runtime (rq_rt k))
    then rt_inv k' \<and> rt_queued (rq_rt k') \<and> \<not> rt_throttled (rq_rt k') \<and> need_resched (tsk k' (curr k)) \<and> rtq k' = rtq k
    else rt_inv k' \<and> rt_throttled (rq_rt k') \<and> rtq k' = rtq k \<and> curr k' = curr k \<and>
      rt_runtime (rq_rt k') = rt_runtime (rq_rt k) \<and>
      unat (rt_time (rq_rt k')) = unat (rt_time (rq_rt k)) - unat (rt_runtime (rq_rt k))"
proof -
  let ?t = "rt_time (rq_rt k)" and ?r = "rt_runtime (rq_rt k)"
  let ?t' = "?t - min ?t ?r"
  let ?k1 = "upd_rt (update_rq_clock k) (\<lambda>r. r\<lparr>rt_time := ?t'\<rparr>)"
  have t': "unat ?t' = unat ?t - unat ?r"
    by (cases "?t \<le> ?r") (simp_all add: min_def unat_sub word_le_nat_alt)
  have lt: "?t' < ?r \<longleftrightarrow> unat ?t < 2 * unat ?r"
    using t' r by (auto simp: word_less_nat_alt unat_gt_0 [symmetric] simp flip: unat_gt_0)
  have off: "rt_off k" by (rule rt_inv_throttled_off [OF assms(1,2)])
  show ?thesis
  proof (cases "unat ?t < 2 * unat ?r")
    case True
    let ?k2 = "upd_rt ?k1 (\<lambda>r. r\<lparr>rt_throttled := False\<rparr>)"
    let ?k3 = "if curr ?k2 = idle ?k2 then rq_clock_cancel_skipupdate ?k2 else ?k2"
    have k': "k' = sched_rt_rq_enqueue ?k3"
      unfolding k'_def period_timer_throttled [OF assms(1-4)] using True lt by (simp add: Let_def)
    have "rt_off ?k3" by (rule rt_off_cong [OF off]) (simp_all add: rq_clock_cancel_skipupdate_def)
    moreover have "\<not> rt_throttled (rq_rt ?k3)" "rt_runnable ?k3 \<noteq> {}" "rtq ?k3 = rtq k" "curr ?k3 = curr k"
      using assms(3) by (simp_all add: rq_clock_cancel_skipupdate_def rt_runnable_def)
    ultimately show ?thesis using sched_rt_rq_enqueue_ok [of ?k3] True k' by simp
  next
    case False
    have k': "k' = ?k1"
      unfolding k'_def period_timer_throttled [OF assms(1-4)] using False lt by (simp add: Let_def)
    have "rt_off ?k1" by (rule rt_off_cong [OF off]) simp_all
    then have "rt_inv ?k1" using assms(2) by (simp add: rt_off_def rt_inv_def nr_others_def)
    then show ?thesis using False k' t' assms(2) by simp
  qed
qed


section \<open>The tick\<close>

lemma watchdog_frame:
  "rq_rt (watchdog L k p) = rq_rt k" "nr_running (watchdog L k p) = nr_running k" "curr (watchdog L k p) = curr k"
  "sched_rr_timeslice (watchdog L k p) = sched_rr_timeslice k" "prio (tsk (watchdog L k p) q) = prio (tsk k q)"
  "policy (tsk (watchdog L k p) q) = policy (tsk k q)"
  "rt_on_rq (rt (tsk (watchdog L k p) q)) = rt_on_rq (rt (tsk k q))"
  "rt_time_slice (rt (tsk (watchdog L k p) q)) = rt_time_slice (rt (tsk k q))"
  by (auto simp: watchdog_def Let_def upd_rt_se_def)

lemma rt_inv_cong_task:
  assumes "rq_rt k' = rq_rt k" "nr_running k' = nr_running k" "\<And>q. prio (tsk k' q) = prio (tsk k q)"
    and "\<And>q. rt_on_rq (rt (tsk k' q)) = rt_on_rq (rt (tsk k q))"
  shows "rt_inv k' = rt_inv k"
  using rt_wf_cong [of k' k] assms by (simp add: rt_inv_def nr_others_def)

text \<open>The last tick of a round-robin slice, for a task that is not alone in its queue.\<close>

lemma task_tick_rt_expired:
  assumes inv: "rt_inv k" and l: "linked p (rtq k)" and pol: "policy (tsk k p) = SCHED_RR"
    and sl: "rt_time_slice (rt (tsk k p)) = 1" and q: "rtq k ! rt_level k p = p # rest" "rest \<noteq> []"
  shows "\<exists>k'. task_tick_rt L k p queued = Some k' \<and> rt_inv k' \<and>
    rtq k' = (unlink p (rtq k))[rt_level k p := rest @ [p]] \<and>
    rt_time_slice (rt (tsk k' p)) = sched_rr_timeslice k \<and> need_resched (tsk k' (curr k))"
proof -
  from update_curr_rt_ok [OF inv] obtain k1 where k1: "update_curr_rt k = Some k1" "rt_inv k1" "rt_frame k k1" by blast
  let ?k2 = "watchdog L k1 p"
  let ?k3 = "upd_rt_se ?k2 p (\<lambda>e. e\<lparr>rt_time_slice := rt_time_slice e - 1\<rparr>)"
  let ?k4 = "upd_rt_se ?k3 p (\<lambda>e. e\<lparr>rt_time_slice := sched_rr_timeslice ?k3\<rparr>)"
  have i4: "rt_inv ?k4"
    using k1(2) rt_inv_cong_task [of ?k4 k1] by (simp add: watchdog_frame)
  have wf: "rt_wf k" using inv by (simp add: rt_inv_def)
  have n: "rt_level k p < 100" "length (rtq k) = 100"
    using levelledD(1) [OF rt_wfD(2) [OF wf] l] rt_wfD(1) [OF wf] by simp_all
  have f4: "rtq ?k4 = rtq k" "rt_level ?k4 p = rt_level k p" "curr ?k4 = curr k"
    "rt_time_slice (rt (tsk ?k4 p)) = sched_rr_timeslice k"
    using k1(3) by (simp_all add: watchdog_frame rt_frame_def rt_level_def upd_rt_se_def)
  have "p # rest \<in> set (rtq k)" using q(1) n by (metis nth_mem)
  then have sh: "rt_shares_list ?k4 p"
    using f4(1) q n unfolding rt_shares_list_def list_ex_iff by (intro bexI [of _ "p # rest"]) auto
  have z: "rt_time_slice (rt (tsk ?k3 p)) = 0" "policy (tsk ?k2 p) = SCHED_RR"
    using k1(3) sl pol by (simp_all add: watchdog_frame rt_frame_def)
  have "linked p (rtq ?k4)" using l f4 by simp
  from requeue_task_rt_ok [OF i4 this] obtain k5 where k5: "requeue_task_rt ?k4 p False = Some k5" "rt_inv k5"
    "tsk k5 = tsk ?k4" "curr k5 = curr k" "rtq k5 = (unlink p (rtq k))[rt_level k p := rest @ [p]]"
    using f4 q n by auto
  have "task_tick_rt L k p queued = Some (resched_curr k5)"
    using k1(1) z sh k5(1) by (simp add: task_tick_rt_def Let_def)
  then show ?thesis
    using k5 f4(4) resched_curr_rt_frame(2) [of k5] by (auto simp: resched_curr_task)
qed


section \<open>Properties\<close>

text \<open>A run queue with two round-robin tasks of priority 40, the first running, throttled or not.\<close>

definition rt_demo_task :: "bool \<Rightarrow> task_struct" where
  "rt_demo_task q = blank_task\<lparr>prio := 40, policy := SCHED_RR, sched_class := RtClass,
     rt := \<lparr>rt_timeout = 0, watchdog_stamp = 0, rt_time_slice = 1, rt_on_rq = q, rt_on_list = q\<rparr>\<rparr>"

definition rt_demo :: "bool \<Rightarrow> unit kern" where
  "rt_demo thr = blank_kern\<lparr>tsk := (\<lambda>p. rt_demo_task (p = 5 \<or> p = 7)), curr := 5,
     nr_running := (if thr then 0 else 2), sysctl_sched_rt_runtime := -1,
     rq_rt := \<lparr>active = \<lparr>bitmap = (replicate 100 False @ [True])[40 := True],
         rt_queue = (replicate 100 [])[40 := [5, 7]]\<rparr>,
       rt_nr_running = 2, rr_nr_running = 2, rt_queued = \<not> thr, rt_throttled = thr, rt_time = 10, rt_runtime = 4\<rparr>\<rparr>"

lemma rt_demo_linked [simp]: "linked p (rtq (rt_demo thr)) \<longleftrightarrow> p = 5 \<or> p = 7"
  by (auto simp: rt_demo_def linked_nth nth_list_update split: if_splits)

lemma rt_demo_simps [simp]:
  "prio (tsk (rt_demo thr) p) = 40" "policy (tsk (rt_demo thr) p) = SCHED_RR" "curr (rt_demo thr) = 5"
  "rt_throttled (rq_rt (rt_demo thr)) = thr" "rt_queued (rq_rt (rt_demo thr)) \<longleftrightarrow> \<not> thr"
  "rt_time (rq_rt (rt_demo thr)) = 10" "rt_runtime (rq_rt (rt_demo thr)) = 4"
  "sysctl_sched_rt_runtime (rt_demo thr) = -1" "sched_class (tsk (rt_demo thr) p) = RtClass"
  "rt_time_slice (rt (tsk (rt_demo thr) p)) = 1" "sched_rr_timeslice (rt_demo thr) = 25"
  by (simp_all add: rt_demo_def rt_demo_task_def blank_kern_def)

lemma rt_demo_queue: "rtq (rt_demo thr) = (replicate 100 [])[40 := [5, 7]]"
  by (simp add: rt_demo_def)

lemma rt_demo_inv [simp]: "rt_inv (rt_demo thr)"
proof -
  have "distinct (concat (rtq (rt_demo thr)))" "length (concat (rtq (rt_demo thr))) = 2"
    unfolding rt_demo_queue by code_simp+
  moreover have "rt_nr_running (rq_rt (rt_demo thr)) = 2" by (simp add: rt_demo_def)
  moreover have "linked p ((replicate 100 [])[40 := [5, 7]]) \<longleftrightarrow> p = 5 \<or> p = 7" for p :: pid
    using rt_demo_linked [of p thr] by (simp only: rt_demo_queue)
  ultimately have "rt_wf (rt_demo thr)"
    unfolding rt_wf_def levelled_def
    by (auto simp: rt_level_def rt_prio_ok_def max_tasks_def rt_demo_queue on_rt_rq_def nth_list_update
        nth_append rt_demo_def rt_demo_task_def split: if_splits dest: nth_mem)
  moreover have "nr_others (rt_demo thr) = 0" by (simp add: nr_others_def rt_demo_def)
  ultimately show ?thesis by (simp add: rt_inv_def rt_demo_def)
qed

text \<open>
  \<open>pick_next_task_rt\<close> never hits its \<open>BUG_ON\<close>: when the class is on the run queue after \<open>prev\<close> has
  been charged and put, the task returned is runnable, the front of its queue, and no runnable
  task has a better priority; when the class is off it (empty or throttled) there is no task.
\<close>

lemma pick_next_task_rt_best:
  assumes "rt_inv k" and "sched_class (tsk k prev) \<noteq> RtClass"
    and "put k prev = Some k1" and "rt_inv k1" and "rt_frame k k1"
  shows "(\<not> rt_queued (rq_rt k) \<longrightarrow> pick_next_task_rt put k prev = Some (None, k)) \<and>
    (rt_queued (rq_rt k) \<longrightarrow> (\<exists>p k'. pick_next_task_rt put k prev = Some (Some p, k') \<and>
       p \<in> rt_runnable k \<and> p = hd (rtq k ! nat (prio (tsk k p))) \<and>
       (\<forall>q \<in> rt_runnable k. prio (tsk k p) \<le> prio (tsk k q)) \<and> exec_start (se (tsk k' p)) = clock_task k1))"
proof -
  have wf: "rt_wf k1" using assms(4) by (simp add: rt_inv_def)
  have r: "rt_runnable k1 = rt_runnable k" by (rule rt_wf_frame_iff [OF assms(5)])
  have fr: "rtq k1 = rtq k" "\<And>q. prio (tsk k1 q) = prio (tsk k q)" using assms(5) by (simp_all add: rt_frame_def)
  show ?thesis
  proof (cases "rt_queued (rq_rt k)")
    case True
    then have "rt_runnable k1 \<noteq> {}" using rt_queued_iff [OF assms(1)] r by simp
    from pick_next_rt_entity_best [OF wf this] obtain p where p: "pick_next_rt_entity k1 = Some p"
      "p \<in> rt_runnable k" "p = hd (rtq k ! nat (prio (tsk k p)))"
      "\<forall>q \<in> rt_runnable k. prio (tsk k p) \<le> prio (tsk k q)" by (auto simp: r fr rt_level_def)
    then show ?thesis
      using True assms(2,3)
      by (intro conjI impI exI [of _ p]
          exI [of _ "upd_task k1 p (\<lambda>t. t\<lparr>se := (se t)\<lparr>exec_start := clock_task k1\<rparr>\<rparr>)"])
        (simp_all add: pick_next_task_rt_def pick_rt_head_def)
  qed (use assms(2) in \<open>simp add: pick_next_task_rt_def\<close>)
qed

text \<open>
  C28. With throttling turned off the real-time class implements its abstract specification, a set
  of runnable tasks: any sequence of wakeups and sleeps that the set allows succeeds, ends in the
  same set, and the task picked afterwards is one of the set with the best priority.
\<close>

theorem rt_class_refines_set:
  assumes "rt_free k" and "\<forall>x \<in> set xs. rt_ready k (op_task x)"
    and "abs_ops xs (rt_runnable k) = Some R" and "R \<noteq> {}"
  shows "\<exists>k' p. conc_ops (\<lambda>k p. enqueue_task_rt k p ENQUEUE_WAKEUP)
             (\<lambda>k p. dequeue_task_rt k p DEQUEUE_SLEEP) xs k = Some k' \<and>
           rt_pick k' = Some p \<and> p \<in> R \<and> (\<forall>q \<in> R. prio (tsk k' p) \<le> prio (tsk k' q))"
  by (rule rtc.ops_then_pick [OF assms])

theorem rt_class_refines_set_witness:
  "\<exists>k' p. conc_ops (\<lambda>k p. enqueue_task_rt k p ENQUEUE_WAKEUP)
             (\<lambda>k p. dequeue_task_rt k p DEQUEUE_SLEEP) [Enq 9, Deq 5] (rt_demo False) = Some k' \<and>
           rt_pick k' = Some p \<and> p \<in> {7, 9} \<and> (\<forall>q \<in> {7, 9}. prio (tsk k' p) \<le> prio (tsk k' q))"
proof (rule rt_class_refines_set)
  have "rt_runnable (rt_demo False) = {5, 7}" by (auto simp: rt_runnable_def)
  then show "abs_ops [Enq 9, Deq 5] (rt_runnable (rt_demo False)) = Some {7, 9}"
    by (auto simp: insert_commute)
qed (simp_all add: rt_free_def rt_ready_def rt_prio_ok_def max_tasks_def)

text \<open>
  C29. Real-time tasks cannot run past their budget: whenever the running real-time task is charged
  and the class has used more than its runtime, the class is taken off the run queue, stays
  throttled and a reschedule is requested.
\<close>

theorem rt_runtime_enforced:
  assumes "rt_inv k" and "sched_class (tsk k (curr k)) = RtClass" and "rt_bandwidth_enabled k"
    and "d = clock_task k - exec_start (se (tsk k (curr k)))" and "0 < sint d"
    and "rt_runtime (rq_rt k) < rt_period (def_rt_bandwidth k)" and "rt_runtime (rq_rt k) \<noteq> RUNTIME_INF"
    and "bw_rt_runtime (def_rt_bandwidth k) \<noteq> 0"
  shows "\<exists>k'. update_curr_rt k = Some k' \<and> rt_inv k' \<and> rt_runnable k' = rt_runnable k \<and>
    (rt_throttled (rq_rt k') \<longleftrightarrow>
       rt_throttled (rq_rt k) \<or> rt_runtime (rq_rt k) < rt_time (rq_rt k) + d) \<and>
    (rt_throttled (rq_rt k') \<longrightarrow> \<not> rt_queued (rq_rt k'))"
proof -
  let ?k2 = "upd_rt (charge_curr k) (\<lambda>r. r\<lparr>rt_time := rt_time r + d\<rparr>)"
  have fr: "rt_frame k ?k2" by (simp add: rt_frame_def nr_others_def charge_curr_def)
  have "rt_inv ?k2" using rt_inv_cong [OF fr] assms(1) by simp
  from exceeded_ok [OF this] obtain ex k3 where k3: "sched_rt_runtime_exceeded ?k2 = Some (ex, k3)" "rt_inv k3"
    "rt_frame ?k2 k3" "rt_throttled (rq_rt k3) \<longleftrightarrow>
       rt_throttled (rq_rt k) \<or> rt_runtime (rq_rt k) < rt_time (rq_rt k) + d"
    using assms(6-8) by (auto simp: sched_rt_runtime_def sched_rt_period_def)
  have u: "update_curr_rt k = Some (if ex then resched_curr k3 else k3)"
    using assms(2-5,7) k3(1) by (simp add: update_curr_rt_alt sched_rt_runtime_def)
  have "rt_runnable (if ex then resched_curr k3 else k3) = rt_runnable k"
    using rt_wf_frame_iff [OF rt_frame_trans [OF fr k3(3)]] by (simp add: rt_runnable_def)
  with u k3 resched_curr_rt_frame(2) [of k3] show ?thesis by (auto simp: rt_inv_def)
qed

theorem rt_runtime_enforced_witness:
  "\<exists>k'. update_curr_rt ((rt_demo False)\<lparr>sysctl_sched_rt_runtime := 950000, clock_task := 3\<rparr>) = Some k' \<and>
     rt_throttled (rq_rt k') \<and> \<not> rt_queued (rq_rt k')"
proof -
  let ?k = "(rt_demo False)\<lparr>sysctl_sched_rt_runtime := 950000, clock_task := 3\<rparr>"
  have fr: "rt_frame (rt_demo False) ?k" by (simp add: rt_frame_def nr_others_def)
  have "rt_inv ?k" using rt_inv_cong [OF fr] by simp
  moreover have "exec_start (se (tsk (rt_demo False) 5)) = 0" "rt_period (def_rt_bandwidth (rt_demo False)) = 1000000000"
    "bw_rt_runtime (def_rt_bandwidth (rt_demo False)) = 950000000"
    by (simp_all add: rt_demo_def rt_demo_task_def blank_task_def blank_kern_def)
  ultimately show ?thesis
    using rt_runtime_enforced [of ?k 3] by (auto simp: rt_bandwidth_enabled_def RUNTIME_INF_def)
qed

text \<open>
  C30. Throttling ends: while real-time tasks wait, the period timer takes their runtime off the
  time used in every period, so that after at most (time used / runtime) + 1 periods the class is
  back on the run queue and a reschedule is requested.
\<close>

theorem rt_throttle_ends:
  assumes "rt_inv k" and "rt_throttled (rq_rt k)" and "rt_runnable k \<noteq> {}" and "rt_time (rq_rt k) \<noteq> 0"
    and "rt_runtime (rq_rt k) \<noteq> 0"
  shows "\<exists>n k'. n \<le> unat (rt_time (rq_rt k)) div unat (rt_runtime (rq_rt k)) + 1 \<and>
    snd (rt_period_loop True (replicate n 1) idl k) = k' \<and> rt_inv k' \<and> \<not> rt_throttled (rq_rt k') \<and>
    rt_queued (rq_rt k') \<and> rtq k' = rtq k \<and> need_resched (tsk k' (curr k))"
  using assms
proof (induction "unat (rt_time (rq_rt k))" arbitrary: k idl rule: less_induct)
  case less
  let ?t = "unat (rt_time (rq_rt k))" and ?r = "unat (rt_runtime (rq_rt k))"
  obtain idl' k1 where d: "do_sched_rt_period_timer True 1 k = (idl', k1)" by fastforce
  note st = period_timer_steps [OF less.prems]
  have r: "0 < ?r" using less.prems(5) by (simp add: unat_gt_0)
  show ?case
  proof (cases "?t < 2 * ?r")
    case True
    then show ?thesis using st d by (intro exI [of _ 1] exI [of _ k1]) auto
  next
    case False
    then have k1: "rt_inv k1" "rt_throttled (rq_rt k1)" "rtq k1 = rtq k" "curr k1 = curr k"
      "rt_runtime (rq_rt k1) = rt_runtime (rq_rt k)" "unat (rt_time (rq_rt k1)) = ?t - ?r" using st d by auto
    have "rt_runnable k1 \<noteq> {}" "rt_time (rq_rt k1) \<noteq> 0" "rt_runtime (rq_rt k1) \<noteq> 0"
      using k1 less.prems(3,5) False r by (auto simp: rt_runnable_def unat_gt_0 [symmetric])
    with less.hyps [of k1 idl'] k1 r False obtain n k' where
      n: "n \<le> (?t - ?r) div ?r + 1" "snd (rt_period_loop True (replicate n 1) idl' k1) = k'" "rt_inv k'"
      "\<not> rt_throttled (rq_rt k')" "rt_queued (rq_rt k')" "rtq k' = rtq k" "need_resched (tsk k' (curr k))" by auto
    have "(?t - ?r) div ?r = ?t div ?r - 1" "0 < ?t div ?r"
      using False r by (simp_all add: div_greater_zero_iff le_div_geq)
    with n d show ?thesis by (intro exI [of _ "Suc n"] exI [of _ k']) auto
  qed
qed

theorem rt_throttle_ends_witness:
  "\<exists>n k'. n \<le> 3 \<and> snd (rt_period_loop True (replicate n 1) False (rt_demo True)) = k' \<and>
     \<not> rt_throttled (rq_rt k') \<and> rt_queued (rq_rt k')"
proof -
  have "rt_runnable (rt_demo True) = {5, 7}" by (auto simp: rt_runnable_def)
  with rt_throttle_ends [of "rt_demo True" False] show ?thesis by auto
qed

text \<open>
  A round-robin task that uses up its slice while others of its priority wait goes to the
  end of its own queue, the other queues stay as they are, it gets a new slice, and a reschedule
  is requested.
\<close>

lemma rt_round_robin_tick:
  assumes "rt_inv k" and "linked p (rtq k)" and "policy (tsk k p) = SCHED_RR"
    and "rt_time_slice (rt (tsk k p)) = 1" and "rtq k ! nat (prio (tsk k p)) = p # rest" and "rest \<noteq> []"
  shows "\<exists>k'. task_tick_rt L k p queued = Some k' \<and> rt_inv k' \<and>
    (\<forall>i < 100. rtq k' ! i = (if i = nat (prio (tsk k p)) then rest @ [p] else rtq k ! i)) \<and>
    rt_time_slice (rt (tsk k' p)) = sched_rr_timeslice k \<and> need_resched (tsk k' (curr k))"
proof -
  have wf: "rt_wf k" using assms(1) by (simp add: rt_inv_def)
  have "unlink p (rtq k) ! i = rtq k ! i" if "i < 100" "i \<noteq> rt_level k p" for i
    using that rt_wfD(1,2) [OF wf] by (auto simp: levelled_def intro!: remove1_idem)
  moreover have "rt_level k p < 100" using levelledD(1) [OF rt_wfD(2) [OF wf] assms(2)] rt_wfD(1) [OF wf] by simp
  ultimately show ?thesis
    using task_tick_rt_expired [OF assms(1-4), of rest L queued] assms(5,6) rt_wfD(1) [OF wf]
    by (auto simp: rt_level_def nth_list_update)
qed

text \<open>The sysctl file: a rejected setting changes nothing, an accepted one is consistent.\<close>

lemma sched_rt_handler_result:
  assumes "sched_rt_handler dl_ok (\<lambda>k. k) (Inr (period, runtime)) True k = (ret, k')" "- (2 ^ 31) \<le> runtime" "runtime < 2 ^ 31"
  shows "if ret = 0
    then sysctl_sched_rt_period k' = period \<and> sysctl_sched_rt_runtime k' = runtime \<and> period \<noteq> 0 \<and>
      (runtime = -1 \<or> (word_of_int runtime :: u32) \<le> period) \<and>
      rt_runtime (rq_rt k') = bw_rt_runtime (def_rt_bandwidth k')
    else sysctl_sched_rt_period k' = sysctl_sched_rt_period k \<and>
      sysctl_sched_rt_runtime k' = sysctl_sched_rt_runtime k \<and> def_rt_bandwidth k' = def_rt_bandwidth k"
proof -
  have m1: "(word_of_int runtime :: u64) = RUNTIME_INF \<longleftrightarrow> runtime = -1"
  proof
    assume "(word_of_int runtime :: u64) = RUNTIME_INF"
    then have "sint (word_of_int runtime :: u64) = -1" by (simp add: RUNTIME_INF_def)
    then show "runtime = -1" using assms(2,3) by (simp add: int_word_sint)
  qed (simp add: RUNTIME_INF_def)
  let ?bad = "period = 0 \<or> runtime \<noteq> -1 \<and> period < (word_of_int runtime :: u32)"
  have v: "sched_rt_global_validate (k\<lparr>sysctl_sched_rt_period := period, sysctl_sched_rt_runtime := runtime\<rparr>) =
      (if ?bad then - EINVAL else 0)" using m1 by (simp add: sched_rt_global_validate_def)
  have e: "EINVAL \<noteq> 0" by (simp add: EINVAL_def)
  show ?thesis
  proof (cases ?bad)
    case True
    then show ?thesis using assms(1) v e by (auto simp: sched_rt_handler_def Let_def)
  next
    case False
    then have "runtime = -1 \<or> (word_of_int runtime :: u32) \<le> period" "period \<noteq> 0" by (auto simp: not_less)
    then show ?thesis using assms(1) v False
      by (auto simp: sched_rt_handler_def Let_def sched_rt_global_constraints_def sched_rt_do_global_def
          global_rt_runtime_def split: if_splits)
  qed
qed

end
