(* ===== verification/Sched_Core.thy ===== *)
theory Sched_Core
  imports Sched_Ts Sched_Rt
begin

text \<open>
  The scheduler core of \<open>ASS5/kernel/sched/core.c\<close>: the dispatch through the table of scheduling
  classes, queueing, wakeup, fork, the tick, the choice of the next task and the main scheduling
  function.

  The functions of a class are a record, the \<open>struct sched_class\<close> of \<open>sched.h\<close>; the tables of the
  real-time and of the time-sharing class are built from theories \<open>Sched_Rt\<close> and \<open>Sched_Ts\<close>. What
  the core calls outside the sources at hand (the deadline, fair and idle classes, the work
  queues, signals, load tracking) is a field of \<open>env\<close>; the theorems name what they need of it. A
  value \<open>None\<close> is a \<open>BUG\<close>, a broken list or an access outside an array; for the retry loop of
  \<open>pick_next_task\<close> it is also not returning.
\<close>


section \<open>Scheduling classes\<close>

datatype picked = NoTask | RetryTask | Task pid

record 'x class_ops =
  cop_enqueue_task :: "'x kern \<Rightarrow> pid \<Rightarrow> int \<Rightarrow> 'x kern option"
  cop_dequeue_task :: "'x kern \<Rightarrow> pid \<Rightarrow> int \<Rightarrow> 'x kern option"
  cop_yield_task :: "'x kern \<Rightarrow> 'x kern option"
  cop_yield_to_task :: "('x kern \<Rightarrow> pid \<Rightarrow> bool \<Rightarrow> bool \<times> 'x kern) option"
  cop_check_preempt_curr :: "'x kern \<Rightarrow> pid \<Rightarrow> int \<Rightarrow> 'x kern"
  cop_pick_next_task ::
    "('x kern \<Rightarrow> pid \<Rightarrow> 'x kern option) \<Rightarrow> 'x kern \<Rightarrow> pid \<Rightarrow> (picked \<times> 'x kern) option"
  cop_put_prev_task :: "'x kern \<Rightarrow> pid \<Rightarrow> 'x kern option"
  cop_set_curr_task :: "'x kern \<Rightarrow> 'x kern"
  cop_task_tick :: "'x kern \<Rightarrow> pid \<Rightarrow> bool \<Rightarrow> 'x kern option"
  cop_task_fork :: "('x kern \<Rightarrow> pid \<Rightarrow> 'x kern) option"
  cop_task_dead :: "('x kern \<Rightarrow> pid \<Rightarrow> 'x kern) option"
  cop_switched_from :: "('x kern \<Rightarrow> pid \<Rightarrow> 'x kern) option"
  cop_switched_to :: "'x kern \<Rightarrow> pid \<Rightarrow> 'x kern"
  cop_prio_changed :: "'x kern \<Rightarrow> pid \<Rightarrow> int \<Rightarrow> 'x kern"
  cop_get_rr_interval :: "('x kern \<Rightarrow> pid \<Rightarrow> u32 option) option"
  cop_update_curr :: "'x kern \<Rightarrow> 'x kern option"

text \<open>The code outside the sources that the core calls.\<close>

record 'x env =
  stop_sched_class :: "'x class_ops"
  dl_sched_class :: "'x class_ops"
  fair_sched_class :: "'x class_ops"
  idle_sched_class :: "'x class_ops"
  rttime_limits :: "pid \<Rightarrow> rlimits"
  init_dl_bandwidth :: "u64 \<Rightarrow> u64 \<Rightarrow> 'x kern \<Rightarrow> 'x kern"
  init_cfs_rq :: "'x kern \<Rightarrow> 'x kern"
  init_dl_rq :: "'x kern \<Rightarrow> 'x kern"
  reweight_task :: "'x kern \<Rightarrow> pid \<Rightarrow> int \<Rightarrow> 'x kern"
  dl_clear_params :: "sched_dl_entity \<Rightarrow> sched_dl_entity"
  init_entity_runnable_average :: "'x kern \<Rightarrow> pid \<Rightarrow> 'x kern"
  post_init_entity_util_avg :: "'x kern \<Rightarrow> pid \<Rightarrow> 'x kern"
  cpu_load_update_active :: "'x kern \<Rightarrow> 'x kern"
  calc_global_load_tick :: "'x kern \<Rightarrow> 'x kern"
  wq_worker_waking_up :: "'x kern \<Rightarrow> pid \<Rightarrow> 'x kern"
  wq_worker_sleeping :: "'x kern \<Rightarrow> pid \<Rightarrow> pid option \<times> 'x kern"
  signal_pending_state :: "int \<Rightarrow> pid \<Rightarrow> bool"

definition picked_of :: "(pid option \<times> 'x kern) option \<Rightarrow> (picked \<times> 'x kern) option" where
  "picked_of r = map_option (\<lambda>(p, k). (case p of None \<Rightarrow> NoTask | Some p \<Rightarrow> Task p, k)) r"

definition rt_sched_class :: "('x, 'z) env_scheme \<Rightarrow> 'x class_ops" where
  "rt_sched_class E = \<lparr>
     cop_enqueue_task = enqueue_task_rt,
     cop_dequeue_task = dequeue_task_rt,
     cop_yield_task = yield_task_rt,
     cop_yield_to_task = None,
     cop_check_preempt_curr = check_preempt_curr_rt,
     cop_pick_next_task = (\<lambda>put k prev. picked_of (pick_next_task_rt put k prev)),
     cop_put_prev_task = put_prev_task_rt,
     cop_set_curr_task = set_curr_task_rt,
     cop_task_tick = (\<lambda>k p. task_tick_rt (rttime_limits E p) k p),
     cop_task_fork = None,
     cop_task_dead = None,
     cop_switched_from = None,
     cop_switched_to = switched_to_rt,
     cop_prio_changed = prio_changed_rt,
     cop_get_rr_interval = Some (\<lambda>k p. Some (get_rr_interval_rt k p)),
     cop_update_curr = update_curr_rt\<rparr>"

definition ts_sched_class :: "'x class_ops" where
  "ts_sched_class = \<lparr>
     cop_enqueue_task = enqueue_task_ts,
     cop_dequeue_task = dequeue_task_ts,
     cop_yield_task = yield_task_ts,
     cop_yield_to_task = None,
     cop_check_preempt_curr = check_preempt_curr_ts,
     cop_pick_next_task = (\<lambda>put k prev. picked_of (pick_next_task_ts put k prev)),
     cop_put_prev_task = (\<lambda>k p. Some (put_prev_task_ts k p)),
     cop_set_curr_task = set_curr_task_ts,
     cop_task_tick = task_tick_ts,
     cop_task_fork = None,
     cop_task_dead = None,
     cop_switched_from = None,
     cop_switched_to = switched_to_ts,
     cop_prio_changed = prio_changed_ts,
     cop_get_rr_interval = Some get_rr_interval_ts,
     cop_update_curr = (\<lambda>k. Some (update_curr_ts k))\<rparr>"

text \<open>Following a \<open>sched_class\<close> pointer.\<close>

fun class_of :: "('x, 'z) env_scheme \<Rightarrow> class_id \<Rightarrow> 'x class_ops" where
  "class_of E StopClass = stop_sched_class E"
| "class_of E DlClass = dl_sched_class E"
| "class_of E RtClass = rt_sched_class E"
| "class_of E TsClass = ts_sched_class"
| "class_of E FairClass = fair_sched_class E"
| "class_of E IdleClass = idle_sched_class E"

abbreviation task_class :: "('x, 'z) env_scheme \<Rightarrow> 'x kern \<Rightarrow> pid \<Rightarrow> 'x class_ops" where
  "task_class E k p \<equiv> class_of E (sched_class (tsk k p))"

text \<open>
  The classes in the order of their \<open>next\<close> pointers, best first; on a uniprocessor the highest
  class is the deadline class.
\<close>

definition for_each_class :: "class_id list" where
  "for_each_class = [DlClass, RtClass, TsClass, FairClass, IdleClass]"

definition put_prev_task :: "('x, 'z) env_scheme \<Rightarrow> 'x kern \<Rightarrow> pid \<Rightarrow> 'x kern option" where
  "put_prev_task E k prev = cop_put_prev_task (task_class E k prev) k prev"

definition set_curr_task :: "('x, 'z) env_scheme \<Rightarrow> 'x kern \<Rightarrow> pid \<Rightarrow> 'x kern" where
  "set_curr_task E k p = cop_set_curr_task (task_class E k p) k"


section \<open>Queueing\<close>

definition enqueue_task :: "('x, 'z) env_scheme \<Rightarrow> 'x kern \<Rightarrow> pid \<Rightarrow> int \<Rightarrow> 'x kern option" where
  "enqueue_task E k p flags =
     (let k = (if flags AND ENQUEUE_NOCLOCK = 0 then update_rq_clock k else k)
      in cop_enqueue_task (task_class E k p) k p flags)"

definition dequeue_task :: "('x, 'z) env_scheme \<Rightarrow> 'x kern \<Rightarrow> pid \<Rightarrow> int \<Rightarrow> 'x kern option" where
  "dequeue_task E k p flags =
     (let k = (if flags AND DEQUEUE_NOCLOCK = 0 then update_rq_clock k else k)
      in cop_dequeue_task (task_class E k p) k p flags)"

definition activate_task :: "('x, 'z) env_scheme \<Rightarrow> 'x kern \<Rightarrow> pid \<Rightarrow> int \<Rightarrow> 'x kern option" where
  "activate_task E k p flags =
     (let k = (if task_contributes_to_load (tsk k p)
               then k\<lparr>nr_uninterruptible := nr_uninterruptible k - 1\<rparr> else k)
      in enqueue_task E k p flags)"

definition deactivate_task :: "('x, 'z) env_scheme \<Rightarrow> 'x kern \<Rightarrow> pid \<Rightarrow> int \<Rightarrow> 'x kern option" where
  "deactivate_task E k p flags =
     (let k = (if task_contributes_to_load (tsk k p)
               then k\<lparr>nr_uninterruptible := nr_uninterruptible k + 1\<rparr> else k)
      in dequeue_task E k p flags)"

definition dl_task :: "'a task_struct_scheme \<Rightarrow> bool" where
  "dl_task t = dl_prio (prio t)"

definition rt_task :: "'a task_struct_scheme \<Rightarrow> bool" where
  "rt_task t = rt_prio (prio t)"

definition check_class_changed ::
  "('x, 'z) env_scheme \<Rightarrow> 'x kern \<Rightarrow> pid \<Rightarrow> class_id \<Rightarrow> int \<Rightarrow> 'x kern" where
  "check_class_changed E k p prev_class oldprio =
     (if prev_class \<noteq> sched_class (tsk k p) then
        let k = (case cop_switched_from (class_of E prev_class) of None \<Rightarrow> k | Some f \<Rightarrow> f k p)
        in cop_switched_to (task_class E k p) k p
      else if oldprio \<noteq> prio (tsk k p) \<or> dl_task (tsk k p)
      then cop_prio_changed (task_class E k p) k p oldprio
      else k)"

text \<open>
  The loop of \<open>check_preempt_curr\<close>: which of the two classes comes first in the list of classes.
\<close>

fun class_preempts :: "class_id list \<Rightarrow> class_id \<Rightarrow> class_id \<Rightarrow> bool" where
  "class_preempts [] cur c = False"
| "class_preempts (x # xs) cur c =
     (if x = cur then False else if x = c then True else class_preempts xs cur c)"

definition check_preempt_curr :: "('x, 'z) env_scheme \<Rightarrow> 'x kern \<Rightarrow> pid \<Rightarrow> int \<Rightarrow> 'x kern" where
  "check_preempt_curr E k p flags =
     (let cc = sched_class (tsk k (curr k)); pc = sched_class (tsk k p);
          k = (if pc = cc then cop_check_preempt_curr (class_of E cc) k p flags
               else if class_preempts for_each_class cc pc then resched_curr k else k)
      in if task_on_rq_queued (tsk k (curr k)) \<and> need_resched (tsk k (curr k))
         then rq_clock_skip_update k else k)"


section \<open>Waking tasks\<close>

definition ttwu_activate :: "('x, 'z) env_scheme \<Rightarrow> 'x kern \<Rightarrow> pid \<Rightarrow> int \<Rightarrow> 'x kern option" where
  "ttwu_activate E k p en_flags = do {
     k \<leftarrow> activate_task E k p en_flags;
     let k = upd_task k p (\<lambda>t. t\<lparr>on_rq := TASK_ON_RQ_QUEUED\<rparr>);
     Some (if tflags (tsk k p) AND PF_WQ_WORKER \<noteq> 0 then wq_worker_waking_up E k p else k)
   }"

definition ttwu_do_wakeup :: "('x, 'z) env_scheme \<Rightarrow> 'x kern \<Rightarrow> pid \<Rightarrow> int \<Rightarrow> 'x kern" where
  "ttwu_do_wakeup E k p wake_flags =
     (let k = check_preempt_curr E k p wake_flags
      in upd_task k p (\<lambda>t. t\<lparr>state := TASK_RUNNING\<rparr>))"

definition ttwu_do_activate :: "('x, 'z) env_scheme \<Rightarrow> 'x kern \<Rightarrow> pid \<Rightarrow> int \<Rightarrow> 'x kern option" where
  "ttwu_do_activate E k p wake_flags = do {
     k \<leftarrow> ttwu_activate E k p (ENQUEUE_WAKEUP OR ENQUEUE_NOCLOCK);
     Some (ttwu_do_wakeup E k p wake_flags)
   }"

definition ttwu_remote :: "('x, 'z) env_scheme \<Rightarrow> 'x kern \<Rightarrow> pid \<Rightarrow> int \<Rightarrow> bool \<times> 'x kern" where
  "ttwu_remote E k p wake_flags =
     (if task_on_rq_queued (tsk k p)
      then (True, ttwu_do_wakeup E (update_rq_clock k) p wake_flags)
      else (False, k))"

definition ttwu_queue :: "('x, 'z) env_scheme \<Rightarrow> 'x kern \<Rightarrow> pid \<Rightarrow> int \<Rightarrow> 'x kern option" where
  "ttwu_queue E k p wake_flags = ttwu_do_activate E (update_rq_clock k) p wake_flags"

definition end_iowait :: "'x kern \<Rightarrow> pid \<Rightarrow> 'x kern" where
  "end_iowait k p = (if in_iowait (tsk k p) then k\<lparr>nr_iowait := nr_iowait k - 1\<rparr> else k)"

definition try_to_wake_up ::
  "('x, 'z) env_scheme \<Rightarrow> 'x kern \<Rightarrow> pid \<Rightarrow> int \<Rightarrow> int \<Rightarrow> (bool \<times> 'x kern) option" where
  "try_to_wake_up E k p st wake_flags =
     (if state (tsk k p) AND st = 0 then Some (False, k)
      else
        let (done, k) = (if on_rq (tsk k p) \<noteq> 0 then ttwu_remote E k p wake_flags else (False, k))
        in if done then Some (True, k)
           else map_option (Pair True) (ttwu_queue E (end_iowait k p) p wake_flags))"

definition try_to_wake_up_local :: "('x, 'z) env_scheme \<Rightarrow> 'x kern \<Rightarrow> pid \<Rightarrow> 'x kern option" where
  "try_to_wake_up_local E k p =
     (if p = curr k then Some k
      else if state (tsk k p) AND TASK_NORMAL = 0 then Some k
      else do {
        k \<leftarrow> (if task_on_rq_queued (tsk k p) then Some k
              else ttwu_activate E (end_iowait k p) p (ENQUEUE_WAKEUP OR ENQUEUE_NOCLOCK));
        Some (ttwu_do_wakeup E k p 0)
      })"

definition wake_up_process :: "('x, 'z) env_scheme \<Rightarrow> 'x kern \<Rightarrow> pid \<Rightarrow> (bool \<times> 'x kern) option" where
  "wake_up_process E k p = try_to_wake_up E k p TASK_NORMAL 0"

definition wake_up_state ::
  "('x, 'z) env_scheme \<Rightarrow> 'x kern \<Rightarrow> pid \<Rightarrow> int \<Rightarrow> (bool \<times> 'x kern) option" where
  "wake_up_state E k p st = try_to_wake_up E k p st 0"

definition default_wake_function ::
  "('x, 'z) env_scheme \<Rightarrow> 'x kern \<Rightarrow> pid \<Rightarrow> int \<Rightarrow> int \<Rightarrow> (bool \<times> 'x kern) option" where
  "default_wake_function E k p mode wake_flags = try_to_wake_up E k p mode wake_flags"


section \<open>Weights\<close>

definition sched_prio_to_weight :: "int list" where
  "sched_prio_to_weight =
     [88761, 71755, 56483, 46273, 36291,
      29154, 23254, 18705, 14949, 11916,
      9548, 7620, 6100, 4904, 3906,
      3121, 2501, 1991, 1586, 1277,
      1024, 820, 655, 526, 423,
      335, 272, 215, 172, 137,
      110, 87, 70, 56, 45,
      36, 29, 23, 18, 15]"

definition sched_prio_to_wmult :: "u32 list" where
  "sched_prio_to_wmult =
     [48388, 59856, 76040, 92818, 118348,
      147320, 184698, 229616, 287308, 360437,
      449829, 563644, 704093, 875809, 1099582,
      1376151, 1717300, 2157191, 2708050, 3363326,
      4194304, 5237765, 6557202, 8165337, 10153587,
      12820798, 15790321, 19976592, 24970740, 31350126,
      39045157, 49367440, 61356676, 76695844, 95443717,
      119304647, 148102320, 186737708, 238609294, 286331153]"

definition WEIGHT_IDLEPRIO :: int where "WEIGHT_IDLEPRIO = 3"
definition WMULT_IDLEPRIO :: u32 where "WMULT_IDLEPRIO = 1431655765"

definition scale_load :: "u64 \<Rightarrow> u64" where
  "scale_load w = push_bit 10 w"

definition scale_load_down :: "u64 \<Rightarrow> u64" where
  "scale_load_down w = (if w \<noteq> 0 then max 2 (drop_bit 10 w) else w)"

text \<open>An index outside the tables is a fault.\<close>

definition set_load_weight ::
  "('x, 'z) env_scheme \<Rightarrow> 'x kern \<Rightarrow> pid \<Rightarrow> bool \<Rightarrow> 'x kern option" where
  "set_load_weight E k p update_load =
     (let t = tsk k p; pr = static_prio t - MAX_RT_PRIO;
          set = (\<lambda>w iw. upd_task k p (\<lambda>t. t\<lparr>se := (se t)\<lparr>load := \<lparr>weight = w, inv_weight = iw\<rparr>\<rparr>\<rparr>))
      in if idle_policy (policy t)
         then Some (set (scale_load (word_of_int WEIGHT_IDLEPRIO)) WMULT_IDLEPRIO)
         else if update_load \<and> sched_class t = FairClass then Some (reweight_task E k p pr)
         else if in_range pr sched_prio_to_weight
         then Some (set (scale_load (word_of_int (sched_prio_to_weight ! nat pr)))
                        (sched_prio_to_wmult ! nat pr))
         else None)"


section \<open>Fork and start of a task\<close>

definition EAGAIN :: int where "EAGAIN = 11"
definition PF_IDLE :: u32 where "PF_IDLE = 0x2"

text \<open>
  \<open>__sched_fork\<close>. The structure at \<open>p\<close> is the copy of the parent's, so the priority that selects
  the time slice is the one the parent had; outside \<open>100 .. 139\<close> the parent's slice stays.
\<close>

definition sched_fork_basic :: "('x, 'z) env_scheme \<Rightarrow> 'x kern \<Rightarrow> pid \<Rightarrow> 'x kern" where
  "sched_fork_basic E k p = upd_task k p (\<lambda>t. t\<lparr>
     on_rq := 0,
     se := (se t)\<lparr>se_on_rq := 0, exec_start := 0, sum_exec_runtime := 0,
             prev_sum_exec_runtime := 0, nr_migrations := 0, vruntime := 0\<rparr>,
     ts := (ts t)\<lparr>ts_time_slice :=
             (let d = c_div (prio t) 10
              in if d = 13 then 16 else if d = 12 then 12 else if d = 11 then 8
                 else if d = 10 then 4 else ts_time_slice (ts t))\<rparr>,
     dl := dl_clear_params E (dl t),
     rt := (rt t)\<lparr>rt_timeout := 0, rt_time_slice := sched_rr_timeslice k, rt_on_rq := False,
             rt_on_list := False\<rparr>\<rparr>)"

text \<open>The block that undoes the parent's policy when \<open>sched_reset_on_fork\<close> is set.\<close>

definition reset_policy :: "task_struct \<Rightarrow> task_struct" where
  "reset_policy t =
     (let t = (if task_has_dl_policy t \<or> task_has_rt_policy t
               then t\<lparr>policy := SCHED_NORMAL, static_prio := NICE_TO_PRIO 0, rt_priority := 0\<rparr>
               else if PRIO_TO_NICE (static_prio t) < 0 then t\<lparr>static_prio := NICE_TO_PRIO 0\<rparr> else t)
      in t\<lparr>prio := static_prio t, normal_prio := static_prio t\<rparr>)"

definition reset_on_fork_block :: "('x, 'z) env_scheme \<Rightarrow> 'x kern \<Rightarrow> pid \<Rightarrow> 'x kern option" where
  "reset_on_fork_block E k p =
     (if \<not> sched_reset_on_fork (tsk k p) then Some k
      else map_option (\<lambda>k. upd_task k p (\<lambda>t. t\<lparr>sched_reset_on_fork := False\<rparr>))
             (set_load_weight E (upd_task k p reset_policy) p False))"

definition fork_class :: "task_struct \<Rightarrow> class_id" where
  "fork_class t = (if rt_prio (prio t) then RtClass
                   else if ts_policy (policy t) then TsClass else FairClass)"

definition task_fork :: "('x, 'z) env_scheme \<Rightarrow> 'x kern \<Rightarrow> pid \<Rightarrow> 'x kern" where
  "task_fork E k p = (case cop_task_fork (task_class E k p) of None \<Rightarrow> k | Some f \<Rightarrow> f k p)"

definition sched_fork :: "('x, 'z) env_scheme \<Rightarrow> 'x kern \<Rightarrow> pid \<Rightarrow> (int \<times> 'x kern) option" where
  "sched_fork E k p = do {
     let k = sched_fork_basic E k p;
     let k = upd_task k p (\<lambda>t. t\<lparr>state := TASK_NEW\<rparr>);
     let k = upd_task k p (\<lambda>t. t\<lparr>prio := normal_prio (tsk k (curr k))\<rparr>);
     k \<leftarrow> reset_on_fork_block E k p;
     Some (if dl_prio (prio (tsk k p)) then (- EAGAIN, k)
           else
             let k = upd_task k p (\<lambda>t. t\<lparr>sched_class := fork_class t\<rparr>);
                 k = init_entity_runnable_average E k p
             in (0, task_fork E k p))
   }"

definition wake_up_new_task :: "('x, 'z) env_scheme \<Rightarrow> 'x kern \<Rightarrow> pid \<Rightarrow> 'x kern option" where
  "wake_up_new_task E k p = do {
     let k = upd_task k p (\<lambda>t. t\<lparr>state := TASK_RUNNING\<rparr>);
     let k = update_rq_clock k;
     let k = post_init_entity_util_avg E k p;
     k \<leftarrow> activate_task E k p ENQUEUE_NOCLOCK;
     let k = upd_task k p (\<lambda>t. t\<lparr>on_rq := TASK_ON_RQ_QUEUED\<rparr>);
     Some (check_preempt_curr E k p WF_FORK)
   }"

definition init_idle :: "('x, 'z) env_scheme \<Rightarrow> 'x kern \<Rightarrow> pid \<Rightarrow> 'x kern" where
  "init_idle E k p =
     (let k = sched_fork_basic E k p;
          k = upd_task k p (\<lambda>t. t\<lparr>state := TASK_RUNNING, se := (se t)\<lparr>exec_start := sched_clock k\<rparr>,
                tflags := tflags t OR PF_IDLE\<rparr>);
          k = k\<lparr>curr := p, idle := p\<rparr>
      in upd_task k p (\<lambda>t. t\<lparr>on_rq := TASK_ON_RQ_QUEUED, sched_class := IdleClass\<rparr>))"

text \<open>\<open>sched_init\<close>, for the boot task \<open>p\<close> (\<open>init_task\<close>, the current task while booting).\<close>

definition sched_init :: "('x, 'z) env_scheme \<Rightarrow> 'x kern \<Rightarrow> pid \<Rightarrow> 'x kern option" where
  "sched_init E k p = do {
     let k = k\<lparr>def_rt_bandwidth :=
               init_rt_bandwidth (global_rt_period k) (global_rt_runtime k) (def_rt_bandwidth k)\<rparr>;
     let k = init_dl_bandwidth E (global_rt_period k) (global_rt_runtime k) k;
     let k = k\<lparr>nr_running := 0\<rparr>;
     let k = init_cfs_rq E k;
     let k = k\<lparr>rq_rt := init_rt_rq (rq_rt k)\<rparr>;
     let k = init_dl_rq E k;
     let k = k\<lparr>rq_ts := init_ts_rq (rq_ts k)\<rparr>;
     let k = upd_rt k (\<lambda>r. r\<lparr>rt_runtime := bw_rt_runtime (def_rt_bandwidth k)\<rparr>);
     let k = k\<lparr>nr_iowait := 0\<rparr>;
     k \<leftarrow> set_load_weight E k p False;
     Some (init_idle E k p)
   }"


section \<open>The tick, and the accounted run time\<close>

definition task_sched_runtime :: "('x, 'z) env_scheme \<Rightarrow> 'x kern \<Rightarrow> pid \<Rightarrow> (u64 \<times> 'x kern) option" where
  "task_sched_runtime E k p = do {
     k \<leftarrow> (if task_current k p \<and> task_on_rq_queued (tsk k p)
           then (let k = update_rq_clock k in cop_update_curr (task_class E k p) k) else Some k);
     Some (sum_exec_runtime (se (tsk k p)), k)
   }"

definition scheduler_tick :: "('x, 'z) env_scheme \<Rightarrow> 'x kern \<Rightarrow> 'x kern option" where
  "scheduler_tick E k = do {
     let cur = curr k;
     let k = update_rq_clock k;
     k \<leftarrow> cop_task_tick (task_class E k cur) k cur False;
     let k = cpu_load_update_active E k;
     Some (calc_global_load_tick E k)
   }"


section \<open>Choosing the next task\<close>

text \<open>One pass over the classes; falling off the end is the \<open>BUG()\<close> at the end of the function.\<close>

fun pick_from :: "('x, 'z) env_scheme \<Rightarrow> class_id list \<Rightarrow> 'x kern \<Rightarrow> pid \<Rightarrow> (picked \<times> 'x kern) option" where
  "pick_from E [] k prev = None"
| "pick_from E (c # cs) k prev = do {
     (p, k) \<leftarrow> cop_pick_next_task (class_of E c) (put_prev_task E) k prev;
     (if p = NoTask then pick_from E cs k prev else Some (p, k))
   }"

text \<open>The label \<open>again\<close>: a class may ask for another pass.\<close>

partial_function (option) pick_again ::
  "('x, 'z) env_scheme \<Rightarrow> 'x kern \<Rightarrow> pid \<Rightarrow> (pid \<times> 'x kern) option" where
  "pick_again E k prev = do {
     r \<leftarrow> pick_from E for_each_class k prev;
     (case fst r of Task p \<Rightarrow> Some (p, snd r) | _ \<Rightarrow> pick_again E (snd r) prev)
   }"

declare pick_again.simps [code]

definition pick_next_task :: "('x, 'z) env_scheme \<Rightarrow> 'x kern \<Rightarrow> pid \<Rightarrow> (pid \<times> 'x kern) option" where
  "pick_next_task E k prev =
     (if sched_class (tsk k prev) \<in> {IdleClass, FairClass} \<and> nr_running k = h_nr_running k then do {
        (p, k) \<leftarrow> cop_pick_next_task (fair_sched_class E) (put_prev_task E) k prev;
        (case p of
           Task p \<Rightarrow> Some (p, k)
         | RetryTask \<Rightarrow> pick_again E k prev
         | NoTask \<Rightarrow> do {
             (p, k) \<leftarrow> cop_pick_next_task (idle_sched_class E) (put_prev_task E) k prev;
             (case p of Task p \<Rightarrow> Some (p, k) | _ \<Rightarrow> None)
           })
      }
      else pick_again E k prev)"


section \<open>The main scheduling function\<close>

text \<open>
  A switch of context: the skip flags of the clock are cleared, and when the task left is dead its
  class is told. Memory maps, registers and the references to the stack are not modelled.
\<close>

definition clear_skip_flags :: "'x kern \<Rightarrow> 'x kern" where
  "clear_skip_flags k =
     k\<lparr>clock_update_flags := clock_update_flags k AND NOT (RQCF_ACT_SKIP OR RQCF_REQ_SKIP)\<rparr>"

definition finish_task_switch :: "('x, 'z) env_scheme \<Rightarrow> 'x kern \<Rightarrow> pid \<Rightarrow> 'x kern" where
  "finish_task_switch E k prev =
     (if state (tsk k prev) = TASK_DEAD
      then (case cop_task_dead (task_class E k prev) of None \<Rightarrow> k | Some f \<Rightarrow> f k prev) else k)"

definition context_switch :: "('x, 'z) env_scheme \<Rightarrow> 'x kern \<Rightarrow> pid \<Rightarrow> pid \<Rightarrow> 'x kern" where
  "context_switch E k prev nxt = finish_task_switch E (clear_skip_flags k) prev"

text \<open>
  The parts of \<open>__schedule\<close> that put the calling task to sleep: a work queue may name a worker to
  wake in place of the one that sleeps.
\<close>

definition worker_asleep :: "('x, 'z) env_scheme \<Rightarrow> 'x kern \<Rightarrow> pid \<Rightarrow> 'x kern option" where
  "worker_asleep E k prev =
     (if tflags (tsk k prev) AND PF_WQ_WORKER \<noteq> 0
      then (case wq_worker_sleeping E k prev of (to_wakeup, k) \<Rightarrow>
              case to_wakeup of None \<Rightarrow> Some k | Some q \<Rightarrow> try_to_wake_up_local E k q)
      else Some k)"

definition begin_iowait :: "'x kern \<Rightarrow> pid \<Rightarrow> 'x kern" where
  "begin_iowait k p = (if in_iowait (tsk k p) then k\<lparr>nr_iowait := nr_iowait k + 1\<rparr> else k)"

definition sleep_task :: "('x, 'z) env_scheme \<Rightarrow> 'x kern \<Rightarrow> pid \<Rightarrow> 'x kern option" where
  "sleep_task E k prev = do {
     k \<leftarrow> deactivate_task E k prev (DEQUEUE_SLEEP OR DEQUEUE_NOCLOCK);
     let k = upd_task k prev (\<lambda>t. t\<lparr>on_rq := 0\<rparr>);
     worker_asleep E (begin_iowait k prev) prev
   }"

text \<open>The flag says that the switch counts as voluntary.\<close>

definition schedule_sleep :: "('x, 'z) env_scheme \<Rightarrow> bool \<Rightarrow> 'x kern \<Rightarrow> (bool \<times> 'x kern) option" where
  "schedule_sleep E preempt k =
     (let prev = curr k
      in if \<not> preempt \<and> state (tsk k prev) \<noteq> 0 then
           if signal_pending_state E (state (tsk k prev)) prev
           then Some (True, upd_task k prev (\<lambda>t. t\<lparr>state := TASK_RUNNING\<rparr>))
           else map_option (Pair True) (sleep_task E k prev)
         else Some (False, k))"

definition count_switch :: "bool \<Rightarrow> task_struct \<Rightarrow> task_struct" where
  "count_switch voluntary t =
     (if voluntary then t\<lparr>nvcsw := nvcsw t + 1\<rparr> else t\<lparr>nivcsw := nivcsw t + 1\<rparr>)"

text \<open>The end of \<open>__schedule\<close>, once the next task is known.\<close>

definition switch_task :: "('x, 'z) env_scheme \<Rightarrow> bool \<Rightarrow> pid \<Rightarrow> pid \<Rightarrow> 'x kern \<Rightarrow> 'x kern" where
  "switch_task E voluntary prev nxt k =
     (let k = clear_tsk_need_resched prev k
      in if prev \<noteq> nxt then
           let k = k\<lparr>nr_switches := nr_switches k + 1, curr := nxt\<rparr>;
               k = upd_task k prev (count_switch voluntary)
           in context_switch E k prev nxt
         else clear_skip_flags k)"

text \<open>\<open>__schedule\<close>: the debugging checks and the message for time-sharing tasks are left out.\<close>

definition schedule_main :: "('x, 'z) env_scheme \<Rightarrow> bool \<Rightarrow> 'x kern \<Rightarrow> 'x kern option" where
  "schedule_main E preempt k = do {
     let prev = curr k;
     let k = k\<lparr>clock_update_flags := push_bit 1 (clock_update_flags k)\<rparr>;
     let k = update_rq_clock k;
     (voluntary, k) \<leftarrow> schedule_sleep E preempt k;
     (nxt, k) \<leftarrow> pick_next_task E k prev;
     Some (switch_task E voluntary prev nxt k)
   }"

text \<open>
  \<open>do_task_dead\<close>: the call of \<open>__schedule\<close> does not come back to the dead task.
\<close>

definition do_task_dead :: "('x, 'z) env_scheme \<Rightarrow> 'x kern \<Rightarrow> 'x kern option" where
  "do_task_dead E k =
     (let k = upd_task k (curr k) (\<lambda>t. t\<lparr>state := TASK_DEAD\<rparr>);
          k = upd_task k (curr k) (\<lambda>t. t\<lparr>tflags := tflags t OR PF_NOFREEZE\<rparr>)
      in schedule_main E False k)"

text \<open>
  \<open>do_sched_yield\<close> up to the switch: the yield of the class and the first round of \<open>schedule()\<close>;
  when the caller runs again it repeats while its \<open>need_resched\<close> flag is set. The caller's state
  is \<open>TASK_RUNNING\<close>.
\<close>

definition do_sched_yield :: "('x, 'z) env_scheme \<Rightarrow> 'x kern \<Rightarrow> 'x kern option" where
  "do_sched_yield E k = do {
     k \<leftarrow> cop_yield_task (task_class E k (curr k)) k;
     schedule_main E False k
   }"

definition yield :: "('x, 'z) env_scheme \<Rightarrow> 'x kern \<Rightarrow> 'x kern option" where
  "yield E k = do_sched_yield E (upd_task k (curr k) (\<lambda>t. t\<lparr>state := TASK_RUNNING\<rparr>))"

definition ESRCH :: int where "ESRCH = 3"

text \<open>\<open>yield_to\<close>, with one run queue, up to the first round of \<open>schedule()\<close>.\<close>

definition yield_to :: "('x, 'z) env_scheme \<Rightarrow> 'x kern \<Rightarrow> pid \<Rightarrow> bool \<Rightarrow> (int \<times> 'x kern) option" where
  "yield_to E k p preempt =
     (if nr_running k = 1 then Some (- ESRCH, k)
      else case cop_yield_to_task (task_class E k (curr k)) of
        None \<Rightarrow> Some (0, k)
      | Some f \<Rightarrow>
          if sched_class (tsk k (curr k)) \<noteq> sched_class (tsk k p) \<or>
             task_running k p \<or> state (tsk k p) \<noteq> 0 then Some (0, k)
          else (case f k p preempt of (yielded, k) \<Rightarrow>
                  if yielded then map_option (Pair 1) (schedule_main E False k) else Some (0, k)))"

definition io_schedule_prepare :: "'x kern \<Rightarrow> bool \<times> 'x kern" where
  "io_schedule_prepare k =
     (in_iowait (tsk k (curr k)), upd_task k (curr k) (\<lambda>t. t\<lparr>in_iowait := True\<rparr>))"

definition io_schedule_finish :: "'x kern \<Rightarrow> bool \<Rightarrow> 'x kern" where
  "io_schedule_finish k token = upd_task k (curr k) (\<lambda>t. t\<lparr>in_iowait := token\<rparr>)"

definition single_task_running :: "'x kern \<Rightarrow> bool" where
  "single_task_running k \<longleftrightarrow> nr_running k = 1"

definition idle_cpu :: "'x kern \<Rightarrow> bool" where
  "idle_cpu k \<longleftrightarrow> curr k = idle k \<and> nr_running k = 0"

definition sched_can_stop_tick :: "'x kern \<Rightarrow> bool" where
  "sched_can_stop_tick k =
     (if dl_nr_running k \<noteq> 0 then False
      else if rr_nr_running (rq_rt k) \<noteq> 0 then rr_nr_running (rq_rt k) = 1
      else if rt_nr_running (rq_rt k) - rr_nr_running (rq_rt k) \<noteq> 0 then True
      else \<not> nr_running k > 1)"

end
