(* ===== verification/Sched_Policy.thy ===== *)
theory Sched_Policy
  imports Sched_Core
begin

text \<open>
  Priorities and policies (\<open>ASS5/kernel/sched/core.c\<close>): the priority functions, priority
  inheritance, nice values, \<open>sched_setscheduler\<close> and the system calls built on it, with the
  permission checks of the kernel and the copying of \<open>struct sched_attr\<close> from and to user space.

  The environment of the core is extended by what this part calls outside the sources:
  capabilities, resource limits, security hooks, the functions of the deadline class and the
  lookup of a process by its number. \<open>task_rq_lock\<close> makes \<open>__sched_setscheduler\<close> one critical
  section after its checks; the model has no concurrent change between the checks and the lock, so
  the jump back to \<open>recheck\<close> does not occur.
\<close>


section \<open>Attributes\<close>

text \<open>
  \<open>struct sched_attr\<close> of the user interface; \<open>sched_policy\<close> is the value read as an \<open>int\<close>, which is
  how every function here reads it.
\<close>

record sched_attr =
  attr_size :: u32
  sched_policy :: int
  sched_flags :: u64
  sched_nice :: int
  sched_priority :: u32
  sched_runtime :: u64
  sched_deadline :: u64
  sched_period :: u64

record 'x penv = "'x env" +
  capable_sys_nice :: bool
  rlimit_nice :: "pid \<Rightarrow> u64"
  rlimit_rtprio :: "pid \<Rightarrow> u64"
  security_task_setscheduler :: "pid \<Rightarrow> int"
  security_task_getscheduler :: "pid \<Rightarrow> int"
  security_task_setnice :: "pid \<Rightarrow> int \<Rightarrow> int"
  checkparam_dl :: "sched_attr \<Rightarrow> bool"
  setparam_dl :: "sched_attr \<Rightarrow> sched_dl_entity \<Rightarrow> sched_dl_entity"
  getparam_dl :: "sched_dl_entity \<Rightarrow> sched_attr \<Rightarrow> sched_attr"
  dl_param_changed :: "task_struct \<Rightarrow> sched_attr \<Rightarrow> bool"
  sched_dl_overflow :: "'x kern \<Rightarrow> pid \<Rightarrow> int \<Rightarrow> sched_attr \<Rightarrow> bool \<times> 'x kern"
  rt_mutex_adjust_pi :: "'x kern \<Rightarrow> pid \<Rightarrow> 'x kern"
  find_task_by_vpid :: "int \<Rightarrow> pid option"
  jiffies_to_ns :: "u32 \<Rightarrow> u64"

definition EPERM :: int where "EPERM = 1"
definition E2BIG :: int where "E2BIG = 7"
definition EFAULT :: int where "EFAULT = 14"
definition EBUSY :: int where "EBUSY = 16"
definition EFBIG :: int where "EFBIG = 27"
definition SETPARAM_POLICY :: int where "SETPARAM_POLICY = -1"

lemmas errno_defs = EPERM_def E2BIG_def EFAULT_def EBUSY_def EFBIG_def EINVAL_def ESRCH_def
  EAGAIN_def


section \<open>Priorities\<close>

text \<open>\<open>normal_prio\<close> subtracts an \<open>unsigned int\<close>, so the difference wraps before it is an \<open>int\<close>.\<close>

definition normal_prio_static :: "task_struct \<Rightarrow> int" where
  "normal_prio_static t = static_prio t"

definition normal_prio_of :: "task_struct \<Rightarrow> int" where
  "normal_prio_of t =
     (if task_has_dl_policy t then MAX_DL_PRIO - 1
      else if task_has_rt_policy t then sint (word_of_int (MAX_RT_PRIO - 1) - rt_priority t)
      else normal_prio_static t)"

text \<open>\<open>effective_prio\<close> also stores the normal priority.\<close>

definition effective_prio :: "task_struct \<Rightarrow> int \<times> task_struct" where
  "effective_prio t =
     (let t = t\<lparr>normal_prio := normal_prio_of t\<rparr>
      in (if \<not> rt_prio (prio t) then normal_prio t else prio t, t))"

definition task_prio :: "task_struct \<Rightarrow> int" where
  "task_prio t = prio t - MAX_RT_PRIO"


section \<open>Priority inheritance\<close>

definition rt_effective_prio_of :: "'x kern \<Rightarrow> pid option \<Rightarrow> int \<Rightarrow> int" where
  "rt_effective_prio_of k pi_task pr =
     (case pi_task of None \<Rightarrow> pr | Some q \<Rightarrow> min pr (prio (tsk k q)))"

definition rt_effective_prio :: "'x kern \<Rightarrow> pid \<Rightarrow> int \<Rightarrow> int" where
  "rt_effective_prio k p pr = rt_effective_prio_of k (pi_top_task (tsk k p)) pr"

text \<open>\<open>dl_time_before\<close> compares deadlines around the wrap of the clock; no task is special.\<close>

definition dl_entity_preempt :: "sched_dl_entity \<Rightarrow> sched_dl_entity \<Rightarrow> bool" where
  "dl_entity_preempt a b \<longleftrightarrow> sint (deadline a - deadline b) < 0"

text \<open>
  The two halves that \<open>rt_mutex_setprio\<close>, \<open>set_user_nice\<close> and \<open>__sched_setscheduler\<close> share: a queued
  task is taken off its queue and a running one off the processor, and later put back.
\<close>

definition take_off :: "('x, 'z) env_scheme \<Rightarrow> 'x kern \<Rightarrow> pid \<Rightarrow> int \<Rightarrow> 'x kern option" where
  "take_off E k p flags = do {
     let running = task_current k p;
     k \<leftarrow> (if task_on_rq_queued (tsk k p) then dequeue_task E k p flags else Some k);
     (if running then put_prev_task E k p else Some k)
   }"

definition put_back :: "('x, 'z) env_scheme \<Rightarrow> bool \<Rightarrow> bool \<Rightarrow> 'x kern \<Rightarrow> pid \<Rightarrow> int \<Rightarrow> 'x kern option" where
  "put_back E queued running k p flags = do {
     k \<leftarrow> (if queued then enqueue_task E k p flags else Some k);
     Some (if running then set_curr_task E k p else k)
   }"

text \<open>The choice of the class in \<open>rt_mutex_setprio\<close>, with the flags for the queue.\<close>

definition setprio_class :: "'x kern \<Rightarrow> pid \<Rightarrow> pid option \<Rightarrow> int \<Rightarrow> int \<Rightarrow> int \<Rightarrow> int \<times> task_struct" where
  "setprio_class k p pi_task pr oldprio queue_flag =
     (let t = tsk k p
      in if dl_prio pr then
           if \<not> dl_prio (normal_prio t) \<or>
              (case pi_task of None \<Rightarrow> False
               | Some q \<Rightarrow> dl_prio (prio (tsk k q)) \<and> dl_entity_preempt (dl (tsk k q)) (dl t))
           then (queue_flag OR ENQUEUE_REPLENISH,
                 t\<lparr>dl := (dl t)\<lparr>dl_boosted := True\<rparr>, sched_class := DlClass\<rparr>)
           else (queue_flag, t\<lparr>dl := (dl t)\<lparr>dl_boosted := False\<rparr>, sched_class := DlClass\<rparr>)
         else
           let t = (if dl_prio oldprio then t\<lparr>dl := (dl t)\<lparr>dl_boosted := False\<rparr>\<rparr> else t)
           in if rt_prio pr
              then (if oldprio < pr then queue_flag OR ENQUEUE_HEAD else queue_flag,
                    t\<lparr>sched_class := RtClass\<rparr>)
              else (queue_flag,
                    (if rt_prio oldprio then t\<lparr>rt := (rt t)\<lparr>rt_timeout := 0\<rparr>\<rparr> else t)
                      \<lparr>sched_class := FairClass\<rparr>))"

text \<open>The part of \<open>rt_mutex_setprio\<close> for a priority \<open>pr\<close> that differs from the current one.\<close>

definition setprio_move ::
  "('x, 'z) env_scheme \<Rightarrow> 'x kern \<Rightarrow> pid \<Rightarrow> pid option \<Rightarrow> int \<Rightarrow> 'x kern option" where
  "setprio_move E k p pi_task pr = do {
     let oldprio = prio (tsk k p);
     let queue_flag = (if oldprio = pr then DEQUEUE_SAVE OR DEQUEUE_NOCLOCK
                       else DEQUEUE_SAVE OR DEQUEUE_MOVE OR DEQUEUE_NOCLOCK);
     let prev_class = sched_class (tsk k p);
     let queued = task_on_rq_queued (tsk k p);
     let running = task_current k p;
     k \<leftarrow> take_off E k p queue_flag;
     let r = setprio_class k p pi_task pr oldprio queue_flag;
     k \<leftarrow> put_back E queued running (upd_task k p (\<lambda>_. (snd r)\<lparr>prio := pr\<rparr>)) p (fst r);
     Some (check_class_changed E k p prev_class oldprio)
   }"

definition rt_mutex_setprio ::
  "('x, 'z) env_scheme \<Rightarrow> 'x kern \<Rightarrow> pid \<Rightarrow> pid option \<Rightarrow> 'x kern option" where
  "rt_mutex_setprio E k p pi_task =
     (let pr = rt_effective_prio_of k pi_task (normal_prio (tsk k p))
      in if pi_top_task (tsk k p) = pi_task \<and> pr = prio (tsk k p) \<and> \<not> dl_prio pr then Some k
         else
           let k = update_rq_clock k;
               k = upd_task k p (\<lambda>t. t\<lparr>pi_top_task := pi_task\<rparr>)
           in if pr = prio (tsk k p) \<and> \<not> dl_prio pr then Some k
              else if p = idle k then Some k
              else setprio_move E k p pi_task pr)"


section \<open>Nice values\<close>

definition set_effective_prio :: "task_struct \<Rightarrow> task_struct" where
  "set_effective_prio t = (case effective_prio t of (pr, t) \<Rightarrow> t\<lparr>prio := pr\<rparr>)"

text \<open>The end of \<open>set_user_nice\<close>: back to the queue, with a request to reschedule when needed.\<close>

definition renice_back :: "('x, 'z) env_scheme \<Rightarrow> bool \<Rightarrow> bool \<Rightarrow> int \<Rightarrow> 'x kern \<Rightarrow> pid \<Rightarrow> 'x kern option" where
  "renice_back E queued running delta k p = do {
     k \<leftarrow> (if queued
           then map_option (\<lambda>k. if delta < 0 \<or> (delta > 0 \<and> task_running k p) then resched_curr k else k)
                  (enqueue_task E k p (ENQUEUE_RESTORE OR ENQUEUE_NOCLOCK))
           else Some k);
     Some (if running then set_curr_task E k p else k)
   }"

definition renice :: "('x, 'z) env_scheme \<Rightarrow> 'x kern \<Rightarrow> pid \<Rightarrow> int \<Rightarrow> 'x kern option" where
  "renice E k p nice = do {
     let queued = task_on_rq_queued (tsk k p);
     let running = task_current k p;
     k \<leftarrow> take_off E k p (DEQUEUE_SAVE OR DEQUEUE_NOCLOCK);
     k \<leftarrow> set_load_weight E (upd_task k p (\<lambda>t. t\<lparr>static_prio := NICE_TO_PRIO nice\<rparr>)) p True;
     let old_prio = prio (tsk k p);
     let k = upd_task k p set_effective_prio;
     renice_back E queued running (prio (tsk k p) - old_prio) k p
   }"

definition set_user_nice :: "('x, 'z) env_scheme \<Rightarrow> 'x kern \<Rightarrow> pid \<Rightarrow> int \<Rightarrow> 'x kern option" where
  "set_user_nice E k p nice =
     (if task_nice (tsk k p) = nice \<or> nice < MIN_NICE \<or> nice > MAX_NICE then Some k
      else
        let k = update_rq_clock k
        in if task_has_dl_policy (tsk k p) \<or> task_has_rt_policy (tsk k p)
           then Some (upd_task k p (\<lambda>t. t\<lparr>static_prio := NICE_TO_PRIO nice\<rparr>))
           else renice E k p nice)"

text \<open>\<open>nice_to_rlimit\<close> turns \<open>19 .. -20\<close> into \<open>1 .. 40\<close>; the comparison is of unsigned values.\<close>

definition nice_to_rlimit :: "int \<Rightarrow> int" where
  "nice_to_rlimit nice = MAX_NICE - nice + 1"

definition can_nice :: "('x, 'z) penv_scheme \<Rightarrow> pid \<Rightarrow> int \<Rightarrow> bool" where
  "can_nice E p nice \<longleftrightarrow>
     word_of_int (nice_to_rlimit nice) \<le> rlimit_nice E p \<or> capable_sys_nice E"

definition clamp :: "int \<Rightarrow> int \<Rightarrow> int \<Rightarrow> int" where
  "clamp x lo hi = min (max x lo) hi"

definition sys_nice :: "('x, 'z) penv_scheme \<Rightarrow> 'x kern \<Rightarrow> int \<Rightarrow> (int \<times> 'x kern) option" where
  "sys_nice E k increment =
     (let increment = clamp increment (- NICE_WIDTH) NICE_WIDTH;
          nice = task_nice (tsk k (curr k)) + increment;
          nice = clamp nice MIN_NICE MAX_NICE
      in if increment < 0 \<and> \<not> can_nice E (curr k) nice then Some (- EPERM, k)
         else if security_task_setnice E (curr k) nice \<noteq> 0
         then Some (security_task_setnice E (curr k) nice, k)
         else map_option (Pair 0) (set_user_nice E k (curr k) nice))"


section \<open>Changing the policy\<close>

definition set_params :: "('x, 'z) penv_scheme \<Rightarrow> sched_attr \<Rightarrow> task_struct \<Rightarrow> task_struct" where
  "set_params E attr t =
     (let pol = (if sched_policy attr = SETPARAM_POLICY then policy t else sched_policy attr);
          t = t\<lparr>policy := pol\<rparr>;
          t = (if dl_policy pol then t\<lparr>dl := setparam_dl E attr (dl t)\<rparr>
               else if fair_policy pol then t\<lparr>static_prio := NICE_TO_PRIO (sched_nice attr)\<rparr> else t);
          t = t\<lparr>rt_priority := sched_priority attr\<rparr>
      in t\<lparr>normal_prio := normal_prio_of t\<rparr>)"

definition setscheduler_params ::
  "('x, 'z) penv_scheme \<Rightarrow> 'x kern \<Rightarrow> pid \<Rightarrow> sched_attr \<Rightarrow> 'x kern option" where
  "setscheduler_params E k p attr = set_load_weight E (upd_task k p (set_params E attr)) p True"

definition setscheduler_class :: "task_struct \<Rightarrow> class_id" where
  "setscheduler_class t = (if dl_prio (prio t) then DlClass else if rt_prio (prio t) then RtClass
     else if ts_policy (policy t) then TsClass else FairClass)"

text \<open>\<open>__setscheduler\<close>\<close>

definition setscheduler ::
  "('x, 'z) penv_scheme \<Rightarrow> 'x kern \<Rightarrow> pid \<Rightarrow> sched_attr \<Rightarrow> bool \<Rightarrow> 'x kern option" where
  "setscheduler E k p attr keep_boost = do {
     k \<leftarrow> setscheduler_params E k p attr;
     let pr = normal_prio_of (tsk k p);
     let pr = (if keep_boost then rt_effective_prio k p pr else pr);
     let k = upd_task k p (\<lambda>t. t\<lparr>prio := pr\<rparr>);
     Some (upd_task k p (\<lambda>t. t\<lparr>sched_class := setscheduler_class t\<rparr>))
   }"

definition check_same_owner :: "'x kern \<Rightarrow> pid \<Rightarrow> bool" where
  "check_same_owner k p \<longleftrightarrow>
     euid (tsk k (curr k)) = euid (tsk k p) \<or> euid (tsk k (curr k)) = uid (tsk k p)"

text \<open>
  The checks of \<open>__sched_setscheduler\<close> in the order of the code: the values of the attributes,
  and what a user without \<open>CAP_SYS_NICE\<close> may ask for. The result is the error, or 0.
\<close>

definition setscheduler_policy :: "task_struct \<Rightarrow> sched_attr \<Rightarrow> int" where
  "setscheduler_policy t attr = (if sched_policy attr < 0 then policy t else sched_policy attr)"

definition setscheduler_reset :: "task_struct \<Rightarrow> sched_attr \<Rightarrow> bool" where
  "setscheduler_reset t attr =
     (if sched_policy attr < 0 then sched_reset_on_fork t
      else sched_flags attr AND SCHED_FLAG_RESET_ON_FORK \<noteq> 0)"

definition setscheduler_valid :: "('x, 'z) penv_scheme \<Rightarrow> task_struct \<Rightarrow> sched_attr \<Rightarrow> int" where
  "setscheduler_valid E t attr =
     (let pol = setscheduler_policy t attr
      in if sched_policy attr \<ge> 0 \<and> \<not> valid_policy pol then - EINVAL
         else if sched_flags attr AND NOT (SCHED_FLAG_ALL OR SCHED_FLAG_SUGOV) \<noteq> 0 then - EINVAL
         else if (has_mm t \<and> sched_priority attr > word_of_int (MAX_USER_RT_PRIO - 1)) \<or>
                 (\<not> has_mm t \<and> sched_priority attr > word_of_int (MAX_RT_PRIO - 1)) then - EINVAL
         else if (dl_policy pol \<and> \<not> checkparam_dl E attr) \<or>
                 (rt_policy pol \<noteq> (sched_priority attr \<noteq> 0)) then - EINVAL
         else 0)"

definition setscheduler_perm ::
  "('x, 'z) penv_scheme \<Rightarrow> 'x kern \<Rightarrow> pid \<Rightarrow> sched_attr \<Rightarrow> int" where
  "setscheduler_perm E k p attr =
     (let t = tsk k p; pol = setscheduler_policy t attr
      in if fair_policy pol \<and> sched_nice attr < task_nice t \<and> \<not> can_nice E p (sched_nice attr)
         then - EPERM
         else if rt_policy pol \<and> pol \<noteq> policy t \<and> rlimit_rtprio E p = 0 then - EPERM
         else if rt_policy pol \<and> sched_priority attr > rt_priority t \<and>
                 ucast (sched_priority attr) > rlimit_rtprio E p then - EPERM
         else if dl_policy pol then - EPERM
         else if idle_policy (policy t) \<and> \<not> idle_policy pol \<and> \<not> can_nice E p (task_nice t)
         then - EPERM
         else if \<not> check_same_owner k p then - EPERM
         else if sched_reset_on_fork t \<and> \<not> setscheduler_reset t attr then - EPERM
         else 0)"

definition setscheduler_checks ::
  "('x, 'z) penv_scheme \<Rightarrow> 'x kern \<Rightarrow> pid \<Rightarrow> sched_attr \<Rightarrow> bool \<Rightarrow> int" where
  "setscheduler_checks E k p attr user =
     (if setscheduler_valid E (tsk k p) attr \<noteq> 0 then setscheduler_valid E (tsk k p) attr
      else if user \<and> \<not> capable_sys_nice E \<and> setscheduler_perm E k p attr \<noteq> 0
      then setscheduler_perm E k p attr
      else if user \<and> sched_flags attr AND SCHED_FLAG_SUGOV \<noteq> 0 then - EINVAL
      else if user then security_task_setscheduler E p else 0)"

text \<open>Whether the call changes more than \<open>sched_reset_on_fork\<close> (the jumps to \<open>change\<close>).\<close>

definition setscheduler_changes :: "('x, 'z) penv_scheme \<Rightarrow> task_struct \<Rightarrow> sched_attr \<Rightarrow> bool" where
  "setscheduler_changes E t attr =
     (let pol = setscheduler_policy t attr
      in pol \<noteq> policy t \<or>
         (fair_policy pol \<and> sched_nice attr \<noteq> task_nice t) \<or>
         (rt_policy pol \<and> sched_priority attr \<noteq> rt_priority t) \<or>
         (dl_policy pol \<and> dl_param_changed E t attr))"

text \<open>The part that takes the task off its queue, changes it and puts it back.\<close>

definition setscheduler_move ::
  "('x, 'z) penv_scheme \<Rightarrow> 'x kern \<Rightarrow> pid \<Rightarrow> sched_attr \<Rightarrow> bool \<Rightarrow> 'x kern option" where
  "setscheduler_move E k p attr pi = do {
     let newprio = (if dl_policy (sched_policy attr) then MAX_DL_PRIO - 1
                    else sint (word_of_int (MAX_RT_PRIO - 1) - sched_priority attr));
     let oldprio = prio (tsk k p);
     let queue_flags = (if pi \<and> rt_effective_prio k p newprio = oldprio
                        then DEQUEUE_SAVE OR DEQUEUE_NOCLOCK
                        else DEQUEUE_SAVE OR DEQUEUE_MOVE OR DEQUEUE_NOCLOCK);
     let queued = task_on_rq_queued (tsk k p);
     let running = task_current k p;
     k \<leftarrow> take_off E k p queue_flags;
     let prev_class = sched_class (tsk k p);
     k \<leftarrow> setscheduler E k p attr pi;
     k \<leftarrow> put_back E queued running k p
           (if oldprio < prio (tsk k p) then queue_flags OR ENQUEUE_HEAD else queue_flags);
     Some (check_class_changed E k p prev_class oldprio)
   }"

text \<open>\<open>__sched_setscheduler\<close>\<close>

definition sched_setscheduler_main ::
  "('x, 'z) penv_scheme \<Rightarrow> 'x kern \<Rightarrow> pid \<Rightarrow> sched_attr \<Rightarrow> bool \<Rightarrow> bool \<Rightarrow> (int \<times> 'x kern) option" where
  "sched_setscheduler_main E k p attr user pi =
     (let pol = setscheduler_policy (tsk k p) attr;
          reset_on_fork = setscheduler_reset (tsk k p) attr;
          err = setscheduler_checks E k p attr user
      in if err \<noteq> 0 then Some (err, k)
         else
           let k = update_rq_clock k;
               store = (\<lambda>k. upd_task k p (\<lambda>t. t\<lparr>sched_reset_on_fork := reset_on_fork\<rparr>))
           in if stop k = Some p then Some (- EINVAL, k)
              else if \<not> setscheduler_changes E (tsk k p) attr then Some (0, store k)
              else
                let (overflow, k) = (if dl_policy pol \<or> dl_task (tsk k p)
                                     then sched_dl_overflow E k p pol attr else (False, k))
                in if overflow then Some (- EBUSY, k)
                   else do {
                     k \<leftarrow> setscheduler_move E (store k) p attr pi;
                     Some (0, if pi then rt_mutex_adjust_pi E k p else k)
                   })"

definition sched_setscheduler_param ::
  "('x, 'z) penv_scheme \<Rightarrow> 'x kern \<Rightarrow> pid \<Rightarrow> int \<Rightarrow> int \<Rightarrow> bool \<Rightarrow> (int \<times> 'x kern) option" where
  "sched_setscheduler_param E k p pol param check =
     (let legacy = pol \<noteq> SETPARAM_POLICY \<and> pol AND SCHED_RESET_ON_FORK \<noteq> 0;
          attr = \<lparr>attr_size = 0,
            sched_policy = (if legacy then pol AND NOT SCHED_RESET_ON_FORK else pol),
            sched_flags = (if legacy then SCHED_FLAG_RESET_ON_FORK else 0),
            sched_nice = PRIO_TO_NICE (static_prio (tsk k p)),
            sched_priority = word_of_int param,
            sched_runtime = 0, sched_deadline = 0, sched_period = 0\<rparr>
      in sched_setscheduler_main E k p attr check True)"

definition sched_setscheduler ::
  "('x, 'z) penv_scheme \<Rightarrow> 'x kern \<Rightarrow> pid \<Rightarrow> int \<Rightarrow> int \<Rightarrow> (int \<times> 'x kern) option" where
  "sched_setscheduler E k p pol param = sched_setscheduler_param E k p pol param True"

definition sched_setscheduler_nocheck ::
  "('x, 'z) penv_scheme \<Rightarrow> 'x kern \<Rightarrow> pid \<Rightarrow> int \<Rightarrow> int \<Rightarrow> (int \<times> 'x kern) option" where
  "sched_setscheduler_nocheck E k p pol param = sched_setscheduler_param E k p pol param False"

definition sched_setattr ::
  "('x, 'z) penv_scheme \<Rightarrow> 'x kern \<Rightarrow> pid \<Rightarrow> sched_attr \<Rightarrow> (int \<times> 'x kern) option" where
  "sched_setattr E k p attr = sched_setscheduler_main E k p attr True True"

definition sched_setattr_nocheck ::
  "('x, 'z) penv_scheme \<Rightarrow> 'x kern \<Rightarrow> pid \<Rightarrow> sched_attr \<Rightarrow> (int \<times> 'x kern) option" where
  "sched_setattr_nocheck E k p attr = sched_setscheduler_main E k p attr False True"

definition blank_attr :: sched_attr where
  "blank_attr = \<lparr>attr_size = 0, sched_policy = SCHED_NORMAL, sched_flags = 0, sched_nice = 0,
     sched_priority = 0, sched_runtime = 0, sched_deadline = 0, sched_period = 0\<rparr>"

text \<open>\<open>normalize_rt_tasks\<close>, over the list of all threads.\<close>

definition normalize_task :: "('x, 'z) penv_scheme \<Rightarrow> 'x kern \<Rightarrow> pid \<Rightarrow> 'x kern option" where
  "normalize_task E k p =
     (if tflags (tsk k p) AND PF_KTHREAD \<noteq> 0 then Some k
      else
        let k = upd_task k p (\<lambda>t. t\<lparr>se := (se t)\<lparr>exec_start := 0\<rparr>\<rparr>)
        in if \<not> dl_task (tsk k p) \<and> \<not> rt_task (tsk k p)
           then (if task_nice (tsk k p) < 0 then set_user_nice E k p 0 else Some k)
           else map_option snd (sched_setscheduler_main E k p blank_attr False False))"

fun normalize_rt_tasks :: "('x, 'z) penv_scheme \<Rightarrow> 'x kern \<Rightarrow> pid list \<Rightarrow> 'x kern option" where
  "normalize_rt_tasks E k [] = Some k"
| "normalize_rt_tasks E k (p # ps) =
     Option.bind (normalize_task E k p) (\<lambda>k. normalize_rt_tasks E k ps)"


section \<open>System calls\<close>

text \<open>A pointer into user space: null, a page that cannot be accessed, or memory.\<close>

datatype 'a user = Null | Fault | Mem 'a

definition find_process_by_pid :: "('x, 'z) penv_scheme \<Rightarrow> 'x kern \<Rightarrow> int \<Rightarrow> pid option" where
  "find_process_by_pid E k nr = (if nr \<noteq> 0 then find_task_by_vpid E nr else Some (curr k))"

definition do_sched_setscheduler ::
  "('x, 'z) penv_scheme \<Rightarrow> 'x kern \<Rightarrow> int \<Rightarrow> int \<Rightarrow> int user \<Rightarrow> (int \<times> 'x kern) option" where
  "do_sched_setscheduler E k nr pol param =
     (if param = Null \<or> nr < 0 then Some (- EINVAL, k)
      else case param of Mem lparam \<Rightarrow>
          (case find_process_by_pid E k nr of None \<Rightarrow> Some (- ESRCH, k)
           | Some p \<Rightarrow> sched_setscheduler E k p pol lparam)
      | _ \<Rightarrow> Some (- EFAULT, k))"

definition sys_sched_setscheduler ::
  "('x, 'z) penv_scheme \<Rightarrow> 'x kern \<Rightarrow> int \<Rightarrow> int \<Rightarrow> int user \<Rightarrow> (int \<times> 'x kern) option" where
  "sys_sched_setscheduler E k nr pol param =
     (if pol < 0 then Some (- EINVAL, k) else do_sched_setscheduler E k nr pol param)"

definition sys_sched_setparam ::
  "('x, 'z) penv_scheme \<Rightarrow> 'x kern \<Rightarrow> int \<Rightarrow> int user \<Rightarrow> (int \<times> 'x kern) option" where
  "sys_sched_setparam E k nr param = do_sched_setscheduler E k nr SETPARAM_POLICY param"

definition sys_sched_getscheduler :: "('x, 'z) penv_scheme \<Rightarrow> 'x kern \<Rightarrow> int \<Rightarrow> int" where
  "sys_sched_getscheduler E k nr =
     (if nr < 0 then - EINVAL
      else case find_process_by_pid E k nr of None \<Rightarrow> - ESRCH
      | Some p \<Rightarrow>
          if security_task_getscheduler E p \<noteq> 0 then security_task_getscheduler E p
          else policy (tsk k p) OR
               (if sched_reset_on_fork (tsk k p) then SCHED_RESET_ON_FORK else 0))"

text \<open>The result and what is stored at \<open>param\<close>.\<close>

definition sys_sched_getparam ::
  "('x, 'z) penv_scheme \<Rightarrow> 'x kern \<Rightarrow> int \<Rightarrow> int user \<Rightarrow> int \<times> int user" where
  "sys_sched_getparam E k nr param =
     (if param = Null \<or> nr < 0 then (- EINVAL, param)
      else case find_process_by_pid E k nr of None \<Rightarrow> (- ESRCH, param)
      | Some p \<Rightarrow>
          if security_task_getscheduler E p \<noteq> 0 then (security_task_getscheduler E p, param)
          else
            let lp = (if task_has_rt_policy (tsk k p) then sint (rt_priority (tsk k p)) else 0)
            in case param of Mem _ \<Rightarrow> (0, Mem lp) | _ \<Rightarrow> (- EFAULT, param))"

definition sys_sched_get_priority_max :: "int \<Rightarrow> int" where
  "sys_sched_get_priority_max pol =
     (if pol = SCHED_FIFO \<or> pol = SCHED_RR then MAX_USER_RT_PRIO - 1
      else if pol = SCHED_DEADLINE \<or> pol = SCHED_NORMAL \<or> pol = SCHED_BATCH \<or> pol = SCHED_IDLE then 0
      else - EINVAL)"

definition sys_sched_get_priority_min :: "int \<Rightarrow> int" where
  "sys_sched_get_priority_min pol =
     (if pol = SCHED_FIFO \<or> pol = SCHED_RR then 1
      else if pol = SCHED_DEADLINE \<or> pol = SCHED_NORMAL \<or> pol = SCHED_BATCH \<or> pol = SCHED_IDLE then 0
      else - EINVAL)"

text \<open>The error, or the interval in nanoseconds; an unset slice of the time-sharing class is \<open>None\<close>.\<close>

definition sched_rr_get_interval :: "('x, 'z) penv_scheme \<Rightarrow> 'x kern \<Rightarrow> int \<Rightarrow> (int + u64) option" where
  "sched_rr_get_interval E k nr =
     (if nr < 0 then Some (Inl (- EINVAL))
      else case find_process_by_pid E k nr of None \<Rightarrow> Some (Inl (- ESRCH))
      | Some p \<Rightarrow>
          if security_task_getscheduler E p \<noteq> 0 then Some (Inl (security_task_getscheduler E p))
          else do {
            slice \<leftarrow> (case cop_get_rr_interval (task_class E k p) of None \<Rightarrow> Some 0 | Some f \<Rightarrow> f k p);
            Some (Inr (jiffies_to_ns E slice))
          })"

end
