(* ===== verification/Core_Inv.thy ===== *)
theory Core_Inv
  imports Sched_Policy
begin

text \<open>
  The invariant that ties the core to the time-sharing class: a task of the class is on the queues
  exactly when the core marks it as queued (\<open>on_rq\<close>), at the level of its priority. Every operation
  of the core keeps it, whatever class the task has.

  What the core relies on from the other classes is the locale \<open>quiet_class\<close>: their operations
  change neither the queues of the time-sharing class nor the fields by which the core decides. The
  real-time class is shown to keep this contract; for the classes without sources it is a
  hypothesis.
\<close>


section \<open>What the operations of a class leave alone\<close>

definition view :: "task_struct \<Rightarrow> int \<times> int \<times> int \<times> int \<times> int \<times> class_id \<times> u32" where
  "view t = (state t, on_rq t, static_prio t, normal_prio t, policy t, sched_class t, rt_priority t)"

lemma view_eqD:
  assumes "view t = view u"
  shows "state t = state u" "on_rq t = on_rq u" "static_prio t = static_prio u"
    "normal_prio t = normal_prio u" "policy t = policy u" "sched_class t = sched_class u"
    "rt_priority t = rt_priority u"
  using assms by (simp_all add: view_def)

text \<open>\<open>frame\<close>: the current task and the views are as before; \<open>keeps\<close>: also the queues and priorities.\<close>

definition frame :: "'x kern \<Rightarrow> 'x kern \<Rightarrow> bool" where
  "frame k k' \<longleftrightarrow> curr k' = curr k \<and> idle k' = idle k \<and> (\<forall>q. view (tsk k' q) = view (tsk k q))"

definition keeps :: "'x kern \<Rightarrow> 'x kern \<Rightarrow> bool" where
  "keeps k k' \<longleftrightarrow> frame k k' \<and> rq_ts k' = rq_ts k \<and> (\<forall>q. prio (tsk k' q) = prio (tsk k q))"

lemma frame_refl [simp, intro]: "frame k k"
  by (simp add: frame_def)

lemma keeps_refl [simp, intro]: "keeps k k"
  by (simp add: keeps_def)

lemma frame_trans [trans]: "frame k k1 \<Longrightarrow> frame k1 k2 \<Longrightarrow> frame k k2"
  by (simp add: frame_def)

lemma keeps_trans [trans]: "keeps k k1 \<Longrightarrow> keeps k1 k2 \<Longrightarrow> keeps k k2"
  by (auto simp: keeps_def intro: frame_trans)

lemma keeps_frame: "keeps k k' \<Longrightarrow> frame k k'"
  by (simp add: keeps_def)

lemma frameD:
  assumes "frame k k'"
  shows "curr k' = curr k" "idle k' = idle k" "state (tsk k' q) = state (tsk k q)"
    "on_rq (tsk k' q) = on_rq (tsk k q)" "static_prio (tsk k' q) = static_prio (tsk k q)"
    "normal_prio (tsk k' q) = normal_prio (tsk k q)" "policy (tsk k' q) = policy (tsk k q)"
    "sched_class (tsk k' q) = sched_class (tsk k q)"
  using assms by (auto simp: frame_def view_def)

lemma keepsI:
  assumes "curr k' = curr k" "idle k' = idle k" "rq_ts k' = rq_ts k"
    and "\<And>q. view (tsk k' q) = view (tsk k q)" "\<And>q. prio (tsk k' q) = prio (tsk k q)"
  shows "keeps k k'"
  using assms by (simp add: keeps_def frame_def)

lemma keeps_small [keeps_intros]:
  "keeps k (update_rq_clock k)" "keeps k (resched_curr k)" "keeps k (rq_clock_skip_update k)"
  "keeps k (set_tsk_need_resched p k)" "keeps k (clear_tsk_need_resched p k)" "keeps k (clear_skip_flags k)"
  "keeps k (upd_rt k f)" "keeps k (upd_rt_se k p g)" "keeps k (end_iowait k p)"
  "keeps k (begin_iowait k p)"
  by (rule keepsI; simp add: rq_clock_skip_update_def set_tsk_need_resched_def
      clear_tsk_need_resched_def clear_skip_flags_def upd_rt_se_def end_iowait_def
      begin_iowait_def view_def resched_curr_task)+

lemma iowait_task [simp]: "tsk (end_iowait k p) = tsk k" "tsk (begin_iowait k p) = tsk k"
  by (simp_all add: end_iowait_def begin_iowait_def)

lemma keeps_counters [keeps_intros]:
  "keeps k (k\<lparr>nr_uninterruptible := a\<rparr>)" "keeps k (k\<lparr>nr_iowait := b\<rparr>)" "keeps k (k\<lparr>clock_update_flags := c\<rparr>)"
  "keeps k (k\<lparr>nr_running := d\<rparr>)" "keeps k (k\<lparr>def_rt_bandwidth := e\<rparr>)"
  by (rule keepsI; simp)+

lemma keeps_task:
  "view (f (tsk k p)) = view (tsk k p) \<Longrightarrow> prio (f (tsk k p)) = prio (tsk k p) \<Longrightarrow> keeps k (upd_task k p f)"
  by (rule keepsI) simp_all


section \<open>The contract of the other classes\<close>

text \<open>No operation of the class changes the queues of the time-sharing class or a view.\<close>

locale quiet_class =
  fixes c :: "'x class_ops"
  assumes enqueue_quiet: "cop_enqueue_task c k p fl = Some k' \<Longrightarrow> keeps k k'"
    and dequeue_quiet: "cop_dequeue_task c k p fl = Some k' \<Longrightarrow> keeps k k'"
    and yield_quiet: "cop_yield_task c k = Some k' \<Longrightarrow> keeps k k'"
    and check_preempt_quiet: "keeps k (cop_check_preempt_curr c k p fl)"
    and put_prev_quiet: "cop_put_prev_task c k p = Some k' \<Longrightarrow> keeps k k'"
    and set_curr_quiet: "keeps k (cop_set_curr_task c k)"
    and tick_quiet: "cop_task_tick c k p b = Some k' \<Longrightarrow> keeps k k'"
    and dead_quiet: "cop_task_dead c = Some g \<Longrightarrow> keeps k (g k p)"
    and fork_quiet: "cop_task_fork c = Some g \<Longrightarrow> keeps k (g k p)"
    and from_quiet: "cop_switched_from c = Some g \<Longrightarrow> keeps k (g k p)"
    and to_quiet: "keeps k (cop_switched_to c k p)"
    and changed_quiet: "keeps k (cop_prio_changed c k p op)"
    and update_quiet: "cop_update_curr c k = Some k' \<Longrightarrow> keeps k k'"
    and pick_quiet: "\<lbrakk>cop_pick_next_task c put k prev = Some (r, k');
        \<And>k k' p. put k p = Some k' \<Longrightarrow> keeps k k'\<rbrakk> \<Longrightarrow> keeps k k'"


section \<open>The real-time class keeps the contract\<close>

lemma keeps_rt_setters [keeps_intros]:
  "keeps k (set_rtq k qs)" "keeps k (set_rtb k i b)" "keeps k (inc_rt_tasks k p)" "keeps k (dec_rt_tasks k p)"
  "keeps k (enqueue_top_rt_rq k)" "keeps k (charge_curr k)" "keeps k (set_curr_task_rt k)"
  by (rule keepsI; simp add: set_rtq_def set_rtb_def inc_rt_tasks_def dec_rt_tasks_def start_rt_bandwidth_def
      enqueue_top_rt_rq_def add_nr_running_def charge_curr_def set_curr_task_rt_def view_def)+


text \<open>The same for an operation that may fail.\<close>

definition keeps_opt :: "'x kern \<Rightarrow> 'x kern option \<Rightarrow> bool" where
  "keeps_opt k r \<longleftrightarrow> (\<forall>k'. r = Some k' \<longrightarrow> keeps k k')"

lemma keeps_optD: "keeps_opt k r \<Longrightarrow> r = Some k' \<Longrightarrow> keeps k k'"
  by (simp add: keeps_opt_def)

lemma keeps_opt_simps [simp]:
  "keeps_opt k None" "keeps_opt k (Some k') = keeps k k'"
  "keeps_opt k (map_option f r) = (\<forall>y. r = Some y \<longrightarrow> keeps k (f y))"
  by (auto simp: keeps_opt_def)

lemma keeps_opt_bind:
  "keeps_opt k r \<Longrightarrow> (\<And>k1. r = Some k1 \<Longrightarrow> keeps_opt k1 (f k1)) \<Longrightarrow> keeps_opt k (Option.bind r f)"
  by (cases r) (auto simp: keeps_opt_def intro: keeps_trans)

lemma keeps_opt_bind_any: "(\<And>y. r = Some y \<Longrightarrow> keeps_opt k (f y)) \<Longrightarrow> keeps_opt k (Option.bind r f)"
  by (cases r) simp_all

lemma keeps_opt_trans: "keeps k k1 \<Longrightarrow> keeps_opt k1 r \<Longrightarrow> keeps_opt k r"
  by (auto simp: keeps_opt_def intro: keeps_trans)

lemma keeps_opt_if: "(b \<Longrightarrow> keeps_opt k r) \<Longrightarrow> (\<not> b \<Longrightarrow> keeps_opt k s) \<Longrightarrow> keeps_opt k (if b then r else s)"
  by simp

lemma keeps_if: "(b \<Longrightarrow> keeps k k1) \<Longrightarrow> (\<not> b \<Longrightarrow> keeps k k2) \<Longrightarrow> keeps k (if b then k1 else k2)"
  by simp

lemma keeps_dequeue_top: "keeps_opt k (dequeue_top_rt_rq k)"
proof -
  have "keeps k (upd_rt (sub_nr_running n k) f)" for n f
    by (rule keepsI) (simp_all add: sub_nr_running_def)
  then show ?thesis by (simp add: dequeue_top_rt_rq_def)
qed

lemma keeps_rt_after: "keeps k k1 \<Longrightarrow> keeps k (upd_rt_se k1 p g)" "keeps k k1 \<Longrightarrow> keeps k (inc_rt_tasks k1 p)"
  "keeps k k1 \<Longrightarrow> keeps k (dec_rt_tasks k1 p)" "keeps k k1 \<Longrightarrow> keeps k (set_rtb k1 i b)"
  "keeps k k1 \<Longrightarrow> keeps k (set_rtq k1 qs)" "keeps k k1 \<Longrightarrow> keeps k (resched_curr k1)"
  by (blast intro: keeps_trans keeps_small keeps_rt_setters)+

lemma keeps_delist: "keeps_opt k (delist_rt_entity k p)"
  by (auto simp: delist_rt_entity_def Let_def intro!: keeps_rt_after)

lemma keeps_enqueue_self: "keeps_opt k (enqueue_rt_entity_self k p fl)"
  unfolding enqueue_rt_entity_self_def
  by (rule keeps_opt_bind) (auto intro!: keeps_opt_bind_any keeps_rt_after simp: Let_def)

lemma keeps_dequeue_stack: "keeps_opt k (dequeue_rt_stack k p fl)"
  unfolding dequeue_rt_stack_def dequeue_rt_entity_self_def
  by (rule keeps_opt_bind [OF keeps_dequeue_top])
    (auto intro!: keeps_opt_bind keeps_rt_after simp: keeps_delist)

lemma keeps_enqueue_rt: "keeps_opt k (enqueue_task_rt k p fl)"
proof -
  have "keeps_opt k (enqueue_rt_entity k p fl)" for k
    unfolding enqueue_rt_entity_def
    by (intro keeps_opt_bind keeps_dequeue_stack keeps_enqueue_self) (simp add: keeps_rt_setters)
  then show ?thesis
    by (auto simp: enqueue_task_rt_def Let_def intro: keeps_opt_trans keeps_small)
qed

lemma keeps_update_curr: "keeps_opt k (update_curr_rt k)"
proof -
  have ex: "sched_rt_runtime_exceeded k = Some (b, k') \<Longrightarrow> keeps k k'" for k k' :: "'x kern" and b
  proof -
    have "keeps_opt k (dequeue_top_rt_rq (upd_rt k f))" for f
      by (rule keeps_opt_trans [OF keeps_small(7) keeps_dequeue_top])
    then show "sched_rt_runtime_exceeded k = Some (b, k') \<Longrightarrow> keeps k k'"
      by (auto simp: sched_rt_runtime_exceeded_def sched_rt_rq_dequeue_def Let_def bind_eq_Some_conv
          keeps_opt_def keeps_small split: if_splits)
  qed
  have "keeps k (upd_rt (charge_curr k) f)" for f
    by (rule keeps_trans [OF keeps_rt_setters(6) keeps_small(7)])
  then show ?thesis
    by (auto simp: update_curr_rt_alt keeps_rt_setters
        intro!: keeps_rt_after intro: keeps_trans dest!: ex)
qed

lemma keeps_dequeue_rt: "keeps_opt k (dequeue_task_rt k p fl)"
  unfolding dequeue_task_rt_def dequeue_rt_entity_def
  by (intro keeps_opt_bind keeps_update_curr keeps_dequeue_stack) (simp add: keeps_rt_setters)

lemma keeps_requeue_rt: "keeps_opt k (requeue_task_rt k p b)"
  by (simp add: requeue_task_rt_def requeue_rt_entity_def keeps_rt_setters)

lemma keeps_watchdog: "keeps k (watchdog L k p)"
  unfolding watchdog_def Let_def
  by (intro keeps_if keeps_trans [OF _ keeps_task] keeps_refl keeps_small) (simp_all add: view_def)

lemma keeps_tick_rt: "keeps_opt k (task_tick_rt L k p b)"
  unfolding task_tick_rt_def Let_def
proof (rule keeps_opt_bind [OF keeps_update_curr], goal_cases)
  case (1 k1)
  let ?w = "watchdog L k1 p"
  have 2: "keeps k1 (upd_rt_se ?w p f)" "keeps k1 (upd_rt_se (upd_rt_se ?w p f) p g)" for f g
    by (intro keeps_rt_after keeps_watchdog)+
  have 3: "keeps k1 k2 \<Longrightarrow> keeps_opt k1 (map_option resched_curr (requeue_task_rt k2 p False))" for k2
    using keeps_requeue_rt [of k2 p False] by (auto simp: keeps_opt_def intro!: keeps_rt_after intro: keeps_trans)
  show ?case
    by (intro keeps_opt_if 3 2) (simp_all only: keeps_opt_simps 2 keeps_watchdog)
qed

lemma keeps_pick_rt:
  assumes "\<And>k k' p. put k p = Some k' \<Longrightarrow> keeps k k'" "pick_next_task_rt put k prev = Some (r, k')"
  shows "keeps k k'"
proof -
  from assms(2) obtain k1 where k0: "(if sched_class (tsk k prev) = RtClass then update_curr_rt k else Some k) = Some k1"
    and r: "(if \<not> rt_queued (rq_rt k1) then Some (None, k1) else do {
        k \<leftarrow> put k1 prev; (p, k) \<leftarrow> pick_rt_head k; Some (Some p, k) }) = Some (r, k')"
    unfolding pick_next_task_rt_def bind_eq_Some_conv by blast
  have k1: "keeps k k1"
    using k0 keeps_update_curr [of k] by (auto simp: keeps_opt_def split: if_splits)
  have "keeps k1 k'"
  proof (cases "rt_queued (rq_rt k1)")
    case True
    with r obtain k2 p where "put k1 prev = Some k2"
      "k' = upd_task k2 p (\<lambda>t. t\<lparr>se := (se t)\<lparr>exec_start := clock_task k2\<rparr>\<rparr>)"
      by (auto simp: bind_eq_Some_conv pick_rt_head_def)
    moreover have "keeps k2 (upd_task k2 p (\<lambda>t. t\<lparr>se := (se t)\<lparr>exec_start := clock_task k2\<rparr>\<rparr>))"
      by (rule keeps_task) (simp_all add: view_def)
    ultimately show ?thesis using assms(1) keeps_trans by blast
  qed (use r in simp)
  with k1 show ?thesis by (rule keeps_trans)
qed

lemma keeps_other_rt:
  "keeps k (check_preempt_curr_rt k p fl)" "keeps k (switched_to_rt k p)" "keeps k (prio_changed_rt k p op)"
  by (simp_all add: check_preempt_curr_rt_def switched_to_rt_def prio_changed_rt_def keeps_small)

interpretation rtq_quiet: quiet_class "rt_sched_class E"
  by unfold_locales
    (auto simp: rt_sched_class_def keeps_other_rt keeps_rt_setters put_prev_task_rt_def yield_task_rt_def
      picked_of_def elim!: keeps_optD [OF keeps_enqueue_rt] keeps_optD [OF keeps_dequeue_rt]
      keeps_optD [OF keeps_update_curr] keeps_optD [OF keeps_tick_rt] keeps_optD [OF keeps_requeue_rt]
      intro: keeps_pick_rt)


section \<open>The invariant\<close>

text \<open>The laws of everything outside the sources that the core calls.\<close>

definition quiet_env :: "('x, 'z) env_scheme \<Rightarrow> bool" where
  "quiet_env E \<longleftrightarrow> quiet_class (stop_sched_class E) \<and> quiet_class (dl_sched_class E) \<and>
     quiet_class (fair_sched_class E) \<and> quiet_class (idle_sched_class E) \<and>
     (\<forall>k p. keeps k (wq_worker_waking_up E k p) \<and> keeps k (snd (wq_worker_sleeping E k p)) \<and>
        keeps k (init_entity_runnable_average E k p) \<and> keeps k (post_init_entity_util_avg E k p) \<and>
        keeps k (cpu_load_update_active E k) \<and> keeps k (calc_global_load_tick E k)) \<and>
     (\<forall>k p x. keeps k (reweight_task E k p x)) \<and>
     (\<forall>k a b. keeps k (init_dl_bandwidth E a b k) \<and> keeps k (init_cfs_rq E k) \<and> keeps k (init_dl_rq E k))"

lemma class_quiet: "quiet_env E \<Longrightarrow> c \<noteq> TsClass \<Longrightarrow> quiet_class (class_of E c)"
  by (cases c) (auto simp: quiet_env_def rtq_quiet.quiet_class_axioms)

lemma quiet_envD:
  assumes "quiet_env E"
  shows "keeps k (wq_worker_waking_up E k p)" "keeps k (init_entity_runnable_average E k p)"
    "keeps k (post_init_entity_util_avg E k p)" "keeps k (cpu_load_update_active E k)"
    "keeps k (calc_global_load_tick E k)" "keeps k (reweight_task E k p x)"
    "keeps k (init_dl_bandwidth E a b k)" "keeps k (init_cfs_rq E k)" "keeps k (init_dl_rq E k)"
    and "wq_worker_sleeping E k p = (r, k') \<Longrightarrow> keeps k k'"
proof -
  show "wq_worker_sleeping E k p = (r, k') \<Longrightarrow> keeps k k'"
    using assms by (auto simp: quiet_env_def dest!: spec [of _ k] spec [of _ p])
qed (use assms in \<open>auto simp: quiet_env_def\<close>)

text \<open>
  With \<open>Q\<close> the set of tasks that count as queued: the class is well formed and its queues hold
  exactly the tasks of \<open>Q\<close> that belong to it; its tasks have priorities of its range, and the
  static and normal priorities are such that a task can always enter it.
\<close>

definition ts_core :: "pid set \<Rightarrow> 'x kern \<Rightarrow> bool" where
  "ts_core Q k \<longleftrightarrow> ts_wf k \<and> ts_runnable k = {p \<in> Q. sched_class (tsk k p) = TsClass} \<and>
     (\<forall>p. sched_class (tsk k p) = TsClass \<longrightarrow> ts_prio_ok (prio (tsk k p))) \<and>
     (\<forall>p. ts_prio_ok (static_prio (tsk k p)) \<and> normal_prio (tsk k p) \<le> 139)"

definition queued_tasks :: "'x kern \<Rightarrow> pid set" where
  "queued_tasks k = {p. task_on_rq_queued (tsk k p)}"

definition core_inv :: "'x kern \<Rightarrow> bool" where
  "core_inv k = ts_core (queued_tasks k) k"

lemma ts_coreD:
  assumes "ts_core Q k"
  shows "ts_wf k" "ts_runnable k = {p \<in> Q. sched_class (tsk k p) = TsClass}"
    "sched_class (tsk k p) = TsClass \<Longrightarrow> ts_prio_ok (prio (tsk k p))"
    "ts_prio_ok (static_prio (tsk k p))" "normal_prio (tsk k p) \<le> 139"
    "linked p (ts_queue k) \<longleftrightarrow> p \<in> Q \<and> sched_class (tsk k p) = TsClass"
  using assms by (auto simp: ts_core_def ts_runnable_def)

lemma ts_core_frame:
  assumes "ts_core Q k" "frame k k'" "ts_wf k'" "ts_runnable k' = {p \<in> Q'. sched_class (tsk k p) = TsClass}"
    and "\<And>p. sched_class (tsk k p) = TsClass \<Longrightarrow> ts_prio_ok (prio (tsk k' p))"
  shows "ts_core Q' k'"
  using assms by (auto simp: ts_core_def frameD [OF assms(2)])

lemma ts_core_keeps: "ts_core Q k \<Longrightarrow> keeps k k' \<Longrightarrow> ts_core Q k'"
proof -
  assume c: "ts_core Q k" and k: "keeps k k'"
  have eq: "ts_queue k' = ts_queue k" "\<And>p. prio (tsk k' p) = prio (tsk k p)"
    using k by (simp_all add: keeps_def)
  have "ts_wf k'" using ts_coreD(1) [OF c] ts_wf_cong [of k' k] eq by simp
  then show ?thesis
    using ts_core_frame [OF c keeps_frame [OF k]] ts_coreD(2,3) [OF c] eq by (simp add: ts_runnable_def)
qed

lemma core_inv_keeps: "core_inv k \<Longrightarrow> keeps k k' \<Longrightarrow> core_inv k'"
  using ts_core_keeps [of "queued_tasks k" k k']
  by (simp add: core_inv_def queued_tasks_def task_on_rq_queued_def frameD [OF keeps_frame])

text \<open>Changing a task that counts as not queued, and marks that the class does not read.\<close>

lemma ts_core_change:
  assumes c: "ts_core Q k" and p: "p \<notin> Q"
    and "sched_class (f (tsk k p)) = TsClass \<Longrightarrow> ts_prio_ok (prio (f (tsk k p)))"
    and "ts_prio_ok (static_prio (f (tsk k p)))" "normal_prio (f (tsk k p)) \<le> 139"
  shows "ts_core Q (upd_task k p f)"
proof -
  have nl: "\<not> linked p (ts_queue k)" using ts_coreD(6) [OF c] p by simp
  have "ts_wf (upd_task k p f)"
    using ts_coreD(1) [OF c] by (subst ts_wf_cong [of _ k]) (auto simp: nl)
  moreover have "ts_runnable (upd_task k p f) = ts_runnable k" by (simp add: ts_runnable_def)
  ultimately show ?thesis
    using assms by (auto simp: ts_core_def fun_upd_def)
qed

lemma ts_core_mark:
  assumes "ts_core Q k" "sched_class (f (tsk k p)) = sched_class (tsk k p)"
    "prio (f (tsk k p)) = prio (tsk k p)" "static_prio (f (tsk k p)) = static_prio (tsk k p)"
    "normal_prio (f (tsk k p)) = normal_prio (tsk k p)"
  shows "ts_core Q (upd_task k p f)"
proof -
  have "ts_wf (upd_task k p f)"
    using ts_coreD(1) [OF assms(1)] by (subst ts_wf_cong [of _ k]) (auto simp: assms)
  moreover have "ts_runnable (upd_task k p f) = ts_runnable k" by (simp add: ts_runnable_def)
  ultimately show ?thesis using assms by (auto simp: ts_core_def fun_upd_def)
qed


section \<open>The operations of the class under the invariant\<close>

lemma frame_ts:
  "frame k (set_ts_queue (upd_task k p (\<lambda>t. t\<lparr>prio := pr\<rparr>)) qs)" "frame k (set_ts_queue k qs)"
  by (auto simp: frame_def set_ts_queue_def view_def)

lemma enqueue_ts_core:
  assumes c: "ts_core Q k" and cl: "sched_class (tsk k p) = TsClass" and e: "enqueue_task_ts k p fl = Some k'"
  shows "ts_core (insert p Q) k' \<and> frame k k'"
proof -
  have nl: "\<not> linked p (ts_queue k)"
    using e by (auto simp: enqueue_task_ts_def list_add_tail_def Let_def split: if_splits)
  note eq = enqueue_task_ts_eq [OF ts_coreD(1) [OF c] nl ts_coreD(3) [OF c cl]]
  have fr: "frame k k'" using e by (auto simp: eq frame_ts)
  have w: "ts_wf k'" "ts_runnable k' = insert p (ts_runnable k)"
    using enqueue_task_ts_ok [OF ts_coreD(1) [OF c] nl ts_coreD(3) [OF c cl], of fl] e by auto
  have "ts_prio_ok (prio (tsk k' q))" if "sched_class (tsk k q) = TsClass" for q
    using enqueue_task_ts_ready [OF e] ts_coreD(3) [OF c that] by blast
  moreover have "ts_runnable k' = {q \<in> insert p Q. sched_class (tsk k q) = TsClass}"
    using w(2) ts_coreD(2) [OF c] cl by auto
  ultimately show ?thesis using ts_core_frame [OF c fr w(1)] fr by blast
qed

lemma dequeue_ts_core:
  assumes c: "ts_core Q k" and e: "dequeue_task_ts k p fl = Some k'"
  shows "ts_core (Q - {p}) k' \<and> frame k k'"
proof -
  have l: "linked p (ts_queue k)" using e by (auto simp: dequeue_task_ts_def list_del_def split: if_splits)
  have fr: "frame k k'" using e by (auto simp: dequeue_task_ts_def frame_ts)
  have w: "ts_wf k'" "ts_runnable k' = ts_runnable k - {p}"
    using dequeue_task_ts_ok [OF ts_coreD(1) [OF c] l, of fl] e by auto
  have "ts_runnable k' = {q \<in> Q - {p}. sched_class (tsk k q) = TsClass}"
    using w(2) ts_coreD(2) [OF c] by auto
  from ts_core_frame [OF c fr w(1) this] show ?thesis
    using fr ts_coreD(3) [OF c] dequeue_task_ts_tsk [OF e] by simp
qed

lemma yield_ts_core:
  assumes c: "ts_core Q k" and e: "yield_task_ts k = Some k'"
  shows "ts_core Q k' \<and> frame k k'"
proof -
  have l: "linked (curr k) (ts_queue k)"
    using e by (auto simp: yield_task_ts_def list_move_tail_def split: if_splits)
  have fr: "frame k k'" "tsk k' = tsk k" using e by (auto simp: yield_task_ts_def frame_ts)
  have w: "ts_wf k'" "ts_runnable k' = ts_runnable k"
    using yield_task_ts_ok [OF ts_coreD(1) [OF c] l] e by auto
  from ts_core_frame [OF c fr(1) w(1), of Q] show ?thesis
    using w(2) fr ts_coreD(2,3) [OF c] by simp
qed

lemma tick_ts_core:
  assumes c: "ts_core Q k" and e: "task_tick_ts k p b = Some k'"
  shows "ts_core Q k' \<and> frame k k'"
proof -
  let ?k = "upd_task k p (\<lambda>t. t\<lparr>ts := (ts t)\<lparr>ts_time_slice := ts_time_slice (ts t) - 1\<rparr>\<rparr>)"
  have s: "ts_core Q ?k \<and> frame k ?k"
    using ts_core_mark [OF c] by (simp add: frame_def view_def)
  consider "k' = k" | "policy (tsk k p) = SCHED_TS" "ts_slice k p \<noteq> 1"
    | "policy (tsk k p) = SCHED_TS" "ts_slice k p = 1"
    using e by (auto simp: task_tick_ts_def split: if_splits)
  then show ?thesis
  proof cases
    case 2
    with s e task_tick_ts_running [of k p b] show ?thesis by simp
  next
    case 3
    have l: "linked p (ts_queue k)"
      using e 3 by (auto simp: task_tick_ts_def list_move_tail_def Let_def bind_eq_Some_conv
          split: if_splits)
    from task_tick_ts_expired [OF 3 ts_coreD(1) [OF c] l, of b] e
    have w: "ts_wf k'" "ts_runnable k' = ts_runnable k" "prio (tsk k' p) = demoted (prio (tsk k p))"
      "\<forall>q. q \<noteq> p \<longrightarrow> tsk k' q = tsk k q" by auto
    have fr: "frame k k'"
      using e 3 by (auto simp: task_tick_ts_def Let_def bind_eq_Some_conv frame_def view_def
          set_tsk_need_resched_def split: if_splits)
    have "ts_prio_ok (prio (tsk k' q))" if "sched_class (tsk k q) = TsClass" for q
      using w(3,4) ts_coreD(3) [OF c that] demoted_ok by (cases "q = p") auto
    then show ?thesis
      using ts_core_frame [OF c fr w(1), of Q] w(2) fr ts_coreD(2) [OF c] by simp
  qed (use c in simp)
qed


section \<open>The operations of the core\<close>

lemma ts_core_other:
  assumes "sched_class (tsk k p) \<noteq> TsClass"
  shows "ts_core (insert p Q) k = ts_core Q k" "ts_core (Q - {p}) k = ts_core Q k"
proof -
  have "{q \<in> insert p Q. sched_class (tsk k q) = TsClass} = {q \<in> Q. sched_class (tsk k q) = TsClass}"
    "{q \<in> Q - {p}. sched_class (tsk k q) = TsClass} = {q \<in> Q. sched_class (tsk k q) = TsClass}"
    using assms by auto
  then show "ts_core (insert p Q) k = ts_core Q k" "ts_core (Q - {p}) k = ts_core Q k"
    by (simp_all add: ts_core_def)
qed

lemma enqueue_core:
  assumes E: "quiet_env E" and c: "ts_core Q k" and e: "enqueue_task E k p fl = Some k'"
  shows "ts_core (insert p Q) k' \<and> frame k k'"
proof -
  have "\<exists>k1 \<in> {k, update_rq_clock k}. cop_enqueue_task (task_class E k p) k1 p fl = Some k'"
    using e by (auto simp: enqueue_task_def Let_def split: if_splits)
  then obtain k1 where k1: "keeps k k1" "sched_class (tsk k1 p) = sched_class (tsk k p)"
    "cop_enqueue_task (task_class E k p) k1 p fl = Some k'"
    using keeps_small(1) by fastforce
  have c1: "ts_core Q k1" by (rule ts_core_keeps [OF c k1(1)])
  show ?thesis
  proof (cases "sched_class (tsk k p) = TsClass")
    case True
    with enqueue_ts_core [OF c1, of p fl k'] k1 have "ts_core (insert p Q) k' \<and> frame k1 k'"
      by (simp add: ts_sched_class_def)
    with k1(1) show ?thesis by (auto dest: keeps_frame intro: frame_trans)
  next
    case False
    from keeps_trans [OF k1(1) quiet_class.enqueue_quiet [OF class_quiet [OF E False] k1(3)]]
    have "keeps k k'" .
    moreover from this False have "sched_class (tsk k' p) \<noteq> TsClass"
      by (simp add: frameD [OF keeps_frame])
    ultimately show ?thesis using ts_core_keeps [OF c] ts_core_other(1) keeps_frame by blast
  qed
qed

lemma dequeue_core:
  assumes E: "quiet_env E" and c: "ts_core Q k" and e: "dequeue_task E k p fl = Some k'"
  shows "ts_core (Q - {p}) k' \<and> frame k k'"
proof -
  have "\<exists>k1 \<in> {k, update_rq_clock k}. cop_dequeue_task (task_class E k p) k1 p fl = Some k'"
    using e by (auto simp: dequeue_task_def Let_def split: if_splits)
  then obtain k1 where k1: "keeps k k1" "cop_dequeue_task (task_class E k p) k1 p fl = Some k'"
    using keeps_small(1) by fastforce
  have c1: "ts_core Q k1" by (rule ts_core_keeps [OF c k1(1)])
  show ?thesis
  proof (cases "sched_class (tsk k p) = TsClass")
    case True
    with dequeue_ts_core [OF c1, of p fl k'] k1 have "ts_core (Q - {p}) k' \<and> frame k1 k'"
      by (simp add: ts_sched_class_def)
    with k1(1) show ?thesis by (auto dest: keeps_frame intro: frame_trans)
  next
    case False
    from keeps_trans [OF k1(1) quiet_class.dequeue_quiet [OF class_quiet [OF E False] k1(2)]]
    have "keeps k k'" .
    moreover from this False have "sched_class (tsk k' p) \<noteq> TsClass"
      by (simp add: frameD [OF keeps_frame])
    ultimately show ?thesis using ts_core_keeps [OF c] ts_core_other(2) keeps_frame by blast
  qed
qed

lemma activate_core:
  assumes E: "quiet_env E" and c: "ts_core Q k"
  shows "activate_task E k p fl = Some k' \<Longrightarrow> ts_core (insert p Q) k' \<and> frame k k'"
    and "deactivate_task E k p fl = Some k' \<Longrightarrow> ts_core (Q - {p}) k' \<and> frame k k'"
proof -
  have n: "keeps k (k\<lparr>nr_uninterruptible := x\<rparr>)" for x by (rule keeps_counters)
  note c' = ts_core_keeps [OF c n]
  show "activate_task E k p fl = Some k' \<Longrightarrow> ts_core (insert p Q) k' \<and> frame k k'"
    using enqueue_core [OF E c] enqueue_core [OF E c'] frame_trans [OF keeps_frame [OF n]]
    unfolding activate_task_def Let_def by (metis (mono_tags))
  show "deactivate_task E k p fl = Some k' \<Longrightarrow> ts_core (Q - {p}) k' \<and> frame k k'"
    using dequeue_core [OF E c] dequeue_core [OF E c'] frame_trans [OF keeps_frame [OF n]]
    unfolding deactivate_task_def Let_def by (metis (mono_tags))
qed

lemma put_prev_keeps: "quiet_env E \<Longrightarrow> put_prev_task E k p = Some k' \<Longrightarrow> keeps k k'"
  using quiet_class.put_prev_quiet [OF class_quiet, of E "sched_class (tsk k p)" k p k']
  by (cases "sched_class (tsk k p) = TsClass")
    (auto simp: put_prev_task_def ts_sched_class_def put_prev_task_ts_def)

lemma set_curr_keeps: "quiet_env E \<Longrightarrow> keeps k (set_curr_task E k p)"
  using quiet_class.set_curr_quiet [OF class_quiet, of E "sched_class (tsk k p)" k]
  by (cases "sched_class (tsk k p) = TsClass")
    (auto simp: set_curr_task_def ts_sched_class_def set_curr_task_ts_def)

lemma check_class_changed_keeps:
  assumes E: "quiet_env E"
  shows "keeps k (check_class_changed E k p pc op)"
proof -
  have 1: "keeps k (cop_switched_to (task_class E k' q) k p)" for k' q and k :: "'a kern"
    using quiet_class.to_quiet [OF class_quiet [OF E], of "sched_class (tsk k' q)" k p]
    by (cases "sched_class (tsk k' q) = TsClass") (auto simp: ts_sched_class_def switched_to_ts_def)
  have 2: "keeps k (cop_prio_changed (task_class E k p) k p op)"
    using quiet_class.changed_quiet [OF class_quiet [OF E], of "sched_class (tsk k p)" k p op]
    by (cases "sched_class (tsk k p) = TsClass") (auto simp: ts_sched_class_def prio_changed_ts_def)
  have 3: "cop_switched_from (class_of E pc) = Some g \<Longrightarrow> keeps k (g k p)" for g
    using quiet_class.from_quiet [OF class_quiet [OF E], of pc g k p]
    by (cases "pc = TsClass") (auto simp: ts_sched_class_def)
  show ?thesis
    unfolding check_class_changed_def Let_def
    by (auto simp: 2 split: option.split intro: 1 keeps_trans [OF 3 1])
qed

lemma check_preempt_keeps:
  assumes E: "quiet_env E"
  shows "keeps k (check_preempt_curr E k p fl)"
proof -
  have 1: "keeps k (cop_check_preempt_curr (class_of E c) k p fl)" for c
    using quiet_class.check_preempt_quiet [OF class_quiet [OF E], of c k p fl]
    by (cases "c = TsClass") (auto simp: ts_sched_class_def check_preempt_curr_ts_def keeps_small)
  show ?thesis
    unfolding check_preempt_curr_def Let_def
    by (intro keeps_if keeps_trans [OF _ keeps_small(3)] 1 keeps_small keeps_refl)
qed

lemma set_load_weight_keeps: "quiet_env E \<Longrightarrow> set_load_weight E k p b = Some k' \<Longrightarrow> keeps k k'"
  by (auto simp: set_load_weight_def Let_def view_def split: if_splits intro!: keeps_task intro: quiet_envD)

lemma queued_frame: "frame k k' \<Longrightarrow> queued_tasks k' = queued_tasks k"
  by (simp add: queued_tasks_def task_on_rq_queued_def frameD)

text \<open>Marking a task as queued or not, and changes that the invariant does not see.\<close>

lemma core_mark:
  assumes "core_inv k" "on_rq (f (tsk k p)) = on_rq (tsk k p)"
    "sched_class (f (tsk k p)) = sched_class (tsk k p)" "prio (f (tsk k p)) = prio (tsk k p)"
    "static_prio (f (tsk k p)) = static_prio (tsk k p)" "normal_prio (f (tsk k p)) = normal_prio (tsk k p)"
  shows "core_inv (upd_task k p f)"
proof -
  have "queued_tasks (upd_task k p f) = queued_tasks k"
    using assms(2) by (auto simp: queued_tasks_def task_on_rq_queued_def)
  then show ?thesis using ts_core_mark [of "queued_tasks k" k f p] assms by (simp add: core_inv_def)
qed

lemma core_set_queued:
  assumes "ts_core (insert p (queued_tasks k)) k"
  shows "core_inv (upd_task k p (\<lambda>t. t\<lparr>on_rq := TASK_ON_RQ_QUEUED\<rparr>))" (is "core_inv ?k")
proof -
  have "queued_tasks ?k = insert p (queued_tasks k)"
    by (auto simp: queued_tasks_def task_on_rq_queued_def)
  then show ?thesis using ts_core_mark [OF assms, of "\<lambda>t. t\<lparr>on_rq := TASK_ON_RQ_QUEUED\<rparr>" p] by (simp add: core_inv_def)
qed

lemma core_clear_queued:
  assumes "ts_core (queued_tasks k - {p}) k"
  shows "core_inv (upd_task k p (\<lambda>t. t\<lparr>on_rq := 0\<rparr>))" (is "core_inv ?k")
proof -
  have "queued_tasks ?k = queued_tasks k - {p}"
    by (auto simp: queued_tasks_def task_on_rq_queued_def TASK_ON_RQ_QUEUED_def)
  then show ?thesis using ts_core_mark [OF assms, of "\<lambda>t. t\<lparr>on_rq := 0\<rparr>" p] by (simp add: core_inv_def)
qed

lemma core_state: "core_inv k \<Longrightarrow> core_inv (upd_task k p (\<lambda>t. t\<lparr>state := st\<rparr>))"
  by (rule core_mark) simp_all

lemma core_curr: "core_inv (k\<lparr>curr := p\<rparr>) = core_inv k" "core_inv (k\<lparr>nr_switches := n\<rparr>) = core_inv k"
  by (simp_all add: core_inv_def ts_core_def queued_tasks_def ts_runnable_def ts_wf_def ts_level_def [abs_def])

lemma core_of_frame: "ts_core (queued_tasks k) k' \<Longrightarrow> frame k k' \<Longrightarrow> core_inv k'"
  by (simp add: core_inv_def queued_frame)


section \<open>Wakeups\<close>

lemma ttwu_activate_core:
  assumes E: "quiet_env E" and c: "core_inv k" and e: "ttwu_activate E k p fl = Some k'"
  shows "core_inv k'"
proof -
  obtain k1 where k1: "activate_task E k p fl = Some k1"
    using e by (auto simp: ttwu_activate_def bind_eq_Some_conv)
  let ?k2 = "upd_task k1 p (\<lambda>t. t\<lparr>on_rq := TASK_ON_RQ_QUEUED\<rparr>)"
  have "core_inv ?k2"
    using activate_core(1) [OF E c [unfolded core_inv_def] k1] queued_frame [of k k1]
    by (intro core_set_queued) simp
  moreover have "k' = ?k2 \<or> k' = wq_worker_waking_up E ?k2 p"
    using e k1 by (auto simp: ttwu_activate_def Let_def split: if_splits)
  ultimately show ?thesis using quiet_envD(1) [OF E] core_inv_keeps by blast
qed

lemma ttwu_do_wakeup_core: "quiet_env E \<Longrightarrow> core_inv k \<Longrightarrow> core_inv (ttwu_do_wakeup E k p wfl)"
  unfolding ttwu_do_wakeup_def Let_def by (intro core_state) (rule core_inv_keeps [OF _ check_preempt_keeps])

lemma try_to_wake_up_core:
  assumes E: "quiet_env E" and c: "core_inv k" and e: "try_to_wake_up E k p st wfl = Some (b, k')"
  shows "core_inv k'"
proof -
  have q: "ttwu_queue E k1 p wfl = Some k2 \<Longrightarrow> core_inv k1 \<Longrightarrow> core_inv k2" for k1 k2
    using ttwu_activate_core [OF E core_inv_keeps [OF _ keeps_small(1)]] ttwu_do_wakeup_core [OF E]
    by (fastforce simp: ttwu_queue_def ttwu_do_activate_def bind_eq_Some_conv)
  have "core_inv (snd (ttwu_remote E k p wfl))"
    using ttwu_do_wakeup_core [OF E core_inv_keeps [OF c keeps_small(1)]] c by (simp add: ttwu_remote_def)
  with c q [OF _ core_inv_keeps [OF _ keeps_small(9)]] e show ?thesis
    by (auto simp: try_to_wake_up_def split: if_splits prod.splits)
qed

lemma try_to_wake_up_local_core:
  assumes E: "quiet_env E" and c: "core_inv k" and e: "try_to_wake_up_local E k p = Some k'"
  shows "core_inv k'"
proof -
  let ?act = "if task_on_rq_queued (tsk k p) then Some k
    else ttwu_activate E (end_iowait k p) p (ENQUEUE_WAKEUP OR ENQUEUE_NOCLOCK)"
  have "k' = k \<or> (\<exists>k1. ?act = Some k1 \<and> k' = ttwu_do_wakeup E k1 p 0)"
  proof (cases "p = curr k \<or> state (tsk k p) AND TASK_NORMAL = 0")
    case False
    then have "try_to_wake_up_local E k p = Option.bind ?act (\<lambda>k. Some (ttwu_do_wakeup E k p 0))"
      unfolding try_to_wake_up_local_def by simp
    with e show ?thesis by (cases ?act) simp_all
  qed (use e in \<open>auto simp: try_to_wake_up_local_def split: if_split_asm\<close>)
  moreover have "core_inv k1" if "?act = Some k1" for k1
    using that c ttwu_activate_core [OF E core_inv_keeps [OF c keeps_small(9)]] by (simp split: if_split_asm)
  ultimately show ?thesis using c ttwu_do_wakeup_core [OF E] by blast
qed

lemma wake_up_new_task_core:
  assumes E: "quiet_env E" and c: "core_inv k" and e: "wake_up_new_task E k p = Some k'"
  shows "core_inv k'"
proof -
  let ?k1 = "post_init_entity_util_avg E (update_rq_clock (upd_task k p (\<lambda>t. t\<lparr>state := TASK_RUNNING\<rparr>))) p"
  obtain k2 where k2: "activate_task E ?k1 p ENQUEUE_NOCLOCK = Some k2"
    and k': "k' = check_preempt_curr E (upd_task k2 p (\<lambda>t. t\<lparr>on_rq := TASK_ON_RQ_QUEUED\<rparr>)) p WF_FORK"
    using e by (auto simp: wake_up_new_task_def Let_def bind_eq_Some_conv)
  have "core_inv ?k1"
    by (intro core_inv_keeps [OF _ quiet_envD(3) [OF E]] core_inv_keeps [OF _ keeps_small(1)] core_state c)
  from activate_core(1) [OF E this [unfolded core_inv_def] k2] queued_frame [of ?k1 k2]
  have "core_inv (upd_task k2 p (\<lambda>t. t\<lparr>on_rq := TASK_ON_RQ_QUEUED\<rparr>))"
    by (intro core_set_queued) simp
  then show ?thesis unfolding k' by (rule core_inv_keeps [OF _ check_preempt_keeps [OF E]])
qed


section \<open>The tick and the main scheduling function\<close>

lemma scheduler_tick_core:
  assumes E: "quiet_env E" and c: "core_inv k" and e: "scheduler_tick E k = Some k'"
  shows "core_inv k'"
proof -
  let ?k1 = "update_rq_clock k"
  obtain k2 where k2: "cop_task_tick (task_class E k (curr k)) ?k1 (curr k) False = Some k2"
    and k': "k' = calc_global_load_tick E (cpu_load_update_active E k2)"
    using e by (auto simp: scheduler_tick_def Let_def bind_eq_Some_conv)
  have c1: "core_inv ?k1" by (rule core_inv_keeps [OF c keeps_small(1)])
  have "core_inv k2"
  proof (cases "sched_class (tsk k (curr k)) = TsClass")
    case True
    with k2 have "task_tick_ts ?k1 (curr k) False = Some k2" by (simp add: ts_sched_class_def)
    from tick_ts_core [OF c1 [unfolded core_inv_def] this] show ?thesis
      using core_of_frame by blast
  next
    case False
    from quiet_class.tick_quiet [OF class_quiet [OF E False] k2] show ?thesis
      by (rule core_inv_keeps [OF c1])
  qed
  then show ?thesis unfolding k'
    by (intro core_inv_keeps [OF _ quiet_envD(5) [OF E]] core_inv_keeps [OF _ quiet_envD(4) [OF E]])
qed

lemma pick_class_keeps:
  assumes E: "quiet_env E" and e: "cop_pick_next_task (class_of E c) (put_prev_task E) k prev = Some (r, k')"
  shows "keeps k k'"
proof (cases "c = TsClass")
  case True
  with e have "k' = k \<or> put_prev_task E k prev = Some k'"
    by (auto simp: ts_sched_class_def picked_of_def pick_next_task_ts_def Let_def bind_eq_Some_conv
        split: if_splits)
  then show ?thesis using put_prev_keeps [OF E] by blast
next
  case False
  from quiet_class.pick_quiet [OF class_quiet [OF E False] e put_prev_keeps [OF E]] show ?thesis .
qed

lemma pick_from_keeps: "quiet_env E \<Longrightarrow> pick_from E cs k prev = Some (r, k') \<Longrightarrow> keeps k k'"
proof (induction cs arbitrary: k)
  case (Cons c cs)
  then show ?case
    by (auto simp: bind_eq_Some_conv split: if_splits intro: keeps_trans dest!: pick_class_keeps [rotated])
qed simp

lemmas pick_again_induct = pick_again.raw_induct [rotated, consumes 1, case_names step]

lemma pick_again_keeps:
  assumes E: "quiet_env E" and "pick_again E k prev = Some r"
  shows "keeps k (snd r)"
  using assms(2,1)
proof (induct rule: pick_again_induct)
  case (step f E k prev y)
  from step.hyps(2) obtain r where r: "pick_from E for_each_class k prev = Some r"
    and y: "(case fst r of Task p \<Rightarrow> Some (p, snd r) | _ \<Rightarrow> f E (snd r) prev) = Some y"
    by (auto simp: bind_eq_Some_conv)
  have k: "keeps k (snd r)" using pick_from_keeps [OF step.prems, of for_each_class k prev "fst r" "snd r"] r by simp
  show ?case
  proof (cases "fst r")
    case (Task p)
    with y k show ?thesis by auto
  qed (use y step.hyps(1) [OF _ step.prems] keeps_trans [OF k] in auto)
qed

lemma pick_next_task_keeps:
  assumes E: "quiet_env E" and e: "pick_next_task E k prev = Some (p, k')"
  shows "keeps k k'"
proof -
  note fair = pick_class_keeps [OF E, of FairClass k prev, simplified]
  note idl = pick_class_keeps [OF E, of IdleClass _ prev, simplified]
  have again: "pick_again E k1 prev = Some (p, k') \<Longrightarrow> keeps k1 k'" for k1
    using pick_again_keeps [OF E, of k1 prev "(p, k')"] by simp
  show ?thesis
  proof (cases "sched_class (tsk k prev) \<in> {IdleClass, FairClass} \<and> nr_running k = h_nr_running k")
    case True
    with e obtain r k1 where r: "cop_pick_next_task (fair_sched_class E) (put_prev_task E) k prev = Some (r, k1)"
      and r2: "(case r of Task p \<Rightarrow> Some (p, k1) | RetryTask \<Rightarrow> pick_again E k1 prev
         | NoTask \<Rightarrow> do {
             (p, k) \<leftarrow> cop_pick_next_task (idle_sched_class E) (put_prev_task E) k1 prev;
             (case p of Task p \<Rightarrow> Some (p, k) | _ \<Rightarrow> None)
           }) = Some (p, k')"
      unfolding pick_next_task_def if_P [OF True] bind_eq_Some_conv by auto
    have "keeps k1 k'"
    proof (cases r)
      case NoTask
      let ?i = "cop_pick_next_task (idle_sched_class E) (put_prev_task E) k1 prev"
      from r2 NoTask have "Option.bind ?i (\<lambda>(p, k). case p of Task p \<Rightarrow> Some (p, k) | _ \<Rightarrow> None) = Some (p, k')"
        by simp
      then obtain r3 k3 where r3: "?i = Some (r3, k3)"
        and "(case r3 of Task p \<Rightarrow> Some (p, k3) | _ \<Rightarrow> None) = Some (p, k')" by (cases ?i) auto
      then have "k3 = k'" by (cases r3) simp_all
      with idl [OF r3] show ?thesis by simp
    qed (use r2 again in auto)
    with fair [OF r] show ?thesis by (rule keeps_trans)
  qed (use e again in \<open>auto simp: pick_next_task_def\<close>)
qed

lemma worker_asleep_core:
  assumes E: "quiet_env E" and c: "core_inv k" and e: "worker_asleep E k p = Some k'"
  shows "core_inv k'"
proof (cases "tflags (tsk k p) AND PF_WQ_WORKER \<noteq> 0")
  case True
  obtain r k1 where r: "wq_worker_sleeping E k p = (r, k1)" by fastforce
  have "core_inv k1" by (rule core_inv_keeps [OF c quiet_envD(10) [OF E r]])
  with True e r show ?thesis
    by (cases r) (auto simp: worker_asleep_def dest: try_to_wake_up_local_core [OF E])
qed (use c e in \<open>auto simp: worker_asleep_def\<close>)

lemma sleep_task_core:
  assumes E: "quiet_env E" and c: "core_inv k" and e: "sleep_task E k p = Some k'"
  shows "core_inv k'"
proof -
  obtain k1 where k1: "deactivate_task E k p (DEQUEUE_SLEEP OR DEQUEUE_NOCLOCK) = Some k1"
    and k': "worker_asleep E (begin_iowait (upd_task k1 p (\<lambda>t. t\<lparr>on_rq := 0\<rparr>)) p) p = Some k'"
    using e unfolding sleep_task_def bind_eq_Some_conv Let_def by blast
  have "core_inv (upd_task k1 p (\<lambda>t. t\<lparr>on_rq := 0\<rparr>))"
    using activate_core(2) [OF E c [unfolded core_inv_def] k1] queued_frame [of k k1]
    by (intro core_clear_queued) simp
  from worker_asleep_core [OF E core_inv_keeps [OF this keeps_small(10)] k'] show ?thesis .
qed

lemma schedule_sleep_core:
  assumes E: "quiet_env E" and c: "core_inv k" and e: "schedule_sleep E preempt k = Some (v, k')"
  shows "core_inv k'"
  using e c core_state [OF c] sleep_task_core [OF E c]
  by (auto simp: schedule_sleep_def Let_def split: if_split_asm)

lemma finish_task_switch_keeps: "quiet_env E \<Longrightarrow> keeps k (finish_task_switch E k p)"
  using quiet_class.dead_quiet [OF class_quiet, of E "sched_class (tsk k p)"]
  by (cases "sched_class (tsk k p) = TsClass")
    (auto simp: finish_task_switch_def ts_sched_class_def split: option.split)

lemma switch_task_core:
  assumes E: "quiet_env E" and c: "core_inv k"
  shows "core_inv (switch_task E v prev nxt k)"
proof -
  let ?k1 = "clear_tsk_need_resched prev k"
  let ?k2 = "?k1\<lparr>nr_switches := nr_switches ?k1 + 1, curr := nxt\<rparr>"
  have c1: "core_inv ?k1" by (rule core_inv_keeps [OF c keeps_small(5)])
  then have "core_inv ?k2" by (simp only: core_curr)
  then have "core_inv (upd_task ?k2 prev (count_switch v))"
    by (rule core_mark) (simp_all add: count_switch_def)
  then have "core_inv (context_switch E (upd_task ?k2 prev (count_switch v)) prev nxt)"
    unfolding context_switch_def
    by (rule core_inv_keeps [OF core_inv_keeps [OF _ keeps_small(6)] finish_task_switch_keeps [OF E]])
  then show ?thesis
    unfolding switch_task_def Let_def using core_inv_keeps [OF c1 keeps_small(6)] by auto
qed

lemma schedule_main_cases:
  assumes "schedule_main E preempt k = Some k'"
  obtains v k2 nxt k3 where
    "schedule_sleep E preempt (update_rq_clock (k\<lparr>clock_update_flags := push_bit 1 (clock_update_flags k)\<rparr>)) = Some (v, k2)"
    "pick_next_task E k2 (curr k) = Some (nxt, k3)" "k' = switch_task E v (curr k) nxt k3"
  using assms unfolding schedule_main_def Let_def bind_eq_Some_conv split_paired_Ex split_conv by blast

lemma schedule_main_core:
  assumes E: "quiet_env E" and c: "core_inv k" and e: "schedule_main E preempt k = Some k'"
  shows "core_inv k'"
  using e
proof (rule schedule_main_cases)
  fix v k2 nxt k3
  let ?k1 = "update_rq_clock (k\<lparr>clock_update_flags := push_bit 1 (clock_update_flags k)\<rparr>)"
  assume k2: "schedule_sleep E preempt ?k1 = Some (v, k2)" and k3: "pick_next_task E k2 (curr k) = Some (nxt, k3)"
    and k': "k' = switch_task E v (curr k) nxt k3"
  have "core_inv ?k1" by (intro core_inv_keeps [OF _ keeps_small(1)] core_inv_keeps [OF c keeps_counters(3)])
  from schedule_sleep_core [OF E this k2] pick_next_task_keeps [OF E k3] have "core_inv k3"
    by (rule core_inv_keeps)
  then show ?thesis unfolding k' by (rule switch_task_core [OF E])
qed

lemma do_sched_yield_core:
  assumes E: "quiet_env E" and c: "core_inv k" and e: "do_sched_yield E k = Some k'"
  shows "core_inv k'"
proof -
  obtain k1 where k1: "cop_yield_task (task_class E k (curr k)) k = Some k1" "schedule_main E False k1 = Some k'"
    using e by (auto simp: do_sched_yield_def bind_eq_Some_conv)
  have "core_inv k1"
  proof (cases "sched_class (tsk k (curr k)) = TsClass")
    case True
    with k1 have "yield_task_ts k = Some k1" by (simp add: ts_sched_class_def)
    from yield_ts_core [OF c [unfolded core_inv_def] this] show ?thesis using core_of_frame by blast
  qed (use quiet_class.yield_quiet [OF class_quiet [OF E] k1(1)] core_inv_keeps [OF c] in blast)
  with k1(2) show ?thesis by (simp add: schedule_main_core [OF E])
qed

lemma do_task_dead_core: "quiet_env E \<Longrightarrow> core_inv k \<Longrightarrow> do_task_dead E k = Some k' \<Longrightarrow> core_inv k'"
  unfolding do_task_dead_def Let_def
  by (erule schedule_main_core [rotated 2]) (auto intro!: core_mark)


section \<open>Changing a task that is off the queues\<close>

text \<open>
  While an operation changes the fields of a task one after the other, the invariant holds for all
  other tasks.
\<close>

definition ts_pre :: "pid \<Rightarrow> pid set \<Rightarrow> 'x kern \<Rightarrow> bool" where
  "ts_pre p Q k \<longleftrightarrow> ts_wf k \<and> p \<notin> Q \<and> ts_runnable k = {q \<in> Q. sched_class (tsk k q) = TsClass} \<and>
     (\<forall>q. q \<noteq> p \<longrightarrow> (sched_class (tsk k q) = TsClass \<longrightarrow> ts_prio_ok (prio (tsk k q))) \<and>
        ts_prio_ok (static_prio (tsk k q)) \<and> normal_prio (tsk k q) \<le> 139)"

lemma ts_preI: "ts_core Q k \<Longrightarrow> p \<notin> Q \<Longrightarrow> ts_pre p Q k"
  by (auto simp: ts_core_def ts_pre_def)

lemma ts_pre_core:
  assumes "ts_pre p Q k" "sched_class (tsk k p) = TsClass \<Longrightarrow> ts_prio_ok (prio (tsk k p))"
    and "ts_prio_ok (static_prio (tsk k p))" "normal_prio (tsk k p) \<le> 139"
  shows "ts_core Q k"
  unfolding ts_core_def
proof (intro conjI allI impI)
  fix q
  show "sched_class (tsk k q) = TsClass \<Longrightarrow> ts_prio_ok (prio (tsk k q))"
    "ts_prio_ok (static_prio (tsk k q))" "normal_prio (tsk k q) \<le> 139"
    using assms by (cases "q = p"; simp add: ts_pre_def)+
qed (use assms in \<open>simp_all add: ts_pre_def\<close>)

lemma ts_pre_upd:
  assumes "ts_pre p Q k"
  shows "ts_pre p Q (upd_task k p f)"
proof -
  have "p \<notin> ts_runnable k" using assms unfolding ts_pre_def by blast
  then have "ts_wf (upd_task k p f)"
    using assms by (subst ts_wf_cong [of _ k]) (auto simp: ts_pre_def)
  moreover have "ts_runnable (upd_task k p f) = ts_runnable k" by (simp add: ts_runnable_def)
  moreover have "{q \<in> Q. sched_class (tsk (upd_task k p f) q) = TsClass} =
      {q \<in> Q. sched_class (tsk k q) = TsClass}"
    using assms by (auto simp: ts_pre_def)
  ultimately show ?thesis using assms by (simp add: ts_pre_def)
qed

lemma ts_pre_keeps:
  assumes "ts_pre p Q k" "keeps k k'"
  shows "ts_pre p Q k'"
proof -
  have eq: "ts_queue k' = ts_queue k" "\<And>q. prio (tsk k' q) = prio (tsk k q)"
    using assms(2) by (simp_all add: keeps_def)
  have "ts_wf k'" using ts_wf_cong [of k' k] eq assms(1) by (simp add: ts_pre_def)
  then show ?thesis
    using assms(1) eq frameD [OF keeps_frame [OF assms(2)]] by (simp add: ts_pre_def ts_runnable_def)
qed

lemma set_load_weight_task:
  assumes "quiet_env E" "set_load_weight E k p b = Some k'"
  shows "view (tsk k' q) = view (tsk k q)" "prio (tsk k' q) = prio (tsk k q)"
  using set_load_weight_keeps [OF assms] by (simp_all add: keeps_def frame_def)


section \<open>Fork\<close>

lemma reset_policy_task [simp]:
  "ts_prio_ok (static_prio t) \<Longrightarrow> ts_prio_ok (static_prio (reset_policy t))"
  "normal_prio (reset_policy t) = static_prio (reset_policy t)"
  "prio (reset_policy t) = static_prio (reset_policy t)" "on_rq (reset_policy t) = on_rq t"
  by (simp_all add: reset_policy_def Let_def ts_prio_ok_def prio_defs)

lemma reset_on_fork_pre:
  assumes E: "quiet_env E" and c: "ts_pre p Q k" and e: "reset_on_fork_block E k p = Some k'"
    and st: "ts_prio_ok (static_prio (tsk k p))" "normal_prio (tsk k p) \<le> 139" "prio (tsk k p) \<le> 139"
  shows "ts_pre p Q k' \<and> ts_prio_ok (static_prio (tsk k' p)) \<and> normal_prio (tsk k' p) \<le> 139 \<and>
    prio (tsk k' p) \<le> 139 \<and> (\<forall>q. on_rq (tsk k' q) = on_rq (tsk k q))"
proof (cases "sched_reset_on_fork (tsk k p)")
  case True
  let ?k1 = "upd_task k p reset_policy"
  from e True obtain k2 where k2: "set_load_weight E ?k1 p False = Some k2"
    and k': "k' = upd_task k2 p (\<lambda>t. t\<lparr>sched_reset_on_fork := False\<rparr>)"
    unfolding reset_on_fork_block_def by auto
  have "ts_pre p Q k'"
    unfolding k' by (intro ts_pre_upd ts_pre_keeps [OF _ set_load_weight_keeps [OF E k2]] c)
  moreover have "static_prio (tsk k' p) = static_prio (reset_policy (tsk k p))"
    "normal_prio (tsk k' p) = static_prio (reset_policy (tsk k p))"
    "prio (tsk k' p) = static_prio (reset_policy (tsk k p))"
    using set_load_weight_task [OF E k2, of p] by (simp_all add: k' view_def)
  moreover have "on_rq (tsk k' q) = on_rq (tsk k q)" for q
    using set_load_weight_task(1) [OF E k2, of q] by (simp add: k' view_def split: if_split_asm)
  ultimately show ?thesis
    using reset_policy_task(1) [OF st(1)] by (simp add: ts_prio_ok_def)
qed (use e c st in \<open>auto simp: reset_on_fork_block_def\<close>)

lemma task_fork_keeps: "quiet_env E \<Longrightarrow> keeps k (task_fork E k p)"
  using quiet_class.fork_quiet [OF class_quiet, of E "sched_class (tsk k p)"]
  by (cases "sched_class (tsk k p) = TsClass") (auto simp: task_fork_def ts_sched_class_def split: option.split)

lemma sched_fork_core:
  assumes E: "quiet_env E" and c: "core_inv k" and p: "\<not> task_on_rq_queued (tsk k p)"
    and e: "sched_fork E k p = Some (0, k')"
  shows "core_inv k'"
proof -
  let ?Q = "queued_tasks k"
  let ?k1 = "upd_task (sched_fork_basic E k p) p (\<lambda>t. t\<lparr>state := TASK_NEW\<rparr>)"
  let ?k2 = "upd_task ?k1 p (\<lambda>t. t\<lparr>prio := normal_prio (tsk ?k1 (curr ?k1))\<rparr>)"
  let ?cl = "\<lambda>t. t\<lparr>sched_class := fork_class t\<rparr>"
  have Q: "ts_core ?Q k" "p \<notin> ?Q" using c p by (simp_all add: core_inv_def queued_tasks_def)
  have pre: "ts_pre p ?Q ?k2" unfolding sched_fork_basic_def by (intro ts_pre_upd ts_preI Q)
  have p2: "ts_prio_ok (static_prio (tsk ?k2 p))" "normal_prio (tsk ?k2 p) \<le> 139" "prio (tsk ?k2 p) \<le> 139"
    using ts_coreD(4,5) [OF Q(1)] by (simp_all add: sched_fork_basic_def)
  from e obtain k3 where k3: "reset_on_fork_block E ?k2 p = Some k3"
    and k': "k' = task_fork E (init_entity_runnable_average E (upd_task k3 p ?cl) p) p"
    unfolding sched_fork_def Let_def by (auto simp: bind_eq_Some_conv EAGAIN_def split: if_split_asm)
  have k3': "ts_pre p ?Q k3" "ts_prio_ok (static_prio (tsk k3 p))" "normal_prio (tsk k3 p) \<le> 139"
    "prio (tsk k3 p) \<le> 139" "\<forall>q. on_rq (tsk k3 q) = on_rq (tsk ?k2 q)"
    using reset_on_fork_pre [OF E pre k3 p2] by blast+
  have "ts_core ?Q (upd_task k3 p ?cl)"
    by (rule ts_pre_core [OF ts_pre_upd [OF k3'(1)]])
      (use k3' in \<open>auto simp: fork_class_def ts_prio_ok_def prio_defs split: if_split_asm\<close>)
  moreover have "queued_tasks (upd_task k3 p ?cl) = ?Q"
    using k3'(5) p by (auto simp: queued_tasks_def task_on_rq_queued_def sched_fork_basic_def TASK_ON_RQ_QUEUED_def
        split: if_split_asm)
  ultimately show ?thesis
    unfolding k'
    by (intro core_inv_keeps [OF _ task_fork_keeps [OF E]] core_inv_keeps [OF _ quiet_envD(2) [OF E]])
      (simp add: core_inv_def)
qed


section \<open>Priorities and policies\<close>

text \<open>
  The pattern of \<open>rt_mutex_setprio\<close>, \<open>set_user_nice\<close> and \<open>__sched_setscheduler\<close>: off the queue and
  off the processor, change, back again.
\<close>

lemma take_off_core:
  assumes E: "quiet_env E" and c: "core_inv k" and e: "take_off E k p fl = Some k2"
  shows "ts_core (queued_tasks k - {p}) k2 \<and> frame k k2"
proof -
  from e obtain k1 where d: "(if task_on_rq_queued (tsk k p) then dequeue_task E k p fl else Some k) = Some k1"
    and r: "(if task_current k p then put_prev_task E k1 p else Some k1) = Some k2"
    unfolding take_off_def Let_def bind_eq_Some_conv by blast
  have "ts_core (queued_tasks k - {p}) k1 \<and> frame k k1"
  proof (cases "task_on_rq_queued (tsk k p)")
    case False
    then have "queued_tasks k - {p} = queued_tasks k" by (auto simp: queued_tasks_def)
    with False d c show ?thesis by (simp add: core_inv_def)
  qed (use dequeue_core [OF E c [unfolded core_inv_def]] d in simp)
  moreover have "keeps k1 k2" using r put_prev_keeps [OF E] by (auto split: if_split_asm)
  ultimately show ?thesis using ts_core_keeps keeps_frame frame_trans by blast
qed

lemma enqueue_back:
  assumes E: "quiet_env E" and c: "ts_core (queued_tasks k - {p}) k2"
    and on: "\<And>q. on_rq (tsk k2 q) = on_rq (tsk k q)"
    and e: "(if task_on_rq_queued (tsk k p) then enqueue_task E k2 p fl else Some k2) = Some k3"
  shows "core_inv k3"
proof (cases "task_on_rq_queued (tsk k p)")
  case True
  then have "insert p (queued_tasks k - {p}) = queued_tasks k" by (auto simp: queued_tasks_def)
  moreover have "queued_tasks k2 = queued_tasks k" by (simp add: queued_tasks_def task_on_rq_queued_def on)
  ultimately show ?thesis
    using enqueue_core [OF E c, of p fl k3] e True core_of_frame [of k2 k3] by simp
next
  case False
  then have "queued_tasks k - {p} = queued_tasks k" by (auto simp: queued_tasks_def)
  moreover have "queued_tasks k2 = queued_tasks k" by (simp add: queued_tasks_def task_on_rq_queued_def on)
  ultimately show ?thesis using False e c by (simp add: core_inv_def)
qed

lemma put_back_core:
  assumes E: "quiet_env E" and c: "ts_core (queued_tasks k - {p}) k2"
    and on: "\<And>q. on_rq (tsk k2 q) = on_rq (tsk k q)"
    and e: "put_back E (task_on_rq_queued (tsk k p)) running k2 p fl = Some k3"
  shows "core_inv k3"
proof -
  from e obtain k4 where k4: "(if task_on_rq_queued (tsk k p) then enqueue_task E k2 p fl else Some k2) = Some k4"
    and "k3 = k4 \<or> k3 = set_curr_task E k4 p"
    unfolding put_back_def bind_eq_Some_conv by auto
  with enqueue_back [OF E c on k4] core_inv_keeps [OF _ set_curr_keeps [OF E]] show ?thesis by blast
qed

lemma setprio_class_task:
  "sched_class (snd (setprio_class k p pi pr op fl)) \<noteq> TsClass"
  "static_prio (snd (setprio_class k p pi pr op fl)) = static_prio (tsk k p)"
  "normal_prio (snd (setprio_class k p pi pr op fl)) = normal_prio (tsk k p)"
  "on_rq (snd (setprio_class k p pi pr op fl)) = on_rq (tsk k p)"
  by (simp_all add: setprio_class_def Let_def)

lemma setprio_move_core:
  assumes E: "quiet_env E" and c: "core_inv k" and e: "setprio_move E k p pi pr = Some k'"
  shows "core_inv k'"
proof -
  let ?fl = "if prio (tsk k p) = pr then DEQUEUE_SAVE OR DEQUEUE_NOCLOCK
    else DEQUEUE_SAVE OR DEQUEUE_MOVE OR DEQUEUE_NOCLOCK"
  from e obtain k1 k3 where k1: "take_off E k p ?fl = Some k1"
    and k3: "put_back E (task_on_rq_queued (tsk k p)) (task_current k p) (upd_task k1 p (\<lambda>_.
       (snd (setprio_class k1 p pi pr (prio (tsk k p)) ?fl))\<lparr>prio := pr\<rparr>)) p
       (fst (setprio_class k1 p pi pr (prio (tsk k p)) ?fl)) = Some k3"
    and k': "k' = check_class_changed E k3 p (sched_class (tsk k p)) (prio (tsk k p))"
    unfolding setprio_move_def Let_def bind_eq_Some_conv by blast
  note c1 = take_off_core [OF E c k1]
  note t = setprio_class_task [of k1 p pi pr "prio (tsk k p)" ?fl]
  have "ts_core (queued_tasks k - {p}) (upd_task k1 p (\<lambda>_. (snd (setprio_class k1 p pi pr (prio (tsk k p)) ?fl))\<lparr>prio := pr\<rparr>))"
    by (rule ts_core_change) (use c1 t ts_coreD(4,5) [OF conjunct1 [OF c1]] in auto)
  from put_back_core [OF E this _ k3] have "core_inv k3" using c1 t by (auto simp: frameD)
  then show ?thesis unfolding k' by (rule core_inv_keeps [OF _ check_class_changed_keeps [OF E]])
qed

lemma rt_mutex_setprio_core:
  assumes E: "quiet_env E" and c: "core_inv k" and e: "rt_mutex_setprio E k p pi = Some k'"
  shows "core_inv k'"
proof -
  let ?k1 = "upd_task (update_rq_clock k) p (\<lambda>t. t\<lparr>pi_top_task := pi\<rparr>)"
  have "core_inv ?k1" by (rule core_mark [OF core_inv_keeps [OF c keeps_small(1)]]) simp_all
  then show ?thesis
    using e c setprio_move_core [OF E] unfolding rt_mutex_setprio_def Let_def by (auto split: if_split_asm)
qed

lemma set_effective_prio_task:
  assumes "\<not> task_has_dl_policy t" "\<not> task_has_rt_policy t"
  shows "normal_prio (set_effective_prio t) = static_prio t" "static_prio (set_effective_prio t) = static_prio t"
    "sched_class (set_effective_prio t) = sched_class t" "on_rq (set_effective_prio t) = on_rq t"
    "prio (set_effective_prio t) = (if rt_prio (prio t) then prio t else static_prio t)"
  using assms by (simp_all add: set_effective_prio_def effective_prio_def Let_def normal_prio_of_def normal_prio_static_def)

text \<open>The state of a renice just before the task goes back to its queue.\<close>

lemma renice_mid:
  assumes E: "quiet_env E" and c: "core_inv k"
    and pol: "\<not> task_has_dl_policy (tsk k p)" "\<not> task_has_rt_policy (tsk k p)"
    and nice: "MIN_NICE \<le> nice" "nice \<le> MAX_NICE"
    and k1: "take_off E k p (DEQUEUE_SAVE OR DEQUEUE_NOCLOCK) = Some k1"
    and k2: "set_load_weight E (upd_task k1 p (\<lambda>t. t\<lparr>static_prio := NICE_TO_PRIO nice\<rparr>)) p True = Some k2"
  shows "ts_core (queued_tasks k - {p}) (upd_task k2 p set_effective_prio)"
    and "on_rq (tsk (upd_task k2 p set_effective_prio) q) = on_rq (tsk k q)"
    and "sched_class (tsk (upd_task k2 p set_effective_prio) q) = sched_class (tsk k q)"
    and "sched_class (tsk k p) = TsClass \<Longrightarrow> prio (set_effective_prio (tsk k2 p)) = NICE_TO_PRIO nice"
proof -
  let ?st = "\<lambda>t. t\<lparr>static_prio := NICE_TO_PRIO nice\<rparr>"
  note c1 = take_off_core [OF E c k1]
  note f1 = frameD [OF conjunct2 [OF c1]]
  have st: "ts_prio_ok (NICE_TO_PRIO nice)" using nice by (simp add: ts_prio_ok_def prio_defs)
  have "ts_core (queued_tasks k - {p}) (upd_task k1 p ?st)"
    by (rule ts_core_change) (use c1 st ts_coreD(3,5) [OF conjunct1 [OF c1]] in auto)
  then have c2: "ts_core (queued_tasks k - {p}) k2" by (rule ts_core_keeps [OF _ set_load_weight_keeps [OF E k2]])
  have f2: "frame (upd_task k1 p ?st) k2" by (rule keeps_frame [OF set_load_weight_keeps [OF E k2]])
  have "policy (tsk k2 p) = policy (tsk k p)" using frameD(7) [OF f2, of p] f1(7) [of p] by simp
  then have pol2: "\<not> task_has_dl_policy (tsk k2 p)" "\<not> task_has_rt_policy (tsk k2 p)"
    using pol by (simp_all add: task_has_dl_policy_def task_has_rt_policy_def)
  note eff = set_effective_prio_task [OF pol2]
  show "ts_core (queued_tasks k - {p}) (upd_task k2 p set_effective_prio)"
  proof (rule ts_core_change [OF c2])
    show "sched_class (set_effective_prio (tsk k2 p)) = TsClass \<Longrightarrow> ts_prio_ok (prio (set_effective_prio (tsk k2 p)))"
      using ts_coreD(3,4) [OF c2] by (simp add: eff)
    show "normal_prio (set_effective_prio (tsk k2 p)) \<le> 139"
      using ts_coreD(4) [OF c2, of p] by (simp add: eff ts_prio_ok_def)
  qed (use ts_coreD(4) [OF c2] in \<open>simp_all add: eff\<close>)
  show "on_rq (tsk (upd_task k2 p set_effective_prio) q) = on_rq (tsk k q)"
    "sched_class (tsk (upd_task k2 p set_effective_prio) q) = sched_class (tsk k q)"
    using frameD(4,8) [OF f2, of q] f1(4,8) [of q] eff(3,4) by (auto split: if_split_asm)
  assume "sched_class (tsk k p) = TsClass"
  then have "ts_prio_ok (prio (tsk k2 p))"
    using ts_coreD(3) [OF c2, of p] frameD(8) [OF f2, of p] f1(8) [of p] by simp
  then show "prio (set_effective_prio (tsk k2 p)) = NICE_TO_PRIO nice"
    using eff(5) frameD(5) [OF f2, of p] by (simp add: ts_prio_ok_def rt_prio_def MAX_RT_PRIO_def)
qed

lemma renice_core:
  assumes E: "quiet_env E" and c: "core_inv k" and e: "renice E k p nice = Some k'"
    and pol: "\<not> task_has_dl_policy (tsk k p)" "\<not> task_has_rt_policy (tsk k p)"
    and nice: "MIN_NICE \<le> nice" "nice \<le> MAX_NICE"
  shows "core_inv k'"
proof -
  from e obtain k1 k2 k3 where k1: "take_off E k p (DEQUEUE_SAVE OR DEQUEUE_NOCLOCK) = Some k1"
    and k2: "set_load_weight E (upd_task k1 p (\<lambda>t. t\<lparr>static_prio := NICE_TO_PRIO nice\<rparr>)) p True = Some k2"
    and k3: "k3 = upd_task k2 p set_effective_prio"
    and b: "renice_back E (task_on_rq_queued (tsk k p)) (task_current k p) (prio (tsk k3 p) - prio (tsk k2 p)) k3 p = Some k'"
    unfolding renice_def Let_def bind_eq_Some_conv by blast
  obtain k4 where "(if task_on_rq_queued (tsk k p) then enqueue_task E k3 p (ENQUEUE_RESTORE OR ENQUEUE_NOCLOCK)
      else Some k3) = Some k4" "k' \<in> {k4, resched_curr k4, set_curr_task E k4 p, set_curr_task E (resched_curr k4) p}"
    using b unfolding renice_back_def bind_eq_Some_conv by (cases "task_on_rq_queued (tsk k p)") auto
  then show ?thesis
    using enqueue_back [OF E renice_mid(1,2) [OF E c pol nice k1 k2]] core_inv_keeps [OF _ set_curr_keeps [OF E]]
      core_inv_keeps [OF _ keeps_small(2)] unfolding k3 by blast
qed

lemma set_user_nice_core:
  assumes E: "quiet_env E" and c: "core_inv k" and e: "set_user_nice E k p nice = Some k'"
  shows "core_inv k'"
proof (cases "task_nice (tsk k p) = nice \<or> nice < MIN_NICE \<or> nice > MAX_NICE")
  case False
  let ?k1 = "update_rq_clock k"
  have c1: "core_inv ?k1" by (rule core_inv_keeps [OF c keeps_small(1)])
  show ?thesis
  proof (cases "task_has_dl_policy (tsk k p) \<or> task_has_rt_policy (tsk k p)")
    case True
    with e False have k': "k' = upd_task ?k1 p (\<lambda>t. t\<lparr>static_prio := NICE_TO_PRIO nice\<rparr>)"
      by (simp add: set_user_nice_def)
    have "ts_prio_ok (NICE_TO_PRIO nice)" using False by (simp add: ts_prio_ok_def prio_defs)
    moreover have "ts_wf k' = ts_wf ?k1" unfolding k' by (rule ts_wf_cong) simp_all
    ultimately show ?thesis
      using c1 by (auto simp: k' core_inv_def ts_core_def ts_runnable_def queued_tasks_def task_on_rq_queued_def)
  next
    case pol: False
    with e False have "renice E ?k1 p nice = Some k'" by (simp add: set_user_nice_def)
    from renice_core [OF E c1 this] pol False show ?thesis by simp
  qed
qed (use e c in \<open>simp add: set_user_nice_def\<close>)

text \<open>The laws of the rest of the environment; the chain of waiters is adjusted by \<open>rt_mutex_setprio\<close>.\<close>

fun setprio_chain :: "('x, 'z) env_scheme \<Rightarrow> (pid \<times> pid option) list \<Rightarrow> 'x kern \<Rightarrow> 'x kern option" where
  "setprio_chain E [] k = Some k"
| "setprio_chain E ((p, pi) # xs) k = Option.bind (rt_mutex_setprio E k p pi) (setprio_chain E xs)"

definition quiet_penv :: "('x, 'z) penv_scheme \<Rightarrow> bool" where
  "quiet_penv E \<longleftrightarrow> quiet_env E \<and>
     (\<forall>k p pol attr. keeps k (snd (sched_dl_overflow E k p pol attr))) \<and>
     (\<forall>k p. \<exists>xs. setprio_chain E xs k = Some (rt_mutex_adjust_pi E k p))"

lemma setprio_chain_core: "quiet_env E \<Longrightarrow> core_inv k \<Longrightarrow> setprio_chain E xs k = Some k' \<Longrightarrow> core_inv k'"
  by (induction E xs k rule: setprio_chain.induct)
    (auto simp: bind_eq_Some_conv dest: rt_mutex_setprio_core)

lemma adjust_pi_core: "quiet_penv E \<Longrightarrow> core_inv k \<Longrightarrow> core_inv (rt_mutex_adjust_pi E k p)"
  unfolding quiet_penv_def by (metis setprio_chain_core)

lemma rt_normal_prio:
  assumes "x \<le> 99"
  shows "sint (word_of_int (MAX_RT_PRIO - 1) - x :: u32) = 99 - uint x"
proof -
  have u: "0 \<le> uint x" "uint x \<le> 99" using assms by (simp_all add: word_le_def)
  have "word_of_int (MAX_RT_PRIO - 1) - x = (word_of_int (99 - uint x) :: u32)"
    by (simp add: MAX_RT_PRIO_def)
  then show ?thesis using sint_u32 [of "99 - uint x"] u by (simp del: of_int_diff)
qed

lemma normal_prio_of_view: "view t = view u \<Longrightarrow> normal_prio_of t = normal_prio_of u"
  by (simp add: view_def normal_prio_of_def normal_prio_static_def task_has_dl_policy_def task_has_rt_policy_def)

lemma setscheduler_valid_priority: "setscheduler_valid E t attr = 0 \<Longrightarrow> sched_priority attr \<le> 99"
  by (auto simp: setscheduler_valid_def Let_def EINVAL_def MAX_RT_PRIO_def MAX_USER_RT_PRIO_def split: if_split_asm)

lemma set_params_task:
  fixes E :: "('x, 'z) penv_scheme"
  assumes pri: "sched_priority attr \<le> 99" and st: "ts_prio_ok (static_prio t)"
    and nice: "MIN_NICE \<le> sched_nice attr" "sched_nice attr \<le> MAX_NICE"
  shows "ts_prio_ok (static_prio (set_params E attr t))" "normal_prio (set_params E attr t) \<le> 139"
    "normal_prio_of (set_params E attr t) = normal_prio (set_params E attr t)"
    "on_rq (set_params E attr t) = on_rq t" "sched_class (set_params E attr t) = sched_class t"
proof -
  let ?t = "set_params E attr t"
  have n: "normal_prio ?t = normal_prio_of (?t\<lparr>normal_prio := 0\<rparr>)" "rt_priority ?t = sched_priority attr"
    by (simp_all add: set_params_def Let_def normal_prio_of_def normal_prio_static_def task_has_dl_policy_def
        task_has_rt_policy_def)
  then show "normal_prio_of ?t = normal_prio ?t"
    by (simp add: normal_prio_of_def normal_prio_static_def task_has_dl_policy_def task_has_rt_policy_def)
  show s: "ts_prio_ok (static_prio ?t)"
    using st nice by (simp add: set_params_def Let_def ts_prio_ok_def prio_defs)
  have "sint (word_of_int (MAX_RT_PRIO - 1) - sched_priority attr) \<le> 99"
    unfolding rt_normal_prio [OF pri] using uint_ge_0 [of "sched_priority attr"] by linarith
  then have "normal_prio_of ?t \<le> 139"
    using s n(2)
    by (simp add: normal_prio_of_def normal_prio_static_def ts_prio_ok_def MAX_DL_PRIO_def)
  then show "normal_prio ?t \<le> 139" by (simp add: \<open>normal_prio_of ?t = normal_prio ?t\<close>)
qed (simp_all add: set_params_def Let_def)

lemma rt_effective_prio_le: "rt_effective_prio k p pr \<le> pr"
  by (simp add: rt_effective_prio_def rt_effective_prio_of_def split: option.split)

lemma setscheduler_core:
  assumes E: "quiet_env E" and c: "ts_core Q k" and p: "p \<notin> Q" and e: "setscheduler E k p attr b = Some k'"
    and ok: "sched_priority attr \<le> 99" "MIN_NICE \<le> sched_nice attr" "sched_nice attr \<le> MAX_NICE"
  shows "ts_core Q k' \<and> (\<forall>q. on_rq (tsk k' q) = on_rq (tsk k q))"
proof -
  from e obtain k1 where k1: "set_load_weight E (upd_task k p (set_params E attr)) p True = Some k1"
    and k': "k' = (let pr = normal_prio_of (tsk k1 p); pr = (if b then rt_effective_prio k1 p pr else pr)
       in upd_task (upd_task k1 p (\<lambda>t. t\<lparr>prio := pr\<rparr>)) p (\<lambda>t. t\<lparr>sched_class := setscheduler_class t\<rparr>))"
    unfolding setscheduler_def setscheduler_params_def Let_def bind_eq_Some_conv by blast
  define pr where "pr = (if b then rt_effective_prio k1 p (normal_prio_of (tsk k1 p)) else normal_prio_of (tsk k1 p))"
  have k': "k' = upd_task (upd_task k1 p (\<lambda>t. t\<lparr>prio := pr\<rparr>)) p (\<lambda>t. t\<lparr>sched_class := setscheduler_class t\<rparr>)"
    unfolding k' pr_def Let_def ..
  note t = set_params_task [OF ok(1) ts_coreD(4) [OF c] ok(2,3), of E p]
  note w = set_load_weight_task [OF E k1]
  have v: "view (tsk k1 p) = view (set_params E attr (tsk k p))" using w(1) [of p] by simp
  have "normal_prio_of (tsk k1 p) \<le> 139" using normal_prio_of_view [OF v] t(2,3) by simp
  then have pr: "pr \<le> 139" using rt_effective_prio_le [of k1 p "normal_prio_of (tsk k1 p)"] by (simp add: pr_def)
  have "ts_pre p Q k1"
    by (rule ts_pre_keeps [OF _ set_load_weight_keeps [OF E k1]]) (intro ts_pre_upd ts_preI c p)
  then have "ts_pre p Q k'" unfolding k' by (intro ts_pre_upd)
  moreover have "static_prio (tsk k' p) = static_prio (set_params E attr (tsk k p))"
    "normal_prio (tsk k' p) = normal_prio (set_params E attr (tsk k p))" "prio (tsk k' p) = pr"
    "sched_class (tsk k' p) = TsClass \<longrightarrow> \<not> rt_prio pr"
    using view_eqD(3,4) [OF v] by (simp_all add: k' setscheduler_class_def)
  ultimately have "ts_core Q k'"
    using t pr by (intro ts_pre_core [of p]) (auto simp: ts_prio_ok_def rt_prio_def MAX_RT_PRIO_def)
  moreover have "on_rq (tsk k' q) = on_rq (tsk k q)" for q
    using view_eqD(2) [OF w(1), of q] t(4) by (auto simp: k' split: if_split_asm)
  ultimately show ?thesis by blast
qed

lemma setscheduler_move_core:
  assumes E: "quiet_env E" and c: "core_inv k" and e: "setscheduler_move E k p attr b = Some k'"
    and ok: "sched_priority attr \<le> 99" "MIN_NICE \<le> sched_nice attr" "sched_nice attr \<le> MAX_NICE"
  shows "core_inv k'"
proof -
  from e obtain fl1 fl2 k1 k2 k3 where k1: "take_off E k p fl1 = Some k1" and k2: "setscheduler E k1 p attr b = Some k2"
    and k3: "put_back E (task_on_rq_queued (tsk k p)) (task_current k p) k2 p fl2 = Some k3"
    and k': "k' = check_class_changed E k3 p (sched_class (tsk k1 p)) (prio (tsk k p))"
    unfolding setscheduler_move_def Let_def bind_eq_Some_conv by blast
  note c1 = take_off_core [OF E c k1]
  from setscheduler_core [OF E conjunct1 [OF c1] _ k2 ok]
  have c2: "ts_core (queued_tasks k - {p}) k2" "\<forall>q. on_rq (tsk k2 q) = on_rq (tsk k1 q)" by simp_all
  have "core_inv k3" by (rule put_back_core [OF E c2(1) _ k3]) (simp add: c2(2) frameD [OF conjunct2 [OF c1]])
  then show ?thesis unfolding k' by (rule core_inv_keeps [OF _ check_class_changed_keeps [OF E]])
qed

lemma sched_setscheduler_core:
  assumes P: "quiet_penv E" and c: "core_inv k" and e: "sched_setscheduler_main E k p attr user pi = Some (r, k')"
    and nice: "MIN_NICE \<le> sched_nice attr" "sched_nice attr \<le> MAX_NICE"
  shows "core_inv k'"
proof -
  have E: "quiet_env E" using P by (simp add: quiet_penv_def)
  let ?k1 = "update_rq_clock k"
  let ?st = "\<lambda>k. upd_task k p (\<lambda>t. t\<lparr>sched_reset_on_fork := setscheduler_reset (tsk ?k1 p) attr\<rparr>)"
  have c1: "core_inv ?k1" by (rule core_inv_keeps [OF c keeps_small(1)])
  have st: "core_inv x \<Longrightarrow> core_inv (?st x)" for x by (rule core_mark) simp_all
  let ?ov = "if dl_policy (setscheduler_policy (tsk k p) attr) \<or> dl_task (tsk ?k1 p)
      then sched_dl_overflow E ?k1 p (setscheduler_policy (tsk k p) attr) attr else (False, ?k1)"
  obtain o1 k2 where ov: "?ov = (o1, k2)" by fastforce
  have "keeps ?k1 (snd ?ov)" using P by (simp add: quiet_penv_def)
  then have c2: "core_inv k2" unfolding ov by (simp add: core_inv_keeps [OF c1])
  show ?thesis
  proof (cases "setscheduler_checks E k p attr user = 0")
    case True
    then have pri: "sched_priority attr \<le> 99"
      using setscheduler_valid_priority [of E "tsk k p" attr]
      by (auto simp: setscheduler_checks_def split: if_split_asm)
    have m: "setscheduler_move E (?st k2) p attr pi = Some k3 \<Longrightarrow> core_inv k3" for k3
      using setscheduler_move_core [OF E st [OF c2] _ pri nice] .
    consider "k' = ?k1" | "k' = ?st ?k1" | "k' = k2"
      | k3 where "setscheduler_move E (?st k2) p attr pi = Some k3" "k' = k3 \<or> k' = rt_mutex_adjust_pi E k3 p"
      using e True ov unfolding sched_setscheduler_main_def Let_def
      by (auto simp: bind_eq_Some_conv split: if_split_asm)
    then show ?thesis
      by cases (use c1 c2 st [OF c1] m adjust_pi_core [OF P] in auto)
  qed (use e c in \<open>auto simp: sched_setscheduler_main_def Let_def\<close>)
qed


section \<open>Reachable states\<close>

text \<open>
  The steps of the running system as the core sees them: its entry points, a task announcing that
  it will sleep by setting its own state, and \<open>other\<close>, everything that keeps the contract (the
  timers of the other classes, interrupts, accounting).
\<close>

inductive core_step :: "('x, 'z) penv_scheme \<Rightarrow> 'x kern \<Rightarrow> 'x kern \<Rightarrow> bool" for E where
  wake: "try_to_wake_up E k p st wfl = Some (b, k') \<Longrightarrow> core_step E k k'"
| wake_new: "wake_up_new_task E k p = Some k' \<Longrightarrow> core_step E k k'"
| fork: "\<not> task_on_rq_queued (tsk k p) \<Longrightarrow> sched_fork E k p = Some (0, k') \<Longrightarrow> core_step E k k'"
| tick: "scheduler_tick E k = Some k' \<Longrightarrow> core_step E k k'"
| schedule: "schedule_main E preempt k = Some k' \<Longrightarrow> core_step E k k'"
| yield: "do_sched_yield E k = Some k' \<Longrightarrow> core_step E k k'"
| dead: "do_task_dead E k = Some k' \<Longrightarrow> core_step E k k'"
| announce: "core_step E k (upd_task k (curr k) (\<lambda>t. t\<lparr>state := st\<rparr>))"
| nice: "set_user_nice E k p nice = Some k' \<Longrightarrow> core_step E k k'"
| boost: "rt_mutex_setprio E k p pi = Some k' \<Longrightarrow> core_step E k k'"
| policy: "MIN_NICE \<le> sched_nice attr \<Longrightarrow> sched_nice attr \<le> MAX_NICE \<Longrightarrow>
    sched_setscheduler_main E k p attr user boost = Some (r, k') \<Longrightarrow> core_step E k k'"
| other: "keeps k k' \<Longrightarrow> core_step E k k'"

text \<open>The memory before \<open>sched_init\<close>: arrays of the declared size and no task of the class.\<close>

definition boot_image :: "'x kern \<Rightarrow> bool" where
  "boot_image k \<longleftrightarrow> length (ts_queue k) = 40 \<and> (\<forall>q. sched_class (tsk k q) \<noteq> TsClass \<and>
     ts_prio_ok (static_prio (tsk k q)) \<and> normal_prio (tsk k q) \<le> 139)"

inductive core_reach :: "('x, 'z) penv_scheme \<Rightarrow> 'x kern \<Rightarrow> bool" for E where
  boot: "boot_image k \<Longrightarrow> sched_init E k p = Some k' \<Longrightarrow> core_reach E k'"
| step: "core_reach E k \<Longrightarrow> core_step E k k' \<Longrightarrow> core_reach E k'"

lemma core_step_inv:
  assumes P: "quiet_penv E" and "core_step E k k'" and c: "core_inv k"
  shows "core_inv k'"
proof -
  have E: "quiet_env E" using P by (simp add: quiet_penv_def)
  from assms(2) show ?thesis
  proof cases
    case wake then show ?thesis by (rule try_to_wake_up_core [OF E c])
  next
    case wake_new then show ?thesis by (rule wake_up_new_task_core [OF E c])
  next
    case fork then show ?thesis by (rule sched_fork_core [OF E c])
  next
    case tick then show ?thesis by (rule scheduler_tick_core [OF E c])
  next
    case schedule then show ?thesis by (rule schedule_main_core [OF E c])
  next
    case yield then show ?thesis by (rule do_sched_yield_core [OF E c])
  next
    case dead then show ?thesis by (rule do_task_dead_core [OF E c])
  next
    case announce show ?thesis unfolding announce by (rule core_state [OF c])
  next
    case nice then show ?thesis by (rule set_user_nice_core [OF E c])
  next
    case boost then show ?thesis by (rule rt_mutex_setprio_core [OF E c])
  next
    case policy from sched_setscheduler_core [OF P c policy(3,1,2)] show ?thesis .
  next
    case other then show ?thesis by (rule core_inv_keeps [OF c])
  qed
qed

text \<open>No task of the class exists; \<open>sched_init\<close> keeps that and empties the queues.\<close>

definition no_ts_task :: "'x kern \<Rightarrow> bool" where
  "no_ts_task k \<longleftrightarrow> (\<forall>q. sched_class (tsk k q) \<noteq> TsClass \<and> ts_prio_ok (static_prio (tsk k q)) \<and>
     normal_prio (tsk k q) \<le> 139)"

lemma no_ts_keeps: "no_ts_task k \<Longrightarrow> keeps k k' \<Longrightarrow> no_ts_task k'"
  by (simp add: no_ts_task_def frameD [OF keeps_frame])

lemma no_ts_inv: "no_ts_task k \<Longrightarrow> ts_queue k = replicate 40 [] \<Longrightarrow> core_inv k"
  by (auto simp: core_inv_def ts_core_def no_ts_task_def ts_wf_empty ts_runnable_def linked_def)

lemma no_ts_fields: "no_ts_task (k\<lparr>rq_rt := a\<rparr>) = no_ts_task k" "no_ts_task (k\<lparr>rq_ts := b\<rparr>) = no_ts_task k"
  "no_ts_task (k\<lparr>nr_iowait := c\<rparr>) = no_ts_task k" "no_ts_task (k\<lparr>nr_running := d\<rparr>) = no_ts_task k"
  "no_ts_task (k\<lparr>def_rt_bandwidth := e\<rparr>) = no_ts_task k"
  by (simp_all add: no_ts_task_def)

lemma init_idle_no_ts:
  "no_ts_task k \<Longrightarrow> no_ts_task (init_idle E k p)" "rq_ts (init_idle E k p) = rq_ts k"
  by (auto simp: no_ts_task_def init_idle_def sched_fork_basic_def Let_def)

lemma sched_init_inv:
  assumes E: "quiet_env E" and b: "boot_image k" and e: "sched_init E k p = Some k'"
  shows "core_inv k'"
proof -
  define k1 where "k1 = init_dl_bandwidth E (global_rt_period k) (global_rt_runtime k) (k\<lparr>def_rt_bandwidth :=
       init_rt_bandwidth (global_rt_period k) (global_rt_runtime k) (def_rt_bandwidth k)\<rparr>)"
  define k2 where "k2 = init_cfs_rq E (k1\<lparr>nr_running := 0\<rparr>)"
  define k3 where "k3 = init_dl_rq E (k2\<lparr>rq_rt := init_rt_rq (rq_rt k2)\<rparr>)"
  define k4 where "k4 = (let k = k3\<lparr>rq_ts := init_ts_rq (rq_ts k3)\<rparr>;
      k = upd_rt k (\<lambda>r. r\<lparr>rt_runtime := bw_rt_runtime (def_rt_bandwidth k)\<rparr>) in k\<lparr>nr_iowait := 0\<rparr>)"
  have "global_rt_period (k\<lparr>def_rt_bandwidth := x\<rparr>) = global_rt_period k"
    "global_rt_runtime (k\<lparr>def_rt_bandwidth := x\<rparr>) = global_rt_runtime k" for x
    by (simp_all add: global_rt_period_def global_rt_runtime_def)
  then obtain k5 where k5: "set_load_weight E k4 p False = Some k5" and k': "k' = init_idle E k5 p"
    using e unfolding sched_init_def Let_def bind_eq_Some_conv k4_def k3_def k2_def k1_def by auto
  have k0: "no_ts_task k" "length (ts_queue k) = 40" using b by (auto simp: boot_image_def no_ts_task_def)
  have 1: "no_ts_task k1" "rq_ts k1 = rq_ts k"
    using quiet_envD(7) [OF E] no_ts_keeps [OF _ quiet_envD(7) [OF E]] k0(1)
    by (simp_all add: k1_def no_ts_fields keeps_def)
  have 2: "no_ts_task k2" "rq_ts k2 = rq_ts k"
    using quiet_envD(8) [OF E] no_ts_keeps [OF _ quiet_envD(8) [OF E]] 1
    by (simp_all add: k2_def no_ts_fields keeps_def)
  have 3: "no_ts_task k3" "rq_ts k3 = rq_ts k"
    using quiet_envD(9) [OF E] no_ts_keeps [OF _ quiet_envD(9) [OF E]] 2
    by (simp_all add: k3_def no_ts_fields keeps_def)
  have 4: "no_ts_task k4" "ts_queue k4 = replicate 40 []"
    using 3 k0(2) by (simp_all add: k4_def Let_def no_ts_fields init_ts_rq_empty)
  have 5: "no_ts_task k5" "ts_queue k5 = replicate 40 []"
    using set_load_weight_keeps [OF E k5] no_ts_keeps [OF 4(1)] 4(2) by (simp_all add: keeps_def)
  show ?thesis unfolding k' by (rule no_ts_inv) (simp_all add: init_idle_no_ts 5)
qed

lemma core_reach_inv:
  assumes P: "quiet_penv E" and "core_reach E k"
  shows "core_inv k"
  using assms(2)
proof induction
  case (boot k p k')
  then show ?case using P sched_init_inv by (auto simp: quiet_penv_def)
qed (rule core_step_inv [OF P])

end
