(* ===== verification/Core_Props.thy ===== *)
theory Core_Props
  imports Core_Inv
begin

text \<open>
  Properties of the scheduler core and of its composition with the classes: the invariant of the
  reachable states, what a wakeup and the choice of the next task do, and what a change of priority
  or policy can and cannot do.
\<close>


section \<open>A small environment\<close>

text \<open>
  For the examples: classes without tasks, an idle class that offers the idle task, and a system
  without limits or security modules.
\<close>

definition empty_class :: "'x class_ops" where
  "empty_class = \<lparr>cop_enqueue_task = (\<lambda>k p f. Some k), cop_dequeue_task = (\<lambda>k p f. Some k),
     cop_yield_task = Some, cop_yield_to_task = None, cop_check_preempt_curr = (\<lambda>k p f. k),
     cop_pick_next_task = (\<lambda>put k prev. Some (NoTask, k)), cop_put_prev_task = (\<lambda>k p. Some k),
     cop_set_curr_task = (\<lambda>k. k), cop_task_tick = (\<lambda>k p b. Some k), cop_task_fork = None,
     cop_task_dead = None, cop_switched_from = None, cop_switched_to = (\<lambda>k p. k),
     cop_prio_changed = (\<lambda>k p x. k), cop_get_rr_interval = None, cop_update_curr = Some\<rparr>"

definition idle_class :: "'x class_ops" where
  "idle_class = empty_class\<lparr>cop_pick_next_task :=
     (\<lambda>put k prev. map_option (Pair (Task (idle k))) (put k prev))\<rparr>"

definition demo_env :: "unit penv" where
  "demo_env = \<lparr>stop_sched_class = empty_class, dl_sched_class = empty_class, fair_sched_class = empty_class,
     idle_sched_class = idle_class, rttime_limits = (\<lambda>_. \<lparr>rl_soft = RLIM_INFINITY, rl_hard = RLIM_INFINITY, rl_HZ = 250\<rparr>),
     init_dl_bandwidth = (\<lambda>a b k. k), init_cfs_rq = (\<lambda>k. k), init_dl_rq = (\<lambda>k. k),
     reweight_task = (\<lambda>k p x. k), dl_clear_params = (\<lambda>d. d), init_entity_runnable_average = (\<lambda>k p. k),
     post_init_entity_util_avg = (\<lambda>k p. k), cpu_load_update_active = (\<lambda>k. k), calc_global_load_tick = (\<lambda>k. k),
     wq_worker_waking_up = (\<lambda>k p. k), wq_worker_sleeping = (\<lambda>k p. (None, k)), signal_pending_state = (\<lambda>s p. False),
     capable_sys_nice = False, rlimit_nice = (\<lambda>_. 20), rlimit_rtprio = (\<lambda>_. 0), security_task_setscheduler = (\<lambda>_. 0),
     security_task_getscheduler = (\<lambda>_. 0), security_task_setnice = (\<lambda>_ _. 0), checkparam_dl = (\<lambda>_. True),
     setparam_dl = (\<lambda>_ d. d), getparam_dl = (\<lambda>_ a. a), dl_param_changed = (\<lambda>_ _. False),
     sched_dl_overflow = (\<lambda>k p pol a. (False, k)), rt_mutex_adjust_pi = (\<lambda>k p. k),
     find_task_by_vpid = (\<lambda>n. Some (nat n)), jiffies_to_ns = (\<lambda>j. ucast j * 4000000)\<rparr>"

lemma empty_class_quiet: "quiet_class empty_class"
  by unfold_locales (simp_all add: empty_class_def)

lemma idle_class_quiet: "quiet_class idle_class"
  by unfold_locales (auto simp: idle_class_def empty_class_def)

lemma demo_env_quiet: "quiet_penv demo_env"
proof -
  have "\<exists>xs. setprio_chain demo_env xs k = Some k" for k :: "unit kern"
    by (rule exI [of _ "[]"]) simp
  then show ?thesis
    unfolding quiet_penv_def quiet_env_def
    by (simp add: demo_env_def empty_class_quiet idle_class_quiet)
qed

text \<open>The boot image, and the boot task 0.\<close>

definition boot_kern :: "unit kern" where
  "boot_kern = upd_task (upd_task blank_kern 5 (\<lambda>t. t\<lparr>state := TASK_INTERRUPTIBLE\<rparr>)) 7 (\<lambda>t. t\<lparr>state := TASK_INTERRUPTIBLE\<rparr>)"

definition ts_attr :: sched_attr where
  "ts_attr = blank_attr\<lparr>sched_policy := SCHED_TS\<rparr>"

text \<open>The system boots and the sleeping task 5 becomes a time-sharing task; then it is woken.\<close>

definition demo_ready :: "(unit kern) option" where
  "demo_ready = do {
     k \<leftarrow> sched_init demo_env boot_kern 0;
     (r, k) \<leftarrow> sched_setscheduler_main demo_env k 5 ts_attr False False;
     Some k
   }"

definition demo_run :: "(unit kern) option" where
  "demo_run = Option.bind demo_ready (\<lambda>k. map_option snd (try_to_wake_up demo_env k 5 TASK_NORMAL 0))"

lemma demo_ready_reach:
  "\<exists>k. demo_ready = Some k \<and> core_reach demo_env k \<and> on_rq (tsk k 5) = 0 \<and> sched_class (tsk k 5) = TsClass \<and>
     prio (tsk k 5) = 120 \<and> curr k = 0 \<and> tflags (tsk k 5) = 0 \<and> state (tsk k 5) = 1 \<and> idle k = 0 \<and>
     sched_class (tsk k 0) = IdleClass \<and> state (tsk k 0) = 0 \<and> nr_running k = 0 \<and> h_nr_running k = 0"
proof -
  have "map_option (\<lambda>k. (on_rq (tsk k 5), sched_class (tsk k 5), prio (tsk k 5), curr k, tflags (tsk k 5),
      state (tsk k 5), idle k, sched_class (tsk k 0), state (tsk k 0), nr_running k, h_nr_running k)) demo_ready =
    Some (0, TsClass, 120, 0, 0, 1, 0, IdleClass, 0, 0, 0)" by code_simp
  then obtain k where k: "demo_ready = Some k" and f: "on_rq (tsk k 5) = 0" "sched_class (tsk k 5) = TsClass"
    "prio (tsk k 5) = 120" "curr k = 0" "tflags (tsk k 5) = 0" "state (tsk k 5) = 1" "idle k = 0"
    "sched_class (tsk k 0) = IdleClass" "state (tsk k 0) = 0" "nr_running k = 0" "h_nr_running k = 0" by auto
  from k obtain k1 r where s: "sched_init demo_env boot_kern 0 = Some k1"
    "sched_setscheduler_main demo_env k1 5 ts_attr False False = Some (r, k)"
    unfolding demo_ready_def bind_eq_Some_conv split_paired_Ex split_conv by blast
  have "boot_image boot_kern"
    by (simp add: boot_image_def boot_kern_def blank_kern_def blank_task_def ts_prio_ok_def)
  then have "core_reach demo_env k1" using s(1) by (rule core_reach.boot)
  then have "core_reach demo_env k"
    by (rule core_reach.step) (rule core_step.policy [OF _ _ s(2)], simp_all add: ts_attr_def blank_attr_def prio_defs)
  with k f show ?thesis by blast
qed

lemma demo_run_reach:
  "\<exists>k. demo_run = Some k \<and> core_reach demo_env k \<and> ts_queue k ! 31 = [5] \<and> on_rq (tsk k 5) = 1 \<and>
     sched_class (tsk k 5) = TsClass \<and> prio (tsk k 5) = 108 \<and> curr k = 0 \<and> tflags (tsk k 5) = 0"
proof -
  have "map_option (\<lambda>k. (ts_queue k ! 31, on_rq (tsk k 5), sched_class (tsk k 5), prio (tsk k 5), curr k, tflags (tsk k 5))) demo_run =
    Some ([5], 1, TsClass, 108, 0, 0)" by code_simp
  then obtain k where k: "demo_run = Some k" "ts_queue k ! 31 = [5]" "on_rq (tsk k 5) = 1" "sched_class (tsk k 5) = TsClass"
    "prio (tsk k 5) = 108" "curr k = 0" "tflags (tsk k 5) = 0" by auto
  from demo_ready_reach obtain k1 where k1: "demo_ready = Some k1" "core_reach demo_env k1" by blast
  have "map_option snd (try_to_wake_up demo_env k1 5 TASK_NORMAL 0) = Some k"
    using k(1) unfolding demo_run_def k1(1) by simp
  then obtain b where "try_to_wake_up demo_env k1 5 TASK_NORMAL 0 = Some (b, k)" by auto
  from core_reach.step [OF k1(2) core_step.wake [OF this]] k show ?thesis by blast
qed


section \<open>The invariant of the reachable states\<close>

text \<open>
  C1. In every state that the system reaches from \<open>sched_init\<close> by the entry points of the core, no
  task is linked twice on the queues of the time-sharing class, every task of the class has a
  priority of its range, and a task is on queue \<open>i\<close> exactly when the core marks it as queued, its
  class is the time-sharing class and \<open>i\<close> is the queue of its priority. The hypothesis is the
  contract of the code outside the sources.
\<close>

theorem core_reachable_invariant:
  assumes "quiet_penv E" and "core_reach E k"
  shows "distinct (concat (ts_queue k)) \<and>
    (\<forall>p. sched_class (tsk k p) = TsClass \<longrightarrow> 100 \<le> prio (tsk k p) \<and> prio (tsk k p) \<le> 139) \<and>
    (\<forall>p. \<forall>i < 40. p \<in> set (ts_queue k ! i) \<longleftrightarrow> task_on_rq_queued (tsk k p) \<and>
       sched_class (tsk k p) = TsClass \<and> i = nat (prioQueue (prio (tsk k p))))"
proof -
  have c: "ts_core (queued_tasks k) k" using core_reach_inv [OF assms] by (simp add: core_inv_def)
  note wf = ts_coreD(1) [OF c]
  have "p \<in> set (ts_queue k ! i) \<longleftrightarrow> linked p (ts_queue k) \<and> i = ts_level k p" if "i < 40" for p i
    using ts_wfD(1,2,5) [OF wf] that by (auto simp: levelled_def linked_nth)
  then show ?thesis
    using ts_wfD(3) [OF wf] ts_coreD(3) [OF c] ts_coreD(6) [OF c]
    by (auto simp: ts_prio_ok_def queued_tasks_def ts_level_def)
qed

theorem core_reachable_invariant_witness:
  "\<exists>k. core_reach demo_env k \<and> 5 \<in> set (ts_queue k ! 31) \<and> distinct (concat (ts_queue k))"
proof -
  obtain k where k: "core_reach demo_env k" "ts_queue k ! 31 = [5]" using demo_run_reach by blast
  with core_reachable_invariant [OF demo_env_quiet k(1)] show ?thesis by (intro exI [of _ k]) simp
qed


section \<open>No operation on a time-sharing task fails\<close>

lemma enqueue_some:
  assumes "ts_core Q k" "p \<notin> Q" "sched_class (tsk k p) = TsClass"
  shows "\<exists>k'. enqueue_task E k p fl = Some k'"
proof -
  have "\<exists>k'. enqueue_task_ts k1 p fl = Some k'" if "keeps k k1" for k1
    using enqueue_task_ts_ok [of k1 p fl] ts_coreD(1,3,6) [OF ts_core_keeps [OF assms(1) that]] assms(2,3)
    by (auto simp: frameD [OF keeps_frame [OF that]])
  then show ?thesis using assms(3) keeps_small(1) by (auto simp: enqueue_task_def ts_sched_class_def Let_def)
qed

lemma dequeue_some:
  assumes "ts_core Q k" "p \<in> Q" "sched_class (tsk k p) = TsClass"
  shows "\<exists>k'. dequeue_task E k p fl = Some k'"
proof -
  have "\<exists>k'. dequeue_task_ts k1 p fl = Some k'" if "keeps k k1" for k1
    using dequeue_task_ts_ok [of k1 p fl] ts_coreD(1,6) [OF ts_core_keeps [OF assms(1) that]] assms(2,3)
    by (auto simp: frameD [OF keeps_frame [OF that]])
  then show ?thesis using assms(3) keeps_small(1) by (auto simp: dequeue_task_def ts_sched_class_def Let_def)
qed

lemma ts_core_counter: "ts_core Q k \<Longrightarrow> ts_core Q (k\<lparr>nr_uninterruptible := n\<rparr>)"
  by (erule ts_core_keeps) (rule keeps_counters)

lemma ttwu_queue_some:
  assumes c: "core_inv k" and p: "\<not> task_on_rq_queued (tsk k p)" "sched_class (tsk k p) = TsClass"
  shows "\<exists>k'. ttwu_queue E k p wfl = Some k'"
proof -
  have c1: "ts_core (queued_tasks k) (update_rq_clock k)"
    using c ts_core_keeps [OF _ keeps_small(1)] by (simp add: core_inv_def)
  have "\<exists>k'. activate_task E (update_rq_clock k) p fl = Some k'" for fl
    using enqueue_some [OF c1, where E = E] enqueue_some [OF ts_core_counter [OF c1], where E = E] p
    by (simp add: activate_task_def Let_def queued_tasks_def)
  then obtain k1 where "activate_task E (update_rq_clock k) p (ENQUEUE_WAKEUP OR ENQUEUE_NOCLOCK) = Some k1" by blast
  then show ?thesis by (simp add: ttwu_queue_def ttwu_do_activate_def ttwu_activate_def Let_def)
qed

lemma take_off_some:
  assumes c: "core_inv k" and p: "sched_class (tsk k p) = TsClass" and E: "quiet_env E"
  shows "\<exists>k'. take_off E k p fl = Some k'"
proof -
  obtain k1 where k1: "(if task_on_rq_queued (tsk k p) then dequeue_task E k p fl else Some k) = Some k1"
    using dequeue_some [OF c [unfolded core_inv_def] _ p, where E = E and fl = fl]
    by (cases "task_on_rq_queued (tsk k p)") (auto simp: queued_tasks_def)
  have "frame k k1" using k1 dequeue_core [OF E c [unfolded core_inv_def]] by (auto split: if_split_asm)
  then have "sched_class (tsk k1 p) = TsClass" using p by (simp add: frameD)
  then have "put_prev_task E k1 p = Some k1"
    by (simp add: put_prev_task_def ts_sched_class_def put_prev_task_ts_def)
  with k1 show ?thesis unfolding take_off_def Let_def by simp
qed

lemma set_load_weight_some:
  assumes "sched_class (tsk k p) = TsClass" "ts_prio_ok (static_prio (tsk k p))"
  shows "\<exists>k'. set_load_weight E k p b = Some k'"
proof -
  have "length sched_prio_to_weight = 40" by (simp add: sched_prio_to_weight_def)
  then have "in_range (static_prio (tsk k p) - MAX_RT_PRIO) sched_prio_to_weight"
    using assms(2) by (auto simp: in_range_def ts_prio_ok_def MAX_RT_PRIO_def)
  then show ?thesis using assms(1) by (simp add: set_load_weight_def Let_def)
qed

lemma set_user_nice_some:
  assumes E: "quiet_env E" and c: "core_inv k" and p: "sched_class (tsk k p) = TsClass"
  shows "\<exists>k'. set_user_nice E k p nice = Some k'"
proof -
  let ?k = "update_rq_clock k"
  have c': "core_inv ?k" by (rule core_inv_keeps [OF c keeps_small(1)])
  have "\<exists>k'. renice E ?k p nice = Some k'" if pol: "\<not> task_has_dl_policy (tsk ?k p)" "\<not> task_has_rt_policy (tsk ?k p)"
    and nice: "MIN_NICE \<le> nice" "nice \<le> MAX_NICE"
  proof -
    let ?st = "\<lambda>t. t\<lparr>static_prio := NICE_TO_PRIO nice\<rparr>"
    obtain k1 where k1: "take_off E ?k p (DEQUEUE_SAVE OR DEQUEUE_NOCLOCK) = Some k1"
      using take_off_some [OF c' _ E] p by auto
    have "sched_class (tsk k1 p) = TsClass"
      using frameD(8) [OF conjunct2 [OF take_off_core [OF E c' k1]], of p] p by simp
    then obtain k2 where k2: "set_load_weight E (upd_task k1 p ?st) p True = Some k2"
      using set_load_weight_some [of "upd_task k1 p ?st" p E True] nice by (auto simp: ts_prio_ok_def prio_defs)
    note m = renice_mid [OF E c' pol nice k1 k2]
    have "\<exists>k'. renice_back E b r d (upd_task k2 p set_effective_prio) p = Some k'" for b r d
      using enqueue_some [OF m(1), of p E "ENQUEUE_RESTORE OR ENQUEUE_NOCLOCK"] m(3) [of p] p
      by (auto simp: renice_back_def simp del: fun_upd_apply)
    then show ?thesis using k1 k2 by (simp add: renice_def Let_def del: fun_upd_apply)
  qed
  then show ?thesis by (auto simp: set_user_nice_def Let_def)
qed

lemma sleep_task_some:
  assumes c: "core_inv k" and p: "sched_class (tsk k p) = TsClass" "task_on_rq_queued (tsk k p)"
    and w: "tflags (tsk k p) AND PF_WQ_WORKER = 0"
  shows "\<exists>k'. sleep_task E k p = Some k'"
proof -
  let ?fl = "DEQUEUE_SLEEP OR DEQUEUE_NOCLOCK"
  note c' = c [unfolded core_inv_def]
  obtain k1 where k1: "deactivate_task E k p ?fl = Some k1"
    using dequeue_some [OF c', of p E ?fl] dequeue_some [OF ts_core_counter [OF c'], of p _ E ?fl] p
    by (cases "task_contributes_to_load (tsk k p)") (auto simp: deactivate_task_def Let_def queued_tasks_def)
  have "tsk k1 = tsk k"
    using k1 p by (auto simp: deactivate_task_def dequeue_task_def Let_def ts_sched_class_def
        dest!: dequeue_task_ts_tsk split: if_split_asm)
  with k1 w show ?thesis by (simp add: sleep_task_def worker_asleep_def Let_def)
qed

lemma scheduler_tick_some:
  assumes c: "core_inv k" and p: "sched_class (tsk k (curr k)) = TsClass" "task_on_rq_queued (tsk k (curr k))"
  shows "\<exists>k'. scheduler_tick E k = Some k'"
proof -
  have c': "ts_core (queued_tasks k) (update_rq_clock k)"
    using ts_core_keeps [OF _ keeps_small(1)] c by (simp add: core_inv_def)
  obtain k1 where "task_tick_ts (update_rq_clock k) (curr k) False = Some k1"
    using task_tick_ts_ok [OF ts_coreD(1) [OF c'], of "curr k" False] ts_coreD(6) [OF c', of "curr k"] p
    by (auto simp: queued_tasks_def)
  then show ?thesis using p by (simp add: scheduler_tick_def ts_sched_class_def)
qed




section \<open>Waking a time-sharing task\<close>

lemma wake_flags [simp]:
  "(ENQUEUE_WAKEUP OR ENQUEUE_NOCLOCK) AND ENQUEUE_NOCLOCK \<noteq> 0"
  "enqueue_prio (ENQUEUE_WAKEUP OR ENQUEUE_NOCLOCK) pr = wakeup_prio pr"
  by (simp_all add: flag_defs enqueue_prio_def)

text \<open>The state after the task is on its queue.\<close>

definition ts_woken_to :: "'x kern \<Rightarrow> pid \<Rightarrow> 'x kern \<Rightarrow> bool" where
  "ts_woken_to k p k' \<longleftrightarrow> (let pr = wakeup_prio (prio (tsk k p)); n = nat (prioQueue pr)
     in ts_queue k' = (ts_queue k)[n := ts_queue k ! n @ [p]] \<and> curr k' = curr k \<and> idle k' = idle k \<and>
        nr_running k' = nr_running k \<and> h_nr_running k' = h_nr_running k \<and>
        tsk k' = (tsk k)(p := (tsk k p)\<lparr>prio := pr, on_rq := TASK_ON_RQ_QUEUED\<rparr>))"

lemma ttwu_activate_ts:
  assumes c: "core_inv k" and p: "\<not> task_on_rq_queued (tsk k p)" "sched_class (tsk k p) = TsClass"
    and w: "tflags (tsk k p) AND PF_WQ_WORKER = 0"
  obtains k1 where "ttwu_activate E (update_rq_clock (end_iowait k p)) p (ENQUEUE_WAKEUP OR ENQUEUE_NOCLOCK) = Some k1"
    "ts_woken_to k p k1"
proof -
  define k0 where "k0 = (let k = update_rq_clock (end_iowait k p)
     in if task_contributes_to_load (tsk k p) then k\<lparr>nr_uninterruptible := nr_uninterruptible k - 1\<rparr> else k)"
  have k0: "tsk k0 = tsk k" "ts_queue k0 = ts_queue k" "curr k0 = curr k" "idle k0 = idle k" "nr_running k0 = nr_running k"
    "h_nr_running k0 = h_nr_running k"
    by (simp_all add: k0_def Let_def end_iowait_def)
  note cc = c [unfolded core_inv_def]
  have wf: "ts_wf k0" using ts_wf_cong [of k0 k] ts_coreD(1) [OF cc] k0 by simp
  have nl: "\<not> linked p (ts_queue k0)" using ts_coreD(6) [OF cc, of p] p by (simp add: k0 queued_tasks_def)
  have ok: "ts_prio_ok (prio (tsk k0 p))" using ts_coreD(3) [OF cc p(2)] by (simp add: k0)
  let ?pr = "wakeup_prio (prio (tsk k p))"
  let ?k1 = "set_ts_queue (upd_task k0 p (\<lambda>t. t\<lparr>prio := ?pr\<rparr>))
     ((ts_queue k0)[nat (prioQueue ?pr) := ts_queue k0 ! nat (prioQueue ?pr) @ [p]])"
  have e: "enqueue_task_ts k0 p (ENQUEUE_WAKEUP OR ENQUEUE_NOCLOCK) = Some ?k1"
    unfolding enqueue_task_ts_eq [OF wf nl ok] wake_flags k0(1) ..
  have a: "activate_task E (update_rq_clock (end_iowait k p)) p (ENQUEUE_WAKEUP OR ENQUEUE_NOCLOCK) =
      enqueue_task E k0 p (ENQUEUE_WAKEUP OR ENQUEUE_NOCLOCK)"
    unfolding activate_task_def k0_def Let_def ..
  have "enqueue_task E k0 p (ENQUEUE_WAKEUP OR ENQUEUE_NOCLOCK) = Some ?k1"
    using p(2) e by (simp add: enqueue_task_def ts_sched_class_def k0 Let_def)
  with a w k0 show ?thesis
    by (intro that [of "upd_task ?k1 p (\<lambda>t. t\<lparr>on_rq := TASK_ON_RQ_QUEUED\<rparr>)"])
      (simp_all add: ttwu_activate_def ts_woken_to_def Let_def)
qed

lemma class_preempts_ts: "class_preempts for_each_class cc TsClass \<longleftrightarrow> cc \<notin> {DlClass, RtClass, TsClass}"
  by (cases cc) (simp_all add: for_each_class_def)

lemma check_preempt_ts:
  assumes "sched_class (tsk k p) = TsClass"
  shows "need_resched (tsk (check_preempt_curr E k p fl) (curr k)) \<longleftrightarrow> need_resched (tsk k (curr k)) \<or>
      sched_class (tsk k (curr k)) \<notin> {DlClass, RtClass, TsClass} \<or>
      sched_class (tsk k (curr k)) = TsClass \<and> prio (tsk k p) < prio (tsk k (curr k))"
    and "rq_ts (check_preempt_curr E k p fl) = rq_ts k" "curr (check_preempt_curr E k p fl) = curr k"
    and "idle (check_preempt_curr E k p fl) = idle k" "nr_running (check_preempt_curr E k p fl) = nr_running k"
    and "h_nr_running (check_preempt_curr E k p fl) = h_nr_running k"
    and "prio (tsk (check_preempt_curr E k p fl) q) = prio (tsk k q)"
    and "on_rq (tsk (check_preempt_curr E k p fl) q) = on_rq (tsk k q)"
    and "state (tsk (check_preempt_curr E k p fl) q) = state (tsk k q)"
    and "sched_class (tsk (check_preempt_curr E k p fl) q) = sched_class (tsk k q)"
  using assms
  by (auto simp: check_preempt_curr_def Let_def ts_sched_class_def check_preempt_curr_ts_def class_preempts_ts
      rq_clock_skip_update_def resched_curr_task)

text \<open>
  C3. Waking a sleeping time-sharing task: the call reports a wakeup, the task runs in state
  \<open>TASK_RUNNING\<close>, is marked as queued, gets the priority of the wakeup bonus and stands last on the
  queue of that priority; the running task is asked to reschedule exactly when it belongs to a lower
  class or to the same class with a worse priority than the bonus gives.
\<close>

theorem try_to_wake_up_ts:
  assumes "quiet_penv E" and "core_reach E k"
    and "sched_class (tsk k p) = TsClass" and "on_rq (tsk k p) = 0" and "curr k \<noteq> p"
    and "state (tsk k p) AND st \<noteq> 0" and "tflags (tsk k p) AND PF_WQ_WORKER = 0"
  defines "pr \<equiv> wakeup_prio (prio (tsk k p))"
  shows "\<exists>k'. try_to_wake_up E k p st wfl = Some (True, k') \<and>
    state (tsk k' p) = TASK_RUNNING \<and> task_on_rq_queued (tsk k' p) \<and> prio (tsk k' p) = pr \<and>
    ts_queue k' = (ts_queue k)[nat (prioQueue pr) := ts_queue k ! nat (prioQueue pr) @ [p]] \<and>
    (need_resched (tsk k' (curr k)) \<longleftrightarrow> need_resched (tsk k (curr k)) \<or>
       sched_class (tsk k (curr k)) \<notin> {DlClass, RtClass, TsClass} \<or>
       sched_class (tsk k (curr k)) = TsClass \<and> pr < prio (tsk k (curr k)))"
proof -
  have c: "core_inv k" by (rule core_reach_inv [OF assms(1,2)])
  have nq: "\<not> task_on_rq_queued (tsk k p)" using assms(4) by (simp add: task_on_rq_queued_def TASK_ON_RQ_QUEUED_def)
  obtain k1 where k1: "ttwu_activate E (update_rq_clock (end_iowait k p)) p (ENQUEUE_WAKEUP OR ENQUEUE_NOCLOCK) = Some k1"
    "ts_woken_to k p k1" using ttwu_activate_ts [OF c nq assms(3,7)] by blast
  let ?k' = "ttwu_do_wakeup E k1 p wfl"
  have e: "try_to_wake_up E k p st wfl = Some (True, ?k')"
    using assms(4,6) k1(1) by (simp add: try_to_wake_up_def ttwu_queue_def ttwu_do_activate_def)
  have w: "tsk k1 = (tsk k)(p := (tsk k p)\<lparr>prio := pr, on_rq := TASK_ON_RQ_QUEUED\<rparr>)" "curr k1 = curr k"
    "ts_queue k1 = (ts_queue k)[nat (prioQueue pr) := ts_queue k ! nat (prioQueue pr) @ [p]]"
    using k1(2) by (simp_all add: ts_woken_to_def Let_def pr_def)
  have cl: "sched_class (tsk k1 p) = TsClass" using assms(3) by (simp add: w)
  note ch = check_preempt_ts [OF cl, of E wfl]
  show ?thesis
    by (intro exI [of _ ?k'] conjI e)
      (use assms(5) ch(1) w in \<open>auto simp: ttwu_do_wakeup_def Let_def ch task_on_rq_queued_def\<close>)
qed

theorem try_to_wake_up_ts_witness:
  "\<exists>k k'. core_reach demo_env k \<and> try_to_wake_up demo_env k 5 TASK_NORMAL 0 = Some (True, k') \<and>
     prio (tsk k' 5) = 108 \<and> need_resched (tsk k' 0)"
proof -
  obtain k where k: "core_reach demo_env k" "on_rq (tsk k 5) = 0" "sched_class (tsk k 5) = TsClass"
    "prio (tsk k 5) = 120" "curr k = 0" "tflags (tsk k 5) = 0" "state (tsk k 5) = 1" "sched_class (tsk k 0) = IdleClass"
    using demo_ready_reach by blast
  have "curr k \<noteq> 5" "state (tsk k 5) AND TASK_NORMAL \<noteq> 0" "tflags (tsk k 5) AND PF_WQ_WORKER = 0"
    using k by (simp_all add: state_defs)
  from try_to_wake_up_ts [OF demo_env_quiet k(1,3,2) this, of 0] k obtain k' where
    "try_to_wake_up demo_env k 5 TASK_NORMAL 0 = Some (True, k')" "prio (tsk k' 5) = wakeup_prio 120" "need_resched (tsk k' 0)"
    by auto
  with k(1) show ?thesis by (intro exI [of _ k] exI [of _ k']) (simp add: wakeup_prio_def)
qed


section \<open>Choosing and switching\<close>

text \<open>What the pass over the classes finds when the task left is a time-sharing task.\<close>

lemma put_prev_ts: "sched_class (tsk k prev) = TsClass \<Longrightarrow> put_prev_task E k prev = Some k"
  by (simp add: put_prev_task_def ts_sched_class_def put_prev_task_ts_def)

lemma pick_rt_first:
  assumes "rt_inv k" "rt_queued (rq_rt k)" "sched_class (tsk k prev) = TsClass"
  shows "\<exists>p k'. pick_next_task_rt (put_prev_task E) k prev = Some (Some p, k') \<and> p \<in> rt_runnable k \<and>
    (\<forall>q \<in> rt_runnable k. prio (tsk k p) \<le> prio (tsk k q))"
proof -
  have wf: "rt_wf k" and ne: "rt_runnable k \<noteq> {}"
    using assms(1,2) rt_queued_iff [OF assms(1)] by (simp_all add: rt_inv_def)
  from pick_next_rt_entity_best [OF wf ne] obtain p where p: "pick_next_rt_entity k = Some p" "p \<in> rt_runnable k"
    "\<forall>q \<in> rt_runnable k. prio (tsk k p) \<le> prio (tsk k q)" by blast
  then show ?thesis
    using assms(2,3) put_prev_ts [OF assms(3), of E] by (auto simp: pick_next_task_rt_def pick_rt_head_def)
qed

text \<open>
  C4. The order of the classes, when the task left is a time-sharing task and the deadline class
  has no task: a real-time task of the best priority is chosen when the real-time class is on the
  run queue; otherwise the front task of the best time-sharing queue; and only when there is none
  either does the choice go to the fair and then to the idle class.
\<close>

theorem pick_next_task_order:
  assumes "sched_class (tsk k prev) = TsClass" and "ts_wf k" and "rt_inv k"
    and "cop_pick_next_task (dl_sched_class E) (put_prev_task E) k prev = Some (NoTask, k)"
  shows "(rt_queued (rq_rt k) \<longrightarrow> (\<exists>p k'. pick_next_task E k prev = Some (p, k') \<and> p \<in> rt_runnable k \<and>
        (\<forall>q \<in> rt_runnable k. prio (tsk k p) \<le> prio (tsk k q)))) \<and>
    (\<not> rt_queued (rq_rt k) \<and> ts_runnable k \<noteq> {} \<longrightarrow> (\<exists>p. pick_next_task E k prev = Some (p, k) \<and>
        p \<in> ts_runnable k \<and> (\<forall>q \<in> ts_runnable k. prio (tsk k p) \<le> prio (tsk k q)) \<and>
        p = hd (ts_queue k ! nat (prioQueue (prio (tsk k p)))))) \<and>
    (\<not> rt_queued (rq_rt k) \<and> ts_runnable k = {} \<longrightarrow>
        (\<forall>p k'. pick_from E [FairClass, IdleClass] k prev = Some (Task p, k') \<longrightarrow>
           pick_next_task E k prev = Some (p, k')))"
proof -
  have slow: "pick_next_task E k prev = pick_again E k prev" using assms(1) by (simp add: pick_next_task_def)
  have again: "pick_from E for_each_class k prev = Some (Task p, k') \<Longrightarrow> pick_next_task E k prev = Some (p, k')" for p k'
    unfolding slow by (subst pick_again.simps) simp
  have dl: "pick_from E for_each_class k prev = pick_from E [RtClass, TsClass, FairClass, IdleClass] k prev"
    using assms(4) by (simp add: for_each_class_def)
  have rt: "pick_from E for_each_class k prev = pick_from E [TsClass, FairClass, IdleClass] k prev"
    if "\<not> rt_queued (rq_rt k)"
    unfolding dl using that assms(1) by (simp add: rt_sched_class_def picked_of_def pick_next_task_rt_def)
  note tsp = pick_next_task_ts_cases [of k "put_prev_task E" prev k, OF assms(2) put_prev_ts [OF assms(1)] refl]
  show ?thesis
  proof (intro conjI impI allI)
    assume "rt_queued (rq_rt k)"
    from pick_rt_first [OF assms(3) this assms(1), of E] obtain p k' where
      p: "pick_next_task_rt (put_prev_task E) k prev = Some (Some p, k')" "p \<in> rt_runnable k"
      "\<forall>q \<in> rt_runnable k. prio (tsk k p) \<le> prio (tsk k q)" by blast
    have "pick_next_task E k prev = Some (p, k')"
      by (rule again) (simp add: dl rt_sched_class_def picked_of_def p(1))
    with p show "\<exists>p k'. pick_next_task E k prev = Some (p, k') \<and> p \<in> rt_runnable k \<and>
        (\<forall>q \<in> rt_runnable k. prio (tsk k p) \<le> prio (tsk k q))" by blast
  next
    assume q: "\<not> rt_queued (rq_rt k) \<and> ts_runnable k \<noteq> {}"
    from tsp q obtain x p where
      p: "ts_scan (ts_queue k) 40 = int x" "p = hd (ts_queue k ! x)" "p \<in> ts_runnable k"
      "pick_next_task_ts (put_prev_task E) k prev = Some (Some p, k)" "\<forall>q \<in> ts_runnable k. prio (tsk k p) \<le> prio (tsk k q)"
      by blast
    have "x = ts_level k p"
      using ts_scan_some(1,2) [OF assms(2) p(1)] p(2,3) ts_wfD(1,2) [OF assms(2)] by (auto simp: levelled_def)
    moreover have "pick_next_task E k prev = Some (p, k)"
      by (rule again) (use q p(4) rt in \<open>simp add: ts_sched_class_def picked_of_def\<close>)
    ultimately show "\<exists>p. pick_next_task E k prev = Some (p, k) \<and> p \<in> ts_runnable k \<and>
        (\<forall>q \<in> ts_runnable k. prio (tsk k p) \<le> prio (tsk k q)) \<and> p = hd (ts_queue k ! nat (prioQueue (prio (tsk k p))))"
      using p by (auto simp: ts_level_def)
  next
    fix p k'
    assume q: "\<not> rt_queued (rq_rt k) \<and> ts_runnable k = {}"
      and f: "pick_from E [FairClass, IdleClass] k prev = Some (Task p, k')"
    have "pick_next_task_ts (put_prev_task E) k prev = Some (None, k)"
      using tsp q by blast
    then have "pick_from E [TsClass, FairClass, IdleClass] k prev = pick_from E [FairClass, IdleClass] k prev"
      by (simp add: ts_sched_class_def picked_of_def)
    with f q rt show "pick_next_task E k prev = Some (p, k')" by (intro again) simp
  qed
qed

theorem pick_next_task_order_witness:
  "\<exists>p. pick_next_task demo_env ts_demo 5 = Some (p, ts_demo) \<and> p \<in> {5, 7}"
proof -
  have "rt_inv ts_demo"
    by (auto simp: ts_demo_def blank_kern_def blank_task_def rt_inv_def rt_wf_def nr_others_def levelled_def
        linked_def on_rt_rq_def nth_append ts_demo_task_def)
  moreover have "cop_pick_next_task (dl_sched_class demo_env) (put_prev_task demo_env) ts_demo 5 = Some (NoTask, ts_demo)"
    by (simp add: demo_env_def empty_class_def)
  moreover have "sched_class (tsk ts_demo 5) = TsClass" "\<not> rt_queued (rq_rt ts_demo)" "ts_runnable ts_demo = {5, 7}"
    by (auto simp: ts_runnable_def) (simp_all add: ts_demo_def blank_kern_def ts_demo_task_def)
  ultimately show ?thesis using pick_next_task_order [of ts_demo 5 demo_env] by auto
qed

text \<open>
  C5. The fast path of \<open>pick_next_task\<close> loses time-sharing tasks: it assumes that all tasks are fair
  when \<open>nr_running\<close> equals the number of fair tasks, but the time-sharing class does not count its
  tasks in \<open>nr_running\<close>. On an idle processor a time-sharing task is woken, the idle task is asked
  to reschedule, and \<open>schedule()\<close> picks the idle task again, with the woken task still queued.
\<close>

theorem ts_wakeup_on_idle_lost:
  assumes "quiet_penv E" and "core_reach E k"
    and "sched_class (tsk k p) = TsClass" and "on_rq (tsk k p) = 0"
    and "state (tsk k p) AND st \<noteq> 0" and "tflags (tsk k p) AND PF_WQ_WORKER = 0"
    and "curr k = idle k" and "idle k \<noteq> p" and "sched_class (tsk k (idle k)) = IdleClass"
    and "state (tsk k (idle k)) = 0" and "nr_running k = h_nr_running k"
    and "\<forall>k prev. cop_pick_next_task (fair_sched_class E) (put_prev_task E) k prev = Some (NoTask, k)"
    and "\<forall>k. sched_class (tsk k (idle k)) = IdleClass \<longrightarrow>
           cop_pick_next_task (idle_sched_class E) (put_prev_task E) k (idle k) = Some (Task (idle k), k)"
  shows "\<exists>k1 k2. try_to_wake_up E k p st wfl = Some (True, k1) \<and> need_resched (tsk k1 (curr k1)) \<and>
    schedule_main E False k1 = Some k2 \<and> curr k2 = idle k2 \<and> p \<in> ts_runnable k2"
proof -
  have c: "core_inv k" by (rule core_reach_inv [OF assms(1,2)])
  have nq: "\<not> task_on_rq_queued (tsk k p)" using assms(4) by (simp add: task_on_rq_queued_def TASK_ON_RQ_QUEUED_def)
  obtain k0 where k0: "ttwu_activate E (update_rq_clock (end_iowait k p)) p (ENQUEUE_WAKEUP OR ENQUEUE_NOCLOCK) = Some k0"
    "ts_woken_to k p k0" using ttwu_activate_ts [OF c nq assms(3,6)] by blast
  let ?k1 = "ttwu_do_wakeup E k0 p wfl"
  have e: "try_to_wake_up E k p st wfl = Some (True, ?k1)"
    using assms(4,5) k0(1) by (simp add: try_to_wake_up_def ttwu_queue_def ttwu_do_activate_def)
  have w: "tsk k0 = (tsk k)(p := (tsk k p)\<lparr>prio := wakeup_prio (prio (tsk k p)), on_rq := TASK_ON_RQ_QUEUED\<rparr>)"
    "curr k0 = curr k" "idle k0 = idle k" "nr_running k0 = nr_running k" "h_nr_running k0 = h_nr_running k"
    using k0(2) by (simp_all add: ts_woken_to_def Let_def)
  have cl: "sched_class (tsk k0 p) = TsClass" using assms(3) by (simp add: w)
  note ch = check_preempt_ts [OF cl, of E wfl]
  have k1: "curr ?k1 = idle k" "idle ?k1 = idle k" "sched_class (tsk ?k1 (idle k)) = IdleClass" "state (tsk ?k1 (idle k)) = 0"
    "nr_running ?k1 = h_nr_running ?k1" "need_resched (tsk ?k1 (idle k))"
    using assms(7-11) ch(1) by (simp_all add: ttwu_do_wakeup_def Let_def ch w)
  have "core_inv ?k1" by (rule try_to_wake_up_core [OF _ c e]) (use assms(1) in \<open>simp add: quiet_penv_def\<close>)
  moreover have "task_on_rq_queued (tsk ?k1 p)" "sched_class (tsk ?k1 p) = TsClass"
    using assms(3) by (simp_all add: ttwu_do_wakeup_def Let_def ch w task_on_rq_queued_def)
  ultimately have l: "linked p (ts_queue ?k1)" unfolding core_inv_def by (simp add: ts_coreD(6) queued_tasks_def)
  let ?k2 = "update_rq_clock (?k1\<lparr>clock_update_flags := push_bit 1 (clock_update_flags ?k1)\<rparr>)"
  have sl: "schedule_sleep E False ?k2 = Some (False, ?k2)" using k1 by (simp add: schedule_sleep_def Let_def)
  have pk: "pick_next_task E ?k2 (idle k) = Some (idle k, ?k2)"
    using k1 assms(12) assms(13) [rule_format, of ?k2] by (simp add: pick_next_task_def)
  have "schedule_main E False ?k1 = Some (switch_task E False (idle k) (idle k) ?k2)"
    using sl pk k1(1) by (simp add: schedule_main_def Let_def)
  moreover have "ts_queue (switch_task E False (idle k) (idle k) ?k2) = ts_queue ?k1"
    "curr (switch_task E False (idle k) (idle k) ?k2) = idle (switch_task E False (idle k) (idle k) ?k2)"
    using k1 by (simp_all add: switch_task_def Let_def clear_tsk_need_resched_def clear_skip_flags_def)
  ultimately show ?thesis
    using e k1(1,6) l
    by (intro exI [of _ ?k1] exI [of _ "switch_task E False (idle k) (idle k) ?k2"]) (simp add: ts_runnable_def)
qed

theorem ts_wakeup_on_idle_lost_witness:
  "\<exists>k k1 k2. core_reach demo_env k \<and> try_to_wake_up demo_env k 5 TASK_NORMAL 0 = Some (True, k1) \<and>
    schedule_main demo_env False k1 = Some k2 \<and> curr k2 = idle k2 \<and> 5 \<in> ts_runnable k2"
proof -
  obtain k where k: "core_reach demo_env k" "on_rq (tsk k 5) = 0" "sched_class (tsk k 5) = TsClass"
    "curr k = 0" "tflags (tsk k 5) = 0" "state (tsk k 5) = 1" "idle k = 0" "sched_class (tsk k 0) = IdleClass"
    "state (tsk k 0) = 0" "nr_running k = 0" "h_nr_running k = 0"
    using demo_ready_reach by blast
  have f: "\<forall>k prev. cop_pick_next_task (fair_sched_class demo_env) (put_prev_task demo_env) k prev = Some (NoTask, k)"
    by (simp add: demo_env_def empty_class_def)
  have i: "\<forall>k. sched_class (tsk k (idle k)) = IdleClass \<longrightarrow>
     cop_pick_next_task (idle_sched_class demo_env) (put_prev_task demo_env) k (idle k) = Some (Task (idle k), k)"
    by (simp add: demo_env_def idle_class_def empty_class_def put_prev_task_def)
  have "state (tsk k 5) AND TASK_NORMAL \<noteq> 0" "tflags (tsk k 5) AND PF_WQ_WORKER = 0" "curr k = idle k" "idle k \<noteq> 5"
    "sched_class (tsk k (idle k)) = IdleClass" "state (tsk k (idle k)) = 0" "nr_running k = h_nr_running k"
    using k by (simp_all add: state_defs)
  from ts_wakeup_on_idle_lost [OF demo_env_quiet k(1,3,2) this f i, of 0] k(1) show ?thesis by blast
qed

end
