(* ===== verification/Policy_Props.thy ===== *)
theory Policy_Props
  imports Core_Props
begin

text \<open>
  Properties of the changes of priority and policy (theory \<open>Sched_Policy\<close>): what an unprivileged user
  can change, what becomes of a task that enters the time-sharing class, and what priority
  inheritance does to it.
\<close>


section \<open>What the changes leave alone\<close>

text \<open>The parameters a user sets; the operations of the classes and priority inheritance keep them.\<close>

definition params_of :: "task_struct \<Rightarrow> int \<times> int \<times> int \<times> u32" where
  "params_of t = (static_prio t, normal_prio t, policy t, rt_priority t)"

lemma frame_params: "frame k k' \<Longrightarrow> params_of (tsk k' q) = params_of (tsk k q)"
  by (simp add: frame_def view_def params_of_def)

lemma ts_ops_frame:
  "enqueue_task_ts k p fl = Some k' \<Longrightarrow> frame k k'" "dequeue_task_ts k p fl = Some k' \<Longrightarrow> frame k k'"
  by (auto simp: enqueue_task_ts_def dequeue_task_ts_def Let_def frame_ts split: if_split_asm)

lemma enqueue_keeps:
  assumes "quiet_env E" "sched_class (tsk k p) \<noteq> TsClass" "enqueue_task E k p fl = Some k'"
  shows "keeps k k'"
  using quiet_class.enqueue_quiet [OF class_quiet [OF assms(1,2)], of k p fl k']
    keeps_trans [OF keeps_small(1) quiet_class.enqueue_quiet [OF class_quiet [OF assms(1,2)], of _ p fl k']] assms(3)
  by (auto simp: enqueue_task_def Let_def split: if_split_asm)

lemma dequeue_keeps:
  assumes "quiet_env E" "sched_class (tsk k p) \<noteq> TsClass" "dequeue_task E k p fl = Some k'"
  shows "keeps k k'"
  using quiet_class.dequeue_quiet [OF class_quiet [OF assms(1,2)], of k p fl k']
    keeps_trans [OF keeps_small(1) quiet_class.dequeue_quiet [OF class_quiet [OF assms(1,2)], of _ p fl k']] assms(3)
  by (auto simp: dequeue_task_def Let_def split: if_split_asm)

lemma queueing_frame [frame_intros]:
  assumes E: "quiet_env E"
  shows "enqueue_task E k p fl = Some k' \<Longrightarrow> frame k k'" "dequeue_task E k p fl = Some k' \<Longrightarrow> frame k k'"
proof -
  have c: "frame k (update_rq_clock k)" by (intro keeps_frame keeps_intros)
  show "enqueue_task E k p fl = Some k' \<Longrightarrow> frame k k'"
    using keeps_frame [OF enqueue_keeps [OF E]] ts_ops_frame(1) frame_trans [OF c ts_ops_frame(1)]
    by (cases "sched_class (tsk k p) = TsClass")
      (auto simp: enqueue_task_def ts_sched_class_def Let_def split: if_split_asm)
  show "dequeue_task E k p fl = Some k' \<Longrightarrow> frame k k'"
    using keeps_frame [OF dequeue_keeps [OF E]] ts_ops_frame(2) frame_trans [OF c ts_ops_frame(2)]
    by (cases "sched_class (tsk k p) = TsClass")
      (auto simp: dequeue_task_def ts_sched_class_def Let_def split: if_split_asm)
qed

lemma take_off_frame [frame_intros]:
  assumes E: "quiet_env E" and e: "take_off E k p fl = Some k'"
  shows "frame k k'"
proof -
  from e obtain k1 where "(if task_on_rq_queued (tsk k p) then dequeue_task E k p fl else Some k) = Some k1"
    "(if task_current k p then put_prev_task E k1 p else Some k1) = Some k'"
    unfolding take_off_def Let_def bind_eq_Some_conv by blast
  then have "frame k k1" "frame k1 k'"
    using queueing_frame(2) [OF E] keeps_frame [OF put_prev_keeps [OF E]] by (auto split: if_split_asm)
  then show ?thesis by (rule frame_trans)
qed

lemma put_back_frame [frame_intros]:
  assumes E: "quiet_env E" and e: "put_back E queued running k p fl = Some k'"
  shows "frame k k'" and "sched_class (tsk k p) \<noteq> TsClass \<Longrightarrow> keeps k k'"
proof -
  from e obtain k1 where k1: "(if queued then enqueue_task E k p fl else Some k) = Some k1"
    "k' = (if running then set_curr_task E k1 p else k1)"
    unfolding put_back_def bind_eq_Some_conv by auto
  have 2: "keeps k1 k'" using k1(2) set_curr_keeps [OF E] by simp
  have "frame k k1" using k1(1) queueing_frame(1) [OF E] by (auto split: if_split_asm)
  then show "frame k k'" using keeps_frame [OF 2] by (rule frame_trans)
  assume "sched_class (tsk k p) \<noteq> TsClass"
  then have "keeps k k1" using k1(1) enqueue_keeps [OF E] by (auto split: if_split_asm)
  then show "keeps k k'" using 2 by (rule keeps_trans)
qed

section \<open>Priority inheritance\<close>

lemma setprio_class_result:
  "sched_class (snd (setprio_class k p pi pr op fl)) =
     (if dl_prio pr then DlClass else if rt_prio pr then RtClass else FairClass)"
  "params_of (snd (setprio_class k p pi pr op fl)) = params_of (tsk k p)"
  by (simp_all add: setprio_class_def Let_def params_of_def)

lemma setprio_move_task:
  assumes E: "quiet_env E" and e: "setprio_move E k p pi pr = Some k'"
  shows "params_of (tsk k' q) = params_of (tsk k q)" and "prio (tsk k' p) = pr"
    and "sched_class (tsk k' p) = (if dl_prio pr then DlClass else if rt_prio pr then RtClass else FairClass)"
    and "idle k' = idle k"
proof -
  let ?op = "prio (tsk k p)"
  from e obtain fl k1 k3 where k1: "take_off E k p fl = Some k1"
    and k3: "put_back E (task_on_rq_queued (tsk k p)) (task_current k p) (upd_task k1 p (\<lambda>_.
       (snd (setprio_class k1 p pi pr ?op fl))\<lparr>prio := pr\<rparr>)) p (fst (setprio_class k1 p pi pr ?op fl)) = Some k3"
    and k': "k' = check_class_changed E k3 p (sched_class (tsk k p)) ?op"
    unfolding setprio_move_def Let_def bind_eq_Some_conv by blast
  define k2 where "k2 = upd_task k1 p (\<lambda>_. (snd (setprio_class k1 p pi pr ?op fl))\<lparr>prio := pr\<rparr>)"
  note t = setprio_class_result [of k1 p pi pr ?op fl]
  have f1: "frame k k1" using E k1 by (rule take_off_frame)
  have "sched_class (tsk k2 p) \<noteq> TsClass" by (simp add: k2_def t)
  then have "keeps k2 k3" using put_back_frame(2) [OF E k3] by (simp add: k2_def)
  then have kk: "keeps k2 k'" unfolding k' by (rule keeps_trans [OF _ check_class_changed_keeps [OF E]])
  note f = frameD [OF keeps_frame [OF kk]]
  have "params_of (tsk k2 q) = params_of (tsk k1 q)" using t(2) by (simp add: k2_def params_of_def)
  then show "params_of (tsk k' q) = params_of (tsk k q)"
    by (simp add: frame_params [OF keeps_frame [OF kk]] frame_params [OF f1])
  show "prio (tsk k' p) = pr" using kk by (simp add: keeps_def k2_def)
  show "sched_class (tsk k' p) = (if dl_prio pr then DlClass else if rt_prio pr then RtClass else FairClass)"
    unfolding f(8) by (simp add: k2_def t)
  show "idle k' = idle k" unfolding f(2) by (simp add: k2_def frameD(2) [OF f1])
qed

lemma rt_mutex_setprio_params:
  assumes "quiet_env E" "rt_mutex_setprio E k p pi = Some k'"
  shows "params_of (tsk k' q) = params_of (tsk k q)"
proof -
  have u: "params_of (tsk (upd_task k1 p (\<lambda>t. t\<lparr>pi_top_task := pi\<rparr>)) q) = params_of (tsk k1 q)" for k1 :: "'a kern"
    by (simp add: params_of_def)
  show ?thesis
    using assms(2) setprio_move_task(1) [OF assms(1)] u
    unfolding rt_mutex_setprio_def Let_def by (auto simp: params_of_def split: if_split_asm)
qed

lemma rt_mutex_setprio_moves:
  assumes E: "quiet_env E" and e: "rt_mutex_setprio E k p pi = Some k'" and p: "p \<noteq> idle k"
    and pr: "pr = rt_effective_prio_of k pi (normal_prio (tsk k p))" "pr \<noteq> prio (tsk k p)"
  shows "prio (tsk k' p) = pr"
    and "sched_class (tsk k' p) = (if dl_prio pr then DlClass else if rt_prio pr then RtClass else FairClass)"
    and "idle k' = idle k"
proof -
  have "setprio_move E (upd_task (update_rq_clock k) p (\<lambda>t. t\<lparr>pi_top_task := pi\<rparr>)) p pi pr = Some k'"
    using e p pr by (simp add: rt_mutex_setprio_def Let_def)
  from setprio_move_task(2-4) [OF E this] show "prio (tsk k' p) = pr"
    "sched_class (tsk k' p) = (if dl_prio pr then DlClass else if rt_prio pr then RtClass else FairClass)"
    "idle k' = idle k" by simp_all
qed

text \<open>
  C8. Priority inheritance takes a time-sharing task out of its class for good: when a real-time task
  waits for a mutex the task holds, it is boosted into the real-time class; when the boost ends,
  \<open>rt_mutex_setprio\<close> has no branch for the policy \<open>SCHED_TS\<close> and leaves the task in the fair class,
  with the policy still \<open>SCHED_TS\<close>.
\<close>

theorem ts_boost_loses_class:
  assumes "quiet_env E" and "policy (tsk k p) = SCHED_TS" and "sched_class (tsk k p) = TsClass"
    and "100 \<le> prio (tsk k p)" and "100 \<le> normal_prio (tsk k p)" and "p \<noteq> idle k"
    and "0 \<le> prio (tsk k donor)" and "prio (tsk k donor) < 100"
    and "rt_mutex_setprio E k p (Some donor) = Some k1"
    and "rt_mutex_setprio E k1 p None = Some k2"
  shows "sched_class (tsk k1 p) = RtClass \<and> prio (tsk k1 p) = prio (tsk k donor) \<and>
    sched_class (tsk k2 p) = FairClass \<and> policy (tsk k2 p) = SCHED_TS \<and>
    prio (tsk k2 p) = normal_prio (tsk k p)"
proof -
  have pr: "rt_effective_prio_of k (Some donor) (normal_prio (tsk k p)) = prio (tsk k donor)"
    using assms(5,8) by (simp add: rt_effective_prio_of_def)
  have "prio (tsk k donor) \<noteq> prio (tsk k p)" using assms(4,8) by simp
  note m1 = rt_mutex_setprio_moves [OF assms(1,9,6) pr [symmetric] this]
  have par: "params_of (tsk k1 p) = params_of (tsk k p)" "params_of (tsk k2 p) = params_of (tsk k1 p)"
    by (rule rt_mutex_setprio_params [OF assms(1,9)], rule rt_mutex_setprio_params [OF assms(1,10)])
  then have n: "normal_prio (tsk k1 p) = normal_prio (tsk k p)" "policy (tsk k2 p) = SCHED_TS"
    using assms(2) by (simp_all add: params_of_def)
  have "normal_prio (tsk k p) = rt_effective_prio_of k1 None (normal_prio (tsk k1 p))" "p \<noteq> idle k1"
    "normal_prio (tsk k p) \<noteq> prio (tsk k1 p)"
    using assms(5,6,8) m1 by (simp_all add: rt_effective_prio_of_def n)
  note m2 = rt_mutex_setprio_moves [OF assms(1,10) this(2,1,3)]
  show ?thesis
    using m1 m2 n assms(5,7,8) by (simp add: rt_prio_def dl_prio_def MAX_RT_PRIO_def MAX_DL_PRIO_def)
qed

text \<open>The sleeping time-sharing task 5 holds a mutex that the real-time task 7 waits for.\<close>

definition boost_demo :: "unit kern" where
  "boost_demo = upd_task (upd_task blank_kern 5 (\<lambda>t. t\<lparr>policy := SCHED_TS, sched_class := TsClass\<rparr>)) 7
     (\<lambda>t. t\<lparr>policy := SCHED_FIFO, sched_class := RtClass, rt_priority := 49, normal_prio := 50, prio := 50\<rparr>)"

theorem ts_boost_loses_class_witness:
  "\<exists>k1 k2. rt_mutex_setprio demo_env boost_demo 5 (Some 7) = Some k1 \<and>
     rt_mutex_setprio demo_env k1 5 None = Some k2 \<and> sched_class (tsk k1 5) = RtClass \<and>
     sched_class (tsk k2 5) = FairClass \<and> policy (tsk k2 5) = SCHED_TS"
proof -
  have "Option.bind (rt_mutex_setprio demo_env boost_demo 5 (Some 7))
     (\<lambda>k. map_option (\<lambda>k. ()) (rt_mutex_setprio demo_env k 5 None)) = Some ()" by code_simp
  then obtain k1 k2 where k: "rt_mutex_setprio demo_env boost_demo 5 (Some 7) = Some k1"
    "rt_mutex_setprio demo_env k1 5 None = Some k2" by (auto simp: bind_eq_Some_conv)
  have "quiet_env demo_env" using demo_env_quiet by (simp add: quiet_penv_def)
  moreover have "policy (tsk boost_demo 5) = SCHED_TS" "sched_class (tsk boost_demo 5) = TsClass"
    "100 \<le> prio (tsk boost_demo 5)" "100 \<le> normal_prio (tsk boost_demo 5)" "5 \<noteq> idle boost_demo"
    "0 \<le> prio (tsk boost_demo 7)" "prio (tsk boost_demo 7) < 100"
    by (simp_all add: boost_demo_def blank_kern_def blank_task_def)
  ultimately show ?thesis using ts_boost_loses_class [of demo_env boost_demo 5 7 k1 k2] k by blast
qed


section \<open>What an unprivileged user can change\<close>

lemma setprio_chain_params:
  "quiet_env E \<Longrightarrow> setprio_chain E xs k = Some k' \<Longrightarrow> params_of (tsk k' q) = params_of (tsk k q)"
  by (induction E xs k rule: setprio_chain.induct) (auto simp: bind_eq_Some_conv dest: rt_mutex_setprio_params)

lemma adjust_pi_params:
  "quiet_penv E \<Longrightarrow> params_of (tsk (rt_mutex_adjust_pi E k p) q) = params_of (tsk k q)"
  unfolding quiet_penv_def by (metis setprio_chain_params)

lemma setscheduler_params_result:
  assumes E: "quiet_env E" and e: "setscheduler E k p attr b = Some k'"
  shows "params_of (tsk k' q) = (if q = p then params_of (set_params E attr (tsk k p)) else params_of (tsk k q))"
proof -
  from e obtain k1 where k1: "set_load_weight E (upd_task k p (set_params E attr)) p True = Some k1"
    and k': "\<exists>pr. k' = upd_task (upd_task k1 p (\<lambda>t. t\<lparr>prio := pr\<rparr>)) p (\<lambda>t. t\<lparr>sched_class := setscheduler_class t\<rparr>)"
    unfolding setscheduler_def setscheduler_params_def Let_def bind_eq_Some_conv by blast
  have "params_of (tsk k' q) = params_of (tsk k1 q)" using k' by (auto simp: params_of_def)
  also have "\<dots> = params_of (tsk (upd_task k p (set_params E attr)) q)"
    using set_load_weight_task(1) [OF E k1, of q] by (simp add: view_def params_of_def)
  finally show ?thesis by simp
qed

lemma setscheduler_move_params:
  assumes E: "quiet_env E" and e: "setscheduler_move E k p attr b = Some k'"
  shows "\<exists>t. params_of t = params_of (tsk k p) \<and>
    (\<forall>q. params_of (tsk k' q) = (if q = p then params_of (set_params E attr t) else params_of (tsk k q)))"
proof -
  from e obtain fl1 fl2 k1 k2 k3 where k1: "take_off E k p fl1 = Some k1" and k2: "setscheduler E k1 p attr b = Some k2"
    and k3: "put_back E (task_on_rq_queued (tsk k p)) (task_current k p) k2 p fl2 = Some k3"
    and k': "k' = check_class_changed E k3 p (sched_class (tsk k1 p)) (prio (tsk k p))"
    unfolding setscheduler_move_def Let_def bind_eq_Some_conv by blast
  have "params_of (tsk k' q) = params_of (tsk k2 q)" for q
    unfolding k' using frame_params [OF keeps_frame [OF check_class_changed_keeps [OF E]]]
      frame_params [OF put_back_frame(1) [OF E k3]] by metis
  then show ?thesis
    using frame_params [OF take_off_frame [OF E k1]]
    by (intro exI [of _ "tsk k1 p"]) (simp add: setscheduler_params_result [OF E k2])
qed

text \<open>What a successful call did to the parameters: nothing, or the requested ones were stored.\<close>

lemma sched_setscheduler_params:
  assumes P: "quiet_penv E" and e: "sched_setscheduler_main E k p attr user pi = Some (0, k')"
  shows "setscheduler_checks E k p attr user = 0"
    and "setscheduler_policy (tsk k p) attr = policy (tsk k p) \<and> (\<forall>q. params_of (tsk k' q) = params_of (tsk k q)) \<or> (\<exists>t. params_of t = params_of (tsk k p) \<and>
      (\<forall>q. params_of (tsk k' q) = (if q = p then params_of (set_params E attr t) else params_of (tsk k q))))"
proof -
  have E: "quiet_env E" using P by (simp add: quiet_penv_def)
  show chk: "setscheduler_checks E k p attr user = 0"
    using e by (auto simp: sched_setscheduler_main_def Let_def split: if_split_asm)
  let ?k1 = "update_rq_clock k"
  let ?st = "\<lambda>k. upd_task k p (\<lambda>t. t\<lparr>sched_reset_on_fork := setscheduler_reset (tsk ?k1 p) attr\<rparr>)"
  let ?ov = "if dl_policy (setscheduler_policy (tsk k p) attr) \<or> dl_task (tsk ?k1 p)
      then sched_dl_overflow E ?k1 p (setscheduler_policy (tsk k p) attr) attr else (False, ?k1)"
  obtain o1 k2 where ov: "?ov = (o1, k2)" by fastforce
  have "keeps ?k1 (snd ?ov)" using P by (simp add: quiet_penv_def)
  then have k2: "params_of (tsk (?st k2) q) = params_of (tsk k q)" for q
    using frame_params [OF keeps_frame, of ?k1 k2 q] unfolding ov by (auto simp: params_of_def)
  consider "k' = ?st ?k1" "\<not> setscheduler_changes E (tsk k p) attr"
    | k3 where "setscheduler_move E (?st k2) p attr pi = Some k3" "k' = k3 \<or> k' = rt_mutex_adjust_pi E k3 p"
    using e chk ov unfolding sched_setscheduler_main_def Let_def
    by (auto simp: bind_eq_Some_conv EINVAL_def EBUSY_def split: if_split_asm)
  then show "setscheduler_policy (tsk k p) attr = policy (tsk k p) \<and> (\<forall>q. params_of (tsk k' q) = params_of (tsk k q)) \<or> (\<exists>t. params_of t = params_of (tsk k p) \<and>
      (\<forall>q. params_of (tsk k' q) = (if q = p then params_of (set_params E attr t) else params_of (tsk k q))))"
  proof cases
    case 1
    then show ?thesis by (simp add: params_of_def setscheduler_changes_def Let_def)
  next
    case 2
    have "params_of (tsk k' q) = params_of (tsk k3 q)" for q using 2(2) adjust_pi_params [OF P] by auto
    then show ?thesis using setscheduler_move_params [OF E 2(1)] unfolding k2 by metis
  qed
qed

lemma setscheduler_perm_ok:
  assumes "setscheduler_perm E k p attr = 0"
  defines "pol \<equiv> setscheduler_policy (tsk k p) attr"
  shows "check_same_owner k p" "\<not> dl_policy pol"
    "fair_policy pol \<Longrightarrow> sched_nice attr < task_nice (tsk k p) \<Longrightarrow> can_nice E p (sched_nice attr)"
    "idle_policy (policy (tsk k p)) \<Longrightarrow> \<not> idle_policy pol \<Longrightarrow> can_nice E p (task_nice (tsk k p))"
    "rt_policy pol \<Longrightarrow> pol \<noteq> policy (tsk k p) \<Longrightarrow> rlimit_rtprio E p \<noteq> 0"
    "rt_policy pol \<Longrightarrow> sched_priority attr \<le> rt_priority (tsk k p) \<or> ucast (sched_priority attr) \<le> rlimit_rtprio E p"
  using assms(1) unfolding setscheduler_perm_def pol_def [symmetric] Let_def EPERM_def
  by (auto simp: not_less split: if_split_asm)

lemma set_params_result:
  assumes "- 1 \<le> sched_policy attr"
  shows "policy (set_params E attr t) = setscheduler_policy t attr" "rt_priority (set_params E attr t) = sched_priority attr"
    "task_nice (set_params E attr t) = (if fair_policy (setscheduler_policy t attr) then sched_nice attr else task_nice t)"
  using assms by (auto simp: set_params_def setscheduler_policy_def SETPARAM_POLICY_def Let_def task_nice_def
      NICE_TO_PRIO_def PRIO_TO_NICE_def policy_preds policy_defs)

text \<open>
  C6. What a user without \<open>CAP_SYS_NICE\<close> can do through \<open>__sched_setscheduler\<close>. A call that
  succeeds concerns a task of the same owner and leaves the parameters of every other task alone; the
  deadline policy cannot be reached; the nice value can improve only within \<open>RLIMIT_NICE\<close>, which
  also guards the way out of \<open>SCHED_IDLE\<close>; a real-time priority can grow only up to \<open>RLIMIT_RTPRIO\<close>,
  and a real-time policy can be newly taken only when that limit is not 0. (\<open>-1\<close>, \<open>SETPARAM_POLICY\<close>,
  is the one negative policy the system calls pass on.)
\<close>

theorem unprivileged_setscheduler_bounded:
  assumes "quiet_penv E" and "\<not> capable_sys_nice E" and "- 1 \<le> sched_policy attr"
    and "sched_setscheduler_main E k p attr True pi = Some (0, k')"
  shows "check_same_owner k p \<and> (\<forall>q. q \<noteq> p \<longrightarrow> params_of (tsk k' q) = params_of (tsk k q)) \<and>
    policy (tsk k' p) \<noteq> SCHED_DEADLINE \<and>
    (task_nice (tsk k' p) < task_nice (tsk k p) \<longrightarrow> can_nice E p (task_nice (tsk k' p))) \<and>
    (idle_policy (policy (tsk k p)) \<and> \<not> idle_policy (policy (tsk k' p)) \<longrightarrow> can_nice E p (task_nice (tsk k p))) \<and>
    (rt_policy (policy (tsk k' p)) \<longrightarrow>
       (rt_priority (tsk k' p) \<le> rt_priority (tsk k p) \<or> ucast (rt_priority (tsk k' p)) \<le> rlimit_rtprio E p) \<and>
       (policy (tsk k' p) = policy (tsk k p) \<or> rlimit_rtprio E p \<noteq> 0))"
proof -
  note r = sched_setscheduler_params [OF assms(1,4)]
  have perm: "setscheduler_perm E k p attr = 0"
    using r(1) assms(2) by (auto simp: setscheduler_checks_def split: if_split_asm)
  note g = setscheduler_perm_ok [OF perm]
  from r(2) show ?thesis
  proof
    assume u: "setscheduler_policy (tsk k p) attr = policy (tsk k p) \<and> (\<forall>q. params_of (tsk k' q) = params_of (tsk k q))"
    then have "static_prio (tsk k' p) = static_prio (tsk k p)" "policy (tsk k' p) = policy (tsk k p)"
      "rt_priority (tsk k' p) = rt_priority (tsk k p)" by (simp_all add: params_of_def)
    then show ?thesis using u g by (simp add: task_nice_def dl_policy_def)
  next
    assume "\<exists>t. params_of t = params_of (tsk k p) \<and>
      (\<forall>q. params_of (tsk k' q) = (if q = p then params_of (set_params E attr t) else params_of (tsk k q)))"
    then obtain t where t: "params_of t = params_of (tsk k p)" "params_of (tsk k' p) = params_of (set_params E attr t)"
      "\<forall>q. q \<noteq> p \<longrightarrow> params_of (tsk k' q) = params_of (tsk k q)" by auto
    note s = set_params_result [OF assms(3), of E t]
    have "policy (tsk k' p) = setscheduler_policy (tsk k p) attr" "rt_priority (tsk k' p) = sched_priority attr"
      "task_nice (tsk k' p) = (if fair_policy (setscheduler_policy (tsk k p) attr) then sched_nice attr else task_nice (tsk k p))"
      using t(1,2) s by (simp_all add: params_of_def task_nice_def setscheduler_policy_def)
    then show ?thesis using t(3) g by (auto simp: dl_policy_def)
  qed
qed

text \<open>Task 5 asks for the policy \<open>SCHED_IDLE\<close>, without privileges.\<close>

theorem unprivileged_setscheduler_bounded_witness:
  "\<exists>k'. sched_setscheduler_main demo_env boot_kern 5 (blank_attr\<lparr>sched_policy := SCHED_IDLE\<rparr>) True True = Some (0, k') \<and>
     check_same_owner boot_kern 5 \<and> policy (tsk k' 5) \<noteq> SCHED_DEADLINE \<and> params_of (tsk k' 7) = params_of (tsk boot_kern 7)"
proof -
  let ?attr = "blank_attr\<lparr>sched_policy := SCHED_IDLE\<rparr>"
  have "map_option fst (sched_setscheduler_main demo_env boot_kern 5 ?attr True True) = Some 0" by code_simp
  then obtain k' where k': "sched_setscheduler_main demo_env boot_kern 5 ?attr True True = Some (0, k')" by auto
  have "\<not> capable_sys_nice demo_env" "- 1 \<le> sched_policy ?attr"
    by (simp_all add: demo_env_def policy_defs)
  from unprivileged_setscheduler_bounded [OF demo_env_quiet this k'] k' show ?thesis by auto
qed


section \<open>Entering the time-sharing class\<close>

text \<open>The attributes \<open>_sched_setscheduler\<close> builds for a task that asks for \<open>SCHED_TS\<close>.\<close>

definition ts_request :: "task_struct \<Rightarrow> sched_attr" where
  "ts_request t = \<lparr>attr_size = 0, sched_policy = SCHED_TS, sched_flags = 0, sched_nice = PRIO_TO_NICE (static_prio t),
     sched_priority = 0, sched_runtime = 0, sched_deadline = 0, sched_period = 0\<rparr>"

lemma ts_request_eq:
  "sched_setscheduler E k p SCHED_TS 0 = sched_setscheduler_main E k p (ts_request (tsk k p)) True True"
proof -
  have "SCHED_TS AND SCHED_RESET_ON_FORK = 0" by code_simp
  then show ?thesis by (simp add: sched_setscheduler_def sched_setscheduler_param_def ts_request_def Let_def)
qed

lemma ts_request_checks:
  assumes "fair_policy (policy (tsk k p))" "check_same_owner k p" "\<not> sched_reset_on_fork (tsk k p)"
    "security_task_setscheduler E p = 0"
  shows "setscheduler_checks E k p (ts_request (tsk k p)) True = 0"
  using assms
  by (simp add: setscheduler_checks_def setscheduler_valid_def setscheduler_perm_def setscheduler_policy_def
      setscheduler_reset_def ts_request_def policy_preds policy_defs Let_def MAX_RT_PRIO_def MAX_USER_RT_PRIO_def)
    (auto simp: policy_defs)

text \<open>
  What the change relies on from the fair class, for the task \<open>p\<close>: its operations do not fail and do
  not touch the task's link to its waiters; and the task itself waits for no mutex.
\<close>

definition fair_calm :: "('x, 'z) penv_scheme \<Rightarrow> pid \<Rightarrow> bool" where
  "fair_calm E p \<longleftrightarrow>
     (\<forall>k fl. \<exists>k1. cop_dequeue_task (fair_sched_class E) k p fl = Some k1 \<and> pi_top_task (tsk k1 p) = pi_top_task (tsk k p)) \<and>
     (\<forall>k. \<exists>k1. cop_put_prev_task (fair_sched_class E) k p = Some k1 \<and> pi_top_task (tsk k1 p) = pi_top_task (tsk k p)) \<and>
     (\<forall>k x. pi_top_task (tsk (reweight_task E k p x) p) = pi_top_task (tsk k p)) \<and>
     (\<forall>k. rt_mutex_adjust_pi E k p = k)"

lemma take_off_fair:
  assumes E: "quiet_env E" and f: "fair_calm E p" and p: "sched_class (tsk k p) = FairClass"
  shows "\<exists>k1. take_off E k p fl = Some k1 \<and> pi_top_task (tsk k1 p) = pi_top_task (tsk k p)"
proof -
  have d: "\<exists>k1. dequeue_task E k p fl = Some k1 \<and> pi_top_task (tsk k1 p) = pi_top_task (tsk k p)"
  proof -
    have "\<exists>k1. cop_dequeue_task (fair_sched_class E) k0 p fl = Some k1 \<and> pi_top_task (tsk k1 p) = pi_top_task (tsk k0 p)" for k0
      using f by (simp add: fair_calm_def)
    from this [of k] this [of "update_rq_clock k"] show ?thesis using p by (simp add: dequeue_task_def Let_def)
  qed
  obtain k1 where k1: "(if task_on_rq_queued (tsk k p) then dequeue_task E k p fl else Some k) = Some k1"
    "pi_top_task (tsk k1 p) = pi_top_task (tsk k p)" using d by (cases "task_on_rq_queued (tsk k p)") auto
  have "frame k k1" using k1(1) queueing_frame(2) [OF E] by (auto split: if_split_asm)
  then have "sched_class (tsk k1 p) = FairClass" by (simp add: frameD(8) p)
  moreover have "\<exists>k2. cop_put_prev_task (fair_sched_class E) k1 p = Some k2 \<and> pi_top_task (tsk k2 p) = pi_top_task (tsk k1 p)"
    using f by (simp add: fair_calm_def)
  ultimately obtain k2 where "put_prev_task E k1 p = Some k2" "pi_top_task (tsk k2 p) = pi_top_task (tsk k1 p)"
    by (auto simp: put_prev_task_def)
  with k1 show ?thesis by (auto simp: take_off_def Let_def)
qed

lemma setscheduler_ts:
  assumes E: "quiet_env E" and f: "fair_calm E p" and c: "ts_core Q k" and p: "p \<notin> Q"
    "sched_class (tsk k p) = FairClass" "pi_top_task (tsk k p) = None"
    and a: "sched_policy attr = SCHED_TS" "sched_priority attr = 0"
      "sched_nice attr = PRIO_TO_NICE (static_prio t)" "ts_prio_ok (static_prio t)"
  shows "\<exists>k'. setscheduler E k p attr True = Some k' \<and> ts_core Q k' \<and> sched_class (tsk k' p) = TsClass \<and>
    policy (tsk k' p) = SCHED_TS \<and> prio (tsk k' p) = static_prio (tsk k p) \<and> (\<forall>q. on_rq (tsk k' q) = on_rq (tsk k q))"
proof -
  let ?t = "set_params E attr (tsk k p)"
  let ?k1 = "reweight_task E (upd_task k p (set_params E attr)) p (static_prio ?t - MAX_RT_PRIO)"
  have t: "policy ?t = SCHED_TS" "static_prio ?t = static_prio (tsk k p)" "sched_class ?t = FairClass"
    "pi_top_task ?t = None"
    using a p by (simp_all add: set_params_def Let_def policy_defs SETPARAM_POLICY_def policy_preds)
  have w: "set_load_weight E (upd_task k p (set_params E attr)) p True = Some ?k1"
    using t by (simp add: set_load_weight_def Let_def idle_policy_def policy_defs)
  have v: "view (tsk ?k1 p) = view ?t" using set_load_weight_task(1) [OF E w, of p] by simp
  have n: "normal_prio_of (tsk ?k1 p) = static_prio (tsk k p)"
    unfolding normal_prio_of_view [OF v]
    using t by (simp add: normal_prio_of_def normal_prio_static_def task_has_dl_policy_def task_has_rt_policy_def
        policy_preds policy_defs)
  have "pi_top_task (tsk ?k1 p) = pi_top_task (tsk (upd_task k p (set_params E attr)) p)"
    using f unfolding fair_calm_def by blast
  then have e: "rt_effective_prio ?k1 p x = x" for x
    using t(4) by (simp add: rt_effective_prio_def rt_effective_prio_of_def)
  let ?k' = "upd_task (upd_task ?k1 p (\<lambda>t. t\<lparr>prio := static_prio (tsk k p)\<rparr>)) p (\<lambda>t. t\<lparr>sched_class := setscheduler_class t\<rparr>)"
  have s: "setscheduler E k p attr True = Some ?k'"
    using w by (simp add: setscheduler_def setscheduler_params_def Let_def n e)
  have ok: "sched_priority attr \<le> 99" "MIN_NICE \<le> sched_nice attr" "sched_nice attr \<le> MAX_NICE"
    using a by (simp_all add: ts_prio_ok_def prio_defs)
  have "\<not> dl_prio (static_prio (tsk k p))" "\<not> rt_prio (static_prio (tsk k p))" "policy (tsk ?k1 p) = SCHED_TS"
    using ts_coreD(4) [OF c, of p] view_eqD(5) [OF v] t(1) by (simp_all add: ts_prio_ok_def prio_defs)
  then have "sched_class (tsk ?k' p) = TsClass" "policy (tsk ?k' p) = SCHED_TS" "prio (tsk ?k' p) = static_prio (tsk k p)"
    by (simp_all add: setscheduler_class_def ts_policy_def)
  with setscheduler_core [OF E c p(1) s ok] s show ?thesis by blast
qed

lemma enqueue_ts_same:
  assumes "sched_class (tsk k p) = TsClass" "fl AND ENQUEUE_WAKEUP = 0" "enqueue_task E k p fl = Some k'"
  shows "tsk k' = tsk k"
  using assms by (auto simp: enqueue_task_def ts_sched_class_def enqueue_task_ts_def set_ts_queue_def Let_def split: if_split_asm)

lemma put_back_ts:
  assumes E: "quiet_env E" and c: "ts_core Q k" and p: "p \<notin> Q" "sched_class (tsk k p) = TsClass"
    and fl: "fl AND ENQUEUE_WAKEUP = 0"
  shows "\<exists>k'. put_back E queued running k p fl = Some k' \<and> frame k k' \<and> prio (tsk k' p) = prio (tsk k p)"
proof -
  obtain k1 where k1: "(if queued then enqueue_task E k p fl else Some k) = Some k1"
    using enqueue_some [OF c p, of E fl] by (cases queued) auto
  have t: "tsk k1 = tsk k" using k1 enqueue_ts_same [OF p(2) fl, of E] by (auto split: if_split_asm)
  let ?k' = "if running then set_curr_task E k1 p else k1"
  have b: "put_back E queued running k p fl = Some ?k'" using k1 by (simp add: put_back_def)
  have "prio (tsk ?k' p) = prio (tsk k1 p)" using set_curr_keeps [OF E, of k1 p] by (simp add: keeps_def)
  with b put_back_frame(1) [OF E b] t show ?thesis by auto
qed

lemma policy_flags [simp]:
  "(DEQUEUE_SAVE OR DEQUEUE_NOCLOCK) AND ENQUEUE_WAKEUP = 0"
  "(DEQUEUE_SAVE OR DEQUEUE_MOVE OR DEQUEUE_NOCLOCK) AND ENQUEUE_WAKEUP = 0"
  "(DEQUEUE_SAVE OR DEQUEUE_NOCLOCK OR ENQUEUE_HEAD) AND ENQUEUE_WAKEUP = 0"
  "(DEQUEUE_SAVE OR DEQUEUE_MOVE OR DEQUEUE_NOCLOCK OR ENQUEUE_HEAD) AND ENQUEUE_WAKEUP = 0"
  "((DEQUEUE_SAVE OR DEQUEUE_NOCLOCK) OR ENQUEUE_HEAD) AND ENQUEUE_WAKEUP = 0"
  "((DEQUEUE_SAVE OR DEQUEUE_MOVE OR DEQUEUE_NOCLOCK) OR ENQUEUE_HEAD) AND ENQUEUE_WAKEUP = 0"
  by (simp_all add: flag_defs)

lemma setscheduler_move_ts:
  assumes E: "quiet_env E" and f: "fair_calm E p" and c: "core_inv k"
    and p: "sched_class (tsk k p) = FairClass" "pi_top_task (tsk k p) = None"
    and a: "sched_policy attr = SCHED_TS" "sched_priority attr = 0" "sched_nice attr = PRIO_TO_NICE (static_prio (tsk k p))"
  shows "\<exists>k'. setscheduler_move E k p attr True = Some k' \<and> sched_class (tsk k' p) = TsClass \<and>
    policy (tsk k' p) = SCHED_TS \<and> prio (tsk k' p) = static_prio (tsk k p) \<and> on_rq (tsk k' p) = on_rq (tsk k p)"
proof -
  define np where "np = (if dl_policy (sched_policy attr) then MAX_DL_PRIO - 1
                    else sint (word_of_int (MAX_RT_PRIO - 1) - sched_priority attr))"
  define fl where "fl = (if True \<and> rt_effective_prio k p np = prio (tsk k p) then DEQUEUE_SAVE OR DEQUEUE_NOCLOCK
    else DEQUEUE_SAVE OR DEQUEUE_MOVE OR DEQUEUE_NOCLOCK)"
  obtain k1 where k1: "take_off E k p fl = Some k1" "pi_top_task (tsk k1 p) = None"
    using take_off_fair [OF E f p(1), of fl] p(2) by auto
  note c1 = take_off_core [OF E c k1(1)]
  note f1 = frameD(3-8) [OF conjunct2 [OF c1], of p]
  have "ts_prio_ok (static_prio (tsk k p))" using c ts_coreD(4) by (auto simp: core_inv_def)
  from setscheduler_ts [OF E f conjunct1 [OF c1] _ _ k1(2) a this] p(1) f1 obtain k2 where
    k2: "setscheduler E k1 p attr True = Some k2" "ts_core (queued_tasks k - {p}) k2" "sched_class (tsk k2 p) = TsClass"
      "policy (tsk k2 p) = SCHED_TS" "prio (tsk k2 p) = static_prio (tsk k p)" "on_rq (tsk k2 p) = on_rq (tsk k p)"
    by auto
  define fl2 where "fl2 = (if prio (tsk k p) < prio (tsk k2 p) then fl OR ENQUEUE_HEAD else fl)"
  have "fl2 AND ENQUEUE_WAKEUP = 0" by (simp add: fl2_def fl_def)
  from put_back_ts [OF E k2(2) _ k2(3) this, of "task_on_rq_queued (tsk k p)" "task_current k p"] obtain k3 where
    k3: "put_back E (task_on_rq_queued (tsk k p)) (task_current k p) k2 p fl2 = Some k3" "frame k2 k3"
      "prio (tsk k3 p) = prio (tsk k2 p)" by auto
  let ?k' = "check_class_changed E k3 p (sched_class (tsk k1 p)) (prio (tsk k p))"
  have "setscheduler_move E k p attr True = Some ?k'"
    unfolding setscheduler_move_def Let_def np_def [symmetric] fl_def [symmetric]
    by (simp add: k1 k2(1) k3(1) fl2_def [symmetric])
  moreover have kk: "keeps k3 ?k'" by (rule check_class_changed_keeps [OF E])
  ultimately show ?thesis
    using k2 k3(3) frameD(3-8) [OF k3(2), of p] frameD(3-8) [OF keeps_frame [OF kk], of p]
    by (intro exI [of _ ?k']) (simp add: keeps_def)
qed

text \<open>
  C7. A fair task without waiters may enter the time-sharing class without any privilege: the call
  \<open>sched_setscheduler(p, SCHED_TS, 0)\<close> by its owner succeeds whatever \<open>RLIMIT_NICE\<close> and
  \<open>RLIMIT_RTPRIO\<close> are; afterwards the task has the policy \<open>SCHED_TS\<close>, the time-sharing class, the
  priority of its nice value, and when it was queued it is on the queue of that priority. The class
  precedes the fair class.
\<close>

theorem sched_setscheduler_ts:
  assumes "quiet_penv E" and "core_reach E k" and "fair_calm E p"
    and "sched_class (tsk k p) = FairClass" and "fair_policy (policy (tsk k p))" and "pi_top_task (tsk k p) = None"
    and "check_same_owner k p" and "\<not> sched_reset_on_fork (tsk k p)" and "security_task_setscheduler E p = 0"
    and "stop k \<noteq> Some p" and "\<not> dl_task (tsk k p)"
  shows "\<exists>k'. sched_setscheduler E k p SCHED_TS 0 = Some (0, k') \<and> policy (tsk k' p) = SCHED_TS \<and>
    sched_class (tsk k' p) = TsClass \<and> prio (tsk k' p) = static_prio (tsk k p) \<and>
    (task_on_rq_queued (tsk k p) \<longrightarrow> p \<in> set (ts_queue k' ! nat (prioQueue (static_prio (tsk k p))))) \<and>
    class_preempts for_each_class FairClass TsClass"
proof -
  let ?attr = "ts_request (tsk k p)"
  let ?k1 = "upd_task (update_rq_clock k) p (\<lambda>t. t\<lparr>sched_reset_on_fork := False\<rparr>)"
  have E: "quiet_env E" using assms(1) by (simp add: quiet_penv_def)
  have c: "core_inv k" by (rule core_reach_inv [OF assms(1,2)])
  have c1: "core_inv ?k1" by (rule core_mark [OF core_inv_keeps [OF c keeps_small(1)]]) simp_all
  have "sched_class (tsk ?k1 p) = FairClass" "pi_top_task (tsk ?k1 p) = None" "sched_policy ?attr = SCHED_TS"
    "sched_priority ?attr = 0" "sched_nice ?attr = PRIO_TO_NICE (static_prio (tsk ?k1 p))"
    using assms(4,6) by (simp_all add: ts_request_def)
  from setscheduler_move_ts [OF E assms(3) c1 this] obtain k' where
    k': "setscheduler_move E ?k1 p ?attr True = Some k'" "sched_class (tsk k' p) = TsClass" "policy (tsk k' p) = SCHED_TS"
      "prio (tsk k' p) = static_prio (tsk k p)" "on_rq (tsk k' p) = on_rq (tsk k p)" by auto
  have pol: "setscheduler_policy (tsk k p) ?attr = SCHED_TS" "\<not> setscheduler_reset (tsk k p) ?attr"
    by (simp_all add: setscheduler_policy_def setscheduler_reset_def ts_request_def policy_defs)
  then have "setscheduler_changes E (tsk k p) ?attr" "\<not> dl_policy SCHED_TS"
    using assms(5) by (auto simp: setscheduler_changes_def Let_def policy_preds policy_defs)
  then have r: "sched_setscheduler E k p SCHED_TS 0 = Some (0, k')"
    using ts_request_checks [OF assms(5,7,8,9)] pol assms(3,10,11) k'(1)
    by (simp add: ts_request_eq sched_setscheduler_main_def Let_def fair_calm_def)
  have "ts_prio_ok (static_prio (tsk k p))" using c ts_coreD(4) by (auto simp: core_inv_def)
  then have nice: "MIN_NICE \<le> sched_nice ?attr" "sched_nice ?attr \<le> MAX_NICE"
    by (simp_all add: ts_request_def ts_prio_ok_def prio_defs)
  have c': "ts_core (queued_tasks k') k'"
    using sched_setscheduler_core [OF assms(1) c _ nice] r by (auto simp: ts_request_eq core_inv_def)
  have "p \<in> set (ts_queue k' ! nat (prioQueue (static_prio (tsk k p))))" if "task_on_rq_queued (tsk k p)"
  proof -
    have "linked p (ts_queue k')" using that k' ts_coreD(6) [OF c'] by (simp add: queued_tasks_def task_on_rq_queued_def)
    with ts_wfD(5) [OF ts_coreD(1) [OF c']] have "p \<in> set (ts_queue k' ! ts_level k' p)" by simp
    then show ?thesis by (simp add: ts_level_def k'(4))
  qed
  with r k' show ?thesis by (auto simp: for_each_class_def)
qed

text \<open>The system boots, the fair task 5 is woken, and asks for the policy.\<close>

definition demo_fair :: "(unit kern) option" where
  "demo_fair = Option.bind (sched_init demo_env boot_kern 0) (\<lambda>k. map_option snd (try_to_wake_up demo_env k 5 TASK_NORMAL 0))"

lemma demo_fair_reach:
  "\<exists>k. core_reach demo_env k \<and> sched_class (tsk k 5) = FairClass \<and> policy (tsk k 5) = 0 \<and> pi_top_task (tsk k 5) = None \<and>
     check_same_owner k 5 \<and> \<not> sched_reset_on_fork (tsk k 5) \<and> stop k = None \<and> prio (tsk k 5) = 120 \<and>
     static_prio (tsk k 5) = 120 \<and> on_rq (tsk k 5) = 1"
proof -
  have "map_option (\<lambda>k. (sched_class (tsk k 5), policy (tsk k 5), pi_top_task (tsk k 5), check_same_owner k 5,
      sched_reset_on_fork (tsk k 5), stop k, prio (tsk k 5), static_prio (tsk k 5), on_rq (tsk k 5))) demo_fair =
    Some (FairClass, 0, None, True, False, None, 120, 120, 1)" by code_simp
  then obtain k where k: "demo_fair = Some k" "sched_class (tsk k 5) = FairClass" "policy (tsk k 5) = 0"
    "pi_top_task (tsk k 5) = None" "check_same_owner k 5" "\<not> sched_reset_on_fork (tsk k 5)" "stop k = None"
    "prio (tsk k 5) = 120" "static_prio (tsk k 5) = 120" "on_rq (tsk k 5) = 1" by auto
  from k(1) obtain k1 b where s: "sched_init demo_env boot_kern 0 = Some k1"
    "try_to_wake_up demo_env k1 5 TASK_NORMAL 0 = Some (b, k)" unfolding demo_fair_def by (auto simp: bind_eq_Some_conv)
  have "boot_image boot_kern"
    by (simp add: boot_image_def boot_kern_def blank_kern_def blank_task_def ts_prio_ok_def)
  then have "core_reach demo_env k1" using s(1) by (rule core_reach.boot)
  then have "core_reach demo_env k" by (rule core_reach.step) (rule core_step.wake [OF s(2)])
  with k show ?thesis by blast
qed

theorem sched_setscheduler_ts_witness:
  "\<exists>k k'. core_reach demo_env k \<and> sched_setscheduler demo_env k 5 SCHED_TS 0 = Some (0, k') \<and>
     sched_class (tsk k' 5) = TsClass \<and> 5 \<in> set (ts_queue k' ! 19)"
proof -
  obtain k where k: "core_reach demo_env k" "sched_class (tsk k 5) = FairClass" "policy (tsk k 5) = 0"
    "pi_top_task (tsk k 5) = None" "check_same_owner k 5" "\<not> sched_reset_on_fork (tsk k 5)" "stop k = None"
    "prio (tsk k 5) = 120" "static_prio (tsk k 5) = 120" "on_rq (tsk k 5) = 1" using demo_fair_reach by blast
  have "fair_calm demo_env 5" by (simp add: fair_calm_def demo_env_def empty_class_def)
  moreover have "fair_policy (policy (tsk k 5))" "\<not> dl_task (tsk k 5)" "task_on_rq_queued (tsk k 5)"
    "security_task_setscheduler demo_env 5 = 0" "nat (prioQueue 120) = 19"
    using k by (simp_all add: fair_policy_def policy_defs dl_task_def prio_defs task_on_rq_queued_def TASK_ON_RQ_QUEUED_def
        demo_env_def prioQueue_def)
  ultimately show ?thesis
    using sched_setscheduler_ts [OF demo_env_quiet k(1) _ k(2) _ k(4-6)] k(1,7,9) by auto
qed

end
