(* ===== verification/Sched_Attr.thy ===== *)
theory Sched_Attr
  imports Policy_Props
begin

text \<open>
  The system calls with extended attributes (\<open>ASS5/kernel/sched/core.c\<close>): copying \<open>struct sched_attr\<close>
  from and to user space, byte by byte, with the handling of structures of other sizes.

  The structure has the layout of the user interface on a little-endian machine: \<open>size\<close> and
  \<open>sched_policy\<close> (4 bytes each), \<open>sched_flags\<close> (8), \<open>sched_nice\<close> and \<open>sched_priority\<close> (4 each),
  \<open>sched_runtime\<close>, \<open>sched_deadline\<close> and \<open>sched_period\<close> (8 each), 48 bytes together.
\<close>


section \<open>The structure as bytes\<close>

definition le_bytes :: "nat \<Rightarrow> nat \<Rightarrow> u8 list" where
  "le_bytes n v = map (\<lambda>i. of_nat (v div 256 ^ i)) [0..<n]"

fun le_val :: "u8 list \<Rightarrow> nat" where
  "le_val [] = 0"
| "le_val (b # bs) = unat b + 256 * le_val bs"

lemma length_le_bytes [simp]: "length (le_bytes n v) = n"
  by (simp add: le_bytes_def)

lemma le_bytes_Suc: "le_bytes (Suc n) v = of_nat v # le_bytes n (v div 256)"
  unfolding le_bytes_def upt_conv_Cons [OF zero_less_Suc]
  by (simp add: map_Suc_upt [symmetric] div_mult2_eq del: upt_Suc)

lemma le_val_bytes: "v < 256 ^ n \<Longrightarrow> le_val (le_bytes n v) = v"
proof (induction n arbitrary: v)
  case (Suc n)
  then have "v div 256 < 256 ^ n" by (simp add: less_mult_imp_div_less mult.commute)
  then have "le_val (le_bytes n (v div 256)) = v div 256" by (rule Suc.IH)
  moreover have "unat (of_nat v :: u8) = v mod 256" by (simp add: unsigned_of_nat take_bit_eq_mod)
  ultimately show ?case by (simp add: le_bytes_Suc)
qed (simp add: le_bytes_def)

lemma le_val_u32 [simp]: "le_val (le_bytes 4 (unat (w :: u32))) = unat w"
  using unsigned_less [of w] by (intro le_val_bytes) (simp add: unsigned_less [THEN less_le_trans])

lemma le_val_u64 [simp]: "le_val (le_bytes 8 (unat (w :: u64))) = unat w"
  using unsigned_less [of w] by (intro le_val_bytes) (simp add: unsigned_less [THEN less_le_trans])

definition SCHED_ATTR_SIZE :: nat where "SCHED_ATTR_SIZE = 48"

definition attr_bytes :: "sched_attr \<Rightarrow> u8 list" where
  "attr_bytes a =
     le_bytes 4 (unat (attr_size a)) @ le_bytes 4 (unat (word_of_int (sched_policy a) :: u32)) @
     le_bytes 8 (unat (sched_flags a)) @ le_bytes 4 (unat (word_of_int (sched_nice a) :: u32)) @
     le_bytes 4 (unat (sched_priority a)) @ le_bytes 8 (unat (sched_runtime a)) @
     le_bytes 8 (unat (sched_deadline a)) @ le_bytes 8 (unat (sched_period a))"

definition field :: "nat \<Rightarrow> nat \<Rightarrow> u8 list \<Rightarrow> nat" where
  "field pos n bs = le_val (take n (drop pos bs))"

definition attr_of :: "u8 list \<Rightarrow> sched_attr" where
  "attr_of bs = \<lparr>attr_size = of_nat (field 0 4 bs),
     sched_policy = sint (of_nat (field 4 4 bs) :: u32), sched_flags = of_nat (field 8 8 bs),
     sched_nice = sint (of_nat (field 16 4 bs) :: u32), sched_priority = of_nat (field 20 4 bs),
     sched_runtime = of_nat (field 24 8 bs), sched_deadline = of_nat (field 32 8 bs),
     sched_period = of_nat (field 40 8 bs)\<rparr>"

lemma length_attr_bytes [simp]: "length (attr_bytes a) = 48"
  by (simp add: attr_bytes_def)

lemma attr_of_bytes:
  assumes "- (2 ^ 31) \<le> sched_policy a" "sched_policy a < 2 ^ 31" "- (2 ^ 31) \<le> sched_nice a" "sched_nice a < 2 ^ 31"
  shows "attr_of (attr_bytes a) = a"
proof -
  have "field 0 4 (attr_bytes a) = unat (attr_size a)" "field 4 4 (attr_bytes a) = unat (word_of_int (sched_policy a) :: u32)"
    "field 8 8 (attr_bytes a) = unat (sched_flags a)" "field 16 4 (attr_bytes a) = unat (word_of_int (sched_nice a) :: u32)"
    "field 20 4 (attr_bytes a) = unat (sched_priority a)" "field 24 8 (attr_bytes a) = unat (sched_runtime a)"
    "field 32 8 (attr_bytes a) = unat (sched_deadline a)" "field 40 8 (attr_bytes a) = unat (sched_period a)"
    by (simp_all add: field_def attr_bytes_def)
  then show ?thesis
    using sint_u32 [OF assms(1,2)] sint_u32 [OF assms(3,4)] by (simp add: attr_of_def)
qed


section \<open>User memory\<close>

text \<open>
  The memory behind a user pointer: \<open>access_ok\<close> for a length, and the byte at an offset, \<open>None\<close> where
  the access faults.
\<close>

record umem =
  access_ok :: "nat \<Rightarrow> bool"
  ubyte :: "nat \<Rightarrow> u8 option"

fun uread :: "umem \<Rightarrow> nat \<Rightarrow> nat \<Rightarrow> u8 list option" where
  "uread m pos 0 = Some []"
| "uread m pos (Suc n) = do { b \<leftarrow> ubyte m pos; bs \<leftarrow> uread m (Suc pos) n; Some (b # bs) }"

text \<open>A write stops at the first byte that cannot be stored and then reports the failure.\<close>

fun uwrite :: "umem \<Rightarrow> nat \<Rightarrow> u8 list \<Rightarrow> bool \<times> umem" where
  "uwrite m pos [] = (True, m)"
| "uwrite m pos (b # bs) =
     (if ubyte m pos = None then (False, m) else uwrite (m\<lparr>ubyte := (ubyte m)(pos \<mapsto> b)\<rparr>) (Suc pos) bs)"

lemma uread_write:
  assumes "\<forall>i. pos \<le> i \<and> i < pos + length bs \<longrightarrow> ubyte m i \<noteq> None"
  shows "\<exists>m'. uwrite m pos bs = (True, m') \<and> uread m' pos (length bs) = Some bs \<and> access_ok m' = access_ok m \<and>
    (\<forall>i. i < pos \<or> pos + length bs \<le> i \<longrightarrow> ubyte m' i = ubyte m i)"
  using assms
proof (induction bs arbitrary: pos m)
  case (Cons b bs)
  let ?m = "m\<lparr>ubyte := (ubyte m)(pos \<mapsto> b)\<rparr>"
  have "\<forall>i. Suc pos \<le> i \<and> i < Suc pos + length bs \<longrightarrow> ubyte ?m i \<noteq> None" using Cons.prems by auto
  from Cons.IH [OF this] obtain m' where m': "uwrite ?m (Suc pos) bs = (True, m')" "uread m' (Suc pos) (length bs) = Some bs"
    "access_ok m' = access_ok ?m" "\<forall>i. i < Suc pos \<or> Suc pos + length bs \<le> i \<longrightarrow> ubyte m' i = ubyte ?m i" by blast
  moreover from this have "ubyte m' pos = Some b" by simp
  moreover have "ubyte m pos \<noteq> None" using Cons.prems by simp
  ultimately show ?case by (intro exI [of _ m']) auto
qed simp

lemma uread_take: "uread m pos n = Some bs \<Longrightarrow> k \<le> n \<Longrightarrow> uread m pos k = Some (take k bs)"
proof (induction n arbitrary: pos bs k)
  case (Suc n)
  then show ?case by (cases k) (auto simp: bind_eq_Some_conv)
qed simp


section \<open>Copying the structure\<close>

definition SCHED_ATTR_SIZE_VER0 :: nat where "SCHED_ATTR_SIZE_VER0 = 48"
definition PAGE_SIZE :: nat where "PAGE_SIZE = 4096"

text \<open>The loop over the bytes the kernel does not know: 0, or the error.\<close>

datatype tail_check = TailZero | TailFault | TailSet

fun check_tail :: "umem \<Rightarrow> nat \<Rightarrow> nat \<Rightarrow> tail_check" where
  "check_tail m addr 0 = TailZero"
| "check_tail m addr (Suc n) =
     (case ubyte m addr of None \<Rightarrow> TailFault
      | Some val \<Rightarrow> if val \<noteq> 0 then TailSet else check_tail m (Suc addr) n)"

definition err_size :: "umem \<Rightarrow> (int + sched_attr) \<times> umem" where
  "err_size m = (Inl (- E2BIG), snd (uwrite m 0 (le_bytes 4 SCHED_ATTR_SIZE)))"

text \<open>The copy, once the size is known, with the structure zeroed before.\<close>

definition copy_attr :: "umem \<Rightarrow> nat \<Rightarrow> (int + sched_attr) \<times> umem" where
  "copy_attr m sz =
     (case uread m 0 sz of None \<Rightarrow> (Inl (- EFAULT), m)
      | Some bs \<Rightarrow>
          let attr = attr_of (bs @ replicate (SCHED_ATTR_SIZE - sz) 0)
          in (Inr (attr\<lparr>sched_nice := clamp (sched_nice attr) MIN_NICE MAX_NICE\<rparr>), m))"

definition sched_copy_attr :: "umem \<Rightarrow> (int + sched_attr) \<times> umem" where
  "sched_copy_attr m =
     (if \<not> access_ok m SCHED_ATTR_SIZE_VER0 then (Inl (- EFAULT), m)
      else case uread m 0 4 of None \<Rightarrow> (Inl (- EFAULT), m)
      | Some bs \<Rightarrow>
          let sz = le_val bs
          in if sz > PAGE_SIZE then err_size m
             else
               let sz = (if sz = 0 then SCHED_ATTR_SIZE_VER0 else sz)
               in if sz < SCHED_ATTR_SIZE_VER0 then err_size m
                  else if sz > SCHED_ATTR_SIZE then
                    (case check_tail m SCHED_ATTR_SIZE (sz - SCHED_ATTR_SIZE) of
                       TailFault \<Rightarrow> (Inl (- EFAULT), m)
                     | TailSet \<Rightarrow> err_size m
                     | TailZero \<Rightarrow> copy_attr m SCHED_ATTR_SIZE)
                  else copy_attr m sz)"

definition sched_read_attr :: "umem \<Rightarrow> sched_attr \<Rightarrow> nat \<Rightarrow> int \<times> umem" where
  "sched_read_attr m attr usize =
     (if \<not> access_ok m usize then (- EFAULT, m)
      else if usize < SCHED_ATTR_SIZE \<and> \<not> list_all (\<lambda>b. b = 0) (drop usize (attr_bytes attr)) then (- EFBIG, m)
      else
        let attr = (if usize < SCHED_ATTR_SIZE then attr\<lparr>attr_size := of_nat usize\<rparr> else attr);
            (ok, m) = uwrite m 0 (take (unat (attr_size attr)) (attr_bytes attr))
        in (if ok then 0 else - EFAULT, m))"


section \<open>The system calls\<close>

text \<open>\<open>None\<close> in the result is a fault of the kernel, as in \<open>sched_setattr\<close>.\<close>

definition sys_sched_setattr ::
  "('x, 'z) penv_scheme \<Rightarrow> 'x kern \<Rightarrow> int \<Rightarrow> umem option \<Rightarrow> u32 \<Rightarrow> (int \<times> 'x kern \<times> umem option) option" where
  "sys_sched_setattr E k nr uattr fl =
     (case uattr of None \<Rightarrow> Some (- EINVAL, k, None)
      | Some m \<Rightarrow>
          if nr < 0 \<or> fl \<noteq> 0 then Some (- EINVAL, k, Some m)
          else case sched_copy_attr m of
            (Inl err, m) \<Rightarrow> Some (err, k, Some m)
          | (Inr attr, m) \<Rightarrow>
              if sched_policy attr < 0 then Some (- EINVAL, k, Some m)
              else case find_process_by_pid E k nr of None \<Rightarrow> Some (- ESRCH, k, Some m)
              | Some p \<Rightarrow> map_option (\<lambda>(r, k). (r, k, Some m)) (sched_setattr E k p attr))"

text \<open>The attributes of a task.\<close>

definition task_attr :: "('x, 'z) penv_scheme \<Rightarrow> task_struct \<Rightarrow> sched_attr" where
  "task_attr E t =
     (let attr = blank_attr\<lparr>attr_size := of_nat SCHED_ATTR_SIZE, sched_policy := policy t,
                   sched_flags := (if sched_reset_on_fork t then SCHED_FLAG_RESET_ON_FORK else 0)\<rparr>
      in if task_has_dl_policy t then getparam_dl E (dl t) attr
         else if task_has_rt_policy t then attr\<lparr>sched_priority := rt_priority t\<rparr>
         else attr\<lparr>sched_nice := task_nice t\<rparr>)"

definition sys_sched_getattr ::
  "('x, 'z) penv_scheme \<Rightarrow> 'x kern \<Rightarrow> int \<Rightarrow> umem option \<Rightarrow> u32 \<Rightarrow> u32 \<Rightarrow> int \<times> umem option" where
  "sys_sched_getattr E k nr uattr sz fl =
     (case uattr of None \<Rightarrow> (- EINVAL, None)
      | Some m \<Rightarrow>
          if nr < 0 \<or> unat sz > PAGE_SIZE \<or> unat sz < SCHED_ATTR_SIZE_VER0 \<or> fl \<noteq> 0 then (- EINVAL, Some m)
          else case find_process_by_pid E k nr of None \<Rightarrow> (- ESRCH, Some m)
          | Some p \<Rightarrow>
              if security_task_getscheduler E p \<noteq> 0 then (security_task_getscheduler E p, Some m)
              else case sched_read_attr m (task_attr E (tsk k p)) (unat sz) of (r, m) \<Rightarrow> (r, Some m))"

lemmas attr_size_defs = SCHED_ATTR_SIZE_def SCHED_ATTR_SIZE_VER0_def PAGE_SIZE_def


section \<open>Properties\<close>

lemma copy_attr_bytes:
  assumes "uread m 0 48 = Some (attr_bytes a)" and "- (2 ^ 31) \<le> sched_policy a" "sched_policy a < 2 ^ 31"
    and "MIN_NICE \<le> sched_nice a" "sched_nice a \<le> MAX_NICE" and "access_ok m 48"
    and "attr_size a = 48"
  shows "sched_copy_attr m = (Inr a, m)"
proof -
  have "uread m 0 4 = Some (take 4 (attr_bytes a))" using uread_take [OF assms(1), of 4] by simp
  moreover have "le_val (take 4 (attr_bytes a)) = 48" using assms(7) le_val_u32 [of 48] by (simp add: attr_bytes_def)
  moreover have "attr_of (attr_bytes a) = a" using assms(2-5) by (intro attr_of_bytes) (simp_all add: prio_defs)
  moreover have "clamp (sched_nice a) MIN_NICE MAX_NICE = sched_nice a" using assms(4,5) by (simp add: clamp_def)
  ultimately show ?thesis
    using assms(1,6) by (simp add: sched_copy_attr_def copy_attr_def attr_size_defs Let_def)
qed

text \<open>
  C9. What \<open>sched_getattr\<close> stores, \<open>sched_setattr\<close> reads: for a task that is not a deadline task and
  memory of at least 48 bytes, the call succeeds, touches only the 48 bytes, and reading the memory
  back gives exactly the attributes of the task: its policy, its reset-on-fork flag, and its real-time
  priority or its nice value.
\<close>

theorem sched_attr_roundtrip:
  assumes "find_process_by_pid E k nr = Some p" and "0 \<le> nr" and "security_task_getscheduler E p = 0"
    and "\<not> task_has_dl_policy (tsk k p)" and "0 \<le> policy (tsk k p)" and "policy (tsk k p) < 2 ^ 31"
    and "100 \<le> static_prio (tsk k p)" and "static_prio (tsk k p) \<le> 139"
    and "48 \<le> sz" and "sz \<le> 4096" and "\<forall>i < 48. ubyte m i \<noteq> None" and "access_ok m (unat sz)" and "access_ok m 48"
  shows "\<exists>m'. sys_sched_getattr E k nr (Some m) sz 0 = (0, Some m') \<and> (\<forall>i \<ge> 48. ubyte m' i = ubyte m i) \<and>
    sched_copy_attr m' = (Inr \<lparr>attr_size = 48, sched_policy = policy (tsk k p),
      sched_flags = (if sched_reset_on_fork (tsk k p) then SCHED_FLAG_RESET_ON_FORK else 0),
      sched_nice = (if task_has_rt_policy (tsk k p) then 0 else task_nice (tsk k p)),
      sched_priority = (if task_has_rt_policy (tsk k p) then rt_priority (tsk k p) else 0),
      sched_runtime = 0, sched_deadline = 0, sched_period = 0\<rparr>, m')"
proof -
  let ?a = "task_attr E (tsk k p)"
  have a: "?a = \<lparr>attr_size = 48, sched_policy = policy (tsk k p),
      sched_flags = (if sched_reset_on_fork (tsk k p) then SCHED_FLAG_RESET_ON_FORK else 0),
      sched_nice = (if task_has_rt_policy (tsk k p) then 0 else task_nice (tsk k p)),
      sched_priority = (if task_has_rt_policy (tsk k p) then rt_priority (tsk k p) else 0),
      sched_runtime = 0, sched_deadline = 0, sched_period = 0\<rparr>"
    using assms(4) by (simp add: task_attr_def blank_attr_def SCHED_ATTR_SIZE_def Let_def)
  have "\<forall>i. 0 \<le> i \<and> i < 0 + length (attr_bytes ?a) \<longrightarrow> ubyte m i \<noteq> None" using assms(11) by simp
  from uread_write [OF this] obtain m' where m': "uwrite m 0 (attr_bytes ?a) = (True, m')"
    "uread m' 0 48 = Some (attr_bytes ?a)" "access_ok m' = access_ok m" "\<forall>i \<ge> 48. ubyte m' i = ubyte m i" by auto
  have sz: "48 \<le> unat sz" "unat sz \<le> 4096" using assms(9,10) by (simp_all add: word_le_nat_alt)
  have "attr_size ?a = 48" by (simp add: a)
  then have "sched_read_attr m ?a (unat sz) = (0, m')"
    using sz assms(12) m'(1) by (simp add: sched_read_attr_def attr_size_defs)
  then have "sys_sched_getattr E k nr (Some m) sz 0 = (0, Some m')"
    using assms(1-3) sz by (simp add: sys_sched_getattr_def attr_size_defs)
  moreover have "sched_copy_attr m' = (Inr ?a, m')"
    by (rule copy_attr_bytes [OF m'(2)]) (use assms(5-8,13) m'(3) in \<open>simp_all add: a task_nice_def prio_defs\<close>)
  ultimately show ?thesis using m'(4) unfolding a by blast
qed

text \<open>Memory of 56 bytes, all readable and zero.\<close>

definition demo_umem :: umem where
  "demo_umem = \<lparr>access_ok = (\<lambda>n. n \<le> 56), ubyte = (\<lambda>i. if i < 56 then Some 0 else None)\<rparr>"

theorem sched_attr_roundtrip_witness:
  "\<exists>m'. sys_sched_getattr demo_env boot_kern 5 (Some demo_umem) 56 0 = (0, Some m') \<and> ubyte m' 50 = Some 0 \<and>
     sched_copy_attr m' = (Inr (blank_attr\<lparr>attr_size := 48\<rparr>), m')"
proof -
  have t: "tsk boot_kern 5 = blank_task\<lparr>state := TASK_INTERRUPTIBLE\<rparr>" by (simp add: boot_kern_def blank_kern_def)
  have "\<not> task_has_dl_policy (tsk boot_kern 5)" "\<not> task_has_rt_policy (tsk boot_kern 5)"
    by (simp_all add: t blank_task_def task_has_dl_policy_def task_has_rt_policy_def policy_preds policy_defs)
  moreover have "find_process_by_pid demo_env boot_kern 5 = Some 5" "security_task_getscheduler demo_env 5 = 0"
    by (simp_all add: find_process_by_pid_def demo_env_def)
  moreover have "\<forall>i < 48. ubyte demo_umem i \<noteq> None" "access_ok demo_umem (unat (56 :: u32))" "access_ok demo_umem 48"
    by (simp_all add: demo_umem_def)
  ultimately show ?thesis
    using sched_attr_roundtrip [of demo_env boot_kern 5 5 56 demo_umem]
    by (auto simp: t blank_task_def blank_attr_def task_nice_def prio_defs policy_defs demo_umem_def)
qed

lemma uread_Some: "uread m pos n = Some bs \<Longrightarrow> \<forall>i. pos \<le> i \<and> i < pos + n \<longrightarrow> ubyte m i \<noteq> None"
proof (induction n arbitrary: pos bs)
  case (Suc n)
  then obtain b cs where "ubyte m pos = Some b" "uread m (Suc pos) n = Some cs" by (auto simp: bind_eq_Some_conv)
  with Suc.IH show ?case by (metis Suc_leI add_Suc_right add_Suc nat_less_le option.discI order_le_less)
qed auto

lemma err_size_result:
  assumes "uread m 0 4 = Some bs"
  shows "\<exists>m'. err_size m = (Inl (- E2BIG), m') \<and> uread m' 0 4 = Some (le_bytes 4 48)"
  using uread_write [of 0 "le_bytes 4 SCHED_ATTR_SIZE" m] uread_Some [OF assms]
  by (auto simp: err_size_def SCHED_ATTR_SIZE_def)

lemma check_tail_zero: "(\<forall>i. a \<le> i \<and> i < a + n \<longrightarrow> ubyte m i = Some 0) \<Longrightarrow> check_tail m a n = TailZero"
  by (induction n arbitrary: a) simp_all

lemma check_tail_set:
  assumes "\<forall>i. a \<le> i \<and> i < j \<longrightarrow> ubyte m i = Some 0" "a \<le> j" "j < a + n" "ubyte m j = Some v" "v \<noteq> 0"
  shows "check_tail m a n = TailSet"
  using assms
proof (induction n arbitrary: a)
  case (Suc n)
  show ?case
  proof (cases "j = a")
    case False
    then have "check_tail m (Suc a) n = TailSet" using Suc.prems by (intro Suc.IH) auto
    with False Suc.prems show ?thesis by simp
  qed (use Suc.prems in simp)
qed simp

text \<open>
  Structures of other sizes. When the size field can be read: a size that is too large, or smaller
  than the first version, is refused with \<open>-E2BIG\<close> and the kernel's own size is stored for the caller;
  a larger structure is refused the same way exactly when a byte the kernel does not know is set, and
  otherwise its known part is taken, with the nice value brought into range.
\<close>

lemma sched_copy_attr_sizes:
  assumes "access_ok m 48" and "uread m 0 4 = Some szb"
  shows "((le_val szb > 4096 \<or> 0 < le_val szb \<and> le_val szb < 48) \<longrightarrow>
      (\<exists>m'. sched_copy_attr m = (Inl (- E2BIG), m') \<and> uread m' 0 4 = Some (le_bytes 4 48))) \<and>
    (\<forall>j v. 48 \<le> j \<and> j < le_val szb \<and> le_val szb \<le> 4096 \<and> (\<forall>i. 48 \<le> i \<and> i < j \<longrightarrow> ubyte m i = Some 0) \<and>
        ubyte m j = Some v \<and> v \<noteq> 0 \<longrightarrow>
      (\<exists>m'. sched_copy_attr m = (Inl (- E2BIG), m') \<and> uread m' 0 4 = Some (le_bytes 4 48))) \<and>
    (\<forall>bs. (le_val szb = 0 \<or> 48 \<le> le_val szb \<and> le_val szb \<le> 4096) \<and> uread m 0 48 = Some bs \<and>
        (\<forall>i. 48 \<le> i \<and> i < le_val szb \<longrightarrow> ubyte m i = Some 0) \<longrightarrow>
      sched_copy_attr m = (Inr ((attr_of bs)\<lparr>sched_nice := clamp (sched_nice (attr_of bs)) MIN_NICE MAX_NICE\<rparr>), m))"
proof (intro conjI impI allI; (elim conjE)?)
  assume "le_val szb > 4096 \<or> 0 < le_val szb \<and> le_val szb < 48"
  then have "sched_copy_attr m = err_size m"
    using assms by (auto simp: sched_copy_attr_def attr_size_defs Let_def)
  then show "\<exists>m'. sched_copy_attr m = (Inl (- E2BIG), m') \<and> uread m' 0 4 = Some (le_bytes 4 48)"
    using err_size_result [OF assms(2)] by simp
next
  fix j v
  assume j: "48 \<le> j" "j < le_val szb" "le_val szb \<le> 4096" "\<forall>i. 48 \<le> i \<and> i < j \<longrightarrow> ubyte m i = Some 0"
    "ubyte m j = Some v" "v \<noteq> 0"
  have "check_tail m 48 (le_val szb - 48) = TailSet" by (rule check_tail_set [OF j(4,1) _ j(5,6)]) (use j in simp)
  then have "sched_copy_attr m = err_size m"
    using assms j(1-3) by (simp add: sched_copy_attr_def attr_size_defs Let_def)
  then show "\<exists>m'. sched_copy_attr m = (Inl (- E2BIG), m') \<and> uread m' 0 4 = Some (le_bytes 4 48)"
    using err_size_result [OF assms(2)] by simp
next
  fix bs
  assume b: "le_val szb = 0 \<or> 48 \<le> le_val szb \<and> le_val szb \<le> 4096" "uread m 0 48 = Some bs"
    "\<forall>i. 48 \<le> i \<and> i < le_val szb \<longrightarrow> ubyte m i = Some 0"
  have "check_tail m 48 (le_val szb - 48) = TailZero" by (rule check_tail_zero) (use b(3) in auto)
  then have "sched_copy_attr m = copy_attr m 48"
    using assms b(1) by (auto simp: sched_copy_attr_def attr_size_defs Let_def)
  then show "sched_copy_attr m = (Inr ((attr_of bs)\<lparr>sched_nice := clamp (sched_nice (attr_of bs)) MIN_NICE MAX_NICE\<rparr>), m)"
    using b(2) by (simp add: copy_attr_def SCHED_ATTR_SIZE_def Let_def)
qed

text \<open>A structure of 56 bytes whose last one is set.\<close>

end
