(* ===== verification/C_String.thy ===== *)
theory C_String
  imports Prelude "HOL-Library.Sublist"
begin

text \<open>
  The part of the C library that the user programs (\<open>ASS1\<close> to \<open>ASS4\<close>) rely on for text. A C
  string is the list of its characters without the terminating NUL; \<open>char_at\<close> reads a buffer that
  holds such a string and its NUL. \<open>strtok\<close> is a function from the rest of the string to the next
  token and the new rest, \<open>sscanf\<close> conversions are functions from the rest of the input to a
  value and the new rest (\<open>None\<close> is a matching failure, after which the target is not assigned).
\<close>


section \<open>Characters\<close>

abbreviation "NUL \<equiv> CHR 0x00"
abbreviation "TAB \<equiv> CHR 0x09"
abbreviation "NL \<equiv> CHR 0x0A"
abbreviation "SQUOTE \<equiv> CHR 0x27"
abbreviation "DQUOTE \<equiv> CHR 0x22"

definition isspace :: "char \<Rightarrow> bool" where
  "isspace c \<longleftrightarrow> c \<in> {CHR '' '', TAB, NL, CHR 0x0B, CHR 0x0C, CHR 0x0D}"

definition digit_val :: "char \<Rightarrow> int" where
  "digit_val c = int (of_char c) - 48"

definition isdigit_base :: "int \<Rightarrow> char \<Rightarrow> bool" where
  "isdigit_base b c \<longleftrightarrow> 0 \<le> digit_val c \<and> digit_val c < b"

abbreviation isdigit :: "char \<Rightarrow> bool" where
  "isdigit \<equiv> isdigit_base 10"

definition char_at :: "string \<Rightarrow> nat \<Rightarrow> char" where
  "char_at s i = (if i < length s then s ! i else NUL)"

lemma char_at_simps [simp]:
  "i < length s \<Longrightarrow> char_at s i = s ! i" "length s \<le> i \<Longrightarrow> char_at s i = NUL"
  by (simp_all add: char_at_def)


section \<open>Numbers\<close>

definition num_of :: "int \<Rightarrow> string \<Rightarrow> int" where
  "num_of b ds = foldl (\<lambda>n c. n * b + digit_val c) 0 ds"

definition sign_of :: "string \<Rightarrow> int \<times> string" where
  "sign_of s = (case s of c # cs \<Rightarrow> if c = CHR ''-'' then (-1, cs) else if c = CHR ''+'' then (1, cs)
                           else (1, s) | [] \<Rightarrow> (1, s))"

text \<open>The value \<open>strtol\<close> returns, with the two limits of \<open>long\<close>; 0 when there are no digits.\<close>

definition strtol :: "int \<Rightarrow> string \<Rightarrow> int" where
  "strtol b s =
     (let (sg, r) = sign_of (dropWhile isspace s)
      in max (- (2 ^ 63)) (min (2 ^ 63 - 1) (sg * num_of b (takeWhile (isdigit_base b) r))))"

text \<open>\<open>atoi\<close> is \<open>strtol\<close> converted to \<open>int\<close>.\<close>

definition atoi :: "string \<Rightarrow> int" where
  "atoi s = sint (word_of_int (strtol 10 s) :: u32)"

fun digits :: "nat \<Rightarrow> string" where
  "digits n = (if n < 10 then [char_of (48 + n)] else digits (n div 10) @ [char_of (48 + n mod 10)])"

declare digits.simps [simp del]

text \<open>The text of \<open>%d\<close>, and of \<open>%02d\<close> for two places.\<close>

definition show_int :: "int \<Rightarrow> string" where
  "show_int i = (if i < 0 then CHR ''-'' # digits (nat (- i)) else digits (nat i))"

definition show_int02 :: "int \<Rightarrow> string" where
  "show_int02 i =
     (let s = show_int i
      in if length s \<ge> 2 then s else replicate (2 - length s) (CHR ''0'') @ s)"

lemma of_char_digit: "n < 10 \<Longrightarrow> of_char (char_of (48 + n :: nat)) = 48 + n"
  by (simp add: of_char_of)

lemma digit_val_digit [simp]: "n < 10 \<Longrightarrow> digit_val (char_of (48 + n)) = int n"
  by (simp add: digit_val_def of_char_digit)

lemma digits_nonempty [simp]: "digits n \<noteq> []"
  by (subst digits.simps) simp

lemma digits_isdigit: "c \<in> set (digits n) \<Longrightarrow> isdigit c"
proof (induction n rule: digits.induct)
  case (1 n)
  then show ?case by (cases "n < 10") (auto simp: digits.simps [of n] isdigit_base_def)
qed

lemma num_of_digits: "num_of 10 (digits n) = int n"
proof (induction n rule: digits.induct)
  case (1 n)
  show ?case
  proof (cases "n < 10")
    case True
    then show ?thesis by (simp add: digits.simps [of n] num_of_def)
  next
    case False
    have "int (n div 10) * 10 + int (n mod 10) = int n"
      by (metis div_mult_mod_eq of_nat_add of_nat_mult of_nat_numeral)
    with False 1 show ?thesis by (simp add: digits.simps [of n] num_of_def)
  qed
qed

lemma isdigit_not_space: "isdigit c \<Longrightarrow> \<not> isspace c \<and> c \<noteq> CHR ''-'' \<and> c \<noteq> CHR ''+''"
  by (auto simp: isdigit_base_def isspace_def digit_val_def)

lemma digits_head: "dropWhile isspace (digits n @ r) = digits n @ r"
  "sign_of (digits n @ r) = (1, digits n @ r)"
proof -
  obtain c cs where "digits n = c # cs" by (cases "digits n") auto
  moreover have "isdigit c" using digits_isdigit [of c n] calculation by simp
  ultimately show "dropWhile isspace (digits n @ r) = digits n @ r"
    "sign_of (digits n @ r) = (1, digits n @ r)"
    by (auto simp: sign_of_def dest!: isdigit_not_space)
qed


section \<open>Conversions of sscanf\<close>

definition scan_int :: "string \<Rightarrow> (int \<times> string) option" where
  "scan_int s =
     (let (sg, r) = sign_of (dropWhile isspace s); ds = takeWhile isdigit r
      in if ds = [] then None else Some (sg * num_of 10 ds, dropWhile isdigit r))"

definition scan_word :: "string \<Rightarrow> (string \<times> string) option" where
  "scan_word s =
     (let r = dropWhile isspace s; w = takeWhile (\<lambda>c. \<not> isspace c) r
      in if w = [] then None else Some (w, dropWhile (\<lambda>c. \<not> isspace c) r))"

lemma scan_int_digits:
  "r = [] \<or> \<not> isdigit (hd r) \<Longrightarrow> scan_int (digits n @ r) = Some (int n, r)"
proof -
  assume r: "r = [] \<or> \<not> isdigit (hd r)"
  then have "takeWhile isdigit (digits n @ r) = digits n" "dropWhile isdigit (digits n @ r) = r"
    by (cases r; simp add: takeWhile_append2 dropWhile_append2 digits_isdigit)+
  then show ?thesis by (simp add: scan_int_def digits_head num_of_digits)
qed

lemma scan_int_space [simp]: "isspace c \<Longrightarrow> scan_int (c # s) = scan_int s"
  by (simp add: scan_int_def)

lemma scan_word_space [simp]: "isspace c \<Longrightarrow> scan_word (c # s) = scan_word s"
  by (simp add: scan_word_def)

lemma scan_word_word:
  assumes "w \<noteq> []" "\<forall>c \<in> set w. \<not> isspace c" "r = [] \<or> isspace (hd r)"
  shows "scan_word (w @ r) = Some (w, r)"
proof -
  obtain c cs where w: "w = c # cs" "\<not> isspace c" using assms by (cases w) auto
  have "dropWhile isspace (w @ r) = w @ r" using w by simp
  moreover have "takeWhile (\<lambda>c. \<not> isspace c) (w @ r) = w" "dropWhile (\<lambda>c. \<not> isspace c) (w @ r) = r"
    using assms by (cases r; simp add: takeWhile_append2 dropWhile_append2)+
  ultimately show ?thesis using assms(1) by (simp add: scan_word_def)
qed


section \<open>Tokens\<close>

text \<open>
  One call of \<open>strtok\<close>: delimiters are skipped, the token runs to the next delimiter, which is
  overwritten; the rest starts behind it. \<open>None\<close> is the null pointer.
\<close>

definition strtok :: "char set \<Rightarrow> string \<Rightarrow> (string \<times> string) option" where
  "strtok D s =
     (let r = dropWhile (\<lambda>c. c \<in> D) s
      in if r = [] then None
         else Some (takeWhile (\<lambda>c. c \<notin> D) r, drop 1 (dropWhile (\<lambda>c. c \<notin> D) r)))"

text \<open>The reference: all maximal runs of characters that are not delimiters.\<close>

function words_by :: "char set \<Rightarrow> string \<Rightarrow> string list" where
  "words_by D s =
     (case dropWhile (\<lambda>c. c \<in> D) s of [] \<Rightarrow> []
      | c # r \<Rightarrow> (c # takeWhile (\<lambda>c. c \<notin> D) r) # words_by D (dropWhile (\<lambda>c. c \<notin> D) r))"
  by pat_completeness auto
termination
proof (relation "measure (\<lambda>(D, s). length s)"; clarsimp)
  fix D :: "char set" and s c r
  assume d: "dropWhile (\<lambda>c. c \<in> D) s = c # r"
  have "length (dropWhile (\<lambda>c. c \<notin> D) r) < length (c # r)"
    using length_dropWhile_le [of "\<lambda>c. c \<notin> D" r] by simp
  also have "\<dots> \<le> length s" using length_dropWhile_le [of "\<lambda>c. c \<in> D" s] d by simp
  finally show "length (dropWhile (\<lambda>c. c \<notin> D) r) < length s" .
qed

declare words_by.simps [simp del]

lemma strtok_None_iff: "strtok D s = None \<longleftrightarrow> set s \<subseteq> D"
  by (auto simp: strtok_def Let_def dropWhile_eq_Nil_conv)

lemma words_by_Nil: "set s \<subseteq> D \<Longrightarrow> words_by D s = []"
proof -
  assume "set s \<subseteq> D"
  then have "dropWhile (\<lambda>c. c \<in> D) s = []" unfolding dropWhile_eq_Nil_conv by blast
  then show ?thesis by (subst words_by.simps) (simp only: list.case)
qed

lemma words_by_skip: "set u \<subseteq> D \<Longrightarrow> words_by D (u @ s) = words_by D s"
proof -
  assume "set u \<subseteq> D"
  then have "dropWhile (\<lambda>c. c \<in> D) (u @ s) = dropWhile (\<lambda>c. c \<in> D) s"
    by (intro dropWhile_append2) blast
  then show ?thesis by (subst (1 2) words_by.simps) simp
qed

lemma words_by_drop1: "r = [] \<or> hd r \<in> D \<Longrightarrow> words_by D (drop 1 r) = words_by D r"
  using words_by_skip [of "[hd r]" D "tl r"] by (cases r) auto

lemma strtok_words:
  assumes "strtok D s = Some (t, r)"
  shows "words_by D s = t # words_by D r" "t \<noteq> []" "set t \<inter> D = {}" "length r < length s"
proof -
  let ?u = "dropWhile (\<lambda>c. c \<in> D) s"
  obtain c u where u: "?u = c # u" "c \<notin> D"
    using assms hd_dropWhile [of "\<lambda>c. c \<in> D" s]
    by (cases ?u) (auto simp: strtok_def Let_def split: if_splits)
  then have t: "t = c # takeWhile (\<lambda>c. c \<notin> D) u" "r = drop 1 (dropWhile (\<lambda>c. c \<notin> D) u)"
    using assms by (auto simp: strtok_def Let_def)
  have "dropWhile (\<lambda>c. c \<notin> D) u = [] \<or> hd (dropWhile (\<lambda>c. c \<notin> D) u) \<in> D"
    using hd_dropWhile [of "\<lambda>c. c \<notin> D" u] by auto
  then show "words_by D s = t # words_by D r"
    using words_by_drop1 u by (subst words_by.simps) (simp add: t)
  show "t \<noteq> []" "set t \<inter> D = {}" using t u by (auto dest: set_takeWhileD)
  have "length r \<le> length u"
    using length_dropWhile_le [of "\<lambda>c. c \<notin> D" u] by (simp add: t)
  then show "length r < length s" using length_dropWhile_le [of "\<lambda>c. c \<in> D" s] u by simp
qed

lemma words_by_word:
  assumes "w \<noteq> []" "set w \<inter> D = {}" "r = [] \<or> hd r \<in> D"
  shows "words_by D (w @ r) = w # words_by D r"
proof -
  obtain c cs where w: "w = c # cs" "c \<notin> D" using assms by (cases w) auto
  have "takeWhile (\<lambda>c. c \<notin> D) (cs @ r) = cs" "dropWhile (\<lambda>c. c \<notin> D) (cs @ r) = r"
    using assms w by (cases r; auto simp: takeWhile_append2 dropWhile_append2 disjoint_iff)+
  then show ?thesis using w by (subst words_by.simps) simp
qed

text \<open>The last directory of a path, as both shells print it: the last token, if there is one.\<close>

function last_token :: "char set \<Rightarrow> string option \<Rightarrow> string \<Rightarrow> string option" where
  "last_token D cur s = (case strtok D s of None \<Rightarrow> cur | Some (t, r) \<Rightarrow> last_token D (Some t) r)"
  by pat_completeness auto
termination
  by (relation "measure (\<lambda>(D, cur, s). length s)") (auto dest: strtok_words(4))

declare last_token.simps [simp del]

lemma last_token_eq:
  "last_token D cur s =
     (if words_by D s = [] then cur else Some (last (words_by D s)))"
proof (induction D cur s rule: last_token.induct)
  case (1 D cur s)
  show ?case
  proof (cases "strtok D s")
    case None
    then have "words_by D s = []" by (simp add: strtok_None_iff words_by_Nil)
    with None show ?thesis by (simp add: last_token.simps [of D cur s])
  next
    case (Some tr)
    obtain t r where tr: "tr = (t, r)" by fastforce
    from strtok_words(1) [OF Some [unfolded tr]] 1 [OF Some tr [symmetric]] show ?thesis
      by (simp add: last_token.simps [of D cur s] Some tr)
  qed
qed

end
