(* ===== verification/Task_Groups.thy ===== *)
theory Task_Groups
  imports Sched_Policy C_String
begin

text \<open>
  Task groups (\<open>ASS5/kernel/sched/core.c\<close>, \<open>rt.c\<close> and \<open>sched.h\<close>): the tree of groups and the loop that
  walks it without recursion, the bandwidth limits of the fair class with the check of the whole
  hierarchy, the bandwidth of real-time groups, and the files by which user space reads and writes
  shares, weights and limits.

  This part of the sources exists with group scheduling configured; it shares the task and
  bandwidth structures with the rest. The functions of \<open>fair.c\<close> that it calls and the questions it
  asks the control groups are the fields of \<open>genv\<close>.
\<close>


section \<open>Groups and their tree\<close>

type_synonym gid = nat \<comment> \<open>the address of a \<open>task_group\<close>\<close>

record cfs_bandwidth =
  cfs_period :: u64
  cfs_quota :: u64
  hierarchical_quota :: u64 \<comment> \<open>an \<open>s64\<close>\<close>

record cfs_rq =
  runtime_enabled :: bool
  runtime_remaining :: int
  throttled :: bool

record task_group =
  tg_parent :: "gid option"
  children :: "gid list"
  shares :: u64
  cfs_bandwidth :: cfs_bandwidth
  tg_cfs_rq :: cfs_rq
  tg_rt_bandwidth :: rt_bandwidth
  tg_rt_runtime :: u64 \<comment> \<open>\<open>rt_runtime\<close> of the group's real-time queue\<close>

record groups =
  tgs :: "gid \<Rightarrow> task_group"
  task_groups :: "gid list"
  cfs_bandwidth_used :: int

abbreviation upd_tg :: "groups \<Rightarrow> gid \<Rightarrow> (task_group \<Rightarrow> task_group) \<Rightarrow> groups" where
  "upd_tg G g f \<equiv> G\<lparr>tgs := (tgs G)(g := f (tgs G g))\<rparr>"

definition root_task_group :: gid where "root_task_group = 0"

record genv =
  on_dfl :: bool \<comment> \<open>\<open>cgroup_subsys_on_dfl\<close>: the unified hierarchy\<close>
  threads :: "pid list"
  task_group_of :: "pid \<Rightarrow> gid"
  is_autogroup :: "gid \<Rightarrow> bool"
  refill_cfs_bandwidth_runtime :: "groups \<Rightarrow> gid \<Rightarrow> groups"
  start_cfs_bandwidth :: "groups \<Rightarrow> gid \<Rightarrow> groups"
  unthrottle_cfs_rq :: "groups \<Rightarrow> gid \<Rightarrow> groups"
  sched_group_set_shares :: "groups \<Rightarrow> gid \<Rightarrow> u64 \<Rightarrow> int \<times> groups"
  online_fair_sched_group :: "groups \<Rightarrow> gid \<Rightarrow> groups"
  unregister_fair_sched_group :: "groups \<Rightarrow> gid \<Rightarrow> groups"

text \<open>A group enters the tree as the first child of its parent, and leaves it.\<close>

definition sched_online_group :: "genv \<Rightarrow> groups \<Rightarrow> gid \<Rightarrow> gid \<Rightarrow> groups" where
  "sched_online_group V G g par =
     (let G = G\<lparr>task_groups := g # task_groups G\<rparr>;
          G = upd_tg G g (\<lambda>t. t\<lparr>tg_parent := Some par, children := []\<rparr>);
          G = upd_tg G par (\<lambda>t. t\<lparr>children := g # children t\<rparr>)
      in online_fair_sched_group V G g)"

definition sched_offline_group :: "genv \<Rightarrow> groups \<Rightarrow> gid \<Rightarrow> groups" where
  "sched_offline_group V G g =
     (let G = unregister_fair_sched_group V G g;
          G = G\<lparr>task_groups := remove1 g (task_groups G)\<rparr>
      in case tg_parent (tgs G g) of None \<Rightarrow> G
         | Some par \<Rightarrow> upd_tg G par (\<lambda>t. t\<lparr>children := remove1 g (children t)\<rparr>))"

text \<open>
  \<open>walk_tg_tree_from\<close>: the loop over the children is entered at its head (\<open>down\<close>) and, for the
  parent of a group that is done, behind that child (\<open>up\<close>). The position says where the code is;
  the visitors do not change the links of the tree.
\<close>

datatype walk_pos = Enter | Loop "gid list"

definition next_siblings :: "gid \<Rightarrow> gid list \<Rightarrow> gid list" where
  "next_siblings c xs = tl (dropWhile (\<lambda>x. x \<noteq> c) xs)"

partial_function (option) walk_loop ::
  "(gid \<Rightarrow> task_group) \<Rightarrow> (gid \<Rightarrow> 's \<Rightarrow> int \<times> 's) \<Rightarrow> (gid \<Rightarrow> 's \<Rightarrow> int \<times> 's) \<Rightarrow> gid \<Rightarrow>
     gid \<Rightarrow> walk_pos \<Rightarrow> 's \<Rightarrow> (int \<times> 's) option" where
  "walk_loop T down up from par pos s =
     (case pos of
        Enter \<Rightarrow>
          if fst (down par s) \<noteq> 0 then Some (down par s)
          else walk_loop T down up from par (Loop (children (T par))) (snd (down par s))
      | Loop (child # _) \<Rightarrow> walk_loop T down up from child Enter s
      | Loop [] \<Rightarrow>
          if fst (up par s) \<noteq> 0 \<or> par = from then Some (up par s)
          else case tg_parent (T par) of
            None \<Rightarrow> Some (up par s)
          | Some q \<Rightarrow> walk_loop T down up from q (Loop (next_siblings par (children (T q)))) (snd (up par s)))"

declare walk_loop.simps [code]

definition walk_tg_tree_from ::
  "(gid \<Rightarrow> task_group) \<Rightarrow> gid \<Rightarrow> (gid \<Rightarrow> 's \<Rightarrow> int \<times> 's) \<Rightarrow> (gid \<Rightarrow> 's \<Rightarrow> int \<times> 's) \<Rightarrow> 's \<Rightarrow> (int \<times> 's) option" where
  "walk_tg_tree_from T from down up s = walk_loop T down up from from Enter s"

definition walk_tg_tree ::
  "(gid \<Rightarrow> task_group) \<Rightarrow> (gid \<Rightarrow> 's \<Rightarrow> int \<times> 's) \<Rightarrow> (gid \<Rightarrow> 's \<Rightarrow> int \<times> 's) \<Rightarrow> 's \<Rightarrow> (int \<times> 's) option" where
  "walk_tg_tree T down up s = walk_tg_tree_from T root_task_group down up s"

definition tg_nop :: "gid \<Rightarrow> 's \<Rightarrow> int \<times> 's" where
  "tg_nop g s = (0, s)"


section \<open>The walk is a depth-first traversal\<close>

text \<open>The tree the links stand for, and the traversal one would write with recursion.\<close>

datatype tg_tree = Node gid "tg_tree list"

primrec tree_root :: "tg_tree \<Rightarrow> gid" where
  "tree_root (Node g cs) = g"

primrec tree_nodes :: "tg_tree \<Rightarrow> gid list" where
  "tree_nodes (Node g cs) = g # concat (map tree_nodes cs)"

primrec tree_of :: "(gid \<Rightarrow> task_group) \<Rightarrow> gid option \<Rightarrow> tg_tree \<Rightarrow> bool" where
  "tree_of T par (Node g cs) \<longleftrightarrow> tg_parent (T g) = par \<and> children (T g) = map tree_root cs \<and>
     list_all id (map (tree_of T (Some g)) cs)"

fun visit :: "(gid \<Rightarrow> 's \<Rightarrow> int \<times> 's) \<Rightarrow> (gid \<Rightarrow> 's \<Rightarrow> int \<times> 's) \<Rightarrow> tg_tree \<Rightarrow> 's \<Rightarrow> int \<times> 's"
  and visits :: "(gid \<Rightarrow> 's \<Rightarrow> int \<times> 's) \<Rightarrow> (gid \<Rightarrow> 's \<Rightarrow> int \<times> 's) \<Rightarrow> tg_tree list \<Rightarrow> 's \<Rightarrow> int \<times> 's" where
  "visit down up (Node g cs) s =
     (if fst (down g s) \<noteq> 0 then down g s
      else let r = visits down up cs (snd (down g s)) in if fst r \<noteq> 0 then r else up g (snd r))"
| "visits down up [] s = (0, s)"
| "visits down up (t # cs) s =
     (let r = visit down up t s in if fst r \<noteq> 0 then r else visits down up cs (snd r))"

lemma tree_root_node [simp]: "tree_root t \<in> set (tree_nodes t)"
  by (cases t) simp

lemma next_siblings_split: "c \<notin> set pre \<Longrightarrow> next_siblings c (pre @ c # post) = post"
  by (induction pre) (simp_all add: next_siblings_def)

lemma walk_children:
  assumes child: "\<And>vs u us s. cs = vs @ u # us \<Longrightarrow> walk_loop T down up from (tree_root u) Enter s =
      (let r = visit down up u s in if fst r \<noteq> 0 then Some r else walk_loop T down up from g (Loop (map tree_root us)) (snd r))"
    and "cs = vs @ us"
  shows "walk_loop T down up from g (Loop (map tree_root us)) s =
    (let r = visits down up us s in if fst r \<noteq> 0 then Some r else walk_loop T down up from g (Loop []) (snd r))"
  using assms(2)
proof (induction us arbitrary: vs s)
  case (Cons u us)
  have "walk_loop T down up from g (Loop (map tree_root (u # us))) s = walk_loop T down up from (tree_root u) Enter s"
    by (subst walk_loop.simps) simp
  then show ?case using child [OF Cons.prems] Cons.IH [of "vs @ [u]"] Cons.prems by (simp add: Let_def)
qed (simp add: Let_def)

lemma child_of_tree:
  assumes "tree_of T par (Node g cs)" "distinct (tree_nodes (Node g cs))" "cs = vs @ u # us"
  shows "tree_of T (Some g) u" "distinct (tree_nodes u)" "set (tree_nodes u) \<subseteq> set (concat (map tree_nodes cs))"
    "children (T g) = map tree_root vs @ tree_root u # map tree_root us" "tree_root u \<notin> set (map tree_root vs)"
proof -
  have d: "set (tree_nodes u) \<inter> set (concat (map tree_nodes vs)) = {}" using assms(2,3) by auto
  show "tree_root u \<notin> set (map tree_root vs)"
  proof
    assume "tree_root u \<in> set (map tree_root vs)"
    then obtain v where "v \<in> set vs" "tree_root u = tree_root v" by auto
    then have "tree_root v \<in> set (tree_nodes u)" "tree_root v \<in> set (concat (map tree_nodes vs))"
      using tree_root_node [of u] by (auto intro!: bexI [of _ v])
    with d show False by blast
  qed
qed (use assms in \<open>auto simp: list_all_iff\<close>)

text \<open>A subtree below \<open>from\<close>: the loop visits it and goes on with the siblings behind it.\<close>

lemma walk_subtree:
  assumes "tree_of T (Some q) t" "distinct (tree_nodes t)" "from \<notin> set (tree_nodes t)"
    "children (T q) = pre @ tree_root t # post" "tree_root t \<notin> set pre"
  shows "walk_loop T down up from (tree_root t) Enter s =
    (let r = visit down up t s in if fst r \<noteq> 0 then Some r else walk_loop T down up from q (Loop post) (snd r))"
  using assms
proof (induction t arbitrary: q pre post s)
  case (Node g cs)
  have "walk_loop T down up from (tree_root u) Enter s =
      (let r = visit down up u s in if fst r \<noteq> 0 then Some r else walk_loop T down up from g (Loop (map tree_root us)) (snd r))"
    if "cs = vs @ u # us" for vs u us s
    using child_of_tree [OF Node.prems(1,2) that] Node.prems(3) that by (intro Node.IH) auto
  note loop = walk_children [OF this, where vs = "[]" and us = cs, simplified]
  have up: "walk_loop T down up from g (Loop []) s =
    (if fst (up g s) \<noteq> 0 then Some (up g s) else walk_loop T down up from q (Loop post) (snd (up g s)))" for s
    using Node.prems(1,3-5) by (subst walk_loop.simps) (simp add: next_siblings_split)
  have "walk_loop T down up from g Enter s = (if fst (down g s) \<noteq> 0 then Some (down g s)
      else walk_loop T down up from g (Loop (map tree_root cs)) (snd (down g s)))"
    using Node.prems(1) by (subst walk_loop.simps) simp
  then show ?case by (simp add: loop up Let_def)
qed

lemma walk_tg_tree_visits_aux:
  assumes "tree_of T par t" and "distinct (tree_nodes t)"
  shows "walk_tg_tree_from T (tree_root t) down up s = Some (visit down up t s)"
proof (cases t)
  case (Node g cs)
  note tr = assms [unfolded Node]
  have "walk_loop T down up g (tree_root u) Enter s =
      (let r = visit down up u s in if fst r \<noteq> 0 then Some r else walk_loop T down up g g (Loop (map tree_root us)) (snd r))"
    if "cs = vs @ u # us" for vs u us s
    using child_of_tree [OF tr that] tr(2) by (intro walk_subtree) auto
  note loop = walk_children [OF this, where vs = "[]" and us = cs, simplified]
  have "walk_loop T down up g g (Loop []) s = Some (up g s)" for s by (subst walk_loop.simps) simp
  moreover have "walk_loop T down up g g Enter s = (if fst (down g s) \<noteq> 0 then Some (down g s)
      else walk_loop T down up g g (Loop (map tree_root cs)) (snd (down g s)))"
    using tr(1) by (subst walk_loop.simps) simp
  ultimately show ?thesis by (simp add: Node walk_tg_tree_from_def loop Let_def)
qed

text \<open>
  C31. The walk over the groups, a loop with jumps and without a stack, terminates on every tree of
  groups and is the recursive traversal: \<open>down\<close> when a group is entered, \<open>up\<close> when it is left for the
  last time, ending at the first visitor that returns an error, with that error.
\<close>

theorem walk_tg_tree_visits:
  assumes "tree_of T par t" and "distinct (tree_nodes t)"
  shows "walk_tg_tree_from T (tree_root t) down up s = Some (visit down up t s)"
  by (rule walk_tg_tree_visits_aux [OF assms])

text \<open>The root with the groups 1 and 2, and group 3 below group 1; the visitors record what they see.\<close>

definition blank_group :: task_group where
  "blank_group = \<lparr>tg_parent = None, children = [], shares = 1048576,
     cfs_bandwidth = \<lparr>cfs_period = 100000000, cfs_quota = RUNTIME_INF, hierarchical_quota = -1\<rparr>,
     tg_cfs_rq = \<lparr>runtime_enabled = False, runtime_remaining = 0, throttled = False\<rparr>,
     tg_rt_bandwidth = \<lparr>rt_period = 1000000000, bw_rt_runtime = 0, rt_period_active = False\<rparr>, tg_rt_runtime = 0\<rparr>"

definition demo_groups :: "gid \<Rightarrow> task_group" where
  "demo_groups g =
     (if g = 0 then blank_group\<lparr>children := [1, 2], tg_rt_bandwidth := \<lparr>rt_period = 1000000000,
        bw_rt_runtime = 950000000, rt_period_active = False\<rparr>\<rparr>
      else if g = 1 then blank_group\<lparr>tg_parent := Some 0, children := [3]\<rparr>
      else if g = 2 then blank_group\<lparr>tg_parent := Some 0\<rparr>
      else if g = 3 then blank_group\<lparr>tg_parent := Some 1\<rparr>
      else blank_group)"

abbreviation demo_tree :: tg_tree where
  "demo_tree \<equiv> Node 0 [Node 1 [Node 3 []], Node 2 []]"

lemma demo_tree_of: "tree_of demo_groups None demo_tree" "distinct (tree_nodes demo_tree)"
  by (simp_all add: demo_groups_def blank_group_def)

theorem walk_tg_tree_visits_witness:
  "walk_tg_tree_from demo_groups 0 (\<lambda>g s. (0, s @ [g])) (\<lambda>g s. (0, s @ [10 + g])) [] =
     Some (0, [0, 1, 3, 13, 11, 2, 12, 10])"
  using walk_tg_tree_visits [OF demo_tree_of, of "\<lambda>g s. (0, s @ [g])" "\<lambda>g s. (0, s @ [10 + g])" "[]"] by simp


section \<open>Bandwidth limits of the fair class\<close>

definition ERANGE :: int where "ERANGE = 34"

definition BW_SHIFT :: nat where "BW_SHIFT = 20"
definition BW_UNIT :: u64 where "BW_UNIT = push_bit BW_SHIFT 1"

definition to_ratio :: "u64 \<Rightarrow> u64 \<Rightarrow> u64" where
  "to_ratio period runtime =
     (if runtime = RUNTIME_INF then BW_UNIT
      else if period = 0 then 0
      else push_bit BW_SHIFT runtime div period)"

definition max_cfs_quota_period :: u64 where "max_cfs_quota_period = 1000000000"
definition min_cfs_quota_period :: u64 where "min_cfs_quota_period = 1000000"

definition tg_get_cfs_quota :: "task_group \<Rightarrow> int" where
  "tg_get_cfs_quota t =
     (if cfs_quota (cfs_bandwidth t) = RUNTIME_INF then - 1
      else sint (cfs_quota (cfs_bandwidth t) div NSEC_PER_USEC))"

definition tg_get_cfs_period :: "task_group \<Rightarrow> int" where
  "tg_get_cfs_period t = sint (cfs_period (cfs_bandwidth t) div NSEC_PER_USEC)"

text \<open>\<open>struct cfs_schedulable_data\<close>: the group whose limit is to change, and the new values.\<close>

record cfs_schedulable_data =
  csd_tg :: gid
  csd_period :: u64
  csd_quota :: u64

definition normalize_cfs_quota :: "(gid \<Rightarrow> task_group) \<Rightarrow> gid \<Rightarrow> cfs_schedulable_data \<Rightarrow> u64" where
  "normalize_cfs_quota T g d =
     (let period = (if g = csd_tg d then csd_period d else word_of_int (tg_get_cfs_period (T g)));
          quota = (if g = csd_tg d then csd_quota d else word_of_int (tg_get_cfs_quota (T g)))
      in if quota = RUNTIME_INF \<or> quota = - 1 then RUNTIME_INF else to_ratio period quota)"

text \<open>
  \<open>quota\<close> and \<open>parent_quota\<close> are \<open>s64\<close>: compared with each other, also by \<open>min\<close>, they are signed, and
  \<open>RUNTIME_INF\<close> is \<open>-1\<close>.
\<close>

definition min_s64 :: "u64 \<Rightarrow> u64 \<Rightarrow> u64" where
  "min_s64 a b = (if sint a < sint b then a else b)"

definition tg_cfs_schedulable_down ::
  "genv \<Rightarrow> cfs_schedulable_data \<Rightarrow> gid \<Rightarrow> (gid \<Rightarrow> task_group) \<Rightarrow> int \<times> (gid \<Rightarrow> task_group)" where
  "tg_cfs_schedulable_down V d g T =
     (let store = (\<lambda>q. T(g := (T g)\<lparr>cfs_bandwidth := (cfs_bandwidth (T g))\<lparr>hierarchical_quota := q\<rparr>\<rparr>))
      in case tg_parent (T g) of
           None \<Rightarrow> (0, store RUNTIME_INF)
         | Some par \<Rightarrow>
             let quota = normalize_cfs_quota T g d;
                 parent_quota = hierarchical_quota (cfs_bandwidth (T par))
             in if on_dfl V then (0, store (min_s64 quota parent_quota))
                else if quota = RUNTIME_INF then (0, store parent_quota)
                else if parent_quota \<noteq> RUNTIME_INF \<and> sint quota > sint parent_quota then (- EINVAL, T)
                else (0, store quota))"

text \<open>\<open>__cfs_schedulable\<close>\<close>

definition cfs_schedulable ::
  "genv \<Rightarrow> (gid \<Rightarrow> task_group) \<Rightarrow> gid \<Rightarrow> u64 \<Rightarrow> u64 \<Rightarrow> (int \<times> (gid \<Rightarrow> task_group)) option" where
  "cfs_schedulable V T g period quota =
     (let d = (if quota \<noteq> RUNTIME_INF
               then \<lparr>csd_tg = g, csd_period = period div NSEC_PER_USEC, csd_quota = quota div NSEC_PER_USEC\<rparr>
               else \<lparr>csd_tg = g, csd_period = period, csd_quota = quota\<rparr>)
      in walk_tg_tree T (tg_cfs_schedulable_down V d) tg_nop T)"

text \<open>The changes of \<open>tg_set_cfs_bandwidth\<close> once the new limit is accepted; one processor.\<close>

definition store_cfs_bandwidth :: "genv \<Rightarrow> groups \<Rightarrow> gid \<Rightarrow> u64 \<Rightarrow> u64 \<Rightarrow> groups" where
  "store_cfs_bandwidth V G g period quota =
     (let enabled = (quota \<noteq> RUNTIME_INF);
          was_enabled = (cfs_quota (cfs_bandwidth (tgs G g)) \<noteq> RUNTIME_INF);
          G = (if enabled \<and> \<not> was_enabled then G\<lparr>cfs_bandwidth_used := cfs_bandwidth_used G + 1\<rparr> else G);
          G = upd_tg G g (\<lambda>t. t\<lparr>cfs_bandwidth := (cfs_bandwidth t)\<lparr>cfs_period := period, cfs_quota := quota\<rparr>\<rparr>);
          G = refill_cfs_bandwidth_runtime V G g;
          G = (if enabled then start_cfs_bandwidth V G g else G);
          G = upd_tg G g (\<lambda>t. t\<lparr>tg_cfs_rq := (tg_cfs_rq t)\<lparr>runtime_enabled := enabled, runtime_remaining := 0\<rparr>\<rparr>);
          G = (if throttled (tg_cfs_rq (tgs G g)) then unthrottle_cfs_rq V G g else G)
      in if was_enabled \<and> \<not> enabled then G\<lparr>cfs_bandwidth_used := cfs_bandwidth_used G - 1\<rparr> else G)"

definition tg_set_cfs_bandwidth ::
  "genv \<Rightarrow> groups \<Rightarrow> gid \<Rightarrow> u64 \<Rightarrow> u64 \<Rightarrow> (int \<times> groups) option" where
  "tg_set_cfs_bandwidth V G g period quota =
     (if g = root_task_group then Some (- EINVAL, G)
      else if quota < min_cfs_quota_period \<or> period < min_cfs_quota_period then Some (- EINVAL, G)
      else if period > max_cfs_quota_period then Some (- EINVAL, G)
      else do {
        (ret, T) \<leftarrow> cfs_schedulable V (tgs G) g period quota;
        let G = G\<lparr>tgs := T\<rparr>;
        Some (if ret \<noteq> 0 then (ret, G) else (0, store_cfs_bandwidth V G g period quota))
      })"

definition tg_set_cfs_quota :: "genv \<Rightarrow> groups \<Rightarrow> gid \<Rightarrow> int \<Rightarrow> (int \<times> groups) option" where
  "tg_set_cfs_quota V G g cfs_quota_us =
     (let period = cfs_period (cfs_bandwidth (tgs G g))
      in if cfs_quota_us < 0 then tg_set_cfs_bandwidth V G g period RUNTIME_INF
         else if word_of_int cfs_quota_us \<le> (- 1 :: u64) div NSEC_PER_USEC
         then tg_set_cfs_bandwidth V G g period (word_of_int cfs_quota_us * NSEC_PER_USEC)
         else Some (- EINVAL, G))"

definition tg_set_cfs_period :: "genv \<Rightarrow> groups \<Rightarrow> gid \<Rightarrow> int \<Rightarrow> (int \<times> groups) option" where
  "tg_set_cfs_period V G g cfs_period_us =
     (if word_of_int cfs_period_us > (- 1 :: u64) div NSEC_PER_USEC then Some (- EINVAL, G)
      else tg_set_cfs_bandwidth V G g (word_of_int cfs_period_us * NSEC_PER_USEC) (cfs_quota (cfs_bandwidth (tgs G g))))"

definition cpu_cfs_quota_read_s64 :: "groups \<Rightarrow> gid \<Rightarrow> int" where
  "cpu_cfs_quota_read_s64 G g = tg_get_cfs_quota (tgs G g)"

definition cpu_cfs_quota_write_s64 :: "genv \<Rightarrow> groups \<Rightarrow> gid \<Rightarrow> int \<Rightarrow> (int \<times> groups) option" where
  "cpu_cfs_quota_write_s64 V G g us = tg_set_cfs_quota V G g us"

text \<open>The two period files pass a \<open>long\<close> through a \<open>u64\<close> and back.\<close>

definition cpu_cfs_period_read_u64 :: "groups \<Rightarrow> gid \<Rightarrow> u64" where
  "cpu_cfs_period_read_u64 G g = word_of_int (tg_get_cfs_period (tgs G g))"

definition cpu_cfs_period_write_u64 :: "genv \<Rightarrow> groups \<Rightarrow> gid \<Rightarrow> u64 \<Rightarrow> (int \<times> groups) option" where
  "cpu_cfs_period_write_u64 V G g us = tg_set_cfs_period V G g (sint us)"

text \<open>What the check of the hierarchy leaves alone: links, periods and quotas.\<close>

definition tg_limits :: "task_group \<Rightarrow> gid option \<times> gid list \<times> u64 \<times> u64" where
  "tg_limits t = (tg_parent t, children t, cfs_period (cfs_bandwidth t), cfs_quota (cfs_bandwidth t))"

abbreviation hq :: "(gid \<Rightarrow> task_group) \<Rightarrow> gid \<Rightarrow> u64" where
  "hq T g \<equiv> hierarchical_quota (cfs_bandwidth (T g))"

primrec tree_edges :: "tg_tree \<Rightarrow> (gid \<times> gid) list" where
  "tree_edges (Node g cs) = map (\<lambda>c. (g, tree_root c)) cs @ concat (map tree_edges cs)"

lemma tree_edges_nodes: "(p, c) \<in> set (tree_edges t) \<Longrightarrow> p \<in> set (tree_nodes t) \<and> c \<in> set (tree_nodes t)"
  by (induction t) fastforce

lemma tree_of_limits: "(\<And>x. tg_limits (S x) = tg_limits (T x)) \<Longrightarrow> tree_of S par t = tree_of T par t"
proof (induction t arbitrary: par)
  case (Node g cs)
  then have "tg_parent (S g) = tg_parent (T g)" "children (S g) = children (T g)"
    using Node.prems [of g] by (simp_all add: tg_limits_def)
  moreover have "\<forall>c \<in> set cs. tree_of S (Some g) c = tree_of T (Some g) c" using Node by blast
  ultimately show ?case by (simp add: list_all_iff)
qed

lemma normalize_limits: "tg_limits (S g) = tg_limits (T g) \<Longrightarrow> normalize_cfs_quota S g d = normalize_cfs_quota T g d"
  by (simp add: normalize_cfs_quota_def tg_limits_def tg_get_cfs_period_def tg_get_cfs_quota_def Let_def)

lemma cfs_down_result:
  assumes "tg_cfs_schedulable_down V d g S = (0, S')"
  shows "\<forall>x. tg_limits (S' x) = tg_limits (S x)" "\<forall>x. x \<noteq> g \<longrightarrow> S' x = S x"
  using assms
  by (auto simp: tg_cfs_schedulable_down_def Let_def tg_limits_def EINVAL_def split: option.split_asm if_split_asm)

text \<open>What holds between a group and its parent after the check; \<open>R\<close> depends on the two groups only.\<close>

lemma visit_cfs:
  assumes down: "\<forall>S S' g p. tg_cfs_schedulable_down V d g S = (0, S') \<and> tg_parent (S g) = Some p \<and> p \<noteq> g \<longrightarrow> R (S' p) (S' g) g"
    and "tree_of S par t" "distinct (tree_nodes t)" "\<And>p. par = Some p \<Longrightarrow> p \<notin> set (tree_nodes t)"
    and "visit (tg_cfs_schedulable_down V d) tg_nop t S = (0, S')"
  shows "(\<forall>x. tg_limits (S' x) = tg_limits (S x)) \<and> (\<forall>x. x \<notin> set (tree_nodes t) \<longrightarrow> S' x = S x) \<and>
    (\<forall>(p, c) \<in> set (tree_edges t). R (S' p) (S' c) c) \<and> (\<forall>p. par = Some p \<longrightarrow> R (S' p) (S' (tree_root t)) (tree_root t))"
  using assms(2-5)
proof (induction t arbitrary: par S S')
  case (Node g cs)
  let ?d = "tg_cfs_schedulable_down V d"
  obtain S1 where S1: "?d g S = (0, S1)" using Node.prems(4) by (cases "?d g S") (auto split: if_split_asm)
  note dn = cfs_down_result [OF S1]
  have vs: "visits ?d tg_nop cs S1 = (0, S')"
    using Node.prems(4) S1 unfolding tg_nop_def [abs_def] by (auto simp: Let_def prod_eq_iff split: if_split_asm)
  have tr: "tree_of S1 par (Node g cs)" using tree_of_limits dn(1) Node.prems(1) by blast
  have "(\<forall>x. tg_limits (S' x) = tg_limits (S1 x)) \<and> (\<forall>x. x \<notin> set (concat (map tree_nodes us)) \<longrightarrow> S' x = S1 x) \<and>
    (\<forall>u \<in> set us. R (S' g) (S' (tree_root u)) (tree_root u) \<and> (\<forall>(p, c) \<in> set (tree_edges u). R (S' p) (S' c) c))"
    if "cs = vs @ us" "visits ?d tg_nop us S1 = (0, S')" "tree_of S1 par (Node g cs)" for vs us S1
    using that
  proof (induction us arbitrary: vs S1)
    case (Cons u us)
    obtain S2 where S2: "visit ?d tg_nop u S1 = (0, S2)" "visits ?d tg_nop us S2 = (0, S')"
      using Cons.prems(2) by (cases "visit ?d tg_nop u S1") (auto simp: Let_def split: if_split_asm)
    note ch = child_of_tree [OF Cons.prems(3) Node.prems(2) Cons.prems(1)]
    have ng: "g \<notin> set (concat (map tree_nodes cs))" using Node.prems(2) by simp
    have "u \<in> set cs" using Cons.prems(1) by simp
    from Node.IH [OF this ch(1,2) _ S2(1)] ch(3) ng
    have u: "\<forall>x. tg_limits (S2 x) = tg_limits (S1 x)" "\<forall>x. x \<notin> set (tree_nodes u) \<longrightarrow> S2 x = S1 x"
      "\<forall>(p, c) \<in> set (tree_edges u). R (S2 p) (S2 c) c" "R (S2 g) (S2 (tree_root u)) (tree_root u)" by blast+
    have "tree_of S2 par (Node g cs)" using tree_of_limits u(1) Cons.prems(3) by blast
    from Cons.IH [OF _ S2(2) this, of "vs @ [u]"] Cons.prems(1)
    have us: "\<forall>x. tg_limits (S' x) = tg_limits (S2 x)" "\<forall>x. x \<notin> set (concat (map tree_nodes us)) \<longrightarrow> S' x = S2 x"
      "\<forall>u \<in> set us. R (S' g) (S' (tree_root u)) (tree_root u) \<and> (\<forall>(p, c) \<in> set (tree_edges u). R (S' p) (S' c) c)" by auto
    have dj: "set (tree_nodes u) \<inter> set (concat (map tree_nodes us)) = {}" using Node.prems(2) Cons.prems(1) by auto
    then have same: "S' x = S2 x" if "x \<in> set (tree_nodes u)" for x using us(2) that by blast
    have "S' g = S2 g" using us(2) ng Cons.prems(1) by auto
    then have "R (S' g) (S' (tree_root u)) (tree_root u)" using u(4) same [OF tree_root_node] by simp
    moreover have "\<forall>(p, c) \<in> set (tree_edges u). R (S' p) (S' c) c"
      using u(3) same tree_edges_nodes [of _ _ u] by fastforce
    ultimately show ?case using us u(1,2) by auto
  qed auto
  from this [OF _ vs tr, of "[]"]
  have cs: "\<forall>x. tg_limits (S' x) = tg_limits (S1 x)" "\<forall>x. x \<notin> set (concat (map tree_nodes cs)) \<longrightarrow> S' x = S1 x"
    "\<forall>u \<in> set cs. R (S' g) (S' (tree_root u)) (tree_root u) \<and> (\<forall>(p, c) \<in> set (tree_edges u). R (S' p) (S' c) c)" by auto
  have "R (S' p) (S' g) g" if "par = Some p" for p
  proof -
    have "p \<noteq> g" "p \<notin> set (concat (map tree_nodes cs))" using Node.prems(3) [OF that] by auto
    then show ?thesis using down [rule_format, of g S S1 p] S1 that Node.prems(1,2) cs(2) by simp
  qed
  then show ?case using cs dn by auto
qed

text \<open>
  The check of the fair limits on the legacy hierarchy. It returns on every tree of groups, keeps
  links, periods and quotas, and when it accepts, the effective quota it has stored for a group never
  exceeds that of its parent: a group below a limited group is limited, to at most the same share.
\<close>

lemma cfs_quota_nested:
  assumes "tree_of T None t" and "tree_root t = root_task_group" and "distinct (tree_nodes t)" and "\<not> on_dfl V"
  shows "\<exists>r T'. cfs_schedulable V T g period quota = Some (r, T') \<and>
    (r = 0 \<longrightarrow> (\<forall>x. tg_limits (T' x) = tg_limits (T x)) \<and>
      (\<forall>(p, c) \<in> set (tree_edges t). hq T' p \<noteq> RUNTIME_INF \<longrightarrow>
         hq T' c \<noteq> RUNTIME_INF \<and> sint (hq T' c) \<le> sint (hq T' p)))"
proof -
  let ?R = "\<lambda>tp tc (c :: gid). hierarchical_quota (cfs_bandwidth tp) \<noteq> RUNTIME_INF \<longrightarrow>
    hierarchical_quota (cfs_bandwidth tc) \<noteq> RUNTIME_INF \<and>
    sint (hierarchical_quota (cfs_bandwidth tc)) \<le> sint (hierarchical_quota (cfs_bandwidth tp))"
  define d where "d = (if quota \<noteq> RUNTIME_INF
     then \<lparr>csd_tg = g, csd_period = period div NSEC_PER_USEC, csd_quota = quota div NSEC_PER_USEC\<rparr>
     else \<lparr>csd_tg = g, csd_period = period, csd_quota = quota\<rparr>)"
  obtain r T' where v: "visit (tg_cfs_schedulable_down V d) tg_nop t T = (r, T')" by fastforce
  have w: "cfs_schedulable V T g period quota = Some (r, T')"
    unfolding cfs_schedulable_def d_def [symmetric] Let_def walk_tg_tree_def assms(2) [symmetric]
    by (simp add: walk_tg_tree_visits_aux [OF assms(1,3)] v)
  have R: "\<forall>S S' c p. tg_cfs_schedulable_down V d c S = (0, S') \<and> tg_parent (S c) = Some p \<and> p \<noteq> c \<longrightarrow> ?R (S' p) (S' c) c"
    using assms(4) by (auto simp: tg_cfs_schedulable_down_def Let_def EINVAL_def split: if_split_asm)
  from w v visit_cfs [OF R assms(1,3)] show ?thesis by auto
qed

text \<open>The functions of \<open>fair.c\<close> as in a system without running timers, and the two hierarchies.\<close>

definition MIN_SHARES :: u64 where "MIN_SHARES = push_bit 1 1"
definition MAX_SHARES :: u64 where "MAX_SHARES = push_bit 18 1"

definition demo_genv :: "bool \<Rightarrow> genv" where
  "demo_genv dfl = \<lparr>on_dfl = dfl, threads = [5, 7], task_group_of = (\<lambda>_. 1), is_autogroup = (\<lambda>_. False),
     refill_cfs_bandwidth_runtime = (\<lambda>G g. G), start_cfs_bandwidth = (\<lambda>G g. G),
     unthrottle_cfs_rq = (\<lambda>G g. upd_tg G g (\<lambda>t. t\<lparr>tg_cfs_rq := (tg_cfs_rq t)\<lparr>throttled := False\<rparr>\<rparr>)),
     sched_group_set_shares = (\<lambda>G g w. (0, upd_tg G g (\<lambda>t. t\<lparr>shares :=
       min (max w (scale_load MIN_SHARES)) (scale_load MAX_SHARES)\<rparr>))),
     online_fair_sched_group = (\<lambda>G g. G), unregister_fair_sched_group = (\<lambda>G g. G)\<rparr>"

text \<open>
  On the unified hierarchy the signed minimum takes \<open>RUNTIME_INF\<close>, which is \<open>-1\<close>, for the smallest
  value: as the root is unlimited, the effective quota stored for every group is \<open>RUNTIME_INF\<close>,
  whatever limits the groups have.
\<close>

lemma min_s64_inf: "sint q \<ge> - 1 \<Longrightarrow> min_s64 q RUNTIME_INF = RUNTIME_INF"
  by (simp add: min_s64_def RUNTIME_INF_def)

lemma cfs_dfl_unlimited:
  assumes "tree_of T None t" and "tree_root t = root_task_group" and "distinct (tree_nodes t)" and "on_dfl V"
    and "cfs_schedulable V T g period quota = Some (0, T')" and "(p, c) \<in> set (tree_edges t)"
    and "hq T' p = RUNTIME_INF" and "\<And>d S. - 1 \<le> sint (normalize_cfs_quota S c d)"
  shows "hq T' c = RUNTIME_INF"
proof -
  let ?R = "\<lambda>tp tc c. (\<forall>d S. - 1 \<le> sint (normalize_cfs_quota S c d)) \<and> hierarchical_quota (cfs_bandwidth tp) = RUNTIME_INF \<longrightarrow>
    hierarchical_quota (cfs_bandwidth tc) = RUNTIME_INF"
  define d where "d = (if quota \<noteq> RUNTIME_INF
     then \<lparr>csd_tg = g, csd_period = period div NSEC_PER_USEC, csd_quota = quota div NSEC_PER_USEC\<rparr>
     else \<lparr>csd_tg = g, csd_period = period, csd_quota = quota\<rparr>)"
  have v: "visit (tg_cfs_schedulable_down V d) tg_nop t T = (0, T')"
    using assms(5) walk_tg_tree_visits_aux [OF assms(1,3), of "tg_cfs_schedulable_down V d" tg_nop T]
    unfolding cfs_schedulable_def d_def [symmetric] Let_def walk_tg_tree_def assms(2) [symmetric] by simp
  have R: "\<forall>S S' c p. tg_cfs_schedulable_down V d c S = (0, S') \<and> tg_parent (S c) = Some p \<and> p \<noteq> c \<longrightarrow> ?R (S' p) (S' c) c"
    using assms(4) by (auto simp: tg_cfs_schedulable_down_def Let_def min_s64_inf)
  from v visit_cfs [OF R assms(1,3)] assms(6-8) show ?thesis by auto
qed


section \<open>Bandwidth of real-time groups\<close>

definition tg_has_rt_tasks :: "genv \<Rightarrow> 'x kern \<Rightarrow> gid \<Rightarrow> bool" where
  "tg_has_rt_tasks V k g =
     (if is_autogroup V g then False
      else list_ex (\<lambda>p. rt_task (tsk k p) \<and> task_group_of V p = g) (threads V))"

record rt_schedulable_data =
  rsd_tg :: "gid option"
  rsd_period :: u64
  rsd_runtime :: u64

text \<open>The values of a group, with the new ones for the group that is to change.\<close>

definition rt_values :: "(gid \<Rightarrow> task_group) \<Rightarrow> rt_schedulable_data \<Rightarrow> gid \<Rightarrow> u64 \<times> u64" where
  "rt_values T d g =
     (if rsd_tg d = Some g then (rsd_period d, rsd_runtime d)
      else (rt_period (tg_rt_bandwidth (T g)), bw_rt_runtime (tg_rt_bandwidth (T g))))"

definition tg_ratio :: "(gid \<Rightarrow> task_group) \<Rightarrow> rt_schedulable_data \<Rightarrow> gid \<Rightarrow> u64" where
  "tg_ratio T d g = (case rt_values T d g of (period, runtime) \<Rightarrow> to_ratio period runtime)"

definition tg_rt_schedulable :: "genv \<Rightarrow> 'x kern \<Rightarrow> (gid \<Rightarrow> task_group) \<Rightarrow> rt_schedulable_data \<Rightarrow> gid \<Rightarrow> int" where
  "tg_rt_schedulable V k T d g =
     (case rt_values T d g of (period, runtime) \<Rightarrow>
        if runtime > period \<and> runtime \<noteq> RUNTIME_INF then - EINVAL
        else if rt_bandwidth_enabled k \<and> runtime = 0 \<and> tg_has_rt_tasks V k g then - EBUSY
        else
          let total = to_ratio period runtime
          in if total > to_ratio (global_rt_period k) (global_rt_runtime k) then - EINVAL
             else if foldl (\<lambda>sum c. sum + tg_ratio T d c) 0 (children (T g)) > total then - EINVAL
             else 0)"

text \<open>\<open>__rt_schedulable\<close>\<close>

definition rt_schedulable ::
  "genv \<Rightarrow> 'x kern \<Rightarrow> (gid \<Rightarrow> task_group) \<Rightarrow> gid option \<Rightarrow> u64 \<Rightarrow> u64 \<Rightarrow> int option" where
  "rt_schedulable V k T g period runtime =
     (let d = \<lparr>rsd_tg = g, rsd_period = period, rsd_runtime = runtime\<rparr>
      in map_option fst (walk_tg_tree T (\<lambda>g s. (tg_rt_schedulable V k T d g, s)) tg_nop ()))"

definition tg_set_rt_bandwidth ::
  "genv \<Rightarrow> 'x kern \<Rightarrow> groups \<Rightarrow> gid \<Rightarrow> u64 \<Rightarrow> u64 \<Rightarrow> (int \<times> groups) option" where
  "tg_set_rt_bandwidth V k G g period runtime =
     (if g = root_task_group \<and> runtime = 0 then Some (- EINVAL, G)
      else if period = 0 then Some (- EINVAL, G)
      else do {
        err \<leftarrow> rt_schedulable V k (tgs G) (Some g) period runtime;
        Some (if err \<noteq> 0 then (err, G)
              else (0, upd_tg G g (\<lambda>t. t\<lparr>tg_rt_bandwidth := (tg_rt_bandwidth t)\<lparr>rt_period := period, bw_rt_runtime := runtime\<rparr>,
                         tg_rt_runtime := runtime\<rparr>)))
      })"

definition sched_group_set_rt_runtime ::
  "genv \<Rightarrow> 'x kern \<Rightarrow> groups \<Rightarrow> gid \<Rightarrow> int \<Rightarrow> (int \<times> groups) option" where
  "sched_group_set_rt_runtime V k G g rt_runtime_us =
     (let period = rt_period (tg_rt_bandwidth (tgs G g))
      in if rt_runtime_us < 0 then tg_set_rt_bandwidth V k G g period RUNTIME_INF
         else if word_of_int rt_runtime_us > (- 1 :: u64) div NSEC_PER_USEC then Some (- EINVAL, G)
         else tg_set_rt_bandwidth V k G g period (word_of_int rt_runtime_us * NSEC_PER_USEC))"

definition sched_group_rt_runtime :: "task_group \<Rightarrow> int" where
  "sched_group_rt_runtime t =
     (if bw_rt_runtime (tg_rt_bandwidth t) = RUNTIME_INF then - 1
      else sint (bw_rt_runtime (tg_rt_bandwidth t) div NSEC_PER_USEC))"

definition sched_group_set_rt_period ::
  "genv \<Rightarrow> 'x kern \<Rightarrow> groups \<Rightarrow> gid \<Rightarrow> u64 \<Rightarrow> (int \<times> groups) option" where
  "sched_group_set_rt_period V k G g rt_period_us =
     (if rt_period_us > (- 1 :: u64) div NSEC_PER_USEC then Some (- EINVAL, G)
      else tg_set_rt_bandwidth V k G g (rt_period_us * NSEC_PER_USEC) (bw_rt_runtime (tg_rt_bandwidth (tgs G g))))"

definition sched_group_rt_period :: "task_group \<Rightarrow> int" where
  "sched_group_rt_period t = sint (rt_period (tg_rt_bandwidth t) div NSEC_PER_USEC)"

text \<open>\<open>sched_rt_global_constraints\<close> of this configuration: no group is changed.\<close>

definition sched_rt_group_constraints :: "genv \<Rightarrow> 'x kern \<Rightarrow> (gid \<Rightarrow> task_group) \<Rightarrow> int option" where
  "sched_rt_group_constraints V k T = rt_schedulable V k T None 0 0"

definition sched_rt_can_attach :: "groups \<Rightarrow> gid \<Rightarrow> task_struct \<Rightarrow> bool" where
  "sched_rt_can_attach G g t \<longleftrightarrow> \<not> (rt_task t \<and> bw_rt_runtime (tg_rt_bandwidth (tgs G g)) = 0)"

definition cpu_cgroup_can_attach :: "groups \<Rightarrow> 'x kern \<Rightarrow> (pid \<times> gid) list \<Rightarrow> int" where
  "cpu_cgroup_can_attach G k tset =
     (if list_all (\<lambda>(p, g). sched_rt_can_attach G g (tsk k p) \<and> state (tsk k p) \<noteq> TASK_NEW) tset then 0 else - EINVAL)"

text \<open>A visitor that only checks: the walk succeeds exactly when every group passes.\<close>

lemma tg_nop_result [simp]: "fst (tg_nop g s) = 0" "snd (tg_nop g s) = s"
  by (simp_all add: tg_nop_def)

lemma visit_check:
  fixes s :: 's
  shows "fst (visit (\<lambda>g s. (chk g, s)) tg_nop t s) = 0 \<longleftrightarrow> (\<forall>g \<in> set (tree_nodes t). chk g = 0)"
proof (induction t arbitrary: s)
  case (Node g cs)
  have "fst (visits (\<lambda>g s. (chk g, s)) tg_nop us s) = 0 \<longleftrightarrow> (\<forall>u \<in> set us. \<forall>g \<in> set (tree_nodes u). chk g = 0)"
    if "set us \<subseteq> set cs" for us and s :: 's
    using that
  proof (induction us arbitrary: s)
    case (Cons u us)
    then show ?case using Node.IH [of u s] Cons.IH by (auto simp: Let_def)
  qed simp
  from this [of cs s] show ?case by (auto simp: Let_def)
qed

lemma to_ratio_le:
  assumes "runtime = RUNTIME_INF \<or> runtime \<le> period"
  shows "unat (to_ratio period runtime) \<le> 2 ^ 20"
proof (cases "runtime = RUNTIME_INF \<or> period = 0")
  case True
  then show ?thesis by (auto simp: to_ratio_def BW_UNIT_def BW_SHIFT_def)
next
  case False
  then have le: "unat runtime \<le> unat period" "0 < unat period"
    using assms by (simp_all add: word_le_nat_alt unat_gt_0)
  have "unat (push_bit 20 runtime) \<le> unat runtime * 2 ^ 20"
    by (simp add: push_bit_eq_mult unat_mult_lem unat_word_ariths)
  then have "unat (push_bit 20 runtime) \<le> unat period * 2 ^ 20" using le(1) by (meson mult_le_mono1 order_trans)
  then have "unat (push_bit 20 runtime) div unat period \<le> 2 ^ 20"
    using le(2) by (metis div_le_mono nonzero_mult_div_cancel_left not_gr_zero)
  then show ?thesis using False by (simp add: to_ratio_def BW_SHIFT_def unat_div)
qed

lemma foldl_unat:
  assumes "unat a + sum_list (map (\<lambda>c. unat (f c)) xs) < 2 ^ 64"
  shows "unat (foldl (\<lambda>s c. s + f c) (a :: u64) xs) = unat a + sum_list (map (\<lambda>c. unat (f c)) xs)"
  using assms
proof (induction xs arbitrary: a)
  case (Cons x xs)
  then have "unat (a + f x) = unat a + unat (f x)" by (simp add: unat_word_ariths)
  with Cons show ?case by simp
qed simp

lemma sum_list_le_length: "(\<And>c. c \<in> set xs \<Longrightarrow> f c \<le> (m :: nat)) \<Longrightarrow> sum_list (map f xs) \<le> length xs * m"
proof (induction xs)
  case (Cons x xs)
  then have "sum_list (map f xs) \<le> length xs * m" "f x \<le> m" by simp_all
  then show ?case by simp
qed simp

lemma tree_children: "tree_of T par t \<Longrightarrow> g \<in> set (tree_nodes t) \<Longrightarrow> c \<in> set (children (T g)) \<Longrightarrow> c \<in> set (tree_nodes t)"
proof (induction t arbitrary: par)
  case (Node h cs)
  consider "g = h" | u where "u \<in> set cs" "g \<in> set (tree_nodes u)" using Node.prems(2) by auto
  then show ?case
  proof cases
    case 1
    then obtain u where "u \<in> set cs" "c = tree_root u" using Node.prems(1,3) by auto
    then show ?thesis by (auto intro!: bexI [of _ u])
  next
    case 2
    then have "c \<in> set (tree_nodes u)" using Node by (auto simp: list_all_iff)
    with 2 show ?thesis by auto
  qed
qed

text \<open>What the administrator is promised of a group: within its period, within the system's share,
  and enough for its children, whose shares are added up without wrapping around.\<close>

definition rt_share :: "(gid \<Rightarrow> task_group) \<Rightarrow> gid \<Rightarrow> nat" where
  "rt_share T g = unat (to_ratio (rt_period (tg_rt_bandwidth (T g))) (bw_rt_runtime (tg_rt_bandwidth (T g))))"

definition rt_admitted :: "'x kern \<Rightarrow> (gid \<Rightarrow> task_group) \<Rightarrow> gid \<Rightarrow> bool" where
  "rt_admitted k T g \<longleftrightarrow>
     (bw_rt_runtime (tg_rt_bandwidth (T g)) = RUNTIME_INF \<or>
      bw_rt_runtime (tg_rt_bandwidth (T g)) \<le> rt_period (tg_rt_bandwidth (T g))) \<and>
     rt_share T g \<le> unat (to_ratio (global_rt_period k) (global_rt_runtime k)) \<and>
     sum_list (map (rt_share T) (children (T g))) \<le> rt_share T g"

lemma rt_checks_admit:
  assumes chk: "\<And>x. x \<in> set (tree_nodes t) \<Longrightarrow> tg_rt_schedulable V k T d x = 0"
    and val: "\<And>x. rt_values T d x = (rt_period (tg_rt_bandwidth (T' x)), bw_rt_runtime (tg_rt_bandwidth (T' x)))"
    and ch: "\<And>x. children (T' x) = children (T x)" and tr: "tree_of T par t" and x: "x \<in> set (tree_nodes t)"
    and glob: "global_rt_runtime k = RUNTIME_INF \<or> global_rt_runtime k \<le> global_rt_period k"
    and few: "length (children (T x)) \<le> 2 ^ 40"
  shows "rt_admitted k T' x"
proof -
  let ?gl = "unat (to_ratio (global_rt_period k) (global_rt_runtime k))"
  have r: "unat (tg_ratio T d y) = rt_share T' y" for y by (simp add: tg_ratio_def val rt_share_def)
  have le: "rt_share T' y \<le> ?gl" if "y \<in> set (tree_nodes t)" for y
    using chk [OF that]
    by (auto simp: tg_rt_schedulable_def val rt_share_def Let_def EINVAL_def EBUSY_def word_less_nat_alt not_less split: if_split_asm)
  have "rt_share T' c \<le> 2 ^ 20" if "c \<in> set (children (T x))" for c
    using le [OF tree_children [OF tr x that]] to_ratio_le [OF glob] by linarith
  then have "sum_list (map (rt_share T') (children (T x))) \<le> length (children (T x)) * 2 ^ 20"
    by (intro sum_list_le_length) simp
  then have s: "sum_list (map (rt_share T') (children (T x))) < 2 ^ 64" using few by simp
  have "unat (foldl (\<lambda>sum c. sum + tg_ratio T d c) 0 (children (T x))) = sum_list (map (rt_share T') (children (T x)))"
    using foldl_unat [of 0 "tg_ratio T d" "children (T x)"] s by (simp add: r)
  then show ?thesis
    using chk [OF x] le [OF x]
    by (auto simp: tg_rt_schedulable_def val rt_share_def [symmetric] rt_admitted_def ch Let_def EINVAL_def EBUSY_def
        word_less_nat_alt word_le_nat_alt not_less split: if_split_asm)
qed

text \<open>
  C32. Admission of real-time groups. With a global limit that passes the check of the sysctl, setting
  the bandwidth of a group always returns; an error leaves every group as it was; and after a success
  every group of the tree has a runtime within its period, at most the share of the whole system, and
  at least the sum of the shares of its children, a sum that does not wrap around.
\<close>

theorem rt_group_admission:
  assumes "tree_of (tgs G) None t" and "tree_root t = root_task_group" and "distinct (tree_nodes t)"
    and "global_rt_runtime k = RUNTIME_INF \<or> global_rt_runtime k \<le> global_rt_period k"
    and "\<forall>x. length (children (tgs G x)) \<le> 2 ^ 40"
  shows "\<exists>r G'. tg_set_rt_bandwidth V k G g period runtime = Some (r, G') \<and> (r \<noteq> 0 \<longrightarrow> G' = G) \<and>
    (r = 0 \<longrightarrow> (\<forall>x \<in> set (tree_nodes t). rt_admitted k (tgs G') x) \<and>
       rt_period (tg_rt_bandwidth (tgs G' g)) = period \<and> bw_rt_runtime (tg_rt_bandwidth (tgs G' g)) = runtime)"
proof -
  let ?d = "\<lparr>rsd_tg = Some g, rsd_period = period, rsd_runtime = runtime\<rparr>"
  let ?chk = "tg_rt_schedulable V k (tgs G) ?d"
  let ?G = "upd_tg G g (\<lambda>t. t\<lparr>tg_rt_bandwidth := (tg_rt_bandwidth t)\<lparr>rt_period := period, bw_rt_runtime := runtime\<rparr>,
     tg_rt_runtime := runtime\<rparr>)"
  obtain err u where v: "visit (\<lambda>g s. (?chk g, s)) tg_nop t () = (err, u)" by (metis surj_pair)
  have w: "rt_schedulable V k (tgs G) (Some g) period runtime = Some err"
    unfolding rt_schedulable_def Let_def walk_tg_tree_def assms(2) [symmetric]
      walk_tg_tree_visits_aux [OF assms(1,3)] by (simp add: v)
  have val: "rt_values (tgs G) ?d x = (rt_period (tg_rt_bandwidth (tgs ?G x)), bw_rt_runtime (tg_rt_bandwidth (tgs ?G x)))" for x
    by (simp add: rt_values_def)
  have "rt_admitted k (tgs ?G) x" if "err = 0" "x \<in> set (tree_nodes t)" for x
    using visit_check [of ?chk t "()"] v that(1)
    by (intro rt_checks_admit [where d = ?d and T = "tgs G" and V = V, OF _ val _ assms(1) that(2) assms(4)])
      (use assms(5) in auto)
  then show ?thesis using w by (auto simp: tg_set_rt_bandwidth_def EINVAL_def)
qed

definition demo_state :: groups where
  "demo_state = \<lparr>tgs = demo_groups, task_groups = [3, 2, 1, 0], cfs_bandwidth_used = 0\<rparr>"

text \<open>Group 1 asks for half of the processor.\<close>

theorem rt_group_admission_witness:
  "\<exists>G'. tg_set_rt_bandwidth (demo_genv False) blank_kern demo_state 1 1000000000 500000000 = Some (0, G') \<and>
     rt_admitted blank_kern (tgs G') 0 \<and> bw_rt_runtime (tg_rt_bandwidth (tgs G' 1)) = 500000000"
proof -
  have "map_option fst (tg_set_rt_bandwidth (demo_genv False) blank_kern demo_state 1 1000000000 500000000) = Some 0" by code_simp
  then obtain G' where G': "tg_set_rt_bandwidth (demo_genv False) blank_kern demo_state 1 1000000000 500000000 = Some (0, G')" by auto
  have "tree_of (tgs demo_state) None demo_tree" "tree_root demo_tree = root_task_group"
    "\<forall>x. length (children (tgs demo_state x)) \<le> 2 ^ 40"
    using demo_tree_of by (simp_all add: demo_state_def root_task_group_def) (simp add: demo_groups_def blank_group_def)
  moreover have "global_rt_runtime blank_kern \<le> global_rt_period blank_kern" by code_simp
  ultimately show ?thesis
    using rt_group_admission [of demo_state demo_tree blank_kern "demo_genv False" 1 1000000000 500000000] demo_tree_of(2) G'
    by auto
qed

section \<open>Shares and weights\<close>

definition CGROUP_WEIGHT_MIN :: u64 where "CGROUP_WEIGHT_MIN = 1"
definition CGROUP_WEIGHT_DFL :: u64 where "CGROUP_WEIGHT_DFL = 100"
definition CGROUP_WEIGHT_MAX :: u64 where "CGROUP_WEIGHT_MAX = 10000"

definition DIV_ROUND_CLOSEST_ULL :: "u64 \<Rightarrow> u64 \<Rightarrow> u64" where
  "DIV_ROUND_CLOSEST_ULL x d = (x + d div 2) div d"

definition cpu_shares_write_u64 :: "genv \<Rightarrow> groups \<Rightarrow> gid \<Rightarrow> u64 \<Rightarrow> int \<times> groups" where
  "cpu_shares_write_u64 V G g shareval =
     (let shareval = (if shareval > scale_load_down (- 1) then MAX_SHARES else shareval)
      in sched_group_set_shares V G g (scale_load shareval))"

definition cpu_shares_read_u64 :: "groups \<Rightarrow> gid \<Rightarrow> u64" where
  "cpu_shares_read_u64 G g = scale_load_down (shares (tgs G g))"

definition cpu_weight_read_u64 :: "groups \<Rightarrow> gid \<Rightarrow> u64" where
  "cpu_weight_read_u64 G g = DIV_ROUND_CLOSEST_ULL (scale_load_down (shares (tgs G g)) * CGROUP_WEIGHT_DFL) 1024"

definition cpu_weight_write_u64 :: "genv \<Rightarrow> groups \<Rightarrow> gid \<Rightarrow> u64 \<Rightarrow> int \<times> groups" where
  "cpu_weight_write_u64 V G g wt =
     (if wt < CGROUP_WEIGHT_MIN \<or> wt > CGROUP_WEIGHT_MAX then (- ERANGE, G)
      else sched_group_set_shares V G g (scale_load (DIV_ROUND_CLOSEST_ULL (wt * 1024) CGROUP_WEIGHT_DFL)))"

text \<open>
  The loop that searches the closest weight of the table. The difference is an \<open>unsigned long\<close>, \<open>abs\<close>
  reads it as signed, and the result is cut to an \<open>int\<close>; the loop ends behind the best entry.
\<close>

definition weight_delta :: "int \<Rightarrow> u64 \<Rightarrow> int" where
  "weight_delta w wt = sint (word_of_int \<bar>sint (word_of_int w - wt)\<bar> :: u32)"

fun closest_weight :: "int list \<Rightarrow> u64 \<Rightarrow> int \<Rightarrow> int \<Rightarrow> int" where
  "closest_weight [] wt last_delta pr = pr"
| "closest_weight (w # ws) wt last_delta pr =
     (let delta = weight_delta w wt
      in if delta \<ge> last_delta then pr else closest_weight ws wt delta (pr + 1))"

definition cpu_weight_nice_read_s64 :: "groups \<Rightarrow> gid \<Rightarrow> int" where
  "cpu_weight_nice_read_s64 G g =
     PRIO_TO_NICE (closest_weight sched_prio_to_weight (scale_load_down (shares (tgs G g))) 0x7FFFFFFF 0 - 1 + MAX_RT_PRIO)"

definition cpu_weight_nice_write_s64 :: "genv \<Rightarrow> groups \<Rightarrow> gid \<Rightarrow> int \<Rightarrow> int \<times> groups" where
  "cpu_weight_nice_write_s64 V G g nice =
     (if nice < MIN_NICE \<or> nice > MAX_NICE then (- ERANGE, G)
      else sched_group_set_shares V G g
             (scale_load (word_of_int (sched_prio_to_weight ! nat (NICE_TO_PRIO nice - MAX_RT_PRIO)))))"

text \<open>
  What the files rely on: \<open>sched_group_set_shares\<close> stores a value inside the permitted range of shares
  of a group other than the root as it is.
\<close>

definition stores_shares :: "genv \<Rightarrow> bool" where
  "stores_shares V \<longleftrightarrow> (\<forall>G g w. g \<noteq> root_task_group \<longrightarrow> scale_load MIN_SHARES \<le> w \<longrightarrow> w \<le> scale_load MAX_SHARES \<longrightarrow>
     (\<exists>G'. sched_group_set_shares V G g w = (0, G') \<and> shares (tgs G' g) = w))"

lemma stores_sharesD:
  assumes "stores_shares V" "g \<noteq> root_task_group" "2 \<le> n" "n \<le> 2 ^ 18"
  obtains G' where "sched_group_set_shares V G g (scale_load (of_nat n)) = (0, G')"
    "scale_load_down (shares (tgs G' g)) = of_nat n"
proof -
  have n: "unat (of_nat n :: u64) = n" using assms(4) by (simp add: unsigned_of_nat take_bit_nat_eq_self)
  have u: "unat (scale_load (of_nat n)) = n * 2 ^ 10"
    using assms(4) by (simp add: scale_load_def push_bit_eq_mult unat_word_ariths n)
  have "scale_load MIN_SHARES \<le> scale_load (of_nat n)" "scale_load (of_nat n) \<le> scale_load MAX_SHARES"
    using assms(3,4) by (simp_all add: word_le_nat_alt u) (simp_all add: scale_load_def MIN_SHARES_def MAX_SHARES_def)
  with assms(1,2) obtain G' where G': "sched_group_set_shares V G g (scale_load (of_nat n)) = (0, G')"
    "shares (tgs G' g) = scale_load (of_nat n)" unfolding stores_shares_def by blast
  have "scale_load (of_nat n) \<noteq> 0" using u assms(3) by auto
  moreover have "drop_bit 10 (scale_load (of_nat n)) = (of_nat n :: u64)"
    by (rule word_unat_eq_iff [THEN iffD2]) (simp add: drop_bit_eq_div unat_div u n)
  moreover have "(2 :: u64) \<le> of_nat n" using assms(3) by (simp add: word_le_nat_alt n)
  ultimately have "scale_load_down (shares (tgs G' g)) = of_nat n" by (simp add: G'(2) scale_load_down_def)
  with G'(1) show thesis by (rule that)
qed

lemma weight_rounds_back:
  fixes w :: nat
  shows "(((w * 1024 + 50) div 100) * 100 + 512) div 1024 = w"
proof -
  have "w * 1024 + 50 = 100 * ((w * 1024 + 50) div 100) + (w * 1024 + 50) mod 100" by simp
  moreover have "(w * 1024 + 50) mod 100 < 100" by simp
  ultimately show ?thesis by linarith
qed

lemma nice_weights:
  "list_all (\<lambda>i. 15 \<le> sched_prio_to_weight ! nat i \<and> sched_prio_to_weight ! nat i \<le> 88761 \<and>
     closest_weight sched_prio_to_weight (word_of_int (sched_prio_to_weight ! nat i)) 0x7FFFFFFF 0 = i + 1) [0..39]"
  by code_simp

text \<open>
  The two weight files of a group read back what was written to them, over their entire range, as
  the comment in the code says: a weight between 1 and 10000 survives the conversion to shares and
  back, and so does a nice value between -20 and 19 by way of the table of weights.
\<close>

lemma cpu_weight_roundtrip:
  assumes "stores_shares V" and "g \<noteq> root_task_group"
  shows "(1 \<le> w \<and> w \<le> 10000 \<longrightarrow>
      (\<exists>G'. cpu_weight_write_u64 V G g w = (0, G') \<and> cpu_weight_read_u64 G' g = w)) \<and>
    (MIN_NICE \<le> nice \<and> nice \<le> MAX_NICE \<longrightarrow>
      (\<exists>G'. cpu_weight_nice_write_s64 V G g nice = (0, G') \<and> cpu_weight_nice_read_s64 G' g = nice))"
proof (intro conjI impI)
  assume w: "1 \<le> w \<and> w \<le> 10000"
  define n where "n = (unat w * 1024 + 50) div 100"
  have u: "1 \<le> unat w" "unat w \<le> 10000" using w by (simp_all add: word_le_nat_alt)
  then have n: "2 \<le> n" "n \<le> 2 ^ 18" unfolding n_def by (simp_all add: less_eq_div_iff_mult_less_eq div_le_mono)
  have c: "DIV_ROUND_CLOSEST_ULL (w * 1024) CGROUP_WEIGHT_DFL = of_nat n"
    using u n by (intro word_unat_eq_iff [THEN iffD2])
      (simp add: DIV_ROUND_CLOSEST_ULL_def CGROUP_WEIGHT_DFL_def unat_div unat_word_ariths n_def unsigned_of_nat take_bit_nat_eq_self)
  obtain G' where G': "sched_group_set_shares V G g (scale_load (of_nat n)) = (0, G')"
    "scale_load_down (shares (tgs G' g)) = of_nat n" using stores_sharesD [OF assms n] by blast
  have "unat (of_nat n :: u64) = n" using n by (simp add: unsigned_of_nat take_bit_nat_eq_self)
  then have "cpu_weight_read_u64 G' g = w"
    using n u weight_rounds_back [of "unat w"] unfolding n_def [symmetric]
    by (intro word_unat_eq_iff [THEN iffD2])
      (simp add: cpu_weight_read_u64_def G'(2) DIV_ROUND_CLOSEST_ULL_def CGROUP_WEIGHT_DFL_def unat_div unat_word_ariths)
  moreover have "w \<noteq> 0" "\<not> 10000 < w" using w u(1) by (auto simp: not_less)
  then have "cpu_weight_write_u64 V G g w = (0, G')"
    using G'(1) by (simp add: cpu_weight_write_u64_def c CGROUP_WEIGHT_MIN_def CGROUP_WEIGHT_MAX_def)
  ultimately show "\<exists>G'. cpu_weight_write_u64 V G g w = (0, G') \<and> cpu_weight_read_u64 G' g = w" by blast
next
  assume nice: "MIN_NICE \<le> nice \<and> nice \<le> MAX_NICE"
  define i where "i = NICE_TO_PRIO nice - MAX_RT_PRIO"
  have i: "0 \<le> i" "i \<le> 39" using nice by (simp_all add: i_def prio_defs)
  let ?w = "sched_prio_to_weight ! nat i"
  have t: "15 \<le> ?w" "?w \<le> 88761" "closest_weight sched_prio_to_weight (word_of_int ?w) 0x7FFFFFFF 0 = i + 1"
    using nice_weights i by (auto simp: list_all_iff)
  have n: "2 \<le> nat ?w" "nat ?w \<le> 2 ^ 18" "of_nat (nat ?w) = (word_of_int ?w :: u64)" using t(1,2) by simp_all
  obtain G' where G': "sched_group_set_shares V G g (scale_load (of_nat (nat ?w))) = (0, G')"
    "scale_load_down (shares (tgs G' g)) = of_nat (nat ?w)" using stores_sharesD [OF assms n(1,2)] by blast
  have "cpu_weight_nice_write_s64 V G g nice = (0, G')"
    using nice G'(1) unfolding n(3) by (simp add: cpu_weight_nice_write_s64_def i_def)
  moreover have "cpu_weight_nice_read_s64 G' g = nice"
    using G'(2) t(3) unfolding n(3) by (simp add: cpu_weight_nice_read_s64_def i_def prio_defs)
  ultimately show "\<exists>G'. cpu_weight_nice_write_s64 V G g nice = (0, G') \<and> cpu_weight_nice_read_s64 G' g = nice" by blast
qed

section \<open>The file \<open>cpu.max\<close>\<close>

definition cpu_period_quota_print :: "int \<Rightarrow> int \<Rightarrow> string" where
  "cpu_period_quota_print period quota =
     (if quota < 0 then ''max'' else show_int quota) @ '' '' @ show_int period @ [NL]"

text \<open>
  \<open>%20s\<close> takes at most 20 characters; a number that is not there leaves the period as it was, and a
  number is taken modulo \<open>2 ^ 64\<close>; \<open>%llu\<close> accepts no sign. The result is the error, or the new period and quota.
\<close>

definition scan_u64 :: "string \<Rightarrow> (u64 \<times> string) option" where
  "scan_u64 s =
     (let r = dropWhile isspace s; ds = takeWhile isdigit r
      in if ds = [] then None else Some (word_of_int (num_of 10 ds), dropWhile isdigit r))"

definition cpu_period_quota_parse :: "string \<Rightarrow> u64 \<Rightarrow> int + (u64 \<times> u64)" where
  "cpu_period_quota_parse buf period =
     (case scan_word buf of None \<Rightarrow> Inl (- EINVAL)
      | Some (w, r) \<Rightarrow>
          let tok = take 20 w;
              period = (case scan_u64 (drop 20 w @ r) of None \<Rightarrow> period | Some (p, _) \<Rightarrow> p) * NSEC_PER_USEC
          in case scan_u64 tok of
               Some (q, _) \<Rightarrow> Inr (period, q * NSEC_PER_USEC)
             | None \<Rightarrow> if tok = ''max'' then Inr (period, RUNTIME_INF) else Inl (- EINVAL))"

definition cpu_max_show :: "groups \<Rightarrow> gid \<Rightarrow> string" where
  "cpu_max_show G g = cpu_period_quota_print (tg_get_cfs_period (tgs G g)) (tg_get_cfs_quota (tgs G g))"

definition cpu_max_write :: "genv \<Rightarrow> groups \<Rightarrow> gid \<Rightarrow> string \<Rightarrow> (int \<times> groups) option" where
  "cpu_max_write V G g buf =
     (case cpu_period_quota_parse buf (word_of_int (tg_get_cfs_period (tgs G g))) of
        Inl err \<Rightarrow> Some (err, G)
      | Inr (period, quota) \<Rightarrow>
          map_option (\<lambda>(ret, G). (if ret \<noteq> 0 then ret else int (length buf), G))
            (tg_set_cfs_bandwidth V G g period quota))"

lemma length_digits: "0 < k \<Longrightarrow> n < 10 ^ k \<Longrightarrow> length (digits n) \<le> k"
proof (induction n arbitrary: k rule: digits.induct)
  case (1 n)
  show ?case
  proof (cases "n < 10")
    case True
    then show ?thesis using 1(2) by (subst digits.simps) simp
  next
    case False
    then obtain j where j: "k = Suc j" "0 < j" using 1(2,3) by (cases k; cases "k - 1") auto
    then have "n div 10 < 10 ^ j" using 1(3) by (simp add: less_mult_imp_div_less mult.commute)
    then show ?thesis using 1(1) [OF False j(2)] False j(1) by (subst digits.simps) simp
  qed
qed

lemma scan_u64_digits: "r = [] \<or> \<not> isdigit (hd r) \<Longrightarrow> scan_u64 (digits n @ r) = Some (of_nat n, r)"
proof -
  assume r: "r = [] \<or> \<not> isdigit (hd r)"
  then have "takeWhile isdigit (digits n @ r) = digits n" "dropWhile isdigit (digits n @ r) = r"
    by (cases r; simp add: takeWhile_append2 dropWhile_append2 digits_isdigit)+
  then show ?thesis by (simp add: scan_u64_def digits_head num_of_digits)
qed

text \<open>What \<open>cpu.max\<close> shows is read back as the same limits.\<close>

lemma cpu_max_reads_back:
  assumes "0 \<le> period" and "quota < 2 ^ 63"
  shows "cpu_period_quota_parse (cpu_period_quota_print period quota) old =
    Inr (word_of_int period * NSEC_PER_USEC, if quota < 0 then RUNTIME_INF else word_of_int quota * NSEC_PER_USEC)"
proof -
  define w where "w = (if quota < 0 then ''max'' else digits (nat quota))"
  have pr: "cpu_period_quota_print period quota = w @ '' '' @ digits (nat period) @ [NL]"
    using assms(1) by (simp add: cpu_period_quota_print_def show_int_def w_def)
  have len: "length w \<le> 20"
    using length_digits [of 20 "nat quota"] assms(2) by (simp add: w_def)
  have "\<forall>c \<in> set w. \<not> isspace c" "w \<noteq> []"
    using digits_isdigit [of _ "nat quota"] isdigit_not_space by (auto simp: w_def isspace_def)
  then have "scan_word (w @ '' '' @ digits (nat period) @ [NL]) = Some (w, '' '' @ digits (nat period) @ [NL])"
    by (intro scan_word_word) (auto simp: isspace_def)
  moreover have "scan_u64 ('' '' @ digits (nat period) @ [NL]) = Some (of_nat (nat period), [NL])"
    using scan_u64_digits [of "[NL]" "nat period"] by (simp add: scan_u64_def isspace_def isdigit_base_def digit_val_def)
  moreover have "scan_u64 w = (if quota < 0 then None else Some (of_nat (nat quota), []))"
    using scan_u64_digits [of "[]" "nat quota"] by (simp add: w_def scan_u64_def isspace_def isdigit_base_def digit_val_def)
  ultimately show ?thesis
    using len assms(1) by (simp add: cpu_period_quota_parse_def pr w_def del: append_Cons)
qed

end
