(* ===== verification/Rate_Limit.thy ===== *)
theory Rate_Limit
  imports Prelude
begin

text \<open>
  The netfilter rate limiter, \<open>ASS6/rate_limit.c\<close>: a table of 4096 flow records indexed by a
  hash of the four-tuple, and a hook that accepts a flow freely up to \<open>threshold\<close> bytes and
  afterwards only while the bytes sent beyond it stay within \<open>rate\<close> bytes per millisecond.

  All counters keep the width of the source (\<open>unsigned int\<close> is \<open>u32\<close>, \<open>unsigned long\<close> is
  \<open>u64\<close>). The module parameters, \<open>jiffies\<close> and \<open>HZ\<close> are arguments; \<open>ntohs\<close> is that of a
  little-endian machine. \<open>printk\<close> and the registration with netfilter are not modelled.
\<close>


section \<open>The flow table\<close>

record myflow =
  saddr :: u32
  daddr :: u32
  sport :: u16
  dport :: u16
  pkt_count :: u32
  drop_count :: u32
  byte_count :: u32
  byte_drop_count :: u32
  time :: u64
  byte :: u64
  start :: u64

definition FLOW_TABLE_SIZE :: nat where
  "FLOW_TABLE_SIZE = 4096"

type_synonym flow_table = "nat \<Rightarrow> myflow" \<comment> \<open>meaningful below \<open>FLOW_TABLE_SIZE\<close>\<close>

definition hash :: "u32 \<Rightarrow> u32 \<Rightarrow> u16 \<Rightarrow> u16 \<Rightarrow> u32" where
  "hash sa da sp dp =
     ((sa mod 4096 + 1) * (da mod 4096 + 1) * (ucast sp mod 4096 + 1) * (ucast dp mod 4096 + 1))
       mod 4096"

definition zero_flow :: myflow where
  "zero_flow = \<lparr>saddr = 0, daddr = 0, sport = 0, dport = 0, pkt_count = 0, drop_count = 0,
     byte_count = 0, byte_drop_count = 0, time = 0, byte = 0, start = 0\<rparr>"

definition reset_flow :: "u64 \<Rightarrow> myflow \<Rightarrow> myflow" where
  "reset_flow jiffies flow = zero_flow\<lparr>time := jiffies, start := 0\<rparr>"

text \<open>\<open>get_flow\<close> returns a pointer into the table: its index, with the table it leaves.\<close>

definition claim_flow :: "u32 \<Rightarrow> u32 \<Rightarrow> u16 \<Rightarrow> u16 \<Rightarrow> myflow \<Rightarrow> myflow" where
  "claim_flow sa da sp dp flow =
     (if saddr flow = 0 \<and> daddr flow = 0 \<and> sport flow = 0 \<and> dport flow = 0
      then flow\<lparr>saddr := sa, daddr := da, sport := sp, dport := dp\<rparr> else flow)"

definition get_flow :: "flow_table \<Rightarrow> u32 \<Rightarrow> u32 \<Rightarrow> u16 \<Rightarrow> u16 \<Rightarrow> nat \<times> flow_table" where
  "get_flow tab sa da sp dp =
     (let i = unat (hash sa da sp dp) in (i, tab(i := claim_flow sa da sp dp (tab i))))"


section \<open>The hook\<close>

datatype verdict = NF_ACCEPT | NF_DROP

text \<open>The header fields of a packet that the hook reads, in network byte order.\<close>

record skb =
  protocol :: u8
  ip_saddr :: u32
  ip_daddr :: u32
  tot_len :: u16
  ihl :: "4 word"
  tcp_source :: u16
  tcp_dest :: u16
  doff :: "4 word"
  fin :: bool

record params =
  threshold :: int
  rate :: int
  HZ :: u64

definition IPPROTO_TCP :: u8 where
  "IPPROTO_TCP = 6"

definition ntohs :: "u16 \<Rightarrow> u16" where
  "ntohs x = push_bit 8 x OR drop_bit 8 x"

definition payload_len :: "skb \<Rightarrow> u32" where
  "payload_len b = ucast (ntohs (tot_len b)) - push_bit 2 (ucast (ihl b)) - push_bit 2 (ucast (doff b))"

definition flow_index :: "skb \<Rightarrow> nat" where
  "flow_index b = unat (hash (ip_saddr b) (ip_daddr b) (ntohs (tcp_source b)) (ntohs (tcp_dest b)))"

definition elapsed_ms :: "params \<Rightarrow> u64 \<Rightarrow> myflow \<Rightarrow> u64" where
  "elapsed_ms P jiffies flow = (jiffies - time flow) * 1000 div HZ P"

text \<open>The accounting of a packet that carries data (the body between the two \<open>goto out\<close>).\<close>

definition account :: "params \<Rightarrow> u64 \<Rightarrow> u32 \<Rightarrow> myflow \<Rightarrow> verdict \<times> myflow" where
  "account P jiffies len flow =
     (let flow = (if start flow = 0 then flow\<lparr>start := jiffies\<rparr> else flow)
      in if byte_count flow < word_of_int (threshold P)
         then (NF_ACCEPT, flow\<lparr>pkt_count := pkt_count flow + 1, byte_count := byte_count flow + len,
                 time := jiffies, byte := byte flow + ucast len\<rparr>)
         else
           let delta = elapsed_ms P jiffies flow
           in if ucast (byte_count flow) - byte flow > delta * word_of_int (rate P)
              then (NF_DROP, flow\<lparr>drop_count := drop_count flow + 1,
                      byte_drop_count := byte_drop_count flow + len\<rparr>)
              else (NF_ACCEPT, flow\<lparr>pkt_count := pkt_count flow + 1,
                      byte_count := byte_count flow + len\<rparr>))"

definition rate_limit :: "params \<Rightarrow> u64 \<Rightarrow> flow_table \<Rightarrow> skb \<Rightarrow> verdict \<times> flow_table" where
  "rate_limit P jiffies tab b =
     (if protocol b \<noteq> IPPROTO_TCP then (NF_ACCEPT, tab)
      else
        let (i, tab) = get_flow tab (ip_saddr b) (ip_daddr b) (ntohs (tcp_source b)) (ntohs (tcp_dest b));
            len = payload_len b;
            (ret, flow) = (if len = 0 then (NF_ACCEPT, tab i) else account P jiffies len (tab i));
            flow = (if fin b then reset_flow jiffies flow else flow)
        in (ret, tab(i := flow)))"

text \<open>Loading the module resets every record; the hook is only called if registration succeeds.\<close>

definition rate_limit_init_module :: "u64 \<Rightarrow> int \<Rightarrow> flow_table \<Rightarrow> int \<times> flow_table" where
  "rate_limit_init_module jiffies err tab =
     (let tab = foldl (\<lambda>t i. t(i := reset_flow jiffies (t i))) tab [0..<FLOW_TABLE_SIZE]
      in (if err < 0 then err else 0, tab))"

text \<open>A sequence of packets, each with the time at which it arrives.\<close>

fun rate_limit_run :: "params \<Rightarrow> flow_table \<Rightarrow> (u64 \<times> skb) list \<Rightarrow> verdict list \<times> flow_table" where
  "rate_limit_run P tab [] = ([], tab)"
| "rate_limit_run P tab ((j, b) # bs) =
     (let (v, tab) = rate_limit P j tab b; (vs, tab) = rate_limit_run P tab bs in (v # vs, tab))"


section \<open>Lemmas\<close>

lemma hash_lt: "unat (hash sa da sp dp) < FLOW_TABLE_SIZE"
  by (simp add: hash_def FLOW_TABLE_SIZE_def unat_mod_distrib)

lemma get_flow_eq:
  "get_flow tab (ip_saddr b) (ip_daddr b) (ntohs (tcp_source b)) (ntohs (tcp_dest b)) =
   (flow_index b, tab(flow_index b := claim_flow (ip_saddr b) (ip_daddr b) (ntohs (tcp_source b))
      (ntohs (tcp_dest b)) (tab (flow_index b))))"
  by (simp add: get_flow_def flow_index_def Let_def)

text \<open>The effect of one packet on its own record.\<close>

definition flow_step :: "params \<Rightarrow> u64 \<Rightarrow> skb \<Rightarrow> myflow \<Rightarrow> verdict \<times> myflow" where
  "flow_step P j b flow =
     (let flow = claim_flow (ip_saddr b) (ip_daddr b) (ntohs (tcp_source b)) (ntohs (tcp_dest b)) flow;
          (ret, flow) = (if payload_len b = 0 then (NF_ACCEPT, flow)
                         else account P j (payload_len b) flow)
      in (ret, if fin b then reset_flow j flow else flow))"

lemma rate_limit_tcp:
  "protocol b = IPPROTO_TCP \<Longrightarrow>
   rate_limit P j tab b =
     (fst (flow_step P j b (tab (flow_index b))),
      tab(flow_index b := snd (flow_step P j b (tab (flow_index b)))))"
  by (simp add: rate_limit_def get_flow_eq flow_step_def Let_def split_beta)

lemma claim_flow_counters [simp]:
  "pkt_count (claim_flow sa da sp dp f) = pkt_count f"
  "drop_count (claim_flow sa da sp dp f) = drop_count f"
  "byte_count (claim_flow sa da sp dp f) = byte_count f"
  "byte_drop_count (claim_flow sa da sp dp f) = byte_drop_count f"
  "time (claim_flow sa da sp dp f) = time f" "byte (claim_flow sa da sp dp f) = byte f"
  "start (claim_flow sa da sp dp f) = start f"
  by (simp_all add: claim_flow_def)

lemma account_counts:
  "account P j len f = (v, f') \<Longrightarrow>
   byte_count f' + byte_drop_count f' = byte_count f + byte_drop_count f + len \<and>
   pkt_count f' + drop_count f' = pkt_count f + drop_count f + 1"
  by (auto simp: account_def Let_def algebra_simps split: if_splits)

lemma flow_step_counts:
  assumes "flow_step P j b f = (v, f')" "\<not> fin b"
  shows "byte_count f' + byte_drop_count f' = byte_count f + byte_drop_count f + payload_len b"
    and "pkt_count f' + drop_count f' =
      pkt_count f + drop_count f + (if payload_len b = 0 then 0 else 1)"
  using assms account_counts
  by (force simp: flow_step_def Let_def split: if_splits prod.splits)+

text \<open>The packets of one list that reach a given record.\<close>

definition hits :: "nat \<Rightarrow> (u64 \<times> skb) list \<Rightarrow> (u64 \<times> skb) list" where
  "hits i bs = filter (\<lambda>(j, b). protocol b = IPPROTO_TCP \<and> flow_index b = i) bs"

fun flow_run :: "params \<Rightarrow> myflow \<Rightarrow> (u64 \<times> skb) list \<Rightarrow> myflow" where
  "flow_run P f [] = f"
| "flow_run P f ((j, b) # bs) = flow_run P (snd (flow_step P j b f)) bs"

lemma rate_limit_run_slot: "snd (rate_limit_run P tab bs) i = flow_run P (tab i) (hits i bs)"
proof (induction bs arbitrary: tab)
  case (Cons x bs)
  obtain j b where x: "x = (j, b)" by fastforce
  show ?case
  proof (cases "protocol b = IPPROTO_TCP")
    case True
    then show ?thesis
      using Cons.IH by (auto simp: x rate_limit_tcp hits_def split_beta)
  next
    case False
    then show ?thesis
      using Cons.IH by (auto simp: x rate_limit_def hits_def split_beta)
  qed
qed (simp add: hits_def)

lemma flow_run_counts:
  "\<forall>(j, b) \<in> set bs. \<not> fin b \<Longrightarrow>
   byte_count (flow_run P f bs) + byte_drop_count (flow_run P f bs) =
     byte_count f + byte_drop_count f + sum_list (map (payload_len \<circ> snd) bs)"
proof (induction P f bs rule: flow_run.induct)
  case (2 P f j b bs)
  obtain v f' where st: "flow_step P j b f = (v, f')" by fastforce
  with 2 flow_step_counts(1) [OF st] show ?case by (simp add: algebra_simps)
qed simp


section \<open>The limit holds\<close>

lemma unat_mult_le: "unat (x * y) \<le> unat x * unat (y :: 'a::len word)"
  by (simp add: unat_word_ariths)

lemma unat_word_of_int: "0 \<le> i \<Longrightarrow> i < 2 ^ 31 \<Longrightarrow> unat (word_of_int i :: u32) = nat i"
  and unat_word_of_int64: "0 \<le> i \<Longrightarrow> i < 2 ^ 31 \<Longrightarrow> unat (word_of_int i :: u64) = nat i"
  by (simp_all add: unat_eq_nat_uint uint_word_of_int_eq take_bit_int_eq_self)

lemma unat_ucast_32_64 [simp]: "unat (ucast (x :: u32) :: u64) = unat x"
  using unsigned_less [of x, where 'a = nat] by (simp add: unsigned_ucast_eq take_bit_nat_eq_self)

text \<open>Bytes a record may let through beyond the threshold within \<open>D\<close> jiffies.\<close>

definition budget :: "params \<Rightarrow> nat \<Rightarrow> nat" where
  "budget P D = D * 1000 div unat (HZ P) * nat (rate P)"

lemma elapsed_budget:
  assumes "unat (time f) \<le> unat j" "unat j \<le> unat (time f) + D" "0 \<le> rate P" "rate P < 2 ^ 31"
  shows "unat (elapsed_ms P j f * word_of_int (rate P)) \<le> budget P D"
proof -
  have "unat (j - time f) \<le> D" using assms(1,2) by (simp add: unat_sub word_le_nat_alt)
  moreover have "unat ((j - time f) * 1000) \<le> unat (j - time f) * 1000"
    using unat_mult_le [of "j - time f" 1000] by simp
  ultimately have "unat ((j - time f) * 1000) \<le> D * 1000" by linarith
  then have "unat (elapsed_ms P j f) \<le> D * 1000 div unat (HZ P)"
    by (simp add: elapsed_ms_def unat_div_distrib div_le_mono)
  then have "unat (elapsed_ms P j f) * unat (word_of_int (rate P) :: u64) \<le> budget P D"
    using assms(3,4) by (simp add: budget_def unat_word_of_int64)
  then show ?thesis using unat_mult_le order_trans by blast
qed

text \<open>
  A record is within bounds: either still in the free phase, or with the free bytes below the
  threshold plus one packet and the bytes beyond them below the budget plus one packet.
\<close>

definition in_bounds :: "params \<Rightarrow> nat \<Rightarrow> nat \<Rightarrow> myflow \<Rightarrow> bool" where
  "in_bounds P D L f \<longleftrightarrow>
     (let bc = unat (byte_count f); by = unat (byte f); t = nat (threshold P)
      in bc < t \<and> by = bc \<or>
         t \<le> bc \<and> by < t + L \<and> by \<le> bc \<and> bc \<le> by + budget P D + L)"

lemma account_in_bounds:
  assumes ib: "in_bounds P D L f" and len: "unat len \<le> L"
    and t: "unat (time f) \<le> unat j" "unat j \<le> unat (time f) + D"
    and P: "0 \<le> rate P" "rate P < 2 ^ 31" "0 < threshold P" "threshold P < 2 ^ 31"
    and fit: "nat (threshold P) + 2 * L + budget P D < 2 ^ 32"
    and acc: "account P j len f = (v, f')"
  shows "in_bounds P D L f' \<and> (time f' = time f \<or> time f' = j)"
proof -
  let ?f = "if start f = 0 then f\<lparr>start := j\<rparr> else f"
  have thr: "byte_count f < word_of_int (threshold P) \<longleftrightarrow> unat (byte_count f) < nat (threshold P)"
    using P by (simp add: word_less_nat_alt unat_word_of_int)
  show ?thesis
  proof (cases "unat (byte_count f) < nat (threshold P)")
    case True
    with ib have eq: "unat (byte f) = unat (byte_count f)" by (auto simp: in_bounds_def Let_def)
    have "unat (byte_count f + len) = unat (byte_count f) + unat len"
      and "unat (byte f + ucast len) = unat (byte_count f) + unat len"
      using True len fit eq by (auto simp: unat_word_ariths)
    with True acc len show ?thesis
      by (auto simp: account_def Let_def thr in_bounds_def split: if_splits)
  next
    case False
    with ib have b: "unat (byte f) < nat (threshold P) + L" "unat (byte f) \<le> unat (byte_count f)"
      by (auto simp: in_bounds_def Let_def)
    have ex: "unat (ucast (byte_count f) - byte f) = unat (byte_count f) - unat (byte f)"
      using b(2) by (simp add: unat_sub word_le_nat_alt)
    show ?thesis
    proof (cases "ucast (byte_count f) - byte f > elapsed_ms P j f * word_of_int (rate P)")
      case True
      with False acc ib show ?thesis
        by (auto simp: account_def Let_def thr in_bounds_def elapsed_ms_def split: if_splits)
    next
      case nex: False
      then have "unat (byte_count f) - unat (byte f) \<le> budget P D"
        using elapsed_budget [OF t P(1,2)] ex by (simp add: word_less_nat_alt not_less)
      then have le: "unat (byte_count f) \<le> unat (byte f) + budget P D" by linarith
      then have "unat (byte_count f + len) = unat (byte_count f) + unat len"
        using b len fit by (auto simp: unat_word_ariths)
      with False nex acc b le len show ?thesis
        by (auto simp: account_def Let_def thr in_bounds_def elapsed_ms_def split: if_splits)
    qed
  qed
qed

lemma flow_step_in_bounds:
  assumes "in_bounds P D L f" "unat (payload_len b) \<le> L"
    and "unat (time f) \<le> unat j" "unat j \<le> unat (time f) + D"
    and "0 \<le> rate P" "rate P < 2 ^ 31" "0 < threshold P" "threshold P < 2 ^ 31"
    and "nat (threshold P) + 2 * L + budget P D < 2 ^ 32" and "\<not> fin b"
  shows "in_bounds P D L (snd (flow_step P j b f)) \<and>
    (time (snd (flow_step P j b f)) = time f \<or> time (snd (flow_step P j b f)) = j)"
proof -
  let ?f = "claim_flow (ip_saddr b) (ip_daddr b) (ntohs (tcp_source b)) (ntohs (tcp_dest b)) f"
  have "in_bounds P D L ?f" using assms(1) by (simp add: in_bounds_def)
  with account_in_bounds [of P D L ?f "payload_len b" j] assms show ?thesis
    by (cases "account P j (payload_len b) ?f") (auto simp: flow_step_def Let_def)
qed

lemma flow_run_in_bounds:
  assumes "in_bounds P D L f" "sorted (unat (time f) # map (unat \<circ> fst) bs)"
    and "\<forall>(j, b) \<in> set bs. \<not> fin b \<and> unat (payload_len b) \<le> L \<and> unat j \<le> j0 + D"
    and "j0 \<le> unat (time f)"
    and P: "0 \<le> rate P" "rate P < 2 ^ 31" "0 < threshold P" "threshold P < 2 ^ 31"
      "nat (threshold P) + 2 * L + budget P D < 2 ^ 32"
  shows "in_bounds P D L (flow_run P f bs)"
  using assms(1-4)
proof (induction bs arbitrary: f)
  case (Cons x bs)
  obtain j b where x: "x = (j, b)" by fastforce
  have "in_bounds P D L (snd (flow_step P j b f)) \<and>
    (time (snd (flow_step P j b f)) = time f \<or> time (snd (flow_step P j b f)) = j)"
    using P Cons.prems x by (intro flow_step_in_bounds) auto
  with Cons.prems x Cons.IH [of "snd (flow_step P j b f)"] show ?case by auto
qed simp

lemma in_bounds_total:
  "in_bounds P D L f \<Longrightarrow> unat (byte_count f) \<le> nat (threshold P) + 2 * L + budget P D"
  by (auto simp: in_bounds_def Let_def)

lemma reset_in_bounds: "0 < threshold P \<Longrightarrow> in_bounds P D L (reset_flow j f)"
  by (simp add: in_bounds_def reset_flow_def zero_flow_def)


lemma time_reset_flow [simp]: "time (reset_flow j f) = j"
  by (simp add: reset_flow_def)


section \<open>Properties\<close>

text \<open>A packet of a TCP flow with 100 bytes of payload, and the default parameters at 250 Hz.\<close>

definition demo_skb :: skb where
  "demo_skb = \<lparr>protocol = 6, ip_saddr = 10, ip_daddr = 20, tot_len = 0x8C00, ihl = 5,
     tcp_source = 0x100, tcp_dest = 0x200, doff = 5, fin = False\<rparr>"

definition demo_params :: params where
  "demo_params = \<lparr>threshold = 1048576, rate = 2000, HZ = 250\<rparr>"

lemma demo_payload: "payload_len demo_skb = 100"
  by (simp add: demo_skb_def payload_len_def ntohs_def)

lemma demo_index: "flow_index demo_skb = 1386"
  by (simp add: demo_skb_def flow_index_def ntohs_def hash_def)



text \<open>
  No data is lost in the accounting: over any packets, accepted and dropped bytes of a
  record grow by exactly the payload of the packets that reach it (modulo the counters' width),
  as long as none of them ends the flow.
\<close>

lemma rate_limit_conserves_bytes:
  assumes "\<forall>(j, b) \<in> set (hits i bs). \<not> fin b" and "f' = snd (rate_limit_run P tab bs) i"
  shows "byte_count f' + byte_drop_count f' =
    byte_count (tab i) + byte_drop_count (tab i) + sum_list (map (payload_len \<circ> snd) (hits i bs))"
  using flow_run_counts [OF assms(1)] assms(2) by (simp add: rate_limit_run_slot)

text \<open>
  What the hook decides for one packet: anything but TCP passes and changes nothing; a TCP
  packet changes only the record of its hash, which is inside the table; a packet without data
  passes; a packet with data is dropped exactly when the free bytes are used up and the bytes
  beyond them exceed the allowance; and a packet with FIN leaves a cleared record.
\<close>

lemma rate_limit_verdict:
  assumes "rate_limit P j tab b = (v, tab')"
  shows "(protocol b \<noteq> IPPROTO_TCP \<longrightarrow> v = NF_ACCEPT \<and> tab' = tab) \<and>
    (\<forall>i. i \<noteq> flow_index b \<longrightarrow> tab' i = tab i) \<and> flow_index b < FLOW_TABLE_SIZE \<and>
    (payload_len b = 0 \<longrightarrow> v = NF_ACCEPT) \<and>
    (protocol b = IPPROTO_TCP \<and> payload_len b \<noteq> 0 \<longrightarrow>
       (v = NF_DROP \<longleftrightarrow>
          \<not> byte_count (tab (flow_index b)) < word_of_int (threshold P) \<and>
          ucast (byte_count (tab (flow_index b))) - byte (tab (flow_index b)) >
            elapsed_ms P j (tab (flow_index b)) * word_of_int (rate P))) \<and>
    (protocol b = IPPROTO_TCP \<and> fin b \<longrightarrow> tab' (flow_index b) = zero_flow\<lparr>time := j\<rparr>)"
proof (cases "protocol b = IPPROTO_TCP")
  case True
  have idx: "flow_index b < FLOW_TABLE_SIZE" by (simp add: flow_index_def hash_lt)
  have el: "elapsed_ms P j (claim_flow sa da sp dp f) = elapsed_ms P j f"
    "elapsed_ms P j (f\<lparr>start := t\<rparr>) = elapsed_ms P j f" for sa da sp dp f t
    by (simp_all add: elapsed_ms_def)
  show ?thesis
    using assms True idx
    by (auto simp: rate_limit_tcp flow_step_def account_def reset_flow_def zero_flow_def Let_def el
        split: if_splits prod.splits)
qed (use assms in \<open>auto simp: rate_limit_def flow_index_def hash_lt\<close>)

text \<open>
  \<open>get_flow\<close> never compares the addresses of a record in use: two flows with equal hashes
  share one record, so packets of one flow are counted and limited as packets of the other.
\<close>

lemma rate_limit_collision:
  "\<exists>a b P j. flow_index a = flow_index b \<and> ip_saddr a \<noteq> ip_saddr b \<and>
     (let tab = snd (rate_limit P j (\<lambda>i. zero_flow) a);
          tab' = snd (rate_limit P j tab b)
      in saddr (tab' (flow_index b)) = ip_saddr a \<and> pkt_count (tab' (flow_index b)) = 2)"
proof -
  let ?b = "demo_skb\<lparr>ip_saddr := 4106\<rparr>"
  have idx: "flow_index ?b = 1386"
    by (simp add: demo_skb_def flow_index_def ntohs_def hash_def)
  have pl: "payload_len ?b = 100"
    by (simp add: demo_skb_def payload_len_def ntohs_def)
  have tcp: "protocol demo_skb = IPPROTO_TCP" "protocol ?b = IPPROTO_TCP" "\<not> fin demo_skb"
    "\<not> fin ?b" "ip_saddr demo_skb = 10" "ip_daddr demo_skb = 20" by (simp_all add: demo_skb_def IPPROTO_TCP_def)
  show ?thesis
    by (rule exI [of _ demo_skb], rule exI [of _ ?b], rule exI [of _ demo_params], rule exI [of _ 1])
      (simp add: demo_index idx tcp rate_limit_tcp flow_step_def demo_payload pl account_def
        claim_flow_def zero_flow_def demo_params_def Let_def split_beta)
qed

end
