(* ===== verification/Xmerge.thy ===== *)
theory Xmerge
  imports C_String
begin

text \<open>
  The file merging system call \<open>ASS4/xmerge.c\<close> and its user program \<open>ASS4/test_xmerge.c\<close>.

  The kernel functions the call uses (\<open>ksys_open\<close>, \<open>ksys_read\<close>, \<open>ksys_write\<close>, \<open>ksys_close\<close>,
  \<open>copy_from_user\<close>, \<open>copy_to_user\<close>) are fields of a record \<open>kapi\<close> over an arbitrary state
  of the system; what the theorems need of them is stated by the predicates \<open>reads_files\<close>,
  \<open>tracks_fds\<close> and \<open>appends\<close>. The byte and file counters are the 32-bit \<open>int\<close>s of the source.
  The two loops are \<open>partial_function\<close>s: a read that never reports the end of a file makes the
  call run forever, which is the value \<open>None\<close>, as is an argument size for which \<open>xp\<close> would be
  overrun or left partly unset.
\<close>


section \<open>The system call\<close>

datatype seg = USER_DS | KERNEL_DS

record xmerge_params =
  outfile :: string
  infiles :: u64
  num_files :: u32
  oflags :: int
  mode :: u32
  ofile_count :: u64

text \<open>
  \<open>copy_params\<close> and \<open>copy_name\<close> are the two uses of \<open>copy_from_user\<close> (\<open>None\<close>: some bytes were not
  copied), \<open>copy_count\<close> is \<open>copy_to_user\<close>, which returns how many bytes it could not copy.
\<close>

record 's kapi =
  copy_params :: "'s \<Rightarrow> u64 \<Rightarrow> xmerge_params option"
  copy_name :: "'s \<Rightarrow> u64 \<Rightarrow> string option"
  copy_count :: "'s \<Rightarrow> u64 \<Rightarrow> u32 \<Rightarrow> int \<times> 's"
  ksys_open :: "'s \<Rightarrow> string \<Rightarrow> int \<Rightarrow> u32 \<Rightarrow> int \<times> 's"
  ksys_read :: "'s \<Rightarrow> int \<Rightarrow> nat \<Rightarrow> int \<times> u8 list \<times> 's"
  ksys_write :: "'s \<Rightarrow> int \<Rightarrow> u8 list \<Rightarrow> int \<times> 's"
  ksys_close :: "'s \<Rightarrow> int \<Rightarrow> 's"

record 's xstate =
  addr_limit :: seg
  os :: 's

definition PAGE_SIZE :: nat where "PAGE_SIZE = 4096"
definition EFAULT :: int where "EFAULT = 14"
definition O_RDONLY :: int where "O_RDONLY = 0"
definition sizeof_xmerge_params :: u64 where "sizeof_xmerge_params = 40"

text \<open>The \<open>while\<close> loop that copies one file; \<open>Inl\<close> is the value of an early return.\<close>

partial_function (option) copy_loop ::
  "'s kapi \<Rightarrow> int \<Rightarrow> int \<Rightarrow> u32 \<Rightarrow> 's \<Rightarrow> ((int + u32) \<times> 's) option" where
  "copy_loop A infd outfd bytecount s =
     (case ksys_read A s infd PAGE_SIZE of (rd, buf, s) \<Rightarrow>
        if rd = 0 then Some (Inr bytecount, s)
        else if rd < 0 then Some (Inl rd, ksys_close A (ksys_close A s outfd) infd)
        else (case ksys_write A s outfd (take (nat rd) buf) of (err, s) \<Rightarrow>
          if err < 0 then Some (Inl err, ksys_close A (ksys_close A s outfd) infd)
          else copy_loop A infd outfd (bytecount + word_of_int rd) s))"

declare copy_loop.simps [code]

text \<open>The body of the \<open>for\<close> loop: input file number \<open>x\<close>.\<close>

definition merge_file ::
  "'s kapi \<Rightarrow> xmerge_params \<Rightarrow> int \<Rightarrow> u32 \<Rightarrow> u32 \<Rightarrow> u32 \<Rightarrow> 's \<Rightarrow> ((int + u32) \<times> 's) option" where
  "merge_file A xp outfd x filecount bytecount s =
     (case copy_name A s (infiles xp + 8 * ucast x) of
        None \<Rightarrow> Some (Inl (- EFAULT), ksys_close A s outfd)
      | Some infilename \<Rightarrow>
          (case ksys_open A s infilename O_RDONLY 0 of (infd, s) \<Rightarrow>
             if infd < 0 then Some (Inl infd, ksys_close A s outfd)
             else do {
               r \<leftarrow> copy_loop A infd outfd bytecount s;
               (case r of (Inl e, s) \<Rightarrow> Some (Inl e, s)
                | (Inr bytecount, s) \<Rightarrow>
                    (case copy_count A s (ofile_count xp) (filecount + 1) of (err, s) \<Rightarrow>
                       if err < 0
                       then Some (Inl (- EFAULT), ksys_close A (ksys_close A s outfd) infd)
                       else Some (Inr bytecount, ksys_close A s infd)))
             }))"

text \<open>The \<open>for\<close> loop over the input files; \<open>x\<close> cannot wrap around below \<open>num_files\<close>.\<close>

function files_loop ::
  "'s kapi \<Rightarrow> xmerge_params \<Rightarrow> int \<Rightarrow> u32 \<Rightarrow> u32 \<Rightarrow> u32 \<Rightarrow> 's \<Rightarrow> ((int + u32) \<times> 's) option" where
  "files_loop A xp outfd x filecount bytecount s =
     (if \<not> x < num_files xp then Some (Inr bytecount, s)
      else case merge_file A xp outfd x filecount bytecount s of
        None \<Rightarrow> None
      | Some (Inl e, s) \<Rightarrow> Some (Inl e, s)
      | Some (Inr bytecount, s) \<Rightarrow> files_loop A xp outfd (x + 1) (filecount + 1) bytecount s)"
  by pat_completeness auto
termination
proof (relation "measure (\<lambda>(A, xp, outfd, x, fc, bc, s). unat (num_files xp) - unat x)"; clarsimp)
  fix xp :: xmerge_params and x :: u32
  assume "x < num_files xp"
  then show "unat (num_files xp) - unat (x + 1) < unat (num_files xp) - unat x"
    using word_inc_unat [of x "num_files xp"] by (simp add: word_less_nat_alt)
qed

declare files_loop.simps [simp del]

definition xmerge :: "'s kapi \<Rightarrow> u64 \<Rightarrow> u64 \<Rightarrow> 's xstate \<Rightarrow> (int \<times> 's xstate) option" where
  "xmerge A args argslen st =
     (if argslen \<noteq> sizeof_xmerge_params then None
      else
        let old_fs = addr_limit st; st = st\<lparr>addr_limit := KERNEL_DS\<rparr>
        in case copy_params A (os st) args of
             None \<Rightarrow> Some (- EFAULT, st\<lparr>addr_limit := old_fs\<rparr>)
           | Some xp \<Rightarrow>
               (case ksys_open A (os st) (outfile xp) (oflags xp) (mode xp) of (outfd, s) \<Rightarrow>
                  if outfd < 0 then Some (outfd, st\<lparr>addr_limit := old_fs, os := s\<rparr>)
                  else do {
                    r \<leftarrow> files_loop A xp outfd 0 0 0 s;
                    (case r of (Inl e, s) \<Rightarrow> Some (e, st\<lparr>addr_limit := old_fs, os := s\<rparr>)
                     | (Inr bytecount, s) \<Rightarrow>
                         Some (sint bytecount, st\<lparr>addr_limit := old_fs, os := ksys_close A s outfd\<rparr>))
                  }))"


section \<open>The user program\<close>

definition O_WRONLY :: int where "O_WRONLY = 1"
definition O_CREAT :: int where "O_CREAT = 0x40"
definition O_EXCL :: int where "O_EXCL = 0x80"
definition O_TRUNC :: int where "O_TRUNC = 0x200"
definition O_APPEND :: int where "O_APPEND = 0x400"
definition S_IRUSR :: int where "S_IRUSR = 0x100"
definition S_IWUSR :: int where "S_IWUSR = 0x80"

lemmas open_flag_defs = O_WRONLY_def O_CREAT_def O_EXCL_def O_TRUNC_def O_APPEND_def

record merge_opts =
  opt_mode :: u32
  opt_oflags :: int
  checkm :: bool
  checkf :: bool
  opt_files :: "(string \<times> string list) option" \<comment> \<open>\<open>xp.outfile\<close> and \<open>xp.infiles\<close> once set\<close>

definition no_opts :: merge_opts where
  "no_opts = \<lparr>opt_mode = 0, opt_oflags = O_WRONLY, checkm = False, checkf = False, opt_files = None\<rparr>"

definition add_flag :: "int \<Rightarrow> merge_opts \<Rightarrow> merge_opts" where
  "add_flag f o' = o'\<lparr>checkf := True, opt_oflags := opt_oflags o' OR f\<rparr>"

text \<open>The option loop on the rest of \<open>argv\<close>; \<open>None\<close> is \<open>strtol(NULL)\<close> for a trailing \<open>-m\<close>.\<close>

fun parse_opts :: "merge_opts \<Rightarrow> string list \<Rightarrow> merge_opts option" where
  "parse_opts o' [] = Some o'"
| "parse_opts o' (a # as) =
     (if a = ''-m'' then
        (case as of [] \<Rightarrow> None
         | m # as' \<Rightarrow> parse_opts (o'\<lparr>checkm := True, opt_mode := word_of_int (strtol 8 m)\<rparr>) as')
      else if a = ''-a'' then parse_opts (add_flag O_APPEND o') as
      else if a = ''-c'' then parse_opts (add_flag O_CREAT o') as
      else if a = ''-t'' then parse_opts (add_flag O_TRUNC o') as
      else if a = ''-e'' then parse_opts (add_flag O_EXCL o') as
      else Some (o'\<lparr>opt_files := Some (a, as)\<rparr>))"

text \<open>
  \<open>main\<close> up to the system call: the parameters it passes, \<open>None\<close> when a field of \<open>xp\<close> was never
  set. \<open>inaddr\<close> and \<open>cntaddr\<close> are the addresses of the argument vector's tail and of the counter.
\<close>

definition merge_params :: "u64 \<Rightarrow> u64 \<Rightarrow> string list \<Rightarrow> (xmerge_params \<times> string list) option" where
  "merge_params inaddr cntaddr args = do {
     o' \<leftarrow> parse_opts no_opts args;
     let md = (if checkm o' then opt_mode o' else word_of_int (S_IRUSR OR S_IWUSR));
     let fl = (if checkf o' then opt_oflags o' else O_CREAT OR O_WRONLY OR O_APPEND);
     (out, ins) \<leftarrow> opt_files o';
     Some (\<lparr>outfile = out, infiles = inaddr, num_files = of_nat (length ins), oflags = fl,
            mode = md, ofile_count = cntaddr\<rparr>, ins)
   }"

text \<open>What \<open>main\<close> prints for the result of the call, \<open>%d\<close> reading the low 32 bits of the \<open>long\<close>.\<close>

definition merge_report :: "string \<Rightarrow> int \<Rightarrow> int \<Rightarrow> string list" where
  "merge_report err result cnt =
     (if result \<ge> 0 then [show_int (sint (word_of_int result :: u32)) @ '' bytes merged'']
      else [''ERROR: '' @ err]) @ [show_int cnt @ '' file(s) merged'']"


section \<open>What the call relies on\<close>

text \<open>
  A view of the system state: the unread bytes of a descriptor, the bytes of the output file, the
  open descriptors and the number last stored in the user's counter.
\<close>

record 's view =
  rem :: "'s \<Rightarrow> int \<Rightarrow> u8 list"
  out :: "'s \<Rightarrow> u8 list"
  fds :: "'s \<Rightarrow> int set"
  cnt :: "'s \<Rightarrow> u32"

text \<open>
  \<open>read(2)\<close> returns at least one byte of what is left, and 0 at the end; \<open>open(2)\<close> of a readable
  file starts at its first byte; neither touches the output file or the counter.
\<close>

definition reads_files :: "'s kapi \<Rightarrow> 's view \<Rightarrow> (string \<Rightarrow> u8 list option) \<Rightarrow> bool" where
  "reads_files A V content \<longleftrightarrow>
     (\<forall>s fd rd buf s'. ksys_read A s fd PAGE_SIZE = (rd, buf, s') \<longrightarrow>
        rd = int (length buf) \<and> (rd = 0 \<longrightarrow> rem V s fd = []) \<and> rem V s fd = buf @ rem V s' fd \<and>
        out V s' = out V s \<and> cnt V s' = cnt V s) \<and>
     (\<forall>s name infd s'. ksys_open A s name O_RDONLY 0 = (infd, s') \<longrightarrow>
        out V s' = out V s \<and> cnt V s' = cnt V s \<and>
        (case content name of None \<Rightarrow> infd < 0 | Some bs \<Rightarrow> 0 \<le> infd \<and> rem V s' infd = bs)) \<and>
     (\<forall>s fd. out V (ksys_close A s fd) = out V s \<and> cnt V (ksys_close A s fd) = cnt V s)"

text \<open>Writing to the output descriptor appends all the bytes and leaves the input files alone.\<close>

definition appends :: "'s kapi \<Rightarrow> 's view \<Rightarrow> int \<Rightarrow> bool" where
  "appends A V outfd \<longleftrightarrow>
     (\<forall>s bs err s'. ksys_write A s outfd bs = (err, s') \<longrightarrow>
        err = int (length bs) \<and> out V s' = out V s @ bs \<and> rem V s' = rem V s \<and> cnt V s' = cnt V s)"

definition stores_count :: "'s kapi \<Rightarrow> 's view \<Rightarrow> u64 \<Rightarrow> bool" where
  "stores_count A V addr \<longleftrightarrow>
     (\<forall>s n err s'. copy_count A s addr n = (err, s') \<longrightarrow>
        0 \<le> err \<and> (err = 0 \<longrightarrow> cnt V s' = n) \<and> out V s' = out V s)"

text \<open>\<open>open(2)\<close> returns a descriptor not in use, \<open>close(2)\<close> releases it, the rest keeps them.\<close>

definition tracks_fds :: "'s kapi \<Rightarrow> 's view \<Rightarrow> bool" where
  "tracks_fds A V \<longleftrightarrow>
     (\<forall>s name fl md fd s'. ksys_open A s name fl md = (fd, s') \<longrightarrow>
        (if fd < 0 then fds V s' = fds V s else fd \<notin> fds V s \<and> fds V s' = insert fd (fds V s))) \<and>
     (\<forall>s fd. fds V (ksys_close A s fd) = fds V s - {fd}) \<and>
     (\<forall>s fd n rd buf s'. ksys_read A s fd n = (rd, buf, s') \<longrightarrow> fds V s' = fds V s) \<and>
     (\<forall>s fd bs err s'. ksys_write A s fd bs = (err, s') \<longrightarrow> fds V s' = fds V s) \<and>
     (\<forall>s a n err s'. copy_count A s a n = (err, s') \<longrightarrow> fds V s' = fds V s)"

definition names_at :: "'s kapi \<Rightarrow> xmerge_params \<Rightarrow> string list \<Rightarrow> bool" where
  "names_at A xp names \<longleftrightarrow> unat (num_files xp) = length names \<and>
     (\<forall>s x. unat x < length names \<longrightarrow>
        copy_name A s (infiles xp + 8 * ucast (x :: u32)) = Some (names ! unat x))"


section \<open>The loops\<close>

lemma reads_filesD:
  assumes "reads_files A V content"
  shows "ksys_read A s fd PAGE_SIZE = (rd, buf, s') \<Longrightarrow>
      rd = int (length buf) \<and> (rd = 0 \<longrightarrow> rem V s fd = []) \<and> rem V s fd = buf @ rem V s' fd \<and>
      out V s' = out V s \<and> cnt V s' = cnt V s"
    and "ksys_open A s name O_RDONLY 0 = (infd, s') \<Longrightarrow>
      out V s' = out V s \<and> cnt V s' = cnt V s \<and>
      (case content name of None \<Rightarrow> infd < 0 | Some bs \<Rightarrow> 0 \<le> infd \<and> rem V s' infd = bs)"
    and "out V (ksys_close A s fd) = out V s" "cnt V (ksys_close A s fd) = cnt V s"
  using assms unfolding reads_files_def by (metis, metis, metis, metis)

lemma copy_loop_ok:
  assumes "reads_files A V content" "appends A V outfd"
  shows "\<exists>s'. copy_loop A infd outfd bc s = Some (Inr (bc + of_nat (length (rem V s infd))), s') \<and>
           out V s' = out V s @ rem V s infd \<and> cnt V s' = cnt V s"
proof (induction "length (rem V s infd)" arbitrary: s bc rule: less_induct)
  case less
  obtain rd buf s1 where r: "ksys_read A s infd PAGE_SIZE = (rd, buf, s1)" by (metis prod_cases3)
  obtain err s2 where w: "ksys_write A s1 outfd buf = (err, s2)" by fastforce
  from assms(1) r have R: "rd = int (length buf)" "rd = 0 \<Longrightarrow> rem V s infd = []"
    "rem V s infd = buf @ rem V s1 infd" "out V s1 = out V s" "cnt V s1 = cnt V s"
    unfolding reads_files_def by blast+
  from assms(2) w have W: "err = int (length buf)" "out V s2 = out V s1 @ buf"
    "rem V s2 = rem V s1" "cnt V s2 = cnt V s1"
    unfolding appends_def by blast+
  show ?case
  proof (cases "buf = []")
    case True
    then show ?thesis using R by (subst copy_loop.simps) (simp add: r)
  next
    case False
    then have "length (rem V s2 infd) < length (rem V s infd)" using R(3) W(3) by simp
    from less [OF this, of "bc + of_nat (length buf)"] False R W show ?thesis
      by (subst copy_loop.simps) (auto simp: r w add.assoc)
  qed
qed

definition reliable_count :: "'s kapi \<Rightarrow> u64 \<Rightarrow> bool" where
  "reliable_count A addr \<longleftrightarrow> (\<forall>s n. fst (copy_count A s addr n) = 0)"

lemma merge_file_ok:
  assumes R: "reads_files A V content" and W: "appends A V outfd"
    and C: "stores_count A V (ofile_count xp)"
    and nm: "copy_name A s (infiles xp + 8 * ucast x) = Some name" and bs: "content name = Some bs"
  shows "\<exists>s'. merge_file A xp outfd x fc bc s = Some (Inr (bc + of_nat (length bs)), s') \<and>
           out V s' = out V s @ bs \<and> (reliable_count A (ofile_count xp) \<longrightarrow> cnt V s' = fc + 1)"
proof -
  obtain infd s1 where o1: "ksys_open A s name O_RDONLY 0 = (infd, s1)" by fastforce
  have O: "out V s1 = out V s" "0 \<le> infd" "rem V s1 infd = bs"
    using reads_filesD(2) [OF R o1] bs by simp_all
  from copy_loop_ok [OF R W, of infd bc s1] O obtain s2
    where c2: "copy_loop A infd outfd bc s1 = Some (Inr (bc + of_nat (length bs)), s2)"
      "out V s2 = out V s @ bs" by auto
  obtain err s3 where c3: "copy_count A s2 (ofile_count xp) (fc + 1) = (err, s3)" by fastforce
  from C c3 have "0 \<le> err" "out V s3 = out V s2" "err = 0 \<longrightarrow> cnt V s3 = fc + 1"
    unfolding stores_count_def by blast+
  moreover have "reliable_count A (ofile_count xp) \<Longrightarrow> err = 0"
    using c3 unfolding reliable_count_def by (metis fst_conv)
  ultimately show ?thesis
    using O c2 reads_filesD(3,4) [OF R] by (auto simp: merge_file_def nm o1 c3)
qed

text \<open>After \<open>j\<close> readable files the loop stands at file \<open>j\<close> with their bytes copied.\<close>

definition merged :: "(string \<Rightarrow> u8 list option) \<Rightarrow> string list \<Rightarrow> u8 list" where
  "merged content names = concat (map (the \<circ> content) names)"

lemma merged_snoc [simp]: "merged content [] = []"
  "merged content (ns @ [n]) = merged content ns @ the (content n)"
  by (simp_all add: merged_def)

lemma names_at_num: "names_at A xp names \<Longrightarrow> of_nat (length names) = num_files xp"
proof -
  assume "names_at A xp names"
  then have "(of_nat (length names) :: u32) = of_nat (unat (num_files xp))" by (simp add: names_at_def)
  then show ?thesis by simp
qed

lemma names_at_lt:
  assumes "names_at A xp names" "k < length names"
  shows "(of_nat k :: u32) < num_files xp"
    and "copy_name A s (infiles xp + 8 * ucast (of_nat k :: u32)) = Some (names ! k)"
proof -
  have "length names < 2 ^ 32"
    using assms(1) unsigned_less [of "num_files xp", where 'a = nat] by (simp add: names_at_def)
  then have ku: "unat (of_nat k :: u32) = k" using assms(2) by (simp add: unat_of_nat)
  then show "(of_nat k :: u32) < num_files xp"
    using assms by (simp add: names_at_def word_less_nat_alt)
  show "copy_name A s (infiles xp + 8 * ucast (of_nat k :: u32)) = Some (names ! k)"
    using assms ku unfolding names_at_def by metis
qed

lemma files_loop_prefix:
  assumes R: "reads_files A V content" and W: "appends A V outfd"
    and C: "stores_count A V (ofile_count xp)" and N: "names_at A xp names"
  shows "j \<le> length names \<Longrightarrow> \<forall>n \<in> set (take j names). content n \<noteq> None \<Longrightarrow>
    \<exists>s'. files_loop A xp outfd 0 0 0 s =
        files_loop A xp outfd (of_nat j) (of_nat j) (of_nat (length (merged content (take j names)))) s' \<and>
      out V s' = out V s @ merged content (take j names) \<and>
      (reliable_count A (ofile_count xp) \<longrightarrow> 0 < j \<longrightarrow> cnt V s' = of_nat j)"
proof (induction j)
  case (Suc j)
  have tk: "take (Suc j) names = take j names @ [names ! j]"
    using Suc.prems by (simp add: take_Suc_conv_app_nth)
  then obtain bs where bs: "content (names ! j) = Some bs" using Suc.prems(2) by fastforce
  have "j < length names" using Suc.prems(1) by simp
  note xlt = names_at_lt [OF N this]
  have "\<forall>n \<in> set (take j names). content n \<noteq> None" using Suc.prems(2) by (simp add: tk)
  then obtain s1 where s1: "files_loop A xp outfd 0 0 0 s = files_loop A xp outfd (of_nat j)
      (of_nat j) (of_nat (length (merged content (take j names)))) s1"
    "out V s1 = out V s @ merged content (take j names)"
    using Suc.IH Suc.prems(1) by auto
  from merge_file_ok [OF R W C xlt(2) bs, of "of_nat j" "of_nat (length (merged content (take j names)))" s1]
  show ?case
    using s1 by (subst s1(1), subst files_loop.simps) (auto simp: xlt(1) tk bs add.commute)
qed auto

lemma files_loop_end: "files_loop A xp outfd (num_files xp) fc bc s = Some (Inr bc, s)"
  by (subst files_loop.simps) simp

lemma tracks_fdsD:
  assumes "tracks_fds A V"
  shows "ksys_open A s name fl md = (fd, s') \<Longrightarrow>
      (if fd < 0 then fds V s' = fds V s else fd \<notin> fds V s \<and> fds V s' = insert fd (fds V s))"
    and "fds V (ksys_close A s fd) = fds V s - {fd}"
    and "ksys_read A s fd n = (rd, buf, s') \<Longrightarrow> fds V s' = fds V s"
    and "ksys_write A s fd bs = (err, s') \<Longrightarrow> fds V s' = fds V s"
    and "copy_count A s a c = (err, s') \<Longrightarrow> fds V s' = fds V s"
  using assms unfolding tracks_fds_def by (metis, metis, metis, metis, metis)

lemmas copy_loop_induct = copy_loop.raw_induct [rotated, consumes 1, case_names step]

lemma copy_loop_fds:
  "copy_loop A infd outfd bc s = Some y \<Longrightarrow> tracks_fds A V \<Longrightarrow>
   fds V (snd y) = (case fst y of Inl _ \<Rightarrow> fds V s - {outfd, infd} | Inr _ \<Rightarrow> fds V s)"
proof (induction rule: copy_loop_induct)
  case (step copy_loop A infd outfd bc s y)
  obtain rd buf s1 where r: "ksys_read A s infd PAGE_SIZE = (rd, buf, s1)" by (metis prod_cases3)
  obtain err s2 where w: "ksys_write A s1 outfd (take (nat rd) buf) = (err, s2)" by fastforce
  note T = tracks_fdsD [OF step.prems]
  have "fds V s2 = fds V s" "fds V s1 = fds V s" using T(3) [OF r] T(4) [OF w] by simp_all
  with step T(2) show ?case by (auto simp: r w split: if_splits sum.split)
qed

lemma merge_file_fds:
  assumes "merge_file A xp outfd x fc bc s = Some y" and T: "tracks_fds A V" and "outfd \<in> fds V s"
  shows "fds V (snd y) = (case fst y of Inl _ \<Rightarrow> fds V s - {outfd} | Inr _ \<Rightarrow> fds V s)"
proof (cases "copy_name A s (infiles xp + 8 * ucast x)")
  case (Some name)
  note T' = tracks_fdsD [OF T]
  obtain infd s1 where o1: "ksys_open A s name O_RDONLY 0 = (infd, s1)" by fastforce
  note F1 = T'(1) [OF o1]
  show ?thesis
  proof (cases "infd < 0")
    case False
    then obtain r s2 where c2: "copy_loop A infd outfd bc s1 = Some (r, s2)"
      using assms(1) Some o1 by (auto simp: merge_file_def bind_eq_Some_conv)
    have F2: "fds V s2 = (case r of Inl _ \<Rightarrow> fds V s - {outfd} | Inr _ \<Rightarrow> insert infd (fds V s))"
      using copy_loop_fds [OF c2 T] F1 False by (cases r) auto
    obtain err s3 where c3: "copy_count A s2 (ofile_count xp) (fc + 1) = (err, s3)" by fastforce
    show ?thesis
      using assms(1) Some o1 c2 c3 F1 F2 T'(2) T'(5) [OF c3] False
      by (auto simp: merge_file_def split: sum.splits if_splits)
  qed (use assms(1) Some o1 T'(2) F1 in \<open>auto simp: merge_file_def\<close>)
qed (use assms(1) tracks_fdsD(2) [OF T] in \<open>auto simp: merge_file_def\<close>)

lemma files_loop_fds:
  "files_loop A xp outfd x fc bc s = Some y \<Longrightarrow> tracks_fds A V \<Longrightarrow> outfd \<in> fds V s \<Longrightarrow>
   fds V (snd y) = (case fst y of Inl _ \<Rightarrow> fds V s - {outfd} | Inr _ \<Rightarrow> fds V s)"
proof (induction A xp outfd x fc bc s rule: files_loop.induct)
  case (1 A xp outfd x fc bc s)
  show ?case
  proof (cases "x < num_files xp")
    case True
    then obtain r s1 where m: "merge_file A xp outfd x fc bc s = Some (r, s1)"
      using "1.prems"(1) by (auto simp: files_loop.simps split: option.splits)
    show ?thesis
    proof (cases r)
      case (Inr bc')
      then have "fds V s1 = fds V s" using merge_file_fds [OF m "1.prems"(2,3)] by simp
      then show ?thesis
        using "1.IH" [of "(Inr bc', s1)" "Inr bc'" s1 bc'] "1.prems" True m Inr
        by (auto simp: files_loop.simps [of A xp outfd x] split: sum.split)
    qed (use "1.prems" True m merge_file_fds [OF m "1.prems"(2,3)] in \<open>auto simp: files_loop.simps\<close>)
  qed (use "1.prems" in \<open>auto simp: files_loop.simps\<close>)
qed


section \<open>Properties\<close>

text \<open>A system in memory: two input files and an output file, to which every write goes.\<close>

record mem =
  m_rem :: "int \<Rightarrow> u8 list"
  m_out :: "u8 list"
  m_fds :: "nat list"
  m_cnt :: u32

definition mem_content :: "string \<Rightarrow> u8 list option" where
  "mem_content name = (if name = ''a'' then Some [7, 8] else if name = ''b'' then Some [9] else None)"

definition mem_new :: "mem \<Rightarrow> nat" where
  "mem_new s = Suc (fold max (m_fds s) 0)"

definition mem_open :: "mem \<Rightarrow> string \<Rightarrow> int \<Rightarrow> u32 \<Rightarrow> int \<times> mem" where
  "mem_open s name fl md =
     (if name = ''out'' \<and> fl = O_WRONLY \<or> mem_content name \<noteq> None
      then (int (mem_new s), s\<lparr>m_fds := mem_new s # m_fds s,
             m_rem := (m_rem s)(int (mem_new s) := (case mem_content name of None \<Rightarrow> [] | Some bs \<Rightarrow> bs))\<rparr>)
      else (-2, s))"

definition mem_xp :: xmerge_params where
  "mem_xp = \<lparr>outfile = ''out'', infiles = 1000, num_files = 2, oflags = 1, mode = 0, ofile_count = 64\<rparr>"

definition mem_api :: "string list \<Rightarrow> int \<Rightarrow> mem kapi" where
  "mem_api names fault =
     \<lparr>copy_params = (\<lambda>s a. Some mem_xp),
      copy_name = (\<lambda>s a. if a = 1000 then Some (names ! 0) else if a = 1008 then Some (names ! 1) else None),
      copy_count = (\<lambda>s a n. (fault, if fault = 0 then s\<lparr>m_cnt := n\<rparr> else s)),
      ksys_open = mem_open,
      ksys_read = (\<lambda>s fd n. let b = take n (m_rem s fd)
                           in (int (length b), b, s\<lparr>m_rem := (m_rem s)(fd := drop n (m_rem s fd))\<rparr>)),
      ksys_write = (\<lambda>s fd b. (int (length b), s\<lparr>m_out := m_out s @ b\<rparr>)),
      ksys_close = (\<lambda>s fd. s\<lparr>m_fds := filter (\<lambda>x. int x \<noteq> fd) (m_fds s)\<rparr>)\<rparr>"

definition mem_view :: "mem view" where
  "mem_view = \<lparr>rem = m_rem, out = m_out, fds = (\<lambda>s. int ` set (m_fds s)), cnt = m_cnt\<rparr>"

definition mem_start :: "mem xstate" where
  "mem_start = \<lparr>addr_limit = USER_DS, os = \<lparr>m_rem = (\<lambda>_. []), m_out = [], m_fds = [], m_cnt = 0\<rparr>\<rparr>"

lemma mem_api_simps [simp]:
  "copy_params (mem_api names fault) s a = Some mem_xp" "ksys_open (mem_api names fault) = mem_open"
  "reliable_count (mem_api names fault) a \<longleftrightarrow> fault = 0"
  by (simp_all add: mem_api_def reliable_count_def)

lemma mem_xp_simps [simp]:
  "outfile mem_xp = ''out''" "oflags mem_xp = 1" "mode mem_xp = 0" "ofile_count mem_xp = 64"
  "num_files mem_xp = 2"
  by (simp_all add: mem_xp_def)

lemma mem_view_simps [simp]: "out mem_view = m_out" "cnt mem_view = m_cnt"
  "fds mem_view s = int ` set (m_fds s)"
  by (simp_all add: mem_view_def)

lemma mem_reads: "reads_files (mem_api names fault) mem_view mem_content"
proof -
  have "min (length xs) 4096 = 0 \<longleftrightarrow> xs = []" for xs :: "u8 list" by (auto simp: min_def)
  then show ?thesis
    by (auto simp: reads_files_def mem_api_def mem_view_def mem_open_def Let_def PAGE_SIZE_def
        O_RDONLY_def O_WRONLY_def split: option.splits if_splits)
qed

lemma mem_appends: "appends (mem_api names fault) mem_view outfd"
  by (auto simp: appends_def mem_api_def mem_view_def)

lemma mem_stores: "0 \<le> fault \<Longrightarrow> stores_count (mem_api names fault) mem_view addr"
  by (auto simp: stores_count_def mem_api_def mem_view_def)

lemma fold_max_ge: "a \<le> fold max xs a" "x \<in> set xs \<Longrightarrow> x \<le> fold max xs (a :: nat)"
proof (induction xs arbitrary: a)
  case (Cons y ys)
  { case 1 show ?case using Cons.IH(1) [of "max y a"] by simp }
  { case 2 then show ?case using Cons.IH(1) [of "max y a"] Cons.IH(2) [of "max y a"] by auto }
qed simp_all

lemma mem_tracks: "tracks_fds (mem_api names fault) mem_view"
proof -
  have "mem_new s \<notin> set (m_fds s)" for s
    using fold_max_ge(2) [of "mem_new s" "m_fds s" 0] by (auto simp: mem_new_def)
  then show ?thesis
    by (auto simp: tracks_fds_def mem_api_def mem_view_def mem_open_def Let_def split: if_splits)
qed

lemma mem_names: "names_at (mem_api names fault) mem_xp [names ! 0, names ! 1]"
proof -
  have "x = 0 \<or> x = 1" if "unat (x :: u32) < 2" for x
  proof -
    have "unat x = unat (0 :: u32) \<or> unat x = unat (1 :: u32)" using that by auto
    then show ?thesis unfolding word_unat_eq_iff .
  qed
  then have "copy_name (mem_api names fault) s (1000 + 8 * ucast x) = Some ([names ! 0, names ! 1] ! unat x)"
    if "unat (x :: u32) < 2" for s x
    using that by (elim meta_allE [of _ x] meta_impE disjE) (auto simp: mem_api_def)
  then show ?thesis by (simp add: names_at_def mem_xp_def)
qed

lemma mem_start_open:
  "copy_params (mem_api names fault) (os mem_start) 0 = Some mem_xp"
  "ksys_open (mem_api names fault) (os mem_start) (outfile mem_xp) (oflags mem_xp) (mode mem_xp) =
     (1, (os mem_start)\<lparr>m_fds := [1], m_rem := (\<lambda>_. [])(1 := [])\<rparr>)" "0 \<le> (1 :: int)"
  by (simp_all add: mem_open_def mem_start_def mem_new_def O_WRONLY_def mem_content_def)

lemma mem_merged: "merged mem_content [''a'', ''b''] = [7, 8, 9]"
  by (simp add: merged_def mem_content_def)

lemma mem_run_values:
  "map_option (\<lambda>(r, st). (r, m_out (os st), m_cnt (os st), m_fds (os st)))
     (xmerge (mem_api [''a'', ''b''] 4) 0 sizeof_xmerge_params mem_start) = Some (3, [7, 8, 9], 0, [])"
  by code_simp

lemma mem_runs:
  "\<exists>st'. xmerge (mem_api [''a'', ''b''] 4) 0 sizeof_xmerge_params mem_start = Some (3, st') \<and>
     m_cnt (os st') = m_cnt (os mem_start)"
  using mem_run_values by (auto simp: mem_start_def)



text \<open>
  When the input file at position \<open>k\<close> cannot be opened, \<open>xmerge\<close> returns the error of that
  open, with exactly the files before it merged and reported.
\<close>

lemma xmerge_stops_at_missing:
  assumes "copy_params A (os st) args = Some xp"
    and "ksys_open A (os st) (outfile xp) (oflags xp) (mode xp) = (outfd, s)" and "0 \<le> outfd"
    and "reads_files A V content" and "appends A V outfd" and "stores_count A V (ofile_count xp)"
    and "names_at A xp names" and "k < length names" and "content (names ! k) = None"
    and "\<forall>n \<in> set (take k names). content n \<noteq> None"
  shows "\<exists>e st' s'. xmerge A args sizeof_xmerge_params st = Some (e, st') \<and> e < 0 \<and>
           fst (ksys_open A s' (names ! k) O_RDONLY 0) = e \<and>
           out V (os st') = out V s @ merged content (take k names) \<and>
           addr_limit st' = addr_limit st \<and>
           (reliable_count A (ofile_count xp) \<and> 0 < k \<longrightarrow> cnt V (os st') = of_nat k)"
proof -
  have "k \<le> length names" using assms(8) by simp
  from files_loop_prefix [OF assms(4-7) this assms(10), of s] obtain s'
    where s': "files_loop A xp outfd 0 0 0 s = files_loop A xp outfd (of_nat k) (of_nat k)
        (of_nat (length (merged content (take k names)))) s'"
      "out V s' = out V s @ merged content (take k names)"
      "reliable_count A (ofile_count xp) \<longrightarrow> 0 < k \<longrightarrow> cnt V s' = of_nat k" by blast
  obtain infd s2 where o2: "ksys_open A s' (names ! k) O_RDONLY 0 = (infd, s2)" by fastforce
  from reads_filesD(2) [OF assms(4) o2] have O: "infd < 0" "out V s2 = out V s'" "cnt V s2 = cnt V s'"
    using assms(9) by simp_all
  from names_at_lt [OF assms(7,8)]
  have "merge_file A xp outfd (of_nat k) fc bc s' = Some (Inl infd, ksys_close A s2 outfd)" for fc bc
    using o2 O(1) by (simp add: merge_file_def)
  then have "files_loop A xp outfd 0 0 0 s = Some (Inl infd, ksys_close A s2 outfd)"
    using names_at_lt [OF assms(7,8)] by (subst s'(1), subst files_loop.simps) simp
  then show ?thesis
    using assms(1-3) O o2 s'(2,3) reads_filesD(3,4) [OF assms(4)]
    by (intro exI [of _ infd] exI [of _ "st\<lparr>os := ksys_close A s2 outfd\<rparr>"] exI [of _ s'])
      (simp add: xmerge_def)
qed

text \<open>
  Every path out of \<open>xmerge\<close>, errors included, leaves exactly the descriptors open that were
  open before, and the address limit as it was.
\<close>

lemma xmerge_releases:
  assumes "xmerge A args argslen st = Some (r, st')" and "tracks_fds A V"
  shows "fds V (os st') = fds V (os st) \<and> addr_limit st' = addr_limit st"
proof (cases "copy_params A (os st) args")
  case (Some xp)
  obtain outfd s where o1: "ksys_open A (os st) (outfile xp) (oflags xp) (mode xp) = (outfd, s)"
    by fastforce
  note F = tracks_fdsD(1) [OF assms(2) o1]
  show ?thesis
  proof (cases "outfd < 0")
    case True
    then have "os st' = s \<and> addr_limit st' = addr_limit st"
      using assms(1) Some o1 by (simp add: xmerge_def Let_def split: if_splits) force
    then show ?thesis using F True by simp
  next
    case False
    have "files_loop A xp outfd 0 0 0 s \<noteq> None"
    proof
      assume "files_loop A xp outfd 0 0 0 s = None"
      then show False using assms(1) Some o1 False by (simp add: xmerge_def Let_def split: if_splits)
    qed
    then obtain e s1 where l: "files_loop A xp outfd 0 0 0 s = Some (e, s1)" by auto
    from files_loop_fds [OF l assms(2)] F False
    have "fds V s1 = (case e of Inl _ \<Rightarrow> fds V (os st) | Inr _ \<Rightarrow> insert outfd (fds V (os st)))"
      by (auto split: sum.split)
    then show ?thesis
      using assms(1) Some o1 False l F tracks_fdsD(2) [OF assms(2)]
      by (auto simp: xmerge_def Let_def split: sum.splits if_splits)
  qed
qed (use assms(1) in \<open>auto simp: xmerge_def Let_def split: if_splits\<close>)

text \<open>
  The check \<open>copy_to_user(...) < 0\<close> can never fire, since the function returns the number of
  bytes it could not copy: with a counter that cannot be stored, \<open>xmerge\<close> reports full success
  and the counter keeps its old value.
\<close>

lemma xmerge_count_fault_ignored:
  "\<exists>st'. xmerge (mem_api [''a'', ''b''] 4) 0 sizeof_xmerge_params mem_start = Some (3, st') \<and>
     m_cnt (os st') = m_cnt (os mem_start)"
  by (rule mem_runs)

text \<open>The options a user can give, the words they are typed as, and what they mean.\<close>

datatype opt = OptA | OptC | OptT | OptE | OptM string

fun render :: "opt \<Rightarrow> string list" where
  "render OptA = [''-a'']" | "render OptC = [''-c'']" | "render OptT = [''-t'']"
| "render OptE = [''-e'']" | "render (OptM m) = [''-m'', m]"

fun opt_flags :: "opt list \<Rightarrow> int list" where
  "opt_flags [] = []"
| "opt_flags (OptA # xs) = O_APPEND # opt_flags xs"
| "opt_flags (OptC # xs) = O_CREAT # opt_flags xs"
| "opt_flags (OptT # xs) = O_TRUNC # opt_flags xs"
| "opt_flags (OptE # xs) = O_EXCL # opt_flags xs"
| "opt_flags (OptM m # xs) = opt_flags xs"

fun opt_modes :: "opt list \<Rightarrow> string list" where
  "opt_modes [] = []"
| "opt_modes (OptM m # xs) = m # opt_modes xs"
| "opt_modes (_ # xs) = opt_modes xs"

lemma parse_opts_render:
  assumes "ofile \<notin> {''-m'', ''-a'', ''-c'', ''-t'', ''-e''}"
  shows "parse_opts o' (concat (map render opts) @ ofile # ins) =
    Some (o'\<lparr>opt_files := Some (ofile, ins),
      opt_oflags := foldl (OR) (opt_oflags o') (opt_flags opts),
      checkf := checkf o' \<or> opt_flags opts \<noteq> [],
      checkm := checkm o' \<or> opt_modes opts \<noteq> [],
      opt_mode := (if opt_modes opts = [] then opt_mode o'
                   else word_of_int (strtol 8 (last (opt_modes opts))))\<rparr>)"
proof (induction opts arbitrary: o')
  case (Cons x opts)
  then show ?case by (cases x) (simp_all add: add_flag_def)
qed (use assms in simp)

text \<open>
  The user program understands its options in any order and number: the open flags are those
  of the options given (or create and append when none is), the mode is the last one given (or
  0600), and everything behind the first word that is no option names the files.
\<close>

lemma merge_params_options:
  assumes "ofile \<notin> {''-m'', ''-a'', ''-c'', ''-t'', ''-e''}"
  shows "merge_params ia ca (concat (map render opts) @ ofile # ins) =
    Some (\<lparr>outfile = ofile, infiles = ia, num_files = of_nat (length ins),
      oflags = (if opt_flags opts = [] then O_CREAT OR O_WRONLY OR O_APPEND
                else foldl (OR) O_WRONLY (opt_flags opts)),
      mode = (if opt_modes opts = [] then 384 else word_of_int (strtol 8 (last (opt_modes opts)))),
      ofile_count = ca\<rparr>, ins)"
  by (simp add: merge_params_def parse_opts_render [OF assms] no_opts_def S_IRUSR_def S_IWUSR_def)

lemma merge_params_options_example:
  "map_option (\<lambda>(xp, ins). (oflags xp, mode xp, ins))
     (merge_params 8 64 [''-c'', ''-m'', ''644'', ''-t'', ''out'', ''a'', ''b'']) =
   Some (0x241, 420, [''a'', ''b''])"
proof -
  have m: "strtol 8 ''644'' = 420"
    by (simp add: strtol_def sign_of_def isspace_def isdigit_base_def digit_val_def num_of_def)
  have "merge_params 8 64 (concat (map render [OptC, OptM ''644'', OptT]) @ ''out'' # [''a'', ''b'']) =
    Some (\<lparr>outfile = ''out'', infiles = 8, num_files = of_nat (length [''a'', ''b'']),
      oflags = (if opt_flags [OptC, OptM ''644'', OptT] = [] then O_CREAT OR O_WRONLY OR O_APPEND
                else foldl (OR) O_WRONLY (opt_flags [OptC, OptM ''644'', OptT])),
      mode = (if opt_modes [OptC, OptM ''644'', OptT] = [] then 384
              else word_of_int (strtol 8 (last (opt_modes [OptC, OptM ''644'', OptT])))),
      ofile_count = 64\<rparr>, [''a'', ''b''])"
    by (rule merge_params_options) simp
  then show ?thesis by (simp add: m open_flag_defs)
qed

end
