(* ===== verification/Cmd_Line.thy ===== *)
theory Cmd_Line
  imports C_String
begin

text \<open>
  Reading a command line and showing the prompt. The two shells (\<open>ASS2/myshell.c\<close>,
  \<open>ASS3/myshell.c\<close>) contain the same code for both; the third assignment also ends the shell in
  \<open>get_cmd_line\<close>. A line is what \<open>fgets\<close> stored, without its NUL; \<open>None\<close> stands for an access
  outside the buffer \<open>cmd\<close>.
\<close>

definition is_blank :: "char \<Rightarrow> bool" where
  "is_blank c \<longleftrightarrow> c = CHR '' '' \<or> c = TAB"

text \<open>\<open>while (i < end && P(cmd[i])) i++\<close>; the NUL at the end of the string is never blank.\<close>

function skip_while :: "(char \<Rightarrow> bool) \<Rightarrow> string \<Rightarrow> nat \<Rightarrow> nat" where
  "skip_while P s i = (if i < length s \<and> P (s ! i) then skip_while P s (Suc i) else i)"
  by pat_completeness auto
termination by (relation "measure (\<lambda>(P, s, i). length s - i)") auto

declare skip_while.simps [simp del]

text \<open>\<open>while (cmd[end] is blank or NUL) end--\<close>; below index 0 the buffer ends.\<close>

fun trim_back :: "string \<Rightarrow> nat \<Rightarrow> nat option" where
  "trim_back s e =
     (if is_blank (char_at s e) \<or> char_at s e = NUL
      then case e of 0 \<Rightarrow> None | Suc e' \<Rightarrow> trim_back s e'
      else Some e)"

declare trim_back.simps [simp del]

text \<open>The result is the command, or \<open>None\<close> for the return value \<open>-1\<close>.\<close>

definition fetch_cmd :: "string \<Rightarrow> string option option" where
  "fetch_cmd line =
     (case length line of 0 \<Rightarrow> None
      | Suc end' \<Rightarrow>
          let cmd = take end' line; i = skip_while (\<lambda>c. c = CHR '' '') cmd 0
          in if i = end' then Some None
             else let str = skip_while is_blank cmd 0
                  in case trim_back cmd end' of None \<Rightarrow> None
                     | Some e \<Rightarrow> Some (Some (take (Suc e - str) (drop str cmd))))"

text \<open>\<open>None\<close> as input is the end of the input.\<close>

definition get_cmd_line :: "string option \<Rightarrow> string option option" where
  "get_cmd_line inp = (case inp of None \<Rightarrow> Some None | Some line \<Rightarrow> fetch_cmd line)"

datatype cmd_result = Again | Quit | Command string

definition get_cmd_line_exit :: "string option \<Rightarrow> cmd_result option" where
  "get_cmd_line_exit inp =
     (case inp of None \<Rightarrow> Some Again
      | Some line \<Rightarrow>
          (case fetch_cmd line of None \<Rightarrow> None
           | Some None \<Rightarrow> Some Again
           | Some (Some cmd) \<Rightarrow> Some (if cmd = ''exit'' then Quit else Command cmd)))"

text \<open>
  The prompt for a working directory. The variable \<open>cur\<close> has no value when the path has no
  component, which \<open>getcwd\<close> does not return.
\<close>

definition prompt_dir :: "string \<Rightarrow> string option" where
  "prompt_dir cwd = last_token {CHR ''/''} None cwd"

definition show_prompt :: "string \<Rightarrow> string \<Rightarrow> string option" where
  "show_prompt home cwd =
     (if cwd = ''/'' then Some ''[/] myshell> ''
      else if cwd = home then Some ''[~] myshell> ''
      else map_option (\<lambda>cur. ''['' @ cur @ ''] myshell> '') (prompt_dir cwd))"

definition show_prompt_jobs :: "string \<Rightarrow> string option" where
  "show_prompt_jobs cwd =
     (if cwd = ''/'' then Some ''[/] myshell> ''
      else map_option (\<lambda>cur. ''['' @ cur @ ''] myshell> '') (prompt_dir cwd))"


section \<open>What reading a line does\<close>

lemma skip_while_eq:
  "i \<le> length s \<Longrightarrow> skip_while P s i = i + length (takeWhile P (drop i s))"
proof (induction P s i rule: skip_while.induct)
  case (1 P s i)
  show ?case
  proof (cases "i < length s")
    case True
    then have "drop i s = s ! i # drop (Suc i) s" by (simp add: Cons_nth_drop_Suc)
    with 1 True show ?thesis by (subst skip_while.simps) auto
  qed (use 1 in \<open>subst skip_while.simps, simp\<close>)
qed

lemma skip_while_0: "skip_while P s 0 = length (takeWhile P s)"
  by (simp add: skip_while_eq)

lemma takeWhile_all_iff: "length (takeWhile P s) = length s \<longleftrightarrow> (\<forall>c \<in> set s. P c)"
  by (metis takeWhile_eq_all_conv takeWhile_eq_take take_all_iff order_refl)

text \<open>The reference: blanks removed at both ends.\<close>

definition rtrim :: "string \<Rightarrow> string" where
  "rtrim s = rev (dropWhile is_blank (rev s))"

definition trim :: "string \<Rightarrow> string" where
  "trim s = rtrim (dropWhile is_blank s)"

lemma rtrim_snoc [simp]: "rtrim (s @ [c]) = (if is_blank c then rtrim s else s @ [c])"
  by (simp add: rtrim_def)

lemma rtrim_Nil_iff: "rtrim s = [] \<longleftrightarrow> (\<forall>c \<in> set s. is_blank c)"
  by (simp add: rtrim_def)

lemma trim_back_prefix: "e < length s \<Longrightarrow> NUL \<notin> set s \<Longrightarrow>
   trim_back s e = (if rtrim (take (Suc e) s) = [] then None
                    else Some (length (rtrim (take (Suc e) s)) - 1))"
proof (induction e)
  case 0
  then have "s ! 0 \<noteq> NUL" "take (Suc 0) s = [] @ [s ! 0]"
    by (cases s; auto)+
  with 0 show ?case by (subst trim_back.simps) (simp only: rtrim_snoc, simp add: rtrim_def)
next
  case (Suc e)
  have "s ! Suc e \<noteq> NUL" using Suc.prems by (metis nth_mem)
  moreover have "take (Suc (Suc e)) s = take (Suc e) s @ [s ! Suc e]"
    using Suc.prems by (simp add: take_Suc_conv_app_nth)
  ultimately show ?case
    using Suc by (subst trim_back.simps) simp
qed

lemma trim_back_eq:
  assumes "NUL \<notin> set s"
  shows "trim_back s (length s) = (if rtrim s = [] then None else Some (length (rtrim s) - 1))"
proof (cases s rule: rev_cases)
  case (snoc s' c)
  have "trim_back s (length s) = trim_back s (length s')"
    by (subst trim_back.simps) (simp add: snoc)
  with trim_back_prefix [of "length s'" s] assms show ?thesis by (simp add: snoc)
qed (simp add: trim_back.simps rtrim_def)

lemma rtrim_prefix: "\<exists>bs. s = rtrim s @ bs \<and> (\<forall>c \<in> set bs. is_blank c)"
proof -
  have "rev s = takeWhile is_blank (rev s) @ dropWhile is_blank (rev s)" by simp
  then have "s = rtrim s @ rev (takeWhile is_blank (rev s))"
    unfolding rtrim_def by (metis rev_append rev_rev_ident)
  then show ?thesis by (metis set_rev set_takeWhileD)
qed

lemma drop_rtrim:
  assumes "\<not> (\<forall>c \<in> set s. is_blank c)"
  shows "drop (length (takeWhile is_blank s)) (rtrim s) = trim s"
    and "length (takeWhile is_blank s) \<le> length (rtrim s)"
proof -
  let ?a = "takeWhile is_blank s" and ?b = "dropWhile is_blank s"
  have s: "s = ?a @ ?b" by simp
  have "rtrim ?b \<noteq> []" using assms s by (metis rtrim_Nil_iff set_takeWhileD Un_iff set_append)
  then have "dropWhile is_blank (rev ?b) \<noteq> []" by (simp add: rtrim_def)
  then have "dropWhile is_blank (rev ?b @ rev ?a) = dropWhile is_blank (rev ?b) @ rev ?a"
    by (metis dropWhile_append dropWhile_eq_Nil_conv)
  then have r: "rtrim s = ?a @ rtrim ?b"
    using s by (metis rev_append rev_rev_ident rtrim_def)
  show "drop (length ?a) (rtrim s) = trim s" "length ?a \<le> length (rtrim s)"
    by (simp_all add: r trim_def)
qed

lemma fetch_cmd_eq:
  assumes "line \<noteq> []" "NUL \<notin> set line"
  shows "fetch_cmd line =
    (if \<forall>c \<in> set (butlast line). c = CHR '' '' then Some None
     else if \<forall>c \<in> set (butlast line). is_blank c then None
     else Some (Some (trim (butlast line))))"
proof -
  let ?s = "butlast line"
  have len: "length line = Suc (length ?s)" using assms(1) by simp
  have tk: "take (length ?s) line = ?s" by (simp add: butlast_conv_take)
  have n: "NUL \<notin> set ?s" using assms(2) by (meson in_set_butlastD)
  have *: "take (length (rtrim ?s) - length (takeWhile is_blank ?s))
      (drop (length (takeWhile is_blank ?s)) ?s) = trim ?s" if "\<not> (\<forall>c \<in> set ?s. is_blank c)"
  proof -
    obtain bs where bs: "?s = rtrim ?s @ bs" using rtrim_prefix [of ?s] by blast
    have "drop (length (takeWhile is_blank ?s)) ?s = trim ?s @ bs"
      using drop_rtrim [OF that] by (subst bs) simp
    moreover have "length (trim ?s) = length (rtrim ?s) - length (takeWhile is_blank ?s)"
      using drop_rtrim(1) [OF that] by (metis length_drop)
    ultimately show ?thesis by simp
  qed
  have "length (rtrim ?s) \<noteq> 0" if "\<not> (\<forall>c \<in> set ?s. is_blank c)"
    using that by (simp add: rtrim_Nil_iff)
  then show ?thesis
    using * by (auto simp: fetch_cmd_def len tk skip_while_0 takeWhile_all_iff trim_back_eq [OF n]
        rtrim_Nil_iff Let_def simp del: length_butlast)
qed

lemma trim_ends:
  assumes "\<not> (\<forall>c \<in> set s. is_blank c)"
  shows "trim s \<noteq> [] \<and> \<not> is_blank (hd (trim s)) \<and> \<not> is_blank (last (trim s))"
proof -
  let ?b = "dropWhile is_blank s"
  have b: "?b \<noteq> []" "\<not> is_blank (hd ?b)" using assms hd_dropWhile [of is_blank s] by auto
  obtain bs where bs: "?b = trim s @ bs" "\<forall>c \<in> set bs. is_blank c"
    using rtrim_prefix [of ?b] by (auto simp: trim_def)
  have ne: "trim s \<noteq> []" using bs b by (cases "trim s = []") (auto simp: hd_in_set)
  have "last (trim s) = hd (dropWhile is_blank (rev ?b))" using ne
    by (simp add: trim_def rtrim_def last_rev)
  moreover have "dropWhile is_blank (rev ?b) \<noteq> []" using ne by (simp add: trim_def rtrim_def)
  ultimately have "\<not> is_blank (last (trim s))" using hd_dropWhile by metis
  moreover have "hd (trim s) = hd ?b" using bs ne by (metis hd_append2)
  ultimately show ?thesis using ne b by simp
qed


section \<open>Properties\<close>

text \<open>
  Reading a command: with the last character of the line taken off (its newline), a line of
  spaces is ignored, and any line with a visible character gives the command with the blanks at
  both ends removed and nothing else changed. The remaining case, a line of blanks with a tab
  among them, runs below the start of the buffer.
\<close>

lemma get_cmd_line_trims:
  assumes "line \<noteq> []" and "NUL \<notin> set line"
  shows "get_cmd_line (Some line) =
      (if \<forall>c \<in> set (butlast line). c = CHR '' '' then Some None
       else if \<forall>c \<in> set (butlast line). is_blank c then None
       else Some (Some (trim (butlast line)))) \<and>
    (\<forall>cmd. get_cmd_line (Some line) = Some (Some cmd) \<longrightarrow>
       cmd \<noteq> [] \<and> \<not> is_blank (hd cmd) \<and> \<not> is_blank (last cmd))"
  using trim_ends [of "butlast line"] by (auto simp: get_cmd_line_def fetch_cmd_eq [OF assms])

text \<open>
  The prompt shows the last directory of an absolute path: for \<open>/d1/../dn\<close> it is \<open>dn\<close>, unless
  the path is the home directory.
\<close>

lemma show_prompt_last_dir:
  assumes "dirs \<noteq> []" and "\<forall>d \<in> set dirs. d \<noteq> [] \<and> CHR ''/'' \<notin> set d"
    and "cwd = concat (map (\<lambda>d. CHR ''/'' # d) dirs)" and "cwd \<noteq> home"
  shows "show_prompt home cwd = Some (''['' @ last dirs @ ''] myshell> '')"
proof -
  have w: "words_by {CHR ''/''} (concat (map (\<lambda>d. CHR ''/'' # d) ds)) = ds"
    if "\<forall>d \<in> set ds. d \<noteq> [] \<and> CHR ''/'' \<notin> set d" for ds
    using that
  proof (induction ds)
    case (Cons d ds)
    let ?r = "concat (map (\<lambda>d. CHR ''/'' # d) ds)"
    have "?r = [] \<or> hd ?r \<in> {CHR ''/''}" by (cases ds) auto
    with Cons words_by_word [of d "{CHR ''/''}" ?r] words_by_skip [of "''/''" "{CHR ''/''}" "d @ ?r"]
    show ?case by simp
  qed (simp add: words_by_Nil)
  have "cwd \<noteq> ''/''" using assms(1-3) by (cases dirs) (auto simp: Cons_eq_append_conv)
  then show ?thesis
    using w [OF assms(2)] assms(1,3,4) by (simp add: show_prompt_def prompt_dir_def last_token_eq)
qed

lemma show_prompt_last_dir_example:
  "show_prompt ''/home'' ''/usr/src'' = Some ''[src] myshell> ''"
  using show_prompt_last_dir [of "[''usr'', ''src'']" "''/usr/src''" "''/home''"] by simp

end
