(* ===== verification/Shell2.thy ===== *)
theory Shell2
  imports Cmd_Line
begin

text \<open>
  The command shell \<open>ASS2/myshell.c\<close>: splitting a command line into arguments with quotes, the
  expansion of \<open>$$\<close> and \<open>$?\<close>, the formatting of the list of jobs, and one round of the main loop.
  \<open>free\<close> has no counterpart. The processes the shell starts and the working directory belong to
  the system, whose calls are the fields of the record \<open>sys2\<close>.
\<close>


section \<open>Splitting a command line\<close>

definition is_quote :: "char \<Rightarrow> bool" where
  "is_quote c \<longleftrightarrow> c = SQUOTE \<or> c = DQUOTE"

text \<open>
  The loop of \<open>parse\<close> on the rest of the line: \<open>q\<close> is \<open>quote == -1\<close>, \<open>tok\<close> the token so far. The
  bound \<open>MAX_CMDLINE_LEN\<close> is never reached, as the line ends with a NUL inside its buffer.
\<close>

function parse_loop :: "bool \<Rightarrow> string \<Rightarrow> string list \<Rightarrow> string \<Rightarrow> string list" where
  "parse_loop q tok argv [] = argv @ [tok]"
| "parse_loop q tok argv (c # cs) =
     (let q = (if is_quote c then \<not> q else q)
      in if is_blank c \<and> \<not> q then parse_loop q [] (argv @ [tok]) (dropWhile is_blank cs)
         else parse_loop q (tok @ [c]) argv cs)"
  by pat_completeness auto
termination
  by (relation "measure (\<lambda>(q, tok, argv, cs). length cs)") (auto simp: le_imp_less_Suc length_dropWhile_le)

definition ARGV_SIZE :: nat where "ARGV_SIZE = 128"

text \<open>\<open>None\<close>: the terminating null pointer or a token would be stored behind \<open>argv[127]\<close>.\<close>

definition parse :: "string \<Rightarrow> (bool \<times> string list) option" where
  "parse cmdline =
     (let argv = parse_loop False [] [] cmdline
      in if length argv > ARGV_SIZE then None
         else if last argv = ''&'' then Some (True, butlast argv)
         else if length argv \<ge> ARGV_SIZE then None
         else Some (False, argv))"


section \<open>Expansion of special arguments\<close>

text \<open>
  The two passes of \<open>replace\<close>: the first counts the occurrences of \<open>old\<close> (and the length of
  \<open>s\<close>), the second writes the new text. Both callers pass an \<open>old\<close> of two characters.
\<close>

function count_loop :: "string \<Rightarrow> string \<Rightarrow> nat \<Rightarrow> nat \<Rightarrow> nat \<times> nat" where
  "count_loop s old i n =
     (if old = [] \<or> length s \<le> i then (i, n)
      else if prefix old (drop i s) then count_loop s old (i + length old) (Suc n)
      else count_loop s old (Suc i) n)"
  by pat_completeness auto
termination by (relation "measure (\<lambda>(s, old, i, n). length s - i)") (auto simp: diff_less_mono2)

declare count_loop.simps [simp del]

function subst_all :: "string \<Rightarrow> string \<Rightarrow> string \<Rightarrow> string" where
  "subst_all old new s =
     (if old = [] \<or> s = [] then []
      else if prefix old s then new @ subst_all old new (drop (length old) s)
      else hd s # subst_all old new (tl s))"
  by pat_completeness auto
termination by (relation "measure (\<lambda>(old, new, s). length s)") auto

declare subst_all.simps [simp del]

definition replace :: "string \<Rightarrow> string \<Rightarrow> string \<Rightarrow> string" where
  "replace s old new = (if SQUOTE \<notin> set s \<and> sublist old s then subst_all old new s else s)"

text \<open>The size of the buffer that \<open>replace\<close> allocates.\<close>

definition replace_size :: "string \<Rightarrow> string \<Rightarrow> string \<Rightarrow> int" where
  "replace_size s old new =
     (let (i, n) = count_loop s old 0 0 in int i + int n * (int (length new) - int (length old)) + 1)"

text \<open>\<open>remove_char\<close> works in place; \<open>x\<close> reads, \<open>y\<close> writes.\<close>

function remove_loop :: "string \<Rightarrow> char \<Rightarrow> nat \<Rightarrow> nat \<Rightarrow> string" where
  "remove_loop s w x y =
     (if x < length s then
        if s ! x = w then remove_loop s w (Suc x) y
        else remove_loop (s[y := s ! x]) w (Suc x) (Suc y)
      else take y s)"
  by pat_completeness auto
termination by (relation "measure (\<lambda>(s, w, x, y). length s - x)") auto

declare remove_loop.simps [simp del]

definition remove_char :: "string \<Rightarrow> char \<Rightarrow> string" where
  "remove_char s w = remove_loop s w 0 0"

definition WEXITSTATUS :: "int \<Rightarrow> int" where
  "WEXITSTATUS status = drop_bit 8 (status AND 0xff00)"

definition special :: "int \<Rightarrow> int \<Rightarrow> string list \<Rightarrow> string list" where
  "special pid child_status argv =
     map (\<lambda>a. remove_char (remove_char
            (replace (replace a ''$$'' (show_int pid)) ''$?'' (show_int (WEXITSTATUS child_status)))
            SQUOTE) DQUOTE) argv"


section \<open>The list of jobs\<close>

text \<open>
  The text printed for the output of \<open>ps\<close>: the loop copies the characters from offset 16 up to
  41 characters before the end. \<open>None\<close> is the write to \<open>buffer[end]\<close> with a negative \<open>end\<close>.
\<close>

function jobs_loop :: "string \<Rightarrow> nat \<Rightarrow> nat \<Rightarrow> int \<Rightarrow> string" where
  "jobs_loop buffer end' x num =
     (if x < end' then
        (if x = 16 then ''['' @ show_int num @ '']'' else []) @
        (if char_at buffer x = NL
         then '' &'' @ [NL] @ (if x + 1 < end' then ''['' @ show_int (num + 1) @ '']'' else []) @
              jobs_loop buffer end' (Suc x) (num + 1)
         else char_at buffer x # jobs_loop buffer end' (Suc x) num)
      else [])"
  by pat_completeness auto
termination by (relation "measure (\<lambda>(buffer, end', x, num). end' - x)") auto

declare jobs_loop.simps [simp del]

definition jobs_text :: "string \<Rightarrow> string option" where
  "jobs_text buffer =
     (if length buffer < 41 then None
      else Some (jobs_loop (take (length buffer - 41) buffer) (length buffer - 41) 16 1))"


section \<open>One round of the main loop\<close>

text \<open>
  \<open>sys_spawn\<close> is \<open>fork\<close> followed by \<open>execvp\<close> in the child (which prints \<open>command not found\<close> and
  exits with 127 when that fails), \<open>sys_fork_cd\<close> the background \<open>cd\<close>, which changes the directory
  of a child only, \<open>sys_ps\<close> the output of \<open>ps\<close> read through the pipe. \<open>sys_waitpid\<close> gives the value
  that \<open>status\<close> has after the call: 0 when the handler of \<open>SIGCHLD\<close> reaped the child first.
\<close>

record 's sys2 =
  sys_chdir :: "'s \<Rightarrow> string \<Rightarrow> string option \<times> 's" \<comment> \<open>\<open>Some\<close>: the text of the error\<close>
  sys_fork_cd :: "'s \<Rightarrow> string \<Rightarrow> 's"
  sys_spawn :: "'s \<Rightarrow> string list \<Rightarrow> int \<times> 's"
  sys_waitpid :: "'s \<Rightarrow> int \<Rightarrow> int \<times> 's" \<comment> \<open>the exit status\<close>
  sys_ps :: "'s \<Rightarrow> string \<times> 's"
  sys_getpid :: "'s \<Rightarrow> int"
  sys_home :: "'s \<Rightarrow> string"

record 's shell2 =
  child_status :: int
  world :: 's

datatype round2 = Exit2 | Next2 string \<comment> \<open>with the text printed\<close>

definition cd_target :: "'s sys2 \<Rightarrow> 's \<Rightarrow> string list \<Rightarrow> string" where
  "cd_target S w argv = (case argv of _ # d # _ \<Rightarrow> d | _ \<Rightarrow> sys_home S w)"

definition shell2_round ::
  "'s sys2 \<Rightarrow> string option \<Rightarrow> 's shell2 \<Rightarrow> (round2 \<times> 's shell2) option" where
  "shell2_round S inp st = do {
     line \<leftarrow> get_cmd_line inp;
     (case line of None \<Rightarrow> Some (Next2 [], st)
      | Some cmdline \<Rightarrow> do {
          (background, argv) \<leftarrow> parse cmdline;
          let argv = special (sys_getpid S (world st)) (child_status st) argv;
          (if argv = [] then Some (Next2 [], st)
           else if argv ! 0 = ''exit'' then Some (Exit2, st)
           else if argv ! 0 = ''cd'' then
             (if background
              then Some (Next2 [], st\<lparr>child_status := 0, world := sys_fork_cd S (world st) (cd_target S (world st) argv)\<rparr>)
              else case sys_chdir S (world st) (cd_target S (world st) argv) of (err, w) \<Rightarrow>
                Some (Next2 (case err of Some e \<Rightarrow> if length argv < 2 then [] else argv ! 1 @ '': '' @ e @ [NL]
                             | None \<Rightarrow> []),
                      st\<lparr>child_status := 0, world := w\<rparr>))
           else if argv ! 0 = ''jobs'' then
             (case sys_ps S (world st) of (out, w) \<Rightarrow> do {
                txt \<leftarrow> jobs_text out;
                Some (Next2 txt, st\<lparr>child_status := 0, world := w\<rparr>)
              })
           else case sys_spawn S (world st) argv of (child_pid, w) \<Rightarrow>
             if background then Some (Next2 [], st\<lparr>child_status := 0, world := w\<rparr>)
             else case sys_waitpid S w child_pid of (status, w) \<Rightarrow>
               Some (Next2 [], st\<lparr>child_status := status, world := w\<rparr>))
        })
   }"


section \<open>Lemmas on splitting\<close>

text \<open>A word as a user types it: blanks only inside quotes, and the quotes closed at its end.\<close>

fun word_ok :: "bool \<Rightarrow> string \<Rightarrow> bool" where
  "word_ok q [] = (\<not> q)"
| "word_ok q (c # cs) =
     (let q = (if is_quote c then \<not> q else q) in (is_blank c \<longrightarrow> q) \<and> word_ok q cs)"

definition shell_word :: "string \<Rightarrow> bool" where
  "shell_word w \<longleftrightarrow> w \<noteq> [] \<and> word_ok False w"

lemma parse_loop_word:
  "word_ok q w \<Longrightarrow> parse_loop q tok argv (w @ r) = parse_loop False (tok @ w) argv r"
proof (induction w arbitrary: q tok)
  case (Cons c w)
  then show ?case by (auto simp: Let_def split: if_splits)
qed simp

lemma shell_word_hd: "shell_word w \<Longrightarrow> \<not> is_blank (hd w)"
  by (cases w) (auto simp: shell_word_def Let_def is_quote_def is_blank_def)

lemma parse_loop_sep:
  assumes "sep \<noteq> []" "\<forall>c \<in> set sep. is_blank c" "r = [] \<or> \<not> is_blank (hd r)"
  shows "parse_loop False tok argv (sep @ r) = parse_loop False [] (argv @ [tok]) r"
proof -
  obtain c cs where sep: "sep = c # cs" using assms(1) by (cases sep) auto
  have "\<not> is_quote c" using assms(2) sep by (auto simp: is_blank_def is_quote_def)
  moreover have "dropWhile is_blank (cs @ r) = r"
    using assms(2,3) sep by (cases r) (auto simp: dropWhile_append2)
  ultimately show ?thesis using assms(2) sep by simp
qed

lemma parse_loop_words:
  "shell_word w \<Longrightarrow>
   \<forall>(sep, v) \<in> set ws. sep \<noteq> [] \<and> (\<forall>c \<in> set sep. is_blank c) \<and> shell_word v \<Longrightarrow>
   parse_loop False [] argv (w @ concat (map (\<lambda>(sep, v). sep @ v) ws)) = argv @ w # map snd ws"
proof (induction ws arbitrary: w argv)
  case (Cons x ws)
  obtain sep v where x: "x = (sep, v)" by fastforce
  let ?r = "v @ concat (map (\<lambda>(sep, v). sep @ v) ws)"
  have v: "shell_word v" using Cons.prems x by auto
  then have "\<not> is_blank (hd ?r)" using shell_word_hd [OF v] by (simp add: shell_word_def)
  with Cons parse_loop_sep [of sep ?r w argv] x v show ?case
    by (simp add: shell_word_def parse_loop_word [of False w "[]"])
qed (simp add: shell_word_def parse_loop_word [of False _ "[]" _ "[]", simplified])


section \<open>Lemmas on expansion\<close>

lemma subst_all_prefix:
  "old \<noteq> [] \<Longrightarrow> prefix old s \<Longrightarrow> subst_all old new s = new @ subst_all old new (drop (length old) s)"
  by (subst subst_all.simps) auto

lemma subst_all_step:
  "old \<noteq> [] \<Longrightarrow> \<not> prefix old (c # s) \<Longrightarrow> subst_all old new (c # s) = c # subst_all old new s"
  by (subst subst_all.simps) simp

lemma subst_all_Nil [simp]: "subst_all old new [] = []"
  by (subst subst_all.simps) simp

lemma count_loop_size:
  "old \<noteq> [] \<Longrightarrow> i \<le> length s \<Longrightarrow> count_loop s old i n = (i', n') \<Longrightarrow>
   i' = length s \<and> int (length (subst_all old new (drop i s))) =
     int (length s) - int i + (int n' - int n) * (int (length new) - int (length old))"
proof (induction s old i n rule: count_loop.induct)
  case (1 s old i n)
  show ?case
  proof (cases "length s \<le> i")
    case True
    then show ?thesis using 1 by (subst (asm) count_loop.simps) auto
  next
    case False
    then have d: "drop i s = s ! i # drop (Suc i) s" by (simp add: Cons_nth_drop_Suc)
    show ?thesis
    proof (cases "prefix old (drop i s)")
      case True
      then have le: "i + length old \<le> length s" using False by (auto dest: prefix_length_le)
      have c: "count_loop s old (i + length old) (Suc n) = (i', n')"
        using "1.prems" False True by (subst (asm) count_loop.simps) simp
      have "drop (length old) (drop i s) = drop (i + length old) s" by (simp add: add.commute)
      with "1.IH"(1) [OF _ True "1.prems"(1) le c] False "1.prems"(1) subst_all_prefix [OF "1.prems"(1) True]
      show ?thesis by (auto simp: algebra_simps)
    next
      case np: False
      have c: "count_loop s old (Suc i) n = (i', n')"
        using "1.prems" False np by (subst (asm) count_loop.simps) simp
      have "\<not> prefix old (s ! i # drop (Suc i) s)" using np d by simp
      from "1.IH"(2) [OF _ np "1.prems"(1) _ c] False "1.prems"(1) subst_all_step [OF "1.prems"(1) this]
      show ?thesis by (auto simp: d)
    qed
  qed
qed

lemma remove_loop_eq:
  "y \<le> x \<Longrightarrow> x \<le> length s \<Longrightarrow> remove_loop s w x y = take y s @ filter (\<lambda>c. c \<noteq> w) (drop x s)"
proof (induction s w x y rule: remove_loop.induct)
  case (1 s w x y)
  show ?case
  proof (cases "x < length s")
    case True
    then have d: "drop x s = s ! x # drop (Suc x) s" by (simp add: Cons_nth_drop_Suc)
    show ?thesis
    proof (cases "s ! x = w")
      case False
      have "take (Suc y) (s[y := s ! x]) = take y s @ [s ! x]" "drop (Suc x) (s[y := s ! x]) = drop (Suc x) s"
        using "1.prems" True by (simp_all add: take_Suc_conv_app_nth)
      with "1.IH"(2) [OF True False] "1.prems" True False show ?thesis
        by (subst remove_loop.simps) (simp add: d)
    qed (use 1 True d in \<open>subst remove_loop.simps, simp\<close>)
  qed (use 1 in \<open>subst remove_loop.simps, simp\<close>)
qed

lemma remove_char_eq [simp]: "remove_char s w = filter (\<lambda>c. c \<noteq> w) s"
  by (simp add: remove_char_def remove_loop_eq)

lemma sublist_pair_Cons:
  "sublist [a, b] (c # s) \<longleftrightarrow> (c = a \<and> s \<noteq> [] \<and> hd s = b) \<or> sublist [a, b] s"
  by (cases s) (auto simp: sublist_Cons_right)

lemma sublist_pair_append:
  "a \<notin> set u \<Longrightarrow> sublist [a, b] (u @ s) = sublist [a, b] s"
  by (induction u) (auto simp: sublist_pair_Cons simp del: sublist_Cons_right)

text \<open>Nothing is left to expand, when the new text has no character of the old one.\<close>

lemma subst_all_complete:
  assumes "a \<notin> set new" "b \<notin> set new" "new \<noteq> []"
  shows "\<not> sublist [a, b] (subst_all [a, b] new s) \<and>
    (s \<noteq> [] \<longrightarrow> subst_all [a, b] new s \<noteq> [] \<and>
       (hd (subst_all [a, b] new s) = hd s \<or> hd (subst_all [a, b] new s) \<in> set new))"
proof (induction "length s" arbitrary: s rule: less_induct)
  case less
  show ?case
  proof (cases s)
    case (Cons c s')
    show ?thesis
    proof (cases "prefix [a, b] s")
      case True
      then obtain r where r: "s = a # b # r" by (auto elim: prefixE)
      then have "\<not> sublist [a, b] (subst_all [a, b] new r)" using less [of r] by simp
      then show ?thesis
        using assms r subst_all_prefix [of "[a, b]" s new] by (simp add: sublist_pair_append)
    next
      case False
      then have e: "subst_all [a, b] new s = c # subst_all [a, b] new s'"
        using subst_all_step [of "[a, b]" c s' new] Cons by simp
      have "\<not> (c = a \<and> s' \<noteq> [] \<and> hd s' = b)" using False Cons by (cases s') auto
      with less [of s'] assms(2) Cons have "\<not> sublist [a, b] (c # subst_all [a, b] new s')"
        by (cases "s' = []") (auto simp: sublist_pair_Cons simp del: sublist_Cons_right)
      then show ?thesis unfolding e using Cons by simp
    qed
  qed simp
qed

lemma show_int_chars: "c \<in> set (show_int i) \<Longrightarrow> isdigit c \<or> c = CHR ''-''"
  by (auto simp: show_int_def dest: digits_isdigit split: if_splits)

lemma show_int_nonempty [simp]: "show_int i \<noteq> []"
  by (simp add: show_int_def)

lemma show_int_no [simp]: "CHR ''$'' \<notin> set (show_int i)" "CHR ''?'' \<notin> set (show_int i)"
  "SQUOTE \<notin> set (show_int i)" "DQUOTE \<notin> set (show_int i)"
  by (auto dest!: show_int_chars simp: isdigit_base_def digit_val_def)

lemma subst_all_set: "set (subst_all old new s) \<subseteq> set new \<union> set s"
proof (induction old new s rule: subst_all.induct)
  case (1 old new s)
  show ?case
  proof (cases "old = [] \<or> s = []")
    case False
    then have "hd s \<in> set s" "set (tl s) \<subseteq> set s" "set (drop (length old) s) \<subseteq> set s"
      by (auto simp: set_drop_subset list.set_sel)
    with 1 False show ?thesis by (subst subst_all.simps) auto
  qed (subst subst_all.simps, auto)
qed

lemma subst_all_id: "\<not> sublist old s \<Longrightarrow> subst_all old new s = s"
proof (induction s)
  case (Cons c s)
  then have "old \<noteq> []" "\<not> prefix old (c # s)" "\<not> sublist old s" by (auto simp: sublist_Cons_right)
  with Cons.IH show ?case by (simp add: subst_all_step)
qed simp

lemma replace_eq: "SQUOTE \<notin> set s \<Longrightarrow> replace s old new = subst_all old new s"
  by (simp add: replace_def subst_all_id)

lemma special_eq:
  "special pid st argv =
     map (\<lambda>a. if SQUOTE \<in> set a then filter (\<lambda>c. \<not> is_quote c) a
              else filter (\<lambda>c. c \<noteq> DQUOTE) (subst_all ''$?'' (show_int (drop_bit 8 st mod 256))
                     (subst_all ''$$'' (show_int pid) a))) argv"
proof -
  have st: "WEXITSTATUS st = drop_bit 8 st mod 256"
  proof -
    have "drop_bit 8 (st AND 0xff00) = drop_bit 8 st AND 0xff" by (simp only: drop_bit_and) simp
    also have "\<dots> = drop_bit 8 st mod 256"
      using take_bit_eq_mask [of 8 "drop_bit 8 st"] by (simp add: take_bit_eq_mod mask_eq_exp_minus_1)
    finally show ?thesis by (simp add: WEXITSTATUS_def)
  qed
  have nq: "SQUOTE \<notin> set (subst_all old (show_int n) a)" if "SQUOTE \<notin> set a" for old n a
    using subst_all_set [of old "show_int n" a] that by auto
  have "filter (\<lambda>c. c \<noteq> SQUOTE) a = a" if "SQUOTE \<notin> set a" for a using that by (auto simp: filter_id_conv)
  then show ?thesis
    by (auto simp: special_def st replace_eq nq is_quote_def replace_def subst_all_id intro!: filter_cong)
qed

lemma special_echo_status:
  "special pid st [''echo'', ''$?''] = [''echo'', show_int (drop_bit 8 st mod 256)]"
proof -
  have "filter (\<lambda>c. c \<noteq> DQUOTE) (show_int n) = show_int n" for n by (simp add: filter_id_conv) force
  then show ?thesis by (simp add: special_eq subst_all.simps)
qed

lemma echo_status_line:
  "get_cmd_line (Some (''echo $?'' @ [NL])) = Some (Some ''echo $?'')"
  "parse ''echo $?'' = Some (False, [''echo'', ''$?''])"
  by code_simp+

lemma jobs_loop_char:
  "16 < x \<Longrightarrow> x < e \<Longrightarrow> char_at buffer x \<noteq> NL \<Longrightarrow>
   jobs_loop buffer e x num = char_at buffer x # jobs_loop buffer e (Suc x) num"
  by (subst jobs_loop.simps) simp

lemma jobs_loop_line:
  "NL \<notin> set l \<Longrightarrow> buffer = u @ l @ NL # v \<Longrightarrow> 16 < length u \<Longrightarrow> length buffer = e \<Longrightarrow>
   jobs_loop buffer e (length u) num =
    l @ '' &'' @ [NL] @ (if v = [] then [] else ''['' @ show_int (num + 1) @ '']'') @
    jobs_loop buffer e (length (u @ l @ [NL])) (num + 1)"
proof (induction l arbitrary: u)
  case Nil
  then show ?case by (subst jobs_loop.simps) (auto simp: char_at_def nth_append)
next
  case (Cons c l)
  have "char_at buffer (length u) = c" "length u < e" using Cons.prems by (auto simp: char_at_def)
  with Cons.prems jobs_loop_char [of "length u" e buffer num] Cons.IH [of "u @ [c]"] show ?case
    by (cases "v = []") auto
qed

text \<open>The text the list of jobs should have.\<close>

fun number_jobs :: "int \<Rightarrow> string list \<Rightarrow> string" where
  "number_jobs k [] = []"
| "number_jobs k (l # ls) = ''['' @ show_int k @ '']'' @ l @ '' &'' @ [NL] @ number_jobs (k + 1) ls"

abbreviation unlines :: "string list \<Rightarrow> string" where
  "unlines ls \<equiv> concat (map (\<lambda>l. l @ [NL]) ls)"

lemma jobs_loop_lines:
  "\<forall>l \<in> set ls. NL \<notin> set l \<Longrightarrow> buffer = u @ unlines ls \<Longrightarrow> 16 < length u \<Longrightarrow>
   (if ls = [] then [] else ''['' @ show_int num @ '']'') @
     jobs_loop buffer (length buffer) (length u) num = number_jobs num ls"
proof (induction ls arbitrary: u num)
  case Nil
  then show ?case by (subst jobs_loop.simps) simp
next
  case (Cons l ls)
  have "unlines ls = [] \<longleftrightarrow> ls = []" by (cases ls) auto
  with Cons.prems Cons.IH [of "u @ l @ [NL]" "num + 1"] jobs_loop_line [of l buffer u "unlines ls"]
  show ?case by (cases "ls = []") auto
qed


section \<open>Properties\<close>

text \<open>
  C35. A command line of shell words, separated by any blanks, is split into exactly these words,
  whose quoted blanks are kept; a last word \<open>&\<close> is taken off and asks for the background. From 128
  words on the argument vector overflows.
\<close>

theorem parse_splits_words:
  assumes "shell_word w"
    and "\<forall>(sep, v) \<in> set ws. sep \<noteq> [] \<and> (\<forall>c \<in> set sep. is_blank c) \<and> shell_word v"
    and "words = w # map snd ws"
  shows "parse (w @ concat (map (\<lambda>(sep, v). sep @ v) ws)) =
    (if last words = ''&'' then if length words \<le> 128 then Some (True, butlast words) else None
     else if length words \<le> 127 then Some (False, words) else None)"
proof -
  have "parse_loop False [] [] (w @ concat (map (\<lambda>(sep, v). sep @ v) ws)) = words"
    using parse_loop_words [OF assms(1,2), of "[]"] assms(3) by simp
  then show ?thesis by (auto simp: parse_def ARGV_SIZE_def Let_def)
qed

theorem parse_splits_words_witness:
  "parse (''echo'' @ concat (map (\<lambda>(sep, v). sep @ v) [(''  '', [DQUOTE] @ ''a b'' @ [DQUOTE]), ('' '', ''&'')])) =
     Some (True, [''echo'', [DQUOTE] @ ''a b'' @ [DQUOTE]])"
  using parse_splits_words [of "''echo''" "[(''  '', [DQUOTE] @ ''a b'' @ [DQUOTE]), ('' '', ''&'')]"]
  by (simp add: shell_word_def is_quote_def is_blank_def Let_def)

text \<open>
  \<open>replace\<close> is right and stays in its buffer: the buffer it allocates is exactly the text it
  writes and the NUL; the text is that with every occurrence of \<open>$$\<close> (or \<open>$?\<close>) replaced, so none
  is left.
\<close>

lemma replace_correct:
  assumes "SQUOTE \<notin> set s" and "sublist [a, b] s" and "a \<notin> set new" and "b \<notin> set new" and "new \<noteq> []"
  shows "replace_size s [a, b] new = int (length (replace s [a, b] new)) + 1 \<and>
    replace s [a, b] new = subst_all [a, b] new s \<and> \<not> sublist [a, b] (replace s [a, b] new)"
proof -
  obtain i n where c: "count_loop s [a, b] 0 0 = (i, n)" by fastforce
  from count_loop_size [of "[a, b]" 0 s 0 i n new] c assms subst_all_complete [OF assms(3-5), of s]
  show ?thesis by (simp add: replace_size_def replace_def)
qed

text \<open>
  An argument with a single quote is passed on as it is, without its quotes; any other
  argument has every \<open>$$\<close> and then every \<open>$?\<close> expanded to the process number and the last exit
  status, and loses its double quotes.
\<close>

lemma special_arguments:
  "special pid st argv =
     map (\<lambda>a. if SQUOTE \<in> set a then filter (\<lambda>c. \<not> is_quote c) a
              else filter (\<lambda>c. c \<noteq> DQUOTE) (subst_all ''$?'' (show_int (drop_bit 8 st mod 256))
                     (subst_all ''$$'' (show_int pid) a))) argv"
  by (rule special_eq)

text \<open>
  The command \<open>jobs\<close>: from an output of \<open>ps\<close> with a heading of 16 characters and a last line
  of 41, that of \<open>ps\<close> itself, the lines between are printed numbered from 1, each with an
  ampersand at its end.
\<close>

lemma jobs_text_numbers:
  assumes "length heading = 16" and "length own = 41" and "\<forall>l \<in> set ls. l \<noteq> [] \<and> NL \<notin> set l"
  shows "jobs_text (heading @ unlines ls @ own) = Some (number_jobs 1 ls)"
proof -
  let ?b = "heading @ unlines ls"
  have j: "jobs_text (heading @ unlines ls @ own) = Some (jobs_loop ?b (length ?b) 16 1)"
    using assms(2) by (simp add: jobs_text_def)
  show ?thesis
  proof (cases ls)
    case Nil
    then show ?thesis unfolding j using assms(1) by (simp add: jobs_loop.simps)
  next
    case (Cons l ls')
    then obtain c l' where l: "l = c # l'" using assms(3) by (cases l) auto
    have "unlines ls' = [] \<longleftrightarrow> ls' = []" by (cases ls') auto
    moreover have "char_at ?b 16 = c" "c \<noteq> NL" "16 < length ?b"
      using assms(1,3) Cons l by (auto simp: char_at_def nth_append)
    then have "jobs_loop ?b (length ?b) 16 1 =
        ''['' @ show_int 1 @ '']'' @ c # jobs_loop ?b (length ?b) (Suc 16) 1"
      by (subst jobs_loop.simps) simp
    moreover have "jobs_loop ?b (length ?b) (Suc 16) 1 = l' @ '' &'' @ [NL] @
        (if unlines ls' = [] then [] else ''['' @ show_int 2 @ '']'') @
        jobs_loop ?b (length ?b) (length (heading @ l @ [NL])) 2"
      using jobs_loop_line [of l' ?b "heading @ [c]" "unlines ls'" "length ?b" 1] assms(1,3) Cons l by simp
    ultimately show ?thesis
      unfolding j using jobs_loop_lines [of ls' ?b "heading @ l @ [NL]" 2] assms(1,3) Cons l
      by (cases "ls' = []") auto
  qed
qed

lemma show_1_2: "show_int 1 = ''1''" "show_int 2 = ''2''"
  by code_simp+

text \<open>
  The exit status of a foreground command is what \<open>$?\<close> means in the next command: after a
  command that ended with \<open>status\<close>, \<open>echo $?\<close> starts \<open>echo\<close> with its decimal exit code.
\<close>

lemma shell2_reports_status:
  assumes "shell2_round S (Some line) st = Some (Next2 out, st1)" and "parse cmd = Some (False, prog # args)"
    and "get_cmd_line (Some line) = Some (Some cmd)"
    and "special (sys_getpid S (world st)) (child_status st) (prog # args) = prog' # args'"
    and "prog' \<notin> {''exit'', ''cd'', ''jobs''}"
    and "sys_spawn S (world st) (prog' # args') = (child, w)" and "sys_waitpid S w child = (status, w')"
  shows "shell2_round S (Some (''echo $?'' @ [NL])) st1 =
    (case sys_spawn S w' [''echo'', show_int (drop_bit 8 status mod 256)] of (child2, w2) \<Rightarrow>
       case sys_waitpid S w2 child2 of (status2, w3) \<Rightarrow>
         Some (Next2 [], st1\<lparr>child_status := status2, world := w3\<rparr>))"
proof -
  have "st1 = st\<lparr>child_status := status, world := w'\<rparr>"
    using assms by (simp add: shell2_round_def)
  then show ?thesis
    by (simp add: shell2_round_def echo_status_line [simplified] special_echo_status split_beta Let_def)
qed

text \<open>A system whose commands all end with exit code 3.\<close>

definition demo_sys2 :: "string list list sys2" where
  "demo_sys2 = \<lparr>sys_chdir = (\<lambda>w d. (None, w)), sys_fork_cd = (\<lambda>w d. w),
     sys_spawn = (\<lambda>w argv. (100, argv # w)), sys_waitpid = (\<lambda>w p. (768, w)),
     sys_ps = (\<lambda>w. ([], w)), sys_getpid = (\<lambda>w. 42), sys_home = (\<lambda>w. ''/root'')\<rparr>"

end
