(* ===== verification/Shell3.thy ===== *)
theory Shell3
  imports Cmd_Line
begin

text \<open>
  The shell with pipes, redirection and job control, \<open>ASS3/myshell.c\<close>: \<open>tokenize\<close>, the job list
  built from the output of \<open>ps\<close>, the redirections and the built-in \<open>bg\<close> of \<open>argv_cmd\<close> (which runs
  in the child), the wiring of pipelines by \<open>process_cmd\<close>, and one round of the main loop.

  System calls are parameters. \<open>None\<close> is a null pointer passed to \<open>strcmp\<close> or \<open>atoi\<close>, a buffer
  overflow, or, for the loop of \<open>argv_cmd\<close>, not ending. The array \<open>fd\<close> of \<open>process_cmd\<close> is a
  function on indexes with a flag for writes behind its end, so that the wiring can be followed.
\<close>


section \<open>Tokens and jobs\<close>

definition MAX_ARG :: nat where "MAX_ARG = 256"
definition MAX_PIPE :: nat where "MAX_PIPE = 127"
definition MAX_CMDLINE_LEN :: nat where "MAX_CMDLINE_LEN = 256"

text \<open>The \<open>for\<close> loop of \<open>tokenize\<close> with \<open>n\<close> elements of \<open>argv\<close> left.\<close>

fun token_loop :: "char set \<Rightarrow> nat \<Rightarrow> string list \<Rightarrow> string \<Rightarrow> string list" where
  "token_loop D 0 argv r = argv"
| "token_loop D (Suc n) argv r =
     (case strtok D r of None \<Rightarrow> argv | Some (t, r') \<Rightarrow> token_loop D n (argv @ [t]) r')"

text \<open>The returned \<open>argc\<close> and the tokens before the first null pointer. \<open>strtok\<close> returns no empty
  token, so that the branch for one is never taken.\<close>

definition tokenize :: "char set \<Rightarrow> string \<Rightarrow> nat \<times> string list" where
  "tokenize D line =
     (case strtok D line of None \<Rightarrow> (1, [])
      | Some (t, r) \<Rightarrow> let argv = token_loop D (MAX_ARG - 1) [t] r in (length argv, argv))"

record job_list =
  cnt :: int
  stat :: string
  pid :: int
  pgid :: int
  command :: string

definition append_job :: "job_list list \<Rightarrow> string \<Rightarrow> job_list list option" where
  "append_job jobs line =
     (let (num, argv) = tokenize {CHR '' ''} line;
          cmd = concat (map (\<lambda>a. a @ '' '') (drop 3 argv))
      in if length argv < 3 \<or> MAX_ARG \<le> length cmd \<or> 10 \<le> length (argv ! 0) then None
         else Some (jobs @ [\<lparr>cnt = (if jobs = [] then 1 else cnt (last jobs) + 1), stat = argv ! 0,
                             pid = atoi (argv ! 2), pgid = atoi (argv ! 1), command = cmd\<rparr>]))"

fun append_jobs :: "job_list list \<Rightarrow> string list \<Rightarrow> job_list list option" where
  "append_jobs jobs [] = Some jobs"
| "append_jobs jobs (l # ls) = do { jobs \<leftarrow> append_job jobs l; append_jobs jobs ls }"

text \<open>\<open>for (x = 1; x < end - 1; x++)\<close>: neither the heading nor the line of \<open>ps\<close> itself.\<close>

definition collect_jobs :: "string \<Rightarrow> job_list list option" where
  "collect_jobs buffer =
     (let (argc, argv) = tokenize {NL, TAB} buffer
      in append_jobs [] (drop 1 (take (length argv - 1) argv)))"

definition show_job :: "job_list \<Rightarrow> string" where
  "show_job j = ''['' @ show_int (cnt j) @ '']'' @ [TAB] @ show_int (pgid j) @ [TAB] @
     show_int (pid j) @ [TAB] @ stat j @ [TAB] @ command j @ [NL]"


section \<open>Redirection and execution in the child\<close>

definition is_redirect :: "string \<Rightarrow> bool" where
  "is_redirect a \<longleftrightarrow> a = ''<'' \<or> a = ''>'' \<or> a = ''>>'' \<or> a = ''&>''"

text \<open>\<open>-1\<close> when there is none; \<open>argc\<close> may be smaller than the number of arguments left.\<close>

fun IOredirect_index :: "string list \<Rightarrow> nat \<Rightarrow> int" where
  "IOredirect_index [] argc = -1"
| "IOredirect_index (a # as) argc =
     (case argc of 0 \<Rightarrow> -1
      | Suc n \<Rightarrow> if is_redirect a then 0
                 else let i = IOredirect_index as n in if i = -1 then -1 else i + 1)"

record fds =
  infd :: int
  outfd :: int
  appfd :: int
  errfd :: int

definition no_fds :: fds where
  "no_fds = \<lparr>infd = -1, outfd = -1, appfd = -1, errfd = -1\<rparr>"

definition any_fd :: "fds \<Rightarrow> bool" where
  "any_fd f \<longleftrightarrow> infd f \<noteq> -1 \<or> outfd f \<noteq> -1 \<or> appfd f \<noteq> -1 \<or> errfd f \<noteq> -1"

datatype open_mode = ReadOnly | Truncate | Append

definition set_fd :: "string \<Rightarrow> int \<Rightarrow> fds \<Rightarrow> fds" where
  "set_fd rop n f =
     (if rop = ''<'' then f\<lparr>infd := n\<rparr> else if rop = ''>'' then f\<lparr>outfd := n\<rparr>
      else if rop = ''>>'' then f\<lparr>appfd := n\<rparr> else f\<lparr>errfd := n\<rparr>)"

definition redirect_mode :: "string \<Rightarrow> open_mode" where
  "redirect_mode rop = (if rop = ''<'' then ReadOnly else if rop = ''>>'' then Append else Truncate)"

text \<open>
  The \<open>while (1)\<close> loop; \<open>opn\<close> is \<open>open(2)\<close>, where \<open>None\<close> is the null pointer behind the last
  argument. The result says whether an input file was missing.
\<close>

partial_function (option) redirect_loop ::
  "('s \<Rightarrow> string option \<Rightarrow> open_mode \<Rightarrow> int \<times> 's) \<Rightarrow> string list \<Rightarrow> nat \<Rightarrow> fds \<Rightarrow> 's \<Rightarrow>
    (bool \<times> string list \<times> fds \<times> 's) option" where
  "redirect_loop opn argv argc f s =
     (let index = IOredirect_index argv argc
      in if index = -1 then Some (False, argv, f, s)
         else let i = nat index; rop = argv ! i;
                  file = (if i + 1 < length argv then Some (argv ! (i + 1)) else None)
              in case opn s file (redirect_mode rop) of (n, s) \<Rightarrow>
                   let f = set_fd rop n f
                   in if rop = ''<'' \<and> n = -1 then Some (True, argv, f, s)
                      else if any_fd f
                      then redirect_loop opn (take i argv @ drop (i + 2) argv) (argc - 2) f s
                      else redirect_loop opn argv argc f s)"

text \<open>The descriptors behind 0, 1 and 2 after the calls of \<open>dup2\<close>.\<close>

definition redirected :: "fds \<Rightarrow> int \<times> int \<times> int" where
  "redirected f =
     (if infd f \<noteq> -1 then infd f else 0,
      if outfd f \<noteq> -1 then outfd f else if appfd f \<noteq> -1 then appfd f
      else if errfd f \<noteq> -1 then errfd f else 1,
      if outfd f = -1 \<and> appfd f = -1 \<and> errfd f \<noteq> -1 then errfd f else 2)"

datatype child_action =
    Exec "string list" "int \<times> int \<times> int"
  | Continue int \<comment> \<open>\<open>SIGCONT\<close> to a process group, which gets the terminal\<close>
  | JobNotFound

definition bg_target :: "job_list list \<Rightarrow> string list \<Rightarrow> job_list option" where
  "bg_target jobs argv =
     (case argv of
        _ # a # _ \<Rightarrow> find (\<lambda>j. stat j = ''T'' \<and> cnt j = atoi (drop 1 a)) jobs
      | _ \<Rightarrow> (case filter (\<lambda>j. stat j = ''T'') jobs of [] \<Rightarrow> None | ts \<Rightarrow> Some (last ts)))"

definition argv_cmd ::
  "('s \<Rightarrow> string option \<Rightarrow> open_mode \<Rightarrow> int \<times> 's) \<Rightarrow> job_list list \<Rightarrow> string \<Rightarrow> 's \<Rightarrow>
    (bool \<times> child_action \<times> 's) option" where
  "argv_cmd opn jobs cmd s =
     (case tokenize {CHR '' '', TAB} cmd of (argc, argv) \<Rightarrow>
        if argv = [] then None
        else do {
          (missing, argv, f, s) \<leftarrow> redirect_loop opn argv argc no_fds s;
          (if argv = [] then None
           else if argv ! 0 = ''bg'' then
             Some (missing, (case bg_target jobs argv of None \<Rightarrow> JobNotFound | Some j \<Rightarrow> Continue (pgid j)), s)
           else Some (missing, Exec argv (redirected f), s))
        })"


section \<open>Pipelines\<close>

text \<open>
  The parent's loop: \<open>pipes x\<close> and \<open>pids x\<close> are what the calls of \<open>pipe\<close> and \<open>fork\<close> number \<open>x\<close> give.
  A stage is a child: its command, standard input and output, and process group.
\<close>

record stage =
  s_cmd :: string
  s_in :: int
  s_out :: int
  s_pgid :: int

record pipe_state =
  p_fd :: "nat \<Rightarrow> int"
  p_overrun :: bool
  p_open :: "int set"
  p_in :: int
  p_stages :: "stage list"

definition fd_write :: "nat \<Rightarrow> nat \<Rightarrow> int \<Rightarrow> pipe_state \<Rightarrow> pipe_state" where
  "fd_write sz i v ps =
     ps\<lparr>p_fd := (p_fd ps)(i := v), p_overrun := p_overrun ps \<or> \<not> i < sz, p_open := insert v (p_open ps)\<rparr>"

definition pipe_stage ::
  "(nat \<Rightarrow> int \<times> int) \<Rightarrow> (nat \<Rightarrow> int) \<Rightarrow> string list \<Rightarrow> pipe_state \<Rightarrow> nat \<Rightarrow> pipe_state" where
  "pipe_stage pipes pids cmds ps x =
     (let num_pipe = length cmds; sz = (num_pipe - 1) * 2;
          ps = fd_write sz (x * 2) (fst (pipes x)) ps;
          ps = fd_write sz (x * 2 + 1) (snd (pipes x)) ps;
          child = \<lparr>s_cmd = cmds ! x, s_in = p_in ps,
                   s_out = (if x + 1 < num_pipe then p_fd ps (x * 2 + 1) else 1), s_pgid = pids 0\<rparr>;
          ps = ps\<lparr>p_stages := p_stages ps @ [child]\<rparr>
      in if x + 1 < num_pipe
         then ps\<lparr>p_open := p_open ps - {p_fd ps (x * 2 + 1)}, p_in := p_fd ps (x * 2)\<rparr>
         else ps)"

definition start_state :: "int set \<Rightarrow> pipe_state" where
  "start_state opn = \<lparr>p_fd = (\<lambda>_. 0), p_overrun = False, p_open = opn, p_in = 0, p_stages = []\<rparr>"

definition start_pipeline ::
  "(nat \<Rightarrow> int \<times> int) \<Rightarrow> (nat \<Rightarrow> int) \<Rightarrow> string list \<Rightarrow> int set \<Rightarrow> pipe_state" where
  "start_pipeline pipes pids cmds opn =
     (if length cmds > 1 then foldl (pipe_stage pipes pids cmds) (start_state opn) [0..<length cmds]
      else (start_state opn)\<lparr>p_stages := [\<lparr>s_cmd = hd cmds, s_in = 0, s_out = 1, s_pgid = pids 0\<rparr>]\<rparr>)"

text \<open>
  The delimiter is the address of one character, so \<open>strtok\<close> also takes the characters that
  follow it in memory, \<open>junk\<close>, for delimiters. The result is the state after the final loop of
  \<open>close\<close> and the list of children waited for.
\<close>

definition process_cmd ::
  "char set \<Rightarrow> (nat \<Rightarrow> int \<times> int) \<Rightarrow> (nat \<Rightarrow> int) \<Rightarrow> string \<Rightarrow> int set \<Rightarrow> (pipe_state \<times> int list) option" where
  "process_cmd junk pipes pids cmdline opn =
     (if cmdline = [] then None
      else
        let background = (last cmdline = CHR ''&'');
            cmdline = (if background then butlast cmdline else cmdline);
            (num_pipe, cmds) = tokenize ({CHR ''|''} \<union> junk) cmdline
        in if cmds = [] \<or> MAX_PIPE \<le> length cmds then None
           else
             let ps = start_pipeline pipes pids cmds opn;
                 waits = (if background then [] else map pids [0..<num_pipe]);
                 ps = ps\<lparr>p_open := p_open ps - p_fd ps ` {0..<(num_pipe - 1) * 2}\<rparr>
             in Some (ps, waits))"


section \<open>One round of the main loop\<close>

datatype round3 = Exit3 | Idle3 | Listing string | Pipeline pipe_state "int list"

definition shell3_round ::
  "(string \<Rightarrow> string) \<Rightarrow> char set \<Rightarrow> (nat \<Rightarrow> int \<times> int) \<Rightarrow> (nat \<Rightarrow> int) \<Rightarrow> string option \<Rightarrow> int set \<Rightarrow>
    (round3 \<times> job_list list) option" where
  "shell3_round ps junk pipes pids inp opn =
     do {
       r \<leftarrow> get_cmd_line_exit inp;
       (case r of Again \<Rightarrow> Some (Idle3, [])
        | Quit \<Rightarrow> Some (Exit3, [])
        | Command cmd \<Rightarrow> do {
            jobs \<leftarrow> collect_jobs (ps cmd);
            (if cmd = ''jobs''
             then Some (Listing ([TAB] @ ''pgid'' @ [TAB] @ ''pid'' @ [TAB] @ ''stat'' @ [TAB] @
                                 ''command'' @ [NL] @ concat (map show_job jobs)), jobs)
             else do { (pipeline, waits) \<leftarrow> process_cmd junk pipes pids cmd opn;
                       Some (Pipeline pipeline waits, jobs) })
          })
     }"


section \<open>Lemmas\<close>

lemma token_loop_words: "token_loop D n argv r = argv @ take n (words_by D r)"
proof (induction n arbitrary: argv r)
  case (Suc n)
  show ?case
  proof (cases "strtok D r")
    case None
    then have "words_by D r = []" by (simp add: strtok_None_iff words_by_Nil)
    with None show ?thesis by simp
  next
    case (Some a)
    then obtain t r' where "strtok D r = Some (t, r')" by (cases a) auto
    with Suc strtok_words(1) [OF this] show ?thesis by simp
  qed
qed simp

lemma tokenize_eq:
  "tokenize D line =
     (if words_by D line = [] then (1, [])
      else (min MAX_ARG (length (words_by D line)), take MAX_ARG (words_by D line)))"
proof (cases "strtok D line")
  case None
  then have "words_by D line = []" by (simp add: strtok_None_iff words_by_Nil)
  with None show ?thesis by (simp add: tokenize_def)
next
  case (Some a)
  then obtain t r where tr: "strtok D line = Some (t, r)" by (cases a) auto
  from strtok_words(1) [OF this] show ?thesis
    by (simp add: tokenize_def tr token_loop_words MAX_ARG_def Let_def)
qed

lemma append_jobs_cnt:
  "append_jobs jobs ls = Some jobs' \<Longrightarrow> map cnt jobs = map int [1..<Suc (length jobs)] \<Longrightarrow>
   map cnt jobs' = map int [1..<Suc (length jobs')] \<and> length jobs' = length jobs + length ls"
proof (induction ls arbitrary: jobs)
  case (Cons l ls)
  from Cons.prems(1) obtain j where j: "append_job jobs l = Some (jobs @ [j])"
    "append_jobs (jobs @ [j]) ls = Some jobs'" "cnt j = (if jobs = [] then 1 else cnt (last jobs) + 1)"
    by (auto simp: append_job_def bind_eq_Some_conv Let_def split: if_splits prod.splits)
  have "cnt (last jobs) = int (length jobs)" if "jobs \<noteq> []"
    using Cons.prems(2) that by (metis last_map last_snoc length_map map_append list.simps(8) upt_Suc_append
        length_greater_0_conv One_nat_def Suc_le_eq list.map(2))
  then have "map cnt (jobs @ [j]) = map int [1..<Suc (length (jobs @ [j]))]"
    using Cons.prems(2) j(3) by auto
  from Cons.IH [OF j(2) this] show ?case by simp
qed simp

text \<open>The reference for redirections: the plain words and the pairs of operator and file.\<close>

fun split_redirs :: "string list \<Rightarrow> string list \<times> (string \<times> string) list" where
  "split_redirs [] = ([], [])"
| "split_redirs [a] = (if is_redirect a then ([], []) else ([a], []))"
| "split_redirs (a # b # as) =
     (if is_redirect a then (fst (split_redirs as), (a, b) # snd (split_redirs as))
      else (a # fst (split_redirs (b # as)), snd (split_redirs (b # as))))"

fun redirs_complete :: "string list \<Rightarrow> bool" where
  "redirs_complete [] = True"
| "redirs_complete [a] = (\<not> is_redirect a)"
| "redirs_complete (a # b # as) = (if is_redirect a then redirs_complete as else redirs_complete (b # as))"

fun run_opens ::
  "('s \<Rightarrow> string option \<Rightarrow> open_mode \<Rightarrow> int \<times> 's) \<Rightarrow> (string \<times> string) list \<Rightarrow> fds \<Rightarrow> 's \<Rightarrow> fds \<times> 's" where
  "run_opens opn [] f s = (f, s)"
| "run_opens opn ((rop, file) # rs) f s =
     (case opn s (Some file) (redirect_mode rop) of (n, s) \<Rightarrow> run_opens opn rs (set_fd rop n f) s)"

lemma index_none: "\<forall>a \<in> set us. \<not> is_redirect a \<Longrightarrow> IOredirect_index us n = -1"
  by (induction us n rule: IOredirect_index.induct) (auto split: nat.split)

lemma index_first:
  "\<forall>a \<in> set us. \<not> is_redirect a \<Longrightarrow> is_redirect a \<Longrightarrow> length us < n \<Longrightarrow>
   IOredirect_index (us @ a # as) n = int (length us)"
proof (induction us arbitrary: n)
  case (Cons u us)
  then show ?case by (cases n) auto
qed (auto split: nat.split)

lemma set_fd_any: "is_redirect rop \<Longrightarrow> n \<noteq> -1 \<Longrightarrow> any_fd (set_fd rop n f)"
  by (auto simp: is_redirect_def set_fd_def any_fd_def)

lemma redirect_loop_step:
  assumes "\<forall>a \<in> set us. \<not> is_redirect a" "is_redirect a" "opn s (Some b) (redirect_mode a) = (n, s')" "n \<noteq> -1"
  shows "redirect_loop opn (us @ a # b # as) (length (us @ a # b # as)) f s =
    redirect_loop opn (us @ as) (length (us @ as)) (set_fd a n f) s'"
  using assms set_fd_any [OF assms(2,4), of f]
  by (subst redirect_loop.simps) (simp add: index_first Let_def nth_append)

lemma redirect_loop_done:
  "\<forall>a \<in> set us. \<not> is_redirect a \<Longrightarrow> redirect_loop opn us n f s = Some (False, us, f, s)"
  by (subst redirect_loop.simps) (simp add: index_none)

lemma redirect_loop_ok:
  "\<forall>s file m. fst (opn s file m) \<noteq> -1 \<Longrightarrow> redirs_complete xs \<Longrightarrow> \<forall>a \<in> set us. \<not> is_redirect a \<Longrightarrow>
   redirect_loop opn (us @ xs) (length (us @ xs)) f s =
     (case run_opens opn (snd (split_redirs xs)) f s of (f', s') \<Rightarrow>
        Some (False, us @ fst (split_redirs xs), f', s'))"
proof (induction xs arbitrary: us f s rule: split_redirs.induct)
  case 1
  then show ?case by (simp add: redirect_loop_done)
next
  case (2 a)
  then show ?case by (simp add: redirect_loop_done)
next
  case (3 a b as)
  show ?case
  proof (cases "is_redirect a")
    case True
    obtain n s' where o1: "opn s (Some b) (redirect_mode a) = (n, s')" by fastforce
    have "n \<noteq> -1" using "3.prems"(1) o1 by (metis fst_conv)
    from redirect_loop_step [of us a opn s b n s', OF "3.prems"(3) True o1 this] "3.IH"(1) [OF True "3.prems"(1)] "3.prems" True
    show ?thesis by (simp add: o1)
  next
    case False
    then have "\<forall>c \<in> set (us @ [a]). \<not> is_redirect c" using "3.prems"(3) by simp
    from "3.IH"(3) [OF False "3.prems"(1) _ this, of f s] "3.prems"(2) False show ?thesis by simp
  qed
qed

lemmas redirect_loop_induct = redirect_loop.raw_induct [rotated, consumes 1, case_names step]

lemma redirect_loop_stuck:
  assumes "redirect_loop opn argv argc f s = Some y"
  shows "\<not> (f = no_fds \<and> (\<forall>s file m. fst (opn s file m) = -1) \<and>
    (\<exists>us a as. argv = us @ a # as \<and> (\<forall>u \<in> set us. \<not> is_redirect u) \<and> is_redirect a \<and> a \<noteq> ''<'' \<and>
       length us < argc))"
  using assms
proof (induct rule: redirect_loop_induct)
  case (step redirect_loop opn argv argc f s y)
  show ?case
  proof
    assume A: "f = no_fds \<and> (\<forall>s file m. fst (opn s file m) = -1) \<and>
      (\<exists>us a as. argv = us @ a # as \<and> (\<forall>u \<in> set us. \<not> is_redirect u) \<and> is_redirect a \<and> a \<noteq> ''<'' \<and>
         length us < argc)"
    then obtain us a as where argv: "argv = us @ a # as" "\<forall>u \<in> set us. \<not> is_redirect u"
      "is_redirect a" "a \<noteq> ''<''" "length us < argc" by blast
    let ?file = "if length us + 1 < length argv then Some (argv ! (length us + 1)) else None"
    obtain s' where o1: "opn s ?file (redirect_mode a) = (-1, s')" using A by (metis prod.collapse)
    have "set_fd a (-1) no_fds = no_fds" "\<not> any_fd no_fds"
      by (simp_all add: set_fd_def no_fds_def any_fd_def)
    then have "redirect_loop opn argv argc no_fds s' = Some y"
      using step.hyps(2) A o1 argv by (simp add: index_first Let_def nth_append)
    from step.hyps(1) [OF this] A show False by blast
  qed
qed

lemma pipe_stage_simps:
  "p_fd (pipe_stage pipes pids cmds ps x) = (p_fd ps)(x * 2 := fst (pipes x), x * 2 + 1 := snd (pipes x))"
  "p_in (pipe_stage pipes pids cmds ps x) = (if x + 1 < length cmds then fst (pipes x) else p_in ps)"
  "p_stages (pipe_stage pipes pids cmds ps x) = p_stages ps @ [\<lparr>s_cmd = cmds ! x, s_in = p_in ps,
     s_out = (if x + 1 < length cmds then snd (pipes x) else 1), s_pgid = pids 0\<rparr>]"
  by (simp_all add: pipe_stage_def fd_write_def Let_def)

lemma pipe_stage_overrun:
  "p_overrun (pipe_stage pipes pids cmds ps x) = (p_overrun ps \<or> \<not> x + 1 < length cmds)"
proof -
  have "x * 2 < (length cmds - 1) * 2 \<longleftrightarrow> x + 1 < length cmds"
    "x * 2 + 1 < (length cmds - 1) * 2 \<longleftrightarrow> x + 1 < length cmds" by linarith+
  then show ?thesis by (auto simp: pipe_stage_def fd_write_def Let_def)
qed

text \<open>After \<open>k\<close> stages of a pipeline the descriptors stored and the wiring are those of the pipes.\<close>

abbreviation after_stages where
  "after_stages pipes pids cmds opn k \<equiv> foldl (pipe_stage pipes pids cmds) (start_state opn) [0..<k]"

lemma after_fd:
  "i < k \<Longrightarrow> p_fd (after_stages pipes pids cmds opn k) (i * 2) = fst (pipes i) \<and>
   p_fd (after_stages pipes pids cmds opn k) (i * 2 + 1) = snd (pipes i)"
proof (induction k)
  case (Suc k)
  have "i * 2 \<noteq> k * 2 + 1" "i * 2 + 1 \<noteq> k * 2" by presburger+
  with Suc show ?case by (cases "i = k") (auto simp: pipe_stage_simps)
qed simp

lemma after_in:
  "k < length cmds \<Longrightarrow>
   p_in (after_stages pipes pids cmds opn k) = (if k = 0 then 0 else fst (pipes (k - 1)))"
  by (cases k) (simp_all add: pipe_stage_simps start_state_def)

lemma after_stages_eq:
  "k \<le> length cmds \<Longrightarrow> p_stages (after_stages pipes pids cmds opn k) =
   map (\<lambda>i. \<lparr>s_cmd = cmds ! i, s_in = (if i = 0 then 0 else fst (pipes (i - 1))),
        s_out = (if i + 1 < length cmds then snd (pipes i) else 1), s_pgid = pids 0\<rparr>) [0..<k]"
proof (induction k)
  case (Suc k)
  then show ?case using after_in [of k cmds] by (simp add: pipe_stage_simps)
qed (simp add: start_state_def)

lemma after_overrun:
  "0 < length cmds \<Longrightarrow> p_overrun (after_stages pipes pids cmds opn (length cmds))"
  by (cases "length cmds") (simp_all add: pipe_stage_overrun)

text \<open>What \<open>process_cmd\<close> returns, in terms of the commands of the line.\<close>

lemma process_cmd_Some:
  assumes "process_cmd junk pipes pids line opn = Some (ps, waits)"
    and "cmds = words_by ({CHR ''|''} \<union> junk) (if last line = CHR ''&'' then butlast line else line)"
  shows "cmds \<noteq> []" "length cmds < 127"
    "waits = (if last line = CHR ''&'' then [] else map pids [0..<length cmds])"
    "ps = (start_pipeline pipes pids cmds opn)\<lparr>p_open := p_open (start_pipeline pipes pids cmds opn) -
       p_fd (start_pipeline pipes pids cmds opn) ` {0..<(length cmds - 1) * 2}\<rparr>"
proof -
  let ?l = "if last line = CHR ''&'' then butlast line else line"
  obtain n cs where t: "tokenize ({CHR ''|''} \<union> junk) ?l = (n, cs)" by fastforce
  have c: "cs \<noteq> []" "length cs < 127"
    using assms(1) t by (auto simp: process_cmd_def Let_def MAX_PIPE_def split: if_splits)
  then have e: "cs = cmds" "n = length cmds" "cmds \<noteq> []" "length cmds < 127"
    using t assms(2) tokenize_eq [of "{CHR ''|''} \<union> junk" ?l] by (auto simp: MAX_ARG_def split: if_splits)
  then show "cmds \<noteq> []" "length cmds < 127" by simp_all
  have "Some (ps, waits) = Some ((start_pipeline pipes pids cmds opn)\<lparr>p_open := p_open (start_pipeline pipes pids cmds opn) -
       p_fd (start_pipeline pipes pids cmds opn) ` {0..<(length cmds - 1) * 2}\<rparr>,
       if last line = CHR ''&'' then [] else map pids [0..<length cmds])"
    using assms(1) t e by (auto simp: process_cmd_def Let_def MAX_PIPE_def split: if_splits)
  then show "waits = (if last line = CHR ''&'' then [] else map pids [0..<length cmds])"
    "ps = (start_pipeline pipes pids cmds opn)\<lparr>p_open := p_open (start_pipeline pipes pids cmds opn) -
       p_fd (start_pipeline pipes pids cmds opn) ` {0..<(length cmds - 1) * 2}\<rparr>" by simp_all
qed

lemma start_pipeline_stages:
  "cmds \<noteq> [] \<Longrightarrow> p_stages (start_pipeline pipes pids cmds opn) =
   map (\<lambda>i. \<lparr>s_cmd = cmds ! i, s_in = (if i = 0 then 0 else fst (pipes (i - 1))),
        s_out = (if i + 1 < length cmds then snd (pipes i) else 1), s_pgid = pids 0\<rparr>) [0..<length cmds]"
proof -
  assume "cmds \<noteq> []"
  then have "\<not> 1 < length cmds \<Longrightarrow> length cmds = 1" by (cases cmds) auto
  with \<open>cmds \<noteq> []\<close> show ?thesis
    by (cases "1 < length cmds") (auto simp: start_pipeline_def after_stages_eq hd_conv_nth)
qed

lemma pipe_last_open:
  assumes "1 < length cmds"
  shows "snd (pipes (length cmds - 1)) \<in>
    p_open (foldl (pipe_stage pipes pids cmds) (start_state opn) [0..<length cmds])"
proof -
  have "[0..<length cmds] = [0..<length cmds - 1] @ [length cmds - 1]"
    using assms by (metis One_nat_def Suc_diff_1 less_trans upt_Suc_append zero_le zero_less_one)
  then show ?thesis using assms by (simp add: pipe_stage_def fd_write_def Let_def)
qed


section \<open>Properties\<close>

text \<open>
  \<open>tokenize\<close> computes the maximal runs of characters that are not delimiters, at most 256 of
  them, and returns their number; a line without any gives 1 and the null pointer.
\<close>

lemma tokenize_words:
  "tokenize D line =
     (if words_by D line = [] then (1, [])
      else (min 256 (length (words_by D line)), take 256 (words_by D line)))"
  using tokenize_eq [of D line] by (simp add: MAX_ARG_def)






text \<open>The line \<open>ls|wc\<close> with the pipes 3, 4 and 4, 5 and the processes 10 and 11.\<close>

definition demo_pipes :: "nat \<Rightarrow> int \<times> int" where
  "demo_pipes x = (3 + int x, 4 + int x)"

lemma demo_words: "words_by {CHR ''|''} ''ls|wc'' = [''ls'', ''wc'']"
  by (simp add: words_by.simps)

lemma demo_process: "\<exists>ps waits. process_cmd {} demo_pipes (\<lambda>x. 10 + int x) ''ls|wc'' {0, 1, 2} = Some (ps, waits)"
  by (simp add: process_cmd_def tokenize_eq demo_words MAX_ARG_def MAX_PIPE_def Let_def)


text \<open>
  C39. Every pipeline of two commands or more writes behind the end of the array \<open>fd\<close>, whose size
  leaves no room for the pipe made for the last command; that pipe's write end stays open in the
  shell.
\<close>

theorem pipeline_overruns_fd:
  assumes "process_cmd junk pipes pids line opn = Some (ps, waits)" and "n = length (p_stages ps)" and "2 \<le> n"
    and "\<forall>i < n - 1. snd (pipes (n - 1)) \<noteq> fst (pipes i) \<and> snd (pipes (n - 1)) \<noteq> snd (pipes i)"
  shows "p_overrun ps \<and> snd (pipes (n - 1)) \<in> p_open ps"
proof -
  define cmds where "cmds = words_by ({CHR ''|''} \<union> junk) (if last line = CHR ''&'' then butlast line else line)"
  note P = process_cmd_Some [OF assms(1) cmds_def]
  have n: "n = length cmds" using assms(2) P by (simp add: start_pipeline_stages)
  let ?a = "after_stages pipes pids cmds opn (length cmds)"
  have sp: "start_pipeline pipes pids cmds opn = ?a" using assms(3) n by (simp add: start_pipeline_def)
  have "p_fd ?a j \<noteq> snd (pipes (n - 1))" if "j < (n - 1) * 2" for j
  proof -
    obtain i where "j = i * 2 \<or> j = i * 2 + 1" by (metis even_two_times_div_two odd_two_times_div_two_succ mult.commute)
    moreover from this have "i < n - 1" "i < length cmds" using that n by auto
    ultimately show ?thesis using after_fd [of i "length cmds" pipes pids cmds opn] assms(4) by metis
  qed
  then have "snd (pipes (n - 1)) \<notin> p_fd ?a ` {0..<(n - 1) * 2}" by fastforce
  moreover have "1 < length cmds" "0 < length cmds" using assms(3) n by auto
  ultimately show ?thesis
    using P(4) sp after_overrun [of cmds pipes pids opn] pipe_last_open [of cmds pipes pids opn] n
    by simp
qed

theorem pipeline_overruns_fd_witness:
  "\<exists>ps waits. process_cmd {} demo_pipes (\<lambda>x. 10 + int x) ''ls|wc'' {0, 1, 2} = Some (ps, waits) \<and>
     p_overrun ps \<and> 5 \<in> p_open ps"
proof -
  obtain ps waits where p: "process_cmd {} demo_pipes (\<lambda>x. 10 + int x) ''ls|wc'' {0, 1, 2} = Some (ps, waits)"
    using demo_process by blast
  have "length (p_stages ps) = 2"
    using process_cmd_Some(4) [OF p refl] by (simp add: demo_words start_pipeline_stages)
  with pipeline_overruns_fd [OF p refl] p show ?thesis by (simp add: demo_pipes_def)
qed

text \<open>
  The job list numbers the processes of \<open>ps\<close> from 1 without gaps, leaving out the heading and
  the line of \<open>ps\<close> itself.
\<close>

lemma collect_jobs_numbers:
  assumes "collect_jobs buffer = Some jobs"
  shows "map cnt jobs = map int [1..<Suc (length jobs)] \<and>
    length jobs = min 256 (length (words_by {NL, TAB} buffer)) - 2"
proof -
  let ?w = "words_by {NL, TAB} buffer"
  let ?ls = "drop 1 (take (length (take 256 ?w) - 1) (take 256 ?w))"
  have "append_jobs [] ?ls = Some jobs"
    using assms tokenize_eq [of "{NL, TAB}" buffer] by (simp add: collect_jobs_def MAX_ARG_def split: if_splits)
  from append_jobs_cnt [OF this] show ?thesis by (auto simp: min_def)
qed

lemma collect_jobs_numbers_example:
  "\<exists>jobs. collect_jobs (''STAT PGID PID COMMAND'' @ [NL] @ ''T 9 9 vi x'' @ [NL] @ ''R+ 11 11 ps'' @ [NL]) = Some jobs \<and>
     map cnt jobs = [1]"
proof -
  have "collect_jobs (''STAT PGID PID COMMAND'' @ [NL] @ ''T 9 9 vi x'' @ [NL] @ ''R+ 11 11 ps'' @ [NL]) =
      Some [\<lparr>cnt = 1, stat = ''T'', pid = 9, pgid = 9, command = ''vi x ''\<rparr>]" by code_simp
  with collect_jobs_numbers [OF this] show ?thesis by simp
qed

end
