(* ===== verification/Proc_Tools.thy ===== *)
theory Proc_Tools
  imports C_String
begin

text \<open>
  The two programs of the first assignment that read \<open>/proc\<close>: \<open>ASS1/info.c\<close>, which reports
  uptime, memory and the load of each processor, and \<open>ASS1/myps.c\<close>, which lists processes.

  A file is the list of its lines. \<open>fgets\<close> takes the first line of what is left; at the end it
  fails and leaves the buffer as it was, so that the loops that look for a line may run forever
  (\<open>None\<close>). A conversion of \<open>sscanf\<close> that does not match is \<open>None\<close> too, since the programs then
  use variables that were never set. Sums are those of \<open>int\<close>s in range. The percentages that
  \<open>info\<close> prints are given by their numerator and denominator, not as floating point text.
\<close>


section \<open>Looking for a line\<close>

partial_function (option) find_line :: "string \<Rightarrow> string \<Rightarrow> string list \<Rightarrow> string option" where
  "find_line key buffer lines =
     (let buffer = (case lines of [] \<Rightarrow> buffer | l # _ \<Rightarrow> l)
      in if take (length key) buffer = key then Some buffer else find_line key buffer (tl lines))"

declare find_line.simps [code]

text \<open>\<open>fgets\<close> with a size of 1024 cuts longer lines; the lines read here are shorter.\<close>

lemma find_line_found:
  "\<exists>l \<in> set lines. take (length key) l = key \<Longrightarrow>
   find_line key buffer lines = find (\<lambda>l. take (length key) l = key) lines"
proof (induction lines arbitrary: buffer)
  case (Cons l lines)
  then show ?case by (subst find_line.simps) (auto simp: Let_def)
qed simp

lemmas find_line_induct = find_line.raw_induct [rotated, consumes 1, case_names step]

lemma find_line_Some:
  "find_line key buffer lines = Some l \<Longrightarrow> take (length key) buffer \<noteq> key \<Longrightarrow>
   l \<in> set lines \<and> take (length key) l = key"
proof (induct rule: find_line_induct)
  case (step find_line key buffer lines l)
  show ?case
  proof (cases lines)
    case Nil
    with step have "find_line key buffer [] = Some l" by (simp add: Let_def)
    from step.hyps(1) [OF this step.prems] show ?thesis by simp
  next
    case (Cons a lines')
    then show ?thesis
      using step.hyps(2) step.hyps(1) [of key a lines' l] by (auto simp: Let_def split: if_splits)
  qed
qed


section \<open>info\<close>

text \<open>User, nice, system, irq and softirq time of one processor line of \<open>/proc/stat\<close>.\<close>

definition cpu_line :: "string \<Rightarrow> int option" where
  "cpu_line buffer = do {
     (_, r) \<leftarrow> scan_word buffer;
     (a, r) \<leftarrow> scan_int r;
     (b, r) \<leftarrow> scan_int r;
     (c, r) \<leftarrow> scan_int r;
     (_, r) \<leftarrow> scan_int r;
     (_, r) \<leftarrow> scan_int r;
     (d, r) \<leftarrow> scan_int r;
     (e, r) \<leftarrow> scan_int r;
     Some (a + b + c + d + e)
   }"

fun cpu_lines :: "nat \<Rightarrow> string list \<Rightarrow> int list option" where
  "cpu_lines 0 lines = Some []"
| "cpu_lines (Suc n) [] = None"
| "cpu_lines (Suc n) (l # lines) = do { t \<leftarrow> cpu_line l; ts \<leftarrow> cpu_lines n lines; Some (t # ts) }"

definition cpu :: "int \<Rightarrow> string list \<Rightarrow> int list option" where
  "cpu num proc_stat = cpu_lines (nat num) (tl proc_stat)"

definition core :: "string \<Rightarrow> string list \<Rightarrow> int option" where
  "core junk cpuinfo = do {
     buffer \<leftarrow> find_line ''cpu cores'' junk cpuinfo;
     (_, r) \<leftarrow> scan_word buffer;
     (_, r) \<leftarrow> scan_word r;
     (_, r) \<leftarrow> scan_word r;
     (num, r) \<leftarrow> scan_int r;
     Some num
   }"

definition uptime_fields :: "int \<Rightarrow> int \<times> int \<times> int \<times> int" where
  "uptime_fields num =
     (c_div num 86400, c_mod (c_div num 3600) 10, c_mod (c_div num 60) 60, c_mod num 60)"

definition uptime :: "string list \<Rightarrow> string option" where
  "uptime proc_uptime =
     (case proc_uptime of [] \<Rightarrow> None
      | buffer # _ \<Rightarrow> do {
          (num, _) \<leftarrow> scan_int buffer;
          (case uptime_fields num of (D, H, M, S) \<Rightarrow>
             Some (''Uptime: '' @ show_int D @ '' day(s), '' @ show_int H @ '':'' @ show_int02 M @ '':'' @
                   show_int02 S @ [NL]))
        })"

text \<open>Used and total memory; their quotient is printed as a percentage.\<close>

definition memory :: "string list \<Rightarrow> (int \<times> int) option" where
  "memory meminfo =
     (case meminfo of l1 # l2 # _ \<Rightarrow> do {
        (_, r) \<leftarrow> scan_word l1; (total, _) \<leftarrow> scan_int r;
        (_, r) \<leftarrow> scan_word l2; (free, _) \<leftarrow> scan_int r;
        Some (total - free, total)
      } | _ \<Rightarrow> None)"

definition period_of :: "string list \<Rightarrow> int option" where
  "period_of argv =
     (let period = (if length argv = 2 then atoi (argv ! 1) else 3)
      in if period \<le> 0 then None else Some period)"

text \<open>
  The numbers behind the line of processor loads: for each processor its share of \<open>total\<close>;
  nothing is printed when \<open>total\<close> is negative, and 0 over 1 stands for the printed 0.0.
\<close>

definition cpu_shares :: "int list \<Rightarrow> int list \<Rightarrow> (int \<times> int) list" where
  "cpu_shares new old =
     (let total = sum_list (map2 (-) new old)
      in if total > 0 then map2 (\<lambda>n p. (n - p, total)) new old
         else if total = 0 then map2 (\<lambda>n p. (0, 1)) new old
         else [])"


section \<open>myps\<close>

record required =
  PID :: int
  USER :: string
  TIME :: int
  VIRT :: int
  CMD :: string

definition filter_a :: "string \<Rightarrow> bool" where
  "filter_a name = (case name of [] \<Rightarrow> False | c # _ \<Rightarrow> 1 \<le> digit_val c \<and> digit_val c \<le> 9)"

definition status_uid :: "string \<Rightarrow> string list \<Rightarrow> int option" where
  "status_uid junk status = do {
     buffer \<leftarrow> find_line ''Uid'' junk status;
     (_, r) \<leftarrow> scan_word buffer;
     (id, r) \<leftarrow> scan_int r;
     Some id
   }"

definition filter_u :: "string \<Rightarrow> int \<Rightarrow> (string \<Rightarrow> string list) \<Rightarrow> string \<Rightarrow> bool option" where
  "filter_u junk uid status name =
     (if filter_a name then map_option (\<lambda>id. id = uid) (status_uid junk (status name)) else Some False)"

fun skip_words :: "nat \<Rightarrow> string \<Rightarrow> string option" where
  "skip_words 0 s = Some s"
| "skip_words (Suc n) s = do { (_, r) \<leftarrow> scan_word s; skip_words n r }"

text \<open>The fields of \<open>/proc/<pid>/stat\<close>: process number, name, the two times and the size.\<close>

definition stat_fields :: "string \<Rightarrow> (int \<times> string \<times> int \<times> int \<times> int) option" where
  "stat_fields buffer = do {
     (pid, r) \<leftarrow> scan_int buffer;
     (name, r) \<leftarrow> scan_word r;
     r \<leftarrow> skip_words 11 r;
     (utime, r) \<leftarrow> scan_int r;
     (ktime, r) \<leftarrow> scan_int r;
     r \<leftarrow> skip_words 7 r;
     (virt, r) \<leftarrow> scan_int r;
     Some (pid, name, utime, ktime, virt)
   }"

text \<open>\<open>cmd = name + 1; name[strlen(cmd)] = 0\<close>: the first and the last character go.\<close>

definition strip_brackets :: "string \<Rightarrow> string" where
  "strip_brackets name = (let cmd = drop 1 name in drop 1 (take (length cmd) name))"

definition process ::
  "string \<Rightarrow> (int \<Rightarrow> string option) \<Rightarrow> string \<Rightarrow> string list \<Rightarrow> required option" where
  "process junk getpwuid stat status = do {
     (pid, name, utime, ktime, virt) \<leftarrow> stat_fields stat;
     id \<leftarrow> status_uid junk status;
     user \<leftarrow> getpwuid id;
     Some \<lparr>PID = pid, USER = user, TIME = c_div (utime + ktime) 100, VIRT = virt,
           CMD = strip_brackets name\<rparr>
   }"

definition b2i :: "bool \<Rightarrow> int" where "b2i b = (if b then 1 else 0)"

definition compare_mem :: "required \<Rightarrow> required \<Rightarrow> int" where
  "compare_mem a b = b2i (VIRT a < VIRT b) - b2i (VIRT a > VIRT b)"

definition compare_time :: "required \<Rightarrow> required \<Rightarrow> int" where
  "compare_time a b = b2i (TIME a < TIME b) - b2i (TIME a > TIME b)"

text \<open>The loop over the arguments: the position of the last \<open>-u\<close>, \<open>-m\<close> and \<open>-p\<close>, or 0.\<close>

record flags =
  fu :: nat
  fm :: nat
  fp :: nat

fun find_flags :: "nat \<Rightarrow> string list \<Rightarrow> flags \<Rightarrow> flags" where
  "find_flags x [] f = f"
| "find_flags x (a # as) f =
     find_flags (Suc x) as
       (if a = ''-u'' then f\<lparr>fu := x\<rparr> else if a = ''-m'' then f\<lparr>fm := x\<rparr>
        else if a = ''-p'' then f\<lparr>fp := x\<rparr> else f)"

datatype selection = InvalidUser string | OfUser int | AllUsers

definition select_user :: "(string \<Rightarrow> int option) \<Rightarrow> string list \<Rightarrow> selection" where
  "select_user getpwnam argv =
     (let u = fu (find_flags 0 argv \<lparr>fu = 0, fm = 0, fp = 0\<rparr>)
      in if u = 0 then AllUsers
         else if u + 1 = length argv then InvalidUser []
         else case getpwnam (argv ! (u + 1)) of None \<Rightarrow> InvalidUser (argv ! (u + 1)) | Some i \<Rightarrow> OfUser i)"

definition order_all ::
  "((required \<Rightarrow> required \<Rightarrow> int) \<Rightarrow> required list \<Rightarrow> required list) \<Rightarrow> string list \<Rightarrow>
    required list \<Rightarrow> required list" where
  "order_all qsort argv all =
     (let f = find_flags 0 argv \<lparr>fu = 0, fm = 0, fp = 0\<rparr>
      in if fm f \<noteq> 0 then qsort compare_mem all
         else if fp f \<noteq> 0 then qsort compare_time all else all)"

definition show_time :: "int \<Rightarrow> string" where
  "show_time t = show_int02 (c_mod (c_div t 3600) 100) @ '':'' @ show_int02 (c_mod (c_div t 60) 60) @
     '':'' @ show_int02 (c_mod t 60)"

definition lpad :: "nat \<Rightarrow> string \<Rightarrow> string" where
  "lpad n s = replicate (n - length s) (CHR '' '') @ s"

definition rpad :: "nat \<Rightarrow> string \<Rightarrow> string" where
  "rpad n s = s @ replicate (n - length s) (CHR '' '')"

definition show_process :: "required \<Rightarrow> string" where
  "show_process a = lpad 7 (show_int (PID a)) @ '' '' @ rpad 20 (USER a) @ '' '' @
     lpad 8 (show_time (TIME a)) @ '' '' @ lpad 10 (show_int (c_div (VIRT a) 1024)) @ '' '' @ CMD a @ [NL]"


section \<open>Lemmas\<close>

definition spaced :: "string list \<Rightarrow> string" where
  "spaced ws = concat (map (\<lambda>w. CHR '' '' # w) ws)"

definition is_word :: "string \<Rightarrow> bool" where
  "is_word w \<longleftrightarrow> w \<noteq> [] \<and> (\<forall>c \<in> set w. \<not> isspace c)"

definition ends_word :: "string \<Rightarrow> bool" where
  "ends_word r \<longleftrightarrow> r = [] \<or> isspace (hd r)"

lemma spaced_simps [simp]: "spaced [] = []" "spaced (w # ws) = CHR '' '' # w @ spaced ws"
  "spaced (vs @ ws) = spaced vs @ spaced ws"
  by (simp_all add: spaced_def)

lemma isspace_blank [simp]: "isspace (CHR '' '')"
  by (simp add: isspace_def)

lemma ends_word_spaced: "ends_word r \<Longrightarrow> ends_word (spaced ws @ r)"
  by (cases ws) (simp_all add: ends_word_def)

lemma scan_word_next: "is_word w \<Longrightarrow> ends_word r \<Longrightarrow> scan_word (CHR '' '' # w @ r) = Some (w, r)"
  by (simp add: is_word_def ends_word_def scan_word_word)

lemma skip_words_spaced:
  "\<forall>w \<in> set ws. is_word w \<Longrightarrow> ends_word r \<Longrightarrow> skip_words (length ws) (spaced ws @ r) = Some r"
proof (induction ws)
  case (Cons w ws)
  then show ?case using scan_word_next [of w "spaced ws @ r"] by (simp add: ends_word_spaced)
qed simp

lemma scan_int_shown:
  assumes "0 \<le> n" "ends_word r"
  shows "scan_int (show_int n @ r) = Some (n, r)" "scan_int (CHR '' '' # show_int n @ r) = Some (n, r)"
proof -
  have "r = [] \<or> \<not> isdigit (hd r)" using assms(2) isdigit_not_space by (auto simp: ends_word_def)
  from scan_int_digits [OF this, of "nat n"] assms(1)
  show "scan_int (show_int n @ r) = Some (n, r)" by (simp add: show_int_def)
  then show "scan_int (CHR '' '' # show_int n @ r) = Some (n, r)" by simp
qed

lemma stat_fields_shown:
  assumes "is_word name" "length ws = 11" "length ws' = 7" "\<forall>w \<in> set ws \<union> set ws'. is_word w"
    and "0 \<le> pid" "0 \<le> ut" "0 \<le> kt" "0 \<le> virt" "ends_word rest"
  shows "stat_fields (show_int pid @ spaced ([name] @ ws @ [show_int ut, show_int kt] @ ws' @ [show_int virt]) @ rest) =
    Some (pid, name, ut, kt, virt)"
proof -
  note E = ends_word_spaced [OF assms(9)]
  let ?r5 = "spaced [show_int virt] @ rest"
  let ?r4 = "spaced ws' @ ?r5" let ?r3 = "spaced [show_int kt] @ ?r4"
  let ?r2 = "spaced [show_int ut] @ ?r3" let ?r1 = "spaced ws @ ?r2"
  have e: "ends_word ?r5" "ends_word ?r4" "ends_word ?r3" "ends_word ?r2" "ends_word ?r1"
    "ends_word (spaced [name] @ ?r1)"
    by (intro ends_word_spaced assms(9))+
  have "scan_int (show_int pid @ spaced [name] @ ?r1) = Some (pid, spaced [name] @ ?r1)"
    using scan_int_shown(1) [OF assms(5) e(6)] by simp
  moreover have "scan_word (spaced [name] @ ?r1) = Some (name, ?r1)"
    using scan_word_next [OF assms(1) e(5)] by simp
  moreover have "skip_words 11 ?r1 = Some ?r2" "skip_words 7 ?r4 = Some ?r5"
    using skip_words_spaced [of ws ?r2] skip_words_spaced [of ws' ?r5] assms(2-4) e by auto
  moreover have "scan_int ?r2 = Some (ut, ?r3)" "scan_int ?r3 = Some (kt, ?r4)"
    "scan_int ?r5 = Some (virt, rest)"
    using scan_int_shown(2) [OF assms(6) e(3)] scan_int_shown(2) [OF assms(7) e(2)]
      scan_int_shown(2) [OF assms(8,9)] by simp_all
  ultimately show ?thesis by (simp add: stat_fields_def)
qed

lemma strip_brackets_name: "strip_brackets (a # cmd @ [b]) = cmd"
  by (simp add: strip_brackets_def Let_def)

text \<open>The shares of the processors add up to the whole.\<close>

lemma cpu_shares_sum:
  assumes "cpu_shares new old \<noteq> []" "tot = sum_list (map2 (-) new old)" "0 < tot"
  shows "sum_list (map fst (cpu_shares new old)) = tot \<and> (\<forall>(n, d) \<in> set (cpu_shares new old). d = tot)"
  using assms by (auto simp: cpu_shares_def Let_def comp_def case_prod_unfold dest: in_set_zipE)

text \<open>A process name with a blank is cut at the blank, loses its last letter and shifts the fields.\<close>

lemma process_name_with_blank:
  "stat_fields ''12 (ab cd) S 1 2 3 4 5 6 7 8 9 10 11 12 0 0 0 0 0 0 0 4096'' =
     Some (12, ''(ab'', 10, 11, 0) \<and> strip_brackets ''(ab'' = ''a''"
  by code_simp


section \<open>Properties\<close>



text \<open>What \<open>qsort(3)\<close> promises for an ordering given by a comparison function.\<close>

definition sorts ::
  "((required \<Rightarrow> required \<Rightarrow> int) \<Rightarrow> required list \<Rightarrow> required list) \<Rightarrow> (required \<Rightarrow> required \<Rightarrow> int) \<Rightarrow> bool" where
  "sorts qsort cmp \<longleftrightarrow>
     (\<forall>xs. mset (qsort cmp xs) = mset xs \<and> sorted_wrt (\<lambda>a b. cmp a b \<le> 0) (qsort cmp xs))"

lemma compare_le: "compare_mem a b \<le> 0 \<longleftrightarrow> VIRT b \<le> VIRT a" "compare_time a b \<le> 0 \<longleftrightarrow> TIME b \<le> TIME a"
  by (auto simp: compare_mem_def compare_time_def b2i_def)

fun insert_by :: "('a \<Rightarrow> 'a \<Rightarrow> int) \<Rightarrow> 'a \<Rightarrow> 'a list \<Rightarrow> 'a list" where
  "insert_by cmp x [] = [x]"
| "insert_by cmp x (y # ys) = (if cmp x y \<le> 0 then x # y # ys else y # insert_by cmp x ys)"

definition insertion_sort :: "('a \<Rightarrow> 'a \<Rightarrow> int) \<Rightarrow> 'a list \<Rightarrow> 'a list" where
  "insertion_sort cmp xs = foldr (insert_by cmp) xs []"

lemma insert_by_mset [simp]: "mset (insert_by cmp x ys) = add_mset x (mset ys)"
  by (induction ys) auto

lemma set_insert_by [simp]: "set (insert_by cmp x ys) = insert x (set ys)"
  by (induction ys) auto

lemma insertion_sort_sorts:
  assumes "\<And>a b. cmp a b \<le> 0 \<longleftrightarrow> key b \<le> (key a :: int)"
  shows "sorts insertion_sort cmp"
proof -
  have ins: "sorted_wrt (\<lambda>a b. cmp a b \<le> 0) ys \<Longrightarrow> sorted_wrt (\<lambda>a b. cmp a b \<le> 0) (insert_by cmp x ys)" for x ys
    by (induction ys) (auto simp: assms)
  have "mset (insertion_sort cmp xs) = mset xs \<and> sorted_wrt (\<lambda>a b. cmp a b \<le> 0) (insertion_sort cmp xs)" for xs
    unfolding insertion_sort_def by (induction xs) (auto simp: ins)
  then show ?thesis by (simp add: sorts_def)
qed

text \<open>
  The listing is a rearrangement of the processes found: with \<open>-m\<close> by falling size, else
  with \<open>-p\<close> by falling time, else in the order of the directory, whatever algorithm \<open>qsort\<close> uses.
\<close>

lemma myps_order:
  assumes "sorts qsort compare_mem" and "sorts qsort compare_time" and "argv = prog # args"
    and "{''-u'', ''-m'', ''-p''} \<inter> {prog} = {}"
  shows "mset (order_all qsort argv all) = mset all \<and>
    (''-m'' \<in> set args \<longrightarrow> sorted_wrt (\<lambda>a b. VIRT b \<le> VIRT a) (order_all qsort argv all)) \<and>
    (''-m'' \<notin> set args \<and> ''-p'' \<in> set args \<longrightarrow>
       sorted_wrt (\<lambda>a b. TIME b \<le> TIME a) (order_all qsort argv all)) \<and>
    (''-m'' \<notin> set args \<and> ''-p'' \<notin> set args \<longrightarrow> order_all qsort argv all = all)"
proof -
  have f: "fm (find_flags x as f) \<noteq> 0 \<longleftrightarrow> fm f \<noteq> 0 \<or> ''-m'' \<in> set as"
    "fp (find_flags x as f) \<noteq> 0 \<longleftrightarrow> fp f \<noteq> 0 \<or> ''-p'' \<in> set as" if "0 < x" for x as f
    using that by (induction x as f rule: find_flags.induct) auto
  have "order_all qsort argv all = (if ''-m'' \<in> set args then qsort compare_mem all
      else if ''-p'' \<in> set args then qsort compare_time all else all)"
    using assms(3,4) f [of 1 args "\<lparr>fu = 0, fm = 0, fp = 0\<rparr>"] by (simp add: order_all_def)
  with assms(1,2) show ?thesis by (auto simp: sorts_def compare_le)
qed

text \<open>
  The search loops of both programs (the number of cores, the user of a process) end exactly
  when a line starts with the word looked for, and then with the first such line.
\<close>

lemma find_line_ends_iff:
  assumes "take (length key) buffer \<noteq> key"
  shows "find_line key buffer lines =
    (if \<exists>l \<in> set lines. take (length key) l = key
     then find (\<lambda>l. take (length key) l = key) lines else None)"
  using find_line_found [of lines key buffer] find_line_Some [OF _ assms, of lines]
  by (cases "find_line key buffer lines") auto

text \<open>
  Days, minutes and seconds of the uptime are right, but the hours are the total hours modulo
  10: the four numbers add up to the uptime exactly when that agrees with the hour of the day,
  and ten hours after the start they do not.
\<close>

lemma uptime_hours_modulo_10:
  assumes "0 \<le> num" and "uptime_fields num = (D, H, M, S)"
  shows "D = num div 86400 \<and> M = num div 60 mod 60 \<and> S = num mod 60 \<and> H = num div 3600 mod 10 \<and>
    (D * 86400 + H * 3600 + M * 60 + S = num \<longleftrightarrow> H = num div 3600 mod 24) \<and>
    uptime_fields 36000 = (0, 0, 0, 0)"
proof -
  have f: "D = num div 86400" "H = num div 3600 mod 10" "M = num div 60 mod 60" "S = num mod 60"
    using assms by (auto simp: uptime_fields_def pos_imp_zdiv_nonneg_iff)
  have "num = (num div 86400) * 86400 + (num div 3600 mod 24) * 3600 + (num div 60 mod 60) * 60 + num mod 60"
  proof -
    have "num div 3600 = num div 60 div 60" "num div 86400 = num div 3600 div 24"
      using zdiv_zmult2_eq [of 60 num 60] zdiv_zmult2_eq [of 24 num 3600] by simp_all
    moreover have "num = num div 60 * 60 + num mod 60"
      "num div 60 = num div 60 div 60 * 60 + num div 60 mod 60"
      "num div 3600 = num div 3600 div 24 * 24 + num div 3600 mod 24" by simp_all
    ultimately show ?thesis by linarith
  qed
  then show ?thesis using f by (auto simp: uptime_fields_def)
qed

end
