(* ===== verification/Smp_Data.thy ===== *)
theory Smp_Data
  imports Sched_Core
begin

text \<open>
  The scheduler with several processors (\<open>CONFIG_SMP\<close>): the fields that exist only there, one run
  queue per processor, the root domain, and the helpers of \<open>core.c\<close> and \<open>sched.h\<close> that work on a
  given run queue.

  A processor is a number below \<open>nr_cpu_ids\<close> and a \<open>cpumask\<close> a predicate on them; all processors
  belong to one root domain. \<open>this_cpu\<close> is the processor that executes the operation
  (\<open>smp_processor_id\<close>). Run queue locks are held for a whole operation, except where the code gives
  one up: \<open>double_lock_balance\<close> is a parameter that may change the state the way other processors
  do. The data structure \<open>cpupri\<close>, whose source is not here, is a parameter with its two functions.
  \<open>None\<close> is a \<open>BUG\<close> or a violated contract of a list, as in the other theories.
\<close>


section \<open>Processor masks\<close>

type_synonym cpu = nat
type_synonym cpumask = "cpu \<Rightarrow> bool"

definition mask_cpus :: "nat \<Rightarrow> cpumask \<Rightarrow> cpu list" where
  "mask_cpus n m = filter m [0..<n]"

definition cpumask_weight :: "nat \<Rightarrow> cpumask \<Rightarrow> nat" where
  "cpumask_weight n m = length (mask_cpus n m)"

text \<open>The first processor of the mask after \<open>i\<close>; \<open>n\<close> if there is none.\<close>

definition cpumask_next :: "nat \<Rightarrow> int \<Rightarrow> cpumask \<Rightarrow> cpu" where
  "cpumask_next n i m = (case find m [nat (i + 1)..<n] of None \<Rightarrow> n | Some c \<Rightarrow> c)"

definition cpumask_first :: "nat \<Rightarrow> cpumask \<Rightarrow> cpu" where
  "cpumask_first n m = cpumask_next n (- 1) m"

definition cpumask_first_and :: "nat \<Rightarrow> cpumask \<Rightarrow> cpumask \<Rightarrow> cpu" where
  "cpumask_first_and n m m' = cpumask_first n (\<lambda>c. m c \<and> m' c)"

definition cpumask_equal :: "nat \<Rightarrow> cpumask \<Rightarrow> cpumask \<Rightarrow> bool" where
  "cpumask_equal n m m' = list_all (\<lambda>c. m c = m' c) [0..<n]"

lemma mask_cpus_iff [simp]: "c \<in> set (mask_cpus n m) \<longleftrightarrow> c < n \<and> m c"
  by (auto simp: mask_cpus_def)

lemma distinct_mask_cpus [simp]: "distinct (mask_cpus n m)"
  by (simp add: mask_cpus_def)

lemma sorted_mask_cpus [simp]: "sorted (mask_cpus n m)"
  by (simp add: mask_cpus_def sorted_filter [of id, simplified])

lemma find_upt_Some:
  "find m [a..<n] = Some c \<longleftrightarrow> a \<le> c \<and> c < n \<and> m c \<and> (\<forall>j. a \<le> j \<longrightarrow> j < c \<longrightarrow> \<not> m j)"
proof -
  have "find m [a..<n] = Some c \<longleftrightarrow> (\<exists>i < n - a. m (a + i) \<and> c = a + i \<and> (\<forall>j < i. \<not> m (a + j)))"
    by (auto simp: find_Some_iff)
  also have "\<dots> \<longleftrightarrow> a \<le> c \<and> c < n \<and> m c \<and> (\<forall>j. a \<le> j \<longrightarrow> j < c \<longrightarrow> \<not> m j)"
  proof
    assume *: "a \<le> c \<and> c < n \<and> m c \<and> (\<forall>j. a \<le> j \<longrightarrow> j < c \<longrightarrow> \<not> m j)"
    then show "\<exists>i < n - a. m (a + i) \<and> c = a + i \<and> (\<forall>j < i. \<not> m (a + j))"
      by (intro exI [of _ "c - a"]) auto
  qed (auto, metis add_less_cancel_left le_iff_add)
  finally show ?thesis .
qed

lemma find_upt_None: "find m [a..<n] = None \<longleftrightarrow> (\<forall>j. a \<le> j \<longrightarrow> j < n \<longrightarrow> \<not> m j)"
  by (auto simp: find_None_iff)

lemma cpumask_next_less:
  assumes "cpumask_next n i m < n"
  shows "m (cpumask_next n i m)" "nat (i + 1) \<le> cpumask_next n i m"
    "\<And>j. nat (i + 1) \<le> j \<Longrightarrow> j < cpumask_next n i m \<Longrightarrow> \<not> m j"
proof -
  obtain c where c: "find m [nat (i + 1)..<n] = Some c" "cpumask_next n i m = c"
    using assms by (auto simp: cpumask_next_def split: option.splits)
  show "m (cpumask_next n i m)" "nat (i + 1) \<le> cpumask_next n i m"
    "\<And>j. nat (i + 1) \<le> j \<Longrightarrow> j < cpumask_next n i m \<Longrightarrow> \<not> m j"
    using c find_upt_Some [of m "nat (i + 1)" n c] by auto
qed

lemma cpumask_next_none:
  "\<not> cpumask_next n i m < n \<longleftrightarrow> (\<forall>j. nat (i + 1) \<le> j \<longrightarrow> j < n \<longrightarrow> \<not> m j)"
proof (cases "find m [nat (i + 1)..<n]")
  case None
  then show ?thesis using find_upt_None [of m "nat (i + 1)" n] by (simp add: cpumask_next_def)
next
  case (Some c)
  then show ?thesis using find_upt_Some [of m "nat (i + 1)" n c] by (auto simp: cpumask_next_def)
qed

lemma cpumask_first_less: "cpumask_first n m < n \<Longrightarrow> m (cpumask_first n m)"
  using cpumask_next_less [of n "- 1" m] by (simp add: cpumask_first_def)

lemma cpumask_first_none: "\<not> cpumask_first n m < n \<longleftrightarrow> (\<forall>j < n. \<not> m j)"
  using cpumask_next_none [of n "- 1" m] by (simp add: cpumask_first_def)


section \<open>Tasks and run queues\<close>

record smp_task = task_struct +
  task_cpu :: cpu
  wake_cpu :: cpu
  on_cpu :: bool
  cpus_allowed :: cpumask
  sched_contributes_to_load :: bool
  sched_remote_wakeup :: bool
  polling :: bool

text \<open>A node of the list of pushable tasks carries the priority it was inserted with.\<close>

record smp_rt_rq = rt_rq +
  highest_curr :: int
  highest_next :: int
  rt_nr_migratory :: u64
  rt_nr_total :: u64
  is_overloaded :: bool
  pushable_tasks :: "(int \<times> pid) list"

text \<open>The callbacks the real-time class queues, \<open>rt_push_head\<close> and \<open>rt_pull_head\<close> of a processor.\<close>

datatype callback_head = rt_push_head | rt_pull_head

record smp_rq =
  q_nr_running :: u32
  q_nr_uninterruptible :: u64
  q_nr_iowait :: int
  q_curr :: pid
  q_idle :: pid
  q_stop :: "pid option"
  q_clock :: u64
  q_clock_task :: u64
  q_flags :: u32
  q_rt :: smp_rt_rq
  q_dl_nr_running :: u64
  q_online :: bool
  q_balance_callback :: "callback_head list"
  q_wake_list :: "pid list"
  q_idle_stamp :: u64
  q_avg_idle :: u64
  q_max_idle_balance_cost :: u64

text \<open>The counters \<open>rto_loop\<close> and \<open>rto_loop_next\<close> wrap around; \<open>rto_push_work\<close> is the processor on
  which the interrupt work is pending.\<close>

record 'c root_domain =
  rd_refcount :: int
  rd_span :: cpumask
  rd_online :: cpumask
  rto_mask :: cpumask
  rto_count :: int
  rto_loop :: u32
  rto_loop_next :: u32
  rto_loop_start :: bool
  rto_cpu :: int
  rto_push_work :: "cpu option"
  cpupri :: 'c

record ('c, 'x) smp =
  nr_cpu_ids :: nat
  this_cpu :: cpu
  tk :: "pid \<Rightarrow> smp_task"
  rqs :: "cpu \<Rightarrow> smp_rq"
  rd :: "'c root_domain"
  bw :: rt_bandwidth
  sysctl_rt_runtime :: int
  sysctl_rt_period :: u32
  cpu_clock :: "cpu \<Rightarrow> u64"
  cpu_online_mask :: cpumask
  cpu_active_mask :: cpumask
  cpu_possible_mask :: cpumask
  resched_ipi :: "cpu \<Rightarrow> bool"
  scheduler_running :: bool
  others :: 'x

abbreviation upd_tk :: "('c, 'x) smp \<Rightarrow> pid \<Rightarrow> (smp_task \<Rightarrow> smp_task) \<Rightarrow> ('c, 'x) smp" where
  "upd_tk S p f \<equiv> S\<lparr>tk := (tk S)(p := f (tk S p))\<rparr>"

abbreviation upd_rq :: "('c, 'x) smp \<Rightarrow> cpu \<Rightarrow> (smp_rq \<Rightarrow> smp_rq) \<Rightarrow> ('c, 'x) smp" where
  "upd_rq S c f \<equiv> S\<lparr>rqs := (rqs S)(c := f (rqs S c))\<rparr>"

abbreviation rtr :: "('c, 'x) smp \<Rightarrow> cpu \<Rightarrow> smp_rt_rq" where
  "rtr S c \<equiv> q_rt (rqs S c)"

abbreviation upd_rtr :: "('c, 'x) smp \<Rightarrow> cpu \<Rightarrow> (smp_rt_rq \<Rightarrow> smp_rt_rq) \<Rightarrow> ('c, 'x) smp" where
  "upd_rtr S c f \<equiv> upd_rq S c (\<lambda>q. q\<lparr>q_rt := f (q_rt q)\<rparr>)"

abbreviation upd_rd :: "('c, 'x) smp \<Rightarrow> ('c root_domain \<Rightarrow> 'c root_domain) \<Rightarrow> ('c, 'x) smp" where
  "upd_rd S f \<equiv> S\<lparr>rd := f (rd S)\<rparr>"

text \<open>
  Code outside the repository or outside the class: the priority map \<open>cpupri\<close>, the scheduling
  domains of a processor (their flag \<open>SD_WAKE_AFFINE\<close> and span), the scheduler features, what other
  processors do when a lock is given up in \<open>double_lock_balance\<close> (with its result), and the functions
  of the other classes.
\<close>

record ('c, 'x) senv =
  cpupri_set :: "'c \<Rightarrow> cpu \<Rightarrow> int \<Rightarrow> 'c"
  cpupri_find :: "'c \<Rightarrow> smp_task \<Rightarrow> cpumask option"
  domains :: "cpu \<Rightarrow> (bool \<times> cpumask) list"
  RT_RUNTIME_SHARE :: bool
  RT_PUSH_IPI :: bool
  double_lock_balance :: "cpu \<Rightarrow> cpu \<Rightarrow> ('c, 'x) smp \<Rightarrow> bool \<times> ('c, 'x) smp"
  o_enqueue :: "class_id \<Rightarrow> cpu \<Rightarrow> pid \<Rightarrow> int \<Rightarrow> ('c, 'x) smp \<Rightarrow> ('c, 'x) smp option"
  o_dequeue :: "class_id \<Rightarrow> cpu \<Rightarrow> pid \<Rightarrow> int \<Rightarrow> ('c, 'x) smp \<Rightarrow> ('c, 'x) smp option"
  o_put_prev :: "class_id \<Rightarrow> cpu \<Rightarrow> pid \<Rightarrow> ('c, 'x) smp \<Rightarrow> ('c, 'x) smp option"
  o_set_curr :: "class_id \<Rightarrow> cpu \<Rightarrow> ('c, 'x) smp \<Rightarrow> ('c, 'x) smp option"
  o_check_preempt :: "class_id \<Rightarrow> cpu \<Rightarrow> pid \<Rightarrow> int \<Rightarrow> ('c, 'x) smp \<Rightarrow> ('c, 'x) smp option"
  o_select_rq :: "class_id \<Rightarrow> pid \<Rightarrow> cpu \<Rightarrow> int \<Rightarrow> int \<Rightarrow> ('c, 'x) smp \<Rightarrow> cpu"

definition CPUPRI_INVALID :: int where "CPUPRI_INVALID = - 1"
definition TASK_ON_RQ_MIGRATING :: int where "TASK_ON_RQ_MIGRATING = 2"
definition TASK_WAKING :: int where "TASK_WAKING = 0x200"
definition WF_MIGRATED :: int where "WF_MIGRATED = 0x4"
definition ENQUEUE_MIGRATED :: int where "ENQUEUE_MIGRATED = 0x40"
definition SD_BALANCE_EXEC :: int where "SD_BALANCE_EXEC = 0x4"
definition SD_BALANCE_FORK :: int where "SD_BALANCE_FORK = 0x8"
definition SD_BALANCE_WAKE :: int where "SD_BALANCE_WAKE = 0x10"


section \<open>Helpers on a run queue\<close>

definition task_on_rq_migrating :: "'a task_struct_scheme \<Rightarrow> bool" where
  "task_on_rq_migrating t \<longleftrightarrow> on_rq t = TASK_ON_RQ_MIGRATING"

definition smp_task_running :: "('c, 'x) smp \<Rightarrow> pid \<Rightarrow> bool" where
  "smp_task_running S p = on_cpu (tk S p)"

definition smp_task_current :: "('c, 'x) smp \<Rightarrow> cpu \<Rightarrow> pid \<Rightarrow> bool" where
  "smp_task_current S c p \<longleftrightarrow> q_curr (rqs S c) = p"

definition smp_send_reschedule :: "cpu \<Rightarrow> ('c, 'x) smp \<Rightarrow> ('c, 'x) smp" where
  "smp_send_reschedule c S = S\<lparr>resched_ipi := (resched_ipi S)(c := True)\<rparr>"

text \<open>\<open>set_nr_and_not_polling\<close> sets the flag and says whether the processor has to be interrupted.\<close>

definition set_nr_and_not_polling :: "pid \<Rightarrow> ('c, 'x) smp \<Rightarrow> bool \<times> ('c, 'x) smp" where
  "set_nr_and_not_polling p S = (\<not> polling (tk S p), upd_tk S p (\<lambda>t. t\<lparr>need_resched := True\<rparr>))"

text \<open>\<open>set_nr_if_polling\<close> sets the flag of a polling task and says whether it did.\<close>

definition set_nr_if_polling :: "pid \<Rightarrow> ('c, 'x) smp \<Rightarrow> bool \<times> ('c, 'x) smp" where
  "set_nr_if_polling p S =
     (if \<not> polling (tk S p) then (False, S)
      else if need_resched (tk S p) then (True, S)
      else (True, upd_tk S p (\<lambda>t. t\<lparr>need_resched := True\<rparr>)))"

definition smp_resched_curr :: "cpu \<Rightarrow> ('c, 'x) smp \<Rightarrow> ('c, 'x) smp" where
  "smp_resched_curr c S =
     (let cur = q_curr (rqs S c)
      in if need_resched (tk S cur) then S
         else if c = this_cpu S then upd_tk S cur (\<lambda>t. t\<lparr>need_resched := True\<rparr>)
         else case set_nr_and_not_polling cur S of (ipi, S) \<Rightarrow>
           if ipi then smp_send_reschedule c S else S)"

definition resched_cpu :: "cpu \<Rightarrow> ('c, 'x) smp \<Rightarrow> ('c, 'x) smp" where
  "resched_cpu c S =
     (if cpu_online_mask S c \<or> c = this_cpu S then smp_resched_curr c S else S)"

definition smp_update_rq_clock :: "cpu \<Rightarrow> ('c, 'x) smp \<Rightarrow> ('c, 'x) smp" where
  "smp_update_rq_clock c S =
     (let q = rqs S c in
      if q_flags q AND RQCF_ACT_SKIP \<noteq> 0 then S
      else let delta = cpu_clock S c - q_clock q
           in if sint delta < 0 then S
              else upd_rq S c (\<lambda>q. q\<lparr>q_clock := q_clock q + delta, q_clock_task := q_clock_task q + delta\<rparr>))"

definition smp_rt_bandwidth_enabled :: "('c, 'x) smp \<Rightarrow> bool" where
  "smp_rt_bandwidth_enabled S \<longleftrightarrow> sysctl_rt_runtime S \<ge> 0"

text \<open>
  The list \<open>balance_callback\<close> is linked through \<open>head->next\<close>, which is not \<open>NULL\<close> for the heads that
  stand before its last element: only these are not queued again.
\<close>

definition queue_balance_callback :: "cpu \<Rightarrow> callback_head \<Rightarrow> ('c, 'x) smp \<Rightarrow> ('c, 'x) smp" where
  "queue_balance_callback c h S =
     (if h \<in> set (butlast (q_balance_callback (rqs S c))) then S
      else upd_rq S c (\<lambda>q. q\<lparr>q_balance_callback := h # q_balance_callback q\<rparr>))"


section \<open>Concrete states\<close>

text \<open>
  Systems at rest, from which examples are built: \<open>n\<close> processors that run their idle tasks, the tasks
  \<open>1000 + c\<close>. The priority map of the examples is a function from processors to the priority they run
  at; the search in it returns the allowed processors that run at a lower priority than the task.
\<close>

definition blank_smp_task :: smp_task where
  "blank_smp_task = task_struct.extend blank_task
     \<lparr>task_cpu = 0, wake_cpu = 0, on_cpu = False, cpus_allowed = (\<lambda>_. True), sched_contributes_to_load = False,
      sched_remote_wakeup = False, polling = False\<rparr>"

definition blank_smp_rt_rq :: smp_rt_rq where
  "blank_smp_rt_rq = rt_rq.extend (rq_rt blank_kern)
     \<lparr>highest_curr = 100, highest_next = 100, rt_nr_migratory = 0, rt_nr_total = 0, is_overloaded = False,
      pushable_tasks = []\<rparr>"

definition blank_smp_rq :: "cpu \<Rightarrow> smp_rq" where
  "blank_smp_rq c = \<lparr>q_nr_running = 0, q_nr_uninterruptible = 0, q_nr_iowait = 0, q_curr = 1000 + c,
     q_idle = 1000 + c, q_stop = None, q_clock = 0, q_clock_task = 0, q_flags = 0, q_rt = blank_smp_rt_rq,
     q_dl_nr_running = 0, q_online = True, q_balance_callback = [], q_wake_list = [], q_idle_stamp = 0,
     q_avg_idle = 0, q_max_idle_balance_cost = 0\<rparr>"

definition blank_smp :: "nat \<Rightarrow> (cpu \<Rightarrow> int, unit) smp" where
  "blank_smp n = \<lparr>nr_cpu_ids = n, this_cpu = 0, tk = (\<lambda>_. blank_smp_task), rqs = blank_smp_rq,
     rd = \<lparr>rd_refcount = 1, rd_span = (\<lambda>c. c < n), rd_online = (\<lambda>c. c < n), rto_mask = (\<lambda>_. False),
       rto_count = 0, rto_loop = 0, rto_loop_next = 0, rto_loop_start = False, rto_cpu = - 1,
       rto_push_work = None, cpupri = (\<lambda>_. 100)\<rparr>,
     bw = \<lparr>rt_period = 1000000000, bw_rt_runtime = 950000000, rt_period_active = False\<rparr>,
     sysctl_rt_runtime = 950000, sysctl_rt_period = 1000000, cpu_clock = (\<lambda>_. 0),
     cpu_online_mask = (\<lambda>c. c < n), cpu_active_mask = (\<lambda>c. c < n), cpu_possible_mask = (\<lambda>c. c < n),
     resched_ipi = (\<lambda>_. False), scheduler_running = True, others = ()\<rparr>"

definition demo_env :: "bool \<Rightarrow> (cpu \<Rightarrow> int, unit) senv" where
  "demo_env ipi = \<lparr>cpupri_set = (\<lambda>m c pr. m(c := pr)),
     cpupri_find = (\<lambda>m t. let lower = (\<lambda>c. cpus_allowed t c \<and> prio t < m c)
                          in if list_ex lower [0..<8] then Some lower else None),
     domains = (\<lambda>_. []), RT_RUNTIME_SHARE = True, RT_PUSH_IPI = ipi,
     double_lock_balance = (\<lambda>_ _ S. (False, S)),
     o_enqueue = (\<lambda>_ _ _ _. Some), o_dequeue = (\<lambda>_ _ _ _. Some), o_put_prev = (\<lambda>_ _ _. Some),
     o_set_curr = (\<lambda>_ _. Some), o_check_preempt = (\<lambda>_ _ _ _. Some), o_select_rq = (\<lambda>_ _ c _ _ _. c)\<rparr>"

end
