(* ===== verification/Smp_Runtime.thy ===== *)
theory Smp_Runtime
  imports Smp_Data
begin

text \<open>
  Real-time runtime on several processors, from \<open>kernel/sched/rt.c\<close>: the class of a processor in its
  run queue, and the borrowing of runtime between processors. A processor that has used up its
  runtime takes a share of what the others have left (\<open>do_balance_runtime\<close>); one that goes offline
  has to get back what it lent, or give back what it borrowed (\<open>__disable_runtime\<close>), and stops the
  kernel if it cannot.

  The main result is that it always can: whatever is borrowed, and however processors come and go,
  the runtime of the processors in use adds up to what was assigned to them.
\<close>


section \<open>The class in the run queue\<close>

text \<open>These are the functions of \<open>Sched_Rt\<close> for the run queue of processor \<open>c\<close>.\<close>

definition smp_dequeue_top_rt_rq :: "cpu \<Rightarrow> ('c, 'x) smp \<Rightarrow> ('c, 'x) smp option" where
  "smp_dequeue_top_rt_rq c S =
     (if \<not> rt_queued (rtr S c) then Some S
      else if q_nr_running (rqs S c) = 0 then None
      else Some (upd_rq S c (\<lambda>q. q\<lparr>q_nr_running := q_nr_running q - rt_nr_running (q_rt q),
             q_rt := (q_rt q)\<lparr>rt_queued := False\<rparr>\<rparr>)))"

definition smp_enqueue_top_rt_rq :: "cpu \<Rightarrow> ('c, 'x) smp \<Rightarrow> ('c, 'x) smp" where
  "smp_enqueue_top_rt_rq c S =
     (if rt_queued (rtr S c) then S
      else if rt_throttled (rtr S c) then S
      else if rt_nr_running (rtr S c) \<noteq> 0
      then upd_rq S c (\<lambda>q. q\<lparr>q_nr_running := q_nr_running q + rt_nr_running (q_rt q),
             q_rt := (q_rt q)\<lparr>rt_queued := True\<rparr>\<rparr>)
      else S)"

definition smp_sched_rt_rq_enqueue :: "cpu \<Rightarrow> ('c, 'x) smp \<Rightarrow> ('c, 'x) smp" where
  "smp_sched_rt_rq_enqueue c S =
     (if rt_nr_running (rtr S c) = 0 then S else smp_resched_curr c (smp_enqueue_top_rt_rq c S))"


section \<open>Borrowing runtime\<close>

text \<open>
  The body of the loop of \<open>do_balance_runtime\<close> for the processors left. The difference is an \<open>s64\<close>
  that is tested for its sign and then used in the arithmetic of \<open>u64\<close>.
\<close>

fun balance_runtime_loop ::
  "u64 \<Rightarrow> u64 \<Rightarrow> cpu \<Rightarrow> cpu list \<Rightarrow> ('c, 'x) smp \<Rightarrow> ('c, 'x) smp" where
  "balance_runtime_loop wt period c [] S = S"
| "balance_runtime_loop wt period c (i # is) S =
     (if i = c then balance_runtime_loop wt period c is S
      else if rt_runtime (rtr S i) = RUNTIME_INF then balance_runtime_loop wt period c is S
      else
        let diff = rt_runtime (rtr S i) - rt_time (rtr S i)
        in if 0 < sint diff then
             let diff = diff div wt;
                 diff = (if rt_runtime (rtr S c) + diff > period then period - rt_runtime (rtr S c)
                         else diff);
                 S = upd_rtr S i (\<lambda>r. r\<lparr>rt_runtime := rt_runtime r - diff\<rparr>);
                 S = upd_rtr S c (\<lambda>r. r\<lparr>rt_runtime := rt_runtime r + diff\<rparr>)
             in if rt_runtime (rtr S c) = period then S
                else balance_runtime_loop wt period c is S
           else balance_runtime_loop wt period c is S)"

definition do_balance_runtime :: "cpu \<Rightarrow> ('c, 'x) smp \<Rightarrow> ('c, 'x) smp" where
  "do_balance_runtime c S =
     (let n = nr_cpu_ids S; span = rd_span (rd S)
      in balance_runtime_loop (of_nat (cpumask_weight n span)) (rt_period (bw S)) c
           (mask_cpus n span) S)"

definition balance_runtime :: "('c, 'x, 'e) senv_scheme \<Rightarrow> cpu \<Rightarrow> ('c, 'x) smp \<Rightarrow> ('c, 'x) smp" where
  "balance_runtime E c S =
     (if \<not> RT_RUNTIME_SHARE E then S
      else if rt_time (rtr S c) > rt_runtime (rtr S c) then do_balance_runtime c S else S)"

text \<open>The greedy reclaim of \<open>__disable_runtime\<close>; \<open>want\<close> is an \<open>s64\<close>.\<close>

fun reclaim_runtime :: "cpu \<Rightarrow> cpu list \<Rightarrow> u64 \<Rightarrow> ('c, 'x) smp \<Rightarrow> u64 \<times> ('c, 'x) smp" where
  "reclaim_runtime c [] want S = (want, S)"
| "reclaim_runtime c (i # is) want S =
     (if i = c \<or> rt_runtime (rtr S i) = RUNTIME_INF then reclaim_runtime c is want S
      else
        let diff = (if 0 < sint want
                    then if sint (rt_runtime (rtr S i)) < sint want then rt_runtime (rtr S i) else want
                    else want);
            S = upd_rtr S i (\<lambda>r. r\<lparr>rt_runtime := rt_runtime r - diff\<rparr>);
            want = want - diff
        in if want = 0 then (want, S) else reclaim_runtime c is want S)"

definition disable_balanced :: "cpu \<Rightarrow> ('c, 'x) smp \<Rightarrow> ('c, 'x) smp" where
  "disable_balanced c S =
     smp_sched_rt_rq_enqueue c (upd_rtr S c (\<lambda>r. r\<lparr>rt_runtime := RUNTIME_INF, rt_throttled := False\<rparr>))"

definition disable_runtime :: "cpu \<Rightarrow> ('c, 'x) smp \<Rightarrow> ('c, 'x) smp option" where
  "disable_runtime c S =
     (if \<not> scheduler_running S then Some S
      else if rt_runtime (rtr S c) = RUNTIME_INF \<or> rt_runtime (rtr S c) = bw_rt_runtime (bw S)
      then Some (disable_balanced c S)
      else case reclaim_runtime c (mask_cpus (nr_cpu_ids S) (rd_span (rd S)))
                  (bw_rt_runtime (bw S) - rt_runtime (rtr S c)) S of
        (want, S) \<Rightarrow> if want \<noteq> 0 then None else Some (disable_balanced c S))"

definition enable_runtime :: "cpu \<Rightarrow> ('c, 'x) smp \<Rightarrow> ('c, 'x) smp" where
  "enable_runtime c S =
     (if \<not> scheduler_running S then S
      else upd_rtr S c (\<lambda>r. r\<lparr>rt_runtime := bw_rt_runtime (bw S), rt_time := 0, rt_throttled := False\<rparr>))"

text \<open>The handler of the sysctl files, in its two parts.\<close>

definition smp_global_rt_runtime :: "('c, 'x) smp \<Rightarrow> u64" where
  "smp_global_rt_runtime S =
     (if sysctl_rt_runtime S < 0 then RUNTIME_INF
      else word_of_int (sysctl_rt_runtime S) * NSEC_PER_USEC)"

definition smp_sched_rt_global_constraints :: "('c, 'x) smp \<Rightarrow> ('c, 'x) smp" where
  "smp_sched_rt_global_constraints S =
     foldl (\<lambda>S i. upd_rtr S i (\<lambda>r. r\<lparr>rt_runtime := smp_global_rt_runtime S\<rparr>)) S
       (mask_cpus (nr_cpu_ids S) (cpu_possible_mask S))"

definition smp_sched_rt_do_global :: "('c, 'x) smp \<Rightarrow> ('c, 'x) smp" where
  "smp_sched_rt_do_global S =
     S\<lparr>bw := (bw S)\<lparr>bw_rt_runtime := smp_global_rt_runtime S,
         rt_period := ucast (sysctl_rt_period S) * NSEC_PER_USEC\<rparr>\<rparr>"


section \<open>Words as signed amounts\<close>

lemma uint_of_small_int: "0 \<le> x \<Longrightarrow> x < 2 ^ 63 \<Longrightarrow> uint (word_of_int x :: u64) = x"
  by (simp add: uint_word_of_int)

lemma uint_minus_signed:
  "0 \<le> uint a - sint d \<Longrightarrow> uint a - sint d < 2 ^ 63 \<Longrightarrow> uint (a - d :: u64) = uint a - sint d"
proof -
  assume *: "0 \<le> uint a - sint d" "uint a - sint d < 2 ^ 63"
  have "a - d = word_of_int (uint a - sint d)" by simp
  from arg_cong [OF this, of uint] show ?thesis using uint_of_small_int [OF *] by simp
qed

lemma uint_plus_signed:
  "0 \<le> uint a + sint d \<Longrightarrow> uint a + sint d < 2 ^ 63 \<Longrightarrow> uint (a + d :: u64) = uint a + sint d"
proof -
  assume *: "0 \<le> uint a + sint d" "uint a + sint d < 2 ^ 63"
  have "a + d = word_of_int (uint a + sint d)" by simp
  from arg_cong [OF this, of uint] show ?thesis using uint_of_small_int [OF *] by simp
qed

lemma sint_diff_small:
  assumes "uint a < 2 ^ 63" "uint b < 2 ^ 63"
  shows "sint (a - b :: u64) = uint a - uint b"
proof -
  have "a - b = word_of_int (uint a - uint b)" by simp
  then have "sint (a - b) = (uint a - uint b + 2 ^ 63) mod 2 ^ 64 - 2 ^ 63"
    by (simp only: int_word_sint) simp
  moreover have "0 \<le> uint a" "0 \<le> uint b" "(2 :: int) ^ 64 = 2 * 2 ^ 63" by simp_all
  then have "0 \<le> uint a - uint b + 2 ^ 63" "uint a - uint b + 2 ^ 63 < 2 ^ 64" using assms by linarith+
  ultimately show ?thesis by simp
qed

lemma sint_small: "uint a < 2 ^ 63 \<Longrightarrow> sint (a :: u64) = uint a"
  using sint_diff_small [of a 0] by simp

lemma inf_not_small: "uint a < 2 ^ 63 \<Longrightarrow> a \<noteq> RUNTIME_INF"
  by (auto simp: RUNTIME_INF_def uint_word_ariths unsigned_minus_1_eq_mask mask_eq_exp_minus_1)


section \<open>Conservation\<close>

text \<open>All these operations change is the runtimes, a function of the processor.\<close>

definition runtimes :: "('c, 'x) smp \<Rightarrow> cpu \<Rightarrow> u64" where
  "runtimes S c = rt_runtime (rtr S c)"

definition with_runtimes :: "(cpu \<Rightarrow> u64) \<Rightarrow> ('c, 'x) smp \<Rightarrow> ('c, 'x) smp" where
  "with_runtimes f S = S\<lparr>rqs := \<lambda>c. (rqs S c)\<lparr>q_rt := (q_rt (rqs S c))\<lparr>rt_runtime := f c\<rparr>\<rparr>\<rparr>"

lemma with_runtimes_id [simp]: "with_runtimes (runtimes S) S = S"
  by (simp add: with_runtimes_def runtimes_def)

lemma with_runtimes_simps [simp]:
  "rt_runtime (rtr (with_runtimes f S) c) = f c" "rt_time (rtr (with_runtimes f S) c) = rt_time (rtr S c)"
  "runtimes (with_runtimes f S) = f" "nr_cpu_ids (with_runtimes f S) = nr_cpu_ids S"
  "rd (with_runtimes f S) = rd S" "bw (with_runtimes f S) = bw S" "tk (with_runtimes f S) = tk S"
  "scheduler_running (with_runtimes f S) = scheduler_running S"
  by (auto simp: with_runtimes_def runtimes_def)

lemma with_runtimes_upd [simp]:
  "upd_rtr (with_runtimes f S) i (\<lambda>r. r\<lparr>rt_runtime := v\<rparr>) = with_runtimes (f(i := v)) S"
  by (auto simp: with_runtimes_def fun_eq_iff)

definition amount :: "u64 \<Rightarrow> int" where
  "amount r = (if r = RUNTIME_INF then 0 else uint r)"

definition runtime_total :: "cpu set \<Rightarrow> (cpu \<Rightarrow> u64) \<Rightarrow> int" where
  "runtime_total D f = (\<Sum>c\<in>D. amount (f c))"

lemma amount_nonneg [simp]: "0 \<le> amount r"
  by (simp add: amount_def)

lemma total_split:
  assumes "finite D" "c \<in> D"
  shows "runtime_total D f = amount (f c) + runtime_total (D - {c}) f"
  using assms by (simp add: runtime_total_def sum.remove)

lemma total_upd_other [simp]: "c \<notin> D \<Longrightarrow> runtime_total D (f(c := r)) = runtime_total D f"
  by (auto simp: runtime_total_def intro: sum.cong)

lemma total_nonneg [simp]: "0 \<le> runtime_total D f"
  by (simp add: runtime_total_def sum_nonneg)

lemma amount_le_total: "finite D \<Longrightarrow> c \<in> D \<Longrightarrow> amount (f c) \<le> runtime_total D f"
  by (simp add: total_split)

lemma two_le_total:
  "finite D \<Longrightarrow> c \<in> D \<Longrightarrow> i \<in> D \<Longrightarrow> i \<noteq> c \<Longrightarrow> amount (f c) + amount (f i) \<le> runtime_total D f"
  using total_split [of D c f] amount_le_total [of "D - {c}" i f] by simp

definition same_enabled :: "(cpu \<Rightarrow> u64) \<Rightarrow> (cpu \<Rightarrow> u64) \<Rightarrow> bool" where
  "same_enabled f f' \<longleftrightarrow> (\<forall>c. f' c = RUNTIME_INF \<longleftrightarrow> f c = RUNTIME_INF)"

lemma same_enabled_refl [simp]: "same_enabled f f"
  by (simp add: same_enabled_def)

lemma same_enabled_trans: "same_enabled f g \<Longrightarrow> same_enabled g h \<Longrightarrow> same_enabled f h"
  by (simp add: same_enabled_def)

lemma runtime_moved:
  assumes D: "finite D" "c \<in> D" "i \<in> D" "i \<noteq> c" and inf: "f c \<noteq> RUNTIME_INF" "f i \<noteq> RUNTIME_INF"
    and small: "runtime_total D f < 2 ^ 63"
    and lo: "0 \<le> uint (f i) - sint d" "0 \<le> uint (f c) + sint d"
  shows "runtime_total D (f(i := f i - d, c := f c + d)) = runtime_total D f"
    and "same_enabled f (f(i := f i - d, c := f c + d))"
    and "uint (f c + d) = uint (f c) + sint d"
proof -
  have a: "amount (f c) = uint (f c)" "amount (f i) = uint (f i)" using inf by (simp_all add: amount_def)
  have "uint (f c) + uint (f i) < 2 ^ 63" using two_le_total [OF D, of f] small a by simp
  then have hi: "uint (f i) - sint d < 2 ^ 63" "uint (f c) + sint d < 2 ^ 63" using lo by linarith+
  have u: "uint (f i - d) = uint (f i) - sint d" "uint (f c + d) = uint (f c) + sint d"
    using uint_minus_signed uint_plus_signed lo hi by blast+
  then have e: "f i - d \<noteq> RUNTIME_INF" "f c + d \<noteq> RUNTIME_INF" using hi by (metis inf_not_small)+
  show "uint (f c + d) = uint (f c) + sint d" by (fact u)
  show "same_enabled f (f(i := f i - d, c := f c + d))" using e inf by (simp add: same_enabled_def)
  have D': "finite (D - {c})" "i \<in> D - {c}" using D by auto
  have "runtime_total D g = amount (g c) + (amount (g i) + runtime_total (D - {c} - {i}) g)" for g
    using total_split [OF D(1,2), of g] total_split [OF D', of g] by simp
  from this [of f] this [of "f(i := f i - d, c := f c + d)"]
  show "runtime_total D (f(i := f i - d, c := f c + d)) = runtime_total D f"
    using e a u D(4) by (simp add: amount_def)
qed

text \<open>One step of the balancing moves an amount that both processors can take.\<close>

lemma balance_amount:
  fixes ri t rc period wt d :: u64
  assumes small: "uint ri < 2 ^ 63" "uint t < 2 ^ 63" "uint rc < 2 ^ 63" "uint period < 2 ^ 63"
    and pos: "0 < sint (ri - t)"
    and d: "d = (if rc + (ri - t) div wt > period then period - rc else (ri - t) div wt)"
  shows "0 \<le> uint ri - sint d" "0 \<le> uint rc + sint d"
    "rc \<le> period \<Longrightarrow> 0 \<le> sint d" "uint rc + sint d \<le> uint period"
proof -
  let ?q = "(ri - t) div wt"
  have nn: "0 \<le> uint x" for x :: u64 by simp
  have diff: "sint (ri - t) = uint ri - uint t" by (rule sint_diff_small [OF small(1,2)])
  then have le: "uint t \<le> uint ri" using pos by linarith
  have u: "uint (ri - t) = uint ri - uint t"
    using uint_of_small_int [of "uint ri - uint t"] le small(1) nn [of t] by (simp add: uint_sub_if')
  have "?q \<le> ri - t" by (simp add: word_le_nat_alt unat_div_distrib)
  then have "uint ?q \<le> uint (ri - t)" by (simp add: word_le_def)
  then have q: "uint ?q \<le> uint ri" "uint ?q < 2 ^ 63" using u small(1) nn [of t] by linarith+
  have s: "sint ?q = uint ?q" by (rule sint_small [OF q(2)])
  have sum: "uint (rc + ?q) = uint rc + uint ?q"
    using small(3) q(2) by (simp add: uint_add_lem [THEN iffD1])
  have pd: "sint (period - rc) = uint period - uint rc" by (rule sint_diff_small [OF small(4,3)])
  show "0 \<le> uint ri - sint d" "0 \<le> uint rc + sint d"
    "rc \<le> period \<Longrightarrow> 0 \<le> sint d" "uint rc + sint d \<le> uint period"
    using q s sum pd nn [of rc] nn [of ?q] nn [of period] unfolding d word_less_def word_le_def by (auto split: if_splits)
qed

lemma balance_loop_conserves:
  assumes D: "finite D" "c \<in> D" and per: "uint period < 2 ^ 63"
    and "set is \<subseteq> D" "f c \<noteq> RUNTIME_INF" "runtime_total D f < 2 ^ 63"
    and t: "\<And>i. i \<in> D \<Longrightarrow> uint (rt_time (rtr S i)) < 2 ^ 63"
  shows "\<exists>f'. balance_runtime_loop wt period c is (with_runtimes f S) = with_runtimes f' S \<and>
    runtime_total D f' = runtime_total D f \<and> same_enabled f f' \<and>
    (f c \<le> period \<longrightarrow> f c \<le> f' c \<and> f' c \<le> period)"
  using assms(4-6)
proof (induction "is" arbitrary: f)
  case Nil
  then show ?case by (auto intro!: exI [of _ f])
next
  case (Cons i "is")
  show ?case
  proof (cases "i = c \<or> f i = RUNTIME_INF \<or> \<not> 0 < sint (f i - rt_time (rtr S i))")
    case True
    then show ?thesis using Cons.IH [of f] Cons.prems by (auto simp: Let_def)
  next
    case False
    let ?t = "rt_time (rtr S i)"
    define d where "d = (if f c + (f i - ?t) div wt > period then period - f c else (f i - ?t) div wt)"
    let ?f = "f(i := f i - d, c := f c + d)"
    have i: "i \<in> D" "i \<noteq> c" "f i \<noteq> RUNTIME_INF" using False Cons.prems by auto
    have sm: "uint (f i) < 2 ^ 63" "uint (f c) < 2 ^ 63"
      using amount_le_total [OF D(1) i(1), of f] amount_le_total [OF D, of f] Cons.prems i
      by (auto simp: amount_def)
    note am = balance_amount [OF sm(1) t [OF i(1)] sm(2) per _ d_def]
    have pos: "0 < sint (f i - ?t)" using False by simp
    note mv = runtime_moved [OF D i(1,2) Cons.prems(2) i(3) Cons.prems(3) am(1,2) [OF pos]]
    have inf: "?f c \<noteq> RUNTIME_INF" using mv(2) Cons.prems(2) unfolding same_enabled_def by blast
    have up: "f c \<le> ?f c" "?f c \<le> period" if "f c \<le> period"
      using am(3,4) [OF pos] that mv(3) by (simp_all add: word_le_def)
    have eq: "balance_runtime_loop wt period c (i # is) (with_runtimes f S) =
        (if ?f c = period then with_runtimes ?f S else balance_runtime_loop wt period c is (with_runtimes ?f S))"
      using False i by (simp add: Let_def d_def fun_upd_twist)
    show ?thesis
    proof (cases "?f c = period")
      case True
      then have "balance_runtime_loop wt period c (i # is) (with_runtimes f S) = with_runtimes ?f S"
        unfolding eq by (rule if_P)
      then show ?thesis using mv(1,2) up by blast
    next
      case False
      have "\<exists>f'. balance_runtime_loop wt period c is (with_runtimes ?f S) = with_runtimes f' S \<and>
        runtime_total D f' = runtime_total D ?f \<and> same_enabled ?f f' \<and>
        (?f c \<le> period \<longrightarrow> ?f c \<le> f' c \<and> f' c \<le> period)"
        by (rule Cons.IH [of ?f]) (use Cons.prems(1,3) mv(1) inf in \<open>simp_all only: list.simps insert_subset not_False_eq_True\<close>)
      then obtain f' where f': "balance_runtime_loop wt period c is (with_runtimes ?f S) = with_runtimes f' S"
        "runtime_total D f' = runtime_total D ?f" "same_enabled ?f f'"
        "?f c \<le> period \<longrightarrow> ?f c \<le> f' c \<and> f' c \<le> period"
        by blast
      have "f c \<le> period \<longrightarrow> f c \<le> f' c \<and> f' c \<le> period" using f'(4) up by (meson order_trans)
      moreover have "balance_runtime_loop wt period c (i # is) (with_runtimes f S) = with_runtimes f' S"
        using f'(1) unfolding eq if_not_P [OF False] .
      moreover have "same_enabled f f'" using mv(2) f'(3) by (rule same_enabled_trans)
      ultimately show ?thesis using f'(2) mv(1) by metis
    qed
  qed
qed

text \<open>What the reclaim takes from the others is exactly what it was asked for.\<close>

lemma reclaim_takes:
  assumes D: "finite D" "c \<in> D"
    and "set is \<subseteq> D" "distinct is" "runtime_total D f < 2 ^ 63" "sint want \<noteq> 0"
    and "sint want \<le> runtime_total (set is - {c}) f"
    and "sint want < 0 \<longrightarrow> (\<exists>i\<in>set is. i \<noteq> c \<and> f i \<noteq> RUNTIME_INF) \<and>
          (\<forall>i\<in>set is. i \<noteq> c \<longrightarrow> f i \<noteq> RUNTIME_INF \<longrightarrow> uint (f i) - sint want < 2 ^ 63)"
  shows "\<exists>f'. reclaim_runtime c is want (with_runtimes f S) = (0, with_runtimes f' S) \<and>
    runtime_total D f' = runtime_total D f - sint want \<and> same_enabled f f' \<and> f' c = f c"
  using assms(3-)
proof (induction "is" arbitrary: f want)
  case Nil
  then show ?case by (simp add: runtime_total_def)
next
  case (Cons i "is")
  show ?case
  proof (cases "i = c \<or> f i = RUNTIME_INF")
    case True
    have "runtime_total (set (i # is) - {c}) f = runtime_total (set is - {c}) f"
    proof (cases "i = c")
      case False
      then have "runtime_total (set (i # is) - {c}) f = amount (f i) + runtime_total (set is - {c}) f"
        using Cons.prems(2) total_split [of "set (i # is) - {c}" i f] by (simp add: insert_Diff_if)
      then show ?thesis using True False by (simp add: amount_def)
    qed (use Cons.prems(2) in simp)
    then show ?thesis using True Cons.IH [of f want] Cons.prems by auto
  next
    case False
    define d where "d = (if 0 < sint want then if sint (f i) < sint want then f i else want else want)"
    let ?f = "f(i := f i - d)"
    have iD: "i \<in> D" "i \<noteq> c" "f i \<noteq> RUNTIME_INF" using Cons.prems False by auto
    have sm: "uint (f i) < 2 ^ 63"
      using amount_le_total [OF D(1) iD(1), of f] Cons.prems(3) iD by (simp add: amount_def)
    have fi: "sint (f i) = uint (f i)" by (rule sint_small [OF sm])
    have "0 \<le> uint (f i)" by simp
    then have rng: "0 \<le> uint (f i) - sint d" "uint (f i) - sint d < 2 ^ 63"
      using fi sm Cons.prems(6) iD
      by (auto simp: d_def) (use \<open>0 \<le> uint (f i)\<close> in linarith)+
    have u: "uint (f i - d) = uint (f i) - sint d" by (rule uint_minus_signed [OF rng])
    then have e: "f i - d \<noteq> RUNTIME_INF" using rng by (metis inf_not_small)
    have tot: "runtime_total D ?f = runtime_total D f - sint d"
      using total_split [OF D(1) iD(1), of f] total_split [OF D(1) iD(1), of ?f] u e iD(3)
      by (simp add: amount_def)
    have se: "same_enabled f ?f" using e iD by (simp add: same_enabled_def)
    have eq: "reclaim_runtime c (i # is) want (with_runtimes f S) =
        (if want - d = 0 then (0, with_runtimes ?f S) else reclaim_runtime c is (want - d) (with_runtimes ?f S))"
      using False by (simp add: Let_def d_def)
    show ?thesis
    proof (cases "want - d = 0")
      case True
      then have "reclaim_runtime c (i # is) want (with_runtimes f S) = (0, with_runtimes ?f S)"
        unfolding eq by (rule if_P)
      moreover have "sint want = sint d" using True by simp
      ultimately show ?thesis using tot se iD by (metis fun_upd_other)
    next
      case F: False
      then have w: "0 < sint want" "sint (f i) < sint want" "d = f i" by (auto simp: d_def split: if_splits)
      have sw: "sint (want - d) = sint want - sint d"
      proof -
        have "0 \<le> sint want" "sint want < 2 ^ 63" using w(1) sint_lt [of want] by auto
        then have "sint want = uint want" by (simp add: uint_sint take_bit_int_eq_self)
        moreover have "uint want < 2 ^ 63" using \<open>sint want < 2 ^ 63\<close> calculation by simp
        ultimately show ?thesis using sint_diff_small [of want d] w(3) sm fi by simp
      qed
      have "runtime_total (set (i # is) - {c}) f = amount (f i) + runtime_total (set is - {c}) f"
        using Cons.prems(2) total_split [of "set (i # is) - {c}" i f] iD(2) by (simp add: insert_Diff_if)
      then have "sint (want - d) \<le> runtime_total (set is - {c}) f" using Cons.prems(5) sw w fi iD by (simp add: amount_def)
      moreover have "runtime_total (set is - {c}) ?f = runtime_total (set is - {c}) f" using Cons.prems(2) by simp
      moreover have "sint d = uint (f i)" using w(3) fi by simp
      then have "runtime_total D ?f < 2 ^ 63" "0 < sint (want - d)"
        using tot Cons.prems(3) sw w(1,2) fi \<open>0 \<le> uint (f i)\<close> by linarith+
      ultimately have IH: "\<exists>f'. reclaim_runtime c is (want - d) (with_runtimes ?f S) = (0, with_runtimes f' S) \<and>
        runtime_total D f' = runtime_total D ?f - sint (want - d) \<and> same_enabled ?f f' \<and> f' c = ?f c"
        by (intro Cons.IH [of ?f]) (use Cons.prems(1,2) in \<open>auto simp del: fun_upd_apply total_upd_other\<close>)
      then obtain f' where f': "reclaim_runtime c is (want - d) (with_runtimes ?f S) = (0, with_runtimes f' S)"
        "runtime_total D f' = runtime_total D ?f - sint (want - d)" "same_enabled ?f f'" "f' c = ?f c"
        using IH by blast
      moreover have "reclaim_runtime c (i # is) want (with_runtimes f S) = (0, with_runtimes f' S)"
        using f'(1) unfolding eq if_not_P [OF F] .
      moreover have "same_enabled f f'" using se f'(3) by (rule same_enabled_trans)
      moreover have "f' c = f c" using f'(4) iD(2) by simp
      ultimately show ?thesis using tot sw by auto
    qed
  qed
qed

section \<open>The invariant of the borrowing\<close>

definition rt_domain :: "('c, 'x) smp \<Rightarrow> cpu set" where
  "rt_domain S = {c. c < nr_cpu_ids S \<and> rd_span (rd S) c}"

definition enabled_cpus :: "cpu set \<Rightarrow> (cpu \<Rightarrow> u64) \<Rightarrow> cpu set" where
  "enabled_cpus D f = {c \<in> D. f c \<noteq> RUNTIME_INF}"

text \<open>What does not depend on the runtimes: the sizes are such that sums do not wrap around, as
  they are for a period given in 32 bits of microseconds.\<close>

definition runtime_bounds :: "('c, 'x) smp \<Rightarrow> bool" where
  "runtime_bounds S \<longleftrightarrow> (int (nr_cpu_ids S) + 1) * uint (rt_period (bw S)) < 2 ^ 63 \<and>
     (bw_rt_runtime (bw S) = RUNTIME_INF \<or> bw_rt_runtime (bw S) \<le> rt_period (bw S)) \<and>
     (\<forall>c \<in> rt_domain S. uint (rt_time (rtr S c)) < 2 ^ 63 \<and> cpu_possible_mask S c)"

definition runtime_inv :: "('c, 'x) smp \<Rightarrow> bool" where
  "runtime_inv S \<longleftrightarrow> runtime_bounds S \<and>
     (bw_rt_runtime (bw S) = RUNTIME_INF \<longrightarrow> enabled_cpus (rt_domain S) (runtimes S) = {}) \<and>
     runtime_total (rt_domain S) (runtimes S) =
       int (card (enabled_cpus (rt_domain S) (runtimes S))) * uint (bw_rt_runtime (bw S))"

lemma finite_rt_domain [simp]: "finite (rt_domain S)"
  by (rule finite_subset [of _ "{..<nr_cpu_ids S}"]) (auto simp: rt_domain_def)

lemma set_domain_cpus [simp]: "set (mask_cpus (nr_cpu_ids S) (rd_span (rd S))) = rt_domain S"
  by (auto simp: rt_domain_def)

lemma rt_domain_with [simp]: "rt_domain (with_runtimes f S) = rt_domain S"
  by (simp add: rt_domain_def)

lemma runtime_bounds_with [simp]: "runtime_bounds (with_runtimes f S) = runtime_bounds S"
  by (simp add: runtime_bounds_def) (simp add: with_runtimes_def)

lemma enabled_same: "same_enabled f f' \<Longrightarrow> enabled_cpus D f' = enabled_cpus D f"
  by (auto simp: enabled_cpus_def same_enabled_def)

lemma period_small: "runtime_bounds S \<Longrightarrow> uint (rt_period (bw S)) < 2 ^ 63"
proof -
  assume "runtime_bounds S"
  moreover have "1 * uint (rt_period (bw S)) \<le> (int (nr_cpu_ids S) + 1) * uint (rt_period (bw S))"
    by (rule mult_right_mono) simp_all
  ultimately show ?thesis by (simp add: runtime_bounds_def)
qed

lemma card_enabled_le: "card (enabled_cpus (rt_domain S) f) \<le> nr_cpu_ids S"
proof -
  have "enabled_cpus (rt_domain S) f \<subseteq> {..<nr_cpu_ids S}" by (auto simp: enabled_cpus_def rt_domain_def)
  from card_mono [OF _ this] show ?thesis by simp
qed

lemma total_small: "runtime_inv S \<Longrightarrow> runtime_total (rt_domain S) (runtimes S) < 2 ^ 63"
proof (cases "bw_rt_runtime (bw S) = RUNTIME_INF")
  case False
  assume inv: "runtime_inv S"
  let ?m = "card (enabled_cpus (rt_domain S) (runtimes S))"
  have "uint (bw_rt_runtime (bw S)) \<le> uint (rt_period (bw S))"
    using inv False by (simp add: runtime_inv_def runtime_bounds_def word_le_def)
  then have "int ?m * uint (bw_rt_runtime (bw S)) \<le> (int (nr_cpu_ids S) + 1) * uint (rt_period (bw S))"
    using card_enabled_le [of S "runtimes S"] by (intro mult_mono) simp_all
  then show ?thesis using inv by (simp add: runtime_inv_def runtime_bounds_def)
qed (auto simp: runtime_inv_def)

lemma resched_curr_runtimes [simp]:
  "rqs (smp_resched_curr c S) = rqs S" "rd (smp_resched_curr c S) = rd S" "bw (smp_resched_curr c S) = bw S"
  "nr_cpu_ids (smp_resched_curr c S) = nr_cpu_ids S"
  "cpu_possible_mask (smp_resched_curr c S) = cpu_possible_mask S"
  by (simp_all add: smp_resched_curr_def Let_def set_nr_and_not_polling_def smp_send_reschedule_def)

lemma rt_rq_enqueue_runtimes [simp]:
  "runtimes (smp_sched_rt_rq_enqueue c S) = runtimes S"
  "rt_time (rtr (smp_sched_rt_rq_enqueue c S) i) = rt_time (rtr S i)"
  "rd (smp_sched_rt_rq_enqueue c S) = rd S" "bw (smp_sched_rt_rq_enqueue c S) = bw S"
  "nr_cpu_ids (smp_sched_rt_rq_enqueue c S) = nr_cpu_ids S"
  "cpu_possible_mask (smp_sched_rt_rq_enqueue c S) = cpu_possible_mask S"
  by (auto simp: smp_sched_rt_rq_enqueue_def smp_enqueue_top_rt_rq_def runtimes_def fun_eq_iff)

text \<open>The invariant of a state that differs in the runtimes and in fields that do not matter.\<close>

lemma runtime_inv_change:
  assumes "runtime_bounds S" "nr_cpu_ids S' = nr_cpu_ids S" "rd S' = rd S" "bw S' = bw S"
    "cpu_possible_mask S' = cpu_possible_mask S"
    "\<And>c. c \<in> rt_domain S \<Longrightarrow> uint (rt_time (rtr S' c)) < 2 ^ 63"
    "bw_rt_runtime (bw S) = RUNTIME_INF \<Longrightarrow> enabled_cpus (rt_domain S) (runtimes S') = {}"
    "runtime_total (rt_domain S) (runtimes S') =
       int (card (enabled_cpus (rt_domain S) (runtimes S'))) * uint (bw_rt_runtime (bw S))"
  shows "runtime_inv S'"
  using assms by (simp add: runtime_inv_def runtime_bounds_def rt_domain_def)

lemma balance_runtime_inv:
  assumes inv: "runtime_inv S" and c: "c \<in> rt_domain S"
  shows "runtime_inv (balance_runtime E c S)"
    and "runtimes S c \<le> rt_period (bw S) \<Longrightarrow>
      runtimes S c \<le> runtimes (balance_runtime E c S) c \<and> runtimes (balance_runtime E c S) c \<le> rt_period (bw S)"
proof -
  have "runtime_inv (balance_runtime E c S) \<and> (runtimes S c \<le> rt_period (bw S) \<longrightarrow>
      runtimes S c \<le> runtimes (balance_runtime E c S) c \<and> runtimes (balance_runtime E c S) c \<le> rt_period (bw S))"
  proof (cases "RT_RUNTIME_SHARE E \<and> rt_time (rtr S c) > rt_runtime (rtr S c)")
    case True
    have "rt_runtime (rtr S c) \<noteq> - 1" using True by (metis word_order.extremum_strict)
    then have nf: "runtimes S c \<noteq> RUNTIME_INF" by (simp add: runtimes_def RUNTIME_INF_def)
    have b: "runtime_bounds S" using inv by (simp add: runtime_inv_def)
    have "\<exists>f'. do_balance_runtime c S = with_runtimes f' S \<and>
      runtime_total (rt_domain S) f' = runtime_total (rt_domain S) (runtimes S) \<and> same_enabled (runtimes S) f' \<and>
      (runtimes S c \<le> rt_period (bw S) \<longrightarrow> runtimes S c \<le> f' c \<and> f' c \<le> rt_period (bw S))"
      using balance_loop_conserves [OF finite_rt_domain c period_small [OF b] _ nf total_small [OF inv], of
          "mask_cpus (nr_cpu_ids S) (rd_span (rd S))" S] b
      by (simp add: do_balance_runtime_def Let_def runtime_bounds_def del: mask_cpus_iff)
    then obtain f' where f': "do_balance_runtime c S = with_runtimes f' S"
      "runtime_total (rt_domain S) f' = runtime_total (rt_domain S) (runtimes S)" "same_enabled (runtimes S) f'"
      "runtimes S c \<le> rt_period (bw S) \<longrightarrow> runtimes S c \<le> f' c \<and> f' c \<le> rt_period (bw S)" by blast
    then show ?thesis
      using inv True by (simp add: balance_runtime_def runtime_inv_def enabled_same)
  qed (use inv in \<open>auto simp: balance_runtime_def\<close>)
  then show "runtime_inv (balance_runtime E c S)"
    and "runtimes S c \<le> rt_period (bw S) \<Longrightarrow>
      runtimes S c \<le> runtimes (balance_runtime E c S) c \<and> runtimes (balance_runtime E c S) c \<le> rt_period (bw S)"
    by blast+
qed

lemma enabled_upd_inf:
  "enabled_cpus D (f(c := RUNTIME_INF)) = enabled_cpus D f - {c}"
  by (auto simp: enabled_cpus_def)

lemma total_upd_inf:
  "finite D \<Longrightarrow> c \<in> D \<Longrightarrow> runtime_total D (f(c := RUNTIME_INF)) = runtime_total D f - amount (f c)"
  using total_split [of D c f] total_split [of D c "f(c := RUNTIME_INF)"] by (simp add: amount_def)

lemma card_enabled_minus:
  assumes "finite D" "c \<in> enabled_cpus D f"
  shows "int (card (enabled_cpus D f - {c})) = int (card (enabled_cpus D f)) - 1"
proof -
  have fin: "finite (enabled_cpus D f)" using assms(1) by (simp add: enabled_cpus_def)
  then have "0 < card (enabled_cpus D f)" using assms(2) by (auto simp: card_gt_0_iff)
  then show ?thesis using card_Diff_singleton [OF assms(2)] by linarith
qed

lemma disable_balanced_inv:
  assumes b: "runtime_bounds S" and c: "c \<in> rt_domain S"
    and e: "bw_rt_runtime (bw S) = RUNTIME_INF \<Longrightarrow> enabled_cpus (rt_domain S) g = {}"
    and t: "runtime_total (rt_domain S) g =
      int (card (enabled_cpus (rt_domain S) g)) * uint (bw_rt_runtime (bw S)) -
        (if g c = RUNTIME_INF then 0 else uint (bw_rt_runtime (bw S)) - uint (g c))"
  shows "runtime_inv (disable_balanced c (with_runtimes g S))"
proof (rule runtime_inv_change [OF b])
  let ?S = "disable_balanced c (with_runtimes g S)"
  show "nr_cpu_ids ?S = nr_cpu_ids S" "rd ?S = rd S" "bw ?S = bw S"
    by (simp_all add: disable_balanced_def)
  show "cpu_possible_mask ?S = cpu_possible_mask S"
    by (simp add: disable_balanced_def) (simp add: with_runtimes_def)
  show "uint (rt_time (rtr ?S i)) < 2 ^ 63" if "i \<in> rt_domain S" for i
  proof -
    have "rt_time (rtr ?S i) = rt_time (rtr S i)" by (simp add: disable_balanced_def)
    then show ?thesis using b that by (simp add: runtime_bounds_def)
  qed
  have r: "runtimes ?S = g(c := RUNTIME_INF)"
    unfolding disable_balanced_def rt_rq_enqueue_runtimes by (simp add: runtimes_def fun_eq_iff)
  show "enabled_cpus (rt_domain S) (runtimes ?S) = {}" if "bw_rt_runtime (bw S) = RUNTIME_INF"
    using e [OF that] by (simp add: r enabled_upd_inf)
  show "runtime_total (rt_domain S) (runtimes ?S) =
      int (card (enabled_cpus (rt_domain S) (runtimes ?S))) * uint (bw_rt_runtime (bw S))"
  proof (cases "g c = RUNTIME_INF")
    case True
    then have "g(c := RUNTIME_INF) = g" by (simp add: fun_eq_iff)
    then show ?thesis using t True by (simp add: r)
  next
    case False
    then have m: "c \<in> enabled_cpus (rt_domain S) g" using c by (simp add: enabled_cpus_def)
    have "int (card (enabled_cpus (rt_domain S) (runtimes ?S))) * uint (bw_rt_runtime (bw S)) =
        int (card (enabled_cpus (rt_domain S) g)) * uint (bw_rt_runtime (bw S)) - uint (bw_rt_runtime (bw S))"
      unfolding r enabled_upd_inf card_enabled_minus [OF finite_rt_domain m] by (simp add: left_diff_distrib)
    then show ?thesis using t False by (simp add: r total_upd_inf [OF finite_rt_domain c] amount_def)
  qed
qed

text \<open>\<open>BUG_ON(want)\<close> is never reached.\<close>

lemma disable_runtime_ok:
  assumes inv: "runtime_inv S" and c: "c \<in> rt_domain S"
  shows "\<exists>S'. disable_runtime c S = Some S' \<and> runtime_inv S'"
proof -
  let ?D = "rt_domain S" and ?f = "runtimes S" and ?B = "bw_rt_runtime (bw S)"
  let ?m = "int (card (enabled_cpus ?D ?f))"
  have b: "runtime_bounds S" and t: "runtime_total ?D ?f = ?m * uint ?B"
    and e: "?B = RUNTIME_INF \<Longrightarrow> enabled_cpus ?D ?f = {}"
    using inv by (simp_all add: runtime_inv_def)
  consider (off) "\<not> scheduler_running S" | (even) "scheduler_running S" "?f c = RUNTIME_INF \<or> ?f c = ?B"
    | (odd) "scheduler_running S" "?f c \<noteq> RUNTIME_INF" "?f c \<noteq> ?B" by blast
  then show ?thesis
  proof cases
    case off
    then show ?thesis using inv by (simp add: disable_runtime_def)
  next
    case even
    then have "runtime_inv (disable_balanced c (with_runtimes ?f S))"
      by (intro disable_balanced_inv [OF b c e]) (auto simp: t)
    then show ?thesis using even by (auto simp: disable_runtime_def runtimes_def)
  next
    case odd
    have cm: "c \<in> enabled_cpus ?D ?f" using odd c by (simp add: enabled_cpus_def)
    then have nf: "?B \<noteq> RUNTIME_INF" using e by auto
    have "uint ?B \<le> uint (rt_period (bw S))" using b nf by (simp add: runtime_bounds_def word_le_def)
    then have sm: "uint ?B < 2 ^ 63" using period_small [OF b] by linarith
    have small: "runtime_total ?D ?f < 2 ^ 63" by (rule total_small [OF inv])
    have am: "amount (?f c) = uint (?f c)" using odd by (simp add: amount_def)
    have fc: "uint (?f c) < 2 ^ 63" using amount_le_total [OF finite_rt_domain c, of ?f] small am by linarith
    have w: "sint (?B - ?f c) = uint ?B - uint (?f c)" by (rule sint_diff_small [OF sm fc])
    have rest: "runtime_total ?D ?f = uint (?f c) + runtime_total (?D - {c}) ?f"
      using total_split [OF finite_rt_domain c, of ?f] am by simp
    have "1 \<le> ?m" using card_enabled_minus [OF finite_rt_domain cm] by linarith
    then have "1 * uint ?B \<le> ?m * uint ?B" by (intro mult_right_mono) simp_all
    then have le: "sint (?B - ?f c) \<le> runtime_total (?D - {c}) ?f" using w rest t by linarith
    have ex: "\<exists>i \<in> ?D. i \<noteq> c \<and> ?f i \<noteq> RUNTIME_INF"
    proof (rule ccontr)
      assume "\<not> ?thesis"
      then have only: "\<forall>i \<in> ?D - {c}. ?f i = RUNTIME_INF" by blast
      then have "enabled_cpus ?D ?f = {c}" using cm unfolding enabled_cpus_def by blast
      moreover have "runtime_total (?D - {c}) ?f = 0"
        unfolding runtime_total_def by (rule sum.neutral) (use only in \<open>simp add: amount_def\<close>)
      ultimately have "uint (?f c) = uint ?B" using t rest by simp
      then show False using odd(3) word_uint_eqI by blast
    qed
    have room: "uint (?f i) - sint (?B - ?f c) < 2 ^ 63" if "i \<in> ?D" "i \<noteq> c" "?f i \<noteq> RUNTIME_INF" for i
    proof -
      have "amount (?f i) = uint (?f i)" "0 \<le> uint ?B" using that(3) by (simp_all add: amount_def)
      then show ?thesis using two_le_total [OF finite_rt_domain c that(1,2), of ?f] small am w by linarith
    qed
    define cs where "cs = mask_cpus (nr_cpu_ids S) (rd_span (rd S))"
    have cs: "set cs = ?D" "distinct cs" by (simp_all add: cs_def del: mask_cpus_iff)
    have nz: "sint (?B - ?f c) \<noteq> 0" using w odd(3) word_uint_eqI [of "?f c" ?B] by auto
    have neg: "sint (?B - ?f c) < 0 \<longrightarrow> (\<exists>i\<in>set cs. i \<noteq> c \<and> ?f i \<noteq> RUNTIME_INF) \<and>
        (\<forall>i\<in>set cs. i \<noteq> c \<longrightarrow> ?f i \<noteq> RUNTIME_INF \<longrightarrow> uint (?f i) - sint (?B - ?f c) < 2 ^ 63)"
      unfolding cs(1) using ex room by blast
    have "set cs \<subseteq> ?D" "sint (?B - ?f c) \<le> runtime_total (set cs - {c}) ?f" using le cs by simp_all
    from reclaim_takes [OF finite_rt_domain c this(1) cs(2) small nz this(2) neg, of S, folded cs_def]
    obtain g where g: "reclaim_runtime c (mask_cpus (nr_cpu_ids S) (rd_span (rd S))) (?B - ?f c) S = (0, with_runtimes g S)"
      "runtime_total ?D g = runtime_total ?D ?f - sint (?B - ?f c)" "same_enabled ?f g" "g c = ?f c"
      unfolding cs_def [symmetric] with_runtimes_id by blast
    have "runtime_inv (disable_balanced c (with_runtimes g S))"
      by (rule disable_balanced_inv [OF b c]) (use e g t w odd in \<open>auto simp: enabled_same\<close>)
    then show ?thesis using g(1) odd by (simp add: disable_runtime_def runtimes_def)
  qed
qed

lemma enable_runtime_inv:
  assumes inv: "runtime_inv S" and c: "c \<in> rt_domain S"
    and r: "runtimes S c = RUNTIME_INF \<or> runtimes S c = bw_rt_runtime (bw S)"
  shows "runtime_inv (enable_runtime c S)"
proof (cases "scheduler_running S")
  case True
  let ?S = "enable_runtime c S" and ?D = "rt_domain S" and ?f = "runtimes S" and ?B = "bw_rt_runtime (bw S)"
  have b: "runtime_bounds S" and t: "runtime_total ?D ?f = int (card (enabled_cpus ?D ?f)) * uint ?B"
    and e: "?B = RUNTIME_INF \<Longrightarrow> enabled_cpus ?D ?f = {}"
    using inv by (simp_all add: runtime_inv_def)
  have rs: "runtimes ?S = ?f(c := ?B)" using True by (auto simp: enable_runtime_def runtimes_def fun_eq_iff)
  show ?thesis
  proof (rule runtime_inv_change [OF b])
    show "uint (rt_time (rtr ?S i)) < 2 ^ 63" if "i \<in> ?D" for i
      using b that True by (auto simp: enable_runtime_def runtime_bounds_def)
    show "enabled_cpus ?D (runtimes ?S) = {}" if "?B = RUNTIME_INF"
      using e [OF that] that by (simp add: rs enabled_upd_inf)
    show "runtime_total ?D (runtimes ?S) = int (card (enabled_cpus ?D (runtimes ?S))) * uint ?B"
    proof (cases "?f c = ?B")
      case True
      then have "?f(c := ?B) = ?f" by (simp add: fun_eq_iff)
      then show ?thesis using t by (simp add: rs)
    next
      case False
      then have inf: "?f c = RUNTIME_INF" "?B \<noteq> RUNTIME_INF" using r by auto
      have "enabled_cpus ?D (?f(c := ?B)) = insert c (enabled_cpus ?D ?f)" "c \<notin> enabled_cpus ?D ?f"
        using inf c by (auto simp: enabled_cpus_def)
      moreover have "finite (enabled_cpus ?D ?f)" by (simp add: enabled_cpus_def)
      ultimately have m: "int (card (enabled_cpus ?D (?f(c := ?B)))) = int (card (enabled_cpus ?D ?f)) + 1" by simp
      have "runtime_total ?D (?f(c := ?B)) = runtime_total ?D ?f + uint ?B"
        using total_split [OF finite_rt_domain c, of ?f] total_split [OF finite_rt_domain c, of "?f(c := ?B)"] inf
        by (simp add: amount_def)
      then show ?thesis using t m by (simp add: rs distrib_right)
    qed
  qed (simp_all add: enable_runtime_def)
qed (use inv in \<open>simp add: enable_runtime_def\<close>)

lemma global_constraints_runtimes:
  "smp_sched_rt_global_constraints S =
     with_runtimes (\<lambda>c. if c < nr_cpu_ids S \<and> cpu_possible_mask S c then smp_global_rt_runtime S else runtimes S c) S"
proof -
  have "foldl (\<lambda>S i. upd_rtr S i (\<lambda>r. r\<lparr>rt_runtime := smp_global_rt_runtime S\<rparr>)) (with_runtimes f S) cs =
      with_runtimes (\<lambda>c. if c \<in> set cs then smp_global_rt_runtime S else f c) S" for f cs
  proof (induction cs arbitrary: f)
    case (Cons i cs)
    have "smp_global_rt_runtime (with_runtimes f S) = smp_global_rt_runtime S"
      by (simp add: smp_global_rt_runtime_def with_runtimes_def)
    moreover have "(\<lambda>c. if c \<in> set cs then r else (f(i := r)) c) = (\<lambda>c. if c \<in> set (i # cs) then r else f c)" for r
      by auto
    ultimately show ?case by (simp only: foldl.simps with_runtimes_upd Cons.IH)
  qed simp
  from this [of "runtimes S"] show ?thesis by (simp add: smp_sched_rt_global_constraints_def)
qed

text \<open>The values the handler accepts, \<open>sched_rt_global_validate\<close>.\<close>

definition sysctl_valid :: "('c, 'x) smp \<Rightarrow> bool" where
  "sysctl_valid S \<longleftrightarrow> (sysctl_rt_runtime S = - 1 \<or>
       0 \<le> sysctl_rt_runtime S \<and> sysctl_rt_runtime S \<le> uint (sysctl_rt_period S)) \<and>
     (int (nr_cpu_ids S) + 1) * (uint (sysctl_rt_period S) * 1000) < 2 ^ 63"

lemma sysctl_inv:
  assumes inv: "runtime_inv S" and v: "sysctl_valid S"
  shows "runtime_inv (smp_sched_rt_do_global (smp_sched_rt_global_constraints S))"
proof -
  let ?R = "smp_global_rt_runtime S" and ?P = "ucast (sysctl_rt_period S) * NSEC_PER_USEC :: u64"
  define f where "f = (\<lambda>c. if c < nr_cpu_ids S \<and> cpu_possible_mask S c then ?R else runtimes S c)"
  let ?S = "smp_sched_rt_do_global (with_runtimes f S)"
  have b: "runtime_bounds S" using inv by (simp add: runtime_inv_def)
  have up: "uint (sysctl_rt_period S) < 2 ^ 32" using uint_lt2p [of "sysctl_rt_period S"] by simp
  then have P: "uint ?P = uint (sysctl_rt_period S) * 1000"
    by (simp add: NSEC_PER_USEC_def uint_word_ariths unsigned_ucast_eq take_bit_int_eq_self)
  have R: "?R = RUNTIME_INF \<or> ?R \<le> ?P"
  proof (cases "sysctl_rt_runtime S = - 1")
    case False
    then have r: "0 \<le> sysctl_rt_runtime S" "sysctl_rt_runtime S \<le> uint (sysctl_rt_period S)"
      using v by (auto simp: sysctl_valid_def)
    then have "uint ?R = sysctl_rt_runtime S * 1000" using up
      by (simp add: smp_global_rt_runtime_def NSEC_PER_USEC_def uint_word_ariths uint_word_of_int)
    then show ?thesis using r P by (simp add: word_le_def)
  qed (simp add: smp_global_rt_runtime_def)
  have gr: "smp_global_rt_runtime (with_runtimes f S) = ?R"
    by (simp add: smp_global_rt_runtime_def with_runtimes_def)
  have bw: "bw_rt_runtime (bw ?S) = ?R" "rt_period (bw ?S) = ?P"
    by (simp_all add: smp_sched_rt_do_global_def gr) (simp add: with_runtimes_def)
  have D: "rt_domain ?S = rt_domain S" by (simp add: smp_sched_rt_do_global_def rt_domain_def)
  have fd: "f c = ?R" if "c \<in> rt_domain S" for c
    using b that by (auto simp: f_def runtime_bounds_def rt_domain_def)
  have rs: "runtimes ?S = f" by (simp add: smp_sched_rt_do_global_def runtimes_def fun_eq_iff)
  have "runtime_bounds ?S"
    using b v R P by (simp add: runtime_bounds_def D bw sysctl_valid_def)
      (simp add: smp_sched_rt_do_global_def with_runtimes_def)
  moreover have "enabled_cpus (rt_domain S) f = (if ?R = RUNTIME_INF then {} else rt_domain S)"
    using fd by (auto simp: enabled_cpus_def)
  moreover have "runtime_total (rt_domain S) f = int (card (rt_domain S)) * amount ?R"
    using fd by (simp add: runtime_total_def)
  ultimately have "runtime_inv ?S" by (simp add: runtime_inv_def D bw rs amount_def)
  then show ?thesis by (simp add: global_constraints_runtimes f_def)
qed

section \<open>All that happens to the runtimes\<close>

text \<open>
  A processor may use real-time CPU time or be throttled, borrow, go offline and come back, and the
  sysctl files may be written. A processor that comes back has been disabled before, or it is in the
  state it was initialised with.
\<close>

inductive runtime_step :: "('c, 'x, 'e) senv_scheme \<Rightarrow> ('c, 'x) smp \<Rightarrow> ('c, 'x) smp \<Rightarrow> bool" for E where
  run: "c \<in> rt_domain S \<Longrightarrow> uint t < 2 ^ 63 \<Longrightarrow>
    runtime_step E S (upd_rtr S c (\<lambda>r. r\<lparr>rt_time := t, rt_throttled := b\<rparr>))"
| borrow: "c \<in> rt_domain S \<Longrightarrow> runtime_step E S (balance_runtime E c S)"
| disable: "c \<in> rt_domain S \<Longrightarrow> disable_runtime c S = Some S' \<Longrightarrow> runtime_step E S S'"
| enable: "c \<in> rt_domain S \<Longrightarrow> runtimes S c = RUNTIME_INF \<or> runtimes S c = bw_rt_runtime (bw S) \<Longrightarrow>
    runtime_step E S (enable_runtime c S)"
| sysctl: "S1 = S\<lparr>sysctl_rt_runtime := r, sysctl_rt_period := p\<rparr> \<Longrightarrow> sysctl_valid S1 \<Longrightarrow>
    runtime_step E S (smp_sched_rt_do_global (smp_sched_rt_global_constraints S1))"

text \<open>At boot every processor has the runtime of the root group.\<close>

definition runtime_boot :: "('c, 'x) smp \<Rightarrow> bool" where
  "runtime_boot S \<longleftrightarrow> runtime_bounds S \<and> (\<forall>c \<in> rt_domain S. runtimes S c = bw_rt_runtime (bw S))"

inductive runtime_reach :: "('c, 'x, 'e) senv_scheme \<Rightarrow> ('c, 'x) smp \<Rightarrow> bool" for E where
  boot: "runtime_boot S \<Longrightarrow> runtime_reach E S"
| step: "runtime_reach E S \<Longrightarrow> runtime_step E S S' \<Longrightarrow> runtime_reach E S'"

lemma runtime_boot_inv: "runtime_boot S \<Longrightarrow> runtime_inv S"
proof -
  assume b: "runtime_boot S"
  then have "enabled_cpus (rt_domain S) (runtimes S) =
      (if bw_rt_runtime (bw S) = RUNTIME_INF then {} else rt_domain S)"
    by (auto simp: runtime_boot_def enabled_cpus_def)
  moreover have "runtime_total (rt_domain S) (runtimes S) = int (card (rt_domain S)) * amount (bw_rt_runtime (bw S))"
    using b by (simp add: runtime_boot_def runtime_total_def)
  ultimately show ?thesis using b by (simp add: runtime_inv_def runtime_boot_def amount_def)
qed

lemma run_inv:
  assumes "runtime_inv S" "uint t < 2 ^ 63"
  shows "runtime_inv (upd_rtr S c (\<lambda>r. r\<lparr>rt_time := t, rt_throttled := b\<rparr>))" (is "runtime_inv ?S")
proof (rule runtime_inv_change [of S])
  have "runtimes ?S = runtimes S" by (simp add: runtimes_def fun_eq_iff)
  then show "bw_rt_runtime (bw S) = RUNTIME_INF \<Longrightarrow> enabled_cpus (rt_domain S) (runtimes ?S) = {}"
    "runtime_total (rt_domain S) (runtimes ?S) =
       int (card (enabled_cpus (rt_domain S) (runtimes ?S))) * uint (bw_rt_runtime (bw S))"
    using assms(1) by (simp_all add: runtime_inv_def)
qed (use assms in \<open>auto simp: runtime_inv_def runtime_bounds_def\<close>)

lemma runtime_reach_inv: "runtime_reach E S \<Longrightarrow> runtime_inv S"
proof (induction rule: runtime_reach.induct)
  case (step S S')
  from step.hyps(2) step.IH show ?case
  proof cases
    case (disable c)
    then show ?thesis using disable_runtime_ok [OF step.IH] by fastforce
  next
    case (sysctl S1 r p)
    have "runtime_inv S1" using step.IH unfolding sysctl(2)
      by (rule_tac runtime_inv_change [of S]) (auto simp: runtime_inv_def runtime_bounds_def runtimes_def [abs_def])
    then show ?thesis using sysctl sysctl_inv by blast
  qed (auto intro: run_inv balance_runtime_inv(1) enable_runtime_inv)
qed (rule runtime_boot_inv)


text \<open>Three processors: the first uses up its runtime and borrows; it can be disabled.\<close>

definition borrow_demo :: "(cpu \<Rightarrow> int, unit) smp" where
  "borrow_demo = balance_runtime (demo_env False) 0
     (upd_rtr (blank_smp 3) 0 (\<lambda>r. r\<lparr>rt_time := 980000000, rt_throttled := False\<rparr>))"

lemma blank_runtime_boot: "runtime_boot (blank_smp 3)"
  by (auto simp: runtime_boot_def runtime_bounds_def rt_domain_def runtimes_def blank_smp_def blank_smp_rq_def
      blank_smp_rt_rq_def blank_kern_def rt_rq.defs word_le_def)

lemma borrow_demo_reach: "runtime_reach (demo_env False) borrow_demo"
proof -
  let ?S = "upd_rtr (blank_smp 3) 0 (\<lambda>r. r\<lparr>rt_time := 980000000, rt_throttled := False\<rparr>)"
  have D: "0 \<in> rt_domain (blank_smp 3)" "0 \<in> rt_domain ?S" by (simp_all add: rt_domain_def blank_smp_def)
  have "runtime_reach (demo_env False) ?S"
    by (rule runtime_reach.step [OF runtime_reach.boot [OF blank_runtime_boot] runtime_step.run [OF D(1)]]) simp
  from runtime_reach.step [OF this runtime_step.borrow [OF D(2)]] show ?thesis by (simp only: borrow_demo_def)
qed


end
