(* ===== verification/Smp_Rt.thy ===== *)
theory Smp_Rt
  imports Smp_Runtime
begin

text \<open>
  The real-time class with several processors, \<open>kernel/sched/rt.c\<close> with \<open>CONFIG_SMP\<close> and without
  real-time groups. Every processor keeps, beside its queues, the list of its pushable tasks (queued
  tasks that may run elsewhere and are not running), the best priorities of its queued and of its
  pushable tasks, and whether it is overloaded; the root domain keeps the mask and the number of the
  overloaded processors. A processor with too many tasks pushes the best of them to a processor that
  runs something less important (\<open>push_rt_task\<close>); one that is about to run something less important
  than before pulls tasks from others (\<open>pull_rt_task\<close>), or asks them by an interrupt to push.

  A list of priority nodes (\<open>struct plist\<close>) is the list of its nodes, sorted by priority and in
  order of insertion among equals. The operations of this theory take the processor whose run queue
  they work on.
\<close>


section \<open>Overload\<close>

definition need_pull_rt_task :: "cpu \<Rightarrow> pid \<Rightarrow> ('c, 'x) smp \<Rightarrow> bool" where
  "need_pull_rt_task c prev S \<longleftrightarrow> highest_curr (rtr S c) > prio (tk S prev)"

definition rt_overloaded :: "('c, 'x) smp \<Rightarrow> int" where
  "rt_overloaded S = rto_count (rd S)"

definition rt_set_overload :: "cpu \<Rightarrow> ('c, 'x) smp \<Rightarrow> ('c, 'x) smp" where
  "rt_set_overload c S =
     (if \<not> q_online (rqs S c) then S
      else upd_rd S (\<lambda>d. d\<lparr>rto_mask := (rto_mask d)(c := True), rto_count := rto_count d + 1\<rparr>))"

definition rt_clear_overload :: "cpu \<Rightarrow> ('c, 'x) smp \<Rightarrow> ('c, 'x) smp" where
  "rt_clear_overload c S =
     (if \<not> q_online (rqs S c) then S
      else upd_rd S (\<lambda>d. d\<lparr>rto_count := rto_count d - 1, rto_mask := (rto_mask d)(c := False)\<rparr>))"

definition update_rt_migration :: "cpu \<Rightarrow> ('c, 'x) smp \<Rightarrow> ('c, 'x) smp" where
  "update_rt_migration c S =
     (if rt_nr_migratory (rtr S c) \<noteq> 0 \<and> rt_nr_total (rtr S c) > 1 then
        if \<not> is_overloaded (rtr S c)
        then upd_rtr (rt_set_overload c S) c (\<lambda>r. r\<lparr>is_overloaded := True\<rparr>) else S
      else if is_overloaded (rtr S c)
      then upd_rtr (rt_clear_overload c S) c (\<lambda>r. r\<lparr>is_overloaded := False\<rparr>)
      else S)"

definition inc_rt_migration :: "cpu \<Rightarrow> pid \<Rightarrow> ('c, 'x) smp \<Rightarrow> ('c, 'x) smp" where
  "inc_rt_migration c p S =
     (let S = upd_rtr S c (\<lambda>r. r\<lparr>rt_nr_total := rt_nr_total r + 1\<rparr>);
          S = (if nr_cpus_allowed (tk S p) > 1
               then upd_rtr S c (\<lambda>r. r\<lparr>rt_nr_migratory := rt_nr_migratory r + 1\<rparr>) else S)
      in update_rt_migration c S)"

definition dec_rt_migration :: "cpu \<Rightarrow> pid \<Rightarrow> ('c, 'x) smp \<Rightarrow> ('c, 'x) smp" where
  "dec_rt_migration c p S =
     (let S = upd_rtr S c (\<lambda>r. r\<lparr>rt_nr_total := rt_nr_total r - 1\<rparr>);
          S = (if nr_cpus_allowed (tk S p) > 1
               then upd_rtr S c (\<lambda>r. r\<lparr>rt_nr_migratory := rt_nr_migratory r - 1\<rparr>) else S)
      in update_rt_migration c S)"


section \<open>Pushable tasks\<close>

fun plist_add :: "int \<times> pid \<Rightarrow> (int \<times> pid) list \<Rightarrow> (int \<times> pid) list" where
  "plist_add (pr, p) [] = [(pr, p)]"
| "plist_add (pr, p) ((qr, q) # ns) =
     (if pr < qr then (pr, p) # (qr, q) # ns else (qr, q) # plist_add (pr, p) ns)"

definition plist_del :: "pid \<Rightarrow> (int \<times> pid) list \<Rightarrow> (int \<times> pid) list" where
  "plist_del p ns = filter (\<lambda>n. snd n \<noteq> p) ns"

definition has_pushable_tasks :: "cpu \<Rightarrow> ('c, 'x) smp \<Rightarrow> bool" where
  "has_pushable_tasks c S \<longleftrightarrow> pushable_tasks (rtr S c) \<noteq> []"

definition rt_queue_push_tasks :: "cpu \<Rightarrow> ('c, 'x) smp \<Rightarrow> ('c, 'x) smp" where
  "rt_queue_push_tasks c S =
     (if \<not> has_pushable_tasks c S then S else queue_balance_callback c rt_push_head S)"

definition rt_queue_pull_task :: "cpu \<Rightarrow> ('c, 'x) smp \<Rightarrow> ('c, 'x) smp" where
  "rt_queue_pull_task c S = queue_balance_callback c rt_pull_head S"

definition enqueue_pushable_task :: "cpu \<Rightarrow> pid \<Rightarrow> ('c, 'x) smp \<Rightarrow> ('c, 'x) smp" where
  "enqueue_pushable_task c p S =
     (let pr = prio (tk S p);
          S = upd_rtr S c (\<lambda>r. r\<lparr>pushable_tasks := plist_add (pr, p) (plist_del p (pushable_tasks r))\<rparr>)
      in if pr < highest_next (rtr S c) then upd_rtr S c (\<lambda>r. r\<lparr>highest_next := pr\<rparr>) else S)"

definition dequeue_pushable_task :: "cpu \<Rightarrow> pid \<Rightarrow> ('c, 'x) smp \<Rightarrow> ('c, 'x) smp" where
  "dequeue_pushable_task c p S =
     (let S = upd_rtr S c (\<lambda>r. r\<lparr>pushable_tasks := plist_del p (pushable_tasks r)\<rparr>)
      in case pushable_tasks (rtr S c) of
           n # _ \<Rightarrow> upd_rtr S c (\<lambda>r. r\<lparr>highest_next := prio (tk S (snd n))\<rparr>)
         | [] \<Rightarrow> upd_rtr S c (\<lambda>r. r\<lparr>highest_next := MAX_RT_PRIO\<rparr>))"


section \<open>The best priority\<close>

definition rd_cpupri_set :: "('c, 'x, 'e) senv_scheme \<Rightarrow> cpu \<Rightarrow> int \<Rightarrow> ('c, 'x) smp \<Rightarrow> ('c, 'x) smp" where
  "rd_cpupri_set E c pr S = upd_rd S (\<lambda>d. d\<lparr>cpupri := cpupri_set E (cpupri d) c pr\<rparr>)"

definition inc_rt_prio_smp ::
  "('c, 'x, 'e) senv_scheme \<Rightarrow> cpu \<Rightarrow> int \<Rightarrow> int \<Rightarrow> ('c, 'x) smp \<Rightarrow> ('c, 'x) smp" where
  "inc_rt_prio_smp E c pr prev_prio S =
     (if q_online (rqs S c) \<and> pr < prev_prio then rd_cpupri_set E c pr S else S)"

definition dec_rt_prio_smp ::
  "('c, 'x, 'e) senv_scheme \<Rightarrow> cpu \<Rightarrow> int \<Rightarrow> int \<Rightarrow> ('c, 'x) smp \<Rightarrow> ('c, 'x) smp" where
  "dec_rt_prio_smp E c pr prev_prio S =
     (if q_online (rqs S c) \<and> highest_curr (rtr S c) \<noteq> prev_prio
      then rd_cpupri_set E c (highest_curr (rtr S c)) S else S)"

definition inc_rt_prio :: "('c, 'x, 'e) senv_scheme \<Rightarrow> cpu \<Rightarrow> int \<Rightarrow> ('c, 'x) smp \<Rightarrow> ('c, 'x) smp" where
  "inc_rt_prio E c pr S =
     (let prev_prio = highest_curr (rtr S c);
          S = (if pr < prev_prio then upd_rtr S c (\<lambda>r. r\<lparr>highest_curr := pr\<rparr>) else S)
      in inc_rt_prio_smp E c pr prev_prio S)"

definition dec_rt_prio :: "('c, 'x, 'e) senv_scheme \<Rightarrow> cpu \<Rightarrow> int \<Rightarrow> ('c, 'x) smp \<Rightarrow> ('c, 'x) smp" where
  "dec_rt_prio E c pr S =
     (let prev_prio = highest_curr (rtr S c);
          S = (if rt_nr_running (rtr S c) \<noteq> 0
               then if pr = prev_prio
                    then upd_rtr S c (\<lambda>r. r\<lparr>highest_curr := int (find_first_bit (bitmap (active r)))\<rparr>)
                    else S
               else upd_rtr S c (\<lambda>r. r\<lparr>highest_curr := MAX_RT_PRIO\<rparr>))
      in dec_rt_prio_smp E c pr prev_prio S)"


section \<open>Enqueueing and dequeueing\<close>

definition smp_start_rt_bandwidth :: "('c, 'x) smp \<Rightarrow> ('c, 'x) smp" where
  "smp_start_rt_bandwidth S =
     (if \<not> smp_rt_bandwidth_enabled S \<or> bw_rt_runtime (bw S) = RUNTIME_INF then S
      else if \<not> rt_period_active (bw S) then S\<lparr>bw := (bw S)\<lparr>rt_period_active := True\<rparr>\<rparr> else S)"

definition smp_rr_nr_running :: "('c, 'x) smp \<Rightarrow> pid \<Rightarrow> u32" where
  "smp_rr_nr_running S p = (if policy (tk S p) = SCHED_RR then 1 else 0)"

definition smp_inc_rt_tasks :: "('c, 'x, 'e) senv_scheme \<Rightarrow> cpu \<Rightarrow> pid \<Rightarrow> ('c, 'x) smp \<Rightarrow> ('c, 'x) smp" where
  "smp_inc_rt_tasks E c p S =
     (let pr = prio (tk S p); rr = smp_rr_nr_running S p;
          S = upd_rtr S c (\<lambda>r. r\<lparr>rt_nr_running := rt_nr_running r + 1, rr_nr_running := rr_nr_running r + rr\<rparr>)
      in smp_start_rt_bandwidth (inc_rt_migration c p (inc_rt_prio E c pr S)))"

definition smp_dec_rt_tasks :: "('c, 'x, 'e) senv_scheme \<Rightarrow> cpu \<Rightarrow> pid \<Rightarrow> ('c, 'x) smp \<Rightarrow> ('c, 'x) smp" where
  "smp_dec_rt_tasks E c p S =
     (let pr = prio (tk S p); rr = smp_rr_nr_running S p;
          S = upd_rtr S c (\<lambda>r. r\<lparr>rt_nr_running := rt_nr_running r - 1, rr_nr_running := rr_nr_running r - rr\<rparr>)
      in dec_rt_migration c p (dec_rt_prio E c pr S))"

abbreviation cpu_queues :: "('c, 'x) smp \<Rightarrow> cpu \<Rightarrow> pid qarray" where
  "cpu_queues S c \<equiv> rt_queue (active (rtr S c))"

abbreviation cpu_bitmap :: "('c, 'x) smp \<Rightarrow> cpu \<Rightarrow> bool list" where
  "cpu_bitmap S c \<equiv> bitmap (active (rtr S c))"

abbreviation upd_tk_rt :: "('c, 'x) smp \<Rightarrow> pid \<Rightarrow> (sched_rt_entity \<Rightarrow> sched_rt_entity) \<Rightarrow> ('c, 'x) smp" where
  "upd_tk_rt S p f \<equiv> upd_tk S p (\<lambda>t. t\<lparr>rt := f (rt t)\<rparr>)"

definition set_array :: "cpu \<Rightarrow> pid qarray \<Rightarrow> bool list \<Rightarrow> ('c, 'x) smp \<Rightarrow> ('c, 'x) smp" where
  "set_array c qs bs S = upd_rtr S c (\<lambda>r. r\<lparr>active := (active r)\<lparr>rt_queue := qs, bitmap := bs\<rparr>\<rparr>)"

definition smp_delist_rt_entity :: "cpu \<Rightarrow> pid \<Rightarrow> ('c, 'x) smp \<Rightarrow> ('c, 'x) smp option" where
  "smp_delist_rt_entity c p S =
     (let pr = prio (tk S p)
      in if \<not> in_range pr (cpu_queues S c) then None
         else
           let qs = list_del_init p (cpu_queues S c);
               bs = (if qs ! nat pr = [] then (cpu_bitmap S c)[nat pr := False] else cpu_bitmap S c)
           in Some (upd_tk_rt (set_array c qs bs S) p (\<lambda>e. e\<lparr>rt_on_list := False\<rparr>)))"

definition smp_list_rt_entity :: "cpu \<Rightarrow> pid \<Rightarrow> int \<Rightarrow> ('c, 'x) smp \<Rightarrow> ('c, 'x) smp option" where
  "smp_list_rt_entity c p flags S = do {
     let pr = prio (tk S p);
     qs \<leftarrow> (if flags AND ENQUEUE_HEAD \<noteq> 0 then list_add p pr (cpu_queues S c)
           else list_add_tail p pr (cpu_queues S c));
     Some (upd_tk_rt (set_array c qs ((cpu_bitmap S c)[nat pr := True]) S) p (\<lambda>e. e\<lparr>rt_on_list := True\<rparr>))
   }"

definition smp_enqueue_rt_entity_self ::
  "('c, 'x, 'e) senv_scheme \<Rightarrow> cpu \<Rightarrow> pid \<Rightarrow> int \<Rightarrow> ('c, 'x) smp \<Rightarrow> ('c, 'x) smp option" where
  "smp_enqueue_rt_entity_self E c p flags S = do {
     S \<leftarrow> (if move_entity flags then smp_list_rt_entity c p flags S else Some S);
     Some (smp_inc_rt_tasks E c p (upd_tk_rt S p (\<lambda>e. e\<lparr>rt_on_rq := True\<rparr>)))
   }"

definition smp_dequeue_rt_entity_self ::
  "('c, 'x, 'e) senv_scheme \<Rightarrow> cpu \<Rightarrow> pid \<Rightarrow> int \<Rightarrow> ('c, 'x) smp \<Rightarrow> ('c, 'x) smp option" where
  "smp_dequeue_rt_entity_self E c p flags S = do {
     S \<leftarrow> (if move_entity flags then smp_delist_rt_entity c p S else Some S);
     Some (smp_dec_rt_tasks E c p (upd_tk_rt S p (\<lambda>e. e\<lparr>rt_on_rq := False\<rparr>)))
   }"

definition smp_dequeue_rt_stack ::
  "('c, 'x, 'e) senv_scheme \<Rightarrow> cpu \<Rightarrow> pid \<Rightarrow> int \<Rightarrow> ('c, 'x) smp \<Rightarrow> ('c, 'x) smp option" where
  "smp_dequeue_rt_stack E c p flags S = do {
     S \<leftarrow> smp_dequeue_top_rt_rq c S;
     (if rt_on_rq (rt (tk S p)) then smp_dequeue_rt_entity_self E c p flags S else Some S)
   }"

definition smp_enqueue_rt_entity ::
  "('c, 'x, 'e) senv_scheme \<Rightarrow> cpu \<Rightarrow> pid \<Rightarrow> int \<Rightarrow> ('c, 'x) smp \<Rightarrow> ('c, 'x) smp option" where
  "smp_enqueue_rt_entity E c p flags S = do {
     S \<leftarrow> smp_dequeue_rt_stack E c p flags S;
     S \<leftarrow> smp_enqueue_rt_entity_self E c p flags S;
     Some (smp_enqueue_top_rt_rq c S)
   }"

definition smp_dequeue_rt_entity ::
  "('c, 'x, 'e) senv_scheme \<Rightarrow> cpu \<Rightarrow> pid \<Rightarrow> int \<Rightarrow> ('c, 'x) smp \<Rightarrow> ('c, 'x) smp option" where
  "smp_dequeue_rt_entity E c p flags S = do {
     S \<leftarrow> smp_dequeue_rt_stack E c p flags S;
     Some (smp_enqueue_top_rt_rq c S)
   }"

text \<open>The accounting of the running task now balances the runtime before it throttles.\<close>

definition smp_rt_runtime_exceeded ::
  "('c, 'x, 'e) senv_scheme \<Rightarrow> cpu \<Rightarrow> ('c, 'x) smp \<Rightarrow> (bool \<times> ('c, 'x) smp) option" where
  "smp_rt_runtime_exceeded E c S =
     (if rt_throttled (rtr S c) then Some (True, S)
      else if rt_runtime (rtr S c) \<ge> rt_period (bw S) then Some (False, S)
      else
        let S = balance_runtime E c S
        in if rt_runtime (rtr S c) = RUNTIME_INF then Some (False, S)
           else if rt_time (rtr S c) > rt_runtime (rtr S c) then
             if bw_rt_runtime (bw S) \<noteq> 0 then do {
               S \<leftarrow> smp_dequeue_top_rt_rq c (upd_rtr S c (\<lambda>r. r\<lparr>rt_throttled := True\<rparr>));
               Some (True, S)
             } else Some (False, upd_rtr S c (\<lambda>r. r\<lparr>rt_time := 0\<rparr>))
           else Some (False, S))"

definition smp_update_curr_rt ::
  "('c, 'x, 'e) senv_scheme \<Rightarrow> cpu \<Rightarrow> ('c, 'x) smp \<Rightarrow> ('c, 'x) smp option" where
  "smp_update_curr_rt E c S =
     (let cur = q_curr (rqs S c)
      in if sched_class (tk S cur) \<noteq> RtClass then Some S
         else
           let now = q_clock_task (rqs S c); delta_exec = now - exec_start (se (tk S cur))
           in if sint delta_exec \<le> 0 then Some S
              else
                let S = upd_tk S cur (\<lambda>t. t\<lparr>se := (se t)\<lparr>
                          sum_exec_runtime := sum_exec_runtime (se t) + delta_exec, exec_start := now\<rparr>\<rparr>)
                in if \<not> smp_rt_bandwidth_enabled S then Some S
                   else if rt_runtime (rtr S c) \<noteq> RUNTIME_INF then do {
                     (ex, S) \<leftarrow> smp_rt_runtime_exceeded E c
                                 (upd_rtr S c (\<lambda>r. r\<lparr>rt_time := rt_time r + delta_exec\<rparr>));
                     Some (if ex then smp_resched_curr c S else S)
                   } else Some S)"

definition smp_enqueue_task_rt ::
  "('c, 'x, 'e) senv_scheme \<Rightarrow> cpu \<Rightarrow> pid \<Rightarrow> int \<Rightarrow> ('c, 'x) smp \<Rightarrow> ('c, 'x) smp option" where
  "smp_enqueue_task_rt E c p flags S = do {
     let S = (if flags AND ENQUEUE_WAKEUP \<noteq> 0 then upd_tk_rt S p (\<lambda>e. e\<lparr>rt_timeout := 0\<rparr>) else S);
     S \<leftarrow> smp_enqueue_rt_entity E c p flags S;
     Some (if \<not> smp_task_current S c p \<and> nr_cpus_allowed (tk S p) > 1
           then enqueue_pushable_task c p S else S)
   }"

definition smp_dequeue_task_rt ::
  "('c, 'x, 'e) senv_scheme \<Rightarrow> cpu \<Rightarrow> pid \<Rightarrow> int \<Rightarrow> ('c, 'x) smp \<Rightarrow> ('c, 'x) smp option" where
  "smp_dequeue_task_rt E c p flags S = do {
     S \<leftarrow> smp_update_curr_rt E c S;
     S \<leftarrow> smp_dequeue_rt_entity E c p flags S;
     Some (dequeue_pushable_task c p S)
   }"

section \<open>Bits and nodes\<close>

lemma find_first_bit_le: "i < length bs \<Longrightarrow> bs ! i \<Longrightarrow> find_first_bit bs \<le> i"
proof (induction bs arbitrary: i)
  case (Cons b bs)
  then show ?case by (cases i) auto
qed simp

lemma find_first_bit_set:
  "i < length bs \<Longrightarrow> find_first_bit (bs[i := True]) = min i (find_first_bit bs)"
proof (induction bs arbitrary: i)
  case (Cons b bs)
  then show ?case by (cases i) auto
qed simp

lemma find_first_bit_clear:
  "i \<noteq> find_first_bit bs \<Longrightarrow> find_first_bit (bs[i := False]) = find_first_bit bs"
proof (induction bs arbitrary: i)
  case (Cons b bs)
  then show ?case by (cases i) (auto split: if_splits)
qed simp

lemma set_plist_add [simp]: "set (plist_add n ns) = insert n (set ns)"
  by (induction n ns rule: plist_add.induct) auto

lemma sorted_plist_add: "sorted (map fst ns) \<Longrightarrow> sorted (map fst (plist_add n ns))"
  by (induction n ns rule: plist_add.induct) fastforce+

lemma distinct_plist_add:
  "distinct (map snd ns) \<Longrightarrow> snd n \<notin> snd ` set ns \<Longrightarrow> distinct (map snd (plist_add n ns))"
  by (induction n ns rule: plist_add.induct) auto

lemma plist_add_hd: "plist_add n ns \<noteq> []" "fst (hd (plist_add n ns)) = (case ns of [] \<Rightarrow> fst n | m # _ \<Rightarrow> min (fst n) (fst m))"
  by (induction n ns rule: plist_add.induct) auto

lemma set_plist_del [simp]: "set (plist_del p ns) = {n \<in> set ns. snd n \<noteq> p}"
  by (auto simp: plist_del_def)

lemma plist_del_keeps:
  "sorted (map fst ns) \<Longrightarrow> sorted (map fst (plist_del p ns))"
  "distinct (map snd ns) \<Longrightarrow> distinct (map snd (plist_del p ns))"
  by (auto simp: plist_del_def sorted_filter distinct_map_filter)

lemma plist_del_absent: "p \<notin> snd ` set ns \<Longrightarrow> plist_del p ns = ns"
  by (auto simp: plist_del_def filter_id_conv)


section \<open>The invariant\<close>

text \<open>
  The queues of a processor: as in \<open>Sched_Rt\<close>, and the counters, the best priority and the overload
  flag agree with them. Only the priorities of the tasks and the number of their processors matter.
\<close>

definition migratable :: "smp_task \<Rightarrow> bool" where
  "migratable t \<longleftrightarrow> nr_cpus_allowed t > 1"

definition arr_wf :: "(pid \<Rightarrow> smp_task) \<Rightarrow> smp_rt_rq \<Rightarrow> bool" where
  "arr_wf T r \<longleftrightarrow>
     (let qs = rt_queue (active r); bs = bitmap (active r) in
      length qs = 100 \<and> levelled (\<lambda>p. nat (prio (T p))) qs \<and>
      (\<forall>p. linked p qs \<longrightarrow> rt_prio_ok (prio (T p)) \<and> p < max_tasks) \<and>
      length bs = 101 \<and> bs ! 100 \<and> (\<forall>i < 100. bs ! i \<longleftrightarrow> qs ! i \<noteq> []) \<and>
      rt_nr_running r = of_nat (length (concat qs)) \<and> rt_nr_total r = of_nat (length (concat qs)) \<and>
      rt_nr_migratory r = of_nat (length (filter (\<lambda>p. migratable (T p)) (concat qs))) \<and>
      highest_curr r = int (find_first_bit bs) \<and>
      (is_overloaded r \<longleftrightarrow> rt_nr_migratory r \<noteq> 0 \<and> rt_nr_total r > 1))"

text \<open>The list of pushable tasks holds the tasks \<open>X\<close>.\<close>

definition push_wf :: "(pid \<Rightarrow> smp_task) \<Rightarrow> smp_rt_rq \<Rightarrow> pid set \<Rightarrow> bool" where
  "push_wf T r X \<longleftrightarrow>
     (let ns = pushable_tasks r in
      sorted (map fst ns) \<and> distinct (map snd ns) \<and> (\<forall>n \<in> set ns. fst n = prio (T (snd n))) \<and>
      snd ` set ns = X \<and> highest_next r = (case ns of [] \<Rightarrow> 100 | n # _ \<Rightarrow> fst n))"

definition cpu_queued :: "('c, 'x) smp \<Rightarrow> cpu \<Rightarrow> pid set" where
  "cpu_queued S c = {p. linked p (cpu_queues S c)}"

definition pushables :: "('c, 'x) smp \<Rightarrow> cpu \<Rightarrow> pid set" where
  "pushables S c = {p \<in> cpu_queued S c. migratable (tk S p) \<and> p \<noteq> q_curr (rqs S c)}"

text \<open>The class in \<open>nr_running\<close>, and the tasks of the other classes there.\<close>

definition cpu_others :: "smp_rq \<Rightarrow> u32" where
  "cpu_others q = q_nr_running q - (if rt_queued (q_rt q) then rt_nr_running (q_rt q) else 0)"

definition top_wf :: "smp_rq \<Rightarrow> bool" where
  "top_wf q \<longleftrightarrow> unat (cpu_others q) < 2 ^ 31 \<and> (rt_queued (q_rt q) \<longrightarrow> rt_nr_running (q_rt q) \<noteq> 0)"

text \<open>A task is marked as queued exactly when it is on the queues of its processor, and on no others.\<close>

definition member_wf :: "('c, 'x) smp \<Rightarrow> bool" where
  "member_wf S \<longleftrightarrow> (\<forall>p. rt_on_rq (rt (tk S p)) \<longleftrightarrow> p \<in> cpu_queued S (task_cpu (tk S p))) \<and>
     (\<forall>c p. p \<in> cpu_queued S c \<longrightarrow> task_cpu (tk S p) = c)"

text \<open>The root domain knows the overloaded processors.\<close>

definition counts_mask :: "cpumask \<Rightarrow> int \<Rightarrow> bool" where
  "counts_mask m n \<longleftrightarrow> finite {c. m c} \<and> n = int (card {c. m c})"

definition rto_wf :: "('c, 'x) smp \<Rightarrow> bool" where
  "rto_wf S \<longleftrightarrow> (\<forall>c. rto_mask (rd S) c \<longleftrightarrow> is_overloaded (rtr S c) \<and> q_online (rqs S c)) \<and>
     counts_mask (rto_mask (rd S)) (rto_count (rd S))"

definition smp_inv :: "('c, 'x) smp \<Rightarrow> bool" where
  "smp_inv S \<longleftrightarrow> (\<forall>c. arr_wf (tk S) (rtr S c) \<and> push_wf (tk S) (rtr S c) (pushables S c) \<and> top_wf (rqs S c)) \<and>
     member_wf S \<and> rto_wf S"

lemma arr_wfD:
  assumes "arr_wf T r"
  shows "length (rt_queue (active r)) = 100" "levelled (\<lambda>p. nat (prio (T p))) (rt_queue (active r))"
    "distinct (concat (rt_queue (active r)))"
    "length (bitmap (active r)) = 101" "bitmap (active r) ! 100"
    "i < 100 \<Longrightarrow> bitmap (active r) ! i \<longleftrightarrow> rt_queue (active r) ! i \<noteq> []"
    "rt_nr_running r = of_nat (length (concat (rt_queue (active r))))"
    "rt_nr_total r = of_nat (length (concat (rt_queue (active r))))"
    "rt_nr_migratory r = of_nat (length (filter (\<lambda>p. migratable (T p)) (concat (rt_queue (active r)))))"
    "highest_curr r = int (find_first_bit (bitmap (active r)))"
    "is_overloaded r \<longleftrightarrow> rt_nr_migratory r \<noteq> 0 \<and> rt_nr_total r > 1"
    "linked p (rt_queue (active r)) \<Longrightarrow> rt_prio_ok (prio (T p)) \<and> p < max_tasks"
  using assms unfolding arr_wf_def Let_def by (blast intro: levelled_distinct)+

lemma arr_wf_cong:
  assumes "\<And>p. linked p (rt_queue (active r)) \<Longrightarrow> prio (T' p) = prio (T p)"
    "\<And>p. linked p (rt_queue (active r)) \<Longrightarrow> nr_cpus_allowed (T' p) = nr_cpus_allowed (T p)"
  shows "arr_wf T' r = arr_wf T r"
proof -
  have "levelled (\<lambda>p. nat (prio (T' p))) (rt_queue (active r)) = levelled (\<lambda>p. nat (prio (T p))) (rt_queue (active r))"
    by (rule levelled_cong) (simp add: assms)
  moreover have "filter (\<lambda>p. migratable (T' p)) (concat (rt_queue (active r))) =
      filter (\<lambda>p. migratable (T p)) (concat (rt_queue (active r)))"
    by (rule filter_cong) (auto simp: migratable_def linked_iff_concat [symmetric] assms simp del: set_concat)
  ultimately show ?thesis using assms(1) by (simp add: arr_wf_def Let_def cong: imp_cong)
qed

lemma push_wf_cong:
  assumes "\<And>p. p \<in> X \<Longrightarrow> prio (T' p) = prio (T p)"
  shows "push_wf T' r X = push_wf T r X"
proof -
  have "(\<forall>n \<in> set (pushable_tasks r). fst n = prio (T' (snd n))) \<longleftrightarrow>
      (\<forall>n \<in> set (pushable_tasks r). fst n = prio (T (snd n)))" if "snd ` set (pushable_tasks r) = X"
    using that assms by (metis image_eqI)
  then show ?thesis unfolding push_wf_def Let_def by blast
qed

text \<open>No more tasks than task numbers: the counters do not wrap around.\<close>

lemma arr_count:
  assumes "arr_wf T r"
  shows "length (concat (rt_queue (active r))) \<le> max_tasks"
    "unat (rt_nr_running r) = length (concat (rt_queue (active r)))"
    "unat (rt_nr_total r) = length (concat (rt_queue (active r)))"
    "unat (rt_nr_migratory r) = length (filter (\<lambda>p. migratable (T p)) (concat (rt_queue (active r))))"
proof -
  let ?l = "concat (rt_queue (active r))"
  have "set ?l \<subseteq> {..<max_tasks}"
    using arr_wfD(12) [OF assms] by (auto simp: linked_iff_concat simp del: set_concat)
  then have "card (set ?l) \<le> max_tasks" by (metis card_lessThan card_mono finite_lessThan)
  then show le: "length ?l \<le> max_tasks" using distinct_card [OF arr_wfD(3) [OF assms]] by simp
  then have "length ?l < 2 ^ 32" by (simp add: max_tasks_def del: length_concat)
  moreover from le have "length (filter (\<lambda>p. migratable (T p)) ?l) \<le> max_tasks"
    using length_filter_le order_trans by blast
  then have "length (filter (\<lambda>p. migratable (T p)) ?l) < 2 ^ 64"
    by (simp add: max_tasks_def del: length_concat filter_concat)
  ultimately show "unat (rt_nr_running r) = length ?l" "unat (rt_nr_total r) = length ?l"
    "unat (rt_nr_migratory r) = length (filter (\<lambda>p. migratable (T p)) ?l)"
    unfolding arr_wfD(7-9) [OF assms] by (simp_all add: unat_of_nat del: length_concat filter_concat)
qed

lemma length_zero_linked: "length (concat qs) = 0 \<longleftrightarrow> {p. linked p qs} = {}"
proof -
  have "{p. linked p qs} = set (concat qs)" by (auto simp: linked_iff_concat simp del: set_concat)
  then show ?thesis by (metis length_0_conv set_empty)
qed

lemma arr_empty: "arr_wf T r \<Longrightarrow> rt_nr_running r = 0 \<longleftrightarrow> {p. linked p (rt_queue (active r))} = {}"
  using arr_count(2) [of T r] length_zero_linked [of "rt_queue (active r)"] by (metis unat_eq_zero)

text \<open>What the overload flag means.\<close>

lemma overloaded_iff:
  assumes "arr_wf T r"
  shows "is_overloaded r \<longleftrightarrow> (\<exists>p. linked p (rt_queue (active r)) \<and> migratable (T p)) \<and>
    1 < card {p. linked p (rt_queue (active r))}"
proof -
  let ?l = "concat (rt_queue (active r))"
  have s: "{p. linked p (rt_queue (active r))} = set ?l" by (auto simp: linked_iff_concat simp del: set_concat)
  have "rt_nr_total r > 1 \<longleftrightarrow> 1 < length ?l" using arr_count(3) [OF assms] by (simp add: word_less_nat_alt del: length_concat)
  also have "\<dots> \<longleftrightarrow> 1 < card (set ?l)" using distinct_card [OF arr_wfD(3) [OF assms]] by simp
  finally have t: "rt_nr_total r > 1 \<longleftrightarrow> 1 < card (set ?l)" .
  have "rt_nr_migratory r \<noteq> 0 \<longleftrightarrow> length (filter (\<lambda>p. migratable (T p)) ?l) \<noteq> 0"
    using arr_count(4) [OF assms] by (metis unat_eq_zero)
  also have "\<dots> \<longleftrightarrow> (\<exists>p \<in> set ?l. migratable (T p))" by (metis filter_empty_conv length_0_conv)
  finally have m: "rt_nr_migratory r \<noteq> 0 \<longleftrightarrow> (\<exists>p. linked p (rt_queue (active r)) \<and> migratable (T p))"
    unfolding linked_iff_concat by blast
  show ?thesis unfolding arr_wfD(11) [OF assms] m t s ..
qed

text \<open>What the best priority means.\<close>

lemma highest_curr_iff:
  assumes "arr_wf T r"
  shows "linked p (rt_queue (active r)) \<Longrightarrow> highest_curr r \<le> prio (T p)" "highest_curr r \<le> 100"
    "highest_curr r < 100 \<Longrightarrow> \<exists>p. linked p (rt_queue (active r)) \<and> prio (T p) = highest_curr r"
proof -
  let ?qs = "rt_queue (active r)" and ?bs = "bitmap (active r)"
  show "highest_curr r \<le> prio (T p)" if "linked p ?qs"
  proof -
    have pr: "rt_prio_ok (prio (T p))" using arr_wfD(12) [OF assms that] by simp
    have "p \<in> set (?qs ! nat (prio (T p)))" using levelledD(2) [OF arr_wfD(2) [OF assms] that] .
    then have "?bs ! nat (prio (T p))" using arr_wfD(6) [OF assms, of "nat (prio (T p))"] pr by (auto simp: rt_prio_ok_def)
    moreover have "nat (prio (T p)) < length ?bs" using arr_wfD(4) [OF assms] pr by (auto simp: rt_prio_ok_def)
    ultimately have "find_first_bit ?bs \<le> nat (prio (T p))" by (simp add: find_first_bit_le)
    then show ?thesis using arr_wfD(10) [OF assms] pr by (auto simp: rt_prio_ok_def)
  qed
  show "highest_curr r \<le> 100" using find_first_bit_le [of 100 ?bs] arr_wfD(4,5,10) [OF assms] by simp
  show "\<exists>p. linked p ?qs \<and> prio (T p) = highest_curr r" if "highest_curr r < 100"
  proof -
    have b: "find_first_bit ?bs < 100" using that arr_wfD(10) [OF assms] by simp
    have "find_first_bit bs < length bs \<Longrightarrow> bs ! find_first_bit bs" for bs by (induction bs) auto
    then have "?bs ! find_first_bit ?bs" using arr_wfD(4) [OF assms] b by simp
    then have "?qs ! find_first_bit ?bs \<noteq> []" using arr_wfD(6) [OF assms b] by simp
    then obtain p where p: "p \<in> set (?qs ! find_first_bit ?bs)" by (metis last_in_set)
    then have l: "linked p ?qs" using b arr_wfD(1) [OF assms] by (auto intro: linkedI)
    have "nat (prio (T p)) = find_first_bit ?bs" using p b arr_wfD(1,2) [OF assms] by (auto simp: levelled_def)
    then have "prio (T p) = highest_curr r"
      using arr_wfD(12) [OF assms l] arr_wfD(10) [OF assms] by (auto simp: rt_prio_ok_def)
    then show ?thesis using l by blast
  qed
qed

text \<open>Linking and unlinking a task.\<close>

lemma filter_count_add:
  "mset l' = add_mset p (mset l) \<Longrightarrow> length (filter P l') = (if P p then Suc (length (filter P l)) else length (filter P l))"
  by (metis filter_mset_add_mset mset_filter size_add_mset size_mset)

lemma arr_link:
  assumes wf: "arr_wf T r" and nl: "\<not> linked p (rt_queue (active r))"
    and pr: "rt_prio_ok (prio (T p))" "p < max_tasks" and n: "n = nat (prio (T p))"
    and qs: "qs = (rt_queue (active r))[n := rt_queue (active r) ! n @ [p]] \<or>
             qs = (rt_queue (active r))[n := p # rt_queue (active r) ! n]"
    and r': "rt_queue (active r') = qs" "bitmap (active r') = (bitmap (active r))[n := True]"
      "rt_nr_running r' = rt_nr_running r + 1" "rt_nr_total r' = rt_nr_total r + 1"
      "rt_nr_migratory r' = rt_nr_migratory r + (if migratable (T p) then 1 else 0)"
      "highest_curr r' = min (prio (T p)) (highest_curr r)"
      "is_overloaded r' \<longleftrightarrow> rt_nr_migratory r' \<noteq> 0 \<and> rt_nr_total r' > 1"
  shows "arr_wf T r'" "linked q qs \<longleftrightarrow> q = p \<or> linked q (rt_queue (active r))"
proof -
  let ?q = "rt_queue (active r)"
  have n': "n < length ?q" "n < 100" "int n = prio (T p)" using pr arr_wfD(1) [OF wf] by (auto simp: n rt_prio_ok_def)
  have lev: "levelled (\<lambda>p. nat (prio (T p))) qs"
    using qs levelled_add_tail [OF arr_wfD(2) [OF wf] nl] levelled_add_head [OF arr_wfD(2) [OF wf] nl] n' n by auto
  show lk: "linked q qs \<longleftrightarrow> q = p \<or> linked q ?q" for q using qs linked_add [OF n'(1)] by auto
  have ms: "mset (concat qs) = add_mset p (mset (concat ?q))" using qs mset_concat_add [OF n'(1)] by auto
  then have cnt: "length (concat qs) = Suc (length (concat ?q))" by (metis size_add_mset size_mset)
  have bm: "(bitmap (active r))[n := True] ! i \<longleftrightarrow> qs ! i \<noteq> []" if "i < 100" for i
    using arr_wfD(1,4) [OF wf] arr_wfD(6) [OF wf that] that qs n' by (cases "i = n") auto
  have "(bitmap (active r))[n := True] ! 100" "length qs = 100"
    using arr_wfD(1,4,5) [OF wf] n' qs by (auto simp: nth_list_update)
  moreover have "highest_curr r' = int (find_first_bit ((bitmap (active r))[n := True]))"
    using n' arr_wfD(4,10) [OF wf] by (simp add: r' find_first_bit_set of_nat_min)
  moreover have "rt_nr_migratory r' = of_nat (length (filter (\<lambda>p. migratable (T p)) (concat qs)))"
    unfolding r' arr_wfD(9) [OF wf] filter_count_add [OF ms] by (simp add: add.commute del: filter_concat)
  moreover have "rt_nr_running r' = of_nat (length (concat qs))" "rt_nr_total r' = of_nat (length (concat qs))"
    unfolding r' arr_wfD(7,8) [OF wf] cnt by (simp_all add: add.commute del: length_concat)
  ultimately show "arr_wf T r'"
    unfolding arr_wf_def Let_def using lev lk bm pr arr_wfD(4,12) [OF wf] r'(1,2,7) by simp
qed

lemma arr_unlink:
  assumes wf: "arr_wf T r" and l: "linked p (rt_queue (active r))" and n: "n = nat (prio (T p))"
    and r': "rt_queue (active r') = unlink p (rt_queue (active r))"
      "bitmap (active r') = (if unlink p (rt_queue (active r)) ! n = [] then (bitmap (active r))[n := False]
         else bitmap (active r))"
      "rt_nr_running r' = rt_nr_running r - 1" "rt_nr_total r' = rt_nr_total r - 1"
      "rt_nr_migratory r' = rt_nr_migratory r - (if migratable (T p) then 1 else 0)"
      "highest_curr r' = (if rt_nr_running r' = 0 then 100 else if prio (T p) = highest_curr r
         then int (find_first_bit (bitmap (active r'))) else highest_curr r)"
      "is_overloaded r' \<longleftrightarrow> rt_nr_migratory r' \<noteq> 0 \<and> rt_nr_total r' > 1"
  shows "arr_wf T r'" "linked q (unlink p (rt_queue (active r))) \<longleftrightarrow> q \<noteq> p \<and> linked q (rt_queue (active r))"
proof -
  let ?q = "rt_queue (active r)" let ?q' = "unlink p ?q"
  have n': "n < 100" "int n = prio (T p)" using arr_wfD(12) [OF wf l] by (auto simp: n rt_prio_ok_def)
  have d: "distinct (concat ?q)" by (rule arr_wfD(3) [OF wf])
  show lk: "linked q ?q' \<longleftrightarrow> q \<noteq> p \<and> linked q ?q" for q by (rule linked_unlink [OF d])
  have mem: "p \<in> set (concat ?q)" using l by (simp add: linked_iff_concat del: set_concat)
  have ms: "mset (concat ?q) = add_mset p (mset (concat ?q'))"
    using mem by (simp add: remove1_concat [OF d] del: set_concat mset_concat)
  then have cnt: "length (concat ?q) = Suc (length (concat ?q'))" by (metis size_add_mset size_mset)
  have same: "?q' ! i = ?q ! i" if "i < 100" "i \<noteq> n" for i
  proof -
    have "p \<notin> set (?q ! i)" using that arr_wfD(1,2) [OF wf] by (auto simp: levelled_def n)
    then show ?thesis using that arr_wfD(1) [OF wf] by (simp add: remove1_idem)
  qed
  have ne: "?q ! n \<noteq> []" using levelledD(2) [OF arr_wfD(2) [OF wf] l] by (auto simp: n)
  have bm: "bitmap (active r') ! i \<longleftrightarrow> ?q' ! i \<noteq> []" if "i < 100" for i
    using arr_wfD(6) [OF wf that] same [OF that] ne that arr_wfD(4) [OF wf]
    by (cases "i = n") (auto simp: r'(2) simp del: nth_unlink)
  have b: "bitmap (active r') ! 100" "length (bitmap (active r')) = 101"
    using arr_wfD(4,5) [OF wf] n' by (simp_all add: r'(2))
  have run: "rt_nr_running r' = of_nat (length (concat ?q'))" "rt_nr_total r' = of_nat (length (concat ?q'))"
    unfolding r' arr_wfD(7,8) [OF wf] cnt by (simp_all del: length_concat)
  have mig: "rt_nr_migratory r' = of_nat (length (filter (\<lambda>p. migratable (T p)) (concat ?q')))"
    unfolding r' arr_wfD(9) [OF wf] filter_count_add [OF ms] by (simp del: filter_concat)
  have hc: "highest_curr r' = int (find_first_bit (bitmap (active r')))"
  proof (cases "rt_nr_running r' = 0")
    case True
    have "length (concat ?q') < 2 ^ 32" using arr_count(1) [OF wf] cnt by (simp add: max_tasks_def del: length_concat)
    then have "unat (of_nat (length (concat ?q')) :: u32) = length (concat ?q')"
      by (simp add: unat_of_nat del: length_concat)
    then have "length (concat ?q') = 0" using True run(1) by (metis unat_0)
    then have "concat ?q' = []" by (rule length_0_conv [THEN iffD1])
    then have "\<forall>i < 100. ?q' ! i = []" using arr_wfD(1) [OF wf] by (metis concat_eq_Nil_conv length_unlink nth_mem)
    then have "\<forall>i < 100. \<not> bitmap (active r') ! i" using bm by blast
    then have "\<not> find_first_bit (bitmap (active r')) < 100"
      using find_first_bit_least [of 100 "bitmap (active r')"] b by auto
    then show ?thesis using True find_first_bit_le [of 100 "bitmap (active r')"] b by (simp add: r'(6))
  next
    case False
    show ?thesis
    proof (cases "prio (T p) = highest_curr r")
      case F: False
      then have "n \<noteq> find_first_bit (bitmap (active r))" using n' arr_wfD(10) [OF wf] by auto
      then show ?thesis using False F arr_wfD(10) [OF wf] find_first_bit_clear by (simp add: r'(2,6))
    qed (use False in \<open>simp add: r'(6)\<close>)
  qed
  show "arr_wf T r'"
    unfolding arr_wf_def Let_def r'(1)
    using levelled_unlink [OF arr_wfD(2) [OF wf], of p] lk bm b run mig hc r'(7) arr_wfD(1,12) [OF wf]
    by (simp del: nth_unlink)
qed

section \<open>What the parts of the operations change\<close>

text \<open>What no operation of the class changes.\<close>

definition same_static :: "('c, 'x) smp \<Rightarrow> ('c, 'x) smp \<Rightarrow> bool" where
  "same_static S S' \<longleftrightarrow> nr_cpu_ids S' = nr_cpu_ids S \<and> this_cpu S' = this_cpu S \<and>
     cpu_online_mask S' = cpu_online_mask S \<and> cpu_active_mask S' = cpu_active_mask S \<and>
     cpu_possible_mask S' = cpu_possible_mask S \<and> rd_span (rd S') = rd_span (rd S) \<and>
     rt_period (bw S') = rt_period (bw S) \<and> bw_rt_runtime (bw S') = bw_rt_runtime (bw S)"

lemma same_static_refl [simp]: "same_static S S"
  by (simp add: same_static_def)

lemma same_static_trans: "same_static S S1 \<Longrightarrow> same_static S1 S2 \<Longrightarrow> same_static S S2"
  by (simp add: same_static_def)

lemma overload_frame [simp]:
  "rqs (rt_set_overload c S) = rqs S" "tk (rt_set_overload c S) = tk S"
  "rqs (rt_clear_overload c S) = rqs S" "tk (rt_clear_overload c S) = tk S"
  "same_static S (rt_set_overload c S)" "same_static S (rt_clear_overload c S)"
  by (simp_all add: rt_set_overload_def rt_clear_overload_def same_static_def)

lemma same_static_upd [simp]:
  "same_static S (S1\<lparr>rqs := x\<rparr>) = same_static S S1" "same_static S (S1\<lparr>tk := y\<rparr>) = same_static S S1"
  "same_static (S\<lparr>rqs := x\<rparr>) S1 = same_static S S1" "same_static (S\<lparr>tk := y\<rparr>) S1 = same_static S S1"
  by (simp_all add: same_static_def)

lemma update_rt_migration_frame [simp]:
  "rqs (update_rt_migration c S) = (rqs S)(c := (rqs S c)\<lparr>q_rt := (rtr S c)\<lparr>is_overloaded :=
     rt_nr_migratory (rtr S c) \<noteq> 0 \<and> rt_nr_total (rtr S c) > 1\<rparr>\<rparr>)"
  "tk (update_rt_migration c S) = tk S" "same_static S (update_rt_migration c S)"
  by (auto simp: update_rt_migration_def fun_eq_iff)

lemma counts_mask_set: "counts_mask m n \<Longrightarrow> \<not> m c \<Longrightarrow> counts_mask (m(c := True)) (n + 1)"
proof -
  have "{i. (m(c := True)) i} = insert c {i. m i}" by auto
  then show "counts_mask m n \<Longrightarrow> \<not> m c \<Longrightarrow> ?thesis" by (simp only: counts_mask_def) simp
qed

lemma counts_mask_clear:
  assumes "counts_mask m n" "m c"
  shows "counts_mask (m(c := False)) (n - 1)"
proof -
  have e: "{i. (m(c := False)) i} = {i. m i} - {c}" by auto
  have f: "finite {i. m i}" and n: "n = int (card {i. m i})" using assms(1) by (simp_all add: counts_mask_def)
  have "0 < card {i. m i}" using f assms(2) card_gt_0_iff by blast
  then have "int (card ({i. m i} - {c})) = n - 1" using assms(2) n f by simp
  then show ?thesis unfolding counts_mask_def e using f by simp
qed

lemma update_rt_migration_rto:
  assumes "rto_wf S"
  shows "rto_wf (update_rt_migration c S)"
proof -
  have m: "\<And>i. rto_mask (rd S) i \<longleftrightarrow> is_overloaded (rtr S i) \<and> q_online (rqs S i)"
    "counts_mask (rto_mask (rd S)) (rto_count (rd S))"
    using assms by (auto simp: rto_wf_def)
  let ?o = "rt_nr_migratory (rtr S c) \<noteq> 0 \<and> rt_nr_total (rtr S c) > 1"
  consider (same) "?o = is_overloaded (rtr S c)" | (on) "?o" "\<not> is_overloaded (rtr S c)"
    | (off) "\<not> ?o" "is_overloaded (rtr S c)" by blast
  then show ?thesis
  proof cases
    case same
    then have "update_rt_migration c S = S" unfolding update_rt_migration_def by auto
    then show ?thesis using assms by simp
  next
    case on
    then have e: "update_rt_migration c S = upd_rtr (rt_set_overload c S) c (\<lambda>r. r\<lparr>is_overloaded := True\<rparr>)"
      unfolding update_rt_migration_def by simp
    show ?thesis
      using m(1) counts_mask_set [OF m(2), of c] m(1) [of c] on(2) m(2)
      unfolding e rto_wf_def by (cases "q_online (rqs S c)") (simp_all add: rt_set_overload_def)
  next
    case off
    then have e: "update_rt_migration c S = upd_rtr (rt_clear_overload c S) c (\<lambda>r. r\<lparr>is_overloaded := False\<rparr>)"
      unfolding update_rt_migration_def by auto
    show ?thesis
      using m(1) counts_mask_clear [OF m(2), of c] m(1) [of c] off(2) m(2)
      unfolding e rto_wf_def by (cases "q_online (rqs S c)") (simp_all add: rt_clear_overload_def)
  qed
qed

lemma rto_wf_cong:
  assumes "\<And>c. is_overloaded (rtr S' c) = is_overloaded (rtr S c)" "\<And>c. q_online (rqs S' c) = q_online (rqs S c)"
    "rto_mask (rd S') = rto_mask (rd S)" "rto_count (rd S') = rto_count (rd S)"
  shows "rto_wf S' = rto_wf S"
  using assms by (simp add: rto_wf_def)

text \<open>Counting a task in and out.\<close>

lemma inc_rt_tasks_effect:
  fixes S :: "('c, 'x) smp"
  assumes "rto_wf S"
  obtains r' where "rqs (smp_inc_rt_tasks E c p S) = (rqs S)(c := (rqs S c)\<lparr>q_rt := r'\<rparr>)"
    "tk (smp_inc_rt_tasks E c p S) = tk S" "same_static S (smp_inc_rt_tasks E c p S)"
    "rto_wf (smp_inc_rt_tasks E c p S)"
    "active r' = active (rtr S c)" "rt_nr_running r' = rt_nr_running (rtr S c) + 1"
    "rt_nr_total r' = rt_nr_total (rtr S c) + 1"
    "rt_nr_migratory r' = rt_nr_migratory (rtr S c) + (if migratable (tk S p) then 1 else 0)"
    "highest_curr r' = min (prio (tk S p)) (highest_curr (rtr S c))"
    "is_overloaded r' \<longleftrightarrow> rt_nr_migratory r' \<noteq> 0 \<and> rt_nr_total r' > 1"
    "pushable_tasks r' = pushable_tasks (rtr S c)" "highest_next r' = highest_next (rtr S c)"
    "rt_queued r' = rt_queued (rtr S c)" "rt_throttled r' = rt_throttled (rtr S c)"
proof -
  let ?pr = "prio (tk S p)"
  define S1 where "S1 = inc_rt_prio E c ?pr (upd_rtr S c (\<lambda>r. r\<lparr>rt_nr_running := rt_nr_running r + 1,
    rr_nr_running := rr_nr_running r + smp_rr_nr_running S p\<rparr>))"
  define S2 where "S2 = (let S = upd_rtr S1 c (\<lambda>r. r\<lparr>rt_nr_total := rt_nr_total r + 1\<rparr>)
      in if nr_cpus_allowed (tk S p) > 1
         then upd_rtr S c (\<lambda>r. r\<lparr>rt_nr_migratory := rt_nr_migratory r + 1\<rparr>) else S)"
  have e: "smp_inc_rt_tasks E c p S = smp_start_rt_bandwidth (update_rt_migration c S2)"
    by (simp add: smp_inc_rt_tasks_def inc_rt_migration_def S1_def S2_def Let_def)
  have st: "rqs (smp_start_rt_bandwidth S') = rqs S'" "tk (smp_start_rt_bandwidth S') = tk S'"
    "rd (smp_start_rt_bandwidth S') = rd S'" "same_static S' (smp_start_rt_bandwidth S')"
    for S' :: "('c, 'x) smp"
    by (simp_all add: smp_start_rt_bandwidth_def same_static_def)
  have s1: "rqs S1 = (rqs S)(c := (rqs S c)\<lparr>q_rt := (rtr S c)\<lparr>rt_nr_running := rt_nr_running (rtr S c) + 1,
      rr_nr_running := rr_nr_running (rtr S c) + smp_rr_nr_running S p,
      highest_curr := min ?pr (highest_curr (rtr S c))\<rparr>\<rparr>)" "tk S1 = tk S" "same_static S S1"
      "rto_mask (rd S1) = rto_mask (rd S)" "rto_count (rd S1) = rto_count (rd S)"
    by (auto simp: S1_def inc_rt_prio_def inc_rt_prio_smp_def rd_cpupri_set_def Let_def fun_eq_iff same_static_def)
  have s2: "rqs S2 = (rqs S1)(c := (rqs S1 c)\<lparr>q_rt := (rtr S1 c)\<lparr>rt_nr_total := rt_nr_total (rtr S1 c) + 1,
      rt_nr_migratory := rt_nr_migratory (rtr S1 c) + (if migratable (tk S p) then 1 else 0)\<rparr>\<rparr>)"
      "tk S2 = tk S1" "rd S2 = rd S1" "same_static S1 S2"
    using s1(2) by (auto simp: S2_def migratable_def fun_eq_iff Let_def)
  have "rto_wf S2" using assms by (subst rto_wf_cong [of S2 S]) (auto simp: s1 s2)
  then have RTO: "rto_wf (smp_inc_rt_tasks E c p S)" unfolding e
    using update_rt_migration_rto [of S2 c] by (subst rto_wf_cong [of _ "update_rt_migration c S2"]) (simp_all only: st)
  have ST: "same_static S (smp_inc_rt_tasks E c p S)" unfolding e
    by (rule same_static_trans [OF same_static_trans [OF same_static_trans [OF s1(3) s2(4)] update_rt_migration_frame(3)] st(4)])
  have R: "rqs (smp_inc_rt_tasks E c p S) = (rqs S)(c := (rqs S c)\<lparr>q_rt := rtr (update_rt_migration c S2) c\<rparr>)"
    and TK: "tk (smp_inc_rt_tasks E c p S) = tk S"
    unfolding e by (simp_all add: st s1 s2)
  show ?thesis by (rule that [OF R TK ST RTO]) (simp_all add: st s1 s2)
qed

lemma dec_rt_tasks_effect:
  assumes "rto_wf S"
  obtains r' where "rqs (smp_dec_rt_tasks E c p S) = (rqs S)(c := (rqs S c)\<lparr>q_rt := r'\<rparr>)"
    "tk (smp_dec_rt_tasks E c p S) = tk S" "same_static S (smp_dec_rt_tasks E c p S)"
    "rto_wf (smp_dec_rt_tasks E c p S)"
    "active r' = active (rtr S c)" "rt_nr_running r' = rt_nr_running (rtr S c) - 1"
    "rt_nr_total r' = rt_nr_total (rtr S c) - 1"
    "rt_nr_migratory r' = rt_nr_migratory (rtr S c) - (if migratable (tk S p) then 1 else 0)"
    "highest_curr r' = (if rt_nr_running r' = 0 then 100 else if prio (tk S p) = highest_curr (rtr S c)
       then int (find_first_bit (bitmap (active r'))) else highest_curr (rtr S c))"
    "is_overloaded r' \<longleftrightarrow> rt_nr_migratory r' \<noteq> 0 \<and> rt_nr_total r' > 1"
    "pushable_tasks r' = pushable_tasks (rtr S c)" "highest_next r' = highest_next (rtr S c)"
    "rt_queued r' = rt_queued (rtr S c)" "rt_throttled r' = rt_throttled (rtr S c)"
proof -
  let ?pr = "prio (tk S p)" and ?r = "rtr S c"
  define S1 where "S1 = dec_rt_prio E c ?pr (upd_rtr S c (\<lambda>r. r\<lparr>rt_nr_running := rt_nr_running r - 1,
    rr_nr_running := rr_nr_running r - smp_rr_nr_running S p\<rparr>))"
  define S2 where "S2 = (let S = upd_rtr S1 c (\<lambda>r. r\<lparr>rt_nr_total := rt_nr_total r - 1\<rparr>)
      in if nr_cpus_allowed (tk S p) > 1
         then upd_rtr S c (\<lambda>r. r\<lparr>rt_nr_migratory := rt_nr_migratory r - 1\<rparr>) else S)"
  define h where "h = (if rt_nr_running ?r - 1 = 0 then 100 else if ?pr = highest_curr ?r
       then int (find_first_bit (bitmap (active ?r))) else highest_curr ?r)"
  have e: "smp_dec_rt_tasks E c p S = update_rt_migration c S2"
    by (simp add: smp_dec_rt_tasks_def dec_rt_migration_def S1_def S2_def Let_def)
  have s1: "rqs S1 = (rqs S)(c := (rqs S c)\<lparr>q_rt := ?r\<lparr>rt_nr_running := rt_nr_running ?r - 1,
      rr_nr_running := rr_nr_running ?r - smp_rr_nr_running S p, highest_curr := h\<rparr>\<rparr>)"
      "tk S1 = tk S" "same_static S S1"
      "rto_mask (rd S1) = rto_mask (rd S)" "rto_count (rd S1) = rto_count (rd S)"
    by (auto simp: S1_def dec_rt_prio_def dec_rt_prio_smp_def rd_cpupri_set_def Let_def fun_eq_iff same_static_def
        h_def MAX_RT_PRIO_def)
  have s2: "rqs S2 = (rqs S1)(c := (rqs S1 c)\<lparr>q_rt := (rtr S1 c)\<lparr>rt_nr_total := rt_nr_total (rtr S1 c) - 1,
      rt_nr_migratory := rt_nr_migratory (rtr S1 c) - (if migratable (tk S p) then 1 else 0)\<rparr>\<rparr>)"
      "tk S2 = tk S1" "rd S2 = rd S1" "same_static S1 S2"
    using s1(2) by (auto simp: S2_def migratable_def fun_eq_iff Let_def)
  have "rto_wf S2" using assms by (subst rto_wf_cong [of S2 S]) (auto simp: s1 s2)
  then have RTO: "rto_wf (smp_dec_rt_tasks E c p S)" unfolding e by (rule update_rt_migration_rto)
  have ST: "same_static S (smp_dec_rt_tasks E c p S)" unfolding e
    by (rule same_static_trans [OF same_static_trans [OF s1(3) s2(4)] update_rt_migration_frame(3)])
  have R: "rqs (smp_dec_rt_tasks E c p S) = (rqs S)(c := (rqs S c)\<lparr>q_rt := rtr (update_rt_migration c S2) c\<rparr>)"
    and TK: "tk (smp_dec_rt_tasks E c p S) = tk S"
    unfolding e by (simp_all add: s1 s2 h_def)
  show ?thesis by (rule that [OF R TK ST RTO]) (simp_all add: s1 s2 h_def)
qed

section \<open>Frames\<close>

text \<open>What the operations of the class leave of a task and of a run queue.\<close>

definition keeps_task :: "smp_task \<Rightarrow> smp_task \<Rightarrow> bool" where
  "keeps_task t t' \<longleftrightarrow> (\<exists>s b e. t' = t\<lparr>se := s, need_resched := b, rt := e\<rparr>)"

definition keeps_rq :: "smp_rq \<Rightarrow> smp_rq \<Rightarrow> bool" where
  "keeps_rq q q' \<longleftrightarrow> q_curr q' = q_curr q \<and> q_idle q' = q_idle q \<and> q_stop q' = q_stop q \<and>
     q_online q' = q_online q \<and> q_dl_nr_running q' = q_dl_nr_running q \<and> q_wake_list q' = q_wake_list q"

definition smp_frame :: "('c, 'x) smp \<Rightarrow> ('c, 'x) smp \<Rightarrow> bool" where
  "smp_frame S S' \<longleftrightarrow> (\<forall>p. keeps_task (tk S p) (tk S' p)) \<and> (\<forall>c. keeps_rq (rqs S c) (rqs S' c)) \<and> same_static S S'"

lemma keeps_task_refl [simp]: "keeps_task t t"
proof -
  have "t = t\<lparr>se := se t, need_resched := need_resched t, rt := rt t\<rparr>" by simp
  then show ?thesis unfolding keeps_task_def by blast
qed

lemma keeps_task_trans: "keeps_task t t1 \<Longrightarrow> keeps_task t1 t2 \<Longrightarrow> keeps_task t t2"
proof -
  assume "keeps_task t t1" "keeps_task t1 t2"
  then obtain s b e s' b' e' where "t1 = t\<lparr>se := s, need_resched := b, rt := e\<rparr>"
    "t2 = t1\<lparr>se := s', need_resched := b', rt := e'\<rparr>" unfolding keeps_task_def by blast
  then have "t2 = t\<lparr>se := s', need_resched := b', rt := e'\<rparr>" by simp
  then show ?thesis unfolding keeps_task_def by blast
qed

lemma keeps_taskD:
  assumes "keeps_task t t'"
  shows "prio t' = prio t" "nr_cpus_allowed t' = nr_cpus_allowed t" "task_cpu t' = task_cpu t" "on_rq t' = on_rq t"
    "cpus_allowed t' = cpus_allowed t" "on_cpu t' = on_cpu t" "sched_class t' = sched_class t" "policy t' = policy t"
    "state t' = state t" "tflags t' = tflags t" "wake_cpu t' = wake_cpu t" "migratable t' = migratable t"
    "in_iowait t' = in_iowait t"
  using assms unfolding keeps_task_def migratable_def by auto

lemma keeps_task_upd [simp]:
  "keeps_task t (t\<lparr>se := s\<rparr>)" "keeps_task t (t\<lparr>need_resched := b\<rparr>)" "keeps_task t (t\<lparr>rt := e\<rparr>)"
proof -
  have "t\<lparr>se := s\<rparr> = t\<lparr>se := s, need_resched := need_resched t, rt := rt t\<rparr>"
    "t\<lparr>need_resched := b\<rparr> = t\<lparr>se := se t, need_resched := b, rt := rt t\<rparr>"
    "t\<lparr>rt := e\<rparr> = t\<lparr>se := se t, need_resched := need_resched t, rt := e\<rparr>" by simp_all
  then show "keeps_task t (t\<lparr>se := s\<rparr>)" "keeps_task t (t\<lparr>need_resched := b\<rparr>)" "keeps_task t (t\<lparr>rt := e\<rparr>)"
    unfolding keeps_task_def by blast+
qed

lemma keeps_rq_refl [simp]: "keeps_rq q q"
  by (simp add: keeps_rq_def)

lemma smp_frame_refl [simp]: "smp_frame S S"
  by (simp add: smp_frame_def)

lemma smp_frame_trans: "smp_frame S S1 \<Longrightarrow> smp_frame S1 S2 \<Longrightarrow> smp_frame S S2"
  unfolding smp_frame_def keeps_rq_def using keeps_task_trans same_static_trans by metis

lemma smp_frameD:
  assumes "smp_frame S S'"
  shows "keeps_task (tk S p) (tk S' p)" "q_curr (rqs S' c) = q_curr (rqs S c)" "q_online (rqs S' c) = q_online (rqs S c)"
    "same_static S S'" "q_idle (rqs S' c) = q_idle (rqs S c)" "q_stop (rqs S' c) = q_stop (rqs S c)"
    "q_dl_nr_running (rqs S' c) = q_dl_nr_running (rqs S c)" "q_wake_list (rqs S' c) = q_wake_list (rqs S c)"
  using assms by (simp_all add: smp_frame_def keeps_rq_def)

text \<open>
  Accounting: the operations that change times, clocks, throttling and the presence of the class in
  \<open>nr_running\<close>, but no queue.
\<close>

definition same_queues :: "smp_rq \<Rightarrow> smp_rq \<Rightarrow> bool" where
  "same_queues q q' \<longleftrightarrow> (let r = q_rt q; r' = q_rt q' in
     active r' = active r \<and> rt_nr_running r' = rt_nr_running r \<and> rt_nr_total r' = rt_nr_total r \<and>
     rt_nr_migratory r' = rt_nr_migratory r \<and> highest_curr r' = highest_curr r \<and> highest_next r' = highest_next r \<and>
     is_overloaded r' = is_overloaded r \<and> pushable_tasks r' = pushable_tasks r \<and> cpu_others q' = cpu_others q \<and>
     (rt_queued r' \<longrightarrow> rt_queued r \<or> rt_nr_running r \<noteq> 0))"

definition acct :: "('c, 'x) smp \<Rightarrow> ('c, 'x) smp \<Rightarrow> bool" where
  "acct S S' \<longleftrightarrow> (\<forall>p. keeps_task (tk S p) (tk S' p) \<and> rt_on_rq (rt (tk S' p)) = rt_on_rq (rt (tk S p))) \<and>
     (\<forall>c. keeps_rq (rqs S c) (rqs S' c) \<and> same_queues (rqs S c) (rqs S' c)) \<and> rd S' = rd S \<and> same_static S S'"

lemma same_queues_refl [simp]: "same_queues q q"
  by (simp add: same_queues_def)

lemma acct_refl [simp]: "acct S S"
  by (simp add: acct_def)

lemma same_queues_trans: "same_queues q q1 \<Longrightarrow> same_queues q1 q2 \<Longrightarrow> same_queues q q2"
  by (auto simp: same_queues_def Let_def)

lemma keeps_rq_trans: "keeps_rq q q1 \<Longrightarrow> keeps_rq q1 q2 \<Longrightarrow> keeps_rq q q2"
  by (simp add: keeps_rq_def)

lemma acctD:
  assumes "acct S S'"
  shows "keeps_task (tk S p) (tk S' p)" "rt_on_rq (rt (tk S' p)) = rt_on_rq (rt (tk S p))"
    "keeps_rq (rqs S c) (rqs S' c)" "same_queues (rqs S c) (rqs S' c)" "rd S' = rd S" "same_static S S'"
  using assms unfolding acct_def by blast+

lemma acct_trans:
  assumes a: "acct S S1" and b: "acct S1 S2"
  shows "acct S S2"
  unfolding acct_def
  using keeps_task_trans [OF acctD(1) [OF a] acctD(1) [OF b]] acctD(2) [OF a] acctD(2) [OF b]
    keeps_rq_trans [OF acctD(3) [OF a] acctD(3) [OF b]] same_queues_trans [OF acctD(4) [OF a] acctD(4) [OF b]]
    acctD(5) [OF a] acctD(5) [OF b] same_static_trans [OF acctD(6) [OF a] acctD(6) [OF b]]
  by simp

lemma acct_frame: "acct S S' \<Longrightarrow> smp_frame S S'"
  by (simp add: acct_def smp_frame_def)

lemma acct_queued [simp]: "acct S S' \<Longrightarrow> cpu_queued S' c = cpu_queued S c"
  by (simp add: acct_def same_queues_def cpu_queued_def Let_def)

text \<open>The invariant while the list of pushable tasks of \<open>c\<close> is the set \<open>X\<close>.\<close>

definition smp_inv_x :: "('c, 'x) smp \<Rightarrow> cpu \<Rightarrow> pid set \<Rightarrow> bool" where
  "smp_inv_x S c X \<longleftrightarrow> (\<forall>i. arr_wf (tk S) (rtr S i) \<and> top_wf (rqs S i) \<and>
     push_wf (tk S) (rtr S i) (if i = c then X else pushables S i)) \<and> member_wf S \<and> rto_wf S"

lemma smp_inv_iff: "smp_inv S \<longleftrightarrow> smp_inv_x S c (pushables S c)"
  by (auto simp: smp_inv_def smp_inv_x_def)

lemma pushables_cong:
  "cpu_queued S' c = cpu_queued S c \<Longrightarrow> smp_frame S S' \<Longrightarrow> pushables S' c = pushables S c"
  unfolding pushables_def by (simp add: keeps_taskD(12) [OF smp_frameD(1)] smp_frameD(2))

lemma acct_inv_x:
  assumes a: "acct S S'" and inv: "smp_inv_x S c X"
  shows "smp_inv_x S' c X"
proof -
  note k = keeps_taskD(1-3) [OF acctD(1) [OF a]]
  have ps: "pushables S' i = pushables S i" for i using pushables_cong [OF acct_queued [OF a] acct_frame [OF a]] .
  have q: "same_queues (rqs S i) (rqs S' i)" "keeps_rq (rqs S i) (rqs S' i)" for i by (rule acctD(4) [OF a], rule acctD(3) [OF a])
  have arr: "arr_wf (tk S') (rtr S' i)" for i
  proof -
    have "arr_wf (tk S) (rtr S' i) = arr_wf (tk S) (rtr S i)"
      using q(1) [of i] by (simp add: arr_wf_def same_queues_def Let_def)
    then show ?thesis using inv arr_wf_cong [of "rtr S' i" "tk S'" "tk S"] k by (simp add: smp_inv_x_def)
  qed
  have push: "push_wf (tk S') (rtr S' i) (if i = c then X else pushables S' i)" for i
  proof -
    have "push_wf (tk S) (rtr S' i) Y = push_wf (tk S) (rtr S i) Y" for Y
      using q(1) [of i] by (simp add: push_wf_def same_queues_def Let_def)
    moreover have "push_wf (tk S) (rtr S i) (if i = c then X else pushables S i)" using inv by (simp only: smp_inv_x_def)
    ultimately show ?thesis using push_wf_cong [of _ "tk S'" "tk S" "rtr S' i"] k ps by (cases "i = c") simp_all
  qed
  have top: "top_wf (rqs S' i)" for i
    using q(1) [of i] inv by (auto simp: top_wf_def same_queues_def smp_inv_x_def Let_def)
  have "member_wf S" "rto_wf S" using inv by (simp_all add: smp_inv_x_def)
  then have "member_wf S'"
    by (simp add: member_wf_def k acctD(2) [OF a] acct_queued [OF a])
  moreover have o: "is_overloaded (rtr S' i) = is_overloaded (rtr S i)" "q_online (rqs S' i) = q_online (rqs S i)" for i
    using q [of i] by (simp_all add: same_queues_def keeps_rq_def Let_def)
  then have "rto_wf S'" using \<open>rto_wf S\<close> by (simp add: rto_wf_def acctD(5) [OF a])
  ultimately show ?thesis using arr push top by (simp add: smp_inv_x_def)
qed

lemma acct_inv: "acct S S' \<Longrightarrow> smp_inv S \<Longrightarrow> smp_inv S'"
  using acct_inv_x pushables_cong [OF acct_queued acct_frame] by (metis smp_inv_iff)

section \<open>Accounting\<close>

lemma acct_task:
  "keeps_task (tk S p) (f (tk S p)) \<Longrightarrow> rt_on_rq (rt (f (tk S p))) = rt_on_rq (rt (tk S p)) \<Longrightarrow> acct S (upd_tk S p f)"
  by (simp add: acct_def)

lemma acct_rq: "keeps_rq (rqs S c) (f (rqs S c)) \<Longrightarrow> same_queues (rqs S c) (f (rqs S c)) \<Longrightarrow> acct S (upd_rq S c f)"
  by (simp add: acct_def)

lemma acct_rtr:
  assumes "same_queues (rqs S c) ((rqs S c)\<lparr>q_rt := f (rtr S c)\<rparr>)"
  shows "acct S (upd_rtr S c f)"
  using assms by (intro acct_rq) (simp_all add: keeps_rq_def)

lemma acct_ipi [simp]: "acct S (S1\<lparr>resched_ipi := m\<rparr>) = acct S S1"
  by (simp add: acct_def same_static_def)

lemma acct_resched [simp]: "acct S (smp_resched_curr c S)"
proof -
  have "acct S (upd_tk S p (\<lambda>t. t\<lparr>need_resched := True\<rparr>))" for p by (rule acct_task) simp_all
  then show ?thesis by (simp add: smp_resched_curr_def Let_def set_nr_and_not_polling_def smp_send_reschedule_def)
qed

lemma acct_clock [simp]: "acct S (smp_update_rq_clock c S)"
  unfolding smp_update_rq_clock_def Let_def
  by (simp, intro impI acct_rq) (simp_all add: keeps_rq_def same_queues_def cpu_others_def)

lemma acct_runtimes [simp]: "acct S (with_runtimes f S)"
  by (simp add: acct_def with_runtimes_def keeps_rq_def same_queues_def cpu_others_def same_static_def)

lemma balance_loop_runtimes:
  "\<exists>f'. balance_runtime_loop wt period c is (with_runtimes f S) = with_runtimes f' S"
proof (induction "is" arbitrary: f)
  case Nil
  then show ?case by auto
next
  case (Cons i "is")
  then show ?case by (simp only: balance_runtime_loop.simps Let_def with_runtimes_upd) (simp, blast)
qed

lemma acct_balance [simp]: "acct S (balance_runtime E c S)"
proof -
  obtain f' where "do_balance_runtime c S = with_runtimes f' S"
    using balance_loop_runtimes [of _ _ c _ "runtimes S" S] unfolding do_balance_runtime_def Let_def with_runtimes_id by blast
  then show ?thesis by (simp add: balance_runtime_def)
qed

lemma acct_enqueue_top [simp]: "acct S (smp_enqueue_top_rt_rq c S)"
  unfolding smp_enqueue_top_rt_rq_def
  by (simp, intro impI acct_rq) (simp_all add: keeps_rq_def same_queues_def cpu_others_def)

lemma acct_dequeue_top:
  assumes wf: "unat (rt_nr_running (rtr S c)) \<le> max_tasks" "top_wf (rqs S c)"
  shows "\<exists>S'. smp_dequeue_top_rt_rq c S = Some S' \<and> acct S S' \<and> tk S' = tk S \<and> \<not> rt_queued (rtr S' c)"
proof (cases "rt_queued (rtr S c)")
  case True
  let ?q = "rqs S c"
  have n: "rt_nr_running (q_rt ?q) \<noteq> 0" "unat (cpu_others ?q) < 2 ^ 31" using wf(2) True by (simp_all add: top_wf_def)
  have e: "q_nr_running ?q = cpu_others ?q + rt_nr_running (q_rt ?q)" using True by (simp add: cpu_others_def)
  have "unat (cpu_others ?q + rt_nr_running (q_rt ?q)) = unat (cpu_others ?q) + unat (rt_nr_running (q_rt ?q))"
    using n(2) wf(1) by (simp add: unat_word_ariths max_tasks_def)
  then have "q_nr_running ?q \<noteq> 0" using n(1) e by (metis add_eq_0_iff_both_eq_0 unat_0 unat_eq_zero)
  moreover have "acct S (upd_rq S c (\<lambda>q. q\<lparr>q_nr_running := q_nr_running q - rt_nr_running (q_rt q),
      q_rt := (q_rt q)\<lparr>rt_queued := False\<rparr>\<rparr>))"
    using True by (intro acct_rq) (simp_all add: keeps_rq_def same_queues_def cpu_others_def)
  ultimately show ?thesis using True by (simp add: smp_dequeue_top_rt_rq_def)
qed (simp add: smp_dequeue_top_rt_rq_def)

lemma acct_wf:
  assumes "acct S S'" "unat (rt_nr_running (rtr S c)) \<le> max_tasks" "top_wf (rqs S c)"
  shows "unat (rt_nr_running (rtr S' c)) \<le> max_tasks" "top_wf (rqs S' c)"
proof -
  have q: "same_queues (rqs S c) (rqs S' c)" by (rule acctD(4) [OF assms(1)])
  then show "unat (rt_nr_running (rtr S' c)) \<le> max_tasks" using assms(2) unfolding same_queues_def Let_def by metis
  show "top_wf (rqs S' c)" using q assms(3) unfolding top_wf_def same_queues_def Let_def by metis
qed

lemma acct_exceeded:
  assumes wf: "unat (rt_nr_running (rtr S c)) \<le> max_tasks" "top_wf (rqs S c)"
  shows "\<exists>b S'. smp_rt_runtime_exceeded E c S = Some (b, S') \<and> acct S S'"
proof -
  let ?S = "balance_runtime E c S"
  have a: "acct S ?S" by simp
  let ?T = "upd_rtr ?S c (\<lambda>r. r\<lparr>rt_throttled := True\<rparr>)" and ?Z = "upd_rtr ?S c (\<lambda>r. r\<lparr>rt_time := 0\<rparr>)"
  have t: "acct ?S ?T" "acct ?S ?Z" by (intro acct_rtr; simp add: same_queues_def cpu_others_def)+
  from acct_dequeue_top [OF acct_wf [OF acct_trans [OF a t(1)] wf]] obtain S' where "smp_dequeue_top_rt_rq c ?T = Some S'" "acct ?T S'" by blast
  then show ?thesis
    using acct_trans [OF a t(1)] acct_trans [OF acct_trans [OF a t(1)]] acct_trans [OF a t(2)] a
    by (simp add: smp_rt_runtime_exceeded_def Let_def ex_bool_eq)
qed

lemma acct_update_curr:
  assumes wf: "unat (rt_nr_running (rtr S c)) \<le> max_tasks" "top_wf (rqs S c)"
  shows "\<exists>S'. smp_update_curr_rt E c S = Some S' \<and> acct S S'"
proof -
  let ?cur = "q_curr (rqs S c)" and ?now = "q_clock_task (rqs S c)"
  let ?d = "?now - exec_start (se (tk S ?cur))"
  let ?S1 = "upd_tk S ?cur (\<lambda>t. t\<lparr>se := (se t)\<lparr>sum_exec_runtime := sum_exec_runtime (se t) + ?d, exec_start := ?now\<rparr>\<rparr>)"
  let ?S2 = "upd_rtr ?S1 c (\<lambda>r. r\<lparr>rt_time := rt_time r + ?d\<rparr>)"
  have a1: "acct S ?S1" by (rule acct_task) simp_all
  have a2: "acct ?S1 ?S2" by (intro acct_rtr) (simp add: same_queues_def cpu_others_def)
  from acct_exceeded [OF acct_wf [OF acct_trans [OF a1 a2] wf], of E] obtain b S3 where S3: "smp_rt_runtime_exceeded E c ?S2 = Some (b, S3)" "acct ?S2 S3"
    by blast
  have a3: "acct S S3" by (rule acct_trans [OF acct_trans [OF a1 a2] S3(2)])
  have a4: "acct S (if b then smp_resched_curr c S3 else S3)" using a3 acct_trans [OF a3 acct_resched] by simp
  show ?thesis unfolding smp_update_curr_rt_def Let_def using a1 a4 S3(1) by simp
qed

section \<open>Enqueueing and dequeueing keep the invariant\<close>

text \<open>The list of pushable tasks.\<close>

lemma push_wf_enqueue:
  assumes wf: "push_wf T r X" and p: "p \<notin> X" "rt_prio_ok (prio (T p))"
    and r': "pushable_tasks r' = plist_add (prio (T p), p) (plist_del p (pushable_tasks r))"
      "highest_next r' = min (prio (T p)) (highest_next r)"
  shows "push_wf T r' (insert p X)"
proof -
  let ?ns = "pushable_tasks r"
  have w: "sorted (map fst ?ns)" "distinct (map snd ?ns)" "\<forall>n \<in> set ?ns. fst n = prio (T (snd n))"
    "snd ` set ?ns = X" "highest_next r = (case ?ns of [] \<Rightarrow> 100 | n # _ \<Rightarrow> fst n)"
    using wf by (simp_all add: push_wf_def Let_def)
  have e: "pushable_tasks r' = plist_add (prio (T p), p) ?ns" using w(4) p r' by (simp add: plist_del_absent)
  have "highest_next r' = fst (hd (pushable_tasks r'))"
    using w(5) p(2) by (cases ?ns) (auto simp: r'(2) e plist_add_hd(2) rt_prio_ok_def)
  then have "highest_next r' = (case pushable_tasks r' of [] \<Rightarrow> 100 | n # _ \<Rightarrow> fst n)"
    using plist_add_hd(1) by (cases "pushable_tasks r'") (auto simp: e)
  moreover have "distinct (map snd (pushable_tasks r'))"
    unfolding e using w(2,4) p(1) by (intro distinct_plist_add) auto
  ultimately show ?thesis
    using w(3,4) sorted_plist_add [OF w(1)] by (auto simp: push_wf_def e Let_def)
qed

lemma push_wf_dequeue:
  assumes wf: "push_wf T r X"
    and r': "pushable_tasks r' = plist_del p (pushable_tasks r)"
      "highest_next r' = (case plist_del p (pushable_tasks r) of [] \<Rightarrow> 100 | n # _ \<Rightarrow> prio (T (snd n)))"
  shows "push_wf T r' (X - {p})"
proof -
  let ?ns = "plist_del p (pushable_tasks r)"
  have w: "sorted (map fst ?ns)" "distinct (map snd ?ns)" "\<forall>n \<in> set ?ns. fst n = prio (T (snd n))"
    "snd ` set ?ns = X - {p}"
    using wf by (auto simp: push_wf_def plist_del_keeps Let_def)
  have "highest_next r' = (case ?ns of [] \<Rightarrow> 100 | n # _ \<Rightarrow> fst n)" using w(3) by (cases ?ns) (simp_all add: r'(2))
  then show ?thesis unfolding push_wf_def Let_def r'(1) using w by blast
qed

lemma smp_inv_xD:
  assumes "smp_inv_x S c X"
  shows "arr_wf (tk S) (rtr S i)" "top_wf (rqs S i)" "push_wf (tk S) (rtr S c) X"
    "i \<noteq> c \<Longrightarrow> push_wf (tk S) (rtr S i) (pushables S i)" "member_wf S" "rto_wf S"
  using assms by (auto simp: smp_inv_x_def split: if_split_asm)

lemma smp_inv_xB:
  assumes "smp_inv_x S c X"
  shows "unat (rt_nr_running (rtr S i)) \<le> max_tasks" "top_wf (rqs S i)"
  using arr_count(1,2) [OF smp_inv_xD(1) [OF assms, of i]] smp_inv_xD(2) [OF assms, of i] by simp_all

text \<open>A change of the list of pushable tasks of one processor.\<close>

lemma smp_inv_x_push:
  assumes inv: "smp_inv_x S c X" and S': "S' = upd_rtr S c (\<lambda>r. r\<lparr>pushable_tasks := ns, highest_next := h\<rparr>)"
    and wf: "push_wf (tk S) ((rtr S c)\<lparr>pushable_tasks := ns, highest_next := h\<rparr>) Y"
  shows "smp_inv_x S' c Y"
proof -
  have arr: "arr_wf (tk S') (rtr S' i)" for i
    using smp_inv_xD(1) [OF inv, of i] by (cases "i = c") (simp_all add: S' arr_wf_def Let_def)
  have top: "top_wf (rqs S' i)" for i
    using smp_inv_xD(2) [OF inv, of i] by (cases "i = c") (auto simp: S' top_wf_def cpu_others_def)
  have q: "cpu_queued S' i = cpu_queued S i" for i by (simp add: S' cpu_queued_def)
  have ps: "pushables S' i = pushables S i" for i by (simp add: pushables_def q) (simp add: S')
  have push: "push_wf (tk S') (rtr S' i) (if i = c then Y else pushables S' i)" for i
    using wf smp_inv_xD(4) [OF inv, of i] ps by (auto simp: S')
  have "member_wf S'" using smp_inv_xD(5) [OF inv] by (simp add: member_wf_def q) (simp add: S')
  moreover have "rto_wf S'" using smp_inv_xD(6) [OF inv] by (simp add: S' rto_wf_def)
  ultimately show ?thesis using arr top push by (simp add: smp_inv_x_def)
qed

lemma enqueue_pushable_eq:
  "enqueue_pushable_task c p S = upd_rtr S c (\<lambda>r. r\<lparr>pushable_tasks :=
     plist_add (prio (tk S p), p) (plist_del p (pushable_tasks (rtr S c))),
     highest_next := min (prio (tk S p)) (highest_next (rtr S c))\<rparr>)"
  by (auto simp: enqueue_pushable_task_def Let_def min_def)

lemma dequeue_pushable_eq:
  "dequeue_pushable_task c p S = upd_rtr S c (\<lambda>r. r\<lparr>pushable_tasks := plist_del p (pushable_tasks (rtr S c)),
     highest_next := (case plist_del p (pushable_tasks (rtr S c)) of [] \<Rightarrow> 100 | n # _ \<Rightarrow> prio (tk S (snd n)))\<rparr>)"
  by (simp add: dequeue_pushable_task_def Let_def MAX_RT_PRIO_def split: list.split)

lemma enqueue_pushable_inv:
  assumes "smp_inv_x S c X" "p \<notin> X" "rt_prio_ok (prio (tk S p))"
  shows "smp_inv_x (enqueue_pushable_task c p S) c (insert p X)"
  by (rule smp_inv_x_push [OF assms(1) enqueue_pushable_eq])
     (rule push_wf_enqueue [OF smp_inv_xD(3) [OF assms(1)] assms(2,3)], simp_all)

lemma dequeue_pushable_inv:
  assumes "smp_inv_x S c X"
  shows "smp_inv_x (dequeue_pushable_task c p S) c (X - {p})"
  by (rule smp_inv_x_push [OF assms(1) dequeue_pushable_eq])
     (rule push_wf_dequeue [OF smp_inv_xD(3) [OF assms]], simp_all)

lemma pushable_frame [simp]:
  "smp_frame S (enqueue_pushable_task c p S)" "smp_frame S (dequeue_pushable_task c p S)"
  "cpu_queued (enqueue_pushable_task c p S) i = cpu_queued S i" "cpu_queued (dequeue_pushable_task c p S) i = cpu_queued S i"
  by (simp_all add: enqueue_pushable_eq dequeue_pushable_eq smp_frame_def keeps_rq_def cpu_queued_def)

text \<open>The queues of one processor: the task \<open>p\<close> goes onto them or comes off.\<close>

lemma smp_inv_x_queue:
  assumes inv: "smp_inv_x S c X"
    and rq: "rqs S' = (rqs S)(c := (rqs S c)\<lparr>q_rt := r'\<rparr>)"
    and task: "\<And>q. keeps_task (tk S q) (tk S' q)"
      "\<And>q. rt_on_rq (rt (tk S' q)) = (if q = p then b else rt_on_rq (rt (tk S q)))"
    and wf: "arr_wf (tk S') r'" "rto_wf S'" and st: "same_static S S'"
    and push: "pushable_tasks r' = pushable_tasks (rtr S c)" "highest_next r' = highest_next (rtr S c)"
    and off: "\<not> rt_queued r'" "\<not> rt_queued (rtr S c)"
    and lk: "\<And>q. linked q (rt_queue (active r')) \<longleftrightarrow> (if q = p then b else linked q (cpu_queues S c))"
    and c: "task_cpu (tk S p) = c"
  shows "smp_inv_x S' c X" "cpu_queued S' i = (if i = c then if b then insert p (cpu_queued S c) else cpu_queued S c - {p} else cpu_queued S i)"
    "smp_frame S S'"
proof -
  note k = keeps_taskD [OF task(1)]
  have q: "cpu_queued S' i = (if i = c then if b then insert p (cpu_queued S c) else cpu_queued S c - {p} else cpu_queued S i)" for i
    using lk by (auto simp: cpu_queued_def rq)
  then show "cpu_queued S' i = (if i = c then if b then insert p (cpu_queued S c) else cpu_queued S c - {p} else cpu_queued S i)" .
  show f: "smp_frame S S'" using task(1) st by (simp add: smp_frame_def rq keeps_rq_def)
  have arr: "arr_wf (tk S') (rtr S' i)" for i
  proof (cases "i = c")
    case False
    then have "arr_wf (tk S) (rtr S' i)" using smp_inv_xD(1) [OF inv, of i] by (simp add: rq)
    then show ?thesis using arr_wf_cong [of "rtr S' i" "tk S'" "tk S"] k(1,2) by simp
  qed (use wf rq in simp)
  have top: "top_wf (rqs S' i)" for i
    using smp_inv_xD(2) [OF inv, of i] off by (auto simp: top_wf_def rq cpu_others_def)
  have ps: "pushables S' i = pushables S i" if "i \<noteq> c" for i
    by (rule pushables_cong [OF _ f]) (use that q in simp)
  have pw: "push_wf (tk S') r Y = push_wf (tk S) r Y" for r Y by (rule push_wf_cong) (rule k(1))
  have "push_wf (tk S) r' X" using smp_inv_xD(3) [OF inv] push by (simp add: push_wf_def Let_def)
  then have pushw: "push_wf (tk S') (rtr S' i) (if i = c then X else pushables S' i)" for i
    using smp_inv_xD(4) [OF inv, of i] ps [of i] by (simp add: pw rq)
  have m: "member_wf S" by (rule smp_inv_xD(5) [OF inv])
  have "member_wf S'"
    unfolding member_wf_def q k(3)
  proof (intro conjI allI impI)
    show "rt_on_rq (rt (tk S' x)) \<longleftrightarrow> x \<in> (if task_cpu (tk S x) = c then if b then insert p (cpu_queued S c)
        else cpu_queued S c - {p} else cpu_queued S (task_cpu (tk S x)))" for x
      using m c by (auto simp: member_wf_def task(2))
    show "task_cpu (tk S x) = i"
      if "x \<in> (if i = c then if b then insert p (cpu_queued S c) else cpu_queued S c - {p} else cpu_queued S i)" for x i
      using m c that by (auto simp: member_wf_def split: if_split_asm)
  qed
  then show "smp_inv_x S' c X" using arr top pushw wf(2) by (simp add: smp_inv_x_def)
qed

text \<open>Linking a task that is not queued, in a run queue the class is not counted in.\<close>

lemma enqueue_self_inv:
  assumes inv: "smp_inv_x S c X" and off: "\<not> rt_queued (rtr S c)" and p: "task_cpu (tk S p) = c"
    "\<not> rt_on_rq (rt (tk S p))" "rt_prio_ok (prio (tk S p))" "p < max_tasks" and mv: "move_entity flags"
  shows "\<exists>S'. smp_enqueue_rt_entity_self E c p flags S = Some S' \<and> smp_inv_x S' c X \<and> smp_frame S S' \<and>
    (\<forall>i. cpu_queued S' i = (if i = c then insert p (cpu_queued S c) else cpu_queued S i))"
proof -
  let ?q = "cpu_queues S c" and ?n = "nat (prio (tk S p))"
  let ?qs = "if flags AND ENQUEUE_HEAD \<noteq> 0 then ?q[?n := p # ?q ! ?n] else ?q[?n := ?q ! ?n @ [p]]"
  let ?bs = "(cpu_bitmap S c)[?n := True]"
  let ?S1 = "upd_tk_rt (upd_tk_rt (set_array c ?qs ?bs S) p (\<lambda>e. e\<lparr>rt_on_list := True\<rparr>)) p (\<lambda>e. e\<lparr>rt_on_rq := True\<rparr>)"
  note wf = smp_inv_xD(1) [OF inv, of c]
  have nl: "\<not> linked p ?q" using smp_inv_xD(5) [OF inv] p(1,2) by (auto simp: member_wf_def cpu_queued_def)
  have rng: "in_range (prio (tk S p)) ?q" using p(3) arr_wfD(1) [OF wf] by (auto simp: in_range_def rt_prio_ok_def)
  have e: "smp_enqueue_rt_entity_self E c p flags S = Some (smp_inc_rt_tasks E c p ?S1)"
    using mv nl rng by (simp add: smp_enqueue_rt_entity_self_def smp_list_rt_entity_def list_add_def list_add_tail_def Let_def)
  have r1: "rtr ?S1 c = (rtr S c)\<lparr>active := (active (rtr S c))\<lparr>rt_queue := ?qs, bitmap := ?bs\<rparr>\<rparr>"
    "rqs ?S1 = (rqs S)(c := (rqs S c)\<lparr>q_rt := (rtr S c)\<lparr>active := (active (rtr S c))\<lparr>rt_queue := ?qs, bitmap := ?bs\<rparr>\<rparr>\<rparr>)"
    by (simp_all add: set_array_def)
  have t1: "keeps_task (tk S q) (tk ?S1 q)" "rt_on_rq (rt (tk ?S1 q)) = (if q = p then True else rt_on_rq (rt (tk S q)))" for q
    by (auto simp: set_array_def)
  have "rto_wf ?S1" using smp_inv_xD(6) [OF inv] by (subst rto_wf_cong [of _ S]) (simp_all add: set_array_def)
  from inc_rt_tasks_effect [OF this, where E = E and c = c and p = p] obtain r' where
    R: "rqs (smp_inc_rt_tasks E c p ?S1) = (rqs ?S1)(c := (rqs ?S1 c)\<lparr>q_rt := r'\<rparr>)"
      "tk (smp_inc_rt_tasks E c p ?S1) = tk ?S1" "same_static ?S1 (smp_inc_rt_tasks E c p ?S1)"
      "rto_wf (smp_inc_rt_tasks E c p ?S1)"
    and r': "active r' = active (rtr ?S1 c)" "rt_nr_running r' = rt_nr_running (rtr ?S1 c) + 1"
      "rt_nr_total r' = rt_nr_total (rtr ?S1 c) + 1"
      "rt_nr_migratory r' = rt_nr_migratory (rtr ?S1 c) + (if migratable (tk ?S1 p) then 1 else 0)"
      "highest_curr r' = min (prio (tk ?S1 p)) (highest_curr (rtr ?S1 c))"
      "is_overloaded r' \<longleftrightarrow> rt_nr_migratory r' \<noteq> 0 \<and> rt_nr_total r' > 1"
      "pushable_tasks r' = pushable_tasks (rtr ?S1 c)" "highest_next r' = highest_next (rtr ?S1 c)"
      "rt_queued r' = rt_queued (rtr ?S1 c)" .
  let ?S' = "smp_inc_rt_tasks E c p ?S1"
  have k: "prio (tk ?S1 q) = prio (tk S q)" "nr_cpus_allowed (tk ?S1 q) = nr_cpus_allowed (tk S q)"
    "migratable (tk ?S1 q) = migratable (tk S q)" for q using keeps_taskD(1,2,12) [OF t1(1)] by blast+
  have qs: "?qs = ?q[?n := ?q ! ?n @ [p]] \<or> ?qs = ?q[?n := p # ?q ! ?n]" by simp
  have arr: "arr_wf (tk S) r'"
    by (rule arr_link(1) [OF wf nl p(3,4) refl qs]) (simp_all only: r'(1-6) r1(1) k, simp_all)
  have arr': "arr_wf (tk ?S') r'" using arr arr_wf_cong [of r' "tk ?S'" "tk S"] k by (simp only: R(2))
  have lk: "linked q (rt_queue (active r')) \<longleftrightarrow> (if q = p then True else linked q ?q)" for q
  proof -
    have n: "?n < length ?q" using rng by (simp add: in_range_def)
    show ?thesis using qs linked_add [OF n] unfolding r'(1) r1(1) by auto
  qed
  have rq: "rqs ?S' = (rqs S)(c := (rqs S c)\<lparr>q_rt := r'\<rparr>)" by (simp only: R(1) r1(2)) simp
  have tt: "keeps_task (tk S q) (tk ?S' q)" "rt_on_rq (rt (tk ?S' q)) = (if q = p then True else rt_on_rq (rt (tk S q)))" for q
    using t1 unfolding R(2) by blast+
  have st: "same_static S ?S'" using R(3) by (simp add: set_array_def)
  have pu: "pushable_tasks r' = pushable_tasks (rtr S c)" "highest_next r' = highest_next (rtr S c)" "\<not> rt_queued r'"
    using r'(7-9) off by (simp_all add: set_array_def)
  show ?thesis using smp_inv_x_queue [OF inv rq tt arr' R(4) st pu(1,2,3) off lk p(1)] e by simp
qed

lemma dequeue_self_inv:
  assumes inv: "smp_inv_x S c X" and off: "\<not> rt_queued (rtr S c)" and p: "task_cpu (tk S p) = c"
    "rt_on_rq (rt (tk S p))" and mv: "move_entity flags"
  shows "\<exists>S'. smp_dequeue_rt_entity_self E c p flags S = Some S' \<and> smp_inv_x S' c X \<and> smp_frame S S' \<and>
    (\<forall>i. cpu_queued S' i = (if i = c then cpu_queued S c - {p} else cpu_queued S i))"
proof -
  let ?q = "cpu_queues S c" and ?n = "nat (prio (tk S p))"
  let ?qs = "unlink p ?q"
  let ?bs = "if ?qs ! ?n = [] then (cpu_bitmap S c)[?n := False] else cpu_bitmap S c"
  let ?S1 = "upd_tk_rt (upd_tk_rt (set_array c ?qs ?bs S) p (\<lambda>e. e\<lparr>rt_on_list := False\<rparr>)) p (\<lambda>e. e\<lparr>rt_on_rq := False\<rparr>)"
  note wf = smp_inv_xD(1) [OF inv, of c]
  have l: "linked p ?q" using smp_inv_xD(5) [OF inv] p(1,2) by (auto simp: member_wf_def cpu_queued_def)
  have rng: "in_range (prio (tk S p)) ?q"
    using arr_wfD(12) [OF wf l] arr_wfD(1) [OF wf] by (auto simp: in_range_def rt_prio_ok_def)
  have e: "smp_dequeue_rt_entity_self E c p flags S = Some (smp_dec_rt_tasks E c p ?S1)"
    using mv rng by (simp add: smp_dequeue_rt_entity_self_def smp_delist_rt_entity_def list_del_init_def Let_def)
  have r1: "rtr ?S1 c = (rtr S c)\<lparr>active := (active (rtr S c))\<lparr>rt_queue := ?qs, bitmap := ?bs\<rparr>\<rparr>"
    "rqs ?S1 = (rqs S)(c := (rqs S c)\<lparr>q_rt := (rtr S c)\<lparr>active := (active (rtr S c))\<lparr>rt_queue := ?qs, bitmap := ?bs\<rparr>\<rparr>\<rparr>)"
    by (simp_all add: set_array_def)
  have t1: "keeps_task (tk S q) (tk ?S1 q)" "rt_on_rq (rt (tk ?S1 q)) = (if q = p then False else rt_on_rq (rt (tk S q)))" for q
    by (auto simp: set_array_def)
  have "rto_wf ?S1" using smp_inv_xD(6) [OF inv] by (subst rto_wf_cong [of _ S]) (simp_all add: set_array_def)
  from dec_rt_tasks_effect [OF this, where E = E and c = c and p = p] obtain r' where
    R: "rqs (smp_dec_rt_tasks E c p ?S1) = (rqs ?S1)(c := (rqs ?S1 c)\<lparr>q_rt := r'\<rparr>)"
      "tk (smp_dec_rt_tasks E c p ?S1) = tk ?S1" "same_static ?S1 (smp_dec_rt_tasks E c p ?S1)"
      "rto_wf (smp_dec_rt_tasks E c p ?S1)"
    and r': "active r' = active (rtr ?S1 c)" "rt_nr_running r' = rt_nr_running (rtr ?S1 c) - 1"
      "rt_nr_total r' = rt_nr_total (rtr ?S1 c) - 1"
      "rt_nr_migratory r' = rt_nr_migratory (rtr ?S1 c) - (if migratable (tk ?S1 p) then 1 else 0)"
      "highest_curr r' = (if rt_nr_running r' = 0 then 100 else if prio (tk ?S1 p) = highest_curr (rtr ?S1 c)
         then int (find_first_bit (bitmap (active r'))) else highest_curr (rtr ?S1 c))"
      "is_overloaded r' \<longleftrightarrow> rt_nr_migratory r' \<noteq> 0 \<and> rt_nr_total r' > 1"
      "pushable_tasks r' = pushable_tasks (rtr ?S1 c)" "highest_next r' = highest_next (rtr ?S1 c)"
      "rt_queued r' = rt_queued (rtr ?S1 c)" .
  let ?S' = "smp_dec_rt_tasks E c p ?S1"
  have k: "prio (tk ?S1 q) = prio (tk S q)" "nr_cpus_allowed (tk ?S1 q) = nr_cpus_allowed (tk S q)"
    "migratable (tk ?S1 q) = migratable (tk S q)" for q using keeps_taskD(1,2,12) [OF t1(1)] by blast+
  have h: "highest_curr (rtr ?S1 c) = highest_curr (rtr S c)" by (simp add: set_array_def)
  have arr: "arr_wf (tk S) r'"
    by (rule arr_unlink(1) [OF wf l refl])
      (simp_all only: r'(1-6) r1(1) k h, simp_all)
  have arr': "arr_wf (tk ?S') r'" using arr arr_wf_cong [of r' "tk ?S'" "tk S"] k by (simp only: R(2))
  have lk: "linked q (rt_queue (active r')) \<longleftrightarrow> (if q = p then False else linked q ?q)" for q
    using linked_unlink [OF arr_wfD(3) [OF wf], of q p] unfolding r'(1) r1(1) by simp
  have rq: "rqs ?S' = (rqs S)(c := (rqs S c)\<lparr>q_rt := r'\<rparr>)" by (simp only: R(1) r1(2)) simp
  have tt: "keeps_task (tk S q) (tk ?S' q)" "rt_on_rq (rt (tk ?S' q)) = (if q = p then False else rt_on_rq (rt (tk S q)))" for q
    using t1 unfolding R(2) by blast+
  have st: "same_static S ?S'" using R(3) by (simp add: set_array_def)
  have pu: "pushable_tasks r' = pushable_tasks (rtr S c)" "highest_next r' = highest_next (rtr S c)" "\<not> rt_queued r'"
    using r'(7-9) off by (simp_all add: set_array_def)
  show ?thesis using smp_inv_x_queue [OF inv rq tt arr' R(4) st pu(1,2,3) off lk p(1)] e by simp
qed

text \<open>The whole operations.\<close>

lemma pushables_subset: "pushables S c \<subseteq> cpu_queued S c"
  by (auto simp: pushables_def)

lemma enqueue_entity_inv:
  assumes inv: "smp_inv_x S c X" and p: "task_cpu (tk S p) = c" "\<not> rt_on_rq (rt (tk S p))"
    "rt_prio_ok (prio (tk S p))" "p < max_tasks" and mv: "move_entity flags"
  shows "\<exists>S'. smp_enqueue_rt_entity E c p flags S = Some S' \<and> smp_inv_x S' c X \<and> smp_frame S S' \<and>
    (\<forall>i. cpu_queued S' i = (if i = c then insert p (cpu_queued S c) else cpu_queued S i))"
proof -
  obtain S1 where S1: "smp_dequeue_top_rt_rq c S = Some S1" "acct S S1" "tk S1 = tk S" "\<not> rt_queued (rtr S1 c)"
    using acct_dequeue_top [OF smp_inv_xB(1,2) [OF inv]] by blast
  obtain S2 where S2: "smp_enqueue_rt_entity_self E c p flags S1 = Some S2" "smp_inv_x S2 c X" "smp_frame S1 S2"
    "\<forall>i. cpu_queued S2 i = (if i = c then insert p (cpu_queued S1 c) else cpu_queued S1 i)"
    using enqueue_self_inv [OF acct_inv_x [OF S1(2) inv] S1(4), of p flags E] p mv by (auto simp: S1(3))
  have a: "acct S2 (smp_enqueue_top_rt_rq c S2)" by simp
  have "smp_enqueue_rt_entity E c p flags S = Some (smp_enqueue_top_rt_rq c S2)"
    using S1 S2(1) p(2) by (simp add: smp_enqueue_rt_entity_def smp_dequeue_rt_stack_def)
  then show ?thesis
    using acct_inv_x [OF a S2(2)] smp_frame_trans [OF smp_frame_trans [OF acct_frame [OF S1(2)] S2(3)] acct_frame [OF a]]
      S2(4) acct_queued [OF S1(2)] acct_queued [OF a] by simp
qed

lemma dequeue_entity_inv:
  assumes inv: "smp_inv_x S c X" and p: "task_cpu (tk S p) = c" "rt_on_rq (rt (tk S p))" and mv: "move_entity flags"
  shows "\<exists>S'. smp_dequeue_rt_entity E c p flags S = Some S' \<and> smp_inv_x S' c X \<and> smp_frame S S' \<and>
    (\<forall>i. cpu_queued S' i = (if i = c then cpu_queued S c - {p} else cpu_queued S i))"
proof -
  obtain S1 where S1: "smp_dequeue_top_rt_rq c S = Some S1" "acct S S1" "tk S1 = tk S" "\<not> rt_queued (rtr S1 c)"
    using acct_dequeue_top [OF smp_inv_xB(1,2) [OF inv]] by blast
  obtain S2 where S2: "smp_dequeue_rt_entity_self E c p flags S1 = Some S2" "smp_inv_x S2 c X" "smp_frame S1 S2"
    "\<forall>i. cpu_queued S2 i = (if i = c then cpu_queued S1 c - {p} else cpu_queued S1 i)"
    using dequeue_self_inv [OF acct_inv_x [OF S1(2) inv] S1(4), of p flags E] p mv by (auto simp: S1(3))
  have a: "acct S2 (smp_enqueue_top_rt_rq c S2)" by simp
  have "smp_dequeue_rt_entity E c p flags S = Some (smp_enqueue_top_rt_rq c S2)"
    using S1 S2(1) p(2) by (simp add: smp_dequeue_rt_entity_def smp_dequeue_rt_stack_def)
  then show ?thesis
    using acct_inv_x [OF a S2(2)] smp_frame_trans [OF smp_frame_trans [OF acct_frame [OF S1(2)] S2(3)] acct_frame [OF a]]
      S2(4) acct_queued [OF S1(2)] acct_queued [OF a] by simp
qed

lemma enqueue_task_rt_inv:
  assumes inv: "smp_inv S" and p: "task_cpu (tk S p) = c" "\<not> rt_on_rq (rt (tk S p))"
    "rt_prio_ok (prio (tk S p))" "p < max_tasks" and mv: "move_entity flags"
  shows "\<exists>S'. smp_enqueue_task_rt E c p flags S = Some S' \<and> smp_inv S' \<and> smp_frame S S' \<and>
    (\<forall>i. cpu_queued S' i = (if i = c then insert p (cpu_queued S c) else cpu_queued S i))"
proof -
  let ?S0 = "if flags AND ENQUEUE_WAKEUP \<noteq> 0 then upd_tk_rt S p (\<lambda>e. e\<lparr>rt_timeout := 0\<rparr>) else S"
  have "acct S (upd_tk_rt S p (\<lambda>e. e\<lparr>rt_timeout := 0\<rparr>))" by (rule acct_task) simp_all
  then have a0: "acct S ?S0" by simp
  let ?X = "pushables S c"
  have inv0: "smp_inv_x ?S0 c ?X" using acct_inv_x [OF a0] inv by (simp only: smp_inv_iff [of S c])
  note k0 = keeps_taskD [OF acctD(1) [OF a0], of p]
  have p0: "task_cpu (tk ?S0 p) = c" "\<not> rt_on_rq (rt (tk ?S0 p))" "rt_prio_ok (prio (tk ?S0 p))"
    using p k0(1,3) acctD(2) [OF a0] by simp_all
  from enqueue_entity_inv [OF inv0 p0 p(4) mv, of E] obtain S2 where
    S2: "smp_enqueue_rt_entity E c p flags ?S0 = Some S2" "smp_inv_x S2 c ?X" "smp_frame ?S0 S2"
      "\<forall>i. cpu_queued S2 i = (if i = c then insert p (cpu_queued ?S0 c) else cpu_queued ?S0 i)" by blast
  have q2: "cpu_queued S2 i = (if i = c then insert p (cpu_queued S c) else cpu_queued S i)" for i
    using S2(4) acct_queued [OF a0] by simp
  have f2: "smp_frame S S2" by (rule smp_frame_trans [OF acct_frame [OF a0] S2(3)])
  have nq: "p \<notin> cpu_queued S c" using inv p(1,2) by (auto simp: smp_inv_def member_wf_def)
  let ?add = "\<not> smp_task_current S2 c p \<and> nr_cpus_allowed (tk S2 p) > 1"
  let ?S' = "if ?add then enqueue_pushable_task c p S2 else S2"
  have e: "smp_enqueue_task_rt E c p flags S = Some ?S'"
    using S2(1) unfolding smp_enqueue_task_rt_def Let_def by simp
  have f': "smp_frame S ?S'" using f2 smp_frame_trans [OF f2 pushable_frame(1)] by simp
  have q': "cpu_queued ?S' i = (if i = c then insert p (cpu_queued S c) else cpu_queued S i)" for i using q2 by simp
  have ps: "pushables ?S' c = (if ?add then insert p ?X else ?X)"
    unfolding pushables_def q' smp_frameD(2) [OF f'] keeps_taskD(12) [OF smp_frameD(1) [OF f']]
    using nq keeps_taskD(2,12) [OF smp_frameD(1) [OF f2], of p] smp_frameD(2) [OF f2, of c]
    by (auto simp: smp_task_current_def migratable_def)
  have "smp_inv_x ?S' c (pushables ?S' c)"
  proof (cases ?add)
    case True
    have "p \<notin> ?X" "rt_prio_ok (prio (tk S2 p))"
      using nq pushables_subset [of S c] p(3) keeps_taskD(1) [OF smp_frameD(1) [OF f2], of p] by auto
    from enqueue_pushable_inv [OF S2(2) this] show ?thesis unfolding ps using True by simp
  next
    case False
    show ?thesis using S2(2) ps unfolding if_not_P [OF False] by (simp only:)
  qed
  then show ?thesis using e f' q' smp_inv_iff by blast
qed

lemma dequeue_task_rt_inv:
  assumes inv: "smp_inv S" and p: "task_cpu (tk S p) = c" "rt_on_rq (rt (tk S p))" and mv: "move_entity flags"
  shows "\<exists>S'. smp_dequeue_task_rt E c p flags S = Some S' \<and> smp_inv S' \<and> smp_frame S S' \<and>
    (\<forall>i. cpu_queued S' i = (if i = c then cpu_queued S c - {p} else cpu_queued S i))"
proof -
  let ?X = "pushables S c"
  have invx: "smp_inv_x S c ?X" using inv by (simp only: smp_inv_iff [of S c])
  obtain S1 where S1: "smp_update_curr_rt E c S = Some S1" "acct S S1"
    using acct_update_curr [OF smp_inv_xB(1,2) [OF invx]] by blast
  have p1: "task_cpu (tk S1 p) = c" "rt_on_rq (rt (tk S1 p))"
    using p keeps_taskD(3) [OF acctD(1) [OF S1(2)]] acctD(2) [OF S1(2)] by simp_all
  from dequeue_entity_inv [OF acct_inv_x [OF S1(2) invx] p1 mv, of E] obtain S2 where
    S2: "smp_dequeue_rt_entity E c p flags S1 = Some S2" "smp_inv_x S2 c ?X" "smp_frame S1 S2"
      "\<forall>i. cpu_queued S2 i = (if i = c then cpu_queued S1 c - {p} else cpu_queued S1 i)" by blast
  let ?S' = "dequeue_pushable_task c p S2"
  have e: "smp_dequeue_task_rt E c p flags S = Some ?S'" using S1(1) S2(1) by (simp add: smp_dequeue_task_rt_def)
  have f': "smp_frame S ?S'"
    by (rule smp_frame_trans [OF smp_frame_trans [OF acct_frame [OF S1(2)] S2(3)] pushable_frame(2)])
  have q': "cpu_queued ?S' i = (if i = c then cpu_queued S c - {p} else cpu_queued S i)" for i
    using S2(4) acct_queued [OF S1(2)] by simp
  have "pushables ?S' c = ?X - {p}"
    unfolding pushables_def q' smp_frameD(2) [OF f'] keeps_taskD(12) [OF smp_frameD(1) [OF f']] by auto
  then have "smp_inv_x ?S' c (pushables ?S' c)" using dequeue_pushable_inv [OF S2(2), of p] by simp
  then show ?thesis using e f' q' smp_inv_iff by blast
qed

end
