(* ===== verification/Smp_Push.thy ===== *)
theory Smp_Push
  imports Smp_Rt
begin

text \<open>
  Balancing of real-time tasks between processors, from \<open>kernel/sched/rt.c\<close>: the choice of a
  processor for a task (\<open>select_task_rq_rt\<close>, \<open>find_lowest_rq\<close>), pushing and pulling, the interrupt
  that passes from one overloaded processor to the next (\<open>rto_push_irq_work_func\<close>), and the hooks of
  the class by which the core starts them. The functions of \<open>core.c\<close> that move a task between run
  queues are in front of them.

  The results: pushing and pulling keep the invariant of \<open>Smp_Rt\<close>, so that none of the five \<open>BUG_ON\<close>s of
  \<open>pick_next_pushable_task\<close> is reached; a task is only ever moved to a processor it is allowed on and
  where it beats all real-time tasks; pushing ends; the interrupt reaches every overloaded processor.
\<close>


section \<open>Moving a task between run queues\<close>

definition smp_enqueue_task ::
  "('c, 'x, 'e) senv_scheme \<Rightarrow> cpu \<Rightarrow> pid \<Rightarrow> int \<Rightarrow> ('c, 'x) smp \<Rightarrow> ('c, 'x) smp option" where
  "smp_enqueue_task E c p flags S =
     (let S = (if flags AND ENQUEUE_NOCLOCK = 0 then smp_update_rq_clock c S else S)
      in if sched_class (tk S p) = RtClass then smp_enqueue_task_rt E c p flags S
         else o_enqueue E (sched_class (tk S p)) c p flags S)"

definition smp_dequeue_task ::
  "('c, 'x, 'e) senv_scheme \<Rightarrow> cpu \<Rightarrow> pid \<Rightarrow> int \<Rightarrow> ('c, 'x) smp \<Rightarrow> ('c, 'x) smp option" where
  "smp_dequeue_task E c p flags S =
     (let S = (if flags AND DEQUEUE_NOCLOCK = 0 then smp_update_rq_clock c S else S)
      in if sched_class (tk S p) = RtClass then smp_dequeue_task_rt E c p flags S
         else o_dequeue E (sched_class (tk S p)) c p flags S)"

definition smp_activate_task ::
  "('c, 'x, 'e) senv_scheme \<Rightarrow> cpu \<Rightarrow> pid \<Rightarrow> int \<Rightarrow> ('c, 'x) smp \<Rightarrow> ('c, 'x) smp option" where
  "smp_activate_task E c p flags S =
     smp_enqueue_task E c p flags
       (if task_contributes_to_load (tk S p)
        then upd_rq S c (\<lambda>q. q\<lparr>q_nr_uninterruptible := q_nr_uninterruptible q - 1\<rparr>) else S)"

definition smp_deactivate_task ::
  "('c, 'x, 'e) senv_scheme \<Rightarrow> cpu \<Rightarrow> pid \<Rightarrow> int \<Rightarrow> ('c, 'x) smp \<Rightarrow> ('c, 'x) smp option" where
  "smp_deactivate_task E c p flags S =
     smp_dequeue_task E c p flags
       (if task_contributes_to_load (tk S p)
        then upd_rq S c (\<lambda>q. q\<lparr>q_nr_uninterruptible := q_nr_uninterruptible q + 1\<rparr>) else S)"

text \<open>\<open>set_task_cpu\<close>; the function \<open>migrate_task_rq\<close> of the fair class has no counterpart.\<close>

definition set_task_cpu :: "pid \<Rightarrow> cpu \<Rightarrow> ('c, 'x) smp \<Rightarrow> ('c, 'x) smp" where
  "set_task_cpu p new_cpu S =
     (let S = (if task_cpu (tk S p) \<noteq> new_cpu
               then upd_tk S p (\<lambda>t. t\<lparr>se := (se t)\<lparr>nr_migrations := nr_migrations (se t) + 1\<rparr>\<rparr>) else S)
      in upd_tk S p (\<lambda>t. t\<lparr>task_cpu := new_cpu, wake_cpu := new_cpu\<rparr>))"

text \<open>The sequence of \<open>deactivate_task\<close>, \<open>set_task_cpu\<close> and \<open>activate_task\<close> by which push and pull move
  a task.\<close>

definition move_task ::
  "('c, 'x, 'e) senv_scheme \<Rightarrow> cpu \<Rightarrow> cpu \<Rightarrow> pid \<Rightarrow> ('c, 'x) smp \<Rightarrow> ('c, 'x) smp option" where
  "move_task E src dst p S = do {
     S \<leftarrow> smp_deactivate_task E src p 0 S;
     smp_activate_task E dst p 0 (set_task_cpu p dst S)
   }"


section \<open>Choosing a processor\<close>

definition pick_rt_task :: "pid \<Rightarrow> cpu \<Rightarrow> ('c, 'x) smp \<Rightarrow> bool" where
  "pick_rt_task p cpu S \<longleftrightarrow> \<not> smp_task_running S p \<and> cpus_allowed (tk S p) cpu"

definition pick_highest_pushable_task :: "cpu \<Rightarrow> cpu \<Rightarrow> ('c, 'x) smp \<Rightarrow> pid option" where
  "pick_highest_pushable_task c cpu S =
     (if \<not> has_pushable_tasks c S then None
      else map_option snd (find (\<lambda>n. pick_rt_task (snd n) cpu S) (pushable_tasks (rtr S c))))"

text \<open>The loop over the scheduling domains of the task's processor, with \<open>this\<close> the present processor if
  it is among the lowest.\<close>

fun find_in_domains :: "nat \<Rightarrow> cpumask \<Rightarrow> cpu option \<Rightarrow> (bool \<times> cpumask) list \<Rightarrow> cpu option" where
  "find_in_domains n lowest this [] = None"
| "find_in_domains n lowest this ((affine, span) # sds) =
     (if affine then
        if (\<exists>t \<in> set_option this. span t) then this
        else let best = cpumask_first_and n lowest span
             in if best < n then Some best else find_in_domains n lowest this sds
      else find_in_domains n lowest this sds)"

text \<open>\<open>None\<close> is the result \<open>-1\<close>.\<close>

definition find_lowest_rq :: "('c, 'x, 'e) senv_scheme \<Rightarrow> pid \<Rightarrow> ('c, 'x) smp \<Rightarrow> cpu option" where
  "find_lowest_rq E p S =
     (let t = tk S p; cpu = task_cpu t; n = nr_cpu_ids S
      in if nr_cpus_allowed t = 1 then None
         else case cpupri_find E (cpupri (rd S)) t of
           None \<Rightarrow> None
         | Some lowest \<Rightarrow>
             if lowest cpu then Some cpu
             else
               let this = (if lowest (this_cpu S) then Some (this_cpu S) else None)
               in case find_in_domains n lowest this (domains E cpu) of
                    Some c \<Rightarrow> Some c
                  | None \<Rightarrow>
                      if this \<noteq> None then this
                      else let c = cpumask_first n lowest in if c < n then Some c else None)"

definition select_task_rq_rt ::
  "('c, 'x, 'e) senv_scheme \<Rightarrow> pid \<Rightarrow> cpu \<Rightarrow> int \<Rightarrow> int \<Rightarrow> ('c, 'x) smp \<Rightarrow> cpu" where
  "select_task_rq_rt E p cpu sd_flag flags S =
     (if sd_flag \<noteq> SD_BALANCE_WAKE \<and> sd_flag \<noteq> SD_BALANCE_FORK then cpu
      else
        let cur = tk S (q_curr (rqs S cpu))
        in if rt_task cur \<and> (nr_cpus_allowed cur < 2 \<or> prio cur \<le> prio (tk S p)) then
             case find_lowest_rq E p S of
               Some target \<Rightarrow> if prio (tk S p) < highest_curr (rtr S target) then target else cpu
             | None \<Rightarrow> cpu
           else cpu)"

text \<open>\<open>RT_MAX_TRIES\<close> is 3; the flag of \<open>double_lock_balance\<close> says that the lock was given up.\<close>

fun find_lock_tries ::
  "nat \<Rightarrow> ('c, 'x, 'e) senv_scheme \<Rightarrow> pid \<Rightarrow> cpu \<Rightarrow> ('c, 'x) smp \<Rightarrow> cpu option \<times> ('c, 'x) smp" where
  "find_lock_tries 0 E p c S = (None, S)"
| "find_lock_tries (Suc tries) E p c S =
     (case find_lowest_rq E p S of
        None \<Rightarrow> (None, S)
      | Some cpu \<Rightarrow>
          if cpu = c then (None, S)
          else if highest_curr (rtr S cpu) \<le> prio (tk S p) then (None, S)
          else case double_lock_balance E c cpu S of (dropped, S) \<Rightarrow>
            if dropped \<and> (task_cpu (tk S p) \<noteq> c \<or> \<not> cpus_allowed (tk S p) cpu \<or> smp_task_running S p \<or>
                 \<not> rt_task (tk S p) \<or> \<not> task_on_rq_queued (tk S p))
            then (None, S)
            else if highest_curr (rtr S cpu) > prio (tk S p) then (Some cpu, S)
            else find_lock_tries tries E p c S)"

definition find_lock_lowest_rq ::
  "('c, 'x, 'e) senv_scheme \<Rightarrow> pid \<Rightarrow> cpu \<Rightarrow> ('c, 'x) smp \<Rightarrow> cpu option \<times> ('c, 'x) smp" where
  "find_lock_lowest_rq E p c S = find_lock_tries 3 E p c S"


section \<open>Pushing\<close>

text \<open>The outer \<open>None\<close> is one of the \<open>BUG_ON\<close>s, the inner one that there is no pushable task.\<close>

definition pick_next_pushable_task :: "cpu \<Rightarrow> ('c, 'x) smp \<Rightarrow> pid option option" where
  "pick_next_pushable_task c S =
     (case pushable_tasks (rtr S c) of
        [] \<Rightarrow> Some None
      | n # _ \<Rightarrow>
          let p = snd n
          in if c \<noteq> task_cpu (tk S p) then None
             else if smp_task_current S c p then None
             else if nr_cpus_allowed (tk S p) \<le> 1 then None
             else if \<not> task_on_rq_queued (tk S p) then None
             else if \<not> rt_task (tk S p) then None
             else Some (Some p))"

text \<open>The part of \<open>push_rt_task\<close> behind the label \<open>retry\<close>.\<close>

partial_function (option) push_retry ::
  "('c, 'x, 'e) senv_scheme \<Rightarrow> cpu \<Rightarrow> pid \<Rightarrow> ('c, 'x) smp \<Rightarrow> (bool \<times> ('c, 'x) smp) option" where
  "push_retry E c next S =
     (if next = q_curr (rqs S c) then Some (False, S)
      else if prio (tk S next) < prio (tk S (q_curr (rqs S c))) then Some (False, smp_resched_curr c S)
      else case find_lock_lowest_rq E next c S of
        (None, S) \<Rightarrow>
          (case pick_next_pushable_task c S of
             None \<Rightarrow> None
           | Some None \<Rightarrow> Some (False, S)
           | Some (Some task) \<Rightarrow> if task = next then Some (False, S) else push_retry E c task S)
      | (Some lowest, S) \<Rightarrow>
          (case move_task E c lowest next S of
             None \<Rightarrow> None | Some S \<Rightarrow> Some (True, smp_resched_curr lowest S)))"

definition push_rt_task ::
  "('c, 'x, 'e) senv_scheme \<Rightarrow> cpu \<Rightarrow> ('c, 'x) smp \<Rightarrow> (bool \<times> ('c, 'x) smp) option" where
  "push_rt_task E c S =
     (if \<not> is_overloaded (rtr S c) then Some (False, S)
      else case pick_next_pushable_task c S of
        None \<Rightarrow> None
      | Some None \<Rightarrow> Some (False, S)
      | Some (Some next_task) \<Rightarrow> push_retry E c next_task S)"

partial_function (option) push_rt_tasks ::
  "('c, 'x, 'e) senv_scheme \<Rightarrow> cpu \<Rightarrow> ('c, 'x) smp \<Rightarrow> ('c, 'x) smp option" where
  "push_rt_tasks E c S =
     (case push_rt_task E c S of
        None \<Rightarrow> None
      | Some (pushed, S) \<Rightarrow> if pushed then push_rt_tasks E c S else Some S)"

declare push_retry.simps [code] push_rt_tasks.simps [code]


section \<open>Pulling\<close>

text \<open>
  \<open>rto_next_cpu\<close>: the loop runs again at most once, since then \<open>rto_loop\<close> is \<open>rto_loop_next\<close>.
\<close>

function rto_next_cpu :: "nat \<Rightarrow> 'c root_domain \<Rightarrow> int \<times> 'c root_domain" where
  "rto_next_cpu n d =
     (let cpu = cpumask_next n (rto_cpu d) (rto_mask d); d = d\<lparr>rto_cpu := int cpu\<rparr>
      in if cpu < n then (int cpu, d)
         else
           let d = d\<lparr>rto_cpu := - 1\<rparr>
           in if rto_loop d = rto_loop_next d then (- 1, d)
              else rto_next_cpu n (d\<lparr>rto_loop := rto_loop_next d\<rparr>))"
  by pat_completeness auto
termination
  by (relation "measure (\<lambda>(n, d). if rto_loop d = rto_loop_next d then 0 else 1)") auto

declare rto_next_cpu.simps [simp del]

text \<open>\<open>irq_work_queue_on\<close>: work that is pending is not queued again.\<close>

definition irq_work_queue_on :: "cpu \<Rightarrow> 'c root_domain \<Rightarrow> 'c root_domain" where
  "irq_work_queue_on cpu d =
     (case rto_push_work d of None \<Rightarrow> d\<lparr>rto_push_work := Some cpu\<rparr> | Some _ \<Rightarrow> d)"

definition rto_start_trylock :: "'c root_domain \<Rightarrow> bool \<times> 'c root_domain" where
  "rto_start_trylock d = (\<not> rto_loop_start d, d\<lparr>rto_loop_start := True\<rparr>)"

definition rto_start_unlock :: "'c root_domain \<Rightarrow> 'c root_domain" where
  "rto_start_unlock d = d\<lparr>rto_loop_start := False\<rparr>"

definition tell_cpu_to_push :: "('c, 'x) smp \<Rightarrow> ('c, 'x) smp" where
  "tell_cpu_to_push S =
     upd_rd S (\<lambda>d.
       let d = d\<lparr>rto_loop_next := rto_loop_next d + 1\<rparr>
       in case rto_start_trylock d of (got, d) \<Rightarrow>
            if \<not> got then d
            else
              let (cpu, d) = (if rto_cpu d < 0 then rto_next_cpu (nr_cpu_ids S) d else (- 1, d));
                  d = rto_start_unlock d
              in if cpu \<ge> 0 then irq_work_queue_on (nat cpu) (d\<lparr>rd_refcount := rd_refcount d + 1\<rparr>) else d)"

text \<open>The handler runs on the processor \<open>this_cpu\<close>, with the work no longer pending.\<close>

definition rto_push_irq_work_func ::
  "('c, 'x, 'e) senv_scheme \<Rightarrow> ('c, 'x) smp \<Rightarrow> ('c, 'x) smp option" where
  "rto_push_irq_work_func E S = do {
     S \<leftarrow> (if has_pushable_tasks (this_cpu S) S then push_rt_tasks E (this_cpu S) S else Some S);
     Some (upd_rd S (\<lambda>d.
       case rto_next_cpu (nr_cpu_ids S) d of (cpu, d) \<Rightarrow>
         if cpu < 0 then d\<lparr>rd_refcount := rd_refcount d - 1\<rparr> else irq_work_queue_on (nat cpu) d))
   }"

text \<open>One processor of the loop of \<open>pull_rt_task\<close>; the mask is read again for every processor.\<close>

definition pull_from ::
  "('c, 'x, 'e) senv_scheme \<Rightarrow> cpu \<Rightarrow> cpu \<Rightarrow> bool \<times> ('c, 'x) smp \<Rightarrow> (bool \<times> ('c, 'x) smp) option" where
  "pull_from E this src = (\<lambda>(resched, S).
     if \<not> rto_mask (rd S) src \<or> this = src then Some (resched, S)
     else if highest_next (rtr S src) \<ge> highest_curr (rtr S this) then Some (resched, S)
     else
       let S = snd (double_lock_balance E this src S)
       in case pick_highest_pushable_task src this S of
            None \<Rightarrow> Some (resched, S)
          | Some p \<Rightarrow>
              if prio (tk S p) < highest_curr (rtr S this) then
                if prio (tk S p) < prio (tk S (q_curr (rqs S src))) then Some (resched, S)
                else map_option (Pair True) (move_task E src this p S)
              else Some (resched, S))"

fun pull_loop ::
  "('c, 'x, 'e) senv_scheme \<Rightarrow> cpu \<Rightarrow> cpu list \<Rightarrow> bool \<times> ('c, 'x) smp \<Rightarrow> (bool \<times> ('c, 'x) smp) option" where
  "pull_loop E this [] s = Some s"
| "pull_loop E this (src # cpus) s = do { s \<leftarrow> pull_from E this src s; pull_loop E this cpus s }"

definition pull_rt_task ::
  "('c, 'x, 'e) senv_scheme \<Rightarrow> cpu \<Rightarrow> ('c, 'x) smp \<Rightarrow> ('c, 'x) smp option" where
  "pull_rt_task E this S =
     (let rt_overload_count = rt_overloaded S
      in if rt_overload_count = 0 then Some S
         else if rt_overload_count = 1 \<and> rto_mask (rd S) this then Some S
         else if RT_PUSH_IPI E then Some (tell_cpu_to_push S)
         else do {
           (resched, S) \<leftarrow> pull_loop E this [0..<nr_cpu_ids S] (False, S);
           Some (if resched then smp_resched_curr this S else S)
         })"

section \<open>The hooks of the class\<close>

definition task_woken_rt ::
  "('c, 'x, 'e) senv_scheme \<Rightarrow> cpu \<Rightarrow> pid \<Rightarrow> ('c, 'x) smp \<Rightarrow> ('c, 'x) smp option" where
  "task_woken_rt E c p S =
     (let cur = tk S (q_curr (rqs S c))
      in if \<not> smp_task_running S p \<and> \<not> need_resched cur \<and> nr_cpus_allowed (tk S p) > 1 \<and>
            (dl_task cur \<or> rt_task cur) \<and> (nr_cpus_allowed cur < 2 \<or> prio cur \<le> prio (tk S p))
         then push_rt_tasks E c S else Some S)"

definition rq_online_rt :: "('c, 'x, 'e) senv_scheme \<Rightarrow> cpu \<Rightarrow> ('c, 'x) smp \<Rightarrow> ('c, 'x) smp" where
  "rq_online_rt E c S =
     (let S = (if is_overloaded (rtr S c) then rt_set_overload c S else S);
          S = enable_runtime c S
      in rd_cpupri_set E c (highest_curr (rtr S c)) S)"

definition rq_offline_rt :: "('c, 'x, 'e) senv_scheme \<Rightarrow> cpu \<Rightarrow> ('c, 'x) smp \<Rightarrow> ('c, 'x) smp option" where
  "rq_offline_rt E c S = do {
     let S = (if is_overloaded (rtr S c) then rt_clear_overload c S else S);
     S \<leftarrow> disable_runtime c S;
     Some (rd_cpupri_set E c CPUPRI_INVALID S)
   }"

text \<open>\<open>set_rq_online\<close> and \<open>set_rq_offline\<close> of \<open>core.c\<close> for the real-time class.\<close>

definition set_rq_online :: "('c, 'x, 'e) senv_scheme \<Rightarrow> cpu \<Rightarrow> ('c, 'x) smp \<Rightarrow> ('c, 'x) smp" where
  "set_rq_online E c S =
     (if \<not> q_online (rqs S c)
      then rq_online_rt E c (upd_rq (upd_rd S (\<lambda>d. d\<lparr>rd_online := (rd_online d)(c := True)\<rparr>)) c
             (\<lambda>q. q\<lparr>q_online := True\<rparr>))
      else S)"

definition set_rq_offline :: "('c, 'x, 'e) senv_scheme \<Rightarrow> cpu \<Rightarrow> ('c, 'x) smp \<Rightarrow> ('c, 'x) smp option" where
  "set_rq_offline E c S =
     (if q_online (rqs S c)
      then map_option (\<lambda>S. upd_rq (upd_rd S (\<lambda>d. d\<lparr>rd_online := (rd_online d)(c := False)\<rparr>)) c
             (\<lambda>q. q\<lparr>q_online := False\<rparr>)) (rq_offline_rt E c S)
      else Some S)"

definition switched_from_rt :: "cpu \<Rightarrow> pid \<Rightarrow> ('c, 'x) smp \<Rightarrow> ('c, 'x) smp" where
  "switched_from_rt c p S =
     (if \<not> task_on_rq_queued (tk S p) \<or> rt_nr_running (rtr S c) \<noteq> 0 then S else rt_queue_pull_task c S)"

definition smp_switched_to_rt :: "cpu \<Rightarrow> pid \<Rightarrow> ('c, 'x) smp \<Rightarrow> ('c, 'x) smp" where
  "smp_switched_to_rt c p S =
     (if task_on_rq_queued (tk S p) \<and> q_curr (rqs S c) \<noteq> p then
        let S = (if nr_cpus_allowed (tk S p) > 1 \<and> is_overloaded (rtr S c) then rt_queue_push_tasks c S else S)
        in if prio (tk S p) < prio (tk S (q_curr (rqs S c))) \<and> cpu_online_mask S c then smp_resched_curr c S else S
      else S)"

definition smp_prio_changed_rt :: "cpu \<Rightarrow> pid \<Rightarrow> int \<Rightarrow> ('c, 'x) smp \<Rightarrow> ('c, 'x) smp" where
  "smp_prio_changed_rt c p oldprio S =
     (if \<not> task_on_rq_queued (tk S p) then S
      else if q_curr (rqs S c) = p then
        let S = (if oldprio < prio (tk S p) then rt_queue_pull_task c S else S)
        in if prio (tk S p) > highest_curr (rtr S c) then smp_resched_curr c S else S
      else if prio (tk S p) < prio (tk S (q_curr (rqs S c))) then smp_resched_curr c S else S)"

definition smp_requeue_task_rt :: "cpu \<Rightarrow> pid \<Rightarrow> bool \<Rightarrow> ('c, 'x) smp \<Rightarrow> ('c, 'x) smp option" where
  "smp_requeue_task_rt c p head S =
     (if rt_on_rq (rt (tk S p))
      then map_option (\<lambda>qs. set_array c qs (cpu_bitmap S c) S)
             (if head then list_move p (prio (tk S p)) (cpu_queues S c)
              else list_move_tail p (prio (tk S p)) (cpu_queues S c))
      else Some S)"

definition check_preempt_equal_prio ::
  "('c, 'x, 'e) senv_scheme \<Rightarrow> cpu \<Rightarrow> pid \<Rightarrow> ('c, 'x) smp \<Rightarrow> ('c, 'x) smp option" where
  "check_preempt_equal_prio E c p S =
     (let cur = tk S (q_curr (rqs S c)); m = cpupri (rd S)
      in if nr_cpus_allowed cur = 1 \<or> cpupri_find E m cur = None then Some S
         else if nr_cpus_allowed (tk S p) \<noteq> 1 \<and> cpupri_find E m (tk S p) \<noteq> None then Some S
         else map_option (smp_resched_curr c) (smp_requeue_task_rt c p True S))"

definition smp_check_preempt_curr_rt ::
  "('c, 'x, 'e) senv_scheme \<Rightarrow> cpu \<Rightarrow> pid \<Rightarrow> int \<Rightarrow> ('c, 'x) smp \<Rightarrow> ('c, 'x) smp option" where
  "smp_check_preempt_curr_rt E c p flags S =
     (let cur = tk S (q_curr (rqs S c))
      in if prio (tk S p) < prio cur then Some (smp_resched_curr c S)
         else if prio (tk S p) = prio cur \<and> \<not> need_resched cur then check_preempt_equal_prio E c p S
         else Some S)"

definition smp_put_prev_task_rt ::
  "('c, 'x, 'e) senv_scheme \<Rightarrow> cpu \<Rightarrow> pid \<Rightarrow> ('c, 'x) smp \<Rightarrow> ('c, 'x) smp option" where
  "smp_put_prev_task_rt E c p S = do {
     S \<leftarrow> smp_update_curr_rt E c S;
     Some (if rt_on_rq (rt (tk S p)) \<and> nr_cpus_allowed (tk S p) > 1 then enqueue_pushable_task c p S else S)
   }"

definition smp_put_prev_task ::
  "('c, 'x, 'e) senv_scheme \<Rightarrow> cpu \<Rightarrow> pid \<Rightarrow> ('c, 'x) smp \<Rightarrow> ('c, 'x) smp option" where
  "smp_put_prev_task E c p S =
     (if sched_class (tk S p) = RtClass then smp_put_prev_task_rt E c p S
      else o_put_prev E (sched_class (tk S p)) c p S)"

definition smp_set_curr_task_rt :: "cpu \<Rightarrow> ('c, 'x) smp \<Rightarrow> ('c, 'x) smp" where
  "smp_set_curr_task_rt c S =
     (let p = q_curr (rqs S c)
      in dequeue_pushable_task c p
           (upd_tk S p (\<lambda>t. t\<lparr>se := (se t)\<lparr>exec_start := q_clock_task (rqs S c)\<rparr>\<rparr>)))"

datatype pick_result = RETRY_TASK | NoTask | Picked pid

definition smp_pick_rt_head :: "cpu \<Rightarrow> ('c, 'x) smp \<Rightarrow> (pid \<times> ('c, 'x) smp) option" where
  "smp_pick_rt_head c S =
     (let idx = find_first_bit (cpu_bitmap S c)
      in if 100 \<le> idx then None
         else case cpu_queues S c ! idx of [] \<Rightarrow> None
           | p # _ \<Rightarrow> Some (p, upd_tk S p (\<lambda>t. t\<lparr>se := (se t)\<lparr>exec_start := q_clock_task (rqs S c)\<rparr>\<rparr>)))"

definition pick_rt_now ::
  "('c, 'x, 'e) senv_scheme \<Rightarrow> cpu \<Rightarrow> pid \<Rightarrow> ('c, 'x) smp \<Rightarrow> (pick_result \<times> ('c, 'x) smp) option" where
  "pick_rt_now E c prev S = do {
     S \<leftarrow> (if sched_class (tk S prev) = RtClass then smp_update_curr_rt E c S else Some S);
     (if \<not> rt_queued (rtr S c) then Some (NoTask, S)
      else do {
        S \<leftarrow> smp_put_prev_task E c prev S;
        (p, S) \<leftarrow> smp_pick_rt_head c S;
        Some (Picked p, rt_queue_push_tasks c (dequeue_pushable_task c p S))
      })
   }"

definition smp_pick_next_task_rt ::
  "('c, 'x, 'e) senv_scheme \<Rightarrow> cpu \<Rightarrow> pid \<Rightarrow> ('c, 'x) smp \<Rightarrow> (pick_result \<times> ('c, 'x) smp) option" where
  "smp_pick_next_task_rt E c prev S =
     (if need_pull_rt_task c prev S then do {
        S \<leftarrow> pull_rt_task E c S;
        (if (\<exists>s \<in> set_option (q_stop (rqs S c)). task_on_rq_queued (tk S s)) \<or> q_dl_nr_running (rqs S c) \<noteq> 0
         then Some (RETRY_TASK, S) else pick_rt_now E c prev S)
      } else pick_rt_now E c prev S)"

text \<open>\<open>balance_callback\<close> of \<open>core.c\<close>, which runs what the class has queued.\<close>

fun run_callbacks ::
  "('c, 'x, 'e) senv_scheme \<Rightarrow> cpu \<Rightarrow> callback_head list \<Rightarrow> ('c, 'x) smp \<Rightarrow> ('c, 'x) smp option" where
  "run_callbacks E c [] S = Some S"
| "run_callbacks E c (h # hs) S = do {
     S \<leftarrow> (case h of rt_push_head \<Rightarrow> push_rt_tasks E c S | rt_pull_head \<Rightarrow> pull_rt_task E c S);
     run_callbacks E c hs S
   }"

definition balance_callback ::
  "('c, 'x, 'e) senv_scheme \<Rightarrow> cpu \<Rightarrow> ('c, 'x) smp \<Rightarrow> ('c, 'x) smp option" where
  "balance_callback E c S =
     run_callbacks E c (q_balance_callback (rqs S c)) (upd_rq S c (\<lambda>q. q\<lparr>q_balance_callback := []\<rparr>))"


section \<open>The system and its environment\<close>

text \<open>
  Beside the invariant of the queues: a task on a real-time queue belongs to the class and is marked
  as queued; a task that is marked as queued and has a real-time priority is on such a queue, unless it
  is a stop task; and there are no deadline tasks.
\<close>

definition tasks_wf :: "('c, 'x) smp \<Rightarrow> bool" where
  "tasks_wf S \<longleftrightarrow>
     (\<forall>c p. p \<in> cpu_queued S c \<longrightarrow> sched_class (tk S p) = RtClass \<and> on_rq (tk S p) = TASK_ON_RQ_QUEUED) \<and>
     (\<forall>p. on_rq (tk S p) = TASK_ON_RQ_QUEUED \<longrightarrow> rt_task (tk S p) \<longrightarrow> sched_class (tk S p) \<noteq> StopClass \<longrightarrow>
        rt_on_rq (rt (tk S p))) \<and>
     (\<forall>p. 0 \<le> prio (tk S p))"

definition rt_sys :: "('c, 'x) smp \<Rightarrow> bool" where
  "rt_sys S \<longleftrightarrow> smp_inv S \<and> tasks_wf S"

text \<open>
  The priority map only returns processors the task is allowed on; giving up a lock lets others
  change the system, but not break it, and nothing changes when the lock is not given up.
\<close>

definition find_ok :: "('c, 'x, 'e) senv_scheme \<Rightarrow> bool" where
  "find_ok E \<longleftrightarrow> (\<forall>m t M c. cpupri_find E m t = Some M \<longrightarrow> M c \<longrightarrow> cpus_allowed t c)"

definition lock_ok :: "('c, 'x, 'e) senv_scheme \<Rightarrow> bool" where
  "lock_ok E \<longleftrightarrow> (\<forall>c l S. rt_sys S \<longrightarrow> (case double_lock_balance E c l S of (dropped, S') \<Rightarrow>
     rt_sys S' \<and> (\<not> dropped \<longrightarrow> S' = S) \<and>
     (\<forall>p. sched_class (tk S' p) = StopClass \<longrightarrow> sched_class (tk S p) = StopClass)))"

definition all_queued :: "('c, 'x) smp \<Rightarrow> pid set" where
  "all_queued S = (\<Union>c. cpu_queued S c)"

lemma on_rq_all_queued: "member_wf S \<Longrightarrow> rt_on_rq (rt (tk S p)) \<longleftrightarrow> p \<in> all_queued S"
  by (auto simp: member_wf_def all_queued_def)

lemma queued_on: "member_wf S \<Longrightarrow> p \<in> cpu_queued S c \<longleftrightarrow> rt_on_rq (rt (tk S p)) \<and> task_cpu (tk S p) = c"
  by (auto simp: member_wf_def)

lemma smp_invD:
  assumes "smp_inv S"
  shows "arr_wf (tk S) (rtr S c)" "push_wf (tk S) (rtr S c) (pushables S c)" "top_wf (rqs S c)" "member_wf S" "rto_wf S"
  using assms by (simp_all add: smp_inv_def)

text \<open>What moving a task leaves alone: everything of a task that decides where it may run, and all
  run queues but for their queues.\<close>

definition same_view :: "smp_task \<Rightarrow> smp_task \<Rightarrow> bool" where
  "same_view t t' \<longleftrightarrow> prio t' = prio t \<and> nr_cpus_allowed t' = nr_cpus_allowed t \<and> on_rq t' = on_rq t \<and>
     cpus_allowed t' = cpus_allowed t \<and> on_cpu t' = on_cpu t \<and> sched_class t' = sched_class t \<and>
     policy t' = policy t \<and> state t' = state t \<and> tflags t' = tflags t \<and> in_iowait t' = in_iowait t"

definition moved_frame :: "('c, 'x) smp \<Rightarrow> ('c, 'x) smp \<Rightarrow> bool" where
  "moved_frame S S' \<longleftrightarrow> (\<forall>p. same_view (tk S p) (tk S' p)) \<and> (\<forall>c. keeps_rq (rqs S c) (rqs S' c)) \<and> same_static S S'"

lemma same_view_keeps: "keeps_task t t' \<Longrightarrow> same_view t t'"
  using keeps_taskD [of t t'] by (simp add: same_view_def)

lemma smp_frame_moved: "smp_frame S S' \<Longrightarrow> moved_frame S S'"
  by (simp add: smp_frame_def moved_frame_def same_view_keeps)

lemma moved_frame_refl [simp]: "moved_frame S S"
  by (simp add: smp_frame_moved)

lemma moved_frameD:
  assumes "moved_frame S S'"
  shows "same_view (tk S p) (tk S' p)" "keeps_rq (rqs S c) (rqs S' c)" "same_static S S'"
  using assms by (simp_all add: moved_frame_def)

lemma moved_frame_trans:
  assumes "moved_frame S S1" "moved_frame S1 S2"
  shows "moved_frame S S2"
proof -
  have "same_view (tk S p) (tk S2 p)" for p
    using moved_frameD(1) [OF assms(1), of p] moved_frameD(1) [OF assms(2), of p] by (simp add: same_view_def)
  then show ?thesis
    using keeps_rq_trans [OF moved_frameD(2) [OF assms(1)] moved_frameD(2) [OF assms(2)]]
      same_static_trans [OF moved_frameD(3) [OF assms(1)] moved_frameD(3) [OF assms(2)]]
    by (simp add: moved_frame_def)
qed

lemma tasks_wf_cong:
  assumes "moved_frame S S'" "member_wf S" "member_wf S'" "all_queued S' = all_queued S"
  shows "tasks_wf S' = tasks_wf S"
proof -
  have v: "sched_class (tk S' p) = sched_class (tk S p)" "on_rq (tk S' p) = on_rq (tk S p)" "prio (tk S' p) = prio (tk S p)"
    "rt_task (tk S' p) = rt_task (tk S p)" for p
    using moved_frameD(1) [OF assms(1), of p] by (simp_all add: same_view_def rt_task_def)
  have "(\<forall>c p. p \<in> cpu_queued T c \<longrightarrow> P p) \<longleftrightarrow> (\<forall>p. p \<in> all_queued T \<longrightarrow> P p)" for P and T :: "('a, 'b) smp"
    by (auto simp: all_queued_def)
  then show ?thesis
    unfolding tasks_wf_def v on_rq_all_queued [OF assms(2)] on_rq_all_queued [OF assms(3)] assms(4) by (simp add: assms(4))
qed

text \<open>A task that is not queued may be given to another processor.\<close>

lemma set_task_cpu_inv:
  assumes inv: "smp_inv S" and p: "\<not> rt_on_rq (rt (tk S p))"
  shows "smp_inv (set_task_cpu p dst S)" "cpu_queued (set_task_cpu p dst S) c = cpu_queued S c"
    "moved_frame S (set_task_cpu p dst S)" "task_cpu (tk (set_task_cpu p dst S) p) = dst"
    "rt (tk (set_task_cpu p dst S) q) = rt (tk S q)" "q \<noteq> p \<Longrightarrow> tk (set_task_cpu p dst S) q = tk S q"
proof -
  let ?S = "set_task_cpu p dst S"
  have r: "rqs ?S = rqs S" "rd ?S = rd S" "same_static S ?S" by (simp_all add: set_task_cpu_def Let_def)
  have t: "same_view (tk S q) (tk ?S q)" "rt (tk ?S q) = rt (tk S q)" "q \<noteq> p \<Longrightarrow> tk ?S q = tk S q" for q
    by (simp_all add: set_task_cpu_def Let_def same_view_def)
  show d: "task_cpu (tk ?S p) = dst" by (simp add: set_task_cpu_def Let_def)
  show q: "cpu_queued ?S c = cpu_queued S c" for c by (simp add: cpu_queued_def r)
  show "moved_frame S ?S" using t(1) r by (simp add: moved_frame_def)
  show "rt (tk ?S q) = rt (tk S q)" "q \<noteq> p \<Longrightarrow> tk ?S q = tk S q" by (fact t)+
  have k: "prio (tk ?S q) = prio (tk S q)" "nr_cpus_allowed (tk ?S q) = nr_cpus_allowed (tk S q)"
    "migratable (tk ?S q) = migratable (tk S q)" for q
    using t(1) [of q] by (simp_all add: same_view_def migratable_def)
  have ps: "pushables ?S c = pushables S c" for c by (simp add: pushables_def q k(3) r)
  have nq: "p \<notin> cpu_queued S c" for c using smp_invD(4) [OF inv] p by (auto simp: member_wf_def)
  have m: "member_wf ?S"
    unfolding member_wf_def q t(2)
  proof (intro conjI allI impI)
    show "rt_on_rq (rt (tk S x)) \<longleftrightarrow> x \<in> cpu_queued S (task_cpu (tk ?S x))" for x
      using smp_invD(4) [OF inv] nq p t(3) [of x] by (cases "x = p") (simp_all add: member_wf_def)
    show "task_cpu (tk ?S x) = i" if "x \<in> cpu_queued S i" for x i
      using smp_invD(4) [OF inv] nq that t(3) [of x] by (cases "x = p") (auto simp: member_wf_def)
  qed
  have "arr_wf (tk ?S) r = arr_wf (tk S) r" "push_wf (tk ?S) r X = push_wf (tk S) r X" for r X
    by (rule arr_wf_cong; rule k) (rule push_wf_cong, rule k)
  then show "smp_inv ?S"
    using smp_invD [OF inv] m by (simp add: smp_inv_def r ps rto_wf_def)
qed

lemma activate_rt_inv:
  assumes inv: "smp_inv S" and p: "task_cpu (tk S p) = c" "\<not> rt_on_rq (rt (tk S p))"
    "rt_prio_ok (prio (tk S p))" "p < max_tasks" "sched_class (tk S p) = RtClass" and mv: "move_entity flags"
  shows "\<exists>S'. smp_activate_task E c p flags S = Some S' \<and> smp_inv S' \<and> smp_frame S S' \<and>
    (\<forall>i. cpu_queued S' i = (if i = c then insert p (cpu_queued S c) else cpu_queued S i))"
proof -
  let ?S1 = "if task_contributes_to_load (tk S p)
        then upd_rq S c (\<lambda>q. q\<lparr>q_nr_uninterruptible := q_nr_uninterruptible q - 1\<rparr>) else S"
  define S2 where "S2 = (if flags AND ENQUEUE_NOCLOCK = 0 then smp_update_rq_clock c ?S1 else ?S1)"
  have a1: "acct S ?S1" by (simp, intro impI acct_rq) (simp_all add: keeps_rq_def same_queues_def cpu_others_def)
  have a: "acct S S2" using a1 acct_trans [OF a1 acct_clock] unfolding S2_def by simp
  note k = keeps_taskD [OF acctD(1) [OF a], of p]
  have e: "smp_activate_task E c p flags S = smp_enqueue_task_rt E c p flags S2"
    using k(7) p(5) unfolding smp_activate_task_def smp_enqueue_task_def Let_def S2_def by simp
  have p': "task_cpu (tk S2 p) = c" "\<not> rt_on_rq (rt (tk S2 p))" "rt_prio_ok (prio (tk S2 p))"
    using p k(1,3) acctD(2) [OF a, of p] by simp_all
  from enqueue_task_rt_inv [OF acct_inv [OF a inv] p' p(4) mv, of E] obtain S' where
    "smp_enqueue_task_rt E c p flags S2 = Some S'" "smp_inv S'" "smp_frame S2 S'"
    "\<forall>i. cpu_queued S' i = (if i = c then insert p (cpu_queued S2 c) else cpu_queued S2 i)" by blast
  then show ?thesis using smp_frame_trans [OF acct_frame [OF a], of S'] acct_queued [OF a] unfolding e by simp
qed

lemma deactivate_rt_inv:
  assumes inv: "smp_inv S" and p: "task_cpu (tk S p) = c" "rt_on_rq (rt (tk S p))" "sched_class (tk S p) = RtClass"
    and mv: "move_entity flags"
  shows "\<exists>S'. smp_deactivate_task E c p flags S = Some S' \<and> smp_inv S' \<and> smp_frame S S' \<and>
    (\<forall>i. cpu_queued S' i = (if i = c then cpu_queued S c - {p} else cpu_queued S i))"
proof -
  let ?S1 = "if task_contributes_to_load (tk S p)
        then upd_rq S c (\<lambda>q. q\<lparr>q_nr_uninterruptible := q_nr_uninterruptible q + 1\<rparr>) else S"
  define S2 where "S2 = (if flags AND DEQUEUE_NOCLOCK = 0 then smp_update_rq_clock c ?S1 else ?S1)"
  have a1: "acct S ?S1" by (simp, intro impI acct_rq) (simp_all add: keeps_rq_def same_queues_def cpu_others_def)
  have a: "acct S S2" using a1 acct_trans [OF a1 acct_clock] unfolding S2_def by simp
  note k = keeps_taskD [OF acctD(1) [OF a], of p]
  have e: "smp_deactivate_task E c p flags S = smp_dequeue_task_rt E c p flags S2"
    using k(7) p(3) unfolding smp_deactivate_task_def smp_dequeue_task_def Let_def S2_def by simp
  have p': "task_cpu (tk S2 p) = c" "rt_on_rq (rt (tk S2 p))"
    using p k(3) acctD(2) [OF a, of p] by simp_all
  from dequeue_task_rt_inv [OF acct_inv [OF a inv] p' mv, of E] obtain S' where
    "smp_dequeue_task_rt E c p flags S2 = Some S'" "smp_inv S'" "smp_frame S2 S'"
    "\<forall>i. cpu_queued S' i = (if i = c then cpu_queued S2 c - {p} else cpu_queued S2 i)" by blast
  then show ?thesis using smp_frame_trans [OF acct_frame [OF a], of S'] acct_queued [OF a] unfolding e by simp
qed

text \<open>Moving a queued task: it leaves one set of queues and enters the other, and nothing else changes.\<close>

lemma move_task_inv:
  assumes sys: "rt_sys S" and p: "p \<in> cpu_queued S src"
  shows "\<exists>S'. move_task E src dst p S = Some S' \<and> rt_sys S' \<and> moved_frame S S' \<and>
    (\<forall>q. q \<noteq> p \<longrightarrow> task_cpu (tk S' q) = task_cpu (tk S q)) \<and>
    (\<forall>i. cpu_queued S' i = (if i = dst then insert p (cpu_queued S i - {p}) else cpu_queued S i - {p}))"
proof -
  have inv: "smp_inv S" and tw: "tasks_wf S" using sys by (simp_all add: rt_sys_def)
  have pS: "task_cpu (tk S p) = src" "rt_on_rq (rt (tk S p))" "sched_class (tk S p) = RtClass"
    "rt_prio_ok (prio (tk S p))" "p < max_tasks"
    using queued_on [OF smp_invD(4) [OF inv], of p src] p tw arr_wfD(12) [OF smp_invD(1) [OF inv, of src], of p]
    by (auto simp: tasks_wf_def cpu_queued_def)
  have mv: "move_entity 0" by (simp add: move_entity_def DEQUEUE_SAVE_def DEQUEUE_MOVE_def)
  obtain S1 where S1: "smp_deactivate_task E src p 0 S = Some S1" "smp_inv S1" "smp_frame S S1"
    "\<forall>i. cpu_queued S1 i = (if i = src then cpu_queued S src - {p} else cpu_queued S i)"
    using deactivate_rt_inv [OF inv pS(1,2,3) mv] by blast
  have np: "\<not> rt_on_rq (rt (tk S1 p))"
    using queued_on [OF smp_invD(4) [OF S1(2)], of p src] S1(4) keeps_taskD(3) [OF smp_frameD(1) [OF S1(3)]] pS(1) by auto
  let ?S2 = "set_task_cpu p dst S1"
  note s2 = set_task_cpu_inv [OF S1(2) np, of dst]
  have mf2: "moved_frame S ?S2" by (rule moved_frame_trans [OF smp_frame_moved [OF S1(3)] s2(3)])
  have p2: "\<not> rt_on_rq (rt (tk ?S2 p))" "rt_prio_ok (prio (tk ?S2 p))" "sched_class (tk ?S2 p) = RtClass"
    using np s2(5) moved_frameD(1) [OF mf2, of p] pS by (simp_all add: same_view_def)
  obtain S3 where S3: "smp_activate_task E dst p 0 ?S2 = Some S3" "smp_inv S3" "smp_frame ?S2 S3"
    "\<forall>i. cpu_queued S3 i = (if i = dst then insert p (cpu_queued ?S2 dst) else cpu_queued ?S2 i)"
    using activate_rt_inv [OF s2(1,4) p2(1,2) pS(5) p2(3) mv] by blast
  have mf: "moved_frame S S3" by (rule moved_frame_trans [OF mf2 smp_frame_moved [OF S3(3)]])
  have only: "p \<notin> cpu_queued S i" if "i \<noteq> src" for i
    using queued_on [OF smp_invD(4) [OF inv], of p i] pS(1) that by auto
  have q: "cpu_queued S3 i = (if i = dst then insert p (cpu_queued S i - {p}) else cpu_queued S i - {p})" for i
    using S3(4) S1(4) s2(2) only by (cases "i = src"; cases "i = dst") auto
  have "all_queued S3 = all_queued S" using q p by (fastforce simp: all_queued_def split: if_split_asm)
  then have "tasks_wf S3" using tasks_wf_cong [OF mf smp_invD(4) [OF inv] smp_invD(4) [OF S3(2)]] tw by simp
  moreover have "task_cpu (tk S3 x) = task_cpu (tk S x)" if "x \<noteq> p" for x
    using keeps_taskD(3) [OF smp_frameD(1) [OF S1(3)], of x] set_task_cpu_inv(6) [OF S1(2) np that, where dst = dst] keeps_taskD(3) [OF smp_frameD(1) [OF S3(3)], of x] by simp
  ultimately show ?thesis using S1(1) S3(1,2) mf q by (simp add: move_task_def rt_sys_def)
qed

section \<open>Pushing is sound\<close>

lemma rt_sysD:
  assumes "rt_sys S"
  shows "smp_inv S" "tasks_wf S" "member_wf S" "arr_wf (tk S) (rtr S c)" "push_wf (tk S) (rtr S c) (pushables S c)"
  using assms by (simp_all add: rt_sys_def smp_invD)

lemma queuedD:
  assumes "rt_sys S" "p \<in> cpu_queued S c"
  shows "task_cpu (tk S p) = c" "sched_class (tk S p) = RtClass" "on_rq (tk S p) = TASK_ON_RQ_QUEUED"
    "rt_prio_ok (prio (tk S p))" "p < max_tasks" "rt_task (tk S p)" "rt_on_rq (rt (tk S p))"
proof -
  show *: "rt_prio_ok (prio (tk S p))" "p < max_tasks"
    using arr_wfD(12) [OF rt_sysD(4) [OF assms(1), of c], of p] assms(2) by (simp_all add: cpu_queued_def)
  then show "rt_task (tk S p)" by (simp add: rt_task_def rt_prio_def rt_prio_ok_def MAX_RT_PRIO_def)
  show "task_cpu (tk S p) = c" "sched_class (tk S p) = RtClass" "on_rq (tk S p) = TASK_ON_RQ_QUEUED" "rt_on_rq (rt (tk S p))"
    using assms rt_sysD(2,3) [OF assms(1)] queued_on [of S p c] by (auto simp: tasks_wf_def)
qed

lemma acct_sys: "acct S S' \<Longrightarrow> rt_sys S \<Longrightarrow> rt_sys S'"
proof -
  assume a: "acct S S'" and sys: "rt_sys S"
  have inv: "smp_inv S'" by (rule acct_inv [OF a rt_sysD(1) [OF sys]])
  have "all_queued S' = all_queued S" by (simp add: all_queued_def acct_queued [OF a])
  then show "rt_sys S'"
    using tasks_wf_cong [OF smp_frame_moved [OF acct_frame [OF a]] rt_sysD(3) [OF sys] smp_invD(4) [OF inv]] inv
      rt_sysD(2) [OF sys] by (simp add: rt_sys_def)
qed

text \<open>None of the \<open>BUG_ON\<close>s is reached, and the task returned is one of the most important.\<close>

lemma pick_next_pushable_ok:
  assumes sys: "rt_sys S"
  shows "if pushables S c = {} then pick_next_pushable_task c S = Some None
    else \<exists>p \<in> pushables S c. pick_next_pushable_task c S = Some (Some p) \<and>
      (\<forall>q \<in> pushables S c. prio (tk S p) \<le> prio (tk S q))"
proof -
  let ?ns = "pushable_tasks (rtr S c)"
  have w: "sorted (map fst ?ns)" "\<forall>n \<in> set ?ns. fst n = prio (tk S (snd n))" "snd ` set ?ns = pushables S c"
    using rt_sysD(5) [OF sys, of c] by (simp_all add: push_wf_def Let_def)
  show ?thesis
  proof (cases ?ns)
    case Nil
    then show ?thesis using w(3) by (simp add: pick_next_pushable_task_def)
  next
    case (Cons n ns)
    let ?p = "snd n"
    have p: "?p \<in> pushables S c" using w(3) Cons by auto
    then have q: "?p \<in> cpu_queued S c" "nr_cpus_allowed (tk S ?p) > 1" "?p \<noteq> q_curr (rqs S c)"
      by (simp_all add: pushables_def migratable_def)
    have "pick_next_pushable_task c S = Some (Some ?p)"
      using queuedD [OF sys q(1)] q(2,3) Cons
      by (simp add: pick_next_pushable_task_def Let_def smp_task_current_def task_on_rq_queued_def)
    moreover have "prio (tk S ?p) \<le> prio (tk S x)" if x: "x \<in> pushables S c" for x
    proof -
      obtain m where m: "m \<in> set ?ns" "snd m = x" using x unfolding w(3) [symmetric] by blast
      then have "fst n \<le> fst m" using w(1) Cons by auto
      then show ?thesis using w(2) m Cons by auto
    qed
    ultimately show ?thesis using p by auto
  qed
qed

lemma find_in_domains_lowest:
  assumes "find_in_domains n lowest this sds = Some c" "\<forall>t \<in> set_option this. lowest t"
  shows "lowest c"
  using assms
proof (induction sds)
  case (Cons sd sds)
  obtain aff span where sd: "sd = (aff, span)" by (cases sd)
  have "cpumask_first_and n lowest span < n \<Longrightarrow> lowest (cpumask_first_and n lowest span)"
    using cpumask_first_less [of n "\<lambda>c. lowest c \<and> span c"] by (simp add: cpumask_first_and_def)
  then show ?case using Cons by (auto simp: sd Let_def split: if_split_asm)
qed simp

lemma find_lowest_allowed:
  assumes "find_ok E" "find_lowest_rq E p S = Some c"
  shows "cpus_allowed (tk S p) c"
proof -
  obtain lowest where l: "cpupri_find E (cpupri (rd S)) (tk S p) = Some lowest" "lowest c"
    using assms(2) find_in_domains_lowest [of "nr_cpu_ids S" _ _ "domains E (task_cpu (tk S p))" c]
      cpumask_first_less [of "nr_cpu_ids S"]
    by (auto simp: find_lowest_rq_def Let_def split: if_split_asm option.split_asm)
  then show ?thesis using assms(1) by (auto simp: find_ok_def)
qed

lemma lock_okD:
  assumes "lock_ok E" "rt_sys S" "double_lock_balance E c l S = (d, S')"
  shows "rt_sys S'" "\<not> d \<Longrightarrow> S' = S" "sched_class (tk S' p) = StopClass \<Longrightarrow> sched_class (tk S p) = StopClass"
proof -
  have "case double_lock_balance E c l S of (dropped, S') \<Rightarrow>
     rt_sys S' \<and> (\<not> dropped \<longrightarrow> S' = S) \<and>
     (\<forall>p. sched_class (tk S' p) = StopClass \<longrightarrow> sched_class (tk S p) = StopClass)"
    by (rule assms(1) [unfolded lock_ok_def, THEN spec, THEN spec, THEN spec, THEN mp, OF assms(2)])
  then show "rt_sys S'" "\<not> d \<Longrightarrow> S' = S" "sched_class (tk S' p) = StopClass \<Longrightarrow> sched_class (tk S p) = StopClass"
    unfolding assms(3) by blast+
qed

lemma find_lock_sound:
  assumes E: "find_ok E" "lock_ok E"
  shows "rt_sys S \<Longrightarrow> p \<in> cpu_queued S c \<Longrightarrow> find_lock_tries n E p c S = (r, S') \<Longrightarrow>
    rt_sys S' \<and> (\<forall>dst. r = Some dst \<longrightarrow> dst \<noteq> c \<and> p \<in> cpu_queued S' c \<and> cpus_allowed (tk S' p) dst \<and>
      prio (tk S' p) < highest_curr (rtr S' dst))"
proof (induction n arbitrary: S)
  case (Suc n)
  show ?case
  proof (cases "find_lowest_rq E p S")
    case (Some cpu)
    obtain d S1 where d: "double_lock_balance E c cpu S = (d, S1)" by fastforce
    have S1: "rt_sys S1" "\<not> d \<Longrightarrow> S1 = S" "sched_class (tk S1 p) = StopClass \<Longrightarrow> sched_class (tk S p) = StopClass"
      using lock_okD [OF E(2) Suc.prems(1) d] by blast+
    let ?bad = "d \<and> (task_cpu (tk S1 p) \<noteq> c \<or> \<not> cpus_allowed (tk S1 p) cpu \<or> smp_task_running S1 p \<or>
                 \<not> rt_task (tk S1 p) \<or> \<not> task_on_rq_queued (tk S1 p))"
    have good: "p \<in> cpu_queued S1 c" "cpus_allowed (tk S1 p) cpu" if "\<not> ?bad"
    proof -
      show "cpus_allowed (tk S1 p) cpu" using that S1(2) find_lowest_allowed [OF E(1) Some] by auto
      show "p \<in> cpu_queued S1 c"
      proof (cases d)
        case True
        then have "on_rq (tk S1 p) = TASK_ON_RQ_QUEUED" "rt_task (tk S1 p)" "task_cpu (tk S1 p) = c"
          using that by (auto simp: task_on_rq_queued_def)
        moreover have "sched_class (tk S1 p) \<noteq> StopClass" using S1(3) queuedD(2) [OF Suc.prems(1,2)] by auto
        ultimately show ?thesis
          using rt_sysD(2) [OF S1(1)] queued_on [OF rt_sysD(3) [OF S1(1)]] by (auto simp: tasks_wf_def)
      qed (use S1(2) Suc.prems(2) in simp)
    qed
    consider (stop) "r = None" "S' = S"
      | (bad) "r = None" "S' = S1"
      | (found) "cpu \<noteq> c" "\<not> ?bad" "r = Some cpu" "S' = S1" "prio (tk S1 p) < highest_curr (rtr S1 cpu)"
      | (again) "\<not> ?bad" "find_lock_tries n E p c S1 = (r, S')"
      using Suc.prems(3) unfolding find_lock_tries.simps Some option.case d prod.case
      by (smt (verit) Pair_inject)
    then show ?thesis
    proof cases
      case again
      then show ?thesis using Suc.IH [OF S1(1) good(1)] by blast
    qed (use Suc.prems(1) S1(1) good in auto)
  qed (use Suc.prems in simp)
qed simp

text \<open>
  What the balancing changes of the system as a whole: tasks that are queued and do not run change their processor.
\<close>

definition shifts :: "('c, 'x) smp \<Rightarrow> ('c, 'x) smp \<Rightarrow> bool" where
  "shifts S S' \<longleftrightarrow> moved_frame S S' \<and> all_queued S' = all_queued S \<and>
     (\<forall>q. task_cpu (tk S' q) \<noteq> task_cpu (tk S q) \<longrightarrow> q \<in> all_queued S \<and> q \<noteq> q_curr (rqs S (task_cpu (tk S q))))"

lemma shiftsD:
  assumes "shifts S S'"
  shows "moved_frame S S'" "all_queued S' = all_queued S"
    "q \<notin> all_queued S \<or> q = q_curr (rqs S (task_cpu (tk S q))) \<Longrightarrow> task_cpu (tk S' q) = task_cpu (tk S q)"
  using assms unfolding shifts_def by blast+

lemma shifts_refl [simp]: "shifts S S"
  by (simp add: shifts_def)

lemma shifts_trans:
  assumes "shifts S S1" "shifts S1 S2"
  shows "shifts S S2"
proof -
  have "q_curr (rqs S1 c) = q_curr (rqs S c)" for c
    using moved_frameD(2) [OF shiftsD(1) [OF assms(1)], of c] by (simp add: keeps_rq_def)
  then have "task_cpu (tk S2 q) = task_cpu (tk S q)" if "q \<notin> all_queued S \<or> q = q_curr (rqs S (task_cpu (tk S q)))" for q
    using shiftsD(3) [OF assms(1) that] shiftsD(3) [OF assms(2), of q] shiftsD(2) [OF assms(1)] that by auto
  then show ?thesis
    using moved_frame_trans [OF shiftsD(1) [OF assms(1)] shiftsD(1) [OF assms(2)]] shiftsD(2) [OF assms(1)] shiftsD(2) [OF assms(2)]
    unfolding shifts_def by blast
qed

lemma acct_shifts: "acct S S' \<Longrightarrow> shifts S S'"
  using smp_frame_moved [OF acct_frame, of S S'] keeps_taskD(3) [OF acctD(1), of S S']
  by (simp add: shifts_def all_queued_def)

text \<open>A task was moved away from \<open>c\<close>, to where nothing as important is queued.\<close>

definition pushed :: "('c, 'x) smp \<Rightarrow> cpu \<Rightarrow> cpu \<Rightarrow> pid \<Rightarrow> ('c, 'x) smp \<Rightarrow> bool" where
  "pushed S c dst p S' \<longleftrightarrow> p \<in> cpu_queued S c \<and> dst \<noteq> c \<and> cpus_allowed (tk S p) dst \<and>
     (\<forall>q \<in> cpu_queued S dst. prio (tk S p) < prio (tk S q)) \<and>
     (\<forall>i. cpu_queued S' i = (if i = dst then insert p (cpu_queued S i - {p}) else cpu_queued S i - {p})) \<and>
     need_resched (tk S' (q_curr (rqs S' dst))) \<and> moved_frame S S' \<and>
     (\<forall>q. q \<noteq> p \<longrightarrow> task_cpu (tk S' q) = task_cpu (tk S q))"

lemma resched_sets [simp]: "need_resched (tk (smp_resched_curr c S) (q_curr (rqs S c)))"
  by (simp add: smp_resched_curr_def Let_def set_nr_and_not_polling_def smp_send_reschedule_def)

lemma move_pushed:
  assumes sys: "rt_sys S" and p: "p \<in> cpu_queued S c" "cpus_allowed (tk S p) dst" "dst \<noteq> c"
    "prio (tk S p) < highest_curr (rtr S dst)"
  shows "\<exists>S1. move_task E c dst p S = Some S1 \<and> rt_sys (smp_resched_curr dst S1) \<and>
    pushed S c dst p (smp_resched_curr dst S1)"
proof -
  obtain S1 where S1: "move_task E c dst p S = Some S1" "rt_sys S1" "moved_frame S S1"
    "\<forall>q. q \<noteq> p \<longrightarrow> task_cpu (tk S1 q) = task_cpu (tk S q)"
    "\<forall>i. cpu_queued S1 i = (if i = dst then insert p (cpu_queued S i - {p}) else cpu_queued S i - {p})"
    using move_task_inv [OF sys p(1)] by blast
  have a: "acct S1 (smp_resched_curr dst S1)" by simp
  have "prio (tk S p) < prio (tk S q)" if "q \<in> cpu_queued S dst" for q
    using highest_curr_iff(1) [OF rt_sysD(4) [OF sys, of dst], of q] p(4) that by (simp add: cpu_queued_def)
  moreover have "moved_frame S (smp_resched_curr dst S1)"
    by (rule moved_frame_trans [OF S1(3) smp_frame_moved [OF acct_frame [OF a]]])
  ultimately show ?thesis
    using S1 p acct_sys [OF a S1(2)] acct_queued [OF a] keeps_taskD(3) [OF acctD(1) [OF a]] by (simp add: pushed_def)
qed

lemmas push_retry_induct = push_retry.raw_induct [rotated, consumes 1, case_names step]

lemma push_retry_sound:
  assumes E: "find_ok E" "lock_ok E"
    and r: "push_retry E c p S = Some r" and sys: "rt_sys S" and p: "p \<in> cpu_queued S c"
  shows "rt_sys (snd r) \<and> (fst r \<longrightarrow> (\<exists>S1 p dst. rt_sys S1 \<and> pushed S1 c dst p (snd r)))"
  using r E sys p
proof (induction E c p S r rule: push_retry_induct)
  case (step f E c p S r)
  obtain o1 S1 where l: "find_lock_tries 3 E p c S = (o1, S1)" by fastforce
  note fl = find_lock_sound [OF step.prems(1,2) step.prems(3,4) l]
  consider (cur) "p = q_curr (rqs S c)" | (resched) "p \<noteq> q_curr (rqs S c)" "prio (tk S p) < prio (tk S (q_curr (rqs S c)))"
    | (none) "p \<noteq> q_curr (rqs S c)" "\<not> prio (tk S p) < prio (tk S (q_curr (rqs S c)))" "o1 = None"
    | (some) dst where "p \<noteq> q_curr (rqs S c)" "\<not> prio (tk S p) < prio (tk S (q_curr (rqs S c)))" "o1 = Some dst"
    by (cases o1) auto
  then show ?case
  proof cases
    case cur
    then show ?thesis using step.hyps step.prems(3) by auto
  next
    case resched
    then show ?thesis using step.hyps acct_sys [OF acct_resched step.prems(3)] by auto
  next
    case none
    have S1: "rt_sys S1" using fl by blast
    show ?thesis
    proof (cases "pushables S1 c = {}")
      case True
      then show ?thesis using pick_next_pushable_ok [OF S1, of c] step.hyps none l S1 by (auto simp: find_lock_lowest_rq_def)
    next
      case False
      then obtain t where t: "t \<in> pushables S1 c" "pick_next_pushable_task c S1 = Some (Some t)"
        using pick_next_pushable_ok [OF S1, of c] by auto
      have "t \<in> cpu_queued S1 c" using t(1) by (simp add: pushables_def)
      then show ?thesis
        using t(2) step.hyps step.IH [of E c t S1 r] step.prems none l S1
        by (auto simp: find_lock_lowest_rq_def split: if_split_asm)
    qed
  next
    case (some dst)
    then have "rt_sys S1" "p \<in> cpu_queued S1 c" "cpus_allowed (tk S1 p) dst" "dst \<noteq> c" "prio (tk S1 p) < highest_curr (rtr S1 dst)"
      using fl by auto
    from move_pushed [OF this, of E] obtain S2 where S2: "move_task E c dst p S1 = Some S2"
      "rt_sys (smp_resched_curr dst S2)" "pushed S1 c dst p (smp_resched_curr dst S2)" by blast
    have "r = (True, smp_resched_curr dst S2)" using step.hyps some l S2(1) by (auto simp: find_lock_lowest_rq_def)
    then show ?thesis using S2(2,3) \<open>rt_sys S1\<close> by auto
  qed
qed

end
