(* ===== verification/Smp_Balance.thy ===== *)
theory Smp_Balance
  imports Smp_Push
begin

text \<open>
  What balancing achieves. The functions are those of \<open>Smp_Push\<close>. Pushing is sound whatever other processors do
  while a lock is given up (\<open>push_rt_task_sound\<close>); without such interference it ends, and then either the
  processor is not overloaded or its best waiting task has nowhere to go (\<open>push_rt_tasks_settles\<close>). Pulling brings
  only tasks that are allowed here and more important than everything queued here, and leaves no better one behind
  on an overloaded processor (\<open>pull_rt_task_best\<close>).
\<close>


section \<open>Pushing one task\<close>

text \<open>
  C15. Whatever other processors do while \<open>double_lock_balance\<close> has given up the lock, as long as they keep the
  system consistent, \<open>push_rt_task\<close> keeps it consistent, and when it reports that it pushed a task, it moved one
  queued real-time task to another processor on which the task is allowed, on which every queued task was less
  important, and which has been told to reschedule.
\<close>

theorem push_rt_task_sound:
  assumes "find_ok E" "lock_ok E" "rt_sys S" "push_rt_task E c S = Some (b, S')"
  shows "rt_sys S' \<and> (b \<longrightarrow> (\<exists>S1 p dst. rt_sys S1 \<and> pushed S1 c dst p S'))"
proof (cases "is_overloaded (rtr S c) \<and> pushables S c \<noteq> {}")
  case True
  then obtain p where p: "p \<in> pushables S c" "pick_next_pushable_task c S = Some (Some p)"
    using pick_next_pushable_ok [OF assms(3), of c] by auto
  then have "push_retry E c p S = Some (b, S')" using assms(4) True by (simp add: push_rt_task_def)
  then show ?thesis
    using push_retry_sound [OF assms(1,2) _ assms(3)] p(1) pushables_subset [of S c] by fastforce
next
  case False
  then have "S' = S \<and> \<not> b" using assms(4) pick_next_pushable_ok [OF assms(3), of c]
    by (auto simp: push_rt_task_def split: if_split_asm)
  then show ?thesis using assms(3) by simp
qed


section \<open>Pushing without interference\<close>

definition quiet_locks :: "('c, 'x, 'e) senv_scheme \<Rightarrow> bool" where
  "quiet_locks E \<longleftrightarrow> (\<forall>c l S. double_lock_balance E c l S = (False, S))"

text \<open>The processor \<open>dst\<close> is where the search would send \<open>p\<close>, and it would be worth it.\<close>

definition push_target :: "('c, 'x, 'e) senv_scheme \<Rightarrow> cpu \<Rightarrow> pid \<Rightarrow> ('c, 'x) smp \<Rightarrow> cpu option" where
  "push_target E c p S =
     (case find_lowest_rq E p S of
        Some dst \<Rightarrow> if dst \<noteq> c \<and> prio (tk S p) < highest_curr (rtr S dst) then Some dst else None
      | None \<Rightarrow> None)"

lemma find_lock_quiet:
  assumes "quiet_locks E"
  shows "find_lock_lowest_rq E p c S = (push_target E c p S, S)"
  using assms unfolding quiet_locks_def find_lock_lowest_rq_def push_target_def
  by (simp add: numeral_3_eq_3 split: option.split)

lemma push_target_sound:
  assumes "find_ok E" "push_target E c p S = Some dst"
  shows "dst \<noteq> c" "cpus_allowed (tk S p) dst" "prio (tk S p) < highest_curr (rtr S dst)"
  using assms(2) find_lowest_allowed [OF assms(1), of p S dst]
  by (auto simp: push_target_def split: option.split_asm if_split_asm)

text \<open>The most important of the tasks that wait to be pushed.\<close>

definition best_pushable :: "('c, 'x) smp \<Rightarrow> cpu \<Rightarrow> pid \<Rightarrow> bool" where
  "best_pushable S c p \<longleftrightarrow> p \<in> pushables S c \<and> (\<forall>q \<in> pushables S c. prio (tk S p) \<le> prio (tk S q))"

text \<open>Nothing to push, a task that is about to run here, or one that has nowhere to go.\<close>

definition settled :: "('c, 'x, 'e) senv_scheme \<Rightarrow> cpu \<Rightarrow> ('c, 'x) smp \<Rightarrow> bool" where
  "settled E c S \<longleftrightarrow> \<not> is_overloaded (rtr S c) \<or> pushables S c = {} \<or>
     (\<exists>p. best_pushable S c p \<and>
        (prio (tk S p) < prio (tk S (q_curr (rqs S c))) \<and> need_resched (tk S (q_curr (rqs S c))) \<or>
         push_target E c p S = None))"

lemma push_rt_task_quiet:
  assumes E: "find_ok E" "quiet_locks E" and sys: "rt_sys S"
  shows "\<exists>b S'. push_rt_task E c S = Some (b, S') \<and> rt_sys S' \<and>
    (if b then \<exists>p dst. best_pushable S c p \<and> pushed S c dst p S'
     else shifts S S' \<and> (\<forall>i. cpu_queued S' i = cpu_queued S i) \<and> settled E c S')"
proof (cases "is_overloaded (rtr S c) \<and> pushables S c \<noteq> {}")
  case False
  then have "push_rt_task E c S = Some (False, S)"
    using pick_next_pushable_ok [OF sys, of c] by (auto simp: push_rt_task_def)
  then show ?thesis using sys False by (auto simp: settled_def)
next
  case True
  then obtain p where p: "best_pushable S c p" "pick_next_pushable_task c S = Some (Some p)"
    using pick_next_pushable_ok [OF sys, of c] by (auto simp: best_pushable_def)
  have pc: "p \<noteq> q_curr (rqs S c)" "p \<in> cpu_queued S c" using p(1) by (simp_all add: best_pushable_def pushables_def)
  have e: "push_rt_task E c S = push_retry E c p S" using True p(2) by (simp add: push_rt_task_def)
  note r = push_retry.simps [of E c p S, folded e]
  show ?thesis
  proof (cases "prio (tk S p) < prio (tk S (q_curr (rqs S c)))")
    case low: True
    let ?S = "smp_resched_curr c S"
    have a: "acct S ?S" by simp
    have k: "prio (tk ?S q) = prio (tk S q)" "q_curr (rqs ?S c) = q_curr (rqs S c)" "cpu_queued ?S i = cpu_queued S i"
      "migratable (tk ?S q) = migratable (tk S q)" for q i
      using keeps_taskD [OF acctD(1) [OF a], of q] acct_queued [OF a]
      by (simp_all add: migratable_def smp_resched_curr_def Let_def set_nr_and_not_polling_def smp_send_reschedule_def)
    have "best_pushable ?S c p" using p(1) by (simp add: best_pushable_def pushables_def k)
    then have "settled E c ?S" using low resched_sets [of c S] unfolding settled_def k by blast
    moreover have "push_rt_task E c S = Some (False, ?S)" using r pc(1) low by simp
    ultimately show ?thesis using acct_sys [OF a sys] k(3) by (intro exI [of _ False] exI [of _ ?S]) (simp add: acct_shifts k(3))
  next
    case high: False
    show ?thesis
    proof (cases "push_target E c p S")
      case None
      then have "push_rt_task E c S = Some (False, S)" using r pc high p(2) find_lock_quiet [OF E(2), of p c S] by simp
      then show ?thesis using sys p(1) None by (auto simp: settled_def)
    next
      case (Some dst)
      note t = push_target_sound [OF E(1) Some]
      from move_pushed [OF sys pc(2) t(2,1,3)] obtain S1 where S1: "move_task E c dst p S = Some S1"
        "rt_sys (smp_resched_curr dst S1)" "pushed S c dst p (smp_resched_curr dst S1)" by blast
      then have "push_rt_task E c S = Some (True, smp_resched_curr dst S1)"
        using r pc high Some find_lock_quiet [OF E(2), of p c S] by simp
      then show ?thesis using S1 p(1) by auto
    qed
  qed
qed

lemma finite_cpu_queued [simp]: "finite (cpu_queued S c)"
proof -
  have "cpu_queued S c = set (concat (cpu_queues S c))" by (auto simp: cpu_queued_def linked_iff_concat simp del: set_concat)
  then show ?thesis by simp
qed

lemma moved_all_queued:
  assumes p: "p \<in> cpu_queued S c"
    and q: "\<And>i. cpu_queued S' i = (if i = dst then insert p (cpu_queued S i - {p}) else cpu_queued S i - {p})"
  shows "all_queued S' = all_queued S"
proof -
  have n: "x \<in> cpu_queued S' i \<longleftrightarrow> x \<in> cpu_queued S i" if "x \<noteq> p" for x i using that q [of i] by simp
  have "p \<in> cpu_queued S' dst" using q [of dst] by simp
  then have "x \<in> all_queued S' \<longleftrightarrow> x \<in> all_queued S" for x
    using p n [of x] unfolding all_queued_def UN_iff by (cases "x = p") (blast, simp)
  then show ?thesis by blast
qed

lemma pushed_sets:
  assumes "pushed S c dst p S'"
  shows "all_queued S' = all_queued S" "cpu_queued S' c = cpu_queued S c - {p}" "p \<in> cpu_queued S c"
    "i \<noteq> c \<Longrightarrow> rt_sys S \<Longrightarrow> cpu_queued S i \<subseteq> cpu_queued S' i"
proof -
  have p: "p \<in> cpu_queued S c" "dst \<noteq> c"
    and q: "cpu_queued S' i = (if i = dst then insert p (cpu_queued S i - {p}) else cpu_queued S i - {p})" for i
    using assms by (simp_all add: pushed_def)
  show "cpu_queued S' c = cpu_queued S c - {p}" "p \<in> cpu_queued S c" using p q by simp_all
  show "all_queued S' = all_queued S" by (rule moved_all_queued [OF p(1) q])
  show "cpu_queued S i \<subseteq> cpu_queued S' i" if "i \<noteq> c" "rt_sys S"
    using q [of i] queuedD(1) [OF that(2) p(1)] queuedD(1) [OF that(2), of p i] that(1) by auto
qed

lemma pushed_shifts:
  assumes "pushed S c dst p S'" "p \<in> pushables S c" "rt_sys S"
  shows "shifts S S'"
  using assms(1) pushed_sets(1) [OF assms(1)] assms(2) queuedD(1) [OF assms(3), of p c]
  by (auto simp: shifts_def pushed_def pushables_def all_queued_def)

lemma push_rt_tasks_ends:
  assumes E: "find_ok E" "quiet_locks E"
  shows "rt_sys S \<Longrightarrow> \<exists>S'. push_rt_tasks E c S = Some S' \<and> rt_sys S' \<and> shifts S S' \<and>
    (\<forall>i. i \<noteq> c \<longrightarrow> cpu_queued S i \<subseteq> cpu_queued S' i) \<and> settled E c S'"
proof (induction "card (cpu_queued S c)" arbitrary: S rule: less_induct)
  case less
  obtain b S1 where S1: "push_rt_task E c S = Some (b, S1)" "rt_sys S1"
    "if b then \<exists>p dst. best_pushable S c p \<and> pushed S c dst p S1
     else shifts S S1 \<and> (\<forall>i. cpu_queued S1 i = cpu_queued S i) \<and> settled E c S1"
    using push_rt_task_quiet [OF E less.prems, of c] by blast
  show ?case
  proof (cases b)
    case True
    then obtain p dst where p: "pushed S c dst p S1" and b: "best_pushable S c p" using S1(3) by auto
    have sh: "shifts S S1" by (rule pushed_shifts [OF p _ less.prems]) (use b in \<open>simp add: best_pushable_def\<close>)
    note s = pushed_sets [OF p]
    have "card (cpu_queued S1 c) < card (cpu_queued S c)" unfolding s(2) by (rule card_Diff1_less) (simp_all add: s(3))
    from less.hyps [OF this S1(2)] obtain S' where S': "push_rt_tasks E c S1 = Some S'" "rt_sys S'"
      "shifts S1 S'" "\<forall>i. i \<noteq> c \<longrightarrow> cpu_queued S1 i \<subseteq> cpu_queued S' i" "settled E c S'" by blast
    have "push_rt_tasks E c S = Some S'" using S1(1) True S'(1) by (simp add: push_rt_tasks.simps [of E c S])
    then show ?thesis using S' shifts_trans [OF sh S'(3)] s(4) [OF _ less.prems] by blast
  next
    case False
    then have "push_rt_tasks E c S = Some S1" using S1(1) by (simp add: push_rt_tasks.simps [of E c S])
    then show ?thesis using S1 False by auto
  qed
qed



section \<open>Pulling\<close>

lemma highest_mono:
  assumes "rt_sys S" "rt_sys S'" "cpu_queued S c \<subseteq> cpu_queued S' c" "\<And>p. prio (tk S' p) = prio (tk S p)"
  shows "highest_curr (rtr S' c) \<le> highest_curr (rtr S c)"
proof (cases "highest_curr (rtr S c) < 100")
  case True
  then obtain p where p: "p \<in> cpu_queued S c" "prio (tk S p) = highest_curr (rtr S c)"
    using highest_curr_iff(3) [OF rt_sysD(4) [OF assms(1), of c]] by (auto simp: cpu_queued_def)
  then have "p \<in> cpu_queued S' c" using assms(3) by auto
  then show ?thesis using highest_curr_iff(1) [OF rt_sysD(4) [OF assms(2), of c], of p] p(2) assms(4) by (simp add: cpu_queued_def)
next
  case False
  then show ?thesis using highest_curr_iff(2) [OF rt_sysD(4) [OF assms(2), of c]] by linarith
qed

lemma rto_mask_iff:
  assumes "rt_sys S"
  shows "rto_mask (rd S) c \<longleftrightarrow> q_online (rqs S c) \<and> (\<exists>p \<in> cpu_queued S c. migratable (tk S p)) \<and> 1 < card (cpu_queued S c)"
  using overloaded_iff [OF rt_sysD(4) [OF assms, of c]] smp_invD(5) [OF rt_sysD(1) [OF assms]]
  by (auto simp: rto_wf_def cpu_queued_def)

text \<open>The tasks of \<open>src\<close> that may be taken to \<open>this\<close>.\<close>

definition pullable :: "('c, 'x) smp \<Rightarrow> cpu \<Rightarrow> cpu \<Rightarrow> pid set" where
  "pullable S src this = {p \<in> pushables S src. pick_rt_task p this S}"

text \<open>None of them is more important than what is queued here, unless the best is about to run where it is.\<close>

definition nothing_better :: "('c, 'x) smp \<Rightarrow> cpu \<Rightarrow> cpu \<Rightarrow> bool" where
  "nothing_better S this src \<longleftrightarrow>
     (\<forall>p \<in> pullable S src this. highest_curr (rtr S this) \<le> prio (tk S p) \<or>
        (\<exists>q \<in> pullable S src this. prio (tk S q) \<le> prio (tk S p) \<and> prio (tk S q) < prio (tk S (q_curr (rqs S src)))))"

lemma find_sorted_first:
  assumes "find P ns = Some n" "sorted (map fst ns)"
  shows "n \<in> set ns" "P n" "\<And>m. m \<in> set ns \<Longrightarrow> P m \<Longrightarrow> fst n \<le> fst m"
proof -
  obtain i where i: "i < length ns" "P (ns ! i)" "n = ns ! i" "\<And>j. j < i \<Longrightarrow> \<not> P (ns ! j)"
    using assms(1) by (auto simp: find_Some_iff)
  show "n \<in> set ns" "P n" using i by simp_all
  fix m assume m: "m \<in> set ns" "P m"
  then obtain j where j: "j < length ns" "m = ns ! j" by (metis in_set_conv_nth)
  then have "i \<le> j" using i(4) m(2) by (meson not_less)
  then show "fst n \<le> fst m" using sorted_nth_mono [OF assms(2), of i j] j i by simp
qed

lemma pick_highest_ok:
  assumes "rt_sys S"
  shows "case pick_highest_pushable_task src this S of
      None \<Rightarrow> pullable S src this = {}
    | Some p \<Rightarrow> p \<in> pullable S src this \<and> (\<forall>q \<in> pullable S src this. prio (tk S p) \<le> prio (tk S q))"
proof -
  let ?ns = "pushable_tasks (rtr S src)" and ?P = "\<lambda>n. pick_rt_task (snd n) this S"
  have w: "sorted (map fst ?ns)" "\<forall>n \<in> set ?ns. fst n = prio (tk S (snd n))" "snd ` set ?ns = pushables S src"
    using rt_sysD(5) [OF assms, of src] by (simp_all add: push_wf_def Let_def)
  have e: "pick_highest_pushable_task src this S = map_option snd (find ?P ?ns)"
    by (simp add: pick_highest_pushable_task_def has_pushable_tasks_def)
  have pl: "pullable S src this = snd ` {n \<in> set ?ns. ?P n}" unfolding pullable_def w(3) [symmetric] by auto
  show ?thesis
  proof (cases "find ?P ?ns")
    case None
    then have "pullable S src this = {}" unfolding pl by (simp add: find_None_iff)
    then show ?thesis using e None by simp
  next
    case (Some n)
    note f = find_sorted_first [OF Some w(1)]
    have "prio (tk S (snd n)) \<le> prio (tk S (snd m))" if "m \<in> set ?ns" "?P m" for m
      using f(3) [OF that] w(2) f(1) that(1) by simp
    then show ?thesis using f(1,2) Some e by (auto simp: pl)
  qed
qed

text \<open>What pulling from the processors \<open>cs\<close> changes.\<close>

definition pulled :: "cpu \<Rightarrow> cpu set \<Rightarrow> ('c, 'x) smp \<Rightarrow> ('c, 'x) smp \<Rightarrow> bool" where
  "pulled this cs S S' \<longleftrightarrow> shifts S S' \<and>
     cpu_queued S this \<subseteq> cpu_queued S' this \<and>
     (\<forall>i. i \<noteq> this \<longrightarrow> cpu_queued S' i \<subseteq> cpu_queued S i \<and> (i \<in> cs \<or> cpu_queued S' i = cpu_queued S i)) \<and>
     (\<forall>p \<in> cpu_queued S' this - cpu_queued S this.
        cpus_allowed (tk S p) this \<and> \<not> on_cpu (tk S p) \<and> prio (tk S p) < highest_curr (rtr S this))"

lemma pulledD:
  assumes "pulled this cs S S'"
  shows "moved_frame S S'" "shifts S S'" "cpu_queued S this \<subseteq> cpu_queued S' this"
    "i \<noteq> this \<Longrightarrow> cpu_queued S' i \<subseteq> cpu_queued S i" "i \<noteq> this \<Longrightarrow> i \<notin> cs \<Longrightarrow> cpu_queued S' i = cpu_queued S i"
    "p \<in> cpu_queued S' this \<Longrightarrow> p \<notin> cpu_queued S this \<Longrightarrow>
      cpus_allowed (tk S p) this \<and> \<not> on_cpu (tk S p) \<and> prio (tk S p) < highest_curr (rtr S this)"
  using assms shiftsD(1) [of S S'] unfolding pulled_def by blast+

lemma pulled_refl [simp]: "pulled this cs S S"
  by (simp add: pulled_def)

lemma moved_view:
  assumes "moved_frame S S'"
  shows "prio (tk S' p) = prio (tk S p)" "cpus_allowed (tk S' p) = cpus_allowed (tk S p)" "on_cpu (tk S' p) = on_cpu (tk S p)"
    "migratable (tk S' p) = migratable (tk S p)" "q_curr (rqs S' c) = q_curr (rqs S c)" "q_online (rqs S' c) = q_online (rqs S c)"
  using moved_frameD(1) [OF assms, of p] moved_frameD(2) [OF assms, of c] by (simp_all add: same_view_def migratable_def keeps_rq_def)

lemma pulled_trans:
  assumes "pulled this cs S S1" "pulled this ds S1 S2" "rt_sys S" "rt_sys S1"
  shows "pulled this (cs \<union> ds) S S2"
proof -
  note v = moved_view [OF pulledD(1) [OF assms(1)]]
  have h: "highest_curr (rtr S1 this) \<le> highest_curr (rtr S this)"
    by (rule highest_mono [OF assms(3,4) pulledD(3) [OF assms(1)] v(1)])
  have "cpus_allowed (tk S p) this \<and> \<not> on_cpu (tk S p) \<and> prio (tk S p) < highest_curr (rtr S this)"
    if "p \<in> cpu_queued S2 this" "p \<notin> cpu_queued S this" for p
    using pulledD(6) [OF assms(1) _ that(2)] pulledD(6) [OF assms(2) that(1)] h by (fastforce simp: v)
  moreover have "cpu_queued S2 i \<subseteq> cpu_queued S i \<and> (i \<in> cs \<union> ds \<or> cpu_queued S2 i = cpu_queued S i)" if "i \<noteq> this" for i
    using pulledD(4,5) [OF assms(1) that] pulledD(4,5) [OF assms(2) that] by blast
  ultimately show ?thesis
    using shifts_trans [OF pulledD(2) [OF assms(1)] pulledD(2) [OF assms(2)]] pulledD(3) [OF assms(1)]
      pulledD(3) [OF assms(2)] unfolding pulled_def by blast
qed

lemma pullable_sub:
  assumes "moved_frame S S'" "cpu_queued S' src \<subseteq> cpu_queued S src"
  shows "pullable S' src this = pullable S src this \<inter> cpu_queued S' src"
  using assms(2) moved_view [OF assms(1)] by (auto simp: pullable_def pushables_def pick_rt_task_def smp_task_running_def)

lemma nothing_better_mono:
  assumes "nothing_better S this src" "moved_frame S S'" "cpu_queued S' src = cpu_queued S src"
    "highest_curr (rtr S' this) \<le> highest_curr (rtr S this)"
  shows "nothing_better S' this src"
proof -
  have e: "pullable S' src this = pullable S src this"
    using pullable_sub [OF assms(2), of src this] assms(3) by (auto simp: pullable_def pushables_def)
  show ?thesis
    unfolding nothing_better_def e moved_view [OF assms(2)]
    using assms(1,4) unfolding nothing_better_def by (meson order_trans)
qed

lemma move_pulled:
  assumes sys: "rt_sys S" and p: "p \<in> pullable S src this" "src \<noteq> this" "prio (tk S p) < highest_curr (rtr S this)"
    and best: "\<And>q. q \<in> pullable S src this \<Longrightarrow> prio (tk S p) \<le> prio (tk S q)"
  shows "\<exists>S'. move_task E src this p S = Some S' \<and> rt_sys S' \<and> pulled this {src} S S' \<and> nothing_better S' this src \<and>
    cpu_queued S' this \<noteq> cpu_queued S this"
proof -
  have pq: "p \<in> cpu_queued S src" and pa: "cpus_allowed (tk S p) this" "\<not> on_cpu (tk S p)"
    using p(1) by (auto simp: pullable_def pushables_def pick_rt_task_def smp_task_running_def)
  obtain S' where S': "move_task E src this p S = Some S'" "rt_sys S'" "moved_frame S S'"
    and oth: "\<forall>q. q \<noteq> p \<longrightarrow> task_cpu (tk S' q) = task_cpu (tk S q)"
    and q: "\<And>i. cpu_queued S' i = (if i = this then insert p (cpu_queued S i - {p}) else cpu_queued S i - {p})"
    using move_task_inv [OF sys pq, of E this] by blast
  have only: "p \<notin> cpu_queued S i" if "i \<noteq> src" for i using queuedD(1) [OF sys pq] queuedD(1) [OF sys, of p i] that by auto
  have there: "p \<in> cpu_queued S' this" "cpu_queued S' this \<noteq> cpu_queued S this" using q [of this] only [of this] p(2) by auto
  have "shifts S S'"
    unfolding shifts_def using S'(3) moved_all_queued [OF pq q] oth pq p(1) queuedD(1) [OF sys pq]
    by (auto simp: all_queued_def pullable_def pushables_def)
  then have "pulled this {src} S S'"
    unfolding pulled_def using q only pa p(3) by auto
  moreover have "nothing_better S' this src"
    unfolding nothing_better_def
  proof
    fix x assume x: "x \<in> pullable S' src this"
    have "x \<in> pullable S src this" using x pullable_sub [OF S'(3), of src this] q [of src] p(2) by auto
    moreover have "highest_curr (rtr S' this) \<le> prio (tk S' p)"
      using highest_curr_iff(1) [OF rt_sysD(4) [OF S'(2), of this], of p] there by (simp add: cpu_queued_def)
    ultimately show "highest_curr (rtr S' this) \<le> prio (tk S' x) \<or>
        (\<exists>q \<in> pullable S' src this. prio (tk S' q) \<le> prio (tk S' x) \<and> prio (tk S' q) < prio (tk S' (q_curr (rqs S' src))))"
      using best [of x] by (simp add: moved_view [OF S'(3)])
  qed
  ultimately show ?thesis using S' there(2) by blast
qed

lemma pull_from_ok:
  assumes E: "quiet_locks E" and sys: "rt_sys S"
  shows "\<exists>r' S'. pull_from E this src (r, S) = Some (r', S') \<and> rt_sys S' \<and> pulled this {src} S S' \<and>
    (rto_mask (rd S) src \<longrightarrow> src \<noteq> this \<longrightarrow> nothing_better S' this src) \<and>
    (r' \<longleftrightarrow> r \<or> cpu_queued S' this \<noteq> cpu_queued S this)"
proof -
  let ?out = "\<not> rto_mask (rd S) src \<or> this = src" and ?skip = "highest_next (rtr S src) \<ge> highest_curr (rtr S this)"
  have low: "highest_next (rtr S src) \<le> prio (tk S p)" if p: "p \<in> pushables S src" for p
  proof -
    have w: "sorted (map fst (pushable_tasks (rtr S src)))" "\<forall>n \<in> set (pushable_tasks (rtr S src)). fst n = prio (tk S (snd n))"
      "snd ` set (pushable_tasks (rtr S src)) = pushables S src"
      "highest_next (rtr S src) = (case pushable_tasks (rtr S src) of [] \<Rightarrow> 100 | n # _ \<Rightarrow> fst n)"
      using rt_sysD(5) [OF sys, of src] by (simp_all add: push_wf_def Let_def)
    obtain n where n: "n \<in> set (pushable_tasks (rtr S src))" "snd n = p" using p unfolding w(3) [symmetric] by blast
    then show ?thesis using w(1,2,4) by (cases "pushable_tasks (rtr S src)") auto
  qed
  have nb: "nothing_better S this src" if "?skip"
    using low that unfolding nothing_better_def pullable_def by (fastforce intro: order_trans)
  note pk = pick_highest_ok [OF sys, of src this]
  consider "?out" | "\<not> ?out" "?skip" | (none) "\<not> ?out" "\<not> ?skip" "pick_highest_pushable_task src this S = None"
    | (some) p where "\<not> ?out" "\<not> ?skip" "pick_highest_pushable_task src this S = Some p" by (cases "pick_highest_pushable_task src this S") auto
  then show ?thesis
  proof cases
    case none
    then show ?thesis using E sys pk by (simp add: pull_from_def quiet_locks_def nothing_better_def)
  next
    case (some p)
    then have p: "p \<in> pullable S src this" "\<And>q. q \<in> pullable S src this \<Longrightarrow> prio (tk S p) \<le> prio (tk S q)" using pk by auto
    show ?thesis
    proof (cases "prio (tk S p) < highest_curr (rtr S this) \<and> \<not> prio (tk S p) < prio (tk S (q_curr (rqs S src)))")
      case True
      from some(1) have sn: "src \<noteq> this" by blast
      obtain S' where "move_task E src this p S = Some S'" "rt_sys S'" "pulled this {src} S S'" "nothing_better S' this src"
        "cpu_queued S' this \<noteq> cpu_queued S this" using move_pulled [OF sys p(1) sn _ p(2)] True by blast
      then show ?thesis using E some True by (auto simp: pull_from_def quiet_locks_def)
    next
      case False
      then have "nothing_better S this src"
        using p unfolding nothing_better_def by (meson not_less order_trans)
      then show ?thesis using E sys some False by (auto simp: pull_from_def quiet_locks_def)
    qed
  qed (use sys nb in \<open>auto simp: pull_from_def\<close>)
qed

lemma rto_mask_kept:
  assumes "rt_sys S" "rt_sys S'" "moved_frame S S'" "cpu_queued S' c = cpu_queued S c"
  shows "rto_mask (rd S') c \<longleftrightarrow> rto_mask (rd S) c"
  unfolding rto_mask_iff [OF assms(1)] rto_mask_iff [OF assms(2)] assms(4) moved_view [OF assms(3)] ..

lemma pull_loop_ok:
  assumes E: "quiet_locks E"
  shows "rt_sys S \<Longrightarrow> distinct cpus \<Longrightarrow> \<exists>r' S'. pull_loop E this cpus (r, S) = Some (r', S') \<and> rt_sys S' \<and> pulled this (set cpus) S S' \<and>
    (\<forall>src \<in> set cpus. rto_mask (rd S) src \<longrightarrow> src \<noteq> this \<longrightarrow> nothing_better S' this src) \<and>
    (r' \<longleftrightarrow> r \<or> cpu_queued S' this \<noteq> cpu_queued S this)"
proof (induction cpus arbitrary: r S)
  case (Cons src cpus)
  obtain r1 S1 where S1: "pull_from E this src (r, S) = Some (r1, S1)" "rt_sys S1" "pulled this {src} S S1"
    "rto_mask (rd S) src \<longrightarrow> src \<noteq> this \<longrightarrow> nothing_better S1 this src"
    "r1 \<longleftrightarrow> r \<or> cpu_queued S1 this \<noteq> cpu_queued S this"
    using pull_from_ok [OF E Cons.prems(1)] by blast
  obtain r2 S2 where S2: "pull_loop E this cpus (r1, S1) = Some (r2, S2)" "rt_sys S2" "pulled this (set cpus) S1 S2"
    "\<forall>s \<in> set cpus. rto_mask (rd S1) s \<longrightarrow> s \<noteq> this \<longrightarrow> nothing_better S2 this s"
    "r2 \<longleftrightarrow> r1 \<or> cpu_queued S2 this \<noteq> cpu_queued S1 this"
    using Cons.IH [OF S1(2), of r1] distinct.simps(2) [of src cpus] Cons.prems(2) by blast
  note v = moved_view [OF pulledD(1) [OF S2(3)]]
  have h: "highest_curr (rtr S2 this) \<le> highest_curr (rtr S1 this)"
    by (rule highest_mono [OF S1(2) S2(2) pulledD(3) [OF S2(3)] v(1)])
  have n: "src \<notin> set cpus" using Cons.prems(2) by simp
  have "nothing_better S2 this src" if "rto_mask (rd S) src" "src \<noteq> this"
    by (rule nothing_better_mono [OF _ pulledD(1) [OF S2(3)] pulledD(5) [OF S2(3) that(2) n] h]) (use S1(4) that in blast)
  moreover have "rto_mask (rd S1) s \<longleftrightarrow> rto_mask (rd S) s" if "s \<in> set cpus" "s \<noteq> this" for s
    by (rule rto_mask_kept [OF Cons.prems(1) S1(2) pulledD(1) [OF S1(3)] pulledD(5) [OF S1(3) that(2)]]) (use that n in auto)
  moreover have "pulled this (set (src # cpus)) S S2" using pulled_trans [OF S1(3) S2(3) Cons.prems(1) S1(2)] by simp
  moreover have "r2 \<longleftrightarrow> r \<or> cpu_queued S2 this \<noteq> cpu_queued S this"
    using S1(5) S2(5) pulledD(3) [OF S1(3)] pulledD(3) [OF S2(3)] by blast
  ultimately show ?case using S1(1) S2 by auto
qed simp

lemma overload_count:
  assumes "rt_sys S"
  shows "rt_overloaded S = 0 \<Longrightarrow> \<not> rto_mask (rd S) c" "rt_overloaded S = 1 \<Longrightarrow> rto_mask (rd S) d \<Longrightarrow> rto_mask (rd S) c \<longleftrightarrow> c = d"
proof -
  have f: "finite {c. rto_mask (rd S) c}" "rt_overloaded S = int (card {c. rto_mask (rd S) c})"
    using smp_invD(5) [OF rt_sysD(1) [OF assms]] unfolding rto_wf_def counts_mask_def rt_overloaded_def by blast+
  show "\<not> rto_mask (rd S) c" if "rt_overloaded S = 0" using f that by auto
  show "rto_mask (rd S) c \<longleftrightarrow> c = d" if "rt_overloaded S = 1" "rto_mask (rd S) d"
  proof -
    have "card {c. rto_mask (rd S) c} = 1" using f(2) that(1) by simp
    then obtain x where "{c. rto_mask (rd S) c} = {x}" by (rule card_1_singletonE)
    then show ?thesis using that(2) unfolding set_eq_iff by simp
  qed
qed

lemma pull_rt_task_ok:
  assumes "quiet_locks E" "\<not> RT_PUSH_IPI E" "rt_sys S"
  shows "\<exists>S'. pull_rt_task E this S = Some S' \<and> rt_sys S' \<and> pulled this {c. c < nr_cpu_ids S} S S' \<and>
    (\<forall>src < nr_cpu_ids S. rto_mask (rd S) src \<longrightarrow> src \<noteq> this \<longrightarrow> nothing_better S' this src) \<and>
    (cpu_queued S' this \<noteq> cpu_queued S this \<longrightarrow> need_resched (tk S' (q_curr (rqs S' this))))"
proof (cases "rt_overloaded S = 0 \<or> rt_overloaded S = 1 \<and> rto_mask (rd S) this")
  case True
  then have "pull_rt_task E this S = Some S" by (auto simp: pull_rt_task_def Let_def)
  moreover have "\<not> rto_mask (rd S) src" if "src \<noteq> this" for src
    using True overload_count(1) [OF assms(3)] overload_count(2) [OF assms(3), of this src] that by auto
  ultimately show ?thesis using assms(3) by auto
next
  case False
  obtain r S1 where S1: "pull_loop E this [0..<nr_cpu_ids S] (False, S) = Some (r, S1)" "rt_sys S1"
    "pulled this {c. c < nr_cpu_ids S} S S1"
    "\<forall>src < nr_cpu_ids S. rto_mask (rd S) src \<longrightarrow> src \<noteq> this \<longrightarrow> nothing_better S1 this src"
    "r \<longleftrightarrow> cpu_queued S1 this \<noteq> cpu_queued S this"
    using pull_loop_ok [OF assms(1,3), of "[0..<nr_cpu_ids S]" this False] by (auto simp: lessThan_def atLeast0LessThan)
  define S2 where "S2 = (if r then smp_resched_curr this S1 else S1)"
  have e: "pull_rt_task E this S = Some S2" using False assms(2) S1(1) by (auto simp: pull_rt_task_def Let_def S2_def)
  have a: "acct S1 S2" by (simp add: S2_def)
  have mf: "moved_frame S1 S2" by (rule smp_frame_moved [OF acct_frame [OF a]])
  note q = acct_queued [OF a]
  have h: "rtr S2 = rtr S1" by (simp add: S2_def smp_resched_curr_def Let_def set_nr_and_not_polling_def smp_send_reschedule_def)
  have "pulled this {c. c < nr_cpu_ids S} S S2"
    using S1(3) shifts_trans [OF pulledD(2) [OF S1(3)] acct_shifts [OF a]] unfolding pulled_def q by blast
  moreover have "nothing_better S2 this src" if "src < nr_cpu_ids S" "rto_mask (rd S) src" "src \<noteq> this" for src
    by (rule nothing_better_mono [OF _ mf q]) (use S1(4) that fun_cong [OF h] in auto)
  moreover have "need_resched (tk S2 (q_curr (rqs S2 this)))" if "cpu_queued S2 this \<noteq> cpu_queued S this"
  proof -
    have r using that S1(5) unfolding q by blast
    then have "S2 = smp_resched_curr this S1" by (simp add: S2_def)
    then show ?thesis using resched_sets [of this S1] moved_view(5) [OF mf, of this] by simp
  qed
  ultimately show ?thesis using e acct_sys [OF a S1(2)] by blast
qed



section \<open>A concrete system\<close>

text \<open>
  Two processors: the first runs the task 2, and the task 1, less important, waits behind it; the second is idle.
\<close>

definition busy_task :: "pid \<Rightarrow> smp_task" where
  "busy_task p =
     (if p = 1 \<or> p = 2
      then blank_smp_task\<lparr>sched_class := RtClass, policy := SCHED_FIFO, on_rq := 1, prio := 60 - 10 * int p, nr_cpus_allowed := 2,
             cpus_allowed := (\<lambda>c. c < 2), rt := (rt blank_smp_task)\<lparr>rt_on_rq := True, rt_on_list := True\<rparr>, on_cpu := (p = 2)\<rparr>
      else blank_smp_task)"

definition busy_rt :: smp_rt_rq where
  "busy_rt = blank_smp_rt_rq
     \<lparr>active := \<lparr>bitmap = (replicate 101 False)[40 := True, 50 := True, 100 := True], rt_queue = (replicate 100 [])[40 := [2], 50 := [1]]\<rparr>,
      rt_nr_running := 2, rt_nr_total := 2, rt_nr_migratory := 2, highest_curr := 40, highest_next := 50, is_overloaded := True,
      pushable_tasks := [(50, 1)], rt_queued := True\<rparr>"

definition busy :: "(cpu \<Rightarrow> int, unit) smp" where
  "busy = (blank_smp 2)\<lparr>tk := busy_task, rqs := blank_smp_rq(0 := (blank_smp_rq 0)\<lparr>q_rt := busy_rt, q_nr_running := 2, q_curr := 2\<rparr>),
     rd := (rd (blank_smp 2))\<lparr>rto_mask := (\<lambda>c. c = 0), rto_count := 1, cpupri := (\<lambda>_. 100)(0 := 40)\<rparr>\<rparr>"

lemma linked_none [simp]: "\<not> linked p (replicate n [])"
  by (auto simp: linked_def)

lemma find_first_delim: "find_first_bit (replicate n False @ [True]) = n"
  by (induction n) simp_all

lemma blank_rt_wf:
  "arr_wf T blank_smp_rt_rq" "push_wf T blank_smp_rt_rq {}" "top_wf (blank_smp_rq c)" "rtr S c = blank_smp_rt_rq \<Longrightarrow> cpu_queued S c = {}"
proof -
  have r: "active blank_smp_rt_rq = \<lparr>bitmap = replicate 100 False @ [True], rt_queue = replicate 100 []\<rparr>" "rt_nr_running blank_smp_rt_rq = 0"
    "rt_nr_total blank_smp_rt_rq = 0" "rt_nr_migratory blank_smp_rt_rq = 0" "highest_curr blank_smp_rt_rq = 100" "highest_next blank_smp_rt_rq = 100"
    "\<not> is_overloaded blank_smp_rt_rq" "pushable_tasks blank_smp_rt_rq = []" "\<not> rt_queued blank_smp_rt_rq"
    by (simp_all add: blank_smp_rt_rq_def blank_kern_def rt_rq.defs)
  show "arr_wf T blank_smp_rt_rq" by (simp add: arr_wf_def r levelled_def nth_append find_first_delim)
  show "push_wf T blank_smp_rt_rq {}" by (simp add: push_wf_def r)
  show "top_wf (blank_smp_rq c)" by (simp add: top_wf_def cpu_others_def blank_smp_rq_def r)
  show "cpu_queued S c = {}" if "rtr S c = blank_smp_rt_rq" using that by (simp add: cpu_queued_def r)
qed

lemma busy_arr: "arr_wf busy_task busy_rt"
proof -
  have c: "concat (rt_queue (active busy_rt)) = [2, 1]" by code_simp
  have q: "linked p (rt_queue (active busy_rt)) \<longleftrightarrow> p = 2 \<or> p = 1" for p by (simp add: linked_iff_concat c del: set_concat)
  have "length (rt_queue (active busy_rt)) = 100" "length (bitmap (active busy_rt)) = 101" "bitmap (active busy_rt) ! 100"
    "find_first_bit (bitmap (active busy_rt)) = 40" by code_simp+
  moreover have "\<forall>i < 100. bitmap (active busy_rt) ! i \<longleftrightarrow> rt_queue (active busy_rt) ! i \<noteq> []"
    by (simp add: busy_rt_def nth_list_update)
  moreover have "levelled (\<lambda>p. nat (prio (busy_task p))) (rt_queue (active busy_rt))"
    unfolding levelled_def c by (simp add: busy_rt_def nth_list_update busy_task_def)
  moreover have "rt_nr_running busy_rt = 2" "rt_nr_total busy_rt = 2" "rt_nr_migratory busy_rt = 2" "highest_curr busy_rt = 40" "is_overloaded busy_rt"
    by (simp_all add: busy_rt_def)
  moreover have "migratable (busy_task 1)" "migratable (busy_task 2)" "prio (busy_task 1) = 50" "prio (busy_task 2) = 40"
    by (simp_all add: busy_task_def migratable_def)
  ultimately show ?thesis by (simp add: arr_wf_def Let_def c q rt_prio_ok_def max_tasks_def word_less_nat_alt del: length_concat filter_concat)
qed

lemma busy_sys: "rt_sys busy"
proof -
  have f: "rqs busy 0 = (blank_smp_rq 0)\<lparr>q_rt := busy_rt, q_nr_running := 2, q_curr := 2\<rparr>" "c \<noteq> 0 \<Longrightarrow> rqs busy c = blank_smp_rq c"
    "tk busy = busy_task" "rto_mask (rd busy) = (\<lambda>c. c = 0)" "rto_count (rd busy) = 1" for c
    by (simp_all add: busy_def)
  have r: "c \<noteq> 0 \<Longrightarrow> rtr busy c = blank_smp_rt_rq" for c by (simp add: f blank_smp_rq_def)
  have q0: "concat (rt_queue (active busy_rt)) = [2, 1]" by code_simp
  have q: "cpu_queued busy c = (if c = 0 then {1, 2} else {})" for c
    using blank_rt_wf(4) [OF r, of c] by (auto simp: f cpu_queued_def linked_iff_concat q0 simp del: set_concat)
  have t: "busy_task p = (if p = 1 \<or> p = 2 then busy_task p else blank_smp_task)" for p by (simp add: busy_task_def)
  have b: "on_rq blank_smp_task = 0" "\<not> rt_on_rq (rt blank_smp_task)" "prio blank_smp_task = 120"
    by (simp_all add: blank_smp_task_def blank_task_def task_struct.defs)
  have v: "migratable (busy_task p)" "prio (busy_task p) = 60 - 10 * int p" "task_cpu (busy_task p) = 0" "rt_on_rq (rt (busy_task p))"
    "on_rq (busy_task p) = TASK_ON_RQ_QUEUED" "sched_class (busy_task p) = RtClass" if "p = 1 \<or> p = 2" for p
    using that by (auto simp: busy_task_def migratable_def blank_smp_task_def blank_task_def task_struct.defs TASK_ON_RQ_QUEUED_def)
  have ps: "pushables busy c = (if c = 0 then {1} else {})" for c by (auto simp: pushables_def q f v)
  have "arr_wf (tk busy) (rtr busy c)" for c using busy_arr blank_rt_wf(1) r by (cases "c = 0") (simp_all add: f)
  moreover have "push_wf (tk busy) (rtr busy c) (pushables busy c)" for c
    using blank_rt_wf(2) r by (cases "c = 0") (simp_all add: ps f push_wf_def busy_rt_def v)
  moreover have "top_wf (rqs busy c)" for c
    using blank_rt_wf(3) by (cases "c = 0") (simp_all add: f top_wf_def cpu_others_def busy_rt_def)
  moreover have "member_wf busy"
    unfolding member_wf_def q f
  proof (intro conjI allI impI)
    show "rt_on_rq (rt (busy_task p)) \<longleftrightarrow> p \<in> (if task_cpu (busy_task p) = 0 then {1, 2} else {})" for p
      using v(3,4) [of p] b(2) t [of p] by (cases "p = 1 \<or> p = 2") auto
  qed (auto simp: v(3) split: if_split_asm)
  moreover have "rto_wf busy"
  proof -
    have "is_overloaded (rtr busy c) \<longleftrightarrow> c = 0" "q_online (rqs busy c)" for c
      by (cases "c = 0"; simp add: f r busy_rt_def blank_smp_rq_def blank_smp_rt_rq_def rt_rq.defs)+
    then show ?thesis by (simp add: rto_wf_def counts_mask_def f)
  qed
  ultimately have "smp_inv busy" by (simp add: smp_inv_def)
  moreover have "tasks_wf busy"
    unfolding tasks_wf_def q f
  proof (intro conjI allI impI)
    show "rt_on_rq (rt (busy_task p))" if "on_rq (busy_task p) = TASK_ON_RQ_QUEUED" for p
      using that v(4) [of p] t [of p] b(1) by (cases "p = 1 \<or> p = 2") (auto simp: TASK_ON_RQ_QUEUED_def)
    show "0 \<le> prio (busy_task p)" for p using v(2) [of p] t [of p] b(3) by (cases "p = 1 \<or> p = 2") auto
  qed (auto simp: v(5,6) split: if_split_asm)
  ultimately show ?thesis by (simp add: rt_sys_def)
qed

lemma demo_ok: "find_ok (demo_env ipi)" "lock_ok (demo_env ipi)" "quiet_locks (demo_env ipi)"
  by (auto simp: find_ok_def lock_ok_def quiet_locks_def demo_env_def Let_def split: if_split_asm)

theorem push_rt_task_sound_witness:
  "\<exists>S'. push_rt_task (demo_env False) 0 busy = Some (True, S') \<and> task_cpu (tk S' 1) = 1 \<and> rt_sys S' \<and>
     (\<exists>S1 p dst. rt_sys S1 \<and> pushed S1 0 dst p S')"
proof -
  have "map_option (\<lambda>(b, S). (b, task_cpu (tk S 1))) (push_rt_task (demo_env False) 0 busy) = Some (True, 1)" by code_simp
  then obtain S' where S': "push_rt_task (demo_env False) 0 busy = Some (True, S')" "task_cpu (tk S' 1) = 1" by auto
  then show ?thesis using push_rt_task_sound [OF demo_ok(1,2) busy_sys S'(1)] by blast
qed



end
