(* ===== verification/Smp_Core.thy ===== *)
theory Smp_Core
  imports Smp_Balance
begin

text \<open>
  The core of the scheduler on several processors, from \<open>kernel/sched/core.c\<close>: which processors a task may use,
  migration of a queued task, changes of affinity, the stopper's part of a migration, wakeups (local, remote and
  through the list of a processor), and \<open>__schedule\<close> with the flag \<open>on_cpu\<close> and the callbacks of the balancer.

  The real-time class is the one of \<open>Smp_Rt\<close> and \<open>Smp_Push\<close>. The functions of the other classes are parameters, like
  everything else outside: the record \<open>senv2\<close> extends the environment of \<open>Smp_Data\<close>.
\<close>


section \<open>Environment\<close>

text \<open>
  \<open>wait_off_cpu\<close> is what happens until \<open>smp_cond_load_acquire(&p->on_cpu, !VAL)\<close> ends, \<open>cpu_node\<close> the mask of the node
  of a processor, \<open>None\<close> if it has none.
\<close>

record ('c, 'x) senv2 = "('c, 'x) senv" +
  o_pick :: "class_id \<Rightarrow> (pid \<Rightarrow> ('c, 'x) smp \<Rightarrow> ('c, 'x) smp option) \<Rightarrow> cpu \<Rightarrow> pid \<Rightarrow> ('c, 'x) smp \<Rightarrow>
    (pick_result \<times> ('c, 'x) smp) option"
  o_task_woken :: "class_id \<Rightarrow> cpu \<Rightarrow> pid \<Rightarrow> ('c, 'x) smp \<Rightarrow> ('c, 'x) smp option"
  o_task_dead :: "class_id \<Rightarrow> pid \<Rightarrow> ('c, 'x) smp \<Rightarrow> ('c, 'x) smp"
  o_set_cpus_allowed :: "class_id \<Rightarrow> pid \<Rightarrow> cpumask \<Rightarrow> ('c, 'x) smp \<Rightarrow> ('c, 'x) smp"
  o_h_nr_running :: "cpu \<Rightarrow> ('c, 'x) smp \<Rightarrow> u32"
  TTWU_QUEUE :: bool
  sd_llc_id :: "cpu \<Rightarrow> nat"
  cpu_node :: "cpu \<Rightarrow> cpumask option"
  CPUSETS :: bool
  cpuset_cpus_allowed_fallback :: "pid \<Rightarrow> ('c, 'x) smp \<Rightarrow> ('c, 'x) smp"
  wait_off_cpu :: "pid \<Rightarrow> ('c, 'x) smp \<Rightarrow> ('c, 'x) smp"
  smp_wq_worker_waking_up :: "pid \<Rightarrow> cpu \<Rightarrow> ('c, 'x) smp \<Rightarrow> ('c, 'x) smp"
  smp_wq_worker_sleeping :: "pid \<Rightarrow> ('c, 'x) smp \<Rightarrow> pid option \<times> ('c, 'x) smp"
  smp_signal_pending_state :: "int \<Rightarrow> pid \<Rightarrow> ('c, 'x) smp \<Rightarrow> bool"

definition PF_NO_SETAFFINITY :: u32 where "PF_NO_SETAFFINITY = 0x4000000"

text \<open>On several processors the list of classes starts with the stop class.\<close>

definition smp_for_each_class :: "class_id list" where
  "smp_for_each_class = StopClass # for_each_class"


section \<open>Calls through the class\<close>

definition smp_rq_clock_skip_update :: "cpu \<Rightarrow> ('c, 'x) smp \<Rightarrow> ('c, 'x) smp" where
  "smp_rq_clock_skip_update c S = upd_rq S c (\<lambda>q. q\<lparr>q_flags := q_flags q OR RQCF_REQ_SKIP\<rparr>)"

definition smp_check_preempt_curr ::
  "('c, 'x, 'e) senv_scheme \<Rightarrow> cpu \<Rightarrow> pid \<Rightarrow> int \<Rightarrow> ('c, 'x) smp \<Rightarrow> ('c, 'x) smp option" where
  "smp_check_preempt_curr E c p flags S = do {
     let cc = sched_class (tk S (q_curr (rqs S c)));
     let pc = sched_class (tk S p);
     S \<leftarrow> (if pc = cc then
             if cc = RtClass then smp_check_preempt_curr_rt E c p flags S else o_check_preempt E cc c p flags S
           else Some (if class_preempts smp_for_each_class cc pc then smp_resched_curr c S else S));
     let cur = tk S (q_curr (rqs S c));
     Some (if task_on_rq_queued cur \<and> need_resched cur then smp_rq_clock_skip_update c S else S)
   }"

definition select_task_rq_ts :: "pid \<Rightarrow> ('c, 'x) smp \<Rightarrow> cpu" where
  "select_task_rq_ts p S = task_cpu (tk S p)"

definition class_select_rq ::
  "('c, 'x, 'e) senv_scheme \<Rightarrow> pid \<Rightarrow> cpu \<Rightarrow> int \<Rightarrow> int \<Rightarrow> ('c, 'x) smp \<Rightarrow> cpu" where
  "class_select_rq E p cpu sd_flags wake_flags S =
     (case sched_class (tk S p) of
        RtClass \<Rightarrow> select_task_rq_rt E p cpu sd_flags wake_flags S
      | TsClass \<Rightarrow> select_task_rq_ts p S
      | cls \<Rightarrow> o_select_rq E cls p cpu sd_flags wake_flags S)"

definition set_cpus_allowed_common :: "pid \<Rightarrow> cpumask \<Rightarrow> ('c, 'x) smp \<Rightarrow> ('c, 'x) smp" where
  "set_cpus_allowed_common p new_mask S =
     upd_tk S p (\<lambda>t. t\<lparr>cpus_allowed := new_mask, nr_cpus_allowed := int (cpumask_weight (nr_cpu_ids S) new_mask)\<rparr>)"

definition class_set_cpus_allowed ::
  "('c, 'x, 'e) senv2_scheme \<Rightarrow> pid \<Rightarrow> cpumask \<Rightarrow> ('c, 'x) smp \<Rightarrow> ('c, 'x) smp" where
  "class_set_cpus_allowed E p new_mask S =
     (if sched_class (tk S p) \<in> {RtClass, TsClass} then set_cpus_allowed_common p new_mask S
      else o_set_cpus_allowed E (sched_class (tk S p)) p new_mask S)"

definition smp_set_curr_task ::
  "('c, 'x, 'e) senv_scheme \<Rightarrow> cpu \<Rightarrow> pid \<Rightarrow> ('c, 'x) smp \<Rightarrow> ('c, 'x) smp option" where
  "smp_set_curr_task E c p S =
     (if sched_class (tk S p) = RtClass then Some (smp_set_curr_task_rt c S) else o_set_curr E (sched_class (tk S p)) c S)"


section \<open>Allowed processors and migration\<close>

definition is_per_cpu_kthread :: "smp_task \<Rightarrow> bool" where
  "is_per_cpu_kthread t \<longleftrightarrow> tflags t AND PF_KTHREAD \<noteq> 0 \<and> nr_cpus_allowed t = 1"

definition is_cpu_allowed :: "pid \<Rightarrow> cpu \<Rightarrow> ('c, 'x) smp \<Rightarrow> bool" where
  "is_cpu_allowed p cpu S \<longleftrightarrow> cpus_allowed (tk S p) cpu \<and>
     (if is_per_cpu_kthread (tk S p) then cpu_online_mask S cpu else cpu_active_mask S cpu)"

text \<open>
  \<open>move_queued_task\<close> gives up the lock of the old run queue before it takes that of the new one; in between the
  task is marked \<open>TASK_ON_RQ_MIGRATING\<close> and on no queue.
\<close>

definition move_queued_out ::
  "('c, 'x, 'e) senv_scheme \<Rightarrow> cpu \<Rightarrow> pid \<Rightarrow> cpu \<Rightarrow> ('c, 'x) smp \<Rightarrow> ('c, 'x) smp option" where
  "move_queued_out E c p new_cpu S =
     map_option (set_task_cpu p new_cpu)
       (smp_dequeue_task E c p DEQUEUE_NOCLOCK (upd_tk S p (\<lambda>t. t\<lparr>on_rq := TASK_ON_RQ_MIGRATING\<rparr>)))"

definition move_queued_in ::
  "('c, 'x, 'e) senv_scheme \<Rightarrow> pid \<Rightarrow> cpu \<Rightarrow> ('c, 'x) smp \<Rightarrow> ('c, 'x) smp option" where
  "move_queued_in E p new_cpu S =
     (if task_cpu (tk S p) \<noteq> new_cpu then None
      else do {
        S \<leftarrow> smp_enqueue_task E new_cpu p 0 S;
        smp_check_preempt_curr E new_cpu p 0 (upd_tk S p (\<lambda>t. t\<lparr>on_rq := TASK_ON_RQ_QUEUED\<rparr>))
      })"

definition move_queued_task ::
  "('c, 'x, 'e) senv_scheme \<Rightarrow> cpu \<Rightarrow> pid \<Rightarrow> cpu \<Rightarrow> ('c, 'x) smp \<Rightarrow> ('c, 'x) smp option" where
  "move_queued_task E c p new_cpu S = do {
     S \<leftarrow> move_queued_out E c p new_cpu S;
     move_queued_in E p new_cpu S
   }"

definition migrate_task ::
  "('c, 'x, 'e) senv_scheme \<Rightarrow> cpu \<Rightarrow> pid \<Rightarrow> cpu \<Rightarrow> ('c, 'x) smp \<Rightarrow> ('c, 'x) smp option" where
  "migrate_task E c p dest_cpu S =
     (if \<not> is_cpu_allowed p dest_cpu S then Some S
      else move_queued_task E c p dest_cpu (smp_update_rq_clock c S))"

definition migrate_swap_task ::
  "('c, 'x, 'e) senv_scheme \<Rightarrow> pid \<Rightarrow> cpu \<Rightarrow> ('c, 'x) smp \<Rightarrow> ('c, 'x) smp option" where
  "migrate_swap_task E p cpu S =
     (if task_on_rq_queued (tk S p) then do {
        let src = task_cpu (tk S p);
        S \<leftarrow> smp_deactivate_task E src p 0 (upd_tk S p (\<lambda>t. t\<lparr>on_rq := TASK_ON_RQ_MIGRATING\<rparr>));
        S \<leftarrow> smp_activate_task E cpu p 0 (set_task_cpu p cpu S);
        smp_check_preempt_curr E cpu p 0 (upd_tk S p (\<lambda>t. t\<lparr>on_rq := TASK_ON_RQ_QUEUED\<rparr>))
      } else Some (upd_tk S p (\<lambda>t. t\<lparr>wake_cpu := cpu\<rparr>)))"

text \<open>The two stoppers run \<open>migrate_swap_stop\<close>; \<open>EAGAIN\<close> is 11.\<close>

definition migrate_swap_stop ::
  "('c, 'x, 'e) senv_scheme \<Rightarrow> pid \<Rightarrow> cpu \<Rightarrow> pid \<Rightarrow> cpu \<Rightarrow> ('c, 'x) smp \<Rightarrow> (int \<times> ('c, 'x) smp) option" where
  "migrate_swap_stop E src_task src_cpu dst_task dst_cpu S =
     (if \<not> cpu_active_mask S src_cpu \<or> \<not> cpu_active_mask S dst_cpu then Some (- 11, S)
      else if task_cpu (tk S dst_task) \<noteq> dst_cpu \<or> task_cpu (tk S src_task) \<noteq> src_cpu \<or>
        \<not> cpus_allowed (tk S src_task) dst_cpu \<or> \<not> cpus_allowed (tk S dst_task) src_cpu then Some (- 11, S)
      else do {
        S \<leftarrow> migrate_swap_task E src_task dst_cpu S;
        S \<leftarrow> migrate_swap_task E dst_task src_cpu S;
        Some (0, S)
      })"

text \<open>The checks of \<open>migrate_swap\<close>; \<open>True\<close> says that the stoppers are started.\<close>

definition migrate_swap :: "pid \<Rightarrow> pid \<Rightarrow> cpu \<Rightarrow> cpu \<Rightarrow> ('c, 'x) smp \<Rightarrow> bool" where
  "migrate_swap cur p target_cpu curr_cpu S \<longleftrightarrow>
     curr_cpu \<noteq> target_cpu \<and> cpu_active_mask S curr_cpu \<and> cpu_active_mask S target_cpu \<and>
     cpus_allowed (tk S cur) target_cpu \<and> cpus_allowed (tk S p) curr_cpu"

definition kick_process :: "pid \<Rightarrow> ('c, 'x) smp \<Rightarrow> ('c, 'x) smp" where
  "kick_process p S =
     (let cpu = task_cpu (tk S p)
      in if cpu \<noteq> this_cpu S \<and> q_curr (rqs S cpu) = p then smp_send_reschedule cpu S else S)"


section \<open>Affinity\<close>

definition do_set_cpus_allowed ::
  "('c, 'x, 'e) senv2_scheme \<Rightarrow> pid \<Rightarrow> cpumask \<Rightarrow> ('c, 'x) smp \<Rightarrow> ('c, 'x) smp option" where
  "do_set_cpus_allowed E p new_mask S = do {
     let c = task_cpu (tk S p);
     let queued = task_on_rq_queued (tk S p);
     let running = smp_task_current S c p;
     S \<leftarrow> (if queued then smp_dequeue_task E c p (DEQUEUE_SAVE OR DEQUEUE_NOCLOCK) S else Some S);
     S \<leftarrow> (if running then smp_put_prev_task E c p S else Some S);
     let S = class_set_cpus_allowed E p new_mask S;
     S \<leftarrow> (if queued then smp_enqueue_task E c p (ENQUEUE_RESTORE OR ENQUEUE_NOCLOCK) S else Some S);
     (if running then smp_set_curr_task E c p S else Some S)
   }"

text \<open>
  \<open>__set_cpus_allowed_ptr\<close> returns a value, or leaves work to the stopper of a processor and then returns 0;
  \<open>EINVAL\<close> is 22.
\<close>

datatype affinity_result = Returns int | StopCpu cpu pid cpu

definition set_cpus_allowed_ptr_main ::
  "('c, 'x, 'e) senv2_scheme \<Rightarrow> pid \<Rightarrow> cpumask \<Rightarrow> bool \<Rightarrow> ('c, 'x) smp \<Rightarrow> (affinity_result \<times> ('c, 'x) smp) option" where
  "set_cpus_allowed_ptr_main E p new_mask check S =
     (let c = task_cpu (tk S p);
          S = smp_update_rq_clock c S;
          cpu_valid_mask = (if tflags (tk S p) AND PF_KTHREAD \<noteq> 0 then cpu_online_mask S else cpu_active_mask S);
          n = nr_cpu_ids S
      in if check \<and> tflags (tk S p) AND PF_NO_SETAFFINITY \<noteq> 0 then Some (Returns (- 22), S)
         else if cpumask_equal n (cpus_allowed (tk S p)) new_mask then Some (Returns 0, S)
         else
           let dest_cpu = cpumask_first_and n cpu_valid_mask new_mask
           in if n \<le> dest_cpu then Some (Returns (- 22), S)
              else do {
                S \<leftarrow> do_set_cpus_allowed E p new_mask S;
                (if new_mask (task_cpu (tk S p)) then Some (Returns 0, S)
                 else if smp_task_running S p \<or> state (tk S p) = TASK_WAKING then Some (StopCpu c p dest_cpu, S)
                 else if task_on_rq_queued (tk S p) then map_option (Pair (Returns 0)) (move_queued_task E c p dest_cpu S)
                 else Some (Returns 0, S))
              })"

definition set_cpus_allowed_ptr ::
  "('c, 'x, 'e) senv2_scheme \<Rightarrow> pid \<Rightarrow> cpumask \<Rightarrow> ('c, 'x) smp \<Rightarrow> (affinity_result \<times> ('c, 'x) smp) option" where
  "set_cpus_allowed_ptr E p new_mask S = set_cpus_allowed_ptr_main E p new_mask False S"

text \<open>
  \<open>select_fallback_rq\<close>: the states \<open>fail\<close>, \<open>possible\<close> and \<open>cpuset\<close> of its loop, the last first; \<open>None\<close> is the \<open>BUG()\<close>.
\<close>

definition fallback_allowed :: "pid \<Rightarrow> ('c, 'x) smp \<Rightarrow> cpu option" where
  "fallback_allowed p S = find (\<lambda>c. is_cpu_allowed p c S) (mask_cpus (nr_cpu_ids S) (cpus_allowed (tk S p)))"

definition fallback_fail :: "pid \<Rightarrow> ('c, 'x) smp \<Rightarrow> (cpu \<times> ('c, 'x) smp) option" where
  "fallback_fail p S = map_option (\<lambda>c. (c, S)) (fallback_allowed p S)"

definition fallback_possible ::
  "('c, 'x, 'e) senv2_scheme \<Rightarrow> pid \<Rightarrow> ('c, 'x) smp \<Rightarrow> (cpu \<times> ('c, 'x) smp) option" where
  "fallback_possible E p S =
     (case fallback_allowed p S of
        Some c \<Rightarrow> Some (c, S)
      | None \<Rightarrow> do { S \<leftarrow> do_set_cpus_allowed E p (cpu_possible_mask S) S; fallback_fail p S })"

definition fallback_cpuset ::
  "('c, 'x, 'e) senv2_scheme \<Rightarrow> pid \<Rightarrow> ('c, 'x) smp \<Rightarrow> (cpu \<times> ('c, 'x) smp) option" where
  "fallback_cpuset E p S =
     (case fallback_allowed p S of
        Some c \<Rightarrow> Some (c, S)
      | None \<Rightarrow>
          if CPUSETS E then fallback_possible E p (cpuset_cpus_allowed_fallback E p S)
          else do { S \<leftarrow> do_set_cpus_allowed E p (cpu_possible_mask S) S; fallback_fail p S })"

definition select_fallback_rq ::
  "('c, 'x, 'e) senv2_scheme \<Rightarrow> cpu \<Rightarrow> pid \<Rightarrow> ('c, 'x) smp \<Rightarrow> (cpu \<times> ('c, 'x) smp) option" where
  "select_fallback_rq E cpu p S =
     (case Option.bind (cpu_node E cpu) (\<lambda>node. find (\<lambda>c. cpu_active_mask S c \<and> cpus_allowed (tk S p) c) (mask_cpus (nr_cpu_ids S) node)) of
        Some c \<Rightarrow> Some (c, S)
      | None \<Rightarrow> fallback_cpuset E p S)"

definition select_task_rq ::
  "('c, 'x, 'e) senv2_scheme \<Rightarrow> pid \<Rightarrow> cpu \<Rightarrow> int \<Rightarrow> int \<Rightarrow> ('c, 'x) smp \<Rightarrow> (cpu \<times> ('c, 'x) smp) option" where
  "select_task_rq E p cpu sd_flags wake_flags S =
     (let cpu = (if nr_cpus_allowed (tk S p) > 1 then class_select_rq E p cpu sd_flags wake_flags S
                 else cpumask_first (nr_cpu_ids S) (cpus_allowed (tk S p)))
      in if \<not> is_cpu_allowed p cpu S then select_fallback_rq E (task_cpu (tk S p)) p S else Some (cpu, S))"


section \<open>Waking tasks\<close>

definition smp_ttwu_activate ::
  "('c, 'x, 'e) senv2_scheme \<Rightarrow> cpu \<Rightarrow> pid \<Rightarrow> int \<Rightarrow> ('c, 'x) smp \<Rightarrow> ('c, 'x) smp option" where
  "smp_ttwu_activate E c p en_flags S = do {
     S \<leftarrow> smp_activate_task E c p en_flags S;
     let S = upd_tk S p (\<lambda>t. t\<lparr>on_rq := TASK_ON_RQ_QUEUED\<rparr>);
     Some (if tflags (tk S p) AND PF_WQ_WORKER \<noteq> 0 then smp_wq_worker_waking_up E p c S else S)
   }"

definition update_avg :: "u64 \<Rightarrow> u64 \<Rightarrow> u64" where
  "update_avg avg sample = (let diff = sample - avg in avg + signed_drop_bit 3 diff)"

definition end_idle :: "smp_rq \<Rightarrow> smp_rq" where
  "end_idle q =
     (if q_idle_stamp q \<noteq> 0 then
        let delta = q_clock q - q_idle_stamp q; max = 2 * q_max_idle_balance_cost q;
            avg = update_avg (q_avg_idle q) delta
        in q\<lparr>q_avg_idle := (if avg > max then max else avg), q_idle_stamp := 0\<rparr>
      else q)"

definition class_task_woken ::
  "('c, 'x, 'e) senv2_scheme \<Rightarrow> cpu \<Rightarrow> pid \<Rightarrow> ('c, 'x) smp \<Rightarrow> ('c, 'x) smp option" where
  "class_task_woken E c p S =
     (if sched_class (tk S p) = RtClass then task_woken_rt E c p S else o_task_woken E (sched_class (tk S p)) c p S)"

definition smp_ttwu_do_wakeup ::
  "('c, 'x, 'e) senv2_scheme \<Rightarrow> cpu \<Rightarrow> pid \<Rightarrow> int \<Rightarrow> ('c, 'x) smp \<Rightarrow> ('c, 'x) smp option" where
  "smp_ttwu_do_wakeup E c p wake_flags S = do {
     S \<leftarrow> smp_check_preempt_curr E c p wake_flags S;
     S \<leftarrow> class_task_woken E c p (upd_tk S p (\<lambda>t. t\<lparr>state := TASK_RUNNING\<rparr>));
     Some (upd_rq S c end_idle)
   }"

definition smp_ttwu_do_activate ::
  "('c, 'x, 'e) senv2_scheme \<Rightarrow> cpu \<Rightarrow> pid \<Rightarrow> int \<Rightarrow> ('c, 'x) smp \<Rightarrow> ('c, 'x) smp option" where
  "smp_ttwu_do_activate E c p wake_flags S = do {
     let S = (if sched_contributes_to_load (tk S p)
              then upd_rq S c (\<lambda>q. q\<lparr>q_nr_uninterruptible := q_nr_uninterruptible q - 1\<rparr>) else S);
     let en_flags = ENQUEUE_WAKEUP OR ENQUEUE_NOCLOCK;
     let en_flags = (if wake_flags AND WF_MIGRATED \<noteq> 0 then en_flags OR ENQUEUE_MIGRATED else en_flags);
     S \<leftarrow> smp_ttwu_activate E c p en_flags S;
     smp_ttwu_do_wakeup E c p wake_flags S
   }"

definition smp_ttwu_remote ::
  "('c, 'x, 'e) senv2_scheme \<Rightarrow> pid \<Rightarrow> int \<Rightarrow> ('c, 'x) smp \<Rightarrow> (bool \<times> ('c, 'x) smp) option" where
  "smp_ttwu_remote E p wake_flags S =
     (if task_on_rq_queued (tk S p)
      then let c = task_cpu (tk S p)
           in map_option (Pair True) (smp_ttwu_do_wakeup E c p wake_flags (smp_update_rq_clock c S))
      else Some (False, S))"

text \<open>The list \<open>wake_list\<close> is a stack: the last task added is the first one woken.\<close>

fun ttwu_pending_loop ::
  "('c, 'x, 'e) senv2_scheme \<Rightarrow> cpu \<Rightarrow> pid list \<Rightarrow> ('c, 'x) smp \<Rightarrow> ('c, 'x) smp option" where
  "ttwu_pending_loop E c [] S = Some S"
| "ttwu_pending_loop E c (p # ps) S = do {
     S \<leftarrow> smp_ttwu_do_activate E c p (if sched_remote_wakeup (tk S p) then WF_MIGRATED else 0) S;
     ttwu_pending_loop E c ps S
   }"

definition sched_ttwu_pending ::
  "('c, 'x, 'e) senv2_scheme \<Rightarrow> cpu \<Rightarrow> ('c, 'x) smp \<Rightarrow> ('c, 'x) smp option" where
  "sched_ttwu_pending E c S =
     (let llist = q_wake_list (rqs S c); S = upd_rq S c (\<lambda>q. q\<lparr>q_wake_list := []\<rparr>)
      in if llist = [] then Some S else ttwu_pending_loop E c llist (smp_update_rq_clock c S))"

text \<open>\<open>scheduler_ipi\<close> without the kick of the nohz balancer; taking the interrupt clears it.\<close>

definition scheduler_ipi ::
  "('c, 'x, 'e) senv2_scheme \<Rightarrow> ('c, 'x) smp \<Rightarrow> ('c, 'x) smp option" where
  "scheduler_ipi E S =
     (let S = S\<lparr>resched_ipi := (resched_ipi S)(this_cpu S := False)\<rparr>
      in if q_wake_list (rqs S (this_cpu S)) = [] then Some S else sched_ttwu_pending E (this_cpu S) S)"

definition ttwu_queue_remote :: "pid \<Rightarrow> cpu \<Rightarrow> int \<Rightarrow> ('c, 'x) smp \<Rightarrow> ('c, 'x) smp" where
  "ttwu_queue_remote p cpu wake_flags S =
     (let S = upd_tk S p (\<lambda>t. t\<lparr>sched_remote_wakeup := (wake_flags AND WF_MIGRATED \<noteq> 0)\<rparr>);
          was_empty = (q_wake_list (rqs S cpu) = []);
          S = upd_rq S cpu (\<lambda>q. q\<lparr>q_wake_list := p # q_wake_list q\<rparr>)
      in if was_empty then
           case set_nr_if_polling (q_idle (rqs S cpu)) S of (polled, S) \<Rightarrow>
             if \<not> polled then smp_send_reschedule cpu S else S
         else S)"

definition wake_up_if_idle :: "cpu \<Rightarrow> ('c, 'x) smp \<Rightarrow> ('c, 'x) smp" where
  "wake_up_if_idle cpu S =
     (let q = rqs S cpu
      in if tflags (tk S (q_curr q)) AND PF_IDLE = 0 then S
         else case set_nr_if_polling (q_idle q) S of (polled, S) \<Rightarrow>
           if polled then S else if tflags (tk S (q_curr q)) AND PF_IDLE \<noteq> 0 then smp_send_reschedule cpu S else S)"

definition cpus_share_cache :: "('c, 'x, 'e) senv2_scheme \<Rightarrow> cpu \<Rightarrow> cpu \<Rightarrow> bool" where
  "cpus_share_cache E a b \<longleftrightarrow> sd_llc_id E a = sd_llc_id E b"

definition smp_ttwu_queue ::
  "('c, 'x, 'e) senv2_scheme \<Rightarrow> pid \<Rightarrow> cpu \<Rightarrow> int \<Rightarrow> ('c, 'x) smp \<Rightarrow> ('c, 'x) smp option" where
  "smp_ttwu_queue E p cpu wake_flags S =
     (if TTWU_QUEUE E \<and> \<not> cpus_share_cache E (this_cpu S) cpu then Some (ttwu_queue_remote p cpu wake_flags S)
      else smp_ttwu_do_activate E cpu p wake_flags (smp_update_rq_clock cpu S))"

definition smp_end_iowait :: "pid \<Rightarrow> ('c, 'x) smp \<Rightarrow> ('c, 'x) smp" where
  "smp_end_iowait p S =
     (if in_iowait (tk S p) then upd_rq S (task_cpu (tk S p)) (\<lambda>q. q\<lparr>q_nr_iowait := q_nr_iowait q - 1\<rparr>) else S)"

text \<open>The part of \<open>try_to_wake_up\<close> for a task that is not queued.\<close>

definition ttwu_place ::
  "('c, 'x, 'e) senv2_scheme \<Rightarrow> pid \<Rightarrow> int \<Rightarrow> ('c, 'x) smp \<Rightarrow> ('c, 'x) smp option" where
  "ttwu_place E p wake_flags S = do {
     let S = (if on_cpu (tk S p) then wait_off_cpu E p S else S);
     let S = upd_tk S p (\<lambda>t. t\<lparr>sched_contributes_to_load := task_contributes_to_load t, state := TASK_WAKING\<rparr>);
     let S = smp_end_iowait p S;
     (cpu, S) \<leftarrow> select_task_rq E p (wake_cpu (tk S p)) SD_BALANCE_WAKE wake_flags S;
     (if task_cpu (tk S p) \<noteq> cpu then smp_ttwu_queue E p cpu (wake_flags OR WF_MIGRATED) (set_task_cpu p cpu S)
      else smp_ttwu_queue E p cpu wake_flags S)
   }"

definition smp_try_to_wake_up ::
  "('c, 'x, 'e) senv2_scheme \<Rightarrow> pid \<Rightarrow> int \<Rightarrow> int \<Rightarrow> ('c, 'x) smp \<Rightarrow> (bool \<times> ('c, 'x) smp) option" where
  "smp_try_to_wake_up E p st wake_flags S =
     (if state (tk S p) AND st = 0 then Some (False, S)
      else do {
        (done, S) \<leftarrow> (if on_rq (tk S p) \<noteq> 0 then smp_ttwu_remote E p wake_flags S else Some (False, S));
        (if done then Some (True, S) else map_option (Pair True) (ttwu_place E p wake_flags S))
      })"

definition smp_try_to_wake_up_local ::
  "('c, 'x, 'e) senv2_scheme \<Rightarrow> pid \<Rightarrow> ('c, 'x) smp \<Rightarrow> ('c, 'x) smp option" where
  "smp_try_to_wake_up_local E p S =
     (let c = task_cpu (tk S p)
      in if c \<noteq> this_cpu S \<or> p = q_curr (rqs S c) then Some S
         else if state (tk S p) AND TASK_NORMAL = 0 then Some S
         else do {
           S \<leftarrow> (if task_on_rq_queued (tk S p) then Some S
                 else smp_ttwu_activate E c p (ENQUEUE_WAKEUP OR ENQUEUE_NOCLOCK) (smp_end_iowait p S));
           smp_ttwu_do_wakeup E c p 0 S
         })"

text \<open>The stopper of a processor runs \<open>migration_cpu_stop\<close>.\<close>

definition migration_cpu_stop ::
  "('c, 'x, 'e) senv2_scheme \<Rightarrow> pid \<Rightarrow> cpu \<Rightarrow> ('c, 'x) smp \<Rightarrow> ('c, 'x) smp option" where
  "migration_cpu_stop E p dest_cpu S = do {
     let c = this_cpu S;
     S \<leftarrow> sched_ttwu_pending E c S;
     (if task_cpu (tk S p) = c then
        if task_on_rq_queued (tk S p) then migrate_task E c p dest_cpu S
        else Some (upd_tk S p (\<lambda>t. t\<lparr>wake_cpu := dest_cpu\<rparr>))
      else Some S)
   }"


section \<open>Switching tasks\<close>

fun smp_pick_from ::
  "('c, 'x, 'e) senv2_scheme \<Rightarrow> class_id list \<Rightarrow> cpu \<Rightarrow> pid \<Rightarrow> ('c, 'x) smp \<Rightarrow> (pick_result \<times> ('c, 'x) smp) option" where
  "smp_pick_from E [] c prev S = None"
| "smp_pick_from E (cls # cs) c prev S = do {
     (r, S) \<leftarrow> (if cls = RtClass then smp_pick_next_task_rt E c prev S
                else o_pick E cls (smp_put_prev_task E c) c prev S);
     (if r = NoTask then smp_pick_from E cs c prev S else Some (r, S))
   }"

partial_function (option) smp_pick_again ::
  "('c, 'x, 'e) senv2_scheme \<Rightarrow> cpu \<Rightarrow> pid \<Rightarrow> ('c, 'x) smp \<Rightarrow> (pid \<times> ('c, 'x) smp) option" where
  "smp_pick_again E c prev S = do {
     r \<leftarrow> smp_pick_from E smp_for_each_class c prev S;
     (case fst r of Picked p \<Rightarrow> Some (p, snd r) | _ \<Rightarrow> smp_pick_again E c prev (snd r))
   }"

declare smp_pick_again.simps [code]

definition smp_pick_next_task ::
  "('c, 'x, 'e) senv2_scheme \<Rightarrow> cpu \<Rightarrow> pid \<Rightarrow> ('c, 'x) smp \<Rightarrow> (pid \<times> ('c, 'x) smp) option" where
  "smp_pick_next_task E c prev S =
     (if sched_class (tk S prev) \<in> {IdleClass, FairClass} \<and> q_nr_running (rqs S c) = o_h_nr_running E c S then do {
        (r, S) \<leftarrow> o_pick E FairClass (smp_put_prev_task E c) c prev S;
        (case r of
           Picked p \<Rightarrow> Some (p, S)
         | RETRY_TASK \<Rightarrow> smp_pick_again E c prev S
         | NoTask \<Rightarrow> do {
             (r, S) \<leftarrow> o_pick E IdleClass (smp_put_prev_task E c) c prev S;
             (case r of Picked p \<Rightarrow> Some (p, S) | _ \<Rightarrow> None)
           })
      } else smp_pick_again E c prev S)"

definition prepare_task :: "pid \<Rightarrow> ('c, 'x) smp \<Rightarrow> ('c, 'x) smp" where
  "prepare_task nxt S = upd_tk S nxt (\<lambda>t. t\<lparr>on_cpu := True\<rparr>)"

definition finish_task :: "pid \<Rightarrow> ('c, 'x) smp \<Rightarrow> ('c, 'x) smp" where
  "finish_task prev S = upd_tk S prev (\<lambda>t. t\<lparr>on_cpu := False\<rparr>)"

definition smp_finish_task_switch :: "('c, 'x, 'e) senv2_scheme \<Rightarrow> pid \<Rightarrow> ('c, 'x) smp \<Rightarrow> ('c, 'x) smp" where
  "smp_finish_task_switch E prev S =
     (let prev_state = state (tk S prev); S = finish_task prev S
      in if prev_state = TASK_DEAD then o_task_dead E (sched_class (tk S prev)) prev S else S)"

definition smp_clear_skip_flags :: "cpu \<Rightarrow> ('c, 'x) smp \<Rightarrow> ('c, 'x) smp" where
  "smp_clear_skip_flags c S =
     upd_rq S c (\<lambda>q. q\<lparr>q_flags := q_flags q AND NOT (RQCF_ACT_SKIP OR RQCF_REQ_SKIP)\<rparr>)"

definition smp_context_switch :: "('c, 'x, 'e) senv2_scheme \<Rightarrow> cpu \<Rightarrow> pid \<Rightarrow> pid \<Rightarrow> ('c, 'x) smp \<Rightarrow> ('c, 'x) smp" where
  "smp_context_switch E c prev nxt S = smp_finish_task_switch E prev (smp_clear_skip_flags c (prepare_task nxt S))"

definition smp_worker_asleep :: "('c, 'x, 'e) senv2_scheme \<Rightarrow> pid \<Rightarrow> ('c, 'x) smp \<Rightarrow> ('c, 'x) smp option" where
  "smp_worker_asleep E prev S =
     (if tflags (tk S prev) AND PF_WQ_WORKER \<noteq> 0
      then (case smp_wq_worker_sleeping E prev S of (to_wakeup, S) \<Rightarrow>
              case to_wakeup of None \<Rightarrow> Some S | Some q \<Rightarrow> smp_try_to_wake_up_local E q S)
      else Some S)"

definition smp_begin_iowait :: "cpu \<Rightarrow> pid \<Rightarrow> ('c, 'x) smp \<Rightarrow> ('c, 'x) smp" where
  "smp_begin_iowait c p S =
     (if in_iowait (tk S p) then upd_rq S c (\<lambda>q. q\<lparr>q_nr_iowait := q_nr_iowait q + 1\<rparr>) else S)"

definition smp_sleep_task :: "('c, 'x, 'e) senv2_scheme \<Rightarrow> cpu \<Rightarrow> pid \<Rightarrow> ('c, 'x) smp \<Rightarrow> ('c, 'x) smp option" where
  "smp_sleep_task E c prev S = do {
     S \<leftarrow> smp_deactivate_task E c prev (DEQUEUE_SLEEP OR DEQUEUE_NOCLOCK) S;
     let S = upd_tk S prev (\<lambda>t. t\<lparr>on_rq := 0\<rparr>);
     smp_worker_asleep E prev (smp_begin_iowait c prev S)
   }"

definition smp_schedule_sleep ::
  "('c, 'x, 'e) senv2_scheme \<Rightarrow> cpu \<Rightarrow> bool \<Rightarrow> ('c, 'x) smp \<Rightarrow> (bool \<times> ('c, 'x) smp) option" where
  "smp_schedule_sleep E c preempt S =
     (let prev = q_curr (rqs S c)
      in if \<not> preempt \<and> state (tk S prev) \<noteq> 0 then
           if smp_signal_pending_state E (state (tk S prev)) prev S
           then Some (True, upd_tk S prev (\<lambda>t. t\<lparr>state := TASK_RUNNING\<rparr>))
           else map_option (Pair True) (smp_sleep_task E c prev S)
         else Some (False, S))"

definition smp_switch_task ::
  "('c, 'x, 'e) senv2_scheme \<Rightarrow> cpu \<Rightarrow> bool \<Rightarrow> pid \<Rightarrow> pid \<Rightarrow> ('c, 'x) smp \<Rightarrow> ('c, 'x) smp" where
  "smp_switch_task E c voluntary prev nxt S =
     (let S = upd_tk S prev (\<lambda>t. t\<lparr>need_resched := False\<rparr>)
      in if prev \<noteq> nxt then
           let S = upd_rq S c (\<lambda>q. q\<lparr>q_curr := nxt\<rparr>);
               S = upd_tk S prev (\<lambda>t. if voluntary then t\<lparr>nvcsw := nvcsw t + 1\<rparr> else t\<lparr>nivcsw := nivcsw t + 1\<rparr>)
           in smp_context_switch E c prev nxt S
         else smp_clear_skip_flags c S)"

definition smp_schedule :: "('c, 'x, 'e) senv2_scheme \<Rightarrow> bool \<Rightarrow> ('c, 'x) smp \<Rightarrow> ('c, 'x) smp option" where
  "smp_schedule E preempt S = do {
     let c = this_cpu S;
     let prev = q_curr (rqs S c);
     let S = smp_update_rq_clock c (upd_rq S c (\<lambda>q. q\<lparr>q_flags := push_bit 1 (q_flags q)\<rparr>));
     (voluntary, S) \<leftarrow> smp_schedule_sleep E c preempt S;
     (nxt, S) \<leftarrow> smp_pick_next_task E c prev S;
     balance_callback E c (smp_switch_task E c voluntary prev nxt S)
   }"

end
