(* ===== verification/Run_Locks.thy ===== *)
theory Run_Locks
  imports Smp_Core
begin

text \<open>
  The order in which the scheduler takes its spin locks: the lock \<open>pi_lock\<close> of a task and the lock of a run queue. The
  functions of \<open>sched.h\<close> and \<open>core.c\<close> that take locks are programs over lock operations, written with what follows them
  as their last argument; the operations of the scheduler are the sequences of such calls that they make. The result:
  whatever operations the processors execute and however they interleave, no processors wait for each other.
\<close>


section \<open>Locks\<close>

text \<open>A run queue is known by its processor; the addresses of the run queues are in the order of the processors.\<close>

datatype lock = Pi pid | Rq cpu

instantiation lock :: linorder
begin

definition less_eq_lock :: "lock \<Rightarrow> lock \<Rightarrow> bool" where
  "less_eq_lock a b \<longleftrightarrow> (case (a, b) of
     (Pi p, Pi q) \<Rightarrow> p \<le> q | (Pi _, Rq _) \<Rightarrow> True | (Rq _, Pi _) \<Rightarrow> False | (Rq c, Rq d) \<Rightarrow> c \<le> d)"

definition less_lock :: "lock \<Rightarrow> lock \<Rightarrow> bool" where
  "less_lock a b \<longleftrightarrow> (case (a, b) of
     (Pi p, Pi q) \<Rightarrow> p < q | (Pi _, Rq _) \<Rightarrow> True | (Rq _, Pi _) \<Rightarrow> False | (Rq c, Rq d) \<Rightarrow> c < d)"

instance
  by standard (auto simp: less_eq_lock_def less_lock_def split: lock.splits)

end

lemma lock_less_simps [simp]: "Pi p < Rq c" "\<not> Rq c < Pi p" "Pi p < Pi q \<longleftrightarrow> p < q" "Rq c < Rq d \<longleftrightarrow> c < d"
  by (simp_all add: less_lock_def)

text \<open>
  What a processor still has to do. \<open>Get\<close> reads the task structures. \<open>Task_rq_lock\<close> and \<open>Task_rq_lock_held\<close> stand for the
  loops of \<open>task_rq_lock\<close> and \<open>__task_rq_lock\<close>, \<open>Relax\<close> for the loop that waits until a task is no longer migrating.
\<close>

type_synonym view = "pid \<Rightarrow> smp_task"

datatype prog =
    Ret
  | Lock lock prog
  | Trylock lock "bool \<Rightarrow> prog"
  | Unlock lock prog
  | Get "view \<Rightarrow> prog"
  | Relax pid prog
  | Task_rq_lock pid "cpu \<Rightarrow> prog"
  | Task_rq_lock_held pid "cpu \<Rightarrow> prog"

text \<open>One pass through the two loops.\<close>

definition task_rq_lock_held_once :: "pid \<Rightarrow> (cpu \<Rightarrow> prog) \<Rightarrow> prog" where
  "task_rq_lock_held_once p k = Get (\<lambda>T. let rq = task_cpu (T p) in
     Lock (Rq rq) (Get (\<lambda>T.
       if rq = task_cpu (T p) \<and> \<not> task_on_rq_migrating (T p) then k rq
       else Unlock (Rq rq) (Relax p (Task_rq_lock_held p k)))))"

definition task_rq_lock_once :: "pid \<Rightarrow> (cpu \<Rightarrow> prog) \<Rightarrow> prog" where
  "task_rq_lock_once p k = Lock (Pi p) (Get (\<lambda>T. let rq = task_cpu (T p) in
     Lock (Rq rq) (Get (\<lambda>T.
       if rq = task_cpu (T p) \<and> \<not> task_on_rq_migrating (T p) then k rq
       else Unlock (Rq rq) (Unlock (Pi p) (Relax p (Task_rq_lock p k)))))))"

definition task_rq_unlock :: "cpu \<Rightarrow> pid \<Rightarrow> prog \<Rightarrow> prog" where
  "task_rq_unlock c p k = Unlock (Rq c) (Unlock (Pi p) k)"

definition task_rq_unlock_held :: "cpu \<Rightarrow> prog \<Rightarrow> prog" where
  "task_rq_unlock_held c k = Unlock (Rq c) k"

definition rq_lock :: "cpu \<Rightarrow> prog \<Rightarrow> prog" where
  "rq_lock c k = Lock (Rq c) k"

definition rq_unlock :: "cpu \<Rightarrow> prog \<Rightarrow> prog" where
  "rq_unlock c k = Unlock (Rq c) k"

definition double_raw_lock :: "lock \<Rightarrow> lock \<Rightarrow> prog \<Rightarrow> prog" where
  "double_raw_lock l1 l2 k = (let (l1, l2) = (if l1 > l2 then (l2, l1) else (l1, l2)) in Lock l1 (Lock l2 k))"

definition double_rq_lock :: "cpu \<Rightarrow> cpu \<Rightarrow> prog \<Rightarrow> prog" where
  "double_rq_lock rq1 rq2 k =
     (if rq1 = rq2 then Lock (Rq rq1) k
      else if rq1 < rq2 then Lock (Rq rq1) (Lock (Rq rq2) k)
      else Lock (Rq rq2) (Lock (Rq rq1) k))"

definition double_rq_unlock :: "cpu \<Rightarrow> cpu \<Rightarrow> prog \<Rightarrow> prog" where
  "double_rq_unlock rq1 rq2 k = Unlock (Rq rq1) (if rq1 \<noteq> rq2 then Unlock (Rq rq2) k else k)"

definition rq_relock :: "cpu \<Rightarrow> prog \<Rightarrow> prog" where
  "rq_relock c k = Lock (Rq c) k"

text \<open>\<open>_double_lock_balance\<close> with and without \<open>CONFIG_PREEMPT\<close>; its result is passed on.\<close>

definition double_lock_balance_fair :: "cpu \<Rightarrow> cpu \<Rightarrow> (bool \<Rightarrow> prog) \<Rightarrow> prog" where
  "double_lock_balance_fair this_rq busiest k = Unlock (Rq this_rq) (double_rq_lock this_rq busiest (k True))"

definition double_lock_balance_unfair :: "cpu \<Rightarrow> cpu \<Rightarrow> (bool \<Rightarrow> prog) \<Rightarrow> prog" where
  "double_lock_balance_unfair this_rq busiest k =
     Trylock (Rq busiest) (\<lambda>got.
       if \<not> got then
         if busiest < this_rq then Unlock (Rq this_rq) (Lock (Rq busiest) (Lock (Rq this_rq) (k True)))
         else Lock (Rq busiest) (k False)
       else k False)"

definition lock_balance :: "bool \<Rightarrow> cpu \<Rightarrow> cpu \<Rightarrow> (bool \<Rightarrow> prog) \<Rightarrow> prog" where
  "lock_balance preempt this_rq busiest k =
     (if preempt then double_lock_balance_fair this_rq busiest k else double_lock_balance_unfair this_rq busiest k)"

definition double_unlock_balance :: "cpu \<Rightarrow> prog \<Rightarrow> prog" where
  "double_unlock_balance busiest k = Unlock (Rq busiest) k"


section \<open>What the operations lock\<close>

text \<open>
  Pushing and pulling with the run queue of \<open>c\<close> locked: one round for every run queue that is tried.
\<close>

fun balance_rounds :: "bool \<Rightarrow> cpu \<Rightarrow> cpu list \<Rightarrow> prog \<Rightarrow> prog" where
  "balance_rounds preempt c [] k = k"
| "balance_rounds preempt c (b # bs) k = lock_balance preempt c b (\<lambda>_. double_unlock_balance b (balance_rounds preempt c bs k))"

definition move_queued_locks :: "cpu \<Rightarrow> cpu \<Rightarrow> prog \<Rightarrow> prog" where
  "move_queued_locks c new_cpu k = rq_unlock c (rq_lock new_cpu k)"

text \<open>\<open>ttwu_remote\<close> when the task turns out not to be queued.\<close>

definition ttwu_tried :: "pid \<Rightarrow> bool \<Rightarrow> prog \<Rightarrow> prog" where
  "ttwu_tried p tried k = (if tried then Task_rq_lock_held p (\<lambda>c. task_rq_unlock_held c k) else k)"

text \<open>\<open>try_to_wake_up_local\<close>: the lock of the worker is tried against the order, and otherwise taken in order.\<close>

definition wake_local_locks :: "bool \<Rightarrow> cpu \<Rightarrow> pid \<Rightarrow> cpu list \<Rightarrow> prog \<Rightarrow> prog" where
  "wake_local_locks preempt c p pushes k =
     (let woken = balance_rounds preempt c pushes (Unlock (Pi p) k)
      in Trylock (Pi p) (\<lambda>got. if \<not> got then rq_unlock c (Lock (Pi p) (rq_relock c woken)) else woken))"

text \<open>\<open>balance_callback\<close>, when the balancer has left callbacks; \<open>None\<close> when it has not.\<close>

definition callback_locks :: "bool \<Rightarrow> cpu \<Rightarrow> cpu list option \<Rightarrow> prog \<Rightarrow> prog" where
  "callback_locks preempt c callbacks k =
     (case callbacks of
        None \<Rightarrow> k
      | Some bs \<Rightarrow> rq_lock c (balance_rounds preempt c (filter (\<lambda>b. b \<noteq> c) bs) (rq_unlock c k)))"

text \<open>The passes of \<open>yield_to\<close>, one for every run queue on which the task is seen.\<close>

fun yield_rounds :: "cpu \<Rightarrow> cpu list \<Rightarrow> prog \<Rightarrow> prog" where
  "yield_rounds c [] k = k"
| "yield_rounds c (d # ds) k = double_rq_lock c d (double_rq_unlock c d (yield_rounds c ds k))"

text \<open>
  The loop of \<open>migrate_tasks\<close> with the run queue of the dying processor locked: for every task, the run queues that
  \<open>pick_next_task\<close> pulls from, and the processor that the task is moved to, or \<open>None\<close> when it has gone or stays.
\<close>

fun dying_rounds :: "bool \<Rightarrow> cpu \<Rightarrow> (cpu list \<times> pid \<times> cpu option) list \<Rightarrow> prog \<Rightarrow> prog" where
  "dying_rounds preempt c [] k = k"
| "dying_rounds preempt c ((pulls, p, d) # ps) k =
     balance_rounds preempt c (filter (\<lambda>b. b \<noteq> c) pulls) (rq_unlock c (Lock (Pi p) (rq_relock c
       (let rest = Unlock (Pi p) (dying_rounds preempt c ps k)
        in case d of
             None \<Rightarrow> rest
           | Some d \<Rightarrow> move_queued_locks c d (if d \<noteq> c then rq_unlock d (rq_relock c rest) else rest)))))"

text \<open>
  The operations, with what decides their course: \<open>__schedule\<close> of a processor with the worker that it wakes, the run queues
  it pulls from and its callbacks; a wakeup, which finds the task queued (or a new task) and wakes it there, or (after a try
  in \<open>ttwu_remote\<close> or none) places it on a processor, and then pushes; a wakeup through another processor's list, which takes
  no lock of a run queue; a change of policy or nice value; a change of priority by inheritance, whose caller holds the lock of the task; a change of
  affinity that may move the task; the stopper; the swap of two tasks; yielding to a task; the balancer's interrupt and the
  tick; the end of a processor.
\<close>

datatype lock_op =
    Schedule cpu "(pid \<times> cpu list) option" "cpu list" "cpu list option"
  | Wake_queued pid "cpu list"
  | Wake_place pid bool cpu "cpu list"
  | Wake_remote pid bool
  | Set_policy pid "cpu list option"
  | Set_prio pid "cpu list option"
  | Set_affinity pid "cpu option"
  | Stop_migrate cpu pid "cpu option"
  | Swap pid pid cpu cpu
  | Yield_to cpu "cpu list"
  | Push_irq cpu "cpu list"
  | Cpu_dying cpu "(cpu list \<times> pid \<times> cpu option) list"

fun op_locks :: "bool \<Rightarrow> lock_op \<Rightarrow> prog \<Rightarrow> prog" where
  "op_locks pre (Schedule c worker pulls callbacks) k =
     (let rest = balance_rounds pre c pulls (rq_unlock c (callback_locks pre c callbacks k))
      in rq_lock c (case worker of None \<Rightarrow> rest | Some (p, pushes) \<Rightarrow> wake_local_locks pre c p pushes rest))"
| "op_locks pre (Wake_queued p pushes) k =
     Lock (Pi p) (Task_rq_lock_held p (\<lambda>c. balance_rounds pre c (filter (\<lambda>b. b \<noteq> c) pushes) (task_rq_unlock_held c (Unlock (Pi p) k))))"
| "op_locks pre (Wake_place p tried c pushes) k =
     Lock (Pi p) (ttwu_tried p tried (rq_lock c (balance_rounds pre c pushes (rq_unlock c (Unlock (Pi p) k)))))"
| "op_locks pre (Wake_remote p tried) k = Lock (Pi p) (ttwu_tried p tried (Unlock (Pi p) k))"
| "op_locks pre (Set_policy p callbacks) k = Task_rq_lock p (\<lambda>c. task_rq_unlock c p (callback_locks pre c callbacks k))"
| "op_locks pre (Set_prio p callbacks) k =
     Lock (Pi p) (Task_rq_lock_held p (\<lambda>c. task_rq_unlock_held c (callback_locks pre c callbacks (Unlock (Pi p) k))))"
| "op_locks pre (Set_affinity p d) k =
     Task_rq_lock p (\<lambda>c. case d of None \<Rightarrow> task_rq_unlock c p k | Some d \<Rightarrow> move_queued_locks c d (task_rq_unlock d p k))"
| "op_locks pre (Stop_migrate c p d) k =
     Lock (Pi p) (rq_lock c (case d of None \<Rightarrow> rq_unlock c (Unlock (Pi p) k) | Some d \<Rightarrow> move_queued_locks c d (rq_unlock d (Unlock (Pi p) k))))"
| "op_locks pre (Swap p q c d) k =
     double_raw_lock (Pi p) (Pi q) (double_rq_lock c d (double_rq_unlock c d (Unlock (Pi q) (Unlock (Pi p) k))))"
| "op_locks pre (Yield_to c ds) k = yield_rounds c ds k"
| "op_locks pre (Push_irq c pushes) k = rq_lock c (balance_rounds pre c pushes (rq_unlock c k))"
| "op_locks pre (Cpu_dying c ps) k = rq_lock c (dying_rounds pre c ps (rq_unlock c k))"

text \<open>A run queue is never balanced with itself, and only different tasks are swapped.\<close>

fun op_valid :: "lock_op \<Rightarrow> bool" where
  "op_valid (Schedule c worker pulls callbacks) \<longleftrightarrow> c \<notin> set pulls \<and> (\<forall>p bs. worker = Some (p, bs) \<longrightarrow> c \<notin> set bs)"
| "op_valid (Wake_place p tried c pushes) \<longleftrightarrow> c \<notin> set pushes"
| "op_valid (Swap p q c d) \<longleftrightarrow> p \<noteq> q"
| "op_valid (Push_irq c pushes) \<longleftrightarrow> c \<notin> set pushes"
| "op_valid _ \<longleftrightarrow> True"

definition run_ops :: "bool \<Rightarrow> lock_op list \<Rightarrow> prog" where
  "run_ops pre ops = foldr (op_locks pre) ops Ret"


section \<open>The discipline\<close>

text \<open>A processor that holds the locks \<open>H\<close> only waits for a lock above all of them, and gives back what it took.\<close>

primrec ordered :: "prog \<Rightarrow> lock set \<Rightarrow> bool" where
  "ordered Ret H \<longleftrightarrow> H = {}"
| "ordered (Lock l k) H \<longleftrightarrow> (\<forall>x \<in> H. x < l) \<and> ordered k (insert l H)"
| "ordered (Trylock l f) H \<longleftrightarrow> l \<notin> H \<and> ordered (f True) (insert l H) \<and> ordered (f False) H"
| "ordered (Unlock l k) H \<longleftrightarrow> l \<in> H \<and> ordered k (H - {l})"
| "ordered (Get f) H \<longleftrightarrow> (\<forall>T. ordered (f T) H)"
| "ordered (Relax p k) H \<longleftrightarrow> ordered k H"
| "ordered (Task_rq_lock p k) H \<longleftrightarrow> (\<forall>x \<in> H. x < Pi p) \<and> (\<forall>c. ordered (k c) (insert (Rq c) (insert (Pi p) H)))"
| "ordered (Task_rq_lock_held p k) H \<longleftrightarrow> (\<forall>c. \<forall>x \<in> H. x < Rq c) \<and> (\<forall>c. ordered (k c) (insert (Rq c) H))"

lemma ordered_cong: "H = H' \<Longrightarrow> ordered k H \<Longrightarrow> ordered k H'"
  by simp

lemma ordered_once_held:
  assumes "ordered (Task_rq_lock_held p k) H"
  shows "ordered (task_rq_lock_held_once p k) H"
proof -
  have "Rq c \<notin> H" for c using assms by (metis less_irrefl ordered.simps(8))
  then show ?thesis using assms by (simp add: task_rq_lock_held_once_def Let_def)
qed

lemma ordered_once:
  assumes "ordered (Task_rq_lock p k) H"
  shows "ordered (task_rq_lock_once p k) H"
proof -
  have below: "\<forall>x \<in> H. x < Pi p" using assms by simp
  then have "Pi p \<notin> H" "Rq c \<notin> H" "\<forall>x \<in> H. x < Rq c" for c using lock_less_simps(1,2) order.strict_trans by blast+
  then show ?thesis using assms by (simp add: task_rq_lock_once_def Let_def insert_Diff_if)
qed

text \<open>Balancing while the locks below it are the locks of tasks.\<close>

lemma ordered_balance:
  assumes H: "\<forall>x \<in> H. \<forall>c. x < Rq c"
  shows "c \<notin> set bs \<Longrightarrow> ordered k (insert (Rq c) H) \<Longrightarrow> ordered (balance_rounds pre c bs k) (insert (Rq c) H)"
proof (induction bs)
  case (Cons b bs)
  have n: "Rq a \<notin> H" for a using H by auto
  have o: "ordered (balance_rounds pre c bs k) (insert (Rq c) H)" using Cons by simp
  have cb: "b \<noteq> c" using Cons.prems(1) by auto
  have e: "insert (Rq c) H - {Rq c} = H" "insert (Rq b) (insert (Rq c) H) - {Rq b} = insert (Rq c) H"
    "insert (Rq c) (insert (Rq b) H) - {Rq b} = insert (Rq c) H" using n cb by auto
  show ?case
    using o H n cb e
    by (auto simp: lock_balance_def double_lock_balance_fair_def double_lock_balance_unfair_def double_rq_lock_def double_unlock_balance_def)
qed simp

text \<open>The parts of operations, while only locks of tasks are held below them.\<close>

lemmas lock_defs = rq_lock_def rq_unlock_def rq_relock_def task_rq_unlock_def task_rq_unlock_held_def move_queued_locks_def

lemma ordered_balance1:
  "c \<notin> set bs \<Longrightarrow> ordered k {Rq c} \<Longrightarrow> ordered (balance_rounds pre c bs k) {Rq c}"
  "c \<notin> set bs \<Longrightarrow> ordered k {Rq c, Pi p} \<Longrightarrow> ordered (balance_rounds pre c bs k) {Rq c, Pi p}"
  using ordered_balance [of "{}"] ordered_balance [of "{Pi p}"] by simp_all

lemma held_diff [simp]: "{Rq c, Pi p} - {Rq c} = {Pi p}" "{Rq c, Pi p} - {Pi p} = {Rq c}"
  by auto

lemma ordered_wake_local:
  assumes "c \<notin> set bs" "ordered k {Rq c}"
  shows "ordered (wake_local_locks pre c p bs k) {Rq c}"
proof -
  have "ordered (balance_rounds pre c bs (Unlock (Pi p) k)) {Rq c, Pi p}" using assms by (intro ordered_balance1) simp_all
  then show ?thesis by (simp add: wake_local_locks_def Let_def lock_defs insert_commute)
qed

lemma ordered_callback:
  "ordered k {} \<Longrightarrow> ordered (callback_locks pre c cb k) {}"
  "ordered k {Pi p} \<Longrightarrow> ordered (callback_locks pre c cb k) {Pi p}"
  using ordered_balance1 [of c "filter (\<lambda>b. b \<noteq> c) (the cb)" "rq_unlock c k"]
  by (auto simp: callback_locks_def lock_defs split: option.split)

lemma ordered_dying: "ordered k {Rq c} \<Longrightarrow> ordered (dying_rounds pre c ps k) {Rq c}"
  by (induction pre c ps k rule: dying_rounds.induct) (auto intro!: ordered_balance1(1) simp: lock_defs Let_def insert_commute split: option.split)

lemma ordered_yield: "ordered k {} \<Longrightarrow> ordered (yield_rounds c ds k) {}"
  by (induction c ds k rule: yield_rounds.induct) (auto simp: double_rq_lock_def double_rq_unlock_def insert_Diff_if)

lemma ordered_op:
  assumes "op_valid op" "ordered k {}"
  shows "ordered (op_locks pre op k) {}"
proof (cases op)
  case (Schedule c worker pulls callbacks)
  have "ordered (balance_rounds pre c pulls (rq_unlock c (callback_locks pre c callbacks k))) {Rq c}"
    using assms Schedule by (intro ordered_balance1) (simp_all add: lock_defs ordered_callback)
  then show ?thesis using assms Schedule by (auto simp: lock_defs ordered_wake_local Let_def split: option.split)
next
  case (Set_affinity p d)
  then show ?thesis using assms(2) by (cases d) (simp_all add: lock_defs)
next
  case (Stop_migrate c p d)
  then show ?thesis using assms(2) by (cases d) (simp_all add: lock_defs)
next
  case (Swap p q c d)
  have "ordered (double_rq_lock c d (double_rq_unlock c d (Unlock (Pi q) (Unlock (Pi p) k)))) {Pi p, Pi q}"
    using assms Swap by (auto simp: double_rq_lock_def double_rq_unlock_def insert_Diff_if)
  then show ?thesis using assms(1) Swap by (auto simp: double_raw_lock_def insert_commute)
qed (use assms in \<open>simp_all add: lock_defs ordered_balance1 ttwu_tried_def ordered_callback ordered_dying ordered_yield\<close>)

lemma ordered_ops: "\<forall>op \<in> set ops. op_valid op \<Longrightarrow> ordered (run_ops pre ops) {}"
  unfolding run_ops_def by (induction ops) (simp_all add: ordered_op)


section \<open>Interleaving\<close>

record lock_sys =
  owner :: "lock \<Rightarrow> cpu option"
  progs :: "cpu \<Rightarrow> prog"
  view :: view

text \<open>One step of the processor \<open>i\<close>, as a function; \<open>None\<close> says that it has finished or waits for a lock.\<close>

definition lock_step :: "cpu \<Rightarrow> lock_sys \<Rightarrow> lock_sys option" where
  "lock_step i L =
     (let go = (\<lambda>k L. Some (L\<lparr>progs := (progs L)(i := k)\<rparr>)) in
      case progs L i of
        Ret \<Rightarrow> None
      | Lock l k \<Rightarrow> if owner L l = None then go k (L\<lparr>owner := (owner L)(l := Some i)\<rparr>) else None
      | Trylock l f \<Rightarrow> if owner L l = None then go (f True) (L\<lparr>owner := (owner L)(l := Some i)\<rparr>) else go (f False) L
      | Unlock l k \<Rightarrow> go k (L\<lparr>owner := (owner L)(l := None)\<rparr>)
      | Get f \<Rightarrow> go (f (view L)) L
      | Relax p k \<Rightarrow> go (if task_on_rq_migrating (view L p) then Relax p k else k) L
      | Task_rq_lock p k \<Rightarrow> go (task_rq_lock_once p k) L
      | Task_rq_lock_held p k \<Rightarrow> go (task_rq_lock_held_once p k) L)"

text \<open>The processors \<open>0\<close> to \<open>n - 1\<close> step in any order; the task structures change in any way between their steps.\<close>

inductive lock_reach :: "nat \<Rightarrow> lock_sys \<Rightarrow> lock_sys \<Rightarrow> bool" for n L0 where
  start: "lock_reach n L0 L0"
| step: "lock_reach n L0 L \<Longrightarrow> i < n \<Longrightarrow> lock_step i L = Some L' \<Longrightarrow> lock_reach n L0 L'"
| change: "lock_reach n L0 L \<Longrightarrow> lock_reach n L0 (L\<lparr>view := v\<rparr>)"

definition held :: "lock_sys \<Rightarrow> cpu \<Rightarrow> lock set" where
  "held L i = {l. owner L l = Some i}"

definition lock_inv :: "nat \<Rightarrow> lock_sys \<Rightarrow> bool" where
  "lock_inv n L \<longleftrightarrow> (\<forall>i < n. ordered (progs L i) (held L i)) \<and> (\<forall>l i. owner L l = Some i \<longrightarrow> i < n)"

lemma held_upd:
  "held (L\<lparr>progs := x\<rparr>) i = held L i" "held (L\<lparr>view := v\<rparr>) i = held L i"
  "owner L l = None \<Longrightarrow> held (L\<lparr>owner := (owner L)(l := Some j)\<rparr>) i = (if i = j then insert l (held L i) else held L i)"
  "owner L l = Some j \<Longrightarrow> held (L\<lparr>owner := (owner L)(l := None)\<rparr>) i = (if i = j then held L i - {l} else held L i)"
  by (auto simp: held_def)

lemma lock_step_inv:
  assumes inv: "lock_inv n L" and i: "i < n" and s: "lock_step i L = Some L'"
  shows "lock_inv n L'"
proof -
  have o: "ordered (progs L j) (held L j)" if "j < n" for j using inv that by (simp add: lock_inv_def)
  have own: "owner L l = Some j \<Longrightarrow> j < n" for l j using inv by (simp add: lock_inv_def)
  have keep: "lock_inv n (L1\<lparr>progs := (progs L1)(i := k)\<rparr>)"
    if "progs L1 = progs L" "ordered k (held L1 i)" "\<And>j. j \<noteq> i \<Longrightarrow> held L1 j = held L j" "\<And>l j. owner L1 l = Some j \<Longrightarrow> j < n" for L1 k
    using that o i unfolding lock_inv_def held_upd by auto
  have take: "lock_inv n (L\<lparr>owner := (owner L)(l := Some i), progs := (progs L)(i := k)\<rparr>)"
    if "owner L l = None" "ordered k (insert l (held L i))" for l k
  proof -
    have "((owner L)(l := Some i)) x = Some j \<Longrightarrow> j < n" for x j using own i by (auto split: if_split_asm)
    then show ?thesis using keep [of "L\<lparr>owner := (owner L)(l := Some i)\<rparr>" k] that by (simp add: held_upd)
  qed
  have stay: "lock_inv n (L\<lparr>progs := (progs L)(i := k)\<rparr>)" if "ordered k (held L i)" for k
    using keep [of L k] that own by simp
  show ?thesis
  proof (cases "progs L i")
    case (Unlock l k)
    then have l: "owner L l = Some i" "ordered k (held L i - {l})" using o [OF i] by (simp_all add: held_def)
    moreover have "((owner L)(l := None)) x = Some j \<Longrightarrow> j < n" for x j using own by (auto split: if_split_asm)
    ultimately have "lock_inv n (L\<lparr>owner := (owner L)(l := None), progs := (progs L)(i := k)\<rparr>)"
      using keep [of "L\<lparr>owner := (owner L)(l := None)\<rparr>" k] by (simp add: held_upd)
    then show ?thesis using s Unlock by (auto simp: lock_step_def)
  next
    case (Lock l k)
    then show ?thesis using s o [OF i] take [of l k] by (auto simp: lock_step_def split: if_split_asm)
  next
    case (Trylock l f)
    then show ?thesis using s o [OF i] take [of l "f True"] stay [of "f False"] by (auto simp: lock_step_def split: if_split_asm)
  next
    case (Relax p k)
    have "ordered (if task_on_rq_migrating (view L p) then Relax p k else k) (held L i)" using o [OF i] Relax by simp
    then show ?thesis using s Relax stay by (auto simp: lock_step_def)
  next
    case (Get f)
    then show ?thesis using s o [OF i] stay [of "f (view L)"] by (auto simp: lock_step_def)
  next
    case (Task_rq_lock p k)
    then show ?thesis using s stay [OF ordered_once] o [OF i] by (auto simp: lock_step_def)
  next
    case (Task_rq_lock_held p k)
    then show ?thesis using s stay [OF ordered_once_held] o [OF i] by (auto simp: lock_step_def)
  qed (use s in \<open>simp add: lock_step_def\<close>)
qed

lemma lock_reach_inv: "lock_reach n L0 L \<Longrightarrow> lock_inv n L0 \<Longrightarrow> lock_inv n L"
proof (induction rule: lock_reach.induct)
  case (change L v)
  have "lock_inv n (L\<lparr>view := v\<rparr>) = lock_inv n L" unfolding lock_inv_def held_def by simp
  then show ?case using change.IH change.prems by blast
next
  case (step L i L')
  then show ?case using lock_step_inv [of n L i L'] by blast
qed

text \<open>A waiting processor with the highest lock waits for one that can go on.\<close>

lemma ordered_not_stuck:
  assumes inv: "lock_inv n L" and i: "i < n" "progs L i \<noteq> Ret"
  shows "\<exists>j < n. lock_step j L \<noteq> None"
proof (rule ccontr)
  assume "\<not> ?thesis"
  then have none: "lock_step j L = None" if "j < n" for j using that by blast
  define W where "W = {l. \<exists>j < n. \<exists>k. progs L j = Lock l k \<and> owner L l \<noteq> None}"
  have waits: "\<exists>l k. progs L j = Lock l k \<and> owner L l \<noteq> None" if "j < n" "progs L j \<noteq> Ret" for j
    using none [OF that(1)] that(2) by (cases "progs L j") (auto simp: lock_step_def Let_def split: if_split_asm)
  have "finite W"
  proof (rule finite_subset)
    show "W \<subseteq> (\<lambda>j. case progs L j of Lock l k \<Rightarrow> l | _ \<Rightarrow> Pi 0) ` {..<n}" unfolding W_def by force
  qed simp
  moreover have "W \<noteq> {}" using waits [OF i] i(1) unfolding W_def by blast
  ultimately obtain l where l: "l \<in> W" "\<forall>x \<in> W. x \<le> l" using Max_in Max_ge by metis
  then obtain j where j: "owner L l = Some j" unfolding W_def by auto
  have jn: "j < n" using inv j by (simp add: lock_inv_def)
  have hj: "l \<in> held L j" using j by (simp add: held_def)
  have oj: "ordered (progs L j) (held L j)" using inv jn by (simp add: lock_inv_def)
  then have "progs L j \<noteq> Ret" using hj by auto
  then obtain l' k where l': "progs L j = Lock l' k" "owner L l' \<noteq> None" using waits [OF jn] by blast
  then have "l' \<in> W" "l < l'" using jn oj hj unfolding W_def by auto
  then show False using l(2) by fastforce
qed

text \<open>
  C19. The scheduler does not deadlock on its locks. Processors that execute any sequences of scheduling, wakeups, changes of
  affinity, migrations, swaps and balancing, interleaved in any way and with the tasks moving between processors in any
  way, never all wait for each other: as long as one of them has not finished, one can go on, and no processor waits for a
  lock it holds itself.
\<close>

theorem run_queue_locks_no_deadlock:
  assumes "lock_reach n \<lparr>owner = (\<lambda>_. None), progs = (\<lambda>i. run_ops preempt (ops i)), view = v\<rparr> L"
    and "\<forall>i < n. \<forall>op \<in> set (ops i). op_valid op"
  shows "((\<forall>i < n. progs L i = Ret) \<or> (\<exists>j < n. \<exists>L'. lock_step j L = Some L')) \<and>
    (\<forall>i < n. \<forall>l k. progs L i = Lock l k \<longrightarrow> owner L l \<noteq> Some i)"
proof -
  have "lock_inv n \<lparr>owner = (\<lambda>_. None), progs = (\<lambda>i. run_ops preempt (ops i)), view = v\<rparr>"
    using assms(2) by (simp add: lock_inv_def held_def ordered_ops)
  then have inv: "lock_inv n L" by (rule lock_reach_inv [OF assms(1)])
  have "owner L l \<noteq> Some i" if "i < n" "progs L i = Lock l k" for i l k
  proof
    assume "owner L l = Some i"
    then have "l \<in> held L i" by (simp add: held_def)
    moreover have "ordered (progs L i) (held L i)" using inv that(1) by (simp add: lock_inv_def)
    ultimately show False using that(2) by auto
  qed
  then show ?thesis using ordered_not_stuck [OF inv] by blast
qed

text \<open>Two processors that balance with each other; the second has found the lock of the first taken.\<close>

definition crossed :: "lock_sys" where
  "crossed = \<lparr>owner = (\<lambda>_. None), progs = (\<lambda>i. run_ops False [Push_irq i [1 - i]]), view = (\<lambda>_. blank_smp_task)\<rparr>"

theorem run_queue_locks_no_deadlock_witness:
  "\<exists>L. lock_reach 2 crossed L \<and> owner L (Rq 0) = Some 0 \<and> owner L (Rq 1) = Some 1 \<and> (\<exists>j < 2. \<exists>L'. lock_step j L = Some L')"
proof -
  let ?run = "Option.bind (lock_step 0 crossed) (lock_step 1)"
  have "map_option (\<lambda>L. (owner L (Rq 0), owner L (Rq 1), case progs L 0 of Trylock l f \<Rightarrow> True | _ \<Rightarrow> False)) ?run =
    Some (Some 0, Some 1, True)" by code_simp
  then obtain L1 L where L: "lock_step 0 crossed = Some L1" "lock_step 1 L1 = Some L" "owner L (Rq 0) = Some 0" "owner L (Rq 1) = Some 1"
    and "(case progs L 0 of Trylock l f \<Rightarrow> True | _ \<Rightarrow> False)" by (auto simp: bind_eq_Some_conv)
  then have "progs L 0 \<noteq> Ret" by (cases "progs L 0") simp_all
  have r: "lock_reach 2 crossed L"
    by (rule lock_reach.step [OF lock_reach.step [OF lock_reach.start _ L(1)] _ L(2)]) simp_all
  have "\<forall>i < 2. \<forall>op \<in> set [Push_irq i [1 - i]]. op_valid op" by (auto simp: less_2_cases_iff)
  from run_queue_locks_no_deadlock [OF r [unfolded crossed_def] this] show ?thesis using r L \<open>progs L 0 \<noteq> Ret\<close> by auto
qed

end
