(* ===== verification/Smp_Inv.thy ===== *)
theory Smp_Inv
  imports Smp_Core
begin

text \<open>
  The invariant of the system of several processors and its preservation by the operations of \<open>Smp_Core\<close>: the queues
  of the real-time class are consistent (\<open>rt_sys\<close>), a task runs on at most one processor, the one its task structure
  names, and the tasks on the wakeup list of a processor are in the state \<open>TASK_WAKING\<close> and nowhere else.
\<close>


section \<open>The other classes\<close>

text \<open>What the code outside the real-time class must leave alone.\<close>

definition leaves_rt :: "('c, 'x) smp \<Rightarrow> ('c, 'x) smp \<Rightarrow> bool" where
  "leaves_rt S S' \<longleftrightarrow>
     (\<forall>p. same_view (tk S p) (tk S' p) \<and> task_cpu (tk S' p) = task_cpu (tk S p) \<and> rt (tk S' p) = rt (tk S p)) \<and>
     (\<forall>c. keeps_rq (rqs S c) (rqs S' c) \<and> q_rt (rqs S' c) = q_rt (rqs S c) \<and>
        q_balance_callback (rqs S' c) = q_balance_callback (rqs S c) \<and> unat (cpu_others (rqs S' c)) < 2 ^ 31) \<and>
     rd S' = rd S \<and> same_static S S'"

lemma leavesD:
  assumes "leaves_rt S S'"
  shows "same_view (tk S p) (tk S' p)" "task_cpu (tk S' p) = task_cpu (tk S p)" "rt (tk S' p) = rt (tk S p)"
    "keeps_rq (rqs S c) (rqs S' c)" "q_rt (rqs S' c) = q_rt (rqs S c)" "unat (cpu_others (rqs S' c)) < 2 ^ 31"
    "rd S' = rd S" "same_static S S'"
  using assms unfolding leaves_rt_def by blast+

lemma leaves_refl: "smp_inv S \<Longrightarrow> leaves_rt S S"
  by (simp add: leaves_rt_def smp_inv_def top_wf_def same_view_def)

lemma leaves_queued: "leaves_rt S S' \<Longrightarrow> cpu_queued S' c = cpu_queued S c"
  by (simp add: cpu_queued_def leavesD(5))

lemma leaves_moved: "leaves_rt S S' \<Longrightarrow> moved_frame S S'"
  by (simp add: moved_frame_def leavesD)

lemma leaves_inv_x:
  assumes l: "leaves_rt S S'" and inv: "smp_inv_x S c X"
  shows "smp_inv_x S' c X"
proof -
  note v = moved_view [OF leaves_moved [OF l]]
  have ps: "pushables S' i = pushables S i" for i by (simp add: pushables_def leaves_queued [OF l] v)
  have na: "nr_cpus_allowed (tk S' p) = nr_cpus_allowed (tk S p)" for p
    using leavesD(1) [OF l, of p] by (simp add: same_view_def)
  have arr: "arr_wf (tk S') (rtr S' i)" for i
    using smp_inv_xD(1) [OF inv, of i] arr_wf_cong [of "rtr S i" "tk S'" "tk S"] by (simp add: leavesD(5) [OF l] v(1) na)
  have push: "push_wf (tk S') (rtr S' i) (if i = c then X else pushables S' i)" for i
  proof -
    have "push_wf (tk S') (rtr S i) Y = push_wf (tk S) (rtr S i) Y" for Y by (rule push_wf_cong) (rule v(1))
    then show ?thesis using smp_inv_xD(3,4) [OF inv] by (simp add: leavesD(5) [OF l] ps)
  qed
  have top: "top_wf (rqs S' i)" for i
    using smp_inv_xD(2) [OF inv, of i] leavesD(6) [OF l, of i] by (simp add: top_wf_def leavesD(5) [OF l])
  have "member_wf S'"
    using smp_inv_xD(5) [OF inv] by (simp add: member_wf_def leaves_queued [OF l] leavesD(2,3) [OF l])
  moreover have "rto_wf S'" using smp_inv_xD(6) [OF inv] by (simp add: rto_wf_def leavesD(5,7) [OF l] v(6))
  ultimately show ?thesis using arr push top by (simp add: smp_inv_x_def)
qed

lemma leaves_shifts: "leaves_rt S S' \<Longrightarrow> shifts S S'"
  by (simp add: shifts_def leaves_moved leavesD(2) all_queued_def leaves_queued)

lemma leaves_sys:
  assumes l: "leaves_rt S S'" and sys: "rt_sys S"
  shows "rt_sys S'"
proof -
  have "pushables S' c = pushables S c" for c
    by (simp add: pushables_def leaves_queued [OF l] moved_view [OF leaves_moved [OF l]])
  then have inv: "smp_inv S'" using leaves_inv_x [OF l, of 0 "pushables S 0"] rt_sysD(1) [OF sys] by (simp add: smp_inv_iff [of _ 0])
  then show ?thesis
    using tasks_wf_cong [OF leaves_moved [OF l] rt_sysD(3) [OF sys] smp_invD(4) [OF inv]] rt_sysD(2) [OF sys]
      shiftsD(2) [OF leaves_shifts [OF l]] by (simp add: rt_sys_def)
qed


section \<open>Moving within a queue\<close>

lemma arr_reorder:
  assumes wf: "arr_wf T r" and lv: "levelled (\<lambda>p. nat (prio (T p))) qs" "length qs = 100"
    and same: "\<And>p. linked p qs \<longleftrightarrow> linked p (rt_queue (active r))"
  shows "arr_wf T (r\<lparr>active := (active r)\<lparr>rt_queue := qs\<rparr>\<rparr>)"
proof -
  let ?old = "rt_queue (active r)"
  have s: "set (concat qs) = set (concat ?old)" using same by (auto simp: linked_iff_concat simp del: set_concat)
  have d: "distinct (concat qs)" "distinct (concat ?old)" using lv(1) arr_wfD(3) [OF wf] by simp_all
  have len: "length (concat qs) = length (concat ?old)" using distinct_card [OF d(1)] distinct_card [OF d(2)] s by simp
  have "length (filter P (concat qs)) = card {x \<in> set (concat qs). P x}" for P
    using distinct_card [of "filter P (concat qs)"] d(1) by simp
  moreover have "length (filter P (concat ?old)) = card {x \<in> set (concat ?old). P x}" for P
    using distinct_card [of "filter P (concat ?old)"] d(2) by simp
  ultimately have fl: "length (filter P (concat qs)) = length (filter P (concat ?old))" for P unfolding s by simp
  have e: "qs ! i \<noteq> [] \<longleftrightarrow> ?old ! i \<noteq> []" if i: "i < 100" for i
  proof -
    have "p \<in> set (xs ! i) \<longleftrightarrow> linked p xs \<and> nat (prio (T p)) = i"
      if "levelled (\<lambda>p. nat (prio (T p))) xs" "length xs = 100" for p xs
      using that i levelledD(2) [OF that(1), of p] by (auto simp: levelled_def linked_nth)
    then have "set (qs ! i) = set (?old ! i)" using lv arr_wfD(1,2) [OF wf] same by blast
    then show ?thesis by (metis set_empty)
  qed
  show ?thesis
    using wf lv e same unfolding arr_wf_def Let_def
    by (simp add: len fl del: length_concat filter_concat)
qed

lemma requeue_linked:
  assumes "levelled idx qs" "linked p qs" "int (idx p) = i" "(if head then list_move p i qs else list_move_tail p i qs) = Some qs'"
  shows "levelled idx qs'" "length qs' = length qs" "linked q qs' \<longleftrightarrow> linked q qs"
proof -
  have r: "idx p < length qs" "nat i = idx p" using levelledD(1) [OF assms(1,2)] assms(3) by auto
  have n: "\<not> linked p (unlink p qs)" by (rule unlink_not_linked [OF assms(1)])
  have q: "qs' = (if head then (unlink p qs)[idx p := p # unlink p qs ! idx p] else (unlink p qs)[idx p := unlink p qs ! idx p @ [p]])"
    using assms(3,4) r by (auto simp: list_move_def list_move_tail_def list_add_def list_add_tail_def in_range_def split: if_split_asm)
  show lv: "levelled idx qs'"
    using levelled_add_head [OF levelled_unlink [OF assms(1)] n] levelled_add_tail [OF levelled_unlink [OF assms(1)] n] r(1)
    unfolding q by simp
  show "length qs' = length qs" unfolding q by simp
  have u: "linked x (unlink p qs) \<longleftrightarrow> x \<noteq> p \<and> linked x qs" for x by (rule linked_unlink [OF levelled_distinct [OF assms(1)]])
  have "linked x (xs[j := ys]) \<longleftrightarrow> x = p \<or> linked x xs" if "j < length xs" "set ys = insert p (set (xs ! j))" for x xs j ys
    unfolding linked_nth using that by (auto simp: nth_list_update)
  then have "linked q qs' \<longleftrightarrow> q = p \<or> linked q (unlink p qs)" using r(1) unfolding q by (simp split: if_split)
  then show "linked q qs' \<longleftrightarrow> linked q qs" using u assms(2) by auto
qed

lemma requeue_ok:
  assumes sys: "rt_sys S" and p: "rt_on_rq (rt (tk S p)) \<longrightarrow> task_cpu (tk S p) = c"
  shows "\<exists>S'. smp_requeue_task_rt c p head S = Some S' \<and> rt_sys S' \<and> shifts S S'"
proof (cases "rt_on_rq (rt (tk S p))")
  case True
  let ?qs = "cpu_queues S c"
  let ?mv = "if head then list_move p (prio (tk S p)) ?qs else list_move_tail p (prio (tk S p)) ?qs"
  note wf = rt_sysD(4) [OF sys, of c]
  have l: "linked p ?qs" using queued_on [OF rt_sysD(3) [OF sys], of p c] True p by (simp add: cpu_queued_def)
  have pr: "rt_prio_ok (prio (tk S p))" using arr_wfD(12) [OF wf l] by simp
  obtain qs where qs: "?mv = Some qs"
  proof -
    have "in_range (prio (tk S p)) ?qs" using pr arr_wfD(1) [OF wf] by (auto simp: in_range_def rt_prio_ok_def)
    then show ?thesis using that l by (cases head) (auto simp: list_move_def list_move_tail_def)
  qed
  have ip: "int (nat (prio (tk S p))) = prio (tk S p)" using pr by (simp add: rt_prio_ok_def)
  note m = requeue_linked [OF arr_wfD(2) [OF wf] l ip qs]
  define S' where "S' = set_array c qs (cpu_bitmap S c) S"
  have r: "rqs S' = (rqs S)(c := (rqs S c)\<lparr>q_rt := (rtr S c)\<lparr>active := (active (rtr S c))\<lparr>rt_queue := qs\<rparr>\<rparr>\<rparr>)"
    "tk S' = tk S" "rd S' = rd S" "same_static S S'" by (simp_all add: S'_def set_array_def)
  have q: "cpu_queued S' i = cpu_queued S i" for i using m(3) by (cases "i = c") (auto simp: cpu_queued_def r)
  have mf: "moved_frame S S'" by (simp add: moved_frame_def r same_view_def keeps_rq_def)
  have ps: "pushables S' i = pushables S i" for i by (simp add: pushables_def q moved_view [OF mf])
  have "arr_wf (tk S') (rtr S' i)" for i
    using arr_reorder [OF wf m(1) _ m(3)] m(2) arr_wfD(1) [OF wf] rt_sysD(4) [OF sys, of i] by (simp add: r)
  moreover have "push_wf (tk S') (rtr S' i) (pushables S' i)" for i
    using rt_sysD(5) [OF sys, of i] unfolding ps by (cases "i = c") (simp_all add: r push_wf_def)
  moreover have "top_wf (rqs S' i)" for i
    using smp_invD(3) [OF rt_sysD(1) [OF sys], of i] by (cases "i = c") (auto simp: r top_wf_def cpu_others_def split: if_split_asm)
  moreover have "member_wf S'" using rt_sysD(3) [OF sys] unfolding member_wf_def q r(2) .
  moreover have "rto_wf S'" using smp_invD(5) [OF rt_sysD(1) [OF sys]] by (simp add: rto_wf_def r)
  ultimately have inv: "smp_inv S'" unfolding smp_inv_def by blast
  have sh: "shifts S S'" using mf q by (simp add: shifts_def all_queued_def r)
  have "rt_sys S'"
    using tasks_wf_cong [OF mf rt_sysD(3) [OF sys] smp_invD(4) [OF inv] shiftsD(2) [OF sh]] rt_sysD(2) [OF sys] inv
    by (simp add: rt_sys_def)
  moreover have "smp_requeue_task_rt c p head S = Some S'" using True qs by (simp add: smp_requeue_task_rt_def S'_def)
  ultimately show ?thesis using sh by blast
qed (use sys in \<open>simp add: smp_requeue_task_rt_def\<close>)

text \<open>
  The contract of the other classes and of the work queues: their functions return and leave the real-time class
  alone. The fewer than \<open>2 ^ 31\<close> other tasks of a processor are part of \<open>leaves_rt\<close>.
\<close>

definition others_ok :: "('c, 'x, 'e) senv2_scheme \<Rightarrow> bool" where
  "others_ok E \<longleftrightarrow> (\<forall>S. rt_sys S \<longrightarrow>
     (\<forall>cls c p fl. cls \<noteq> RtClass \<longrightarrow>
        (\<exists>S'. o_enqueue E cls c p fl S = Some S' \<and> leaves_rt S S') \<and>
        (\<exists>S'. o_dequeue E cls c p fl S = Some S' \<and> leaves_rt S S') \<and>
        (\<exists>S'. o_put_prev E cls c p S = Some S' \<and> leaves_rt S S') \<and>
        (\<exists>S'. o_check_preempt E cls c p fl S = Some S' \<and> leaves_rt S S') \<and>
        (\<exists>S'. o_task_woken E cls c p S = Some S' \<and> leaves_rt S S')) \<and>
     (\<forall>cls p. leaves_rt S (o_task_dead E cls p S)) \<and>
     (\<forall>p c. leaves_rt S (smp_wq_worker_waking_up E p c S)) \<and>
     (\<forall>p. leaves_rt S (snd (smp_wq_worker_sleeping E p S))))"

lemma others_okD:
  assumes "others_ok E" "rt_sys S"
  shows "cls \<noteq> RtClass \<Longrightarrow> \<exists>S'. o_enqueue E cls c p fl S = Some S' \<and> leaves_rt S S'"
    "cls \<noteq> RtClass \<Longrightarrow> \<exists>S'. o_dequeue E cls c p fl S = Some S' \<and> leaves_rt S S'"
    "cls \<noteq> RtClass \<Longrightarrow> \<exists>S'. o_put_prev E cls c p S = Some S' \<and> leaves_rt S S'"
    "cls \<noteq> RtClass \<Longrightarrow> \<exists>S'. o_check_preempt E cls c p fl S = Some S' \<and> leaves_rt S S'"
    "cls \<noteq> RtClass \<Longrightarrow> \<exists>S'. o_task_woken E cls c p S = Some S' \<and> leaves_rt S S'"
    "leaves_rt S (o_task_dead E cls p S)" "leaves_rt S (smp_wq_worker_waking_up E p c S)"
    "leaves_rt S (snd (smp_wq_worker_sleeping E p S))"
  using assms unfolding others_ok_def by blast+

text \<open>A step that keeps the queues consistent and moves no running task.\<close>

definition calm :: "('c, 'x) smp \<Rightarrow> ('c, 'x) smp \<Rightarrow> bool" where
  "calm S S' \<longleftrightarrow> rt_sys S' \<and> shifts S S'"

lemma calm_refl: "rt_sys S \<Longrightarrow> calm S S"
  by (simp add: calm_def)

lemma calm_trans: "calm S S1 \<Longrightarrow> calm S1 S2 \<Longrightarrow> calm S S2"
  using shifts_trans unfolding calm_def by blast

lemma calm_acct: "rt_sys S \<Longrightarrow> acct S S' \<Longrightarrow> calm S S'"
  by (simp add: calm_def acct_sys acct_shifts)

lemma calm_leaves: "rt_sys S \<Longrightarrow> leaves_rt S S' \<Longrightarrow> calm S S'"
  by (simp add: calm_def leaves_sys leaves_shifts)

lemma acct_flags: "acct S (upd_rq S c (\<lambda>q. q\<lparr>q_flags := f q\<rparr>))"
  by (rule acct_rq) (simp_all add: keeps_rq_def same_queues_def cpu_others_def)

lemma acct_skip [simp]: "acct S (smp_rq_clock_skip_update c S)"
  unfolding smp_rq_clock_skip_update_def by (rule acct_flags)

lemma check_preempt_rt_ok:
  assumes sys: "rt_sys S" and p: "rt_on_rq (rt (tk S p)) \<longrightarrow> task_cpu (tk S p) = c"
  shows "\<exists>S'. smp_check_preempt_curr_rt E c p flags S = Some S' \<and> calm S S'"
proof -
  obtain S1 where S1: "smp_requeue_task_rt c p True S = Some S1" "rt_sys S1" "shifts S S1" using requeue_ok [OF sys p] by blast
  have "calm S S1" using S1 by (simp add: calm_def)
  then have "calm S (smp_resched_curr c S1)" using calm_trans [OF _ calm_acct [OF S1(2) acct_resched]] by blast
  then show ?thesis
    using S1(1) calm_refl [OF sys] calm_acct [OF sys acct_resched, of c]
    by (auto simp: smp_check_preempt_curr_rt_def check_preempt_equal_prio_def Let_def)
qed

lemma check_preempt_ok:
  assumes E: "others_ok E" and sys: "rt_sys S" and p: "rt_on_rq (rt (tk S p)) \<longrightarrow> task_cpu (tk S p) = c"
  shows "\<exists>S'. smp_check_preempt_curr E c p flags S = Some S' \<and> calm S S'"
proof -
  let ?cc = "sched_class (tk S (q_curr (rqs S c)))" and ?pc = "sched_class (tk S p)"
  let ?first = "if ?pc = ?cc then
             if ?cc = RtClass then smp_check_preempt_curr_rt E c p flags S else o_check_preempt E ?cc c p flags S
           else Some (if class_preempts smp_for_each_class ?cc ?pc then smp_resched_curr c S else S)"
  have "\<exists>S1. ?first = Some S1 \<and> calm S S1"
    using check_preempt_rt_ok [OF sys p, of E flags] others_okD(4) [OF E sys, of ?cc c p flags] calm_leaves [OF sys]
      calm_refl [OF sys] calm_acct [OF sys acct_resched, of c] by auto
  then obtain S1 where S1: "?first = Some S1" "calm S S1" by blast
  have "calm S1 (smp_rq_clock_skip_update c S1)" using S1(2) by (intro calm_acct) (simp_all add: calm_def)
  then have "calm S (smp_rq_clock_skip_update c S1)" by (rule calm_trans [OF S1(2)])
  then show ?thesis using S1 unfolding smp_check_preempt_curr_def Let_def by simp
qed


section \<open>The invariant\<close>

text \<open>
  The class of a task and its priority agree; the tasks on a wakeup list wait for their processor to queue them; a task
  has the flag \<open>on_cpu\<close> exactly when it is the running task of a processor, which is then the one its structure
  names; the idle tasks stay where they are.
\<close>

definition class_wf :: "('c, 'x) smp \<Rightarrow> bool" where
  "class_wf S \<longleftrightarrow> (\<forall>p. (sched_class (tk S p) = RtClass \<longrightarrow> rt_prio_ok (prio (tk S p)) \<and> p < max_tasks) \<and>
     (sched_class (tk S p) \<notin> {RtClass, StopClass} \<longrightarrow> \<not> rt_task (tk S p)))"

definition waking :: "('c, 'x) smp \<Rightarrow> cpu \<Rightarrow> pid \<Rightarrow> bool" where
  "waking S c p \<longleftrightarrow> state (tk S p) = TASK_WAKING \<and> on_rq (tk S p) = 0 \<and> task_cpu (tk S p) = c \<and> \<not> on_cpu (tk S p)"

definition wake_wf :: "('c, 'x) smp \<Rightarrow> bool" where
  "wake_wf S \<longleftrightarrow> (\<forall>c. distinct (q_wake_list (rqs S c)) \<and> (\<forall>p \<in> set (q_wake_list (rqs S c)). waking S c p))"

definition place_wf :: "('c, 'x) smp \<Rightarrow> bool" where
  "place_wf S \<longleftrightarrow> (\<forall>p. on_cpu (tk S p) \<longleftrightarrow> (\<exists>c. q_curr (rqs S c) = p)) \<and> (\<forall>c. task_cpu (tk S (q_curr (rqs S c))) = c)"

definition idle_wf :: "('c, 'x) smp \<Rightarrow> bool" where
  "idle_wf S \<longleftrightarrow> (\<forall>c. let t = tk S (q_idle (rqs S c)) in
     on_rq t = TASK_ON_RQ_QUEUED \<and> task_cpu t = c \<and> sched_class t = IdleClass \<and> state t = TASK_RUNNING)"

definition sys0 :: "('c, 'x) smp \<Rightarrow> bool" where
  "sys0 S \<longleftrightarrow> rt_sys S \<and> class_wf S \<and> wake_wf S \<and> place_wf S \<and> idle_wf S"

definition sys :: "('c, 'x) smp \<Rightarrow> bool" where
  "sys S \<longleftrightarrow> sys0 S \<and> (\<forall>c. on_rq (tk S (q_curr (rqs S c))) = TASK_ON_RQ_QUEUED) \<and>
     (\<forall>p. on_rq (tk S p) = 0 \<or> on_rq (tk S p) = TASK_ON_RQ_QUEUED)"

lemma sys0D:
  assumes "sys0 S"
  shows "rt_sys S" "class_wf S" "wake_wf S" "place_wf S" "idle_wf S"
  using assms by (simp_all add: sys0_def)

lemma idle_wfD:
  assumes "idle_wf S"
  shows "on_rq (tk S (q_idle (rqs S c))) = TASK_ON_RQ_QUEUED" "task_cpu (tk S (q_idle (rqs S c))) = c"
    "sched_class (tk S (q_idle (rqs S c))) = IdleClass" "state (tk S (q_idle (rqs S c))) = TASK_RUNNING"
  using assms unfolding idle_wf_def Let_def by blast+

lemma on_rq_idle: "rt_sys S \<Longrightarrow> on_rq (tk S p) \<noteq> TASK_ON_RQ_QUEUED \<Longrightarrow> p \<notin> all_queued S"
  using rt_sysD(2) [of S] by (auto simp: tasks_wf_def all_queued_def)

lemma moved_rq:
  assumes "moved_frame S S'"
  shows "q_wake_list (rqs S' c) = q_wake_list (rqs S c)" "q_idle (rqs S' c) = q_idle (rqs S c)" "q_curr (rqs S' c) = q_curr (rqs S c)"
    "on_rq (tk S' p) = on_rq (tk S p)" "state (tk S' p) = state (tk S p)" "sched_class (tk S' p) = sched_class (tk S p)"
    "tflags (tk S' p) = tflags (tk S p)" "rt_task (tk S' p) = rt_task (tk S p)" "this_cpu S' = this_cpu S"
  using moved_frameD(1) [OF assms, of p] moved_frameD(2) [OF assms, of c] moved_frameD(3) [OF assms]
  by (simp_all add: same_view_def keeps_rq_def rt_task_def same_static_def)

lemma calm_sys0:
  assumes c: "calm S S'" and sys: "sys0 S"
  shows "sys0 S'"
proof -
  have sh: "shifts S S'" "rt_sys S'" using c by (simp_all add: calm_def)
  note v = moved_view [OF shiftsD(1) [OF sh(1)]] and r = moved_rq [OF shiftsD(1) [OF sh(1)]]
  have place: "task_cpu (tk S' (q_curr (rqs S c))) = c" for c
  proof -
    have "task_cpu (tk S (q_curr (rqs S c))) = c" using sys0D(4) [OF sys] by (simp add: place_wf_def)
    then show ?thesis using shiftsD(3) [OF sh(1), of "q_curr (rqs S c)"] by simp
  qed
  have off: "task_cpu (tk S' p) = task_cpu (tk S p)" if "on_rq (tk S p) \<noteq> TASK_ON_RQ_QUEUED" for p
    using shiftsD(3) [OF sh(1), of p] on_rq_idle [OF sys0D(1) [OF sys] that] by blast
  have nz: "TASK_ON_RQ_QUEUED \<noteq> 0" by (simp add: TASK_ON_RQ_QUEUED_def)
  have "class_wf S'" using sys0D(2) [OF sys] by (simp add: class_wf_def v r)
  moreover have "wake_wf S'"
    using sys0D(3) [OF sys] off nz by (auto simp: wake_wf_def waking_def v r)
  moreover have "place_wf S'" using sys0D(4) [OF sys] place by (simp add: place_wf_def v r)
  moreover have "idle_wf S'"
  proof -
    have "q_idle (rqs S c) \<notin> all_queued S" for c
      using idle_wfD(3) [OF sys0D(5) [OF sys], of c] queuedD(2) [OF sys0D(1) [OF sys], of "q_idle (rqs S c)"] by (auto simp: all_queued_def)
    then have "task_cpu (tk S' (q_idle (rqs S c))) = task_cpu (tk S (q_idle (rqs S c)))" for c using shiftsD(3) [OF sh(1)] by blast
    then show ?thesis using sys0D(5) [OF sys] by (simp add: idle_wf_def Let_def r)
  qed
  ultimately show ?thesis using sh(2) by (simp add: sys0_def)
qed

lemma calm_sys: "calm S S' \<Longrightarrow> sys S \<Longrightarrow> sys S'"
  using calm_sys0 [of S S'] moved_rq [OF shiftsD(1), of S S'] by (simp add: sys_def calm_def)

text \<open>No task runs on two processors.\<close>

lemma place_unique: "place_wf S \<Longrightarrow> q_curr (rqs S c) = q_curr (rqs S d) \<Longrightarrow> c = d"
  unfolding place_wf_def by metis


section \<open>Waking a task\<close>

lemma smp_inv_tasks:
  assumes "smp_inv S" "rqs S' = rqs S" "rd S' = rd S"
    "\<And>p. prio (tk S' p) = prio (tk S p)" "\<And>p. nr_cpus_allowed (tk S' p) = nr_cpus_allowed (tk S p)"
    "\<And>p. task_cpu (tk S' p) = task_cpu (tk S p)" "\<And>p. rt (tk S' p) = rt (tk S p)"
  shows "smp_inv S'"
proof -
  have q: "cpu_queued S' c = cpu_queued S c" for c by (simp add: cpu_queued_def assms(2))
  have ps: "pushables S' c = pushables S c" for c by (simp add: pushables_def q assms(2,5) migratable_def)
  have "arr_wf (tk S') (rtr S c)" for c
    using smp_invD(1) [OF assms(1), of c] arr_wf_cong [of "rtr S c" "tk S'" "tk S"] assms(4,5) by simp
  moreover have "push_wf (tk S') (rtr S c) (pushables S c)" for c
    using smp_invD(2) [OF assms(1), of c] push_wf_cong [of "pushables S c" "tk S'" "tk S" "rtr S c"] assms(4) by simp
  moreover have "member_wf S'" using smp_invD(4) [OF assms(1)] by (simp add: member_wf_def q assms(6,7))
  moreover have "rto_wf S'" using smp_invD(5) [OF assms(1)] by (simp add: rto_wf_def assms(2,3))
  ultimately show ?thesis using smp_invD(3) [OF assms(1)] unfolding smp_inv_def assms(2) ps by blast
qed

definition unlisted :: "('c, 'x) smp \<Rightarrow> pid \<Rightarrow> bool" where
  "unlisted S p \<longleftrightarrow> (\<forall>c. p \<notin> set (q_wake_list (rqs S c)))"

lemma set_state_sys0:
  assumes sys: "sys0 S" and p: "unlisted S p" "s = TASK_RUNNING \<or> (\<forall>c. q_idle (rqs S c) \<noteq> p)"
  shows "sys0 (upd_tk S p (\<lambda>t. t\<lparr>state := s\<rparr>))"
proof -
  let ?S = "upd_tk S p (\<lambda>t. t\<lparr>state := s\<rparr>)"
  have q: "cpu_queued ?S c = cpu_queued S c" for c by (simp add: cpu_queued_def)
  have "smp_inv ?S" by (rule smp_inv_tasks [OF rt_sysD(1) [OF sys0D(1) [OF sys]]]) simp_all
  moreover have "tasks_wf ?S" using rt_sysD(2) [OF sys0D(1) [OF sys]] by (simp add: tasks_wf_def q rt_task_def)
  moreover have "class_wf ?S" using sys0D(2) [OF sys] by (simp add: class_wf_def rt_task_def)
  moreover have "wake_wf ?S" using sys0D(3) [OF sys] p(1) by (auto simp: wake_wf_def waking_def unlisted_def)
  moreover have "place_wf ?S" using sys0D(4) [OF sys] by (auto simp: place_wf_def)
  moreover have "idle_wf ?S" using sys0D(5) [OF sys] p(2) by (auto simp: idle_wf_def Let_def)
  ultimately show ?thesis by (simp add: sys0_def rt_sys_def)
qed

text \<open>What queueing a task changes.\<close>

definition woke :: "('c, 'x) smp \<Rightarrow> ('c, 'x) smp \<Rightarrow> pid \<Rightarrow> bool" where
  "woke S S' p \<longleftrightarrow> on_rq (tk S' p) = TASK_ON_RQ_QUEUED \<and> (\<forall>q. q \<noteq> p \<longrightarrow> on_rq (tk S' q) = on_rq (tk S q)) \<and>
     (\<forall>q. state (tk S' q) = state (tk S q) \<and> sched_class (tk S' q) = sched_class (tk S q) \<and> on_cpu (tk S' q) = on_cpu (tk S q) \<and>
        task_cpu (tk S' q) = task_cpu (tk S q) \<and> prio (tk S' q) = prio (tk S q) \<and> rt_task (tk S' q) = rt_task (tk S q) \<and>
        tflags (tk S' q) = tflags (tk S q)) \<and>
     (\<forall>c. keeps_rq (rqs S c) (rqs S' c)) \<and> this_cpu S' = this_cpu S \<and>
     all_queued S' = (if sched_class (tk S p) = RtClass then insert p (all_queued S) else all_queued S)"

lemma wokeD:
  assumes "woke S S' p"
  shows "on_rq (tk S' p) = TASK_ON_RQ_QUEUED" "q \<noteq> p \<Longrightarrow> on_rq (tk S' q) = on_rq (tk S q)"
    "state (tk S' q) = state (tk S q)" "sched_class (tk S' q) = sched_class (tk S q)" "on_cpu (tk S' q) = on_cpu (tk S q)"
    "task_cpu (tk S' q) = task_cpu (tk S q)" "prio (tk S' q) = prio (tk S q)" "rt_task (tk S' q) = rt_task (tk S q)"
    "q_curr (rqs S' c) = q_curr (rqs S c)" "q_idle (rqs S' c) = q_idle (rqs S c)" "q_wake_list (rqs S' c) = q_wake_list (rqs S c)"
    "this_cpu S' = this_cpu S" "tflags (tk S' q) = tflags (tk S q)"
    "all_queued S' = (if sched_class (tk S p) = RtClass then insert p (all_queued S) else all_queued S)"
  using assms by (simp_all add: woke_def keeps_rq_def)

lemma woke_sys0:
  assumes sys: "sys0 S" and w: "woke S S' p" and inv: "smp_inv S'" and p: "unlisted S p"
  shows "sys0 S'"
proof -
  note W = wokeD [OF w]
  have cw: "class_wf S'" using sys0D(2) [OF sys] by (simp add: class_wf_def W)
  have "tasks_wf S'"
    unfolding tasks_wf_def
  proof (intro conjI allI impI)
    fix c q assume "q \<in> cpu_queued S' c"
    then have "q \<in> all_queued S'" by (auto simp: all_queued_def)
    then consider "q = p" "sched_class (tk S p) = RtClass" | "q \<in> all_queued S" using W(14) by (auto split: if_split_asm)
    then have "sched_class (tk S q) = RtClass \<and> (q = p \<or> on_rq (tk S q) = TASK_ON_RQ_QUEUED)"
      using queuedD(2,3) [OF sys0D(1) [OF sys], of q] by cases (auto simp: all_queued_def)
    then show "sched_class (tk S' q) = RtClass" "on_rq (tk S' q) = TASK_ON_RQ_QUEUED"
      using W(1,2,4) by (auto, metis)
  next
    fix q assume q: "on_rq (tk S' q) = TASK_ON_RQ_QUEUED" "rt_task (tk S' q)" "sched_class (tk S' q) \<noteq> StopClass"
    have "q \<in> all_queued S'"
    proof (cases "q = p")
      case True
      then show ?thesis using q(2,3) cw W(14) W(4) by (auto simp: class_wf_def)
    next
      case False
      then have "rt_on_rq (rt (tk S q))" using q W rt_sysD(2) [OF sys0D(1) [OF sys]] by (auto simp: tasks_wf_def)
      then show ?thesis using on_rq_all_queued [OF rt_sysD(3) [OF sys0D(1) [OF sys]]] W(14) by auto
    qed
    then show "rt_on_rq (rt (tk S' q))" using on_rq_all_queued [OF smp_invD(4) [OF inv]] by blast
  next
    show "0 \<le> prio (tk S' q)" for q using rt_sysD(2) [OF sys0D(1) [OF sys]] by (simp add: tasks_wf_def W(7))
  qed
  moreover have "wake_wf S'"
    using sys0D(3) [OF sys] p W(2) unfolding wake_wf_def waking_def W unlisted_def by metis
  moreover have "place_wf S'" using sys0D(4) [OF sys] by (simp add: place_wf_def W)
  moreover have "idle_wf S'"
  proof -
    have "on_rq (tk S' (q_idle (rqs S c))) = TASK_ON_RQ_QUEUED" for c
      using W(1) W(2) [of "q_idle (rqs S c)"] idle_wfD(1) [OF sys0D(5) [OF sys], of c] by (cases "q_idle (rqs S c) = p") auto
    then show ?thesis using idle_wfD [OF sys0D(5) [OF sys]] by (simp add: idle_wf_def Let_def W)
  qed
  ultimately show ?thesis using inv cw by (simp add: sys0_def rt_sys_def)
qed

text \<open>Putting a task of any class onto its run queue, or taking it off.\<close>

definition stays :: "('c, 'x) smp \<Rightarrow> ('c, 'x) smp \<Rightarrow> bool" where
  "stays S S' \<longleftrightarrow> moved_frame S S' \<and> (\<forall>q. task_cpu (tk S' q) = task_cpu (tk S q))"

lemma stays_trans: "stays S S1 \<Longrightarrow> stays S1 S2 \<Longrightarrow> stays S S2"
  using moved_frame_trans unfolding stays_def by (metis (no_types, lifting))

lemma frame_stays: "smp_frame S S' \<Longrightarrow> stays S S'"
  by (simp add: stays_def smp_frame_moved keeps_taskD(3) [OF smp_frameD(1)])

lemma leaves_stays: "leaves_rt S S' \<Longrightarrow> stays S S'"
  by (simp add: stays_def leaves_moved leavesD(2))

lemma all_queued_insert:
  assumes "\<And>i. cpu_queued S' i = (if i = c then insert p (cpu_queued S c) else cpu_queued S i)"
  shows "all_queued S' = insert p (all_queued S)"
proof -
  have "x \<in> cpu_queued S' i \<longleftrightarrow> x \<in> cpu_queued S i \<or> x = p \<and> i = c" for x i using assms [of i] by auto
  then show ?thesis unfolding all_queued_def by blast
qed

lemma all_queued_delete:
  assumes "\<And>i. cpu_queued S' i = (if i = c then cpu_queued S c - {p} else cpu_queued S i)" "\<And>i. i \<noteq> c \<Longrightarrow> p \<notin> cpu_queued S i"
  shows "all_queued S' = all_queued S - {p}"
proof -
  have "x \<in> cpu_queued S' i \<longleftrightarrow> x \<in> cpu_queued S i \<and> x \<noteq> p" for x i using assms by (cases "i = c") auto
  then show ?thesis unfolding all_queued_def by blast
qed

lemma enqueue_frame:
  assumes E: "others_ok E" and sys: "sys0 S" and p: "on_rq (tk S p) \<noteq> TASK_ON_RQ_QUEUED" "task_cpu (tk S p) = c"
    and mv: "move_entity flags"
  shows "\<exists>S'. smp_enqueue_task E c p flags S = Some S' \<and> smp_inv S' \<and> stays S S' \<and>
    all_queued S' = (if sched_class (tk S p) = RtClass then insert p (all_queued S) else all_queued S)"
proof -
  define S1 where "S1 = (if flags AND ENQUEUE_NOCLOCK = 0 then smp_update_rq_clock c S else S)"
  have a: "acct S S1" by (simp add: S1_def)
  have s1: "sys0 S1" by (rule calm_sys0 [OF calm_acct [OF sys0D(1) [OF sys] a] sys])
  note rs = sys0D(1) [OF s1] and k = keeps_taskD [OF acctD(1) [OF a], of p] and q = acct_queued [OF a]
  show ?thesis
  proof (cases "sched_class (tk S p) = RtClass")
    case True
    have n: "\<not> rt_on_rq (rt (tk S1 p))" using on_rq_idle [OF rs, of p] on_rq_all_queued [OF rt_sysD(3) [OF rs], of p] p(1) k(4) by simp
    have pr: "rt_prio_ok (prio (tk S1 p))" "p < max_tasks" using sys0D(2) [OF s1] True k(7) by (simp_all add: class_wf_def)
    have c1: "task_cpu (tk S1 p) = c" using p(2) k(3) by simp
    obtain S' where S': "smp_enqueue_task_rt E c p flags S1 = Some S'" "smp_inv S'" "smp_frame S1 S'"
      "\<forall>i. cpu_queued S' i = (if i = c then insert p (cpu_queued S1 c) else cpu_queued S1 i)"
      using enqueue_task_rt_inv [OF rt_sysD(1) [OF rs] c1 n pr mv] by blast
    have "all_queued S' = insert p (all_queued S)" by (rule all_queued_insert [of _ c]) (simp add: S'(4) q)
    moreover have "smp_enqueue_task E c p flags S = Some S'"
      using S'(1) True k(7) unfolding smp_enqueue_task_def Let_def S1_def [symmetric] by simp
    ultimately show ?thesis using S'(2) frame_stays [OF smp_frame_trans [OF acct_frame [OF a] S'(3)]] True by auto
  next
    case False
    obtain S' where S': "o_enqueue E (sched_class (tk S p)) c p flags S1 = Some S'" "leaves_rt S1 S'"
      using others_okD(1) [OF E rs False] by blast
    have "smp_enqueue_task E c p flags S = Some S'"
      using S'(1) False k(7) unfolding smp_enqueue_task_def Let_def S1_def [symmetric] by simp
    moreover have "all_queued S' = all_queued S" using leaves_queued [OF S'(2)] q by (simp add: all_queued_def)
    ultimately show ?thesis
      using False rt_sysD(1) [OF leaves_sys [OF S'(2) rs]] stays_trans [OF frame_stays [OF acct_frame [OF a]] leaves_stays [OF S'(2)]] by auto
  qed
qed

lemma dequeue_frame:
  assumes E: "others_ok E" and inv: "smp_inv S" and p: "task_cpu (tk S p) = c"
    "if sched_class (tk S p) = RtClass then rt_on_rq (rt (tk S p)) else rt_sys S" and mv: "move_entity flags"
  shows "\<exists>S'. smp_dequeue_task E c p flags S = Some S' \<and> smp_inv S' \<and> stays S S' \<and>
    all_queued S' = (if sched_class (tk S p) = RtClass then all_queued S - {p} else all_queued S)"
proof -
  define S1 where "S1 = (if flags AND DEQUEUE_NOCLOCK = 0 then smp_update_rq_clock c S else S)"
  have a: "acct S S1" by (simp add: S1_def)
  note k = keeps_taskD [OF acctD(1) [OF a], of p] and q = acct_queued [OF a]
  have inv1: "smp_inv S1" by (rule acct_inv [OF a inv])
  show ?thesis
  proof (cases "sched_class (tk S p) = RtClass")
    case True
    have c1: "task_cpu (tk S1 p) = c" "rt_on_rq (rt (tk S1 p))" using p k(3) acctD(2) [OF a, of p] True by simp_all
    obtain S' where S': "smp_dequeue_task_rt E c p flags S1 = Some S'" "smp_inv S'" "smp_frame S1 S'"
      "\<forall>i. cpu_queued S' i = (if i = c then cpu_queued S1 c - {p} else cpu_queued S1 i)"
      using dequeue_task_rt_inv [OF inv1 c1 mv] by blast
    have "p \<notin> cpu_queued S i" if "i \<noteq> c" for i using queued_on [OF smp_invD(4) [OF inv], of p i] p(1) that by simp
    then have "all_queued S' = all_queued S - {p}" by (intro all_queued_delete [of _ c]) (simp_all add: S'(4) q)
    moreover have "smp_dequeue_task E c p flags S = Some S'"
      using S'(1) True k(7) unfolding smp_dequeue_task_def Let_def S1_def [symmetric] by simp
    ultimately show ?thesis using S'(2) frame_stays [OF smp_frame_trans [OF acct_frame [OF a] S'(3)]] True by auto
  next
    case False
    then have rs: "rt_sys S1" using p(2) acct_sys [OF a] by simp
    obtain S' where S': "o_dequeue E (sched_class (tk S p)) c p flags S1 = Some S'" "leaves_rt S1 S'"
      using others_okD(2) [OF E rs False] by blast
    have "smp_dequeue_task E c p flags S = Some S'"
      using S'(1) False k(7) unfolding smp_dequeue_task_def Let_def S1_def [symmetric] by simp
    moreover have "all_queued S' = all_queued S" using leaves_queued [OF S'(2)] q by (simp add: all_queued_def)
    ultimately show ?thesis
      using False rt_sysD(1) [OF leaves_sys [OF S'(2) rs]] stays_trans [OF frame_stays [OF acct_frame [OF a]] leaves_stays [OF S'(2)]] by auto
  qed
qed

text \<open>The mark that the task is queued.\<close>

lemma mark_queued:
  assumes "smp_inv S'" "stays S S'"
    "all_queued S' = (if sched_class (tk S p) = RtClass then insert p (all_queued S) else all_queued S)"
  shows "smp_inv (upd_tk S' p (\<lambda>t. t\<lparr>on_rq := TASK_ON_RQ_QUEUED\<rparr>))" "woke S (upd_tk S' p (\<lambda>t. t\<lparr>on_rq := TASK_ON_RQ_QUEUED\<rparr>)) p"
proof -
  let ?S = "upd_tk S' p (\<lambda>t. t\<lparr>on_rq := TASK_ON_RQ_QUEUED\<rparr>)"
  show "smp_inv ?S" by (rule smp_inv_tasks [OF assms(1)]) simp_all
  have mf: "moved_frame S S'" "task_cpu (tk S' q) = task_cpu (tk S q)" for q using assms(2) by (simp_all add: stays_def)
  have "all_queued ?S = all_queued S'" by (simp add: all_queued_def cpu_queued_def)
  then show "woke S ?S p"
    using assms(3) mf(2) moved_view [OF mf(1)] moved_rq [OF mf(1)] moved_frameD(2) [OF mf(1)] by (simp add: woke_def rt_task_def)
qed

lemma acct_uninterruptible: "acct S (upd_rq S c (\<lambda>q. q\<lparr>q_nr_uninterruptible := f q\<rparr>))"
  by (rule acct_rq) (simp_all add: keeps_rq_def same_queues_def cpu_others_def)

lemma activate_ok:
  assumes E: "others_ok E" and sys: "sys0 S" and p: "on_rq (tk S p) \<noteq> TASK_ON_RQ_QUEUED" "task_cpu (tk S p) = c" "unlisted S p"
    and mv: "move_entity flags"
  shows "\<exists>S'. smp_activate_task E c p flags S = Some S' \<and> sys0 (upd_tk S' p (\<lambda>t. t\<lparr>on_rq := TASK_ON_RQ_QUEUED\<rparr>)) \<and>
    woke S (upd_tk S' p (\<lambda>t. t\<lparr>on_rq := TASK_ON_RQ_QUEUED\<rparr>)) p"
proof -
  define S1 where "S1 = (if task_contributes_to_load (tk S p)
        then upd_rq S c (\<lambda>q. q\<lparr>q_nr_uninterruptible := q_nr_uninterruptible q - 1\<rparr>) else S)"
  have a: "acct S S1" unfolding S1_def using acct_uninterruptible [of S c "\<lambda>q. q_nr_uninterruptible q - 1"] by simp
  have s1: "sys0 S1" by (rule calm_sys0 [OF calm_acct [OF sys0D(1) [OF sys] a] sys])
  have t: "tk S1 = tk S" "all_queued S1 = all_queued S" by (simp add: S1_def) (simp add: all_queued_def acct_queued [OF a])
  obtain S' where S': "smp_enqueue_task E c p flags S1 = Some S'" "smp_inv S'" "stays S1 S'"
    "all_queued S' = (if sched_class (tk S1 p) = RtClass then insert p (all_queued S1) else all_queued S1)"
    using enqueue_frame [OF E s1, of p c flags] p mv by (auto simp: t)
  note m = mark_queued [OF S'(2) stays_trans [OF frame_stays [OF acct_frame [OF a]] S'(3)], of p]
  have "smp_activate_task E c p flags S = Some S'" using S'(1) by (simp add: smp_activate_task_def S1_def)
  then show ?thesis using m woke_sys0 [OF sys _ _ p(3)] S'(4) t by auto
qed

text \<open>A task that has been queued, or was, and the balancing that follows.\<close>

definition wakened :: "('c, 'x) smp \<Rightarrow> ('c, 'x) smp \<Rightarrow> pid \<Rightarrow> bool" where
  "wakened S S' p \<longleftrightarrow> sys0 S' \<and> on_rq (tk S' p) = TASK_ON_RQ_QUEUED \<and>
     (\<forall>q. q \<noteq> p \<longrightarrow> on_rq (tk S' q) = on_rq (tk S q) \<and> state (tk S' q) = state (tk S q) \<and>
        (on_rq (tk S q) \<noteq> TASK_ON_RQ_QUEUED \<longrightarrow> task_cpu (tk S' q) = task_cpu (tk S q))) \<and>
     (\<forall>q. sched_class (tk S' q) = sched_class (tk S q) \<and> on_cpu (tk S' q) = on_cpu (tk S q)) \<and>
     (\<forall>c. keeps_rq (rqs S c) (rqs S' c)) \<and> this_cpu S' = this_cpu S"

lemma wakenedD:
  assumes "wakened S S' p"
  shows "sys0 S'" "on_rq (tk S' p) = TASK_ON_RQ_QUEUED" "q \<noteq> p \<Longrightarrow> on_rq (tk S' q) = on_rq (tk S q)"
    "q \<noteq> p \<Longrightarrow> state (tk S' q) = state (tk S q)"
    "q \<noteq> p \<Longrightarrow> on_rq (tk S q) \<noteq> TASK_ON_RQ_QUEUED \<Longrightarrow> task_cpu (tk S' q) = task_cpu (tk S q)"
    "sched_class (tk S' q) = sched_class (tk S q)" "on_cpu (tk S' q) = on_cpu (tk S q)"
    "q_curr (rqs S' c) = q_curr (rqs S c)" "q_wake_list (rqs S' c) = q_wake_list (rqs S c)" "this_cpu S' = this_cpu S"
  using assms by (simp_all add: wakened_def keeps_rq_def)

lemma woke_wakened: "woke S S' p \<Longrightarrow> sys0 S' \<Longrightarrow> wakened S S' p"
  by (simp add: wakened_def woke_def)

lemma wakened_calm:
  assumes w: "wakened S S1 p" and c: "calm S1 S2"
  shows "wakened S S2 p"
proof -
  have sh: "shifts S1 S2" using c by (simp add: calm_def)
  note r = moved_rq [OF shiftsD(1) [OF sh]] and v = moved_view [OF shiftsD(1) [OF sh]]
  have t: "task_cpu (tk S2 q) = task_cpu (tk S1 q)" if "on_rq (tk S1 q) \<noteq> TASK_ON_RQ_QUEUED" for q
    using shiftsD(3) [OF sh] on_rq_idle [OF sys0D(1) [OF wakenedD(1) [OF w]] that] by blast
  have "keeps_rq (rqs S c) (rqs S2 c)" for c
    using w moved_frameD(2) [OF shiftsD(1) [OF sh], of c] by (auto simp: wakened_def intro: keeps_rq_trans)
  then show ?thesis
    using w calm_sys0 [OF c wakenedD(1) [OF w]] t unfolding wakened_def r v by metis
qed

lemma push_calm:
  assumes "find_ok E" "quiet_locks E" "rt_sys S"
  shows "\<exists>S'. push_rt_tasks E c S = Some S' \<and> calm S S'"
  using push_rt_tasks_ends [OF assms, of c] by (auto simp: calm_def)

lemma woken_calm:
  assumes "find_ok E" "quiet_locks E" "others_ok E" "rt_sys S"
  shows "\<exists>S'. class_task_woken E c p S = Some S' \<and> calm S S'"
  using push_calm [OF assms(1,2,4), of c] calm_refl [OF assms(4)] others_okD(5) [OF assms(3,4), of "sched_class (tk S p)" c p]
    calm_leaves [OF assms(4)] by (auto simp: class_task_woken_def task_woken_rt_def Let_def)

lemma acct_end_idle [simp]: "acct S (upd_rq S c end_idle)"
  by (rule acct_rq) (simp_all add: end_idle_def Let_def keeps_rq_def same_queues_def cpu_others_def)

lemma do_wakeup_ok:
  assumes E: "find_ok E" "quiet_locks E" "others_ok E" and w: "wakened S S1 p" and p: "unlisted S p"
    and on: "rt_on_rq (rt (tk S1 p)) \<longrightarrow> task_cpu (tk S1 p) = c"
  shows "\<exists>S'. smp_ttwu_do_wakeup E c p fl S1 = Some S' \<and> wakened S S' p"
proof -
  let ?run = "\<lambda>S. upd_tk S p (\<lambda>t. t\<lparr>state := TASK_RUNNING\<rparr>)"
  obtain S2 where S2: "smp_check_preempt_curr E c p fl S1 = Some S2" "calm S1 S2"
    using check_preempt_ok [OF E(3) sys0D(1) [OF wakenedD(1) [OF w]] on] by blast
  have w2: "wakened S S2 p" by (rule wakened_calm [OF w S2(2)])
  have "unlisted S2 p" using p wakenedD(9) [OF w2] by (simp add: unlisted_def)
  then have s3: "sys0 (?run S2)" by (rule set_state_sys0 [OF wakenedD(1) [OF w2]]) simp
  then have w3: "wakened S (?run S2) p" using w2 by (simp add: wakened_def)
  obtain S4 where S4: "class_task_woken E c p (?run S2) = Some S4" "calm (?run S2) S4"
    using woken_calm [OF E sys0D(1) [OF s3]] by blast
  have w4: "wakened S S4 p" by (rule wakened_calm [OF w3 S4(2)])
  have "wakened S (upd_rq S4 c end_idle) p"
    by (rule wakened_calm [OF w4 calm_acct [OF sys0D(1) [OF wakenedD(1) [OF w4]] acct_end_idle]])
  then show ?thesis using S2(1) S4(1) by (simp add: smp_ttwu_do_wakeup_def)
qed

lemma move_wakeup [simp]:
  "move_entity (ENQUEUE_WAKEUP OR ENQUEUE_NOCLOCK)" "move_entity (ENQUEUE_WAKEUP OR ENQUEUE_NOCLOCK OR ENQUEUE_MIGRATED)"
  "move_entity (DEQUEUE_SLEEP OR DEQUEUE_NOCLOCK)" "move_entity DEQUEUE_NOCLOCK" "move_entity 0"
  by code_simp+

lemma ttwu_activate_ok:
  assumes E: "others_ok E" and sys: "sys0 S" and p: "on_rq (tk S p) \<noteq> TASK_ON_RQ_QUEUED" "task_cpu (tk S p) = c" "unlisted S p"
    and mv: "move_entity flags"
  shows "\<exists>S'. smp_ttwu_activate E c p flags S = Some S' \<and> wakened S S' p \<and> task_cpu (tk S' p) = c"
proof -
  let ?q = "\<lambda>S. upd_tk S p (\<lambda>t. t\<lparr>on_rq := TASK_ON_RQ_QUEUED\<rparr>)"
  obtain S1 where S1: "smp_activate_task E c p flags S = Some S1" "sys0 (?q S1)" "woke S (?q S1) p"
    using activate_ok [OF assms] by blast
  have w: "wakened S (?q S1) p" by (rule woke_wakened [OF S1(3,2)])
  have l: "leaves_rt (?q S1) (smp_wq_worker_waking_up E p c (?q S1))" by (rule others_okD(7) [OF E sys0D(1) [OF S1(2)]])
  have "wakened S (smp_wq_worker_waking_up E p c (?q S1)) p" by (rule wakened_calm [OF w calm_leaves [OF sys0D(1) [OF S1(2)] l]])
  then show ?thesis using S1(1) w wokeD(6) [OF S1(3), of p] leavesD(2) [OF l, of p] p(2) by (auto simp: smp_ttwu_activate_def Let_def)
qed

text \<open>Steps before a wakeup that leave its premises alone.\<close>

lemma wakened_after:
  assumes c: "calm S0 S" and rs: "rt_sys S0" and w: "wakened S S' p"
  shows "wakened S0 S' p"
proof -
  have sh: "shifts S0 S" using c by (simp add: calm_def)
  note r = moved_rq [OF shiftsD(1) [OF sh]] and v = moved_view [OF shiftsD(1) [OF sh]]
  have t: "task_cpu (tk S q) = task_cpu (tk S0 q)" if "on_rq (tk S0 q) \<noteq> TASK_ON_RQ_QUEUED" for q
    using shiftsD(3) [OF sh] on_rq_idle [OF rs that] by blast
  have "keeps_rq (rqs S0 c) (rqs S' c)" for c
    using w moved_frameD(2) [OF shiftsD(1) [OF sh], of c] by (auto simp: wakened_def intro: keeps_rq_trans)
  then show ?thesis using w t by (simp add: wakened_def r v)
qed

lemma do_activate_ok:
  assumes E: "find_ok E" "quiet_locks E" "others_ok E" and sys: "sys0 S"
    and p: "on_rq (tk S p) \<noteq> TASK_ON_RQ_QUEUED" "task_cpu (tk S p) = c" "unlisted S p"
  shows "\<exists>S'. smp_ttwu_do_activate E c p fl S = Some S' \<and> wakened S S' p"
proof -
  define S1 where "S1 = (if sched_contributes_to_load (tk S p)
              then upd_rq S c (\<lambda>q. q\<lparr>q_nr_uninterruptible := q_nr_uninterruptible q - 1\<rparr>) else S)"
  have "acct S S1" unfolding S1_def by (simp, intro impI acct_rq) (simp_all add: keeps_rq_def same_queues_def cpu_others_def)
  then have c1: "calm S S1" by (rule calm_acct [OF sys0D(1) [OF sys]])
  have t: "tk S1 = tk S" "q_wake_list (rqs S1 i) = q_wake_list (rqs S i)" for i by (simp_all add: S1_def)
  let ?fl = "if fl AND WF_MIGRATED \<noteq> 0 then ENQUEUE_WAKEUP OR ENQUEUE_NOCLOCK OR ENQUEUE_MIGRATED else ENQUEUE_WAKEUP OR ENQUEUE_NOCLOCK"
  have mv: "move_entity ?fl" by simp
  have p1: "on_rq (tk S1 p) \<noteq> TASK_ON_RQ_QUEUED" "task_cpu (tk S1 p) = c" "unlisted S1 p" using p t by (simp_all add: unlisted_def)
  obtain S2 where S2: "smp_ttwu_activate E c p ?fl S1 = Some S2" "wakened S1 S2 p" "task_cpu (tk S2 p) = c"
    using ttwu_activate_ok [OF E(3) calm_sys0 [OF c1 sys] p1 mv] by blast
  obtain S3 where S3: "smp_ttwu_do_wakeup E c p fl S2 = Some S3" "wakened S1 S3 p"
    using do_wakeup_ok [OF E S2(2) p1(3)] S2(3) by blast
  have "smp_ttwu_do_activate E c p fl S = Some S3"
    using S2(1) S3(1) unfolding smp_ttwu_do_activate_def Let_def S1_def [symmetric]
    by (simp split: if_split_asm add: or.assoc)
  then show ?thesis using wakened_after [OF c1 sys0D(1) [OF sys] S3(2)] by blast
qed

text \<open>The tasks of a wakeup list that has been taken off its processor.\<close>

lemma pending_loop_ok:
  assumes E: "find_ok E" "quiet_locks E" "others_ok E"
  shows "sys0 S \<Longrightarrow> distinct ps \<Longrightarrow> (\<And>p. p \<in> set ps \<Longrightarrow> waking S c p \<and> unlisted S p) \<Longrightarrow>
    \<exists>S'. ttwu_pending_loop E c ps S = Some S' \<and> sys0 S' \<and> (\<forall>p \<in> set ps. on_rq (tk S' p) = TASK_ON_RQ_QUEUED) \<and>
      (\<forall>q. q \<notin> set ps \<longrightarrow> on_rq (tk S' q) = on_rq (tk S q)) \<and> (\<forall>i. keeps_rq (rqs S i) (rqs S' i)) \<and>
      this_cpu S' = this_cpu S \<and> (\<forall>q. on_cpu (tk S' q) = on_cpu (tk S q) \<and> sched_class (tk S' q) = sched_class (tk S q))"
proof (induction ps arbitrary: S)
  case (Cons p ps)
  have nz: "TASK_ON_RQ_QUEUED \<noteq> 0" by (simp add: TASK_ON_RQ_QUEUED_def)
  have p: "on_rq (tk S p) \<noteq> TASK_ON_RQ_QUEUED" "task_cpu (tk S p) = c" "unlisted S p"
    using Cons.prems(3) [of p] nz by (auto simp: waking_def)
  obtain S1 where S1: "smp_ttwu_do_activate E c p (if sched_remote_wakeup (tk S p) then WF_MIGRATED else 0) S = Some S1" "wakened S S1 p"
    using do_activate_ok [OF E Cons.prems(1) p] by blast
  note w = wakenedD [OF S1(2)]
  have "waking S1 c q \<and> unlisted S1 q" if "q \<in> set ps" for q
  proof -
    have n: "q \<noteq> p" "waking S c q" "unlisted S q" using Cons.prems(2,3) that by auto
    then have "on_rq (tk S q) \<noteq> TASK_ON_RQ_QUEUED" using nz by (simp add: waking_def)
    then show ?thesis using n w(3,4,5) [OF n(1)] w(7,9) by (simp add: waking_def unlisted_def)
  qed
  from Cons.IH [OF w(1) _ this] Cons.prems(2) obtain S' where S': "ttwu_pending_loop E c ps S1 = Some S'" "sys0 S'"
    "\<forall>p \<in> set ps. on_rq (tk S' p) = TASK_ON_RQ_QUEUED" "\<forall>q. q \<notin> set ps \<longrightarrow> on_rq (tk S' q) = on_rq (tk S1 q)"
    "\<forall>i. keeps_rq (rqs S1 i) (rqs S' i)" "this_cpu S' = this_cpu S1"
    "\<forall>q. on_cpu (tk S' q) = on_cpu (tk S1 q) \<and> sched_class (tk S' q) = sched_class (tk S1 q)" by auto
  have k: "\<forall>i. keeps_rq (rqs S i) (rqs S' i)" using S'(5) S1(2) by (auto simp: wakened_def intro: keeps_rq_trans)
  have "on_rq (tk S' p) = TASK_ON_RQ_QUEUED" using S'(4) w(2) Cons.prems(2) by simp
  then show ?case using S1(1) S' w(3,6,7,10) k by auto
qed simp

lemma wake_list_frame:
  assumes r: "\<And>i. \<exists>l. rqs S' i = (rqs S i)\<lparr>q_wake_list := l\<rparr>" and t: "tk S' = tk S" "rd S' = rd S"
  shows "q_curr (rqs S' i) = q_curr (rqs S i)" "q_idle (rqs S' i) = q_idle (rqs S i)" "rt_sys S \<Longrightarrow> rt_sys S'"
proof -
  have q: "rtr S' i = rtr S i" "top_wf (rqs S' i) = top_wf (rqs S i)" "q_online (rqs S' i) = q_online (rqs S i)"
    and c: "q_curr (rqs S' i) = q_curr (rqs S i)" "q_idle (rqs S' i) = q_idle (rqs S i)" for i
    using r [of i] by (auto simp: top_wf_def cpu_others_def)
  show "q_curr (rqs S' i) = q_curr (rqs S i)" "q_idle (rqs S' i) = q_idle (rqs S i)" by (fact c)+
  have k: "cpu_queued S' i = cpu_queued S i" for i by (simp add: cpu_queued_def q)
  have ps: "pushables S' i = pushables S i" for i by (simp add: pushables_def k t c)
  assume sys: "rt_sys S"
  have "smp_inv S'"
    using rt_sysD(1) [OF sys] unfolding smp_inv_def member_wf_def rto_wf_def q k ps t .
  moreover have "tasks_wf S'" using rt_sysD(2) [OF sys] unfolding tasks_wf_def k t .
  ultimately show "rt_sys S'" by (simp add: rt_sys_def)
qed

lemma take_wake_list:
  assumes sys: "sys0 S"
  shows "sys0 (upd_rq S c (\<lambda>q. q\<lparr>q_wake_list := []\<rparr>))"
    "p \<in> set (q_wake_list (rqs S c)) \<Longrightarrow> waking (upd_rq S c (\<lambda>q. q\<lparr>q_wake_list := []\<rparr>)) c p \<and>
      unlisted (upd_rq S c (\<lambda>q. q\<lparr>q_wake_list := []\<rparr>)) p"
proof -
  let ?S = "upd_rq S c (\<lambda>q. q\<lparr>q_wake_list := []\<rparr>)"
  have r: "\<exists>l. rqs ?S i = (rqs S i)\<lparr>q_wake_list := l\<rparr>" for i
    by (rule exI [of _ "if i = c then [] else q_wake_list (rqs S i)"]) simp
  note F = wake_list_frame [of ?S S, OF r]
  have "rt_sys ?S" by (rule F(3)) (simp_all add: sys0D(1) [OF sys])
  moreover have "class_wf ?S" using sys0D(2) [OF sys] by (simp add: class_wf_def)
  moreover have "wake_wf ?S" using sys0D(3) [OF sys] by (simp add: wake_wf_def waking_def)
  moreover have "place_wf ?S" using sys0D(4) [OF sys] by (simp add: place_wf_def) (metis)
  moreover have "idle_wf ?S" using sys0D(5) [OF sys] by (simp add: idle_wf_def)
  ultimately show "sys0 ?S" by (simp add: sys0_def)
  assume p: "p \<in> set (q_wake_list (rqs S c))"
  have w: "waking S i x" if "x \<in> set (q_wake_list (rqs S i))" for i x using sys0D(3) [OF sys] that by (simp add: wake_wf_def)
  have "p \<notin> set (q_wake_list (rqs S i))" if "i \<noteq> c" for i using w [OF p] w [of p i] that by (auto simp: waking_def)
  then show "waking ?S c p \<and> unlisted ?S p" using w [OF p] by (auto simp: waking_def unlisted_def)
qed

lemma ttwu_pending_ok:
  assumes E: "find_ok E" "quiet_locks E" "others_ok E" and sys: "sys0 S"
  shows "\<exists>S'. sched_ttwu_pending E c S = Some S' \<and> sys0 S' \<and> q_wake_list (rqs S' c) = [] \<and>
    (\<forall>p \<in> set (q_wake_list (rqs S c)). on_rq (tk S' p) = TASK_ON_RQ_QUEUED) \<and>
    (\<forall>q. q \<notin> set (q_wake_list (rqs S c)) \<longrightarrow> on_rq (tk S' q) = on_rq (tk S q)) \<and>
    (\<forall>i. q_curr (rqs S' i) = q_curr (rqs S i)) \<and> this_cpu S' = this_cpu S \<and> (\<forall>q. on_cpu (tk S' q) = on_cpu (tk S q) \<and> sched_class (tk S' q) = sched_class (tk S q))"
proof -
  define S1 where "S1 = upd_rq S c (\<lambda>q. q\<lparr>q_wake_list := []\<rparr>)"
  let ?l = "q_wake_list (rqs S c)" and ?S2 = "smp_update_rq_clock c S1"
  have S1: "sys0 S1" "\<And>p. p \<in> set ?l \<Longrightarrow> waking S1 c p \<and> unlisted S1 p"
    using take_wake_list [OF sys] unfolding S1_def by blast+
  have c2: "calm S1 ?S2" by (rule calm_acct [OF sys0D(1) [OF S1(1)] acct_clock])
  have mf: "moved_frame S1 ?S2" using c2 shiftsD(1) [of S1 ?S2] by (simp add: calm_def)
  have t2: "task_cpu (tk ?S2 q) = task_cpu (tk S1 q)" for q by (simp add: smp_update_rq_clock_def Let_def)
  have "waking ?S2 c p \<and> unlisted ?S2 p" if "p \<in> set ?l" for p
    using S1(2) [OF that] by (simp add: waking_def unlisted_def moved_rq [OF mf] moved_view [OF mf] t2)
  moreover have "distinct ?l" using sys0D(3) [OF sys] by (simp add: wake_wf_def)
  ultimately obtain S' where S': "ttwu_pending_loop E c ?l ?S2 = Some S'" "sys0 S'" "\<forall>p \<in> set ?l. on_rq (tk S' p) = TASK_ON_RQ_QUEUED"
    "\<forall>q. q \<notin> set ?l \<longrightarrow> on_rq (tk S' q) = on_rq (tk ?S2 q)" "\<forall>i. keeps_rq (rqs ?S2 i) (rqs S' i)" "this_cpu S' = this_cpu ?S2"
    "\<forall>q. on_cpu (tk S' q) = on_cpu (tk ?S2 q) \<and> sched_class (tk S' q) = sched_class (tk ?S2 q)"
    using pending_loop_ok [OF E calm_sys0 [OF c2 S1(1)], of ?l c] by blast
  have t1: "tk S1 = tk S" "this_cpu S1 = this_cpu S" "q_curr (rqs S1 i) = q_curr (rqs S i)" "q_wake_list (rqs S1 c) = []" for i
    by (simp_all add: S1_def)
  show ?thesis
  proof (cases "?l = []")
    case True
    then have "sched_ttwu_pending E c S = Some S1" by (simp add: sched_ttwu_pending_def S1_def Let_def)
    then show ?thesis using S1(1) t1 True by auto
  next
    case False
    then have "sched_ttwu_pending E c S = Some S'" using S'(1) by (simp add: sched_ttwu_pending_def S1_def Let_def)
    then show ?thesis using S' t1 moved_rq [OF mf] moved_view [OF mf] by (simp add: keeps_rq_def)
  qed
qed


section \<open>Choosing a processor for a task that is woken\<close>

text \<open>Only the affinity of \<open>p\<close> changes.\<close>

definition affine :: "pid \<Rightarrow> ('c, 'x) smp \<Rightarrow> ('c, 'x) smp \<Rightarrow> bool" where
  "affine p S S' \<longleftrightarrow> (\<forall>q. q \<noteq> p \<longrightarrow> tk S' q = tk S q) \<and> (\<exists>m n. tk S' p = (tk S p)\<lparr>cpus_allowed := m, nr_cpus_allowed := n\<rparr>) \<and>
     rqs S' = rqs S \<and> rd S' = rd S \<and> same_static S S'"

text \<open>The contract of the other classes and of the cpusets, and of the masks of the processors.\<close>

definition affinity_ok :: "('c, 'x, 'e) senv2_scheme \<Rightarrow> bool" where
  "affinity_ok E \<longleftrightarrow> (\<forall>S p. affine p S (cpuset_cpus_allowed_fallback E p S)) \<and>
     (\<forall>cls S p m. affine p S (o_set_cpus_allowed E cls p m S) \<and> cpus_allowed (tk (o_set_cpus_allowed E cls p m S) p) = m)"

definition masks_ok :: "('c, 'x) smp \<Rightarrow> bool" where
  "masks_ok S \<longleftrightarrow> (\<exists>c < nr_cpu_ids S. cpu_active_mask S c \<and> cpu_possible_mask S c) \<and> (\<forall>c. cpu_active_mask S c \<longrightarrow> cpu_online_mask S c)"

lemma affine_refl [simp]: "affine p S S"
proof -
  have "tk S p = (tk S p)\<lparr>cpus_allowed := cpus_allowed (tk S p), nr_cpus_allowed := nr_cpus_allowed (tk S p)\<rparr>" by simp
  then show ?thesis unfolding affine_def using same_static_refl [of S] by blast
qed

lemma affineD:
  assumes "affine p S S'"
  shows "prio (tk S' q) = prio (tk S q)" "task_cpu (tk S' q) = task_cpu (tk S q)" "rt (tk S' q) = rt (tk S q)"
    "on_rq (tk S' q) = on_rq (tk S q)" "state (tk S' q) = state (tk S q)" "sched_class (tk S' q) = sched_class (tk S q)"
    "on_cpu (tk S' q) = on_cpu (tk S q)" "rqs S' = rqs S" "rd S' = rd S" "same_static S S'" "tflags (tk S' q) = tflags (tk S q)"
    "q \<noteq> p \<Longrightarrow> tk S' q = tk S q" "wake_cpu (tk S' q) = wake_cpu (tk S q)"
  using assms by (cases "q = p"; fastforce simp: affine_def)+

lemma affine_trans:
  assumes "affine p S S1" "affine p S1 S2"
  shows "affine p S S2"
proof -
  obtain m n m' n' where "tk S1 p = (tk S p)\<lparr>cpus_allowed := m, nr_cpus_allowed := n\<rparr>"
    "tk S2 p = (tk S1 p)\<lparr>cpus_allowed := m', nr_cpus_allowed := n'\<rparr>" using assms unfolding affine_def by blast
  then have "tk S2 p = (tk S p)\<lparr>cpus_allowed := m', nr_cpus_allowed := n'\<rparr>" by simp
  then show ?thesis using assms same_static_trans unfolding affine_def by metis
qed

lemma affine_sys0:
  assumes sys: "sys0 S" and p: "p \<notin> all_queued S" and a: "affine p S S'"
  shows "sys0 S'"
proof -
  note rs = sys0D(1) [OF sys] and A = affineD [OF a]
  have q: "cpu_queued S' c = cpu_queued S c" for c by (simp add: cpu_queued_def A)
  have n: "linked x (rt_queue (active (rtr S c))) \<Longrightarrow> x \<noteq> p" for x c using p by (auto simp: all_queued_def cpu_queued_def)
  have ps: "pushables S' c = pushables S c" for c
    using n A(12) by (auto simp: pushables_def q A(8) cpu_queued_def)
  have "arr_wf (tk S') (rtr S c)" for c
    using rt_sysD(4) [OF rs, of c] arr_wf_cong [of "rtr S c" "tk S'" "tk S"] A(1,12) n by metis
  moreover have "push_wf (tk S') (rtr S c) (pushables S c)" for c
    using rt_sysD(5) [OF rs, of c] push_wf_cong [of "pushables S c" "tk S'" "tk S" "rtr S c"] A(1) by simp
  moreover have "member_wf S'" using rt_sysD(3) [OF rs] by (simp add: member_wf_def q A)
  moreover have "rto_wf S'" using smp_invD(5) [OF rt_sysD(1) [OF rs]] by (simp add: rto_wf_def A)
  ultimately have "smp_inv S'" using smp_invD(3) [OF rt_sysD(1) [OF rs]] unfolding smp_inv_def A(8) ps by blast
  moreover have "tasks_wf S'" using rt_sysD(2) [OF rs] by (simp add: tasks_wf_def q A rt_task_def)
  moreover have "class_wf S'" using sys0D(2) [OF sys] by (simp add: class_wf_def A rt_task_def)
  moreover have "wake_wf S'" using sys0D(3) [OF sys] by (simp add: wake_wf_def waking_def A)
  moreover have "place_wf S'" using sys0D(4) [OF sys] by (simp add: place_wf_def A)
  moreover have "idle_wf S'" using sys0D(5) [OF sys] by (simp add: idle_wf_def A Let_def)
  ultimately show ?thesis by (simp add: sys0_def rt_sys_def)
qed

text \<open>A task that is not queued and not running takes the new mask at once.\<close>

lemma set_allowed_ok:
  assumes E: "affinity_ok E" and p: "on_rq (tk S p) \<noteq> TASK_ON_RQ_QUEUED" "\<not> on_cpu (tk S p)" "place_wf S"
  shows "\<exists>S'. do_set_cpus_allowed E p m S = Some S' \<and> affine p S S' \<and> cpus_allowed (tk S' p) = m"
proof -
  have n: "\<not> task_on_rq_queued (tk S p)" "\<not> smp_task_current S (task_cpu (tk S p)) p"
    using p by (auto simp: task_on_rq_queued_def smp_task_current_def place_wf_def)
  let ?S = "class_set_cpus_allowed E p m S"
  have "affine p S ?S \<and> cpus_allowed (tk ?S p) = m"
  proof (cases "sched_class (tk S p) \<in> {RtClass, TsClass}")
    case True
    then show ?thesis
      by (auto simp: class_set_cpus_allowed_def set_cpus_allowed_common_def affine_def)
  next
    case False
    then show ?thesis using E by (auto simp: class_set_cpus_allowed_def affinity_ok_def)
  qed
  then show ?thesis using n by (simp add: do_set_cpus_allowed_def Let_def)
qed

lemma affine_masks: "affine p S S' \<Longrightarrow> masks_ok S' = masks_ok S"
  using affineD(10) [of p S S'] by (simp add: masks_ok_def same_static_def)

lemma fallback_allowed_ok: "fallback_allowed p S = Some c \<Longrightarrow> is_cpu_allowed p c S"
  by (auto simp: fallback_allowed_def find_Some_iff)

lemma fallback_all:
  assumes "masks_ok S" "cpus_allowed (tk S p) = cpu_possible_mask S"
  shows "\<exists>c. fallback_allowed p S = Some c"
proof (rule ccontr)
  assume "\<not> ?thesis"
  then have "\<not> is_cpu_allowed p c S" if "c < nr_cpu_ids S" "cpu_possible_mask S c" for c
    using that assms(2) by (auto simp: fallback_allowed_def find_None_iff)
  moreover obtain c where "c < nr_cpu_ids S" "cpu_active_mask S c" "cpu_possible_mask S c" "cpu_online_mask S c"
    using assms(1) by (auto simp: masks_ok_def)
  ultimately show False using assms(2) by (metis is_cpu_allowed_def)
qed

lemma select_task_rq_ok:
  assumes E: "affinity_ok E" and p: "on_rq (tk S p) \<noteq> TASK_ON_RQ_QUEUED" "\<not> on_cpu (tk S p)" "place_wf S" and m: "masks_ok S"
  shows "\<exists>cpu S'. select_task_rq E p w sd fl S = Some (cpu, S') \<and> affine p S S' \<and> is_cpu_allowed p cpu S'"
proof -
  have last: "\<exists>c S'. Option.bind (do_set_cpus_allowed E p (cpu_possible_mask S1) S1) (fallback_fail p) = Some (c, S') \<and>
      affine p S S' \<and> is_cpu_allowed p c S'" if a: "affine p S S1" for S1
  proof -
    have "place_wf S1" using p(3) by (simp add: place_wf_def affineD [OF a])
    then obtain S2 where S2: "do_set_cpus_allowed E p (cpu_possible_mask S1) S1 = Some S2" "affine p S1 S2"
      "cpus_allowed (tk S2 p) = cpu_possible_mask S1"
      using set_allowed_ok [OF E, of S1 p] p(1,2) by (auto simp: affineD [OF a])
    have "cpu_possible_mask S2 = cpu_possible_mask S1" using affineD(10) [OF S2(2)] by (simp add: same_static_def)
    then obtain c where "fallback_allowed p S2 = Some c"
      using fallback_all [of S2 p] m S2(3) affine_masks [OF affine_trans [OF a S2(2)]] by auto
    then show ?thesis using S2(1) affine_trans [OF a S2(2)] fallback_allowed_ok by (auto simp: fallback_fail_def)
  qed
  have poss: "\<exists>c S'. fallback_possible E p S1 = Some (c, S') \<and> affine p S S' \<and> is_cpu_allowed p c S'" if a: "affine p S S1" for S1
    using last [OF a] a fallback_allowed_ok [of p S1] by (auto simp: fallback_possible_def split: option.split)
  have "\<exists>c S'. fallback_cpuset E p S = Some (c, S') \<and> affine p S S' \<and> is_cpu_allowed p c S'"
    using last [OF affine_refl] poss [of "cpuset_cpus_allowed_fallback E p S"] E fallback_allowed_ok [of p S]
    by (auto simp: fallback_cpuset_def affinity_ok_def split: option.split)
  moreover have "is_cpu_allowed p c S" if "find (\<lambda>c. cpu_active_mask S c \<and> cpus_allowed (tk S p) c) l = Some c" for c l
    using that m by (auto simp: find_Some_iff is_cpu_allowed_def masks_ok_def)
  ultimately have "\<exists>c S'. select_fallback_rq E (task_cpu (tk S p)) p S = Some (c, S') \<and> affine p S S' \<and> is_cpu_allowed p c S'"
    by (auto simp: select_fallback_rq_def split: option.split bind_splits)
  then show ?thesis by (auto simp: select_task_rq_def Let_def)
qed

lemma set_task_cpu_sys0:
  assumes sys: "sys0 S" and p: "on_rq (tk S p) \<noteq> TASK_ON_RQ_QUEUED" "\<not> on_cpu (tk S p)" "unlisted S p"
  shows "sys0 (set_task_cpu p cpu S)"
proof -
  let ?S = "set_task_cpu p cpu S"
  note rs = sys0D(1) [OF sys]
  have n: "\<not> rt_on_rq (rt (tk S p))" using on_rq_idle [OF rs p(1)] on_rq_all_queued [OF rt_sysD(3) [OF rs]] by blast
  note s = set_task_cpu_inv [OF rt_sysD(1) [OF rs] n]
  have aq: "all_queued ?S = all_queued S" by (simp add: all_queued_def s(2))
  have mf: "moved_frame S ?S" by (rule s(3))
  note r = moved_rq [OF mf] and v = moved_view [OF mf]
  have "tasks_wf ?S" using tasks_wf_cong [OF mf rt_sysD(3) [OF rs] smp_invD(4) [OF s(1)] aq] rt_sysD(2) [OF rs] by simp
  moreover have "class_wf ?S" using sys0D(2) [OF sys] by (simp add: class_wf_def v r)
  moreover have "wake_wf ?S"
    using sys0D(3) [OF sys] p(3) s(6) unfolding wake_wf_def waking_def r v unlisted_def by metis
  moreover have "place_wf ?S"
    using sys0D(4) [OF sys] p(2) s(6) unfolding place_wf_def r v by metis
  moreover have "q_idle (rqs S c) \<noteq> p" for c using idle_wfD(1) [OF sys0D(5) [OF sys], of c] p(1) by auto
  then have "idle_wf ?S" using idle_wfD [OF sys0D(5) [OF sys]] s(6) by (simp add: idle_wf_def Let_def r)
  ultimately show ?thesis using s(1) by (simp add: sys0_def rt_sys_def)
qed

text \<open>A remote wakeup hands the task to its processor.\<close>

lemma polling_leaves:
  assumes "smp_inv S"
  shows "leaves_rt S (snd (set_nr_if_polling p S))" "leaves_rt S (smp_send_reschedule c S)"
  using leaves_refl [OF assms] by (auto simp: set_nr_if_polling_def smp_send_reschedule_def leaves_rt_def same_view_def same_static_def)

lemma queue_remote_ok:
  assumes sys: "sys0 S" and w: "waking S cpu p" "unlisted S p"
  shows "sys0 (ttwu_queue_remote p cpu fl S)" "p \<in> set (q_wake_list (rqs (ttwu_queue_remote p cpu fl S) cpu))"
    "on_rq (tk (ttwu_queue_remote p cpu fl S) q) = on_rq (tk S q)" "q_curr (rqs (ttwu_queue_remote p cpu fl S) c) = q_curr (rqs S c)"
proof -
  let ?S1 = "upd_tk S p (\<lambda>t. t\<lparr>sched_remote_wakeup := (fl AND WF_MIGRATED \<noteq> 0)\<rparr>)"
  define S2 where "S2 = upd_rq ?S1 cpu (\<lambda>q. q\<lparr>q_wake_list := p # q_wake_list q\<rparr>)"
  have "leaves_rt S ?S1"
    using leaves_refl [OF rt_sysD(1) [OF sys0D(1) [OF sys]]] by (auto simp: leaves_rt_def same_view_def same_static_def)
  then have s1: "sys0 ?S1" by (intro calm_sys0 [OF calm_leaves sys] sys0D(1) [OF sys])
  have r: "\<exists>l. rqs S2 i = (rqs ?S1 i)\<lparr>q_wake_list := l\<rparr>" for i unfolding S2_def
    by (rule exI [of _ "if i = cpu then p # q_wake_list (rqs S i) else q_wake_list (rqs S i)"]) simp
  note F = wake_list_frame [of S2 ?S1, OF r]
  have t2: "tk S2 = tk ?S1" "rd S2 = rd ?S1" by (simp_all add: S2_def)
  have wl: "q_wake_list (rqs S2 i) = (if i = cpu then p # q_wake_list (rqs S i) else q_wake_list (rqs S i))" for i by (simp add: S2_def)
  have "wake_wf S2"
    using sys0D(3) [OF sys] w unfolding wake_wf_def wl by (auto simp: waking_def unlisted_def t2)
  moreover have "rt_sys S2" by (rule F(3) [OF t2 sys0D(1) [OF s1]])
  moreover have "class_wf S2" "place_wf S2" "idle_wf S2"
    using sys0D [OF s1] by (simp_all add: class_wf_def place_wf_def idle_wf_def t2 F(1,2) [OF t2])
  ultimately have s2: "sys0 S2" by (simp add: sys0_def)
  define S3 where "S3 = snd (set_nr_if_polling (q_idle (rqs S2 cpu)) S2)"
  have l3: "leaves_rt S2 S3" unfolding S3_def by (rule polling_leaves(1) [OF rt_sysD(1) [OF sys0D(1) [OF s2]]])
  have c3: "calm S2 S3" by (rule calm_leaves [OF sys0D(1) [OF s2] l3])
  have s3: "sys0 S3" by (rule calm_sys0 [OF c3 s2])
  have l4: "leaves_rt S3 (smp_send_reschedule cpu S3)" by (rule polling_leaves(2) [OF rt_sysD(1) [OF sys0D(1) [OF s3]]])
  have c4: "calm S2 (smp_send_reschedule cpu S3)" by (rule calm_trans [OF c3 calm_leaves [OF sys0D(1) [OF s3] l4]])
  have "ttwu_queue_remote p cpu fl S \<in> {S2, S3, smp_send_reschedule cpu S3}"
    by (auto simp: ttwu_queue_remote_def Let_def S3_def S2_def split: prod.split)
  then have c: "calm S2 (ttwu_queue_remote p cpu fl S)" using c3 c4 calm_refl [OF sys0D(1) [OF s2]] by (elim insertE emptyE) simp_all
  show "sys0 (ttwu_queue_remote p cpu fl S)" by (rule calm_sys0 [OF c s2])
  have mf: "moved_frame S2 (ttwu_queue_remote p cpu fl S)" using c shiftsD(1) [of S2 "ttwu_queue_remote p cpu fl S"] by (simp add: calm_def)
  show "p \<in> set (q_wake_list (rqs (ttwu_queue_remote p cpu fl S) cpu))" by (simp add: moved_rq [OF mf] wl)
  show "on_rq (tk (ttwu_queue_remote p cpu fl S) q) = on_rq (tk S q)" by (simp add: moved_rq [OF mf] t2)
  show "q_curr (rqs (ttwu_queue_remote p cpu fl S) c) = q_curr (rqs S c)" by (simp add: moved_rq [OF mf] F(1) [OF t2])
qed

text \<open>The whole wakeup of a task that is not queued.\<close>

definition arrives :: "('c, 'x) smp \<Rightarrow> ('c, 'x) smp \<Rightarrow> pid \<Rightarrow> bool" where
  "arrives S S' p \<longleftrightarrow> sys0 S' \<and> (\<forall>q. q \<noteq> p \<longrightarrow> on_rq (tk S' q) = on_rq (tk S q)) \<and> (\<forall>c. q_curr (rqs S' c) = q_curr (rqs S c)) \<and>
     (on_rq (tk S' p) = TASK_ON_RQ_QUEUED \<or> (\<exists>c. p \<in> set (q_wake_list (rqs S' c))))"

lemma ttwu_queue_ok:
  assumes E: "find_ok E" "quiet_locks E" "others_ok E" and sys: "sys0 S" and w: "waking S cpu p" "unlisted S p"
  shows "\<exists>S'. smp_ttwu_queue E p cpu fl S = Some S' \<and> arrives S S' p"
proof (cases "TTWU_QUEUE E \<and> \<not> cpus_share_cache E (this_cpu S) cpu")
  case True
  then show ?thesis using queue_remote_ok [OF sys w, of fl] by (auto simp: smp_ttwu_queue_def arrives_def)
next
  case False
  let ?S1 = "smp_update_rq_clock cpu S"
  have c: "calm S ?S1" by (rule calm_acct [OF sys0D(1) [OF sys] acct_clock])
  have mf: "moved_frame S ?S1" using c shiftsD(1) [of S ?S1] by (simp add: calm_def)
  have t: "task_cpu (tk ?S1 q) = task_cpu (tk S q)" for q by (simp add: smp_update_rq_clock_def Let_def)
  have nz: "TASK_ON_RQ_QUEUED \<noteq> 0" by (simp add: TASK_ON_RQ_QUEUED_def)
  have "on_rq (tk ?S1 p) \<noteq> TASK_ON_RQ_QUEUED" "task_cpu (tk ?S1 p) = cpu" "unlisted ?S1 p"
    using w nz by (simp_all add: waking_def unlisted_def moved_rq [OF mf] t)
  from do_activate_ok [OF E calm_sys0 [OF c sys] this] obtain S' where
    S': "smp_ttwu_do_activate E cpu p fl ?S1 = Some S'" "wakened ?S1 S' p" by blast
  have "wakened S S' p" by (rule wakened_after [OF c sys0D(1) [OF sys] S'(2)])
  then show ?thesis using S'(1) False wakenedD [of S S' p] by (auto simp: smp_ttwu_queue_def arrives_def)
qed

lemma arrives_sys:
  assumes "sys S" "arrives S S' p" "on_rq (tk S' p) = TASK_ON_RQ_QUEUED \<or> on_rq (tk S' p) = 0 \<and> on_rq (tk S p) = 0"
  shows "sys S'"
proof -
  have nz: "TASK_ON_RQ_QUEUED \<noteq> 0" by (simp add: TASK_ON_RQ_QUEUED_def)
  have a: "sys0 S'" "q \<noteq> p \<Longrightarrow> on_rq (tk S' q) = on_rq (tk S q)" "q_curr (rqs S' c) = q_curr (rqs S c)" for q c
    using assms(2) by (simp_all add: arrives_def)
  have "on_rq (tk S' (q_curr (rqs S' c))) = TASK_ON_RQ_QUEUED" for c
    using a(2) [of "q_curr (rqs S c)"] assms(1,3) nz unfolding a(3) sys_def by (cases "q_curr (rqs S c) = p") auto
  moreover have "on_rq (tk S' q) = 0 \<or> on_rq (tk S' q) = TASK_ON_RQ_QUEUED" for q
    using a(2) [of q] assms(1,3) by (cases "q = p") (auto simp: sys_def)
  ultimately show ?thesis using a(1) unfolding sys_def by blast
qed

lemma waking_zero:
  assumes "sys0 S" "p \<in> set (q_wake_list (rqs S c))"
  shows "on_rq (tk S p) = 0" "state (tk S p) = TASK_WAKING" "task_cpu (tk S p) = c" "\<not> on_cpu (tk S p)"
  using sys0D(3) [OF assms(1)] assms(2) by (simp_all add: wake_wf_def waking_def)

lemma unlisted_state: "sys0 S \<Longrightarrow> state (tk S p) \<noteq> TASK_WAKING \<Longrightarrow> unlisted S p"
  using waking_zero(2) unfolding unlisted_def by blast

lemma ttwu_place_ok:
  assumes E: "find_ok E" "quiet_locks E" "others_ok E" "affinity_ok E" and m: "masks_ok S"
    and sys: "sys0 S" and p: "on_rq (tk S p) = 0" "\<not> on_cpu (tk S p)" "unlisted S p"
  shows "\<exists>S'. ttwu_place E p fl S = Some S' \<and> arrives S S' p"
proof -
  have nz: "TASK_ON_RQ_QUEUED \<noteq> 0" by (simp add: TASK_ON_RQ_QUEUED_def)
  have ni: "q_idle (rqs S c) \<noteq> p" for c
    using idle_wfD(1) [OF sys0D(5) [OF sys], of c] p(1) nz by auto
  let ?S1 = "upd_tk S p (\<lambda>t. t\<lparr>sched_contributes_to_load := task_contributes_to_load t\<rparr>)"
  define S2 where "S2 = upd_tk S p (\<lambda>t. t\<lparr>sched_contributes_to_load := task_contributes_to_load t, state := TASK_WAKING\<rparr>)"
  have l1: "leaves_rt S ?S1"
    using leaves_refl [OF rt_sysD(1) [OF sys0D(1) [OF sys]]] by (auto simp: leaves_rt_def same_view_def same_static_def)
  have s1: "sys0 ?S1" by (rule calm_sys0 [OF calm_leaves [OF sys0D(1) [OF sys] l1] sys])
  have "sys0 (upd_tk ?S1 p (\<lambda>t. t\<lparr>state := TASK_WAKING\<rparr>))"
    by (rule set_state_sys0 [OF s1]) (use p ni in \<open>simp_all add: unlisted_def\<close>)
  then have s2: "sys0 S2" by (simp add: S2_def)
  have t2: "on_rq (tk S2 q) = on_rq (tk S q)" "on_cpu (tk S2 q) = on_cpu (tk S q)" "task_cpu (tk S2 q) = task_cpu (tk S q)"
    "state (tk S2 p) = TASK_WAKING" "rqs S2 = rqs S" "masks_ok S2 = masks_ok S" for q
    by (simp_all add: S2_def masks_ok_def)
  define S3 where "S3 = smp_end_iowait p S2"
  have a3: "acct S2 S3" unfolding S3_def smp_end_iowait_def
    by (simp, intro impI acct_rq) (simp_all add: keeps_rq_def same_queues_def cpu_others_def)
  have s3: "sys0 S3" by (rule calm_sys0 [OF calm_acct [OF sys0D(1) [OF s2] a3] s2])
  have t3: "tk S3 = tk S2" "masks_ok S3 = masks_ok S2" "q_curr (rqs S3 c) = q_curr (rqs S2 c)" "q_wake_list (rqs S3 c) = q_wake_list (rqs S2 c)" for c
    by (simp_all add: S3_def smp_end_iowait_def masks_ok_def)
  obtain cpu S4 where S4: "select_task_rq E p (wake_cpu (tk S3 p)) SD_BALANCE_WAKE fl S3 = Some (cpu, S4)" "affine p S3 S4"
    using select_task_rq_ok [OF E(4), of S3 p "wake_cpu (tk S3 p)" SD_BALANCE_WAKE fl] p nz m sys0D(4) [OF s3] by (auto simp: t2 t3)
  note A = affineD [OF S4(2)]
  have "p \<notin> all_queued S3" using on_rq_idle [OF sys0D(1) [OF s3], of p] p(1) nz by (simp add: t2 t3)
  then have s4: "sys0 S4" by (rule affine_sys0 [OF s3 _ S4(2)])
  define fl' where "fl' = (if task_cpu (tk S4 p) \<noteq> cpu then fl OR WF_MIGRATED else fl)"
  define S5 where "S5 = (if task_cpu (tk S4 p) \<noteq> cpu then set_task_cpu p cpu S4 else S4)"
  have p4: "on_rq (tk S4 p) \<noteq> TASK_ON_RQ_QUEUED" "\<not> on_cpu (tk S4 p)" "unlisted S4 p" "on_rq (tk S4 p) = 0" "state (tk S4 p) = TASK_WAKING"
    using p nz by (simp_all add: A t3 t2 unlisted_def)
  have s5: "sys0 S5" unfolding S5_def using s4 set_task_cpu_sys0 [OF s4 p4(1-3)] by simp
  have t5: "on_rq (tk S5 q) = on_rq (tk S4 q)" "on_cpu (tk S5 q) = on_cpu (tk S4 q)" "state (tk S5 q) = state (tk S4 q)" "rqs S5 = rqs S4"
    "task_cpu (tk S5 p) = cpu" for q
    by (simp_all add: S5_def set_task_cpu_def Let_def)
  have "waking S5 cpu p" "unlisted S5 p" using p4 t5 by (simp_all add: waking_def unlisted_def)
  then obtain S' where S': "smp_ttwu_queue E p cpu fl' S5 = Some S'" "arrives S5 S' p"
    using ttwu_queue_ok [OF E(1-3) s5] by blast
  have "ttwu_place E p fl S = Some S'"
    using S4(1) S'(1) p(2) unfolding ttwu_place_def Let_def S3_def S2_def fl'_def S5_def
    by (cases "task_cpu (tk S4 p) = cpu") simp_all
  moreover have "arrives S S' p" using S'(2) by (simp add: arrives_def t5 A t3 t2)
  ultimately show ?thesis by blast
qed

end
