(* ===== verification/Smp_Steps.thy ===== *)
theory Smp_Steps
  imports Smp_Inv
begin

text \<open>
  The system of several processors as a whole: its steps are whole operations of \<open>Smp_Core\<close> (wakeups, the interrupt
  that delivers remote wakeups, \<open>__schedule\<close>, the balancing interrupt, migration by a stopper, changes of affinity),
  in any order and on any processor. Every reachable state satisfies the invariant of \<open>Smp_Inv\<close>, every operation
  returns, and so no task runs on two processors and none of the \<open>BUG_ON\<close>s of the class is reached.
\<close>


section \<open>Waking\<close>

lemma calm_on_rq: "calm S S' \<Longrightarrow> on_rq (tk S' q) = on_rq (tk S q)" "calm S S' \<Longrightarrow> q_curr (rqs S' c) = q_curr (rqs S c)"
  "calm S S' \<Longrightarrow> q_wake_list (rqs S' c) = q_wake_list (rqs S c)" "calm S S' \<Longrightarrow> this_cpu S' = this_cpu S"
  "calm S S' \<Longrightarrow> state (tk S' q) = state (tk S q)" "calm S S' \<Longrightarrow> on_cpu (tk S' q) = on_cpu (tk S q)"
  "calm S S' \<Longrightarrow> sched_class (tk S' q) = sched_class (tk S q)" "calm S S' \<Longrightarrow> q_idle (rqs S' c) = q_idle (rqs S c)"
  using moved_rq [OF shiftsD(1), of S S'] moved_view [OF shiftsD(1), of S S'] by (simp_all add: calm_def)

lemma wakened_refl: "sys0 S \<Longrightarrow> on_rq (tk S p) = TASK_ON_RQ_QUEUED \<Longrightarrow> wakened S S p"
  by (simp add: wakened_def)

lemma wakened_arrives: "wakened S S' p \<Longrightarrow> arrives S S' p"
  by (simp add: wakened_def arrives_def keeps_rq_def)

lemma ttwu_remote_ok:
  assumes E: "find_ok E" "quiet_locks E" "others_ok E" and sys: "sys0 S"
    and p: "on_rq (tk S p) = TASK_ON_RQ_QUEUED" "unlisted S p"
  shows "\<exists>S'. smp_ttwu_remote E p fl S = Some (True, S') \<and> wakened S S' p"
proof -
  let ?c = "task_cpu (tk S p)" let ?S1 = "smp_update_rq_clock ?c S"
  have c1: "calm S ?S1" by (rule calm_acct [OF sys0D(1) [OF sys] acct_clock])
  have w: "wakened S ?S1 p" by (rule wakened_calm [OF wakened_refl [OF sys p(1)] c1])
  have "task_cpu (tk ?S1 p) = ?c" by (simp add: smp_update_rq_clock_def Let_def)
  then obtain S' where "smp_ttwu_do_wakeup E ?c p fl ?S1 = Some S'" "wakened S S' p"
    using do_wakeup_ok [OF E w p(2)] by blast
  then show ?thesis using p(1) by (simp add: smp_ttwu_remote_def task_on_rq_queued_def Let_def)
qed

lemma waking_masked: "st AND TASK_WAKING = 0 \<Longrightarrow> state t AND st \<noteq> 0 \<Longrightarrow> state t \<noteq> TASK_WAKING"
  by (auto simp: and.commute)

lemma arrives_on_rq:
  assumes "arrives S S' p" "on_rq (tk S p) = 0"
  shows "on_rq (tk S' p) = TASK_ON_RQ_QUEUED \<or> on_rq (tk S' p) = 0 \<and> on_rq (tk S p) = 0"
  using assms waking_zero(1) [of S' p] unfolding arrives_def by blast

text \<open>
  \<open>try_to_wake_up\<close>: when the state matches, the task is queued or on the list of its processor afterwards.
\<close>

lemma try_to_wake_up_ok:
  assumes E: "find_ok E" "quiet_locks E" "others_ok E" "affinity_ok E" and m: "masks_ok S" and sys: "sys S"
    and st: "st AND TASK_WAKING = 0"
  shows "\<exists>S'. smp_try_to_wake_up E p st fl S = Some (state (tk S p) AND st \<noteq> 0, S') \<and> sys S' \<and>
    (state (tk S p) AND st \<noteq> 0 \<longrightarrow> arrives S S' p)"
proof (cases "state (tk S p) AND st = 0")
  case True
  then show ?thesis using sys by (simp add: smp_try_to_wake_up_def)
next
  case False
  have s0: "sys0 S" using sys by (simp add: sys_def)
  have u: "unlisted S p" by (rule unlisted_state [OF s0 waking_masked [OF st False]])
  have nz: "TASK_ON_RQ_QUEUED \<noteq> 0" by (simp add: TASK_ON_RQ_QUEUED_def)
  consider (queued) "on_rq (tk S p) = TASK_ON_RQ_QUEUED" | (off) "on_rq (tk S p) = 0" using sys by (auto simp: sys_def)
  then show ?thesis
  proof cases
    case queued
    obtain S' where S': "smp_ttwu_remote E p fl S = Some (True, S')" "wakened S S' p"
      using ttwu_remote_ok [OF E(1-3) s0 queued u] by blast
    have "sys S'" by (rule arrives_sys [OF sys wakened_arrives [OF S'(2)]]) (simp add: wakenedD(2) [OF S'(2)])
    then show ?thesis using S' queued nz False wakened_arrives [OF S'(2)] by (simp add: smp_try_to_wake_up_def)
  next
    case off
    have "\<not> on_cpu (tk S p)" using sys0D(4) [OF s0] sys off nz by (auto simp: place_wf_def sys_def)
    then obtain S' where S': "ttwu_place E p fl S = Some S'" "arrives S S' p"
      using ttwu_place_ok [OF E m s0 off _ u] by blast
    have "sys S'" by (rule arrives_sys [OF sys S'(2) arrives_on_rq [OF S'(2) off]])
    then show ?thesis using S' off False by (simp add: smp_try_to_wake_up_def)
  qed
qed

text \<open>The reschedule interrupt queues everything on the list of the processor.\<close>

lemma scheduler_ipi_ok:
  assumes E: "find_ok E" "quiet_locks E" "others_ok E" and sys: "sys S"
  shows "\<exists>S'. scheduler_ipi E S = Some S' \<and> sys S' \<and> q_wake_list (rqs S' (this_cpu S)) = [] \<and>
    (\<forall>p \<in> set (q_wake_list (rqs S (this_cpu S))). on_rq (tk S' p) = TASK_ON_RQ_QUEUED)"
proof -
  let ?S1 = "S\<lparr>resched_ipi := (resched_ipi S)(this_cpu S := False)\<rparr>"
  have "acct S ?S1" by simp
  then have c1: "calm S ?S1" using sys by (intro calm_acct) (simp_all add: sys_def sys0_def)
  have s1: "sys ?S1" by (rule calm_sys [OF c1 sys])
  then obtain S' where S': "sched_ttwu_pending E (this_cpu S) ?S1 = Some S'" "sys0 S'" "q_wake_list (rqs S' (this_cpu S)) = []"
    "\<forall>p \<in> set (q_wake_list (rqs S (this_cpu S))). on_rq (tk S' p) = TASK_ON_RQ_QUEUED"
    "\<forall>q. q \<notin> set (q_wake_list (rqs S (this_cpu S))) \<longrightarrow> on_rq (tk S' q) = on_rq (tk S q)"
    "\<forall>i. q_curr (rqs S' i) = q_curr (rqs S i)"
    using ttwu_pending_ok [OF E, of ?S1 "this_cpu S"] by (auto simp: sys_def)
  have o: "on_rq (tk S' q) = TASK_ON_RQ_QUEUED \<or> on_rq (tk S' q) = on_rq (tk S q)" for q using S'(4,5) by blast
  then have "sys S'" using S'(2,6) sys unfolding sys_def by metis
  then show ?thesis using S' s1 by (auto simp: scheduler_ipi_def Let_def)
qed


section \<open>Balancing\<close>

lemma rto_next_keeps:
  "rto_mask (snd (rto_next_cpu n d)) = rto_mask d" "rto_count (snd (rto_next_cpu n d)) = rto_count d"
  "rd_span (snd (rto_next_cpu n d)) = rd_span d"
  by (induction n d rule: rto_next_cpu.induct; subst rto_next_cpu.simps; simp add: Let_def)+

lemma rto_next_pair:
  "rto_next_cpu n d = (c, d') \<Longrightarrow> rto_mask d' = rto_mask d \<and> rto_count d' = rto_count d \<and> rd_span d' = rd_span d"
  using rto_next_keeps [of n d] by simp

lemma calm_domain:
  assumes "rt_sys S" "\<And>d. rto_mask (f d) = rto_mask d \<and> rto_count (f d) = rto_count d \<and> rd_span (f d) = rd_span d"
  shows "calm S (upd_rd S f)"
proof -
  let ?S = "upd_rd S f"
  have q: "cpu_queued ?S c = cpu_queued S c" "pushables ?S c = pushables S c" for c by (simp_all add: cpu_queued_def pushables_def)
  have "smp_inv ?S" using rt_sysD(1) [OF assms(1)] assms(2) by (simp add: smp_inv_def q member_wf_def rto_wf_def)
  moreover have "tasks_wf ?S" using rt_sysD(2) [OF assms(1)] by (simp add: tasks_wf_def q)
  moreover have "shifts S ?S" using assms(2) by (simp add: shifts_def moved_frame_def same_view_def same_static_def all_queued_def q)
  ultimately show ?thesis by (simp add: calm_def rt_sys_def)
qed

lemma irq_work_keeps: "rto_mask (irq_work_queue_on c d) = rto_mask d" "rto_count (irq_work_queue_on c d) = rto_count d"
  "rd_span (irq_work_queue_on c d) = rd_span d"
  by (simp_all add: irq_work_queue_on_def split: option.split)

lemma tell_cpu_calm: "rt_sys S \<Longrightarrow> calm S (tell_cpu_to_push S)"
  unfolding tell_cpu_to_push_def
  by (rule calm_domain)
     (auto simp: Let_def rto_start_trylock_def rto_start_unlock_def irq_work_keeps split: prod.split if_split dest!: rto_next_pair)

lemma pull_calm:
  assumes "quiet_locks E" "rt_sys S"
  shows "\<exists>S'. pull_rt_task E c S = Some S' \<and> calm S S'"
proof (cases "RT_PUSH_IPI E")
  case True
  then show ?thesis using calm_refl [OF assms(2)] tell_cpu_calm [OF assms(2)] by (auto simp: pull_rt_task_def Let_def)
next
  case False
  then show ?thesis using pull_rt_task_ok [OF assms(1) False assms(2), of c] pulledD(2) by (fastforce simp: calm_def)
qed

lemma callbacks_calm:
  assumes "find_ok E" "quiet_locks E"
  shows "rt_sys S \<Longrightarrow> \<exists>S'. run_callbacks E c hs S = Some S' \<and> calm S S'"
proof (induction hs arbitrary: S)
  case (Cons h hs)
  obtain S1 where S1: "(case h of rt_push_head \<Rightarrow> push_rt_tasks E c S | rt_pull_head \<Rightarrow> pull_rt_task E c S) = Some S1" "calm S S1"
    using push_calm [OF assms Cons.prems, of c] pull_calm [OF assms(2) Cons.prems, of c] by (cases h) auto
  then obtain S2 where "run_callbacks E c hs S1 = Some S2" "calm S1 S2" using Cons.IH [of S1] by (auto simp: calm_def)
  then show ?case using S1 calm_trans by auto
qed (simp add: calm_refl)

lemma acct_callbacks: "acct S (upd_rq S c (\<lambda>q. q\<lparr>q_balance_callback := l\<rparr>))"
  by (rule acct_rq) (simp_all add: keeps_rq_def same_queues_def cpu_others_def)

lemma balance_calm:
  assumes "find_ok E" "quiet_locks E" "rt_sys S"
  shows "\<exists>S'. balance_callback E c S = Some S' \<and> calm S S'"
proof -
  have c: "calm S (upd_rq S c (\<lambda>q. q\<lparr>q_balance_callback := []\<rparr>))" by (rule calm_acct [OF assms(3) acct_callbacks])
  then show ?thesis
    using callbacks_calm [OF assms(1,2), of _ c "q_balance_callback (rqs S c)"] calm_trans [OF c]
    unfolding balance_callback_def calm_def by blast
qed

lemma push_irq_calm:
  assumes "find_ok E" "quiet_locks E" "rt_sys S"
  shows "\<exists>S'. rto_push_irq_work_func E S = Some S' \<and> calm S S'"
proof -
  obtain S1 where S1: "(if has_pushable_tasks (this_cpu S) S then push_rt_tasks E (this_cpu S) S else Some S) = Some S1" "calm S S1"
    using push_calm [OF assms, of "this_cpu S"] calm_refl [OF assms(3)] by (cases "has_pushable_tasks (this_cpu S) S") auto
  let ?f = "\<lambda>d. case rto_next_cpu (nr_cpu_ids S1) d of (cpu, d) \<Rightarrow>
         if cpu < 0 then d\<lparr>rd_refcount := rd_refcount d - 1\<rparr> else irq_work_queue_on (nat cpu) d"
  have "calm S1 (upd_rd S1 ?f)"
    by (rule calm_domain) (use S1(2) in \<open>auto simp: calm_def irq_work_keeps split: prod.split if_split dest!: rto_next_pair\<close>)
  then show ?thesis using S1 calm_trans [OF S1(2)] by (auto simp: rto_push_irq_work_func_def)
qed


section \<open>Leaving a run queue\<close>

definition gone :: "('c, 'x) smp \<Rightarrow> ('c, 'x) smp \<Rightarrow> pid \<Rightarrow> int \<Rightarrow> bool" where
  "gone S S' p v \<longleftrightarrow> on_rq (tk S' p) = v \<and> (\<forall>q. q \<noteq> p \<longrightarrow> on_rq (tk S' q) = on_rq (tk S q)) \<and>
     (\<forall>q. state (tk S' q) = state (tk S q) \<and> sched_class (tk S' q) = sched_class (tk S q) \<and> on_cpu (tk S' q) = on_cpu (tk S q) \<and>
        task_cpu (tk S' q) = task_cpu (tk S q) \<and> prio (tk S' q) = prio (tk S q) \<and> rt_task (tk S' q) = rt_task (tk S q) \<and>
        tflags (tk S' q) = tflags (tk S q)) \<and>
     (\<forall>c. keeps_rq (rqs S c) (rqs S' c)) \<and> same_static S S' \<and> all_queued S' = all_queued S - {p}"

lemma goneD:
  assumes "gone S S' p v"
  shows "on_rq (tk S' p) = v" "q \<noteq> p \<Longrightarrow> on_rq (tk S' q) = on_rq (tk S q)"
    "state (tk S' q) = state (tk S q)" "sched_class (tk S' q) = sched_class (tk S q)" "on_cpu (tk S' q) = on_cpu (tk S q)"
    "task_cpu (tk S' q) = task_cpu (tk S q)" "prio (tk S' q) = prio (tk S q)" "rt_task (tk S' q) = rt_task (tk S q)"
    "q_curr (rqs S' c) = q_curr (rqs S c)" "q_idle (rqs S' c) = q_idle (rqs S c)" "q_wake_list (rqs S' c) = q_wake_list (rqs S c)"
    "same_static S S'" "all_queued S' = all_queued S - {p}" "tflags (tk S' q) = tflags (tk S q)"
    "q_stop (rqs S' c) = q_stop (rqs S c)" "q_dl_nr_running (rqs S' c) = q_dl_nr_running (rqs S c)"
  using assms by (simp_all add: gone_def keeps_rq_def)

lemma gone_sys0:
  assumes sys: "sys0 S" and g: "gone S S' p v" and inv: "smp_inv S'" and v: "v \<noteq> TASK_ON_RQ_QUEUED"
    and p: "on_rq (tk S p) = TASK_ON_RQ_QUEUED" "\<And>c. q_idle (rqs S c) \<noteq> p"
  shows "sys0 S'"
proof -
  note G = goneD [OF g] and rs = sys0D(1) [OF sys]
  have nz: "TASK_ON_RQ_QUEUED \<noteq> 0" by (simp add: TASK_ON_RQ_QUEUED_def)
  have u: "p \<notin> set (q_wake_list (rqs S c))" for c using waking_zero(1) [OF sys, of p c] p(1) nz by auto
  have "tasks_wf S'"
    unfolding tasks_wf_def
  proof (intro conjI allI impI)
    fix c q assume "q \<in> cpu_queued S' c"
    then have "q \<in> all_queued S" "q \<noteq> p" using G(13) by (auto simp: all_queued_def)
    then show "sched_class (tk S' q) = RtClass" "on_rq (tk S' q) = TASK_ON_RQ_QUEUED"
      using queuedD(2,3) [OF rs, of q] G(2,4) by (auto simp: all_queued_def)
  next
    fix q assume q: "on_rq (tk S' q) = TASK_ON_RQ_QUEUED" "rt_task (tk S' q)" "sched_class (tk S' q) \<noteq> StopClass"
    then have "q \<noteq> p" using G(1) v by auto
    then have "rt_on_rq (rt (tk S q))" using q G(2,4,8) rt_sysD(2) [OF rs] by (auto simp: tasks_wf_def)
    then have "q \<in> all_queued S'" using on_rq_all_queued [OF rt_sysD(3) [OF rs]] G(13) \<open>q \<noteq> p\<close> by auto
    then show "rt_on_rq (rt (tk S' q))" using on_rq_all_queued [OF smp_invD(4) [OF inv]] by blast
  next
    show "0 \<le> prio (tk S' q)" for q using rt_sysD(2) [OF rs] by (simp add: tasks_wf_def G(7))
  qed
  moreover have "class_wf S'" using sys0D(2) [OF sys] by (simp add: class_wf_def G)
  moreover have "wake_wf S'" using sys0D(3) [OF sys] u G(2) unfolding wake_wf_def waking_def G by metis
  moreover have "place_wf S'" using sys0D(4) [OF sys] by (simp add: place_wf_def G)
  moreover have "idle_wf S'" using idle_wfD [OF sys0D(5) [OF sys]] G(2) [OF p(2)] by (simp add: idle_wf_def Let_def G)
  ultimately show ?thesis using inv by (simp add: sys0_def rt_sys_def)
qed

lemma stays_gone:
  assumes "stays S S'" "all_queued S' = all_queued S - {p}"
  shows "gone S (upd_tk S' p (\<lambda>t. t\<lparr>on_rq := v\<rparr>)) p v"
proof -
  have mf: "moved_frame S S'" "task_cpu (tk S' q) = task_cpu (tk S q)" for q using assms(1) by (simp_all add: stays_def)
  have "all_queued (upd_tk S' p (\<lambda>t. t\<lparr>on_rq := v\<rparr>)) = all_queued S'" by (simp add: all_queued_def cpu_queued_def)
  then show ?thesis
    using assms(2) mf(2) moved_view [OF mf(1)] moved_rq [OF mf(1)] moved_frameD(2,3) [OF mf(1)] by (simp add: gone_def rt_task_def)
qed

text \<open>A queued task of the class is on its queues.\<close>

lemma queued_rt:
  assumes "sys0 S" "on_rq (tk S p) = TASK_ON_RQ_QUEUED" "sched_class (tk S p) = RtClass"
  shows "rt_on_rq (rt (tk S p))"
proof -
  have "rt_task (tk S p)" using sys0D(2) [OF assms(1)] assms(3) by (auto simp: class_wf_def rt_task_def rt_prio_def rt_prio_ok_def MAX_RT_PRIO_def)
  then show ?thesis using rt_sysD(2) [OF sys0D(1) [OF assms(1)]] assms(2,3) by (simp add: tasks_wf_def)
qed

lemma not_rt_queued: "rt_sys S \<Longrightarrow> sched_class (tk S p) \<noteq> RtClass \<Longrightarrow> p \<notin> all_queued S"
  using queuedD(2) [of S p] by (auto simp: all_queued_def)

lemma deactivate_ok:
  assumes E: "others_ok E" and sys: "sys0 S" and p: "on_rq (tk S p) = TASK_ON_RQ_QUEUED" "task_cpu (tk S p) = c" "\<And>i. q_idle (rqs S i) \<noteq> p"
    and mv: "move_entity flags" and v: "v \<noteq> TASK_ON_RQ_QUEUED"
  shows "\<exists>S'. smp_deactivate_task E c p flags S = Some S' \<and> sys0 (upd_tk S' p (\<lambda>t. t\<lparr>on_rq := v\<rparr>)) \<and>
    gone S (upd_tk S' p (\<lambda>t. t\<lparr>on_rq := v\<rparr>)) p v"
proof -
  define S1 where "S1 = (if task_contributes_to_load (tk S p)
        then upd_rq S c (\<lambda>q. q\<lparr>q_nr_uninterruptible := q_nr_uninterruptible q + 1\<rparr>) else S)"
  have a: "acct S S1" unfolding S1_def using acct_uninterruptible [of S c "\<lambda>q. q_nr_uninterruptible q + 1"] by simp
  have s1: "sys0 S1" by (rule calm_sys0 [OF calm_acct [OF sys0D(1) [OF sys] a] sys])
  have t: "tk S1 = tk S" by (simp add: S1_def)
  have q: "all_queued S1 = all_queued S" by (simp add: all_queued_def acct_queued [OF a])
  have pre: "if sched_class (tk S1 p) = RtClass then rt_on_rq (rt (tk S1 p)) else rt_sys S1"
    using queued_rt [OF s1, of p] p(1) sys0D(1) [OF s1] by (simp add: t)
  have pc: "task_cpu (tk S1 p) = c" using p(2) by (simp add: t)
  obtain S' where S': "smp_dequeue_task E c p flags S1 = Some S'" "smp_inv S'" "stays S1 S'"
    "all_queued S' = (if sched_class (tk S1 p) = RtClass then all_queued S1 - {p} else all_queued S1)"
    using dequeue_frame [OF E rt_sysD(1) [OF sys0D(1) [OF s1]] pc pre mv] by blast
  have "all_queued S' = all_queued S - {p}" using S'(4) not_rt_queued [OF sys0D(1) [OF s1], of p] by (auto simp: q)
  then have g: "gone S (upd_tk S' p (\<lambda>t. t\<lparr>on_rq := v\<rparr>)) p v"
    by (rule stays_gone [OF stays_trans [OF frame_stays [OF acct_frame [OF a]] S'(3)]])
  have "smp_inv (upd_tk S' p (\<lambda>t. t\<lparr>on_rq := v\<rparr>))" by (rule smp_inv_tasks [OF S'(2)]) simp_all
  then have "sys0 (upd_tk S' p (\<lambda>t. t\<lparr>on_rq := v\<rparr>))" using gone_sys0 [OF sys g _ v p(1,3)] by blast
  moreover have "smp_deactivate_task E c p flags S = Some S'" using S'(1) by (simp add: smp_deactivate_task_def S1_def)
  ultimately show ?thesis using g by blast
qed


section \<open>Going to sleep\<close>

lemma acct_begin_iowait: "acct S (smp_begin_iowait c p S)"
  unfolding smp_begin_iowait_def
  by (simp, intro impI acct_rq) (simp_all add: keeps_rq_def same_queues_def cpu_others_def)

lemma wake_local_ok:
  assumes E: "find_ok E" "quiet_locks E" "others_ok E" and sys: "sys0 S"
  shows "\<exists>S'. smp_try_to_wake_up_local E p S = Some S' \<and> (S' = S \<or> p \<noteq> q_curr (rqs S (this_cpu S)) \<and> wakened S S' p)"
proof (cases "task_cpu (tk S p) \<noteq> this_cpu S \<or> p = q_curr (rqs S (task_cpu (tk S p))) \<or> state (tk S p) AND TASK_NORMAL = 0")
  case True
  then show ?thesis by (auto simp: smp_try_to_wake_up_local_def Let_def)
next
  case False
  let ?c = "task_cpu (tk S p)"
  have "TASK_NORMAL AND TASK_WAKING = 0" by code_simp
  then have u: "unlisted S p" using unlisted_state [OF sys waking_masked] False by blast
  have pc: "p \<noteq> q_curr (rqs S (this_cpu S))" using False by auto
  have "\<exists>S1. (if task_on_rq_queued (tk S p) then Some S
       else smp_ttwu_activate E ?c p (ENQUEUE_WAKEUP OR ENQUEUE_NOCLOCK) (smp_end_iowait p S)) = Some S1 \<and>
      wakened S S1 p \<and> (rt_on_rq (rt (tk S1 p)) \<longrightarrow> task_cpu (tk S1 p) = ?c)"
  proof (cases "task_on_rq_queued (tk S p)")
    case True
    then show ?thesis using wakened_refl [OF sys] by (simp add: task_on_rq_queued_def)
  next
    case q: False
    define S0 where "S0 = smp_end_iowait p S"
    have a: "acct S S0" unfolding S0_def smp_end_iowait_def
      by (simp, intro impI acct_rq) (simp_all add: keeps_rq_def same_queues_def cpu_others_def)
    have c: "calm S S0" by (rule calm_acct [OF sys0D(1) [OF sys] a])
    have t: "tk S0 = tk S" by (simp add: S0_def smp_end_iowait_def)
    have "on_rq (tk S0 p) \<noteq> TASK_ON_RQ_QUEUED" "task_cpu (tk S0 p) = ?c" "unlisted S0 p"
      using q u calm_on_rq(3) [OF c] by (simp_all add: t task_on_rq_queued_def unlisted_def)
    from ttwu_activate_ok [OF E(3) calm_sys0 [OF c sys] this move_wakeup(1)] obtain S1 where
      "smp_ttwu_activate E ?c p (ENQUEUE_WAKEUP OR ENQUEUE_NOCLOCK) S0 = Some S1" "wakened S0 S1 p" "task_cpu (tk S1 p) = ?c" by blast
    then show ?thesis using q wakened_after [OF c sys0D(1) [OF sys]] by (auto simp: S0_def)
  qed
  then obtain S1 where S1: "(if task_on_rq_queued (tk S p) then Some S
       else smp_ttwu_activate E ?c p (ENQUEUE_WAKEUP OR ENQUEUE_NOCLOCK) (smp_end_iowait p S)) = Some S1"
    "wakened S S1 p" "rt_on_rq (rt (tk S1 p)) \<longrightarrow> task_cpu (tk S1 p) = ?c" by blast
  obtain S2 where S2: "smp_ttwu_do_wakeup E ?c p 0 S1 = Some S2" "wakened S S2 p" using do_wakeup_ok [OF E S1(2) u S1(3)] by blast
  then show ?thesis using S1(1) False pc
    by (cases "task_on_rq_queued (tk S p)") (auto simp: smp_try_to_wake_up_local_def Let_def)
qed

text \<open>The state between the two halves of \<open>__schedule\<close>: only the previous task may have left its queue.\<close>

definition mid :: "cpu \<Rightarrow> ('c, 'x) smp \<Rightarrow> bool" where
  "mid c S \<longleftrightarrow> sys0 S \<and> (\<forall>i. i \<noteq> c \<longrightarrow> on_rq (tk S (q_curr (rqs S i))) = TASK_ON_RQ_QUEUED) \<and>
     (\<forall>p. on_rq (tk S p) = 0 \<or> on_rq (tk S p) = TASK_ON_RQ_QUEUED)"

lemma midD: "mid c S \<Longrightarrow> sys0 S" "mid c S \<Longrightarrow> rt_sys S"
  by (simp_all add: mid_def sys0_def)

lemma sys_mid: "sys S \<Longrightarrow> mid c S"
  by (simp add: sys_def mid_def)

lemma mid_calm: "calm S S' \<Longrightarrow> mid c S \<Longrightarrow> mid c S'"
  using calm_sys0 [of S S'] calm_on_rq [of S S'] by (simp add: mid_def)

lemma mid_wakened:
  assumes "wakened S S' p" "mid c S"
  shows "mid c S'"
proof -
  note W = wakenedD [OF assms(1)]
  have "on_rq (tk S' q) = TASK_ON_RQ_QUEUED \<or> on_rq (tk S' q) = on_rq (tk S q)" for q using W(2) W(3) [of q] by (cases "q = p") auto
  then show ?thesis using assms(2) W(1,8) unfolding mid_def by metis
qed

lemma leaves_mid: "leaves_rt S S' \<Longrightarrow> mid c S \<Longrightarrow> mid c S'"
  using mid_calm calm_leaves midD(2) by blast

text \<open>No stop task and no deadline task wants the processor.\<close>

definition no_urgent :: "('c, 'x) smp \<Rightarrow> cpu \<Rightarrow> bool" where
  "no_urgent S c \<longleftrightarrow> (\<forall>s \<in> set_option (q_stop (rqs S c)). \<not> task_on_rq_queued (tk S s)) \<and> q_dl_nr_running (rqs S c) = 0"

lemma no_urgent_calm: "calm S S' \<Longrightarrow> no_urgent S' c = no_urgent S c"
  using moved_frameD(2) [OF shiftsD(1), of S S' c] calm_on_rq(1) [of S S']
  by (simp add: calm_def no_urgent_def keeps_rq_def task_on_rq_queued_def)

lemma sleep_ok:
  assumes E: "find_ok E" "quiet_locks E" "others_ok E" and sys: "sys S" and c: "c = this_cpu S"
    and p: "prev = q_curr (rqs S c)" "prev \<noteq> q_idle (rqs S c)"
  shows "\<exists>S'. smp_sleep_task E c prev S = Some S' \<and> mid c S' \<and> q_curr (rqs S' c) = prev \<and> on_rq (tk S' prev) = 0 \<and>
    this_cpu S' = c \<and> (tflags (tk S prev) AND PF_WQ_WORKER = 0 \<longrightarrow> no_urgent S c \<longrightarrow> no_urgent S' c)"
proof -
  have s0: "sys0 S" and on: "on_rq (tk S prev) = TASK_ON_RQ_QUEUED" using sys p(1) by (simp_all add: sys_def)
  have tc: "task_cpu (tk S prev) = c" using sys0D(4) [OF s0] p(1) by (simp add: place_wf_def)
  have ni: "q_idle (rqs S i) \<noteq> prev" for i using idle_wfD(2) [OF sys0D(5) [OF s0], of i] tc p(2) by auto
  have nz: "(0::int) \<noteq> TASK_ON_RQ_QUEUED" by (simp add: TASK_ON_RQ_QUEUED_def)
  let ?off = "\<lambda>S. upd_tk S prev (\<lambda>t. t\<lparr>on_rq := 0\<rparr>)"
  obtain S1 where S1: "smp_deactivate_task E c prev (DEQUEUE_SLEEP OR DEQUEUE_NOCLOCK) S = Some S1" "sys0 (?off S1)" "gone S (?off S1) prev 0"
    using deactivate_ok [OF E(3) s0 on tc ni move_wakeup(3) nz] by blast
  note G = goneD [OF S1(3)]
  have "q_curr (rqs S i) \<noteq> prev" if "i \<noteq> c" for i using place_unique [OF sys0D(4) [OF s0], of i c] p(1) that by auto
  then have m1: "mid c (?off S1)" using S1(2) sys G(1,2,9) unfolding mid_def sys_def by metis
  define S2 where "S2 = smp_begin_iowait c prev (?off S1)"
  have "acct (?off S1) S2" unfolding S2_def by (rule acct_begin_iowait)
  then have c2: "calm (?off S1) S2" by (rule calm_acct [OF midD(2) [OF m1]])
  have m2: "mid c S2" by (rule mid_calm [OF c2 m1])
  have t2: "q_curr (rqs S2 c) = prev" "on_rq (tk S2 prev) = 0" "this_cpu S2 = c"
    using calm_on_rq(1,2,4) [OF c2] G(1,9,12) p(1) c by (simp_all add: same_static_def)
  obtain q S3 where S3: "smp_wq_worker_sleeping E prev S2 = (q, S3)" by fastforce
  have c3: "calm S2 S3" using calm_leaves [OF midD(2) [OF m2]] others_okD(8) [OF E(3) midD(2) [OF m2], of prev] S3 by simp
  have m3: "mid c S3" by (rule mid_calm [OF c3 m2])
  have t3: "q_curr (rqs S3 c) = prev" "on_rq (tk S3 prev) = 0" "this_cpu S3 = c" using calm_on_rq(1,2,4) [OF c3] t2 by simp_all
  have "\<exists>S'. (case q of None \<Rightarrow> Some S3 | Some x \<Rightarrow> smp_try_to_wake_up_local E x S3) = Some S' \<and> mid c S' \<and> q_curr (rqs S' c) = prev \<and>
      on_rq (tk S' prev) = 0 \<and> this_cpu S' = c"
  proof (cases q)
    case (Some x)
    from wake_local_ok [OF E midD(1) [OF m3], of x] obtain S' where S': "smp_try_to_wake_up_local E x S3 = Some S'"
      "S' = S3 \<or> x \<noteq> q_curr (rqs S3 (this_cpu S3)) \<and> wakened S3 S' x" by blast
    then show ?thesis
      using Some m3 t3 mid_wakened [OF _ m3, of S' x] wakenedD(3,8,10) [of S3 S' x] by auto
  qed (use m3 t3 in simp)
  moreover have "tflags (tk S2 prev) = tflags (tk S prev)"
    using G(14) [of prev] moved_rq(7) [OF shiftsD(1), of "?off S1" S2 prev] c2 by (simp add: calm_def)
  moreover have "no_urgent S c \<Longrightarrow> no_urgent S2 c"
    unfolding no_urgent_calm [OF c2] using G(1,2,15,16) nz unfolding no_urgent_def task_on_rq_queued_def by metis
  ultimately show ?thesis using S1(1) m2 t2 S3
    by (cases "tflags (tk S2 prev) AND PF_WQ_WORKER = 0") (simp_all add: smp_sleep_task_def smp_worker_asleep_def Let_def S2_def)
qed


section \<open>Choosing the next task\<close>

text \<open>The tasks of a processor that may be moved.\<close>

definition movable :: "('c, 'x) smp \<Rightarrow> cpu \<Rightarrow> pid set" where
  "movable S c = {q \<in> cpu_queued S c. migratable (tk S q)}"

lemma movable_pushables: "movable S c - {q_curr (rqs S c)} = pushables S c"
  by (auto simp: movable_def pushables_def)

lemma stays_view:
  assumes "stays S S'"
  shows "migratable (tk S' q) = migratable (tk S q)" "prio (tk S' q) = prio (tk S q)" "task_cpu (tk S' q) = task_cpu (tk S q)"
    "on_rq (tk S' q) = on_rq (tk S q)" "q_curr (rqs S' c) = q_curr (rqs S c)" "sched_class (tk S' q) = sched_class (tk S q)"
  using assms moved_view [of S S'] moved_rq [of S S'] by (simp_all add: stays_def)

lemma stays_refl [simp]: "stays S S"
  by (simp add: stays_def)

text \<open>After \<open>put_prev_task\<close> the list of pushable tasks holds the previous task too.\<close>

lemma put_prev_ok:
  assumes E: "others_ok E" and sys: "rt_sys S" and prev: "prev = q_curr (rqs S c)" "task_cpu (tk S prev) = c"
  shows "\<exists>S'. smp_put_prev_task E c prev S = Some S' \<and> smp_inv_x S' c (movable S c) \<and> stays S S' \<and> (\<forall>i. cpu_queued S' i = cpu_queued S i)"
proof (cases "sched_class (tk S prev) = RtClass")
  case True
  have inv: "smp_inv_x S c (pushables S c)" using rt_sysD(1) [OF sys] by (simp only: smp_inv_iff [of S c])
  obtain S1 where S1: "smp_update_curr_rt E c S = Some S1" "acct S S1"
    using acct_update_curr [OF smp_inv_xB(1,2) [OF inv]] by blast
  note k = keeps_taskD [OF acctD(1) [OF S1(2)], of prev] and q = acct_queued [OF S1(2)]
  have inv1: "smp_inv_x S1 c (pushables S c)" by (rule acct_inv_x [OF S1(2) inv])
  have on: "rt_on_rq (rt (tk S1 prev)) \<longleftrightarrow> prev \<in> cpu_queued S c"
    using queued_on [OF rt_sysD(3) [OF sys], of prev c] acctD(2) [OF S1(2), of prev] prev(2) by auto
  show ?thesis
  proof (cases "rt_on_rq (rt (tk S1 prev)) \<and> nr_cpus_allowed (tk S1 prev) > 1")
    case put: True
    let ?S2 = "enqueue_pushable_task c prev S1"
    have e: "smp_put_prev_task E c prev S = Some ?S2" using True S1(1) put by (simp add: smp_put_prev_task_def smp_put_prev_task_rt_def)
    have pq: "prev \<in> cpu_queued S c" using put on by simp
    have pr: "rt_prio_ok (prio (tk S1 prev))" using queuedD(4) [OF sys pq] k(1) by simp
    have np: "prev \<notin> pushables S c" using prev by (simp add: pushables_def)
    have "smp_inv_x ?S2 c (insert prev (pushables S c))" by (rule enqueue_pushable_inv [OF inv1 np pr])
    moreover have "insert prev (pushables S c) = movable S c"
      using pq put k(2) prev by (auto simp: movable_def pushables_def migratable_def)
    ultimately show ?thesis using e frame_stays [OF smp_frame_trans [OF acct_frame [OF S1(2)] pushable_frame(1)]] q by simp
  next
    case keep: False
    have e: "smp_put_prev_task E c prev S = Some S1" using True S1(1) keep by (auto simp: smp_put_prev_task_def smp_put_prev_task_rt_def)
    have "movable S c = pushables S c"
      using keep on k(2) prev by (auto simp: movable_def pushables_def migratable_def)
    then show ?thesis using e inv1 frame_stays [OF acct_frame [OF S1(2)]] q by simp
  qed
next
  case False
  obtain S1 where S1: "o_put_prev E (sched_class (tk S prev)) c prev S = Some S1" "leaves_rt S S1"
    using others_okD(3) [OF E sys False] by blast
  have "prev \<notin> cpu_queued S c" using not_rt_queued [OF sys False] by (auto simp: all_queued_def)
  then have "movable S c = pushables S c" using prev by (auto simp: movable_def pushables_def)
  moreover have "smp_inv_x S1 c (pushables S c)"
    using leaves_inv_x [OF S1(2), of c "pushables S c"] rt_sysD(1) [OF sys] by (simp only: smp_inv_iff [of S c])
  ultimately show ?thesis using S1 False leaves_stays [OF S1(2)] leaves_queued [OF S1(2)] by (simp add: smp_put_prev_task_def)
qed

text \<open>What a choice leaves behind, before the running task is changed.\<close>

definition chosen :: "('c, 'x) smp \<Rightarrow> ('c, 'x) smp \<Rightarrow> cpu \<Rightarrow> pid \<Rightarrow> bool" where
  "chosen S S' c p \<longleftrightarrow> smp_inv_x S' c (movable S' c - {p}) \<and> stays S S' \<and> (\<forall>i. cpu_queued S' i = cpu_queued S i) \<and>
     on_rq (tk S' p) = TASK_ON_RQ_QUEUED \<and> task_cpu (tk S' p) = c"

lemma movable_cong: "stays S S' \<Longrightarrow> cpu_queued S' c = cpu_queued S c \<Longrightarrow> movable S' c = movable S c"
  by (simp add: movable_def stays_view(1))

lemma acct_queue_callback: "acct S (queue_balance_callback c h S)"
  unfolding queue_balance_callback_def
  by (simp, intro impI acct_rq) (simp_all add: keeps_rq_def same_queues_def cpu_others_def)

lemma acct_queue_push: "acct S (rt_queue_push_tasks c S)"
  using acct_queue_callback [of S c rt_push_head] by (simp add: rt_queue_push_tasks_def)

lemma pick_rt_head_ok:
  assumes inv: "smp_inv_x S c X" and q: "cpu_queued S c \<noteq> {}"
  shows "\<exists>p S'. smp_pick_rt_head c S = Some (p, S') \<and> acct S S' \<and> p \<in> cpu_queued S c \<and> (\<forall>x \<in> cpu_queued S c. prio (tk S p) \<le> prio (tk S x))"
proof -
  note wf = smp_inv_xD(1) [OF inv, of c]
  let ?i = "find_first_bit (cpu_bitmap S c)"
  obtain y where y: "linked y (cpu_queues S c)" using q by (auto simp: cpu_queued_def)
  have h: "highest_curr (rtr S c) = int ?i" by (rule arr_wfD(10) [OF wf])
  have "rt_prio_ok (prio (tk S y))" using arr_wfD(12) [OF wf y] by simp
  then have lt: "?i < 100" using highest_curr_iff(1) [OF wf y] h by (simp add: rt_prio_ok_def)
  have "find_first_bit bs < length bs \<Longrightarrow> bs ! find_first_bit bs" for bs by (induction bs) auto
  then have "cpu_bitmap S c ! ?i" using arr_wfD(4) [OF wf] lt by simp
  then have "cpu_queues S c ! ?i \<noteq> []" using arr_wfD(6) [OF wf lt] by simp
  then obtain p ps where p: "cpu_queues S c ! ?i = p # ps" by (cases "cpu_queues S c ! ?i") auto
  then have l: "linked p (cpu_queues S c)" using lt arr_wfD(1) [OF wf] by (auto simp: linked_nth intro!: exI [of _ ?i])
  have "nat (prio (tk S p)) = ?i" using p lt arr_wfD(1,2) [OF wf] by (auto simp: levelled_def)
  then have "prio (tk S p) = highest_curr (rtr S c)" using h arr_wfD(12) [OF wf l] by (auto simp: rt_prio_ok_def)
  then have best: "\<forall>x \<in> cpu_queued S c. prio (tk S p) \<le> prio (tk S x)" using highest_curr_iff(1) [OF wf] by (simp add: cpu_queued_def)
  let ?S = "upd_tk S p (\<lambda>t. t\<lparr>se := (se t)\<lparr>exec_start := q_clock_task (rqs S c)\<rparr>\<rparr>)"
  have "acct S ?S" by (rule acct_task) simp_all
  moreover have "smp_pick_rt_head c S = Some (p, ?S)" using p lt by (simp add: smp_pick_rt_head_def Let_def)
  ultimately show ?thesis using best l by (auto simp: cpu_queued_def)
qed

lemma pick_rt_now_ok:
  assumes E: "others_ok E" and sys: "rt_sys S" and prev: "prev = q_curr (rqs S c)" "task_cpu (tk S prev) = c"
  shows "\<exists>r S'. pick_rt_now E c prev S = Some (r, S') \<and>
    (r = NoTask \<and> calm S S' \<or>
     (\<exists>p. r = Picked p \<and> chosen S S' c p \<and> p \<in> cpu_queued S c \<and> (\<forall>q \<in> cpu_queued S c. prio (tk S p) \<le> prio (tk S q))))"
proof -
  obtain S1 where S1: "(if sched_class (tk S prev) = RtClass then smp_update_curr_rt E c S else Some S) = Some S1" "acct S S1"
  proof (cases "sched_class (tk S prev) = RtClass")
    case True
    have inv: "smp_inv_x S c (pushables S c)" using rt_sysD(1) [OF sys] by (simp only: smp_inv_iff [of S c])
    show ?thesis using acct_update_curr [OF smp_inv_xB(1,2) [OF inv], of E c] that True by auto
  qed (use that in simp)
  have sys1: "rt_sys S1" by (rule acct_sys [OF S1(2) sys])
  have st1: "stays S S1" by (rule frame_stays [OF acct_frame [OF S1(2)]])
  show ?thesis
  proof (cases "rt_queued (rtr S1 c)")
    case False
    then show ?thesis using S1 calm_acct [OF sys S1(2)] by (simp add: pick_rt_now_def)
  next
    case True
    have prev1: "prev = q_curr (rqs S1 c)" "task_cpu (tk S1 prev) = c" using prev stays_view(3,5) [OF st1] by simp_all
    obtain S2 where S2: "smp_put_prev_task E c prev S1 = Some S2" "smp_inv_x S2 c (movable S1 c)" "stays S1 S2" "\<forall>i. cpu_queued S2 i = cpu_queued S1 i"
      using put_prev_ok [OF E sys1 prev1] by blast
    have "\<exists>p S3. smp_pick_rt_head c S2 = Some (p, S3) \<and> acct S2 S3 \<and> p \<in> cpu_queued S2 c \<and> (\<forall>x \<in> cpu_queued S2 c. prio (tk S2 p) \<le> prio (tk S2 x))"
    proof (rule pick_rt_head_ok [OF S2(2)])
      have "rt_nr_running (rtr S1 c) \<noteq> 0" using smp_invD(3) [OF rt_sysD(1) [OF sys1], of c] True by (simp add: top_wf_def)
      then show "cpu_queued S2 c \<noteq> {}" using arr_empty [OF rt_sysD(4) [OF sys1, of c]] S2(4) by (simp add: cpu_queued_def)
    qed
    then obtain p S3 where S3: "smp_pick_rt_head c S2 = Some (p, S3)" "acct S2 S3" "p \<in> cpu_queued S2 c"
      "\<forall>x \<in> cpu_queued S2 c. prio (tk S2 p) \<le> prio (tk S2 x)" by blast
    let ?S4 = "dequeue_pushable_task c p S3" let ?S5 = "rt_queue_push_tasks c ?S4"
    have i4: "smp_inv_x ?S4 c (movable S1 c - {p})" by (rule dequeue_pushable_inv [OF acct_inv_x [OF S3(2) S2(2)]])
    have i5: "smp_inv_x ?S5 c (movable S1 c - {p})" by (rule acct_inv_x [OF acct_queue_push i4])
    have q: "cpu_queued ?S5 i = cpu_queued S i" for i
      using acct_queued [OF acct_queue_push, of c ?S4 i] acct_queued [OF S3(2), of i] S2(4) acct_queued [OF S1(2)] by simp
    have st: "stays S1 ?S5"
      using stays_trans [OF S2(3) frame_stays [OF smp_frame_trans [OF smp_frame_trans [OF acct_frame [OF S3(2)] pushable_frame(2)] acct_frame [OF acct_queue_push]]]] .
    have s: "stays S ?S5" by (rule stays_trans [OF st1 st])
    have mv: "movable ?S5 c = movable S1 c" by (rule movable_cong [OF st]) (use q [of c] acct_queued [OF S1(2), of c] in simp)
    have pq: "p \<in> cpu_queued S c" "\<forall>x \<in> cpu_queued S c. prio (tk S p) \<le> prio (tk S x)"
      using S3(3,4) S2(4) acct_queued [OF S1(2)] stays_view(2) [OF stays_trans [OF st1 S2(3)]] by simp_all
    have "chosen S ?S5 c p"
      unfolding chosen_def mv using i5 s q queuedD(1,3) [OF sys pq(1)] stays_view(3,4) [OF s, of p] by simp
    moreover have "pick_rt_now E c prev S = Some (Picked p, ?S5)" using S1(1) True S2(1) S3(1) by (simp add: pick_rt_now_def)
    ultimately show ?thesis using pq by blast
  qed
qed

text \<open>
  The contract of the other classes' \<open>pick_next_task\<close>: it returns a queued task of the class after a call of
  \<open>put_prev_task\<close>, or nothing; the idle class always has one.
\<close>

definition pick_ok :: "('c, 'x, 'e) senv2_scheme \<Rightarrow> bool" where
  "pick_ok E \<longleftrightarrow> (\<forall>S c cls. mid c S \<longrightarrow> cls \<noteq> RtClass \<longrightarrow>
     (\<exists>r S'. o_pick E cls (smp_put_prev_task E c) c (q_curr (rqs S c)) S = Some (r, S') \<and>
        (r = NoTask \<and> leaves_rt S S' \<and> cls \<noteq> IdleClass \<or>
         (\<exists>p S1 S2. r = Picked p \<and> sched_class (tk S p) = cls \<and> on_rq (tk S p) = TASK_ON_RQ_QUEUED \<and> task_cpu (tk S p) = c \<and>
            leaves_rt S S1 \<and> smp_put_prev_task E c (q_curr (rqs S c)) S1 = Some S2 \<and> leaves_rt S2 S'))))"

lemma mid_place: "mid c S \<Longrightarrow> task_cpu (tk S (q_curr (rqs S c))) = c"
  using sys0D(4) [OF midD(1), of c S] by (simp add: place_wf_def)

lemma other_pick_ok:
  assumes E: "others_ok E" "pick_ok E" and m: "mid c S" and cls: "cls \<noteq> RtClass"
  shows "\<exists>r S'. o_pick E cls (smp_put_prev_task E c) c (q_curr (rqs S c)) S = Some (r, S') \<and>
    (r = NoTask \<and> calm S S' \<and> cls \<noteq> IdleClass \<or> (\<exists>p. r = Picked p \<and> chosen S S' c p))"
proof -
  obtain r S' where e: "o_pick E cls (smp_put_prev_task E c) c (q_curr (rqs S c)) S = Some (r, S')"
    and d: "r = NoTask \<and> leaves_rt S S' \<and> cls \<noteq> IdleClass \<or>
         (\<exists>p S1 S2. r = Picked p \<and> sched_class (tk S p) = cls \<and> on_rq (tk S p) = TASK_ON_RQ_QUEUED \<and> task_cpu (tk S p) = c \<and>
            leaves_rt S S1 \<and> smp_put_prev_task E c (q_curr (rqs S c)) S1 = Some S2 \<and> leaves_rt S2 S')"
    using E(2) m cls unfolding pick_ok_def by meson
  from d show ?thesis
  proof
    assume "r = NoTask \<and> leaves_rt S S' \<and> cls \<noteq> IdleClass"
    then show ?thesis using e calm_leaves [OF midD(2) [OF m]] by blast
  next
    assume "\<exists>p S1 S2. r = Picked p \<and> sched_class (tk S p) = cls \<and> on_rq (tk S p) = TASK_ON_RQ_QUEUED \<and> task_cpu (tk S p) = c \<and>
            leaves_rt S S1 \<and> smp_put_prev_task E c (q_curr (rqs S c)) S1 = Some S2 \<and> leaves_rt S2 S'"
    then obtain p S1 S2 where p: "r = Picked p" "sched_class (tk S p) = cls" "on_rq (tk S p) = TASK_ON_RQ_QUEUED" "task_cpu (tk S p) = c"
      and l: "leaves_rt S S1" "smp_put_prev_task E c (q_curr (rqs S c)) S1 = Some S2" "leaves_rt S2 S'" by blast
    have m1: "mid c S1" by (rule leaves_mid [OF l(1) m])
    have cur: "q_curr (rqs S c) = q_curr (rqs S1 c)" using stays_view(5) [OF leaves_stays [OF l(1)]] by simp
    obtain S3 where S3: "smp_put_prev_task E c (q_curr (rqs S1 c)) S1 = Some S3" "smp_inv_x S3 c (movable S1 c)" "stays S1 S3"
      "\<forall>i. cpu_queued S3 i = cpu_queued S1 i"
      using put_prev_ok [OF E(1) midD(2) [OF m1] refl mid_place [OF m1]] by blast
    have S23: "S3 = S2" using l(2) S3(1) cur by simp
    have st: "stays S S'" by (rule stays_trans [OF leaves_stays [OF l(1)] stays_trans [OF S3(3) [unfolded S23] leaves_stays [OF l(3)]]])
    have q: "cpu_queued S' i = cpu_queued S i" for i using leaves_queued [OF l(3)] leaves_queued [OF l(1)] S3(4) S23 by simp
    have "movable S' c = movable S1 c" by (rule movable_cong [OF stays_trans [OF S3(3) [unfolded S23] leaves_stays [OF l(3)]]])
        (use q [of c] leaves_queued [OF l(1), of c] in simp)
    moreover have "p \<notin> movable S1 c"
      using not_rt_queued [OF midD(2) [OF m], of p] p(2) cls leaves_queued [OF l(1), of c] by (auto simp: movable_def all_queued_def)
    ultimately have "smp_inv_x S' c (movable S' c - {p})" using leaves_inv_x [OF l(3) S3(2) [unfolded S23]] by simp
    then have "chosen S S' c p" using st q p(3,4) stays_view(3,4) [OF st, of p] by (simp add: chosen_def)
    then show ?thesis using e p(1) by blast
  qed
qed

text \<open>One pass over the classes, then all of \<open>pick_next_task\<close>. Without a stop or deadline task it ends.\<close>

definition settles :: "('c, 'x) smp \<Rightarrow> ('c, 'x) smp \<Rightarrow> cpu \<Rightarrow> pid \<Rightarrow> bool" where
  "settles S S' c p \<longleftrightarrow> (\<exists>S0. calm S S0 \<and> chosen S0 S' c p)"

lemma pick_rt_ok:
  assumes E: "quiet_locks E" "others_ok E" and m: "mid c S" and prev: "prev = q_curr (rqs S c)"
  shows "\<exists>r S'. smp_pick_next_task_rt E c prev S = Some (r, S') \<and>
    (r = NoTask \<and> calm S S' \<or> (\<exists>p. r = Picked p \<and> settles S S' c p) \<or> r = RETRY_TASK \<and> calm S S' \<and> \<not> no_urgent S c)"
proof -
  have now: "\<exists>r S'. pick_rt_now E c prev S1 = Some (r, S') \<and> (r = NoTask \<and> calm S S' \<or> (\<exists>p. r = Picked p \<and> settles S S' c p))"
    if c: "calm S S1" for S1
  proof -
    have m1: "mid c S1" by (rule mid_calm [OF c m])
    have p1: "prev = q_curr (rqs S1 c)" using prev calm_on_rq(2) [OF c] by simp
    have "task_cpu (tk S1 prev) = c" using mid_place [OF m1] p1 by simp
    from pick_rt_now_ok [OF E(2) midD(2) [OF m1] p1 this] show ?thesis using calm_trans [OF c] c unfolding settles_def by blast
  qed
  show ?thesis
  proof (cases "need_pull_rt_task c prev S")
    case True
    obtain S1 where S1: "pull_rt_task E c S = Some S1" "calm S S1" using pull_calm [OF E(1) midD(2) [OF m]] by blast
    then show ?thesis using True now [OF S1(2)] no_urgent_calm [OF S1(2), of c]
      by (auto simp: smp_pick_next_task_rt_def no_urgent_def)
  next
    case False
    then show ?thesis using now [OF calm_refl [OF midD(2) [OF m]]] by (auto simp: smp_pick_next_task_rt_def)
  qed
qed

lemma settles_calm: "calm S S1 \<Longrightarrow> settles S1 S' c p \<Longrightarrow> settles S S' c p"
  using calm_trans unfolding settles_def by blast

lemma pick_from_ok:
  assumes E: "quiet_locks E" "others_ok E" "pick_ok E"
  shows "mid c S \<Longrightarrow> prev = q_curr (rqs S c) \<Longrightarrow> IdleClass \<in> set cs \<Longrightarrow>
    \<exists>r S'. smp_pick_from E cs c prev S = Some (r, S') \<and>
      ((\<exists>p. r = Picked p \<and> settles S S' c p) \<or> r = RETRY_TASK \<and> calm S S' \<and> \<not> no_urgent S c)"
proof (induction cs arbitrary: S)
  case (Cons cls cs)
  have "\<exists>r S1. (if cls = RtClass then smp_pick_next_task_rt E c prev S else o_pick E cls (smp_put_prev_task E c) c prev S) = Some (r, S1) \<and>
      (r = NoTask \<and> calm S S1 \<and> cls \<noteq> IdleClass \<or> (\<exists>p. r = Picked p \<and> settles S S1 c p) \<or> r = RETRY_TASK \<and> calm S S1 \<and> \<not> no_urgent S c)"
  proof (cases "cls = RtClass")
    case True
    then show ?thesis using pick_rt_ok [OF E(1,2) Cons.prems(1,2)] by auto
  next
    case False
    then show ?thesis
      using other_pick_ok [OF E(2,3) Cons.prems(1) False] calm_refl [OF midD(2) [OF Cons.prems(1)]] Cons.prems(2)
      unfolding settles_def by simp blast
  qed
  then obtain r S1 where S1: "(if cls = RtClass then smp_pick_next_task_rt E c prev S else o_pick E cls (smp_put_prev_task E c) c prev S) = Some (r, S1)"
    "r = NoTask \<and> calm S S1 \<and> cls \<noteq> IdleClass \<or> (\<exists>p. r = Picked p \<and> settles S S1 c p) \<or> r = RETRY_TASK \<and> calm S S1 \<and> \<not> no_urgent S c" by blast
  show ?case
  proof (cases "r = NoTask")
    case True
    then have c: "calm S S1" "cls \<noteq> IdleClass" using S1(2) by auto
    have "prev = q_curr (rqs S1 c)" using Cons.prems(2) calm_on_rq(2) [OF c(1)] by simp
    from Cons.IH [OF mid_calm [OF c(1) Cons.prems(1)] this] obtain r' S' where S': "smp_pick_from E cs c prev S1 = Some (r', S')"
      "(\<exists>p. r' = Picked p \<and> settles S1 S' c p) \<or> r' = RETRY_TASK \<and> calm S1 S' \<and> \<not> no_urgent S1 c" using Cons.prems(3) c(2) by auto
    then have "(\<exists>p. r' = Picked p \<and> settles S S' c p) \<or> r' = RETRY_TASK \<and> calm S S' \<and> \<not> no_urgent S c"
      using settles_calm [OF c(1)] calm_trans [OF c(1)] no_urgent_calm [OF c(1), of c] by blast
    then show ?thesis using S1(1) S'(1) True by auto
  next
    case False
    then show ?thesis using S1 by auto
  qed
qed simp

lemmas smp_pick_again_induct = smp_pick_again.raw_induct [rotated, consumes 1, case_names step]

lemma smp_pick_again_once:
  assumes "smp_pick_from E smp_for_each_class c prev S = Some (r, S')"
  shows "smp_pick_again E c prev S = (case r of Picked p \<Rightarrow> Some (p, S') | _ \<Rightarrow> smp_pick_again E c prev S')"
  using assms by (subst smp_pick_again.simps) (cases r; simp)

lemma pick_again_sound:
  assumes r: "smp_pick_again E c prev S = Some r" and E: "quiet_locks E" "others_ok E" "pick_ok E"
    and m: "mid c S" "prev = q_curr (rqs S c)"
  shows "settles S (snd r) c (fst r)"
  using r E m
proof (induction E c prev S r rule: smp_pick_again_induct)
  case (step f E c prev S r)
  have "IdleClass \<in> set smp_for_each_class" by (simp add: smp_for_each_class_def for_each_class_def)
  from pick_from_ok [OF step.prems(1-5) this] obtain x S1 where S1: "smp_pick_from E smp_for_each_class c prev S = Some (x, S1)"
    "(\<exists>p. x = Picked p \<and> settles S S1 c p) \<or> x = RETRY_TASK \<and> calm S S1 \<and> \<not> no_urgent S c" by blast
  from S1(2) show ?case
  proof
    assume "\<exists>p. x = Picked p \<and> settles S S1 c p"
    then show ?thesis using step.hyps S1(1) by auto
  next
    assume a: "x = RETRY_TASK \<and> calm S S1 \<and> \<not> no_urgent S c"
    then have c: "calm S S1" by simp
    have f: "f E c prev S1 = Some r" using step.hyps S1(1) a by simp
    have "prev = q_curr (rqs S1 c)" using step.prems(5) calm_on_rq(2) [OF c] by simp
    then have "settles S1 (snd r) c (fst r)"
      using step.IH [OF f step.prems(1-3) mid_calm [OF c step.prems(4)]] by blast
    then show ?thesis by (rule settles_calm [OF c])
  qed
qed

lemma pick_again_returns:
  assumes E: "quiet_locks E" "others_ok E" "pick_ok E" and m: "mid c S" "prev = q_curr (rqs S c)" "no_urgent S c"
  shows "\<exists>p S'. smp_pick_again E c prev S = Some (p, S')"
proof -
  have "IdleClass \<in> set smp_for_each_class" by (simp add: smp_for_each_class_def for_each_class_def)
  from pick_from_ok [OF E m(1,2) this] obtain p S1 where "smp_pick_from E smp_for_each_class c prev S = Some (Picked p, S1)"
    using m(3) by blast
  then show ?thesis by (simp add: smp_pick_again_once)
qed

lemma pick_next_ok:
  assumes E: "quiet_locks E" "others_ok E" "pick_ok E" and m: "mid c S" "prev = q_curr (rqs S c)"
  shows "smp_pick_next_task E c prev S = Some (p, S') \<Longrightarrow> settles S S' c p"
    "no_urgent S c \<Longrightarrow> \<exists>p S'. smp_pick_next_task E c prev S = Some (p, S')"
proof -
  let ?fast = "sched_class (tk S prev) \<in> {IdleClass, FairClass} \<and> q_nr_running (rqs S c) = o_h_nr_running E c S"
  obtain r S1 where S1: "o_pick E FairClass (smp_put_prev_task E c) c prev S = Some (r, S1)"
    "r = NoTask \<and> calm S S1 \<or> (\<exists>p. r = Picked p \<and> chosen S S1 c p)"
    using other_pick_ok [OF E(2,3) m(1), of FairClass] m(2) by auto
  have idle: "\<exists>p S2. o_pick E IdleClass (smp_put_prev_task E c) c prev S1 = Some (Picked p, S2) \<and> settles S S2 c p" if c: "calm S S1"
  proof -
    have "prev = q_curr (rqs S1 c)" using m(2) calm_on_rq(2) [OF c] by simp
    then show ?thesis using other_pick_ok [OF E(2,3) mid_calm [OF c m(1)], of IdleClass] c unfolding settles_def by auto
  qed
  have ch: "chosen S S1 c q \<Longrightarrow> settles S S1 c q" for q
    using calm_refl [OF midD(2) [OF m(1)]] unfolding settles_def by blast
  have fast: "\<exists>p S'. smp_pick_next_task E c prev S = Some (p, S') \<and> settles S S' c p" if ?fast
    using that S1 idle ch by (auto simp: smp_pick_next_task_def)
  show "settles S S' c p" if "smp_pick_next_task E c prev S = Some (p, S')"
    using that fast pick_again_sound [OF _ E m, of "(p, S')"] by (cases ?fast) (auto simp: smp_pick_next_task_def)
  show "\<exists>p S'. smp_pick_next_task E c prev S = Some (p, S')" if "no_urgent S c"
    using fast pick_again_returns [OF E m that] by (cases ?fast) (auto simp: smp_pick_next_task_def)
qed


section \<open>Switching\<close>

lemma set_curr_inv:
  assumes "smp_inv_x S c (movable S c - {p})"
  shows "smp_inv (upd_rq S c (\<lambda>q. q\<lparr>q_curr := p\<rparr>))"
proof -
  define S' where "S' = upd_rq S c (\<lambda>q. q\<lparr>q_curr := p\<rparr>)"
  have t: "tk S' = tk S" "rd S' = rd S" by (simp_all add: S'_def)
  have q: "rtr S' i = rtr S i" "q_online (rqs S' i) = q_online (rqs S i)" "top_wf (rqs S' i) = top_wf (rqs S i)"
    "q_curr (rqs S' i) = (if i = c then p else q_curr (rqs S i))" for i
    by (auto simp: S'_def top_wf_def cpu_others_def)
  have k: "cpu_queued S' i = cpu_queued S i" for i by (simp add: cpu_queued_def q)
  have ps: "pushables S' i = (if i = c then movable S c - {p} else pushables S i)" for i
    by (auto simp: pushables_def movable_def k q t)
  have "arr_wf (tk S') (rtr S' i) \<and> push_wf (tk S') (rtr S' i) (pushables S' i) \<and> top_wf (rqs S' i)" for i
    using smp_inv_xD(1,2) [OF assms, of i] smp_inv_xD(3) [OF assms] smp_inv_xD(4) [OF assms, of i] unfolding q t ps by auto
  moreover have "member_wf S'" using smp_inv_xD(5) [OF assms] unfolding member_wf_def k t .
  moreover have "rto_wf S'" using smp_inv_xD(6) [OF assms] unfolding rto_wf_def q t .
  ultimately show ?thesis unfolding S'_def [symmetric] smp_inv_def by blast
qed

text \<open>The whole change of the running task.\<close>

lemma switched_sys:
  assumes m: "mid c S" and inv: "smp_inv F" and prev: "prev = q_curr (rqs S c)" and nxt: "nxt \<noteq> prev"
    "on_rq (tk S nxt) = TASK_ON_RQ_QUEUED" "task_cpu (tk S nxt) = c"
    and view: "\<And>q. prio (tk F q) = prio (tk S q)" "\<And>q. sched_class (tk F q) = sched_class (tk S q)" "\<And>q. on_rq (tk F q) = on_rq (tk S q)"
      "\<And>q. task_cpu (tk F q) = task_cpu (tk S q)" "\<And>q. state (tk F q) = state (tk S q)"
      "\<And>q. on_cpu (tk F q) \<longleftrightarrow> q = nxt \<or> q \<noteq> prev \<and> on_cpu (tk S q)"
    and rq: "\<And>i. q_curr (rqs F i) = (if i = c then nxt else q_curr (rqs S i))" "\<And>i. q_idle (rqs F i) = q_idle (rqs S i)"
      "\<And>i. q_wake_list (rqs F i) = q_wake_list (rqs S i)" and aq: "\<And>i. cpu_queued F i = cpu_queued S i"
  shows "sys F"
proof -
  have s0: "sys0 S" by (rule midD(1) [OF m])
  have rt: "rt_task (tk F q) = rt_task (tk S q)" for q by (simp add: rt_task_def view)
  have mw: "rt_on_rq (rt (tk F q)) = rt_on_rq (rt (tk S q))" for q
    using on_rq_all_queued [OF smp_invD(4) [OF inv], of q] on_rq_all_queued [OF rt_sysD(3) [OF midD(2) [OF m]], of q]
    by (simp add: all_queued_def aq)
  have "tasks_wf F" using rt_sysD(2) [OF midD(2) [OF m]] by (simp add: tasks_wf_def aq view rt mw)
  moreover have "class_wf F" using sys0D(2) [OF s0] by (simp add: class_wf_def view rt)
  moreover have "wake_wf F"
  proof -
    have nz: "TASK_ON_RQ_QUEUED \<noteq> 0" by (simp add: TASK_ON_RQ_QUEUED_def)
    have "nxt \<notin> set (q_wake_list (rqs S i))" for i using waking_zero(1) [OF s0, of nxt i] nxt(2) nz by auto
    then show ?thesis using sys0D(3) [OF s0] unfolding wake_wf_def waking_def view rq by metis
  qed
  moreover have "place_wf F"
  proof -
    have P: "on_cpu (tk S q) \<longleftrightarrow> (\<exists>i. q_curr (rqs S i) = q)" "task_cpu (tk S (q_curr (rqs S i))) = i" for q i
      using sys0D(4) [OF s0] by (auto simp: place_wf_def)
    have "on_cpu (tk F q) \<longleftrightarrow> (\<exists>i. q_curr (rqs F i) = q)" for q
      unfolding view(6) rq P(1) using prev P(2) by metis
    moreover have "task_cpu (tk F (q_curr (rqs F i))) = i" for i using P(2) nxt(3) by (simp add: rq view)
    ultimately show ?thesis by (simp add: place_wf_def)
  qed
  moreover have "idle_wf F" using sys0D(5) [OF s0] by (simp add: idle_wf_def Let_def rq view)
  moreover have "on_rq (tk F (q_curr (rqs F i))) = TASK_ON_RQ_QUEUED" for i using m nxt(2) by (auto simp: rq view mid_def)
  moreover have "\<forall>p. on_rq (tk F p) = 0 \<or> on_rq (tk F p) = TASK_ON_RQ_QUEUED" using m by (simp add: view mid_def)
  ultimately show ?thesis using inv by (simp add: sys_def sys0_def rt_sys_def)
qed

lemma acct_clear_skip: "acct S (smp_clear_skip_flags c S)"
  unfolding smp_clear_skip_flags_def by (rule acct_flags)

lemma switch_ok:
  assumes E: "others_ok E" and m: "mid c S" and st: "settles S S' c nxt" and prev: "prev = q_curr (rqs S c)"
  shows "sys (smp_switch_task E c voluntary prev nxt S')"
proof -
  obtain S0 where c0: "calm S S0" and ch: "chosen S0 S' c nxt" using st unfolding settles_def by blast
  have m0: "mid c S0" by (rule mid_calm [OF c0 m])
  have p0: "prev = q_curr (rqs S0 c)" using prev calm_on_rq(2) [OF c0] by simp
  have inv: "smp_inv_x S' c (movable S' c - {nxt})" and s: "stays S0 S'" and q: "\<And>i. cpu_queued S' i = cpu_queued S0 i"
    and nx: "on_rq (tk S' nxt) = TASK_ON_RQ_QUEUED" "task_cpu (tk S' nxt) = c"
    using ch by (simp_all add: chosen_def)
  have mf: "moved_frame S0 S'" using s by (simp add: stays_def)
  note V = stays_view [OF s] moved_rq [OF mf] moved_view [OF mf]
  define A where "A = upd_tk S' prev (\<lambda>t. t\<lparr>need_resched := False\<rparr>)"
  have aA: "acct S' A" unfolding A_def by (rule acct_task) simp_all
  have mvA: "movable A c = movable S' c" by (rule movable_cong [OF frame_stays [OF acct_frame [OF aA]] acct_queued [OF aA]])
  have invA: "smp_inv_x A c (movable A c - {nxt})" unfolding mvA by (rule acct_inv_x [OF aA inv])
  have vA: "rqs A = rqs S'" by (simp add: A_def)
  show ?thesis
  proof (cases "prev = nxt")
    case True
    have sA: "stays S0 A" by (rule stays_trans [OF s frame_stays [OF acct_frame [OF aA]]])
    have qA: "cpu_queued A i = cpu_queued S0 i" for i using q acct_queued [OF aA] by simp
    have "q_curr (rqs A c) = nxt" using V(5) p0 True by (simp add: vA)
    then have "smp_inv A" using invA movable_pushables [of A c] by (simp add: smp_inv_iff [of A c])
    moreover have mfA: "moved_frame S0 A" using sA by (simp add: stays_def)
    have aqA: "all_queued A = all_queued S0" by (simp add: all_queued_def qA)
    ultimately have "rt_sys A"
      using tasks_wf_cong [OF mfA rt_sysD(3) [OF midD(2) [OF m0]] smp_invD(4) aqA] rt_sysD(2) [OF midD(2) [OF m0]] by (simp add: rt_sys_def)
    then have cA: "calm S0 A" using mfA aqA stays_view(3) [OF sA] by (simp add: calm_def shifts_def)
    have mA: "mid c A" by (rule mid_calm [OF cA m0])
    have "on_rq (tk A (q_curr (rqs A c))) = TASK_ON_RQ_QUEUED"
      using nx(1) True keeps_taskD(4) [OF acctD(1) [OF aA], of nxt] \<open>q_curr (rqs A c) = nxt\<close> by simp
    then have "sys A" using mA unfolding sys_def mid_def by metis
    then have "sys (smp_clear_skip_flags c A)" using calm_sys [OF calm_acct [OF midD(2) [OF mA] acct_clear_skip]] by blast
    then show ?thesis using True by (simp add: smp_switch_task_def A_def)
  next
    case False
    define B where "B = upd_rq A c (\<lambda>q. q\<lparr>q_curr := nxt\<rparr>)"
    define C where "C = upd_tk B prev (\<lambda>t. if voluntary then t\<lparr>nvcsw := nvcsw t + 1\<rparr> else t\<lparr>nivcsw := nivcsw t + 1\<rparr>)"
    define D where "D = prepare_task nxt C"
    define G where "G = smp_clear_skip_flags c D"
    define F where "F = finish_task prev G"
    have "smp_inv B" unfolding B_def by (rule set_curr_inv [OF invA])
    then have "smp_inv C" by (rule smp_inv_tasks) (simp_all add: C_def)
    then have "smp_inv D" by (rule smp_inv_tasks) (simp_all add: D_def prepare_task_def)
    then have "smp_inv G" unfolding G_def by (rule acct_inv [OF acct_clear_skip])
    then have iF: "smp_inv F" by (rule smp_inv_tasks) (simp_all add: F_def finish_task_def)
    have vF: "prio (tk F x) = prio (tk S' x)" "sched_class (tk F x) = sched_class (tk S' x)" "on_rq (tk F x) = on_rq (tk S' x)"
      "task_cpu (tk F x) = task_cpu (tk S' x)" "state (tk F x) = state (tk S' x)"
      "on_cpu (tk F x) \<longleftrightarrow> x = nxt \<or> x \<noteq> prev \<and> on_cpu (tk S' x)" for x
      using False by (simp_all add: F_def finish_task_def G_def smp_clear_skip_flags_def D_def prepare_task_def C_def B_def A_def)
    have rF: "q_curr (rqs F i) = (if i = c then nxt else q_curr (rqs S' i))" "q_idle (rqs F i) = q_idle (rqs S' i)"
      "q_wake_list (rqs F i) = q_wake_list (rqs S' i)" "rtr F i = rtr S' i" for i
      by (simp_all add: F_def finish_task_def G_def smp_clear_skip_flags_def D_def prepare_task_def C_def B_def A_def)
    have "cpu_queued F i = cpu_queued S' i" for i by (simp add: cpu_queued_def rF(4))
    then have qF: "cpu_queued F i = cpu_queued S0 i" for i by (simp add: q)
    have sF: "sys F"
      by (rule switched_sys [OF m0 iF p0 _ _ _ _ _ _ _ _ _ _ _ _ qF, of nxt])
        (use False nx in \<open>simp_all add: vF rF V\<close>)
    then have "rt_sys F" by (simp add: sys_def sys0_def)
    then have "sys (o_task_dead E (sched_class (tk F prev)) prev F)"
      using calm_sys [OF calm_leaves [OF _ others_okD(6) [OF E]] sF] by blast
    moreover have "smp_switch_task E c voluntary prev nxt S' =
        (if state (tk G prev) = TASK_DEAD then o_task_dead E (sched_class (tk F prev)) prev F else F)"
      using False unfolding smp_switch_task_def smp_context_switch_def smp_finish_task_switch_def Let_def
      by (simp add: A_def B_def C_def D_def G_def F_def)
    ultimately show ?thesis using sF by simp
  qed
qed

text \<open>\<open>__schedule\<close> keeps the invariant, and returns when no stop or deadline task interferes.\<close>

lemma schedule_sleep_ok:
  assumes E: "find_ok E" "quiet_locks E" "others_ok E" and sys: "sys S" and c: "c = this_cpu S"
  shows "\<exists>v S'. smp_schedule_sleep E c preempt S = Some (v, S') \<and> mid c S' \<and> q_curr (rqs S' c) = q_curr (rqs S c) \<and>
    (tflags (tk S (q_curr (rqs S c))) AND PF_WQ_WORKER = 0 \<longrightarrow> no_urgent S c \<longrightarrow> no_urgent S' c)"
proof -
  let ?prev = "q_curr (rqs S c)"
  have s0: "sys0 S" using sys by (simp add: sys_def)
  have idle: "?prev = q_idle (rqs S c) \<Longrightarrow> state (tk S ?prev) = 0"
    using idle_wfD(4) [OF sys0D(5) [OF s0], of c] by (simp add: TASK_RUNNING_def)
  show ?thesis
  proof (cases "\<not> preempt \<and> state (tk S ?prev) \<noteq> 0")
    case True
    then have ni: "?prev \<noteq> q_idle (rqs S c)" using idle by auto
    show ?thesis
    proof (cases "smp_signal_pending_state E (state (tk S ?prev)) ?prev S")
      case sig: True
      have nz: "TASK_ON_RQ_QUEUED \<noteq> 0" by (simp add: TASK_ON_RQ_QUEUED_def)
      have u: "unlisted S ?prev" using waking_zero(1) [OF s0, of ?prev] sys nz unfolding unlisted_def sys_def by metis
      have "sys0 (upd_tk S ?prev (\<lambda>t. t\<lparr>state := TASK_RUNNING\<rparr>))" by (rule set_state_sys0 [OF s0 u]) simp
      then have "mid c (upd_tk S ?prev (\<lambda>t. t\<lparr>state := TASK_RUNNING\<rparr>))" using sys by (simp add: mid_def sys_def)
      then show ?thesis using True sig by (auto simp: smp_schedule_sleep_def Let_def no_urgent_def task_on_rq_queued_def)
    next
      case sig: False
      then show ?thesis using sleep_ok [OF E sys c refl ni] True by (auto simp: smp_schedule_sleep_def Let_def)
    qed
  next
    case False
    then show ?thesis using sys_mid [OF sys] by (auto simp: smp_schedule_sleep_def Let_def)
  qed
qed

lemma schedule_ok:
  assumes E: "find_ok E" "quiet_locks E" "others_ok E" "pick_ok E" and sys: "sys S"
  shows "smp_schedule E preempt S = Some S' \<Longrightarrow> sys S'"
    "no_urgent S (this_cpu S) \<Longrightarrow> tflags (tk S (q_curr (rqs S (this_cpu S)))) AND PF_WQ_WORKER = 0 \<Longrightarrow> \<exists>S'. smp_schedule E preempt S = Some S'"
proof -
  let ?c = "this_cpu S" let ?prev = "q_curr (rqs S ?c)"
  define S1 where "S1 = smp_update_rq_clock ?c (upd_rq S ?c (\<lambda>q. q\<lparr>q_flags := push_bit 1 (q_flags q)\<rparr>))"
  have rs: "rt_sys S" using sys by (simp add: sys_def sys0_def)
  have c1: "calm S S1" unfolding S1_def by (rule calm_acct [OF rs acct_trans [OF acct_flags acct_clock]])
  have s1: "sys S1" by (rule calm_sys [OF c1 sys])
  have t1: "this_cpu S1 = ?c" "q_curr (rqs S1 ?c) = ?prev" "tflags (tk S1 ?prev) = tflags (tk S ?prev)"
    using calm_on_rq(2,4) [OF c1] moved_rq(7) [OF shiftsD(1), of S S1] c1 by (simp_all add: calm_def)
  obtain v S2 where S2: "smp_schedule_sleep E ?c preempt S1 = Some (v, S2)" "mid ?c S2" "q_curr (rqs S2 ?c) = ?prev"
    and u: "tflags (tk S ?prev) AND PF_WQ_WORKER = 0 \<longrightarrow> no_urgent S ?c \<longrightarrow> no_urgent S2 ?c"
    using schedule_sleep_ok [OF E(1-3) s1, of ?c preempt] t1 no_urgent_calm [OF c1] by auto
  have e: "smp_schedule E preempt S =
      Option.bind (smp_pick_next_task E ?c ?prev S2) (\<lambda>(nxt, S). balance_callback E ?c (smp_switch_task E ?c v ?prev nxt S))"
    using S2(1) unfolding smp_schedule_def Let_def S1_def [symmetric] by simp
  have sw: "sys (smp_switch_task E ?c v ?prev nxt S3)" if "smp_pick_next_task E ?c ?prev S2 = Some (nxt, S3)" for nxt S3
    using switch_ok [OF E(3) S2(2) pick_next_ok(1) [OF E(2-4) S2(2) _ that]] S2(3) by simp
  have bal: "\<exists>S'. balance_callback E ?c T = Some S' \<and> sys S'" if "sys T" for T
    using balance_calm [OF E(1,2), of T ?c] calm_sys [OF _ that] that by (auto simp: sys_def sys0_def)
  show "sys S'" if "smp_schedule E preempt S = Some S'"
    using that bal [OF sw] unfolding e by (fastforce simp: bind_eq_Some_conv)
  show "\<exists>S'. smp_schedule E preempt S = Some S'" if "no_urgent S ?c" "tflags (tk S ?prev) AND PF_WQ_WORKER = 0"
    using pick_next_ok(2) [OF E(2-4) S2(2), of ?prev] S2(3) u that bal [OF sw] unfolding e by fastforce
qed


section \<open>Migration\<close>

text \<open>What moving one task leaves alone.\<close>

definition relocated :: "('c, 'x) smp \<Rightarrow> ('c, 'x) smp \<Rightarrow> pid \<Rightarrow> bool" where
  "relocated S S' p \<longleftrightarrow> sys0 S' \<and> on_rq (tk S' p) = TASK_ON_RQ_QUEUED \<and> (\<forall>q. q \<noteq> p \<longrightarrow> on_rq (tk S' q) = on_rq (tk S q)) \<and>
     (\<forall>c. q_curr (rqs S' c) = q_curr (rqs S c)) \<and> (\<forall>q. sched_class (tk S' q) = sched_class (tk S q) \<and> on_cpu (tk S' q) = on_cpu (tk S q)) \<and>
     same_static S S'"

lemma stays_static: "stays S S' \<Longrightarrow> same_static S S'"
  by (simp add: stays_def moved_frame_def)

lemma relocated_sys:
  assumes "sys S" "relocated S S' p"
  shows "sys S'"
proof -
  have "on_rq (tk S' q) = TASK_ON_RQ_QUEUED \<or> on_rq (tk S' q) = on_rq (tk S q)" for q
    using assms(2) by (cases "q = p") (auto simp: relocated_def)
  then show ?thesis using assms unfolding sys_def relocated_def by metis
qed

lemma smp_task_on_rq_id: "(t :: smp_task)\<lparr>on_rq := on_rq t\<rparr> = t"
  by simp

lemma set_task_cpu_view:
  "on_rq (tk (set_task_cpu p c S) q) = on_rq (tk S q)" "sched_class (tk (set_task_cpu p c S) q) = sched_class (tk S q)"
  "on_cpu (tk (set_task_cpu p c S) q) = on_cpu (tk S q)" "rqs (set_task_cpu p c S) = rqs S" "task_cpu (tk (set_task_cpu p c S) p) = c"
  by (simp_all add: set_task_cpu_def Let_def)

lemma unlisted_queued: "sys0 S \<Longrightarrow> on_rq (tk S p) = TASK_ON_RQ_QUEUED \<Longrightarrow> unlisted S p"
  using waking_zero(1) [of S p] unfolding unlisted_def by (auto simp: TASK_ON_RQ_QUEUED_def)

lemma requeue_stays:
  assumes "smp_requeue_task_rt c p head S = Some S'"
  shows "stays S S'"
  using assms by (auto simp: smp_requeue_task_rt_def set_array_def stays_def moved_frame_def same_view_def keeps_rq_def same_static_def
    split: if_split_asm option.split_asm)

lemma acct_stays: "acct S S' \<Longrightarrow> stays S S'"
  by (rule frame_stays [OF acct_frame])

lemma check_preempt_stays:
  assumes E: "others_ok E" and rs: "rt_sys S" and e: "smp_check_preempt_curr E c p fl S = Some S'"
  shows "stays S S'"
proof -
  let ?cc = "sched_class (tk S (q_curr (rqs S c)))" and ?pc = "sched_class (tk S p)"
  let ?first = "if ?pc = ?cc then
             if ?cc = RtClass then smp_check_preempt_curr_rt E c p fl S else o_check_preempt E ?cc c p fl S
           else Some (if class_preempts smp_for_each_class ?cc ?pc then smp_resched_curr c S else S)"
  obtain S1 where S1: "?first = Some S1" "S' = S1 \<or> S' = smp_rq_clock_skip_update c S1"
    using e unfolding smp_check_preempt_curr_def Let_def by (auto simp: bind_eq_Some_conv split: if_split_asm)
  have acc: "stays T (smp_resched_curr c T)" "stays T T" for T :: "('a, 'b) smp" by (simp_all add: acct_stays)
  have rt: "stays S S1" if "smp_check_preempt_curr_rt E c p fl S = Some S1"
    using that acc(1) [of S] acc(2) [of S] stays_trans [OF requeue_stays acc(1)]
    by (auto simp: smp_check_preempt_curr_rt_def check_preempt_equal_prio_def Let_def bind_eq_Some_conv split: if_split_asm)
  have "stays S S1"
  proof (cases "?pc = ?cc")
    case True
    then show ?thesis
      using S1(1) rt others_okD(4) [OF E rs, of ?cc c p fl] leaves_stays by (cases "?cc = RtClass") fastforce+
  next
    case False
    then show ?thesis using S1(1) acc [of S] by (auto split: if_split_asm)
  qed
  then show ?thesis using S1(2) stays_trans acct_stays [OF acct_skip, of S1 c] by blast
qed

lemma move_in_ok:
  assumes E: "others_ok E" and sys: "sys0 S" and p: "on_rq (tk S p) \<noteq> TASK_ON_RQ_QUEUED" "task_cpu (tk S p) = c" "unlisted S p"
    and S1: "smp_inv S1" "stays S S1" "all_queued S1 = (if sched_class (tk S p) = RtClass then insert p (all_queued S) else all_queued S)"
  shows "\<exists>S'. smp_check_preempt_curr E c p 0 (upd_tk S1 p (\<lambda>t. t\<lparr>on_rq := TASK_ON_RQ_QUEUED\<rparr>)) = Some S' \<and> relocated S S' p \<and>
    task_cpu (tk S' p) = c \<and> cpus_allowed (tk S' p) = cpus_allowed (tk S p)"
proof -
  let ?S2 = "upd_tk S1 p (\<lambda>t. t\<lparr>on_rq := TASK_ON_RQ_QUEUED\<rparr>)"
  note m = mark_queued [OF S1]
  have s2: "sys0 ?S2" by (rule woke_sys0 [OF sys m(2,1) p(3)])
  have tc: "task_cpu (tk ?S2 p) = c" using wokeD(6) [OF m(2), of p] p(2) by simp
  obtain S' where S': "smp_check_preempt_curr E c p 0 ?S2 = Some S'" "calm ?S2 S'"
    using check_preempt_ok [OF E sys0D(1) [OF s2]] tc by blast
  have st: "stays ?S2 S'" by (rule check_preempt_stays [OF E sys0D(1) [OF s2] S'(1)])
  have "same_static S S'" using stays_static [OF st] stays_static [OF S1(2)] by (simp add: same_static_def)
  then have "relocated S S' p"
    using calm_sys0 [OF S'(2) s2] wokeD [OF m(2)] calm_on_rq(1,2,6,7) [OF S'(2)] by (simp add: relocated_def)
  moreover have "task_cpu (tk S' p) = c" using st tc unfolding stays_def by metis
  moreover have "cpus_allowed (tk S' p) = cpus_allowed (tk S p)"
    using moved_view(2) [of ?S2 S' p] moved_view(2) [of S S1 p] st S1(2) by (simp add: stays_def)
  ultimately show ?thesis using S'(1) by blast
qed

lemma move_queued_ok:
  assumes E: "others_ok E" and sys: "sys0 S" and p: "on_rq (tk S p) = TASK_ON_RQ_QUEUED" "\<not> on_cpu (tk S p)" "task_cpu (tk S p) = c"
    "\<And>i. q_idle (rqs S i) \<noteq> p"
  shows "\<exists>S'. move_queued_task E c p d S = Some S' \<and> relocated S S' p \<and> task_cpu (tk S' p) = d \<and>
    cpus_allowed (tk S' p) = cpus_allowed (tk S p)"
proof -
  let ?m = TASK_ON_RQ_MIGRATING
  have nm: "?m \<noteq> TASK_ON_RQ_QUEUED" by (simp add: TASK_ON_RQ_MIGRATING_def TASK_ON_RQ_QUEUED_def)
  define S0 where "S0 = upd_tk S p (\<lambda>t. t\<lparr>on_rq := ?m\<rparr>)"
  note rs = sys0D(1) [OF sys]
  have t0: "sched_class (tk S0 q) = sched_class (tk S q)" "task_cpu (tk S0 q) = task_cpu (tk S q)" "rt (tk S0 q) = rt (tk S q)"
    "cpu_queued S0 i = cpu_queued S i" "all_queued S0 = all_queued S" for q i
    by (simp_all add: S0_def cpu_queued_def all_queued_def)
  have i0: "smp_inv S0" by (rule smp_inv_tasks [OF rt_sysD(1) [OF rs]]) (simp_all add: S0_def)
  have pre: "if sched_class (tk S0 p) = RtClass then rt_on_rq (rt (tk S0 p)) else rt_sys S0"
  proof (cases "sched_class (tk S p) = RtClass")
    case True
    then show ?thesis using queued_rt [OF sys p(1)] by (simp add: t0)
  next
    case False
    have "p \<notin> cpu_queued S i" for i using not_rt_queued [OF rs False] by (auto simp: all_queued_def)
    then have "tasks_wf S0" using rt_sysD(2) [OF rs] nm by (auto simp: tasks_wf_def t0(4)) (auto simp: S0_def rt_task_def split: if_split_asm)
    then show ?thesis using False i0 by (simp add: t0 rt_sys_def)
  qed
  obtain S1 where S1: "smp_dequeue_task E c p DEQUEUE_NOCLOCK S0 = Some S1" "smp_inv S1" "stays S0 S1"
    "all_queued S1 = (if sched_class (tk S0 p) = RtClass then all_queued S0 - {p} else all_queued S0)"
    using dequeue_frame [OF E i0 _ pre move_wakeup(4), of c] p(3) by (auto simp: t0)
  have aq: "all_queued S1 = all_queued S - {p}" using S1(4) not_rt_queued [OF rs, of p] by (auto simp: t0)
  have "gone S0 (upd_tk S1 p (\<lambda>t. t\<lparr>on_rq := ?m\<rparr>)) p ?m" by (rule stays_gone [OF S1(3)]) (simp add: aq t0)
  moreover have "upd_tk S1 p (\<lambda>t. t\<lparr>on_rq := ?m\<rparr>) = S1"
  proof -
    have "on_rq (tk S1 p) = ?m" using stays_view(4) [OF S1(3), of p] by (simp add: S0_def)
    then have "(tk S1 p)\<lparr>on_rq := ?m\<rparr> = tk S1 p" by (metis smp_task_on_rq_id)
    then show ?thesis by simp
  qed
  ultimately have "gone S0 S1 p ?m" by simp
  then have g: "gone S S1 p ?m" by (simp add: gone_def S0_def all_queued_def cpu_queued_def same_static_def rt_task_def split: if_split_asm)
  have s1: "sys0 S1" by (rule gone_sys0 [OF sys g S1(2) nm p(1,4)])
  note G = goneD [OF g]
  have u: "unlisted S1 p" using unlisted_queued [OF sys p(1)] by (simp add: unlisted_def G)
  have p1: "on_rq (tk S1 p) \<noteq> TASK_ON_RQ_QUEUED" "\<not> on_cpu (tk S1 p)" using G(1,5) nm p(2) by simp_all
  let ?S2 = "set_task_cpu p d S1"
  note v = set_task_cpu_view
  have s2: "sys0 ?S2" by (rule set_task_cpu_sys0 [OF s1 p1 u])
  have p2: "on_rq (tk ?S2 p) \<noteq> TASK_ON_RQ_QUEUED" "task_cpu (tk ?S2 p) = d" "unlisted ?S2 p" using p1 u by (simp_all add: v unlisted_def)
  obtain S3 where S3: "smp_enqueue_task E d p 0 ?S2 = Some S3" "smp_inv S3" "stays ?S2 S3"
      "all_queued S3 = (if sched_class (tk ?S2 p) = RtClass then insert p (all_queued ?S2) else all_queued ?S2)"
    using enqueue_frame [OF E s2 p2(1,2) move_wakeup(5)] by blast
  obtain S' where S': "smp_check_preempt_curr E d p 0 (upd_tk S3 p (\<lambda>t. t\<lparr>on_rq := TASK_ON_RQ_QUEUED\<rparr>)) = Some S'" "relocated ?S2 S' p"
    "task_cpu (tk S' p) = d" "cpus_allowed (tk S' p) = cpus_allowed (tk ?S2 p)"
    using move_in_ok [OF E s2 p2 S3(2-4)] by blast
  have "cpus_allowed (tk S' p) = cpus_allowed (tk S p)"
    using S'(4) moved_view(2) [of S0 S1 p] S1(3) by (simp add: stays_def set_task_cpu_def Let_def S0_def)
  moreover have "same_static S ?S2" using stays_static [OF S1(3)] by (simp add: same_static_def S0_def set_task_cpu_def Let_def)
  then have "relocated S S' p" using S'(2) same_static_trans by (auto simp: relocated_def v G)
  moreover have "move_queued_task E c p d S = Some S'"
    using S1(1) S3(1) S'(1) unfolding move_queued_task_def move_queued_out_def move_queued_in_def S0_def by (simp add: v(5))
  ultimately show ?thesis using S'(3) by blast
qed

lemma migration_stop_ok:
  assumes E: "find_ok E" "quiet_locks E" "others_ok E" and sys: "sys S"
    and p: "p \<noteq> q_curr (rqs S (this_cpu S))" "sched_class (tk S p) \<noteq> IdleClass"
  shows "\<exists>S'. migration_cpu_stop E p d S = Some S' \<and> sys S'"
proof -
  let ?c = "this_cpu S"
  have s0: "sys0 S" using sys by (simp add: sys_def)
  obtain S1 where S1: "sched_ttwu_pending E ?c S = Some S1" "sys0 S1"
    "\<forall>p \<in> set (q_wake_list (rqs S ?c)). on_rq (tk S1 p) = TASK_ON_RQ_QUEUED"
    "\<forall>q. q \<notin> set (q_wake_list (rqs S ?c)) \<longrightarrow> on_rq (tk S1 q) = on_rq (tk S q)" "\<forall>i. q_curr (rqs S1 i) = q_curr (rqs S i)"
    "sched_class (tk S1 p) = sched_class (tk S p)"
    using ttwu_pending_ok [OF E s0, of ?c] by blast
  have "on_rq (tk S1 q) = TASK_ON_RQ_QUEUED \<or> on_rq (tk S1 q) = on_rq (tk S q)" for q using S1(3,4) by blast
  then have s1: "sys S1" using S1(2,5) sys unfolding sys_def by metis
  have rs: "rt_sys S1" by (rule sys0D(1) [OF S1(2)])
  show ?thesis
  proof (cases "task_cpu (tk S1 p) = ?c")
    case here: True
    have n: "\<not> on_cpu (tk S1 p)"
    proof
      assume "on_cpu (tk S1 p)"
      then obtain i where i: "q_curr (rqs S1 i) = p" using sys0D(4) [OF S1(2)] by (auto simp: place_wf_def)
      then have "i = ?c" using sys0D(4) [OF S1(2)] here by (auto simp: place_wf_def)
      then show False using i p(1) S1(5) by simp
    qed
    show ?thesis
    proof (cases "task_on_rq_queued (tk S1 p)")
      case True
      show ?thesis
      proof (cases "is_cpu_allowed p d S1")
        case ok: True
        let ?S2 = "smp_update_rq_clock ?c S1"
        have c2: "calm S1 ?S2" by (rule calm_acct [OF rs acct_clock])
        have s2: "sys ?S2" by (rule calm_sys [OF c2 s1])
        have "q_idle (rqs ?S2 i) \<noteq> p" for i
          using idle_wfD(3) [OF sys0D(5) [OF S1(2)], of i] p(2) S1(6) calm_on_rq(8) [OF c2] by auto
        moreover have "sys0 ?S2" "on_rq (tk ?S2 p) = TASK_ON_RQ_QUEUED" "\<not> on_cpu (tk ?S2 p)"
          using s2 True n calm_on_rq(1,6) [OF c2] by (simp_all add: sys_def task_on_rq_queued_def)
        moreover have "task_cpu (tk ?S2 p) = ?c" using here keeps_taskD(3) [OF acctD(1) [OF acct_clock], of ?c S1 p] by simp
        ultimately obtain S' where "move_queued_task E ?c p d ?S2 = Some S'" "relocated ?S2 S' p"
          using move_queued_ok [OF E(3), of ?S2 p ?c d] by blast
        then show ?thesis using S1(1) here True ok relocated_sys [OF s2] by (simp add: migration_cpu_stop_def migrate_task_def Let_def)
      next
        case False
        then show ?thesis using S1(1) here True s1 by (simp add: migration_cpu_stop_def migrate_task_def Let_def)
      qed
    next
      case False
      have "leaves_rt S1 (upd_tk S1 p (\<lambda>t. t\<lparr>wake_cpu := d\<rparr>))"
        using leaves_refl [OF rt_sysD(1) [OF rs]] by (auto simp: leaves_rt_def same_view_def same_static_def)
      from calm_sys [OF calm_leaves [OF rs this] s1] show ?thesis
        using S1(1) here False by (simp add: migration_cpu_stop_def Let_def)
    qed
  next
    case False
    then show ?thesis using S1(1) s1 by (simp add: migration_cpu_stop_def Let_def)
  qed
qed

end
