(* ===== verification/Smp_Affinity.thy ===== *)
theory Smp_Affinity
  imports Smp_Inv
begin

text \<open>
  A change of the allowed processors of a queued real-time task. \<open>do_set_cpus_allowed\<close> takes the task off its run queue
  with \<open>DEQUEUE_SAVE\<close> and without \<open>DEQUEUE_MOVE\<close>: the task stays linked in the array while its counters are gone, and comes
  back with the new number of processors. The results: the state in between is accounted for (\<open>detached\<close>), the array keeps
  its order, and afterwards the counter of migratable tasks, the overload flag, the mask of the root domain and the list of
  pushable tasks agree with the new affinity.
\<close>


section \<open>The detached task\<close>

definition others_mig :: "('c, 'x) smp \<Rightarrow> cpu \<Rightarrow> pid \<Rightarrow> nat" where
  "others_mig S c p = length (filter (\<lambda>q. migratable (tk S q)) (remove1 p (concat (cpu_queues S c))))"

definition detached :: "('c, 'x) smp \<Rightarrow> ('c, 'x) smp \<Rightarrow> cpu \<Rightarrow> pid \<Rightarrow> pid set \<Rightarrow> bool" where
  "detached S Z c p X \<longleftrightarrow>
     (\<forall>q. keeps_task (tk S q) (tk Z q) \<and> (q \<noteq> p \<longrightarrow> rt_on_rq (rt (tk Z q)) = rt_on_rq (rt (tk S q)))) \<and> \<not> rt_on_rq (rt (tk Z p)) \<and>
     (\<forall>i. keeps_rq (rqs S i) (rqs Z i) \<and> (i \<noteq> c \<longrightarrow> same_queues (rqs S i) (rqs Z i))) \<and> same_static S Z \<and> rto_wf Z \<and>
     top_wf (rqs Z c) \<and> active (rtr Z c) = active (rtr S c) \<and> rt_nr_running (rtr Z c) = rt_nr_running (rtr S c) - 1 \<and>
     rt_nr_total (rtr Z c) = rt_nr_total (rtr S c) - 1 \<and> rt_nr_migratory (rtr Z c) = of_nat (others_mig S c p) \<and>
     highest_curr (rtr Z c) = (if rt_nr_running (rtr Z c) = 0 then 100 else highest_curr (rtr S c)) \<and>
     push_wf (tk Z) (rtr Z c) X"

lemma detachedD:
  assumes "detached S Z c p X"
  shows "keeps_task (tk S q) (tk Z q)" "q \<noteq> p \<Longrightarrow> rt_on_rq (rt (tk Z q)) = rt_on_rq (rt (tk S q))" "\<not> rt_on_rq (rt (tk Z p))"
    "keeps_rq (rqs S i) (rqs Z i)" "i \<noteq> c \<Longrightarrow> same_queues (rqs S i) (rqs Z i)" "same_static S Z" "rto_wf Z" "top_wf (rqs Z c)"
    "active (rtr Z c) = active (rtr S c)" "rt_nr_running (rtr Z c) = rt_nr_running (rtr S c) - 1"
    "rt_nr_total (rtr Z c) = rt_nr_total (rtr S c) - 1" "rt_nr_migratory (rtr Z c) = of_nat (others_mig S c p)"
    "highest_curr (rtr Z c) = (if rt_nr_running (rtr Z c) = 0 then 100 else highest_curr (rtr S c))"
    "push_wf (tk Z) (rtr Z c) X"
  using assms unfolding detached_def by blast+

lemma rto_wf_acct:
  assumes "acct S S'" "rto_wf S"
  shows "rto_wf S'"
proof -
  have "is_overloaded (rtr S' i) = is_overloaded (rtr S i)" "q_online (rqs S' i) = q_online (rqs S i)" for i
    using acctD(3,4) [OF assms(1), of i] by (simp_all add: same_queues_def keeps_rq_def Let_def)
  then show ?thesis using assms(2) by (simp add: rto_wf_def acctD(5) [OF assms(1)])
qed

lemma detached_acct:
  assumes d: "detached S Z c p X" and a: "acct Z Z'"
  shows "detached S Z' c p X"
proof -
  note D = detachedD [OF d]
  have q: "same_queues (rqs Z c) (rqs Z' c)" by (rule acctD(4) [OF a])
  have "top_wf (rqs Z' c)" using D(8) q by (auto simp: top_wf_def same_queues_def Let_def)
  moreover have "push_wf (tk Z') (rtr Z' c) X"
  proof -
    have "push_wf (tk Z) (rtr Z' c) X" using D(14) q by (simp add: push_wf_def same_queues_def Let_def)
    then show ?thesis using push_wf_cong [of X "tk Z'" "tk Z" "rtr Z' c"] keeps_taskD(1) [OF acctD(1) [OF a]] by simp
  qed
  moreover have "keeps_task (tk S q) (tk Z' q)" for q by (rule keeps_task_trans [OF D(1) acctD(1) [OF a]])
  moreover have "keeps_rq (rqs S i) (rqs Z' i)" for i by (rule keeps_rq_trans [OF D(4) acctD(3) [OF a]])
  moreover have "same_queues (rqs S i) (rqs Z' i)" if "i \<noteq> c" for i by (rule same_queues_trans [OF D(5) [OF that] acctD(4) [OF a]])
  moreover have "active (rtr Z' c) = active (rtr Z c)" "rt_nr_running (rtr Z' c) = rt_nr_running (rtr Z c)"
    "rt_nr_total (rtr Z' c) = rt_nr_total (rtr Z c)" "rt_nr_migratory (rtr Z' c) = rt_nr_migratory (rtr Z c)"
    "highest_curr (rtr Z' c) = highest_curr (rtr Z c)"
    using q by (simp_all add: same_queues_def Let_def)
  ultimately show ?thesis
    unfolding detached_def using D(2,3,9-13) acctD(2) [OF a] same_static_trans [OF D(6) acctD(6) [OF a]] rto_wf_acct [OF a D(7)] by metis
qed

lemma mig_split:
  assumes wf: "arr_wf (tk S) (rtr S c)" and p: "linked p (cpu_queues S c)"
  shows "length (filter (\<lambda>q. migratable (T q)) (concat (cpu_queues S c))) =
    length (filter (\<lambda>q. migratable (T q)) (remove1 p (concat (cpu_queues S c)))) + (if migratable (T p) then 1 else 0)"
proof -
  have "mset (concat (cpu_queues S c)) = add_mset p (mset (remove1 p (concat (cpu_queues S c))))"
    using p by (simp add: linked_iff_concat del: set_concat)
  from filter_count_add [OF this] show ?thesis by simp
qed

lemma detached_dequeue:
  assumes d: "detached S Z c p X"
  shows "detached S (dequeue_pushable_task c q Z) c p (X - {q})"
proof -
  define Z' where "Z' = dequeue_pushable_task c q Z"
  let ?l = "plist_del q (pushable_tasks (rtr Z c))" and ?h = "case plist_del q (pushable_tasks (rtr Z c)) of [] \<Rightarrow> 100 | n # _ \<Rightarrow> prio (tk Z (snd n))"
  have Z': "rqs Z' = (rqs Z)(c := (rqs Z c)\<lparr>q_rt := (rtr Z c)\<lparr>pushable_tasks := ?l, highest_next := ?h\<rparr>\<rparr>)" "tk Z' = tk Z" "rd Z' = rd Z"
    "same_static Z Z'" by (simp_all add: Z'_def dequeue_pushable_eq)
  note D = detachedD [OF d]
  have "push_wf (tk Z) ((rtr Z c)\<lparr>pushable_tasks := ?l, highest_next := ?h\<rparr>) (X - {q})" by (rule push_wf_dequeue [OF D(14)]) simp_all
  moreover have "rto_wf Z'" using D(7) by (simp add: rto_wf_def Z')
  moreover have "top_wf (rqs Z' c)" using D(8) by (simp add: Z' top_wf_def cpu_others_def split: if_split_asm)
  moreover have "keeps_rq (rqs S i) (rqs Z' i)" for i using D(4) [of i] by (auto simp: Z' keeps_rq_def)
  ultimately show ?thesis
    unfolding Z'_def [symmetric] detached_def using D(1-3,5,9-13) same_static_trans [OF D(6) Z'(4)] by (simp add: Z')
qed

text \<open>Taking the task off with its place in the array saved.\<close>

lemma nr_bound_dec:
  assumes "unat (n :: u32) \<le> m" "n \<noteq> 0"
  shows "unat (n - 1) \<le> m"
  using assms by (metis diff_le_self le_trans unat_minus_one)

lemma saved_dequeue:
  assumes inv: "smp_inv S" and p: "p \<in> cpu_queued S c" and mv: "\<not> move_entity flags"
  shows "\<exists>Z. smp_dequeue_task_rt E c p flags S = Some Z \<and> detached S Z c p (pushables S c - {p}) \<and>
    unat (rt_nr_running (rtr Z c)) \<le> max_tasks"
proof -
  have invx: "smp_inv_x S c (pushables S c)" using inv by (simp only: smp_inv_iff [of S c])
  have wf: "arr_wf (tk S) (rtr S c)" and lp: "linked p (cpu_queues S c)" using smp_inv_xD(1) [OF invx] p by (simp_all add: cpu_queued_def)
  have on: "rt_on_rq (rt (tk S p))" using queued_on [OF smp_invD(4) [OF inv]] p by blast
  obtain S1 where S1: "smp_update_curr_rt E c S = Some S1" "acct S S1" using acct_update_curr [OF smp_inv_xB(1,2) [OF invx]] by blast
  have invx1: "smp_inv_x S1 c (pushables S c)" by (rule acct_inv_x [OF S1(2) invx])
  obtain S2 where S2: "smp_dequeue_top_rt_rq c S1 = Some S2" "acct S1 S2" "\<not> rt_queued (rtr S2 c)"
    using acct_dequeue_top [OF smp_inv_xB(1,2) [OF invx1]] by blast
  have a: "acct S S2" by (rule acct_trans [OF S1(2) S2(2)])
  have invx2: "smp_inv_x S2 c (pushables S c)" by (rule acct_inv_x [OF S2(2) invx1])
  have on2: "rt_on_rq (rt (tk S2 p))" using on acctD(2) [OF a] by simp
  define S3 where "S3 = upd_tk_rt S2 p (\<lambda>e. e\<lparr>rt_on_rq := False\<rparr>)"
  have t3: "rqs S3 = rqs S2" "rd S3 = rd S2" "same_static S2 S3" "keeps_task (tk S2 q) (tk S3 q)"
    "rt_on_rq (rt (tk S3 q)) \<longleftrightarrow> q \<noteq> p \<and> rt_on_rq (rt (tk S2 q))" for q
    by (auto simp: S3_def)
  have rto: "rto_wf S3" using smp_inv_xD(6) [OF invx2] by (simp add: rto_wf_def t3)
  from dec_rt_tasks_effect [OF rto, where E = E and c = c and p = p] obtain r where
    R: "rqs (smp_dec_rt_tasks E c p S3) = (rqs S3)(c := (rqs S3 c)\<lparr>q_rt := r\<rparr>)" "tk (smp_dec_rt_tasks E c p S3) = tk S3"
      "same_static S3 (smp_dec_rt_tasks E c p S3)" "rto_wf (smp_dec_rt_tasks E c p S3)"
    and r: "active r = active (rtr S3 c)" "rt_nr_running r = rt_nr_running (rtr S3 c) - 1" "rt_nr_total r = rt_nr_total (rtr S3 c) - 1"
      "rt_nr_migratory r = rt_nr_migratory (rtr S3 c) - (if migratable (tk S3 p) then 1 else 0)"
      "highest_curr r = (if rt_nr_running r = 0 then 100 else if prio (tk S3 p) = highest_curr (rtr S3 c)
         then int (find_first_bit (bitmap (active r))) else highest_curr (rtr S3 c))"
      "pushable_tasks r = pushable_tasks (rtr S3 c)" "highest_next r = highest_next (rtr S3 c)" "rt_queued r = rt_queued (rtr S3 c)" .
  let ?S4 = "smp_dec_rt_tasks E c p S3"
  have sq: "same_queues (rqs S c) (rqs S2 c)" by (rule acctD(4) [OF a])
  then have f: "active (rtr S2 c) = active (rtr S c)" "rt_nr_running (rtr S2 c) = rt_nr_running (rtr S c)" "rt_nr_total (rtr S2 c) = rt_nr_total (rtr S c)"
    "rt_nr_migratory (rtr S2 c) = rt_nr_migratory (rtr S c)" "highest_curr (rtr S2 c) = highest_curr (rtr S c)"
    by (simp_all add: same_queues_def Let_def)
  have mg: "migratable (tk S3 p) = migratable (tk S p)"
    using keeps_taskD(12) [OF t3(4), of p] keeps_taskD(12) [OF acctD(1) [OF a], of p] by simp
  have "rt_nr_migratory (rtr S c) = of_nat (others_mig S c p) + (if migratable (tk S p) then 1 else 0)"
    unfolding arr_wfD(9) [OF wf] mig_split [OF wf lp, of "tk S"] others_mig_def by simp
  then have mig: "rt_nr_migratory r = of_nat (others_mig S c p)" using r(4) mg f(4) by (simp add: t3)
  have hi: "highest_curr r = (if rt_nr_running r = 0 then 100 else highest_curr (rtr S c))"
    unfolding r(5) by (simp add: t3 f r(1) arr_wfD(10) [OF wf])
  have push4: "push_wf (tk ?S4) (rtr ?S4 c) (pushables S c)"
  proof -
    have "push_wf (tk S2) r (pushables S c)" using smp_inv_xD(3) [OF invx2] r(6,7) by (simp add: push_wf_def t3)
    then show ?thesis using push_wf_cong [of "pushables S c" "tk S3" "tk S2" r] keeps_taskD(1) [OF t3(4)] by (simp add: R)
  qed
  have top4: "top_wf (rqs ?S4 c)"
    using smp_inv_xD(2) [OF invx2, of c] S2(3) r(8) by (simp add: R t3 top_wf_def cpu_others_def)
  have d4: "detached S ?S4 c p (pushables S c)"
    unfolding detached_def
  proof (intro conjI allI impI)
    show "keeps_task (tk S q) (tk ?S4 q)" for q unfolding R(2) by (rule keeps_task_trans [OF acctD(1) [OF a] t3(4)])
    show "rt_on_rq (rt (tk ?S4 q)) = rt_on_rq (rt (tk S q))" if "q \<noteq> p" for q using that by (simp add: R(2) t3 acctD(2) [OF a])
    show "\<not> rt_on_rq (rt (tk ?S4 p))" by (simp add: R(2) t3)
    show "keeps_rq (rqs S i) (rqs ?S4 i)" for i using acctD(3) [OF a, of i] by (auto simp: R t3 keeps_rq_def)
    show "same_queues (rqs S i) (rqs ?S4 i)" if "i \<noteq> c" for i using acctD(4) [OF a, of i] that by (simp add: R t3)
    show "same_static S ?S4" by (rule same_static_trans [OF acctD(6) [OF a] same_static_trans [OF t3(3) R(3)]])
  qed (use R(4) top4 push4 mig hi r(1-3) f in \<open>simp_all add: R(1) t3\<close>)
  let ?S5 = "smp_enqueue_top_rt_rq c ?S4"
  have d5: "detached S ?S5 c p (pushables S c)" by (rule detached_acct [OF d4 acct_enqueue_top])
  have d6: "detached S (dequeue_pushable_task c p ?S5) c p (pushables S c - {p})" by (rule detached_dequeue [OF d5])
  have "smp_dequeue_task_rt E c p flags S = Some (dequeue_pushable_task c p ?S5)"
    using S1(1) S2(1) on2 mv
    by (simp add: smp_dequeue_task_rt_def smp_dequeue_rt_entity_def smp_dequeue_rt_stack_def smp_dequeue_rt_entity_self_def S3_def)
  moreover have "rt_nr_running (rtr S c) \<noteq> 0" using arr_empty [OF wf] lp by auto
  then have "unat (rt_nr_running (rtr (dequeue_pushable_task c p ?S5) c)) \<le> max_tasks"
    unfolding detachedD(10) [OF d6] by (intro nr_bound_dec smp_inv_xB(1) [OF invx])
  ultimately show ?thesis using d6 by blast
qed


section \<open>The new affinity\<close>

definition with_mask :: "pid \<Rightarrow> cpumask \<Rightarrow> ('c, 'x) smp \<Rightarrow> ('c, 'x) smp" where
  "with_mask p m S = set_cpus_allowed_common p m S"

lemma with_mask_simps:
  "rqs (with_mask p m S) = rqs S" "rd (with_mask p m S) = rd S" "same_static S (with_mask p m S)" "nr_cpu_ids (with_mask p m S) = nr_cpu_ids S"
  "q \<noteq> p \<Longrightarrow> tk (with_mask p m S) q = tk S q" "rt (tk (with_mask p m S) q) = rt (tk S q)" "prio (tk (with_mask p m S) q) = prio (tk S q)"
  "task_cpu (tk (with_mask p m S) q) = task_cpu (tk S q)" "cpus_allowed (tk (with_mask p m S) p) = m" "cpu_queued (with_mask p m S) c = cpu_queued S c"
  by (simp_all add: with_mask_def set_cpus_allowed_common_def cpu_queued_def)

lemma affine_mask: "affine p S (with_mask p m S)"
  by (auto simp: affine_def with_mask_def set_cpus_allowed_common_def)

lemma keeps_mask:
  assumes "keeps_task (tk S p) (tk Z p)" "nr_cpu_ids Z = nr_cpu_ids S"
  shows "keeps_task (tk (with_mask p m S) p) (tk (with_mask p m Z) p)"
proof -
  obtain s b e where "tk Z p = (tk S p)\<lparr>se := s, need_resched := b, rt := e\<rparr>" using assms(1) unfolding keeps_task_def by blast
  then have "tk (with_mask p m Z) p = (tk (with_mask p m S) p)\<lparr>se := s, need_resched := b, rt := e\<rparr>"
    using assms(2) by (simp add: with_mask_def set_cpus_allowed_common_def)
  then show ?thesis unfolding keeps_task_def by blast
qed

lemma others_mig_mask:
  assumes "arr_wf (tk S) (rtr S c)"
  shows "others_mig (with_mask p m S) c p = others_mig S c p"
proof -
  have "filter (\<lambda>q. migratable (tk (with_mask p m S) q)) (remove1 p (concat (cpu_queues S c))) =
      filter (\<lambda>q. migratable (tk S q)) (remove1 p (concat (cpu_queues S c)))"
    by (rule filter_cong) (use arr_wfD(3) [OF assms] in \<open>auto simp: with_mask_simps(5)\<close>)
  then show ?thesis by (simp add: others_mig_def with_mask_simps)
qed

lemma detached_mask:
  assumes d: "detached S Z c p X" and wf: "arr_wf (tk S) (rtr S c)"
  shows "detached (with_mask p m S) (with_mask p m Z) c p X"
proof -
  note D = detachedD [OF d] and M = with_mask_simps
  have n: "nr_cpu_ids Z = nr_cpu_ids S" using D(6) by (simp add: same_static_def)
  have "keeps_task (tk (with_mask p m S) q) (tk (with_mask p m Z) q)" for q
    using keeps_mask [OF D(1) n] D(1) [of q] M(5) [of q p m S] M(5) [of q p m Z] by (cases "q = p") auto
  moreover have "same_static (with_mask p m S) (with_mask p m Z)"
    using D(6) by (simp add: same_static_def with_mask_def set_cpus_allowed_common_def)
  moreover have "rto_wf (with_mask p m Z)" using D(7) by (simp add: rto_wf_def M)
  moreover have "push_wf (tk (with_mask p m Z)) (rtr Z c) X"
    using D(14) push_wf_cong [of X "tk (with_mask p m Z)" "tk Z" "rtr Z c"] M(7) by blast
  ultimately show ?thesis
    unfolding detached_def M(1) others_mig_mask [OF wf] M(6) using D by blast
qed

text \<open>Putting the task back.\<close>

lemma highest_restored:
  assumes wf: "arr_wf T r" and p: "linked p (rt_queue (active r))"
  shows "min (prio (T p)) (if rt_nr_running r - 1 = 0 then 100 else highest_curr r) = highest_curr r"
proof -
  have le: "highest_curr r \<le> prio (T p)" by (rule highest_curr_iff(1) [OF wf p])
  have pr: "rt_prio_ok (prio (T p))" using arr_wfD(12) [OF wf p] by simp
  show ?thesis
  proof (cases "rt_nr_running r - 1 = 0")
    case True
    then have "length (concat (rt_queue (active r))) = 1" using arr_count(2) [OF wf] by simp
    then have one: "set (concat (rt_queue (active r))) = {p}"
      using p unfolding linked_iff_concat by (metis One_nat_def card_1_singletonE card_length distinct_card arr_wfD(3) [OF wf] singletonD)
    obtain q where "linked q (rt_queue (active r))" "prio (T q) = highest_curr r"
      using highest_curr_iff(3) [OF wf] le pr by (auto simp: rt_prio_ok_def)
    then have "prio (T p) = highest_curr r" using one unfolding linked_iff_concat by auto
    then show ?thesis using True pr by (simp add: rt_prio_ok_def)
  next
    case False
    then show ?thesis using le by simp
  qed
qed

lemma restored_enqueue:
  assumes inv: "smp_inv S" and p: "p \<in> cpu_queued S c" and mv: "\<not> move_entity flags" "flags AND ENQUEUE_WAKEUP = 0"
    and d: "detached (with_mask p m S) Z c p X" and bd: "unat (rt_nr_running (rtr Z c)) \<le> max_tasks" and X: "p \<notin> X"
  shows "\<exists>S'. smp_enqueue_task_rt E c p flags Z = Some S' \<and> smp_frame (with_mask p m S) S' \<and> (\<forall>i. cpu_queued S' i = cpu_queued S i) \<and>
    smp_inv_x S' c (if p \<noteq> q_curr (rqs S c) \<and> migratable (tk S' p) then insert p X else X)"
proof -
  let ?S = "with_mask p m S"
  note D = detachedD [OF d] and M = with_mask_simps
  have invx: "smp_inv_x S c (pushables S c)" using inv by (simp only: smp_inv_iff [of S c])
  have wf: "arr_wf (tk S) (rtr S c)" and lp: "linked p (cpu_queues S c)" using smp_inv_xD(1) [OF invx] p by (simp_all add: cpu_queued_def)
  obtain Z1 where Z1: "smp_dequeue_top_rt_rq c Z = Some Z1" "acct Z Z1" "\<not> rt_queued (rtr Z1 c)"
    using acct_dequeue_top [OF bd D(8)] by blast
  have d1: "detached ?S Z1 c p X" by (rule detached_acct [OF d Z1(2)])
  note D1 = detachedD [OF d1]
  define Z2 where "Z2 = upd_tk_rt Z1 p (\<lambda>e. e\<lparr>rt_on_rq := True\<rparr>)"
  have t2: "rqs Z2 = rqs Z1" "rd Z2 = rd Z1" "same_static Z1 Z2" "keeps_task (tk Z1 q) (tk Z2 q)"
    "rt_on_rq (rt (tk Z2 q)) \<longleftrightarrow> q = p \<or> rt_on_rq (rt (tk Z1 q))" for q
    by (auto simp: Z2_def)
  have rto: "rto_wf Z2" using D1(7) by (simp add: rto_wf_def t2)
  from inc_rt_tasks_effect [OF rto, where E = E and c = c and p = p] obtain r where
    R: "rqs (smp_inc_rt_tasks E c p Z2) = (rqs Z2)(c := (rqs Z2 c)\<lparr>q_rt := r\<rparr>)" "tk (smp_inc_rt_tasks E c p Z2) = tk Z2"
      "same_static Z2 (smp_inc_rt_tasks E c p Z2)" "rto_wf (smp_inc_rt_tasks E c p Z2)"
    and r: "active r = active (rtr Z2 c)" "rt_nr_running r = rt_nr_running (rtr Z2 c) + 1" "rt_nr_total r = rt_nr_total (rtr Z2 c) + 1"
      "rt_nr_migratory r = rt_nr_migratory (rtr Z2 c) + (if migratable (tk Z2 p) then 1 else 0)"
      "highest_curr r = min (prio (tk Z2 p)) (highest_curr (rtr Z2 c))"
      "is_overloaded r \<longleftrightarrow> rt_nr_migratory r \<noteq> 0 \<and> rt_nr_total r > 1"
      "pushable_tasks r = pushable_tasks (rtr Z2 c)" "highest_next r = highest_next (rtr Z2 c)" "rt_queued r = rt_queued (rtr Z2 c)" .
  let ?S3 = "smp_inc_rt_tasks E c p Z2"
  have kt: "keeps_task (tk ?S q) (tk ?S3 q)" for q unfolding R(2) by (rule keeps_task_trans [OF D1(1) t2(4)])
  note k = keeps_taskD [OF kt]
  have kq: "keeps_rq (rqs S i) (rqs ?S3 i)" for i using D1(4) [of i] by (auto simp: R(1) t2(1) M(1) keeps_rq_def)
  have fr: "smp_frame ?S ?S3"
    unfolding smp_frame_def M(1) using kt kq same_static_trans [OF D1(6) same_static_trans [OF t2(3) R(3)]] by blast
  have act: "active r = active (rtr S c)" using r(1) D1(9) by (simp add: t2 M)
  have q3: "cpu_queued ?S3 i = cpu_queued S i" for i
    using D1(5) [of i] act by (cases "i = c") (auto simp: cpu_queued_def R t2 M same_queues_def Let_def)
  have arrc: "arr_wf (tk ?S3) r"
  proof -
    have "highest_curr r = highest_curr (rtr S c)"
      using r(5) D1(13) highest_restored [OF wf lp] keeps_taskD(1) [OF D1(1), of p] D1(10) keeps_taskD(1) [OF t2(4), of p]
      by (cases "rt_nr_running (rtr S c) = 1") (simp_all add: t2 M)
    moreover have "rt_nr_migratory r = of_nat (length (filter (\<lambda>q. migratable (tk ?S3 q)) (concat (cpu_queues S c))))"
    proof -
      have "filter (\<lambda>q. migratable (tk ?S3 q)) l = filter (\<lambda>q. migratable (tk ?S q)) l" for l by (simp add: k(12))
      then show ?thesis
        using r(4) D1(12) mig_split [OF wf lp, of "tk ?S"] k(12) [of p] by (simp add: t2 R others_mig_def M del: filter_concat)
    qed
    moreover have "levelled (\<lambda>q. nat (prio (tk ?S3 q))) (cpu_queues S c)" using arr_wfD(2) [OF wf] by (simp add: k(1) M)
    ultimately show ?thesis
      unfolding arr_wf_def Let_def act using wf r(2,3,6) D1(10,11) arr_wfD [OF wf] by (simp add: t2 M k(1))
  qed
  have arr: "arr_wf (tk ?S3) (rtr ?S3 i)" for i
  proof (cases "i = c")
    case False
    have nl: "\<not> linked p (cpu_queues S i)"
      using queued_on [OF smp_invD(4) [OF inv], of p i] queued_on [OF smp_invD(4) [OF inv], of p c] p False by (auto simp: cpu_queued_def)
    have sq: "same_queues (rqs S i) (rqs ?S3 i)" using D1(5) [OF False] False by (simp add: R t2 M)
    then have "arr_wf (tk S) (rtr ?S3 i) = arr_wf (tk S) (rtr S i)" by (simp add: arr_wf_def same_queues_def Let_def)
    moreover have "arr_wf (tk ?S3) (rtr ?S3 i) = arr_wf (tk S) (rtr ?S3 i)"
    proof (rule arr_wf_cong)
      fix q
      assume "linked q (cpu_queues ?S3 i)"
      then have "q \<noteq> p" using nl sq by (auto simp: same_queues_def Let_def)
      then show "prio (tk ?S3 q) = prio (tk S q)" "nr_cpus_allowed (tk ?S3 q) = nr_cpus_allowed (tk S q)"
        using k(1,2) [of q] M(5) [of q p m S] by simp_all
    qed
    ultimately show ?thesis using smp_inv_xD(1) [OF invx] by simp
  qed (use arrc in \<open>simp add: R\<close>)
  have top: "top_wf (rqs ?S3 i)" for i
  proof (cases "i = c")
    case True
    then show ?thesis using D1(8) Z1(3) r(9) by (simp add: R t2 top_wf_def cpu_others_def)
  next
    case False
    then show ?thesis using D1(5) [OF False] smp_inv_xD(2) [OF invx, of i] by (auto simp: R t2 M top_wf_def same_queues_def Let_def)
  qed
  have pu: "push_wf (tk ?S3) (rtr ?S3 i) (if i = c then X else pushables ?S3 i)" for i
  proof (cases "i = c")
    case True
    have "push_wf (tk Z1) r X" using D1(14) r(7,8) by (simp add: push_wf_def t2)
    then show ?thesis using True push_wf_cong [of X "tk ?S3" "tk Z1" r] keeps_taskD(1) [OF t2(4)] by (simp add: R)
  next
    case False
    have sq: "same_queues (rqs S i) (rqs ?S3 i)" using D1(5) [OF False] False by (simp add: R t2 M)
    have "p \<notin> cpu_queued S i" using queued_on [OF smp_invD(4) [OF inv], of p i] queued_on [OF smp_invD(4) [OF inv], of p c] p False by auto
    then have "x \<in> pushables ?S3 i \<longleftrightarrow> x \<in> pushables S i" for x
      using kq [of i] k(12) [of x] M(5) [of x p m S] by (cases "x = p") (simp_all add: pushables_def q3 keeps_rq_def)
    then have ps: "pushables ?S3 i = pushables S i" by blast
    have "push_wf (tk S) (rtr ?S3 i) (pushables S i)" using smp_inv_xD(4) [OF invx False] sq by (simp add: push_wf_def same_queues_def Let_def)
    moreover have "prio (tk ?S3 x) = prio (tk S x)" for x using k(1) [of x] M(7) [of p m S x] by simp
    ultimately show ?thesis using False ps push_wf_cong [of "pushables S i" "tk ?S3" "tk S" "rtr ?S3 i"] by simp
  qed
  have mem: "member_wf ?S3"
    unfolding member_wf_def q3 k(3) M(8)
  proof (intro conjI allI impI)
    show "rt_on_rq (rt (tk ?S3 x)) \<longleftrightarrow> x \<in> cpu_queued S (task_cpu (tk S x))" for x
      using smp_inv_xD(5) [OF invx] D1(2) [of x] p by (cases "x = p") (auto simp: R t2 M member_wf_def)
    show "task_cpu (tk S x) = i" if "x \<in> cpu_queued S i" for x i using smp_inv_xD(5) [OF invx] that by (auto simp: member_wf_def)
  qed
  have i3: "smp_inv_x ?S3 c X" unfolding smp_inv_x_def using arr top pu mem R(4) by blast
  let ?S4 = "smp_enqueue_top_rt_rq c ?S3"
  have a4: "acct ?S3 ?S4" by simp
  have i4: "smp_inv_x ?S4 c X" by (rule acct_inv_x [OF a4 i3])
  have f4: "smp_frame ?S ?S4" by (rule smp_frame_trans [OF fr acct_frame [OF a4]])
  have e: "smp_enqueue_rt_entity E c p flags Z = Some ?S4"
    using Z1(1) D1(3) mv(1) by (simp add: smp_enqueue_rt_entity_def smp_dequeue_rt_stack_def smp_enqueue_rt_entity_self_def Z2_def)
  let ?add = "\<not> smp_task_current ?S4 c p \<and> nr_cpus_allowed (tk ?S4 p) > 1"
  have addiff: "?add \<longleftrightarrow> p \<noteq> q_curr (rqs S c) \<and> migratable (tk ?S4 p)"
    using smp_frameD(2) [OF f4, of c] by (auto simp: smp_task_current_def migratable_def M)
  define S' where "S' = (if ?add then enqueue_pushable_task c p ?S4 else ?S4)"
  have "smp_inv_x S' c (if ?add then insert p X else X)"
  proof (cases ?add)
    case True
    have "rt_prio_ok (prio (tk ?S4 p))"
      using arr_wfD(12) [OF wf lp] keeps_taskD(1) [OF smp_frameD(1) [OF f4], of p] by (simp add: M)
    from enqueue_pushable_inv [OF i4 X this] show ?thesis unfolding S'_def using True by simp
  next
    case False
    show ?thesis unfolding S'_def if_not_P [OF False] by (rule i4)
  qed
  moreover have "tk S' = tk ?S4" by (simp add: S'_def enqueue_pushable_eq)
  ultimately have "smp_inv_x S' c (if p \<noteq> q_curr (rqs S c) \<and> migratable (tk S' p) then insert p X else X)" unfolding addiff by simp
  moreover have "smp_frame ?S S'" unfolding S'_def using f4 smp_frame_trans [OF f4 pushable_frame(1)] by simp
  moreover have "cpu_queued S' i = cpu_queued S i" for i unfolding S'_def using q3 acct_queued [OF a4] by simp
  moreover have "smp_enqueue_task_rt E c p flags Z = Some S'" using e mv(2) unfolding smp_enqueue_task_rt_def S'_def Let_def by simp
  ultimately show ?thesis by blast
qed

text \<open>The whole change for a queued real-time task, running or not.\<close>

definition masked :: "('c, 'x) smp \<Rightarrow> ('c, 'x) smp \<Rightarrow> pid \<Rightarrow> cpumask \<Rightarrow> bool" where
  "masked S S' p m \<longleftrightarrow> sys0 S' \<and> (\<forall>i. cpu_queued S' i = cpu_queued S i) \<and> cpus_allowed (tk S' p) = m \<and>
     (\<forall>q. on_rq (tk S' q) = on_rq (tk S q) \<and> task_cpu (tk S' q) = task_cpu (tk S q) \<and> on_cpu (tk S' q) = on_cpu (tk S q) \<and>
        state (tk S' q) = state (tk S q) \<and> sched_class (tk S' q) = sched_class (tk S q) \<and> prio (tk S' q) = prio (tk S q)) \<and>
     (\<forall>c. keeps_rq (rqs S c) (rqs S' c)) \<and> same_static S S'"

lemma frame_masked:
  assumes sys: "sys0 S" and a: "affine p S S1" "cpus_allowed (tk S1 p) = m" and st: "stays S1 S2" and inv: "smp_inv S2"
    and q: "\<And>i. cpu_queued S2 i = cpu_queued S i"
  shows "masked S S2 p m"
proof -
  note A = affineD [OF a(1)]
  have mf: "moved_frame S1 S2" "task_cpu (tk S2 x) = task_cpu (tk S1 x)" for x using st by (simp_all add: stays_def)
  note V = moved_view [OF mf(1)] moved_rq [OF mf(1)]
  have v: "on_rq (tk S2 x) = on_rq (tk S x)" "task_cpu (tk S2 x) = task_cpu (tk S x)" "on_cpu (tk S2 x) = on_cpu (tk S x)"
    "state (tk S2 x) = state (tk S x)" "sched_class (tk S2 x) = sched_class (tk S x)" "prio (tk S2 x) = prio (tk S x)" for x
    using mf(2) V A by simp_all
  have k: "keeps_rq (rqs S c) (rqs S2 c)" for c using moved_frameD(2) [OF mf(1), of c] A(8) by simp
  have w: "q_wake_list (rqs S2 c) = q_wake_list (rqs S c)" "q_idle (rqs S2 c) = q_idle (rqs S c)" "q_curr (rqs S2 c) = q_curr (rqs S c)" for c
    using k by (simp_all add: keeps_rq_def)
  have rt: "rt_task (tk S2 x) = rt_task (tk S x)" for x by (simp add: rt_task_def v)
  have on: "rt_on_rq (rt (tk S2 x)) = rt_on_rq (rt (tk S x))" for x
    using on_rq_all_queued [OF smp_invD(4) [OF inv], of x] on_rq_all_queued [OF rt_sysD(3) [OF sys0D(1) [OF sys]], of x]
    by (simp add: all_queued_def q)
  have "tasks_wf S2" using rt_sysD(2) [OF sys0D(1) [OF sys]] by (simp add: tasks_wf_def q v rt on)
  moreover have "class_wf S2" using sys0D(2) [OF sys] by (simp add: class_wf_def v rt)
  moreover have "wake_wf S2" using sys0D(3) [OF sys] by (simp add: wake_wf_def waking_def v w)
  moreover have "place_wf S2" using sys0D(4) [OF sys] by (simp add: place_wf_def v w)
  moreover have "idle_wf S2" using sys0D(5) [OF sys] by (simp add: idle_wf_def Let_def v w)
  ultimately have "sys0 S2" using inv by (simp add: sys0_def rt_sys_def)
  moreover have "cpus_allowed (tk S2 p) = m" using a(2) V(2) by simp
  ultimately show ?thesis
    using v k q same_static_trans [OF A(10) moved_frameD(3) [OF mf(1)]] by (simp add: masked_def)
qed

lemma save_flags [simp]: "\<not> move_entity (DEQUEUE_SAVE OR DEQUEUE_NOCLOCK)" "(DEQUEUE_SAVE OR DEQUEUE_NOCLOCK) AND DEQUEUE_NOCLOCK \<noteq> 0"
  "\<not> move_entity (ENQUEUE_RESTORE OR ENQUEUE_NOCLOCK)" "(ENQUEUE_RESTORE OR ENQUEUE_NOCLOCK) AND ENQUEUE_NOCLOCK \<noteq> 0"
  "(ENQUEUE_RESTORE OR ENQUEUE_NOCLOCK) AND ENQUEUE_WAKEUP = 0"
  by code_simp+

lemma set_allowed_rt:
  assumes sys: "sys0 S" and p: "p \<in> cpu_queued S c"
  shows "\<exists>S'. do_set_cpus_allowed E p m S = Some S' \<and> masked S S' p m"
proof -
  note rs = sys0D(1) [OF sys] and Q = queuedD [OF sys0D(1) [OF sys] p] and M = with_mask_simps
  have inv: "smp_inv S" by (rule rt_sysD(1) [OF rs])
  have wf: "arr_wf (tk S) (rtr S c)" by (rule rt_sysD(4) [OF rs])
  let ?run = "q_curr (rqs S c) = p" let ?X = "pushables S c - {p}"
  obtain Z where Z: "smp_dequeue_task_rt E c p (DEQUEUE_SAVE OR DEQUEUE_NOCLOCK) S = Some Z" "detached S Z c p ?X"
    "unat (rt_nr_running (rtr Z c)) \<le> max_tasks"
    using saved_dequeue [OF inv p save_flags(1)] by blast
  have clZ: "sched_class (tk Z p) = RtClass" using keeps_taskD(7) [OF detachedD(1) [OF Z(2)], of p] Q(2) by simp
  have "\<exists>Z1. (if ?run then smp_put_prev_task E c p Z else Some Z) = Some Z1 \<and> acct Z Z1"
  proof (cases ?run)
    case True
    obtain Z1 where Z1: "smp_update_curr_rt E c Z = Some Z1" "acct Z Z1" using acct_update_curr [OF Z(3) detachedD(8) [OF Z(2)]] by blast
    have "\<not> rt_on_rq (rt (tk Z1 p))" using detachedD(3) [OF Z(2)] acctD(2) [OF Z1(2)] by simp
    then show ?thesis using True Z1 clZ by (simp add: smp_put_prev_task_def smp_put_prev_task_rt_def)
  qed simp
  then obtain Z1 where Z1: "(if ?run then smp_put_prev_task E c p Z else Some Z) = Some Z1" "acct Z Z1" by blast
  have d1: "detached S Z1 c p ?X" by (rule detached_acct [OF Z(2) Z1(2)])
  have b1: "unat (rt_nr_running (rtr Z1 c)) \<le> max_tasks" by (rule acct_wf(1) [OF Z1(2) Z(3) detachedD(8) [OF Z(2)]])
  have clZ1: "sched_class (tk Z1 p) = RtClass" using keeps_taskD(7) [OF detachedD(1) [OF d1], of p] Q(2) by simp
  let ?Z2 = "with_mask p m Z1"
  have d2: "detached (with_mask p m S) ?Z2 c p ?X" by (rule detached_mask [OF d1 wf])
  have b2: "unat (rt_nr_running (rtr ?Z2 c)) \<le> max_tasks" using b1 by (simp add: M)
  obtain S3 where S3: "smp_enqueue_task_rt E c p (ENQUEUE_RESTORE OR ENQUEUE_NOCLOCK) ?Z2 = Some S3" "smp_frame (with_mask p m S) S3"
    "\<forall>i. cpu_queued S3 i = cpu_queued S i" "smp_inv_x S3 c (if p \<noteq> q_curr (rqs S c) \<and> migratable (tk S3 p) then insert p ?X else ?X)"
    using restored_enqueue [OF inv p save_flags(3,5) d2 b2] by blast
  have clZ2: "sched_class (tk ?Z2 p) = RtClass" "sched_class (tk S3 p) = RtClass"
    using clZ1 keeps_taskD(7) [OF smp_frameD(1) [OF S3(2)], of p] Q(2) by (simp_all add: with_mask_def set_cpus_allowed_common_def)
  define S4 where "S4 = (if ?run then smp_set_curr_task_rt c S3 else S3)"
  have cur3: "q_curr (rqs S3 c) = q_curr (rqs S c)" using smp_frameD(2) [OF S3(2), of c] by (simp add: M)
  let ?S3' = "upd_tk S3 (q_curr (rqs S3 c)) (\<lambda>t. t\<lparr>se := (se t)\<lparr>exec_start := q_clock_task (rqs S3 c)\<rparr>\<rparr>)"
  have a3: "acct S3 ?S3'" by (rule acct_task) simp_all
  have f4: "smp_frame (with_mask p m S) S4"
    unfolding S4_def smp_set_curr_task_rt_def Let_def using S3(2) smp_frame_trans [OF smp_frame_trans [OF S3(2) acct_frame [OF a3]] pushable_frame(2)] by simp
  have q4: "cpu_queued S4 i = cpu_queued S i" for i
    unfolding S4_def smp_set_curr_task_rt_def Let_def using S3(3) acct_queued [OF a3] by simp
  have X4: "smp_inv_x S4 c (if p \<noteq> q_curr (rqs S c) \<and> migratable (tk S4 p) then insert p ?X else ?X)"
  proof (cases ?run)
    case True
    have "smp_inv_x S3 c ?X" using S3(4) True by simp
    from dequeue_pushable_inv [OF acct_inv_x [OF a3 this], of "q_curr (rqs S3 c)"] show ?thesis
      unfolding S4_def smp_set_curr_task_rt_def Let_def using True cur3 by simp
  qed (use S3(4) in \<open>simp add: S4_def\<close>)
  have "pushables S4 c = (if p \<noteq> q_curr (rqs S c) \<and> migratable (tk S4 p) then insert p ?X else ?X)"
  proof -
    have "q_curr (rqs S4 c) = q_curr (rqs S c)" using smp_frameD(2) [OF f4, of c] by (simp add: M)
    moreover have "migratable (tk S4 x) = migratable (tk S x)" if "x \<noteq> p" for x
      using keeps_taskD(12) [OF smp_frameD(1) [OF f4], of x] M(5) [OF that, of m S] by simp
    ultimately have "x \<in> pushables S4 c \<longleftrightarrow> x \<in> (if p \<noteq> q_curr (rqs S c) \<and> migratable (tk S4 p) then insert p ?X else ?X)" for x
      using p by (cases "x = p") (simp_all add: pushables_def q4)
    then show ?thesis by blast
  qed
  then have i4: "smp_inv S4" using X4 by (simp only: smp_inv_iff [of S4 c])
  have mk: "masked S S4 p m" by (rule frame_masked [OF sys affine_mask M(9) frame_stays [OF f4] i4 q4])
  have dq: "smp_dequeue_task E c p (DEQUEUE_SAVE OR DEQUEUE_NOCLOCK) S = Some Z" using Z(1) Q(2) by (simp add: smp_dequeue_task_def Let_def)
  have eq: "smp_enqueue_task E c p (ENQUEUE_RESTORE OR ENQUEUE_NOCLOCK) (class_set_cpus_allowed E p m Z1) = Some S3"
    using S3(1) clZ1 clZ2 by (simp add: smp_enqueue_task_def class_set_cpus_allowed_def with_mask_def Let_def)
  have "do_set_cpus_allowed E p m S = Some S4"
    using dq eq Z1(1) Q(1,3) clZ2(2) unfolding do_set_cpus_allowed_def Let_def S4_def
    by (simp add: task_on_rq_queued_def smp_task_current_def smp_set_curr_task_def split: if_split_asm)
  then show ?thesis using mk by blast
qed

end
