(* ===== verification/Smp_System.thy ===== *)
theory Smp_System
  imports Smp_Steps Smp_Affinity
begin

text \<open>
  The system of several processors as a whole: changes of affinity for tasks of any class, the steps the processors take in
  any order, and what holds in every state they reach.
\<close>


section \<open>Changes of affinity\<close>

text \<open>The contract of \<open>set_curr_task\<close> of the other classes.\<close>

definition curr_ok :: "('c, 'x, 'e) senv_scheme \<Rightarrow> bool" where
  "curr_ok E \<longleftrightarrow> (\<forall>S cls c. rt_sys S \<longrightarrow> cls \<noteq> RtClass \<longrightarrow> (\<exists>S'. o_set_curr E cls c S = Some S' \<and> leaves_rt S S'))"

lemma leaves_sys0: "leaves_rt S S' \<Longrightarrow> sys0 S \<Longrightarrow> sys0 S'"
  using calm_sys0 [OF calm_leaves] sys0D(1) by blast

lemma leaves_view:
  assumes "leaves_rt S S'"
  shows "sched_class (tk S' q) = sched_class (tk S q)" "on_rq (tk S' q) = on_rq (tk S q)" "all_queued S' = all_queued S"
    "q_curr (rqs S' c) = q_curr (rqs S c)" "task_cpu (tk S' q) = task_cpu (tk S q)"
  using moved_rq [OF leaves_moved [OF assms]] leavesD(2) [OF assms] by (simp_all add: all_queued_def leaves_queued [OF assms])

lemma masked_leaves:
  assumes l: "leaves_rt S S1" and m: "masked S1 S' p m"
  shows "masked S S' p m"
  using m leavesD(4,8) [OF l] keeps_rq_trans same_static_trans moved_view [OF leaves_moved [OF l]] moved_rq [OF leaves_moved [OF l]]
    leavesD(2) [OF l] leaves_queued [OF l]
  unfolding masked_def by (metis (no_types, lifting))

lemma class_set_affine:
  assumes E: "affinity_ok E"
  shows "affine p S (class_set_cpus_allowed E p m S)" "cpus_allowed (tk (class_set_cpus_allowed E p m S) p) = m"
proof -
  have "affine p S (set_cpus_allowed_common p m S)"
    unfolding set_cpus_allowed_common_def affine_def by (auto simp: same_static_def)
  then show "affine p S (class_set_cpus_allowed E p m S)" "cpus_allowed (tk (class_set_cpus_allowed E p m S) p) = m"
    using E by (simp_all add: class_set_cpus_allowed_def affinity_ok_def set_cpus_allowed_common_def)
qed

lemma set_allowed_other:
  assumes E: "others_ok E" "affinity_ok E" "curr_ok E" and sys: "sys0 S" and p: "sched_class (tk S p) \<noteq> RtClass"
  shows "\<exists>S'. do_set_cpus_allowed E p m S = Some S' \<and> masked S S' p m"
proof -
  let ?c = "task_cpu (tk S p)" let ?q = "task_on_rq_queued (tk S p)" and ?r = "smp_task_current S ?c p"
  let ?cls = "sched_class (tk S p)"
  have pass: "\<exists>S2. (if b then f S1 else Some S1) = Some S2 \<and> leaves_rt S1 S2"
    if "sys0 S1" "b \<Longrightarrow> \<exists>S2. f S1 = Some S2 \<and> leaves_rt S1 S2" for b S1 and f :: "('a, 'b) smp \<Rightarrow> ('a, 'b) smp option"
    using that leaves_refl [OF rt_sysD(1) [OF sys0D(1) [OF that(1)]]] by (cases b) auto
  note oth = others_okD [OF E(1) sys0D(1)]
  obtain S1 where S1: "(if ?q then smp_dequeue_task E ?c p (DEQUEUE_SAVE OR DEQUEUE_NOCLOCK) S else Some S) = Some S1" "leaves_rt S S1"
    using pass [OF sys, of ?q "smp_dequeue_task E ?c p (DEQUEUE_SAVE OR DEQUEUE_NOCLOCK)"] oth(2) [OF sys p] p
    by (auto simp: smp_dequeue_task_def Let_def)
  have s1: "sys0 S1" by (rule leaves_sys0 [OF S1(2) sys])
  have c1: "sched_class (tk S1 p) = ?cls" using leaves_view(1) [OF S1(2)] by simp
  obtain S2 where S2: "(if ?r then smp_put_prev_task E ?c p S1 else Some S1) = Some S2" "leaves_rt S1 S2"
    using pass [OF s1, of ?r "smp_put_prev_task E ?c p"] oth(3) [OF s1 p] p c1 by (auto simp: smp_put_prev_task_def)
  have s2: "sys0 S2" by (rule leaves_sys0 [OF S2(2) s1])
  have c2: "sched_class (tk S2 p) = ?cls" using leaves_view(1) [OF S2(2)] c1 by simp
  define S3 where "S3 = class_set_cpus_allowed E p m S2"
  have a3: "affine p S2 S3" "cpus_allowed (tk S3 p) = m" unfolding S3_def by (rule class_set_affine [OF E(2)])+
  have s3: "sys0 S3" by (rule affine_sys0 [OF s2 not_rt_queued [OF sys0D(1) [OF s2]] a3(1)]) (use p c2 in simp)
  have c3: "sched_class (tk S3 p) = ?cls" using affineD(6) [OF a3(1)] c2 by simp
  obtain S4 where S4: "(if ?q then smp_enqueue_task E ?c p (ENQUEUE_RESTORE OR ENQUEUE_NOCLOCK) S3 else Some S3) = Some S4" "leaves_rt S3 S4"
    using pass [OF s3, of ?q "smp_enqueue_task E ?c p (ENQUEUE_RESTORE OR ENQUEUE_NOCLOCK)"] oth(1) [OF s3 p] p c3
    by (auto simp: smp_enqueue_task_def Let_def)
  have s4: "sys0 S4" by (rule leaves_sys0 [OF S4(2) s3])
  have c4: "sched_class (tk S4 p) = ?cls" using leaves_view(1) [OF S4(2)] c3 by simp
  have set: "\<exists>S'. o_set_curr E ?cls ?c S4 = Some S' \<and> leaves_rt S4 S'" using E(3) sys0D(1) [OF s4] p unfolding curr_ok_def by blast
  obtain S5 where S5: "(if ?r then smp_set_curr_task E ?c p S4 else Some S4) = Some S5" "leaves_rt S4 S5"
    using pass [OF s4, of ?r "smp_set_curr_task E ?c p"] set p c4 by (auto simp: smp_set_curr_task_def)
  have s5: "sys0 S5" by (rule leaves_sys0 [OF S5(2) s4])
  have q: "cpu_queued S5 i = cpu_queued S2 i" for i
    using leaves_queued [OF S5(2)] leaves_queued [OF S4(2)] affineD(8) [OF a3(1)] by (simp add: cpu_queued_def)
  have "masked S2 S5 p m"
    by (rule frame_masked [OF s2 a3 stays_trans [OF leaves_stays [OF S4(2)] leaves_stays [OF S5(2)]] rt_sysD(1) [OF sys0D(1) [OF s5]] q])
  then have "masked S S5 p m" by (rule masked_leaves [OF S1(2) masked_leaves [OF S2(2)]])
  moreover have "do_set_cpus_allowed E p m S = Some S5"
    by (simp only: do_set_cpus_allowed_def Let_def S1(1) S2(1) S3_def [symmetric] S4(1) S5(1) Option.bind_lunit)
  ultimately show ?thesis by blast
qed

lemma set_allowed_any:
  assumes E: "others_ok E" "affinity_ok E" "curr_ok E" and sys: "sys S"
  shows "\<exists>S'. do_set_cpus_allowed E p m S = Some S' \<and> masked S S' p m"
proof (cases "sched_class (tk S p) = RtClass \<and> on_rq (tk S p) = TASK_ON_RQ_QUEUED")
  case True
  have s0: "sys0 S" using sys by (simp add: sys_def)
  then obtain c where "p \<in> cpu_queued S c"
    using queued_rt [OF s0] True on_rq_all_queued [OF rt_sysD(3) [OF sys0D(1) [OF s0]]] by (auto simp: all_queued_def)
  then show ?thesis by (rule set_allowed_rt [OF s0])
next
  case False
  have s0: "sys0 S" using sys by (simp add: sys_def)
  show ?thesis
  proof (cases "sched_class (tk S p) = RtClass")
    case True
    then have nq: "on_rq (tk S p) \<noteq> TASK_ON_RQ_QUEUED" using False by simp
    have off: "\<not> on_cpu (tk S p)" using sys nq sys0D(4) [OF s0] by (auto simp: sys_def place_wf_def)
    obtain S' where S': "do_set_cpus_allowed E p m S = Some S'" "affine p S S'" "cpus_allowed (tk S' p) = m"
      using set_allowed_ok [OF E(2) nq off sys0D(4) [OF s0]] by blast
    have s': "sys0 S'" by (rule affine_sys0 [OF s0 on_rq_idle [OF sys0D(1) [OF s0] nq] S'(2)])
    have "masked S S' p m"
      by (rule frame_masked [OF s0 S'(2,3) _ rt_sysD(1) [OF sys0D(1) [OF s']]])
        (use leaves_stays [OF leaves_refl [OF rt_sysD(1) [OF sys0D(1) [OF s']]]] in \<open>simp_all add: cpu_queued_def affineD(8) [OF S'(2)]\<close>)
    then show ?thesis using S'(1) by blast
  next
    case False
    then show ?thesis by (rule set_allowed_other [OF E s0])
  qed
qed

lemma masked_sys:
  assumes "sys S" "masked S S' p m"
  shows "sys S'"
proof -
  have "sys0 S'" "\<And>q. on_rq (tk S' q) = on_rq (tk S q)" "\<And>c. q_curr (rqs S' c) = q_curr (rqs S c)"
    using assms(2) by (simp_all add: masked_def keeps_rq_def)
  then show ?thesis using assms(1) by (simp add: sys_def)
qed

text \<open>
  What a call of \<open>__set_cpus_allowed_ptr\<close> has done: refused, with the mask unchanged; or set the mask, and then a queued task
  is on a processor of the new mask, unless the stopper of its processor has been asked to move it to one.
\<close>

definition affinity_applied :: "pid \<Rightarrow> cpumask \<Rightarrow> affinity_result \<Rightarrow> ('c, 'x) smp \<Rightarrow> ('c, 'x) smp \<Rightarrow> bool" where
  "affinity_applied p m r S S' \<longleftrightarrow>
     (let n = nr_cpu_ids S; old = cpus_allowed (tk S p); new = cpus_allowed (tk S' p) in
      case r of
        Returns v \<Rightarrow> v = - 22 \<and> new = old \<or>
          v = 0 \<and> (if cpumask_equal n old m then new = old else new = m \<and> (on_rq (tk S' p) = TASK_ON_RQ_QUEUED \<longrightarrow> m (task_cpu (tk S' p))))
      | StopCpu c q d \<Rightarrow> q = p \<and> c = task_cpu (tk S p) \<and> d < n \<and> m d \<and> new = m)"

lemma cpumask_first_and_less: "cpumask_first_and n a b < n \<Longrightarrow> b (cpumask_first_and n a b)"
  using cpumask_first_less [of n "\<lambda>c. a c \<and> b c"] by (simp add: cpumask_first_and_def)

lemma set_affinity_ok:
  assumes E: "others_ok E" "affinity_ok E" "curr_ok E" and sys: "sys S" and p: "\<And>i. q_idle (rqs S i) \<noteq> p"
  shows "\<exists>r S'. set_cpus_allowed_ptr_main E p m check S = Some (r, S') \<and> sys S' \<and> affinity_applied p m r S S' \<and>
    same_static S S' \<and> sched_class (tk S' p) = sched_class (tk S p)"
proof -
  let ?c = "task_cpu (tk S p)" let ?S1 = "smp_update_rq_clock ?c S"
  have c1: "calm S ?S1" using sys by (intro calm_acct acct_clock) (simp add: sys_def sys0_def)
  have s1: "sys ?S1" by (rule calm_sys [OF c1 sys])
  have t: "tk ?S1 = tk S" "nr_cpu_ids ?S1 = nr_cpu_ids S" by (simp_all add: smp_update_rq_clock_def Let_def)
  obtain S2 where S2: "do_set_cpus_allowed E p m ?S1 = Some S2" "masked ?S1 S2 p m" using set_allowed_any [OF E s1] by blast
  have s2: "sys S2" by (rule masked_sys [OF s1 S2(2)])
  have v2: "task_cpu (tk S2 p) = ?c" "cpus_allowed (tk S2 p) = m" using S2(2) by (simp_all add: masked_def t)
  have f1: "same_static S ?S1" using acct_stays [OF acct_clock, of S ?c] by (rule stays_static)
  have f2: "same_static S S2" "sched_class (tk S2 p) = sched_class (tk S p)"
    using same_static_trans [OF f1] S2(2) by (simp_all add: masked_def t)
  let ?n = "nr_cpu_ids S" and ?old = "cpus_allowed (tk S p)"
  let ?d = "cpumask_first_and ?n (if tflags (tk S p) AND PF_KTHREAD \<noteq> 0 then cpu_online_mask ?S1 else cpu_active_mask ?S1) m"
  show ?thesis
  proof (cases "check \<and> tflags (tk S p) AND PF_NO_SETAFFINITY \<noteq> 0 \<or> cpumask_equal ?n ?old m \<or> ?n \<le> ?d")
    case True
    then show ?thesis
      using s1 f1 unfolding set_cpus_allowed_ptr_main_def Let_def t affinity_applied_def by (auto simp: t)
  next
    case go: False
    then have d: "?d < ?n" "m ?d" using cpumask_first_and_less by (metis not_le)+
    have n: "\<not> (check \<and> tflags (tk S p) AND PF_NO_SETAFFINITY \<noteq> 0)" "\<not> cpumask_equal ?n ?old m" "\<not> ?n \<le> ?d" using go by blast+
    have e: "set_cpus_allowed_ptr_main E p m check S =
      (if m ?c then Some (Returns 0, S2)
       else if smp_task_running S2 p \<or> state (tk S2 p) = TASK_WAKING then Some (StopCpu ?c p ?d, S2)
       else if task_on_rq_queued (tk S2 p) then map_option (Pair (Returns 0)) (move_queued_task E ?c p ?d S2) else Some (Returns 0, S2))"
      unfolding set_cpus_allowed_ptr_main_def Let_def t if_not_P [OF n(1)] if_not_P [OF n(2)] if_not_P [OF n(3)] S2(1) by (simp add: v2)
    show ?thesis
    proof (cases "m ?c \<or> smp_task_running S2 p \<or> state (tk S2 p) = TASK_WAKING \<or> \<not> task_on_rq_queued (tk S2 p)")
      case True
      then show ?thesis using s2 go d v2 f2 unfolding e affinity_applied_def Let_def task_on_rq_queued_def by auto
    next
      case False
      have "q_idle (rqs S2 i) \<noteq> p" for i
        using p [of i] S2(2) calm_on_rq(8) [OF c1, of i] by (simp add: masked_def keeps_rq_def)
      then obtain S' where S': "move_queued_task E ?c p ?d S2 = Some S'" "relocated S2 S' p" "task_cpu (tk S' p) = ?d"
        "cpus_allowed (tk S' p) = m"
        using move_queued_ok [OF E(1), of S2 p ?c ?d] s2 False v2
        unfolding sys_def smp_task_running_def task_on_rq_queued_def by blast
      moreover have "same_static S S'" "sched_class (tk S' p) = sched_class (tk S p)"
        using S'(2) f2 same_static_trans by (auto simp: relocated_def)
      ultimately show ?thesis using False go d relocated_sys [OF s2 S'(2)] unfolding e affinity_applied_def Let_def by auto
    qed
  qed
qed


section \<open>Steps that touch one field\<close>

lemma static_calm:
  assumes "rt_sys S" "rqs S' = rqs S" "tk S' = tk S" "rd S' = rd S"
  shows "rt_sys S'"
proof -
  have q: "cpu_queued S' c = cpu_queued S c" "pushables S' c = pushables S c" for c by (simp_all add: cpu_queued_def pushables_def assms)
  have "member_wf S' = member_wf S" "rto_wf S' = rto_wf S" "tasks_wf S' = tasks_wf S"
    by (simp_all add: member_wf_def rto_wf_def tasks_wf_def q assms)
  then show ?thesis using assms(1) by (simp add: rt_sys_def smp_inv_def q assms)
qed

lemma static_sys:
  assumes "sys S" "rqs S' = rqs S" "tk S' = tk S" "rd S' = rd S"
  shows "sys S'"
proof -
  have "class_wf S' = class_wf S" "wake_wf S' = wake_wf S" "place_wf S' = place_wf S" "idle_wf S' = idle_wf S"
    by (simp_all add: class_wf_def wake_wf_def waking_def place_wf_def idle_wf_def assms)
  then show ?thesis using assms(1) static_calm [OF _ assms(2-4)] by (simp add: sys_def sys0_def assms(2-4))
qed

lemma set_state_sys:
  assumes sys: "sys S" and p: "p = q_curr (rqs S c)" "p \<noteq> q_idle (rqs S c)"
  shows "sys (upd_tk S p (\<lambda>t. t\<lparr>state := s\<rparr>))"
proof -
  have s0: "sys0 S" using sys by (simp add: sys_def)
  have "on_rq (tk S p) = TASK_ON_RQ_QUEUED" using sys p(1) by (simp add: sys_def)
  then have u: "unlisted S p" by (rule unlisted_queued [OF s0])
  have "q_idle (rqs S i) \<noteq> p" for i
  proof
    assume i: "q_idle (rqs S i) = p"
    have "task_cpu (tk S p) = c" using sys0D(4) [OF s0] p(1) by (simp add: place_wf_def)
    then have "i = c" using idle_wfD(2) [OF sys0D(5) [OF s0], of i] i by simp
    then show False using i p(2) by simp
  qed
  then have "sys0 (upd_tk S p (\<lambda>t. t\<lparr>state := s\<rparr>))" using set_state_sys0 [OF s0 u] by blast
  then show ?thesis using sys by (auto simp: sys_def)
qed

text \<open>\<open>yield_task_rt\<close>.\<close>

definition smp_yield_task_rt :: "cpu \<Rightarrow> ('c, 'x) smp \<Rightarrow> ('c, 'x) smp option" where
  "smp_yield_task_rt c S = smp_requeue_task_rt c (q_curr (rqs S c)) False S"

lemma yield_sys:
  assumes sys: "sys S"
  shows "\<exists>S'. smp_yield_task_rt c S = Some S' \<and> sys S'"
proof -
  have s0: "sys0 S" using sys by (simp add: sys_def)
  have "task_cpu (tk S (q_curr (rqs S c))) = c" using sys0D(4) [OF s0] by (simp add: place_wf_def)
  then obtain S' where "smp_requeue_task_rt c (q_curr (rqs S c)) False S = Some S'" "rt_sys S'" "shifts S S'"
    using requeue_ok [OF sys0D(1) [OF s0], of "q_curr (rqs S c)" c False] by blast
  then show ?thesis using calm_sys [OF _ sys] by (auto simp: smp_yield_task_rt_def calm_def)
qed


section \<open>The system at work\<close>

text \<open>
  What the scheduler needs of its surroundings: the priority map, the other classes, cpusets and work queues keep their
  contracts, and nobody interferes while \<open>double_lock_balance\<close> changes locks.
\<close>

definition env_ok :: "('c, 'x) senv2 \<Rightarrow> bool" where
  "env_ok E \<longleftrightarrow> find_ok E \<and> quiet_locks E \<and> others_ok E \<and> affinity_ok E \<and> curr_ok E \<and> pick_ok E"

text \<open>
  One operation of one processor. The executing processor changes between operations (\<open>processor\<close>) and time passes
  (\<open>clock\<close>). A wakeup may be asked for any set of states but \<open>TASK_WAKING\<close>; the stopper runs as the current task of its
  processor, so the task it moves is another one; only the current task changes its own state; the affinity of
  idle tasks is not changed. \<open>push_irq\<close> is the interrupt work of the real-time balancer.
\<close>

inductive smp_step :: "('c, 'x) senv2 \<Rightarrow> ('c, 'x) smp \<Rightarrow> ('c, 'x) smp \<Rightarrow> bool" for E where
  processor: "smp_step E S (S\<lparr>this_cpu := c\<rparr>)"
| clock: "smp_step E S (S\<lparr>cpu_clock := clk\<rparr>)"
| block: "p = q_curr (rqs S (this_cpu S)) \<Longrightarrow> p \<noteq> q_idle (rqs S (this_cpu S)) \<Longrightarrow>
    smp_step E S (upd_tk S p (\<lambda>t. t\<lparr>state := st\<rparr>))"
| wake: "st AND TASK_WAKING = 0 \<Longrightarrow> masks_ok S \<Longrightarrow> smp_try_to_wake_up E p st fl S = Some (woken, S') \<Longrightarrow> smp_step E S S'"
| ipi: "scheduler_ipi E S = Some S' \<Longrightarrow> smp_step E S S'"
| sched: "smp_schedule E preempt S = Some S' \<Longrightarrow> smp_step E S S'"
| yield: "smp_yield_task_rt (this_cpu S) S = Some S' \<Longrightarrow> smp_step E S S'"
| push_irq: "rto_push_work (rd S) = Some (this_cpu S) \<Longrightarrow>
    rto_push_irq_work_func E (upd_rd S (\<lambda>d. d\<lparr>rto_push_work := None\<rparr>)) = Some S' \<Longrightarrow> smp_step E S S'"
| affinity: "(\<forall>c. q_idle (rqs S c) \<noteq> p) \<Longrightarrow> set_cpus_allowed_ptr_main E p m check S = Some (r, S') \<Longrightarrow> smp_step E S S'"
| stopper: "p \<noteq> q_curr (rqs S (this_cpu S)) \<Longrightarrow> sched_class (tk S p) \<noteq> IdleClass \<Longrightarrow>
    migration_cpu_stop E p d S = Some S' \<Longrightarrow> smp_step E S S'"

inductive_cases smp_stepE: "smp_step E S S'"

inductive smp_reach :: "('c, 'x) senv2 \<Rightarrow> ('c, 'x) smp \<Rightarrow> ('c, 'x) smp \<Rightarrow> bool" for E B where
  start: "smp_reach E B B"
| step: "smp_reach E B S \<Longrightarrow> smp_step E S S' \<Longrightarrow> smp_reach E B S'"

text \<open>
  The contract as an interface: the lemmas on the steps are proved once for every environment that keeps it.
\<close>

locale smp_platform =
  fixes E :: "('c, 'x) senv2"
  assumes env: "env_ok E"
begin

lemma envs: "find_ok E" "quiet_locks E" "others_ok E" "affinity_ok E" "curr_ok E" "pick_ok E"
  using env by (simp_all add: env_ok_def)

lemma step_sys:
  assumes "smp_step E S S'" and sys: "sys S"
  shows "sys S'"
  using assms(1)
proof cases
  case (block p st)
  then show ?thesis using set_state_sys [OF sys] by blast
next
  case (wake st p fl woken)
  then show ?thesis using try_to_wake_up_ok [OF envs(1-4) _ sys, of st p fl] by fastforce
next
  case ipi
  then show ?thesis using scheduler_ipi_ok [OF envs(1-3) sys] by fastforce
next
  case (sched preempt)
  then show ?thesis by (rule schedule_ok(1) [OF envs(1-3,6) sys])
next
  case yield
  then show ?thesis using yield_sys [OF sys, of "this_cpu S"] by fastforce
next
  case push_irq
  let ?S = "upd_rd S (\<lambda>d. d\<lparr>rto_push_work := None\<rparr>)"
  have rs: "rt_sys S" using sys by (simp add: sys_def sys0_def)
  have c: "calm S ?S" by (rule calm_domain [OF rs]) simp
  then have "rt_sys ?S" by (simp add: calm_def)
  then have "calm ?S S'" using push_irq_calm [OF envs(1,2)] push_irq(2) by fastforce
  then show ?thesis by (rule calm_sys [OF calm_trans [OF c] sys])
next
  case (affinity p m check r)
  then obtain r' S1 where "set_cpus_allowed_ptr_main E p m check S = Some (r', S1)" "sys S1"
    using set_affinity_ok [OF envs(3-5) sys, of p m check] by blast
  then show ?thesis using affinity(2) by simp
next
  case (stopper p d)
  then show ?thesis using migration_stop_ok [OF envs(1-3) sys, of p d] by fastforce
qed (auto intro: static_sys [OF sys])

lemma reach_sys: "smp_reach E B S \<Longrightarrow> sys B \<Longrightarrow> sys S"
  by (induction rule: smp_reach.induct) (auto intro: step_sys)

end

end
