(* ===== verification/Smp_Props.thy ===== *)
theory Smp_Props
  imports Smp_System
begin

text \<open>
  The properties of the system of several processors, with the state at boot and a concrete environment in which their
  hypotheses hold.
\<close>


section \<open>Boot\<close>

text \<open>
  \<open>init_rt_rq\<close> with several processors, on a structure of zeroed memory.
\<close>

definition smp_init_rt_rq :: "smp_rt_rq \<Rightarrow> smp_rt_rq" where
  "smp_init_rt_rq r =
     (let a = foldl (\<lambda>a i. a\<lparr>rt_queue := (rt_queue a)[i := []], bitmap := (bitmap a)[i := False]\<rparr>) (active r) [0..<100];
          a = a\<lparr>bitmap := (bitmap a)[100 := True]\<rparr>
      in r\<lparr>active := a, highest_curr := 100, highest_next := 100, rt_nr_migratory := 0, is_overloaded := False,
          pushable_tasks := [], rt_queued := False, rt_time := 0, rt_throttled := False, rt_runtime := 0\<rparr>)"

text \<open>A system in which every processor runs its idle task and nothing else is queued.\<close>

definition rt_empty :: "smp_rt_rq \<Rightarrow> bool" where
  "rt_empty r \<longleftrightarrow> rt_queue (active r) = replicate 100 [] \<and> bitmap (active r) = replicate 100 False @ [True] \<and>
     rt_nr_running r = 0 \<and> rt_nr_total r = 0 \<and> rt_nr_migratory r = 0 \<and> highest_curr r = 100 \<and> highest_next r = 100 \<and>
     \<not> is_overloaded r \<and> pushable_tasks r = [] \<and> \<not> rt_queued r"

definition at_rest :: "('c, 'x) smp \<Rightarrow> bool" where
  "at_rest S \<longleftrightarrow>
     (\<forall>c. rt_empty (rtr S c) \<and> unat (q_nr_running (rqs S c)) < 2 ^ 31 \<and> q_curr (rqs S c) = q_idle (rqs S c) \<and> q_wake_list (rqs S c) = []) \<and>
     (\<forall>p. \<not> rt_on_rq (rt (tk S p)) \<and> 0 \<le> prio (tk S p) \<and> (on_cpu (tk S p) \<longleftrightarrow> (\<exists>c. q_idle (rqs S c) = p)) \<and>
        (on_rq (tk S p) \<noteq> 0 \<longrightarrow> on_cpu (tk S p))) \<and>
     (\<forall>c. \<not> rto_mask (rd S) c) \<and> rto_count (rd S) = 0 \<and> idle_wf S \<and> class_wf S"

lemma init_rt_rq_empty:
  assumes "length (rt_queue (active r)) = 100" "length (bitmap (active r)) = 101" "rt_nr_running r = 0" "rt_nr_total r = 0"
  shows "rt_empty (smp_init_rt_rq r)"
proof -
  let ?f = "\<lambda>a i. a\<lparr>rt_queue := (rt_queue a)[i := []], bitmap := (bitmap a)[i := False]\<rparr>"
  let ?a = "\<lambda>n. foldl ?f (active r) [0..<n]"
  have len: "length (rt_queue (?a n)) = 100" "length (bitmap (?a n)) = 101" for n
    by (induction n) (simp_all add: assms)
  have nth: "i < n \<Longrightarrow> n \<le> 100 \<Longrightarrow> rt_queue (?a n) ! i = [] \<and> \<not> bitmap (?a n) ! i" for i n
  proof (induction n)
    case (Suc n)
    then show ?case using len [of n] by (cases "i = n") (simp_all add: nth_list_update)
  qed simp
  have "rt_queue (?a 100) = replicate 100 []" by (rule nth_equalityI) (use len nth in simp_all)
  moreover have "(bitmap (?a 100))[100 := True] = replicate 100 False @ [True]"
    by (rule nth_equalityI) (use len nth in \<open>auto simp: nth_append nth_list_update\<close>)
  ultimately show ?thesis using assms(3,4) by (simp add: rt_empty_def smp_init_rt_rq_def Let_def del: upt_Suc)
qed

lemma at_rest_sys:
  assumes "at_rest S"
  shows "sys S"
proof -
  have r: "rt_empty (rtr S c)" "unat (q_nr_running (rqs S c)) < 2 ^ 31" "q_curr (rqs S c) = q_idle (rqs S c)" "q_wake_list (rqs S c) = []"
    "\<not> rto_mask (rd S) c" for c
    using assms by (simp_all add: at_rest_def)
  have t: "\<not> rt_on_rq (rt (tk S p))" "0 \<le> prio (tk S p)" "on_cpu (tk S p) \<longleftrightarrow> (\<exists>c. q_idle (rqs S c) = p)"
    "on_rq (tk S p) \<noteq> 0 \<Longrightarrow> on_cpu (tk S p)" for p
    using assms unfolding at_rest_def by blast+
  have iw: "idle_wf S" "class_wf S" "rto_count (rd S) = 0" using assms by (simp_all add: at_rest_def)
  have q: "cpu_queued S c = {}" "pushables S c = {}" for c using r(1) [of c] by (simp_all add: cpu_queued_def pushables_def rt_empty_def)
  have "arr_wf (tk S) (rtr S c)" for c
    using r(1) [of c] by (simp add: arr_wf_def rt_empty_def levelled_def nth_append find_first_delim)
  moreover have "push_wf (tk S) (rtr S c) (pushables S c)" for c using r(1) [of c] by (simp add: push_wf_def rt_empty_def q)
  moreover have "top_wf (rqs S c)" for c using r(1,2) [of c] by (simp add: top_wf_def cpu_others_def rt_empty_def)
  moreover have "member_wf S" by (simp add: member_wf_def q t)
  moreover have "rto_wf S" using r(1,5) iw(3) by (simp add: rto_wf_def counts_mask_def rt_empty_def)
  ultimately have inv: "smp_inv S" by (simp add: smp_inv_def)
  have idle: "on_rq (tk S p) = TASK_ON_RQ_QUEUED \<and> sched_class (tk S p) = IdleClass" if "on_rq (tk S p) \<noteq> 0" for p
    using t(3) [of p] t(4) [OF that] idle_wfD(1,3) [OF iw(1)] by auto
  have nrt: "\<not> rt_task (tk S p)" if "on_rq (tk S p) \<noteq> 0" for p using idle [OF that] iw(2) by (simp add: class_wf_def)
  have nz: "TASK_ON_RQ_QUEUED \<noteq> 0" by (simp add: TASK_ON_RQ_QUEUED_def)
  have "tasks_wf S" using nrt nz t(2) by (auto simp: tasks_wf_def q)
  moreover have "wake_wf S" by (simp add: wake_wf_def r(4))
  moreover have "place_wf S" using t(3) idle_wfD(2) [OF iw(1)] by (simp add: place_wf_def r(3))
  ultimately have "sys0 S" using inv iw(1,2) by (simp add: sys0_def rt_sys_def)
  moreover have "on_rq (tk S p) = 0 \<or> on_rq (tk S p) = TASK_ON_RQ_QUEUED" for p using idle by blast
  ultimately show ?thesis using idle_wfD(1) [OF iw(1)] by (simp add: sys_def r(3))
qed


section \<open>A concrete system\<close>

text \<open>
  Three real-time tasks that sleep, the tasks 1 to 3, and the idle tasks; task 1 is the least important. The idle class
  always has its task, the other classes have none.
\<close>

definition boot_task :: "pid \<Rightarrow> smp_task" where
  "boot_task p =
     (if 1000 \<le> p then blank_smp_task\<lparr>sched_class := IdleClass, on_rq := 1, on_cpu := True, task_cpu := p - 1000, prio := 140, tflags := PF_IDLE\<rparr>
      else if 1 \<le> p \<and> p \<le> 3
      then blank_smp_task\<lparr>sched_class := RtClass, policy := SCHED_FIFO, prio := 60 - 10 * int p, state := 1, nr_cpus_allowed := 2,
             cpus_allowed := (\<lambda>c. c < 2)\<rparr>
      else blank_smp_task\<lparr>state := 1\<rparr>)"

definition smp_boot :: "(cpu \<Rightarrow> int, unit) smp" where
  "smp_boot = (blank_smp 2)\<lparr>tk := boot_task\<rparr>"

definition demo_env2 :: "bool \<Rightarrow> (cpu \<Rightarrow> int, unit) senv2" where
  "demo_env2 ipi = senv.extend (demo_env ipi)
     \<lparr>o_pick = (\<lambda>cls put c prev S. if cls = IdleClass then map_option (Pair (Picked (q_idle (rqs S c)))) (put prev S) else Some (NoTask, S)),
      o_task_woken = (\<lambda>_ _ _. Some), o_task_dead = (\<lambda>_ _ S. S), o_set_cpus_allowed = (\<lambda>_. set_cpus_allowed_common),
      o_h_nr_running = (\<lambda>_ _. 0), TTWU_QUEUE = True, sd_llc_id = (\<lambda>c. c), cpu_node = (\<lambda>_. None), CPUSETS = False,
      cpuset_cpus_allowed_fallback = (\<lambda>_ S. S), wait_off_cpu = (\<lambda>_ S. S), smp_wq_worker_waking_up = (\<lambda>_ _ S. S),
      smp_wq_worker_sleeping = (\<lambda>_ S. (None, S)), smp_signal_pending_state = (\<lambda>_ _ _. False)\<rparr>"

lemma smp_boot_rest: "at_rest smp_boot"
proof -
  have f: "rqs smp_boot = blank_smp_rq" "tk smp_boot = boot_task" "rd smp_boot = rd (blank_smp 2)" by (simp_all add: smp_boot_def blank_smp_def)
  have r: "rt_empty blank_smp_rt_rq" by (simp add: rt_empty_def blank_smp_rt_rq_def blank_kern_def rt_rq.defs)
  have q: "q_rt (blank_smp_rq c) = blank_smp_rt_rq" "q_nr_running (blank_smp_rq c) = 0" "q_curr (blank_smp_rq c) = 1000 + c"
    "q_idle (blank_smp_rq c) = 1000 + c" "q_wake_list (blank_smp_rq c) = []" for c by (simp_all add: blank_smp_rq_def)
  have b: "\<not> rt_on_rq (rt (boot_task p))" "0 \<le> prio (boot_task p)" "on_cpu (boot_task p) \<longleftrightarrow> 1000 \<le> p" "on_rq (boot_task p) \<noteq> 0 \<longleftrightarrow> 1000 \<le> p"
    for p by (simp_all add: boot_task_def blank_smp_task_def blank_task_def task_struct.defs)
  have i: "(\<exists>c. 1000 + c = p) \<longleftrightarrow> 1000 \<le> p" for p :: nat by (metis le_add1 le_add_diff_inverse)
  have "idle_wf smp_boot"
    by (simp add: idle_wf_def f q boot_task_def blank_smp_task_def blank_task_def task_struct.defs TASK_ON_RQ_QUEUED_def TASK_RUNNING_def)
  moreover have "class_wf smp_boot"
    by (simp add: class_wf_def f boot_task_def blank_smp_task_def blank_task_def task_struct.defs rt_prio_ok_def max_tasks_def
        rt_task_def rt_prio_def MAX_RT_PRIO_def)
  ultimately show ?thesis by (simp add: at_rest_def f q r b i blank_smp_def)
qed

lemma demo_put_prev:
  assumes "others_ok E" "mid c S"
  shows "\<exists>S'. smp_put_prev_task E c (q_curr (rqs S c)) S = Some S' \<and> leaves_rt S' S'"
proof -
  obtain S' where S': "smp_put_prev_task E c (q_curr (rqs S c)) S = Some S'" "smp_inv_x S' c (movable S c)"
    using put_prev_ok [OF assms(1) midD(2) [OF assms(2)] refl mid_place [OF assms(2)]] by blast
  have "leaves_rt S' S'" using smp_inv_xD(2) [OF S'(2)] by (simp add: leaves_rt_def same_view_def top_wf_def)
  then show ?thesis using S'(1) by blast
qed

lemma demo_env_ok: "env_ok (demo_env2 ipi)"
proof -
  let ?E = "demo_env2 ipi"
  note d = demo_env2_def senv.defs demo_env_def
  have l: "rt_sys S \<Longrightarrow> leaves_rt S S" for S :: "(cpu \<Rightarrow> int, unit) smp" using leaves_refl rt_sysD(1) by blast
  have "find_ok ?E" by (auto simp: find_ok_def d Let_def split: if_split_asm)
  moreover have "quiet_locks ?E" by (simp add: quiet_locks_def d)
  moreover have o: "others_ok ?E" by (simp add: others_ok_def d l)
  moreover have "affinity_ok ?E"
    by (auto simp: affinity_ok_def d affine_def set_cpus_allowed_common_def same_static_def)
  moreover have "curr_ok ?E" by (simp add: curr_ok_def d l)
  moreover have "pick_ok ?E"
    unfolding pick_ok_def
  proof (intro allI impI)
    fix S :: "(cpu \<Rightarrow> int, unit) smp" and c cls
    assume m: "mid c S" and cls: "cls \<noteq> RtClass"
    have iw: "idle_wf S" using midD(1) [OF m] by (rule sys0D(5))
    note l = l [OF midD(2) [OF m]]
    obtain S' where S': "smp_put_prev_task ?E c (q_curr (rqs S c)) S = Some S'" "leaves_rt S' S'" using demo_put_prev [OF o m] by blast
    show "\<exists>r S'. o_pick ?E cls (smp_put_prev_task ?E c) c (q_curr (rqs S c)) S = Some (r, S') \<and>
        (r = NoTask \<and> leaves_rt S S' \<and> cls \<noteq> IdleClass \<or>
         (\<exists>p S1 S2. r = Picked p \<and> sched_class (tk S p) = cls \<and> on_rq (tk S p) = TASK_ON_RQ_QUEUED \<and> task_cpu (tk S p) = c \<and>
            leaves_rt S S1 \<and> smp_put_prev_task ?E c (q_curr (rqs S c)) S1 = Some S2 \<and> leaves_rt S2 S'))"
    proof (cases "cls = IdleClass")
      case True
      then have "o_pick ?E cls (smp_put_prev_task ?E c) c (q_curr (rqs S c)) S = Some (Picked (q_idle (rqs S c)), S')"
        using S'(1) by (simp add: demo_env2_def senv.defs)
      then show ?thesis using True idle_wfD [OF iw, of c] l S' by blast
    next
      case False
      then have "o_pick ?E cls (smp_put_prev_task ?E c) c (q_curr (rqs S c)) S = Some (NoTask, S)" by (simp add: demo_env2_def senv.defs)
      then show ?thesis using False l by blast
    qed
  qed
  ultimately show ?thesis by (simp add: env_ok_def)
qed

interpretation demo: smp_platform "demo_env2 ipi"
  by unfold_locales (rule demo_env_ok)


section \<open>What holds in every reachable state\<close>

lemma reach_consistent: "env_ok E \<Longrightarrow> at_rest B \<Longrightarrow> smp_reach E B S \<Longrightarrow> sys S"
  by (rule smp_platform.reach_sys [OF smp_platform.intro]) (auto intro: at_rest_sys)


lemma boot_masks: "masks_ok smp_boot"
  by (auto simp: masks_ok_def smp_boot_def blank_smp_def intro: exI [of _ 0])

lemma demo_wake:
  "\<exists>S'. smp_try_to_wake_up (demo_env2 True) 3 1 0 smp_boot = Some (True, S') \<and> on_rq (tk S' 3) = 1 \<and> sched_class (tk S' 3) = RtClass \<and>
     smp_reach (demo_env2 True) smp_boot S'"
proof -
  have "map_option (\<lambda>(b, S). (b, on_rq (tk S 3), sched_class (tk S 3))) (smp_try_to_wake_up (demo_env2 True) 3 1 0 smp_boot) = Some (True, 1, RtClass)"
    by code_simp
  then obtain S' where S': "smp_try_to_wake_up (demo_env2 True) 3 1 0 smp_boot = Some (True, S')" "on_rq (tk S' 3) = 1" "sched_class (tk S' 3) = RtClass"
    by auto
  have "1 AND TASK_WAKING = 0" by code_simp
  then have "smp_step (demo_env2 True) smp_boot S'" using boot_masks S'(1) by (rule smp_step.wake)
  then show ?thesis using S' smp_reach.step [OF smp_reach.start] by blast
qed










end
