(* ===== verification/Smp_Calls.thy ===== *)
theory Smp_Calls
  imports Smp_Props Sched_Attr
begin

text \<open>
  What users and other parts of the kernel call with several processors: the system calls that set and get the
  affinity of a process, on the bytes of user memory, and the queues of tasks to be woken (\<open>wake_q_add\<close>, \<open>wake_up_q\<close>).
\<close>


section \<open>Masks in user memory\<close>

text \<open>A mask is an array of \<open>unsigned long\<close>; on a little-endian machine the bit of processor \<open>c\<close> is bit \<open>c mod 8\<close> of byte \<open>c div 8\<close>.\<close>

definition bytes_mask :: "u8 list \<Rightarrow> cpumask" where
  "bytes_mask bs c \<longleftrightarrow> c div 8 < length bs \<and> bit (bs ! (c div 8)) (c mod 8)"

definition mask_byte :: "cpumask \<Rightarrow> nat \<Rightarrow> u8" where
  "mask_byte m i = foldr (\<lambda>j w. if m (8 * i + j) then set_bit j w else w) [0..<8] 0"

definition mask_bytes :: "nat \<Rightarrow> cpumask \<Rightarrow> u8 list" where
  "mask_bytes len m = map (mask_byte m) [0..<len]"

definition cpumask_subset :: "nat \<Rightarrow> cpumask \<Rightarrow> cpumask \<Rightarrow> bool" where
  "cpumask_subset n a b = list_all (\<lambda>c. a c \<longrightarrow> b c) [0..<n]"

lemma bit_set_bits:
  "k < 8 \<Longrightarrow> bit (foldr (\<lambda>j w. if f j then set_bit j w else w) js (0 :: u8)) k \<longleftrightarrow> k \<in> set js \<and> f k"
  by (induction js) (auto simp: bit_set_bit_iff)

lemma bit_mask_byte: "k < 8 \<Longrightarrow> bit (mask_byte m i) k \<longleftrightarrow> m (8 * i + k)"
  unfolding mask_byte_def by (subst bit_set_bits) auto

lemma bytes_of_mask: "bytes_mask (mask_bytes len m) c \<longleftrightarrow> c < 8 * len \<and> m c"
proof -
  have "c div 8 < len \<longleftrightarrow> c < 8 * len" by (simp add: less_mult_imp_div_less div_less_iff_less_mult mult.commute)
  then show ?thesis using bit_mask_byte [of "c mod 8" m "c div 8"] by (auto simp: bytes_mask_def mask_bytes_def)
qed

lemma length_mask_bytes [simp]: "length (mask_bytes len m) = len"
  by (simp add: mask_bytes_def)

lemma cpumask_subset_iff: "cpumask_subset n a b \<longleftrightarrow> (\<forall>c < n. a c \<longrightarrow> b c)"
  by (auto simp: cpumask_subset_def list_all_iff)

lemma cpumask_equal_iff: "cpumask_equal n a b \<longleftrightarrow> (\<forall>c < n. a c = b c)"
  by (auto simp: cpumask_equal_def list_all_iff)


section \<open>Setting and getting the affinity\<close>

text \<open>
  The surroundings of the calls: the table of processes, capabilities and security modules, the allocation of masks (in the order
  of the calls), the masks that successive calls of \<open>cpuset_cpus_allowed\<close> read, which change while cpusets are
  changed, the stopper (\<open>stop_one_cpu\<close> with \<open>migration_cpu_stop\<close>), which returns when a processor has run it, and \<open>cpumask_size()\<close>.
\<close>

record ('c, 'x) acalls =
  vpid_task :: "int \<Rightarrow> pid option"
  ns_capable_nice :: "pid \<Rightarrow> bool"
  sec_setscheduler :: "pid \<Rightarrow> int"
  sec_getscheduler :: "pid \<Rightarrow> int"
  alloc_ok :: "nat \<Rightarrow> bool"
  cpuset_read :: "nat \<Rightarrow> cpumask"
  stop_one_cpu :: "cpu \<Rightarrow> pid \<Rightarrow> cpu \<Rightarrow> ('c, 'x) smp \<Rightarrow> ('c, 'x) smp option"
  cpumask_size :: nat

definition ENOMEM :: int where "ENOMEM = 12"

definition smp_current :: "('c, 'x) smp \<Rightarrow> pid" where
  "smp_current S = q_curr (rqs S (this_cpu S))"

definition smp_find_process :: "('c, 'x) acalls \<Rightarrow> int \<Rightarrow> ('c, 'x) smp \<Rightarrow> pid option" where
  "smp_find_process A nr S = (if nr \<noteq> 0 then vpid_task A nr else Some (smp_current S))"

definition smp_same_owner :: "pid \<Rightarrow> ('c, 'x) smp \<Rightarrow> bool" where
  "smp_same_owner p S \<longleftrightarrow>
     euid (tk S (smp_current S)) = euid (tk S p) \<or> euid (tk S (smp_current S)) = uid (tk S p)"

definition dl_bandwidth_enabled :: "('c, 'x) smp \<Rightarrow> bool" where
  "dl_bandwidth_enabled S \<longleftrightarrow> sysctl_rt_runtime S \<ge> 0"

text \<open>\<open>__set_cpus_allowed_ptr\<close> as its callers see it, with the call of the stopper at its end.\<close>

definition set_allowed_checked ::
  "('c, 'x) acalls \<Rightarrow> ('c, 'x, 'e) senv2_scheme \<Rightarrow> pid \<Rightarrow> cpumask \<Rightarrow> ('c, 'x) smp \<Rightarrow> (int \<times> ('c, 'x) smp) option" where
  "set_allowed_checked A E p new_mask S = do {
     (r, S) \<leftarrow> set_cpus_allowed_ptr_main E p new_mask True S;
     (case r of
        Returns v \<Rightarrow> Some (v, S)
      | StopCpu c q d \<Rightarrow> map_option (Pair 0) (stop_one_cpu A c q d S))
   }"

text \<open>The label \<open>again\<close>; the next read of the cpuset has the number \<open>i\<close>.\<close>

partial_function (option) setaffinity_again ::
  "('c, 'x) acalls \<Rightarrow> ('c, 'x, 'e) senv2_scheme \<Rightarrow> pid \<Rightarrow> cpumask \<Rightarrow> nat \<Rightarrow> ('c, 'x) smp \<Rightarrow> (int \<times> ('c, 'x) smp) option" where
  "setaffinity_again A E p new_mask i S =
     (case set_allowed_checked A E p new_mask S of
        None \<Rightarrow> None
      | Some (retval, S) \<Rightarrow>
          if retval = 0 \<and> \<not> cpumask_subset (nr_cpu_ids S) new_mask (cpuset_read A i)
          then setaffinity_again A E p (cpuset_read A i) (Suc i) S
          else Some (retval, S))"

declare setaffinity_again.simps [code]

definition sched_setaffinity ::
  "('c, 'x) acalls \<Rightarrow> ('c, 'x, 'e) senv2_scheme \<Rightarrow> int \<Rightarrow> cpumask \<Rightarrow> ('c, 'x) smp \<Rightarrow> (int \<times> ('c, 'x) smp) option" where
  "sched_setaffinity A E nr in_mask S =
     (case smp_find_process A nr S of
        None \<Rightarrow> Some (- ESRCH, S)
      | Some p \<Rightarrow>
          if tflags (tk S p) AND PF_NO_SETAFFINITY \<noteq> 0 then Some (- EINVAL, S)
          else if \<not> alloc_ok A 1 then Some (- ENOMEM, S)
          else if \<not> alloc_ok A 2 then Some (- ENOMEM, S)
          else if \<not> smp_same_owner p S \<and> \<not> ns_capable_nice A p then Some (- EPERM, S)
          else if sec_setscheduler A p \<noteq> 0 then Some (sec_setscheduler A p, S)
          else
            let allowed = cpuset_read A 0; new_mask = (\<lambda>c. in_mask c \<and> allowed c)
            in if task_has_dl_policy (tk S p) \<and> dl_bandwidth_enabled S \<and> \<not> cpumask_subset (nr_cpu_ids S) (rd_span (rd S)) new_mask
               then Some (- EBUSY, S)
               else setaffinity_again A E p new_mask 1 S)"

definition get_user_cpu_mask :: "('c, 'x) acalls \<Rightarrow> umem \<Rightarrow> u32 \<Rightarrow> int + cpumask" where
  "get_user_cpu_mask A mem len =
     (let len = (if unat len > cpumask_size A then cpumask_size A else unat len)
      in case uread mem 0 len of None \<Rightarrow> Inl (- EFAULT) | Some bs \<Rightarrow> Inr (bytes_mask bs))"

definition sys_sched_setaffinity ::
  "('c, 'x) acalls \<Rightarrow> ('c, 'x, 'e) senv2_scheme \<Rightarrow> int \<Rightarrow> u32 \<Rightarrow> umem \<Rightarrow> ('c, 'x) smp \<Rightarrow> (int \<times> ('c, 'x) smp) option" where
  "sys_sched_setaffinity A E nr len mem S =
     (if \<not> alloc_ok A 0 then Some (- ENOMEM, S)
      else case get_user_cpu_mask A mem len of
             Inl retval \<Rightarrow> Some (retval, S)
           | Inr new_mask \<Rightarrow> sched_setaffinity A E nr new_mask S)"

definition sched_getaffinity :: "('c, 'x) acalls \<Rightarrow> int \<Rightarrow> ('c, 'x) smp \<Rightarrow> int + cpumask" where
  "sched_getaffinity A nr S =
     (case smp_find_process A nr S of
        None \<Rightarrow> Inl (- ESRCH)
      | Some p \<Rightarrow>
          if sec_getscheduler A p \<noteq> 0 then Inl (sec_getscheduler A p)
          else Inr (\<lambda>c. cpus_allowed (tk S p) c \<and> cpu_active_mask S c))"

text \<open>The product \<open>len * BITS_PER_BYTE\<close> is an \<open>unsigned int\<close> and wraps around.\<close>

definition sys_sched_getaffinity :: "('c, 'x) acalls \<Rightarrow> int \<Rightarrow> u32 \<Rightarrow> umem \<Rightarrow> ('c, 'x) smp \<Rightarrow> int \<times> umem" where
  "sys_sched_getaffinity A nr len mem S =
     (if unat (len * 8) < nr_cpu_ids S then (- EINVAL, mem)
      else if len AND 7 \<noteq> 0 then (- EINVAL, mem)
      else if \<not> alloc_ok A 0 then (- ENOMEM, mem)
      else case sched_getaffinity A nr S of
             Inl ret \<Rightarrow> (ret, mem)
           | Inr m \<Rightarrow>
               let retlen = min (unat len) (cpumask_size A); (ok, mem) = uwrite mem 0 (mask_bytes retlen m)
               in if ok then (int retlen, mem) else (- EFAULT, mem))"



section \<open>What the calls guarantee\<close>

text \<open>
  The contract of the stopper: it returns, whatever the processors do meanwhile keeps the system consistent, and nobody else
  changes the class or the affinity of the task or the set of active processors.
\<close>

definition same_masks :: "('c, 'x) smp \<Rightarrow> ('c, 'x) smp \<Rightarrow> bool" where
  "same_masks S S' \<longleftrightarrow> nr_cpu_ids S' = nr_cpu_ids S \<and> cpu_active_mask S' = cpu_active_mask S"

definition stop_ok :: "('c, 'x) acalls \<Rightarrow> bool" where
  "stop_ok A \<longleftrightarrow> (\<forall>c p d S. sys S \<longrightarrow> (\<exists>S'. stop_one_cpu A c p d S = Some S' \<and> sys S' \<and> same_masks S S' \<and>
     sched_class (tk S' p) = sched_class (tk S p) \<and> cpus_allowed (tk S' p) = cpus_allowed (tk S p)))"

lemma stop_okD:
  assumes "stop_ok A" "sys S"
  shows "\<exists>S'. stop_one_cpu A c p d S = Some S' \<and> sys S' \<and> same_masks S S' \<and>
     sched_class (tk S' p) = sched_class (tk S p) \<and> cpus_allowed (tk S' p) = cpus_allowed (tk S p)"
  using assms unfolding stop_ok_def by blast

lemma same_masks_trans: "same_masks S S1 \<Longrightarrow> same_masks S1 S2 \<Longrightarrow> same_masks S S2"
  by (simp add: same_masks_def)

definition allowed_is :: "('c, 'x) smp \<Rightarrow> pid \<Rightarrow> cpumask \<Rightarrow> bool" where
  "allowed_is S p m \<longleftrightarrow> cpumask_equal (nr_cpu_ids S) (cpus_allowed (tk S p)) m"

text \<open>One pass: refused with \<open>-EINVAL\<close>, or the mask is set.\<close>

definition passed :: "pid \<Rightarrow> cpumask \<Rightarrow> int \<Rightarrow> ('c, 'x) smp \<Rightarrow> ('c, 'x) smp \<Rightarrow> bool" where
  "passed p m v S S' \<longleftrightarrow> sys S' \<and> same_masks S S' \<and> sched_class (tk S' p) = sched_class (tk S p) \<and>
     (v = - EINVAL \<and> cpus_allowed (tk S' p) = cpus_allowed (tk S p) \<or> v = 0 \<and> allowed_is S' p m)"

lemma set_allowed_checked_ok:
  assumes E: "env_ok E" "stop_ok A" and sys: "sys S" and p: "sched_class (tk S p) \<noteq> IdleClass"
  shows "\<exists>v S'. set_allowed_checked A E p m S = Some (v, S') \<and> passed p m v S S'"
proof -
  have e: "others_ok E" "affinity_ok E" "curr_ok E" using E(1) by (simp_all add: env_ok_def)
  have "idle_wf S" using sys by (simp add: sys_def sys0_def)
  then have idle: "q_idle (rqs S i) \<noteq> p" for i using idle_wfD(3) [of S i] p by auto
  obtain r S1 where S1: "set_cpus_allowed_ptr_main E p m True S = Some (r, S1)" "sys S1" "affinity_applied p m r S S1" "same_static S S1"
    "sched_class (tk S1 p) = sched_class (tk S p)" using set_affinity_ok [OF e sys, of p m True] idle by blast
  have sm: "same_masks S S1" using S1(4) by (simp add: same_masks_def same_static_def)
  have n: "nr_cpu_ids S1 = nr_cpu_ids S" using sm by (simp add: same_masks_def)
  show ?thesis
  proof (cases r)
    case (Returns v)
    then show ?thesis
      using S1 sm n by (auto simp: set_allowed_checked_def passed_def affinity_applied_def allowed_is_def EINVAL_def cpumask_equal_iff Let_def split: if_split_asm)
  next
    case (StopCpu c q d)
    then have q: "q = p" "cpus_allowed (tk S1 p) = m" using S1(3) by (simp_all add: affinity_applied_def Let_def)
    obtain S' where S': "stop_one_cpu A c p d S1 = Some S'" "sys S'" "same_masks S1 S'" "sched_class (tk S' p) = sched_class (tk S1 p)"
      "cpus_allowed (tk S' p) = cpus_allowed (tk S1 p)" using stop_okD [OF E(2) S1(2)] by blast
    then have "passed p m 0 S S'" using same_masks_trans [OF sm S'(3)] q S1(5) by (simp add: passed_def allowed_is_def cpumask_equal_iff)
    then show ?thesis using StopCpu q S1(1) S'(1) by (simp add: set_allowed_checked_def)
  qed
qed

text \<open>
  What the loop leaves: the mask that was asked for, or one that was read from the cpuset, and it lies within a later read.
\<close>

definition within_cpuset :: "('c, 'x) acalls \<Rightarrow> pid \<Rightarrow> cpumask \<Rightarrow> nat \<Rightarrow> ('c, 'x) smp \<Rightarrow> bool" where
  "within_cpuset A p m i S \<longleftrightarrow>
     (\<exists>j \<ge> i. cpumask_subset (nr_cpu_ids S) (cpus_allowed (tk S p)) (cpuset_read A j) \<and>
        (allowed_is S p m \<or> (\<exists>l \<ge> i. l < j \<and> allowed_is S p (cpuset_read A l))))"

definition loop_done :: "('c, 'x) acalls \<Rightarrow> pid \<Rightarrow> cpumask \<Rightarrow> nat \<Rightarrow> int \<Rightarrow> ('c, 'x) smp \<Rightarrow> ('c, 'x) smp \<Rightarrow> bool" where
  "loop_done A p m i v S S' \<longleftrightarrow> sys S' \<and> same_masks S S' \<and> (v = - EINVAL \<or> v = 0 \<and> within_cpuset A p m i S')"

lemma loop_stops:
  assumes pass: "set_allowed_checked A E p m S = Some (v, S1)" "passed p m v S S1"
    and stop: "v \<noteq> 0 \<or> cpumask_subset (nr_cpu_ids S1) m (cpuset_read A i)"
  shows "setaffinity_again A E p m i S = Some (v, S1) \<and> loop_done A p m i v S S1"
proof -
  have "setaffinity_again A E p m i S = Some (v, S1)" using pass(1) stop by (subst setaffinity_again.simps) auto
  moreover have "within_cpuset A p m i S1" if "v = 0"
    using that stop pass(2) unfolding within_cpuset_def passed_def by (auto simp: cpumask_subset_iff allowed_is_def cpumask_equal_iff EINVAL_def intro!: exI [of _ i])
  ultimately show ?thesis using pass(2) by (auto simp: loop_done_def passed_def)
qed

lemma loop_again:
  assumes pass: "set_allowed_checked A E p m S = Some (0, S1)" "passed p m 0 S S1"
    and again: "\<not> cpumask_subset (nr_cpu_ids S1) m (cpuset_read A i)"
    and rest: "setaffinity_again A E p (cpuset_read A i) (Suc i) S1 = Some (v, S2)" "loop_done A p (cpuset_read A i) (Suc i) v S1 S2"
  shows "setaffinity_again A E p m i S = Some (v, S2) \<and> loop_done A p m i v S S2"
proof -
  have "setaffinity_again A E p m i S = Some (v, S2)" using pass(1) again rest(1) by (subst setaffinity_again.simps) simp
  moreover have "within_cpuset A p m i S2" if w: "within_cpuset A p (cpuset_read A i) (Suc i) S2"
  proof -
    obtain j where j: "Suc i \<le> j" "cpumask_subset (nr_cpu_ids S2) (cpus_allowed (tk S2 p)) (cpuset_read A j)"
      "allowed_is S2 p (cpuset_read A i) \<or> (\<exists>l \<ge> Suc i. l < j \<and> allowed_is S2 p (cpuset_read A l))" using w by (auto simp: within_cpuset_def)
    then have "\<exists>l \<ge> i. l < j \<and> allowed_is S2 p (cpuset_read A l)" by (metis Suc_le_eq Suc_leD order_refl)
    then show ?thesis using j(1,2) unfolding within_cpuset_def by (meson Suc_leD)
  qed
  moreover have "same_masks S S2" using pass(2) rest(2) same_masks_trans [of S S1 S2] by (simp add: passed_def loop_done_def)
  ultimately show ?thesis using rest(2) by (auto simp: loop_done_def)
qed

text \<open>The loop ends once the cpuset is no longer changed.\<close>

lemma setaffinity_again_ok:
  assumes E: "env_ok E" "stop_ok A" and settled: "\<forall>j \<ge> k. cpuset_read A j = cs"
  shows "sys S \<Longrightarrow> sched_class (tk S p) \<noteq> IdleClass \<Longrightarrow>
    \<exists>v S'. setaffinity_again A E p m i S = Some (v, S') \<and> loop_done A p m i v S S'"
proof (induction "k - i" arbitrary: i m S)
  case 0
  obtain v S1 where S1: "set_allowed_checked A E p m S = Some (v, S1)" "passed p m v S S1"
    using set_allowed_checked_ok [OF E "0.prems"] by blast
  show ?case
  proof (cases "v \<noteq> 0 \<or> cpumask_subset (nr_cpu_ids S1) m (cpuset_read A i)")
    case True
    then show ?thesis using loop_stops [OF S1] by blast
  next
    case again: False
    have p1: "sys S1" "sched_class (tk S1 p) \<noteq> IdleClass" using S1(2) "0.prems"(2) by (auto simp: passed_def)
    obtain w S2 where S2: "set_allowed_checked A E p (cpuset_read A i) S1 = Some (w, S2)" "passed p (cpuset_read A i) w S1 S2"
      using set_allowed_checked_ok [OF E p1] by blast
    have "cpuset_read A (Suc i) = cpuset_read A i" using "0.hyps" settled by simp
    then have "w \<noteq> 0 \<or> cpumask_subset (nr_cpu_ids S2) (cpuset_read A i) (cpuset_read A (Suc i))" by (simp add: cpumask_subset_iff)
    from loop_stops [OF S2 this] show ?thesis using loop_again [of A E p m S S1 i w S2] S1 again by blast
  qed
next
  case (Suc d)
  obtain v S1 where S1: "set_allowed_checked A E p m S = Some (v, S1)" "passed p m v S S1"
    using set_allowed_checked_ok [OF E Suc.prems] by blast
  show ?case
  proof (cases "v \<noteq> 0 \<or> cpumask_subset (nr_cpu_ids S1) m (cpuset_read A i)")
    case True
    then show ?thesis using loop_stops [OF S1] by blast
  next
    case again: False
    have "sys S1" "sched_class (tk S1 p) \<noteq> IdleClass" "d = k - Suc i" using S1(2) Suc.prems(2) Suc.hyps(2) by (auto simp: passed_def)
    then obtain w S2 where "setaffinity_again A E p (cpuset_read A i) (Suc i) S1 = Some (w, S2)"
      "loop_done A p (cpuset_read A i) (Suc i) w S1 S2" using Suc.hyps(1) by blast
    then show ?thesis using loop_again [of A E p m S S1 i w S2] S1 again by blast
  qed
qed

lemmas call_errors = errno_defs ENOMEM_def


lemma setaffinity_unchanged_cpuset:
  assumes "env_ok E" "stop_ok A" "sys S" "\<forall>j. cpuset_read A j = cs" "smp_find_process A nr S = Some p" "sched_class (tk S p) \<noteq> IdleClass"
    and ok: "sched_setaffinity A E nr m S = Some (0, S')"
  shows "same_masks S S'" "allowed_is S' p (\<lambda>c. m c \<and> cs c)"
proof -
  let ?m = "\<lambda>c. m c \<and> cs c"
  have loop: "setaffinity_again A E p ?m 1 S = Some (0, S')"
    using ok assms(4,5) by (auto simp: sched_setaffinity_def call_errors Let_def split: if_split_asm)
  obtain v S1 where S1: "set_allowed_checked A E p ?m S = Some (v, S1)" "passed p ?m v S S1"
    using set_allowed_checked_ok [OF assms(1-3,6)] by blast
  have "v \<noteq> 0 \<or> cpumask_subset (nr_cpu_ids S1) ?m (cpuset_read A 1)" using assms(4) by (simp add: cpumask_subset_iff)
  from loop_stops [OF S1 this] loop have "v = 0" "S1 = S'" by simp_all
  then show "same_masks S S'" "allowed_is S' p ?m" using S1(2) by (simp_all add: passed_def EINVAL_def)
qed

text \<open>A caller on the booted system; masks have 8 bytes and the cpuset has the processors 0 and 1.\<close>

definition demo_calls :: "(cpu \<Rightarrow> int, unit) acalls" where
  "demo_calls = \<lparr>vpid_task = (\<lambda>nr. if nr = 3 then Some 3 else None), ns_capable_nice = (\<lambda>_. False), sec_setscheduler = (\<lambda>_. 0),
     sec_getscheduler = (\<lambda>_. 0), alloc_ok = (\<lambda>_. True), cpuset_read = (\<lambda>_ c. c < 2), stop_one_cpu = (\<lambda>_ _ _. Some), cpumask_size = 8\<rparr>"

definition demo_mem :: "u8 \<Rightarrow> umem" where
  "demo_mem b = \<lparr>access_ok = (\<lambda>_. True), ubyte = (\<lambda>i. if i < 8 then Some (if i = 0 then b else 0) else None)\<rparr>"

lemma demo_stop_ok: "stop_ok demo_calls"
  by (simp add: stop_ok_def demo_calls_def same_masks_def)

lemma demo_find: "smp_find_process demo_calls 3 smp_boot = Some 3" "sched_class (tk smp_boot 3) = RtClass"
  by (simp_all add: smp_find_process_def demo_calls_def smp_boot_def boot_task_def)

lemma demo_set_allowed:
  assumes "m 0" "\<not> m 1"
  shows "\<exists>S'. setaffinity_again demo_calls (demo_env2 True) 3 (\<lambda>c. m c \<and> c < 2) 1 smp_boot = Some (0, S')"
proof -
  let ?m = "\<lambda>c. m c \<and> c < 2" and ?S = "smp_update_rq_clock 0 smp_boot"
  have t: "tk ?S = boot_task" "nr_cpu_ids ?S = 2" "cpu_active_mask ?S 0" by (simp_all add: smp_update_rq_clock_def Let_def smp_boot_def blank_smp_def)
  have b: "task_cpu (boot_task 3) = 0" "tflags (boot_task 3) = 0" "cpus_allowed (boot_task 3) = (\<lambda>c. c < 2)"
    by (simp_all add: boot_task_def blank_smp_task_def blank_task_def task_struct.defs)
  have "sys ?S" by (rule calm_sys [OF calm_acct [OF _ acct_clock]]) (use at_rest_sys [OF smp_boot_rest] in \<open>simp_all add: sys_def sys0_def\<close>)
  moreover have "others_ok (demo_env2 True)" "affinity_ok (demo_env2 True)" "curr_ok (demo_env2 True)" using demo_env_ok by (simp_all add: env_ok_def)
  ultimately obtain S' where S': "do_set_cpus_allowed (demo_env2 True) 3 ?m ?S = Some S'" "task_cpu (tk S' 3) = 0"
    using set_allowed_any [of "demo_env2 True" ?S 3 ?m] t b by (auto simp: masked_def)
  have "\<not> cpumask_equal 2 (\<lambda>c. c < 2) ?m" using assms(2) by (auto simp: cpumask_equal_iff intro!: exI [of _ 1])
  moreover have "\<not> 2 \<le> cpumask_first_and 2 (cpu_active_mask ?S) ?m"
    using cpumask_first_none [of 2 "\<lambda>c. cpu_active_mask ?S c \<and> ?m c"] assms(1) t(3) by (force simp: cpumask_first_and_def not_le)
  ultimately have "set_cpus_allowed_ptr_main (demo_env2 True) 3 ?m True smp_boot = Some (Returns 0, S')"
    using S' assms(1) t b unfolding set_cpus_allowed_ptr_main_def Let_def by (simp add: smp_boot_def)
  then have "set_allowed_checked demo_calls (demo_env2 True) 3 ?m smp_boot = Some (0, S')" by (simp add: set_allowed_checked_def)
  then show ?thesis by (subst setaffinity_again.simps) (simp add: demo_calls_def cpumask_subset_iff)
qed

lemma demo_setaffinity:
  assumes "m 0" "\<not> m 1"
  shows "\<exists>S'. sched_setaffinity demo_calls (demo_env2 True) 3 m smp_boot = Some (0, S')"
proof -
  have "tflags (tk smp_boot 3) = 0" "smp_same_owner 3 smp_boot" "\<not> task_has_dl_policy (tk smp_boot 3)"
    by code_simp+
  then show ?thesis using demo_set_allowed [of m] assms demo_find(1) by (simp add: sched_setaffinity_def demo_calls_def)
qed




text \<open>A buffer so large that its size in bits wraps around is refused as too small.\<close>

lemma getaffinity_size_wraps: "0 < nr_cpu_ids S \<Longrightarrow> sys_sched_getaffinity A nr (2 ^ 29) mem S = (- EINVAL, mem)"
  by (simp add: sys_sched_getaffinity_def)

end
