(* ===== verification/Wake_Queue.thy ===== *)
theory Wake_Queue
  imports Smp_Props
begin

text \<open>
  The queues of tasks to be woken later (\<open>wake_q_add\<close>, \<open>wake_up_q\<close> of \<open>core.c\<close>), on their links: a head with a pointer to
  the last link, and one node in every task, which is in at most one queue.
\<close>


section \<open>The operations\<close>

text \<open>A link is \<open>NULL\<close> (the task is in no queue), \<open>WAKE_Q_TAIL\<close>, or the node of a task.\<close>

datatype wq_link = Null | Tail | Node pid

text \<open>
  The nodes of all tasks with the references to them, and the head of one queue; \<open>lastp\<close> points to the link of the head
  (\<open>None\<close>) or to the link of a task.
\<close>

record wake_qs =
  wq_next :: "pid \<Rightarrow> wq_link"
  wq_usage :: "pid \<Rightarrow> int"
  wq_first :: wq_link
  wq_lastp :: "pid option"

definition set_lastp :: "wq_link \<Rightarrow> wake_qs \<Rightarrow> wake_qs" where
  "set_lastp l W =
     (case wq_lastp W of None \<Rightarrow> W\<lparr>wq_first := l\<rparr> | Some q \<Rightarrow> W\<lparr>wq_next := (wq_next W)(q := l)\<rparr>)"

definition wake_q_add :: "pid \<Rightarrow> wake_qs \<Rightarrow> wake_qs" where
  "wake_q_add p W =
     (if wq_next W p \<noteq> Null then W
      else
        let W = W\<lparr>wq_next := (wq_next W)(p := Tail)\<rparr>;
            W = W\<lparr>wq_usage := (wq_usage W)(p := wq_usage W p + 1)\<rparr>;
            W = set_lastp (Node p) W
        in W\<lparr>wq_lastp := Some p\<rparr>)"

partial_function (option) wake_nodes ::
  "('c, 'x, 'e) senv2_scheme \<Rightarrow> wq_link \<Rightarrow> wake_qs \<Rightarrow> ('c, 'x) smp \<Rightarrow> (wake_qs \<times> ('c, 'x) smp) option" where
  "wake_nodes E node W S =
     (case node of
        Tail \<Rightarrow> Some (W, S)
      | Null \<Rightarrow> None
      | Node p \<Rightarrow>
          let node = wq_next W p; W = W\<lparr>wq_next := (wq_next W)(p := Null)\<rparr>
          in case smp_try_to_wake_up E p TASK_NORMAL 0 S of
               None \<Rightarrow> None
             | Some (_, S) \<Rightarrow> wake_nodes E node (W\<lparr>wq_usage := (wq_usage W)(p := wq_usage W p - 1)\<rparr>) S)"

declare wake_nodes.simps [code]

definition wake_up_q ::
  "('c, 'x, 'e) senv2_scheme \<Rightarrow> wake_qs \<Rightarrow> ('c, 'x) smp \<Rightarrow> (wake_qs \<times> ('c, 'x) smp) option" where
  "wake_up_q E W S = wake_nodes E (wq_first W) W S"


section \<open>The queue as a list\<close>

fun wq_path :: "(pid \<Rightarrow> wq_link) \<Rightarrow> wq_link \<Rightarrow> pid list \<Rightarrow> bool" where
  "wq_path nx l [] \<longleftrightarrow> l = Tail"
| "wq_path nx l (p # ps) \<longleftrightarrow> l = Node p \<and> wq_path nx (nx p) ps"

lemma wq_path_other: "q \<notin> set ps \<Longrightarrow> wq_path (nx(q := x)) l ps = wq_path nx l ps"
  by (induction ps arbitrary: l) auto

lemma wq_path_snoc:
  "wq_path nx l ps \<Longrightarrow> distinct (ps @ [p]) \<Longrightarrow> ps \<noteq> [] \<Longrightarrow> wq_path (nx(p := Tail, last ps := Node p)) l (ps @ [p])"
proof (induction ps arbitrary: l)
  case (Cons q ps)
  show ?case
  proof (cases "ps = []")
    case False
    have "wq_path (nx(p := Tail, last ps := Node p)) (nx q) (ps @ [p])"
      by (rule Cons.IH) (use Cons.prems False in auto)
    moreover have "q \<noteq> last ps" "q \<noteq> p" using Cons.prems(2) False by auto
    ultimately show ?thesis using Cons.prems(1) False by (simp add: fun_upd_def)
  qed (use Cons.prems in auto)
qed simp

text \<open>The queue \<open>W\<close> holds the tasks \<open>ps\<close>; before, the nodes and references were those of \<open>W0\<close>.\<close>

definition wq_holds :: "wake_qs \<Rightarrow> wake_qs \<Rightarrow> pid list \<Rightarrow> bool" where
  "wq_holds W0 W ps \<longleftrightarrow> wq_path (wq_next W) (wq_first W) ps \<and> distinct ps \<and>
     wq_lastp W = (if ps = [] then None else Some (last ps)) \<and>
     (\<forall>p. if p \<in> set ps then wq_next W0 p = Null \<and> wq_next W p \<noteq> Null else wq_next W p = wq_next W0 p) \<and>
     (\<forall>p. wq_usage W p = wq_usage W0 p + of_bool (p \<in> set ps))"

lemma wq_holds_add:
  assumes "wq_holds W0 W ps"
  shows "wq_holds W0 (wake_q_add p W) (if wq_next W0 p = Null \<and> p \<notin> set ps then ps @ [p] else ps)"
proof (cases "wq_next W p = Null")
  case False
  then have "\<not> (wq_next W0 p = Null \<and> p \<notin> set ps)" using assms unfolding wq_holds_def by metis
  moreover have "wake_q_add p W = W" using False by (simp add: wake_q_add_def)
  ultimately show ?thesis using assms by (simp only: if_False)
next
  case True
  then have n: "wq_next W0 p = Null" "p \<notin> set ps" using assms unfolding wq_holds_def by metis+
  have h: "wq_path (wq_next W) (wq_first W) ps" "distinct ps" "wq_lastp W = (if ps = [] then None else Some (last ps))"
    "\<And>q. q \<in> set ps \<Longrightarrow> wq_next W0 q = Null \<and> wq_next W q \<noteq> Null" "\<And>q. q \<notin> set ps \<Longrightarrow> wq_next W q = wq_next W0 q"
    "\<And>q. wq_usage W q = wq_usage W0 q + of_bool (q \<in> set ps)"
    using assms unfolding wq_holds_def by (auto split: if_split_asm)
  show ?thesis
  proof (cases "ps = []")
    case True
    then show ?thesis using n h \<open>wq_next W p = Null\<close> by (auto simp: wq_holds_def wake_q_add_def set_lastp_def Let_def)
  next
    case False
    then have "wq_path ((wq_next W)(p := Tail, last ps := Node p)) (wq_first W) (ps @ [p])" using wq_path_snoc [OF h(1)] h(2) n by simp
    moreover have "last ps \<in> set ps" using False by simp
    ultimately show ?thesis using n h False \<open>wq_next W p = Null\<close>
      by (auto simp: wq_holds_def wake_q_add_def set_lastp_def Let_def)
  qed
qed

text \<open>The tasks that are in no queue yet, each once, in the order in which they were first added.\<close>

definition first_adds :: "wake_qs \<Rightarrow> pid list \<Rightarrow> pid list" where
  "first_adds W ps = rev (remdups (rev (filter (\<lambda>p. wq_next W p = Null) ps)))"

lemma wq_holds_adds:
  assumes "wq_first W = Tail" "wq_lastp W = None"
  shows "wq_holds W (fold wake_q_add ps W) (first_adds W ps)"
proof (induction ps rule: rev_induct)
  case (snoc p ps)
  have "first_adds W (ps @ [p]) = (if wq_next W p = Null \<and> p \<notin> set (first_adds W ps) then first_adds W ps @ [p] else first_adds W ps)"
    by (simp add: first_adds_def)
  then show ?case using wq_holds_add [OF snoc.IH, of p] by simp
qed (use assms in \<open>simp add: wq_holds_def first_adds_def\<close>)


section \<open>Waking\<close>

fun wake_all :: "('c, 'x, 'e) senv2_scheme \<Rightarrow> pid list \<Rightarrow> ('c, 'x) smp \<Rightarrow> ('c, 'x) smp option" where
  "wake_all E [] S = Some S"
| "wake_all E (p # ps) S = do { (_, S) \<leftarrow> smp_try_to_wake_up E p TASK_NORMAL 0 S; wake_all E ps S }"

lemma wake_nodes_path:
  "wq_path (wq_next W) l ps \<Longrightarrow> distinct ps \<Longrightarrow>
   wake_nodes E l W S = map_option (Pair (W\<lparr>wq_next := (\<lambda>q. if q \<in> set ps then Null else wq_next W q),
     wq_usage := (\<lambda>q. wq_usage W q - of_bool (q \<in> set ps))\<rparr>)) (wake_all E ps S)"
proof (induction ps arbitrary: l W S)
  case Nil
  then show ?case by (subst wake_nodes.simps) simp
next
  case (Cons p ps)
  let ?W = "W\<lparr>wq_next := (wq_next W)(p := Null), wq_usage := (wq_usage W)(p := wq_usage W p - 1)\<rparr>"
  have "wq_path (wq_next ?W) (wq_next W p) ps" using Cons.prems by (simp add: wq_path_other)
  note IH = Cons.IH [OF this, of S for S]
  have e: "?W\<lparr>wq_next := (\<lambda>q. if q \<in> set ps then Null else wq_next ?W q), wq_usage := (\<lambda>q. wq_usage ?W q - of_bool (q \<in> set ps))\<rparr> =
    W\<lparr>wq_next := (\<lambda>q. if q \<in> set (p # ps) then Null else wq_next W q), wq_usage := (\<lambda>q. wq_usage W q - of_bool (q \<in> set (p # ps)))\<rparr>"
    using Cons.prems(2) by (auto simp: fun_eq_iff)
  have "l = Node p" using Cons.prems(1) by simp
  then have "wake_nodes E l W S =
      (case smp_try_to_wake_up E p TASK_NORMAL 0 S of None \<Rightarrow> None | Some (_, S) \<Rightarrow> wake_nodes E (wq_next W p) ?W S)"
    by (subst wake_nodes.simps) (simp add: Let_def split: option.split)
  also have "\<dots> = map_option (Pair (W\<lparr>wq_next := (\<lambda>q. if q \<in> set (p # ps) then Null else wq_next W q),
     wq_usage := (\<lambda>q. wq_usage W q - of_bool (q \<in> set (p # ps)))\<rparr>)) (wake_all E (p # ps) S)"
    using IH Cons.prems(2) unfolding e [symmetric] by (simp split: option.split)
  finally show ?case .
qed

text \<open>
  C26. Deferred wakeups. When tasks are added to an empty queue in any order and with repetitions, and the queue is then woken,
  exactly the tasks that were in no queue before are woken, each once, in the order in which they were first added; then the
  nodes of all tasks and the references to them are as they were before.
\<close>

theorem wake_q_wakes_once:
  assumes "wq_first W = Tail" "wq_lastp W = None"
  shows "\<exists>W'. wake_up_q E (fold wake_q_add ps W) S = map_option (Pair W') (wake_all E (first_adds W ps) S) \<and>
    wq_next W' = wq_next W \<and> wq_usage W' = wq_usage W"
proof -
  let ?V = "fold wake_q_add ps W" and ?ps = "first_adds W ps"
  have h: "wq_holds W ?V ?ps" by (rule wq_holds_adds [OF assms])
  then have "wq_path (wq_next ?V) (wq_first ?V) ?ps" "distinct ?ps" by (simp_all add: wq_holds_def)
  note e = wake_nodes_path [OF this, of E S]
  moreover have "(\<lambda>q. if q \<in> set ?ps then Null else wq_next ?V q) = wq_next W" "(\<lambda>q. wq_usage ?V q - of_bool (q \<in> set ?ps)) = wq_usage W"
    using h unfolding wq_holds_def by (auto simp: fun_eq_iff)
  ultimately show ?thesis unfolding wake_up_q_def by (intro exI conjI) (assumption | simp)+
qed

text \<open>Task 2 is in another queue; task 3 is added twice.\<close>

theorem wake_q_wakes_once_witness:
  "\<exists>W' S'. wake_up_q (demo_env2 True) (fold wake_q_add [3, 2, 3]
       \<lparr>wq_next = (\<lambda>p. if p = 2 then Tail else Null), wq_usage = (\<lambda>_. 1), wq_first = Tail, wq_lastp = None\<rparr>) smp_boot = Some (W', S') \<and>
     wake_all (demo_env2 True) [3] smp_boot = Some S' \<and> wq_next W' 3 = Null"
proof -
  let ?W = "\<lparr>wq_next = (\<lambda>p. if p = 2 then Tail else Null), wq_usage = (\<lambda>_. 1), wq_first = Tail, wq_lastp = None\<rparr>"
  have "map_option fst (smp_try_to_wake_up (demo_env2 True) 3 TASK_NORMAL 0 smp_boot) = Some True" by code_simp
  then obtain S' where S': "wake_all (demo_env2 True) [3] smp_boot = Some S'" by auto
  have "first_adds ?W [3, 2, 3] = [3]" by (simp add: first_adds_def)
  then show ?thesis using wake_q_wakes_once [of ?W "demo_env2 True" "[3, 2, 3]" smp_boot] S' by auto
qed

end
