(* ===== verification/Preempt.thy ===== *)
theory Preempt
  imports Core_Props
begin

text \<open>
  The entry points of the scheduler (\<open>schedule\<close>, \<open>preempt_schedule\<close> and their like in \<open>core.c\<close>) from the side of the task that calls
  them: the preemption counter, the interrupt flag, the loops on \<open>need_resched\<close>, and the report \<open>scheduling while atomic\<close>.
\<close>


section \<open>The calling task\<close>

text \<open>
  The counter and the flag as the calling task sees them; the number of passes through \<open>__schedule\<close> that it has made, of
  reports \<open>scheduling while atomic\<close>, and of warnings of the counter's checks.
\<close>

record 'x pctx =
  pk :: "'x kern"
  preempt_count :: int
  irqs_disabled :: bool
  passes :: nat
  reports :: nat
  warnings :: nat

text \<open>
  The configuration, and what is not in the repository: what happens between the switch to another task and the moment the
  calling task runs again, for every pass (nothing, when it is chosen again at once); block input and output; the
  tasks blocked on a mutex with priority inheritance.
\<close>

record ('x) prenv =
  DEBUG_PREEMPT :: bool
  oops_in_progress :: bool
  panic_on_warn :: bool
  until_back :: "nat \<Rightarrow> 'x kern \<Rightarrow> 'x kern"
  tsk_is_pi_blocked :: "pid \<Rightarrow> bool"
  blk_needs_flush_plug :: "pid \<Rightarrow> bool"
  blk_schedule_flush_plug :: "pid \<Rightarrow> 'x kern \<Rightarrow> 'x kern"

abbreviation need_resched_now :: "'x pctx \<Rightarrow> bool" where
  "need_resched_now C \<equiv> need_resched (tsk (pk C) (curr (pk C)))"

text \<open>
  \<open>PREEMPT_MASK\<close> is \<open>0xff\<close>, \<open>PREEMPT_DISABLE_OFFSET\<close> and \<open>PREEMPT_DISABLED\<close> are 1. The tracing of latencies is left out.
\<close>

definition preempt_count_add :: "('x) prenv \<Rightarrow> int \<Rightarrow> 'x pctx \<Rightarrow> 'x pctx" where
  "preempt_count_add P val C =
     (if DEBUG_PREEMPT P \<and> preempt_count C < 0 then C\<lparr>warnings := warnings C + 1\<rparr>
      else
        let C = C\<lparr>preempt_count := preempt_count C + val\<rparr>
        in if DEBUG_PREEMPT P \<and> preempt_count C AND 255 \<ge> 255 - 10 then C\<lparr>warnings := warnings C + 1\<rparr> else C)"

definition preempt_count_sub :: "('x) prenv \<Rightarrow> int \<Rightarrow> 'x pctx \<Rightarrow> 'x pctx" where
  "preempt_count_sub P val C =
     (if DEBUG_PREEMPT P \<and> val > preempt_count C then C\<lparr>warnings := warnings C + 1\<rparr>
      else if DEBUG_PREEMPT P \<and> val < 255 \<and> preempt_count C AND 255 = 0 then C\<lparr>warnings := warnings C + 1\<rparr>
      else C\<lparr>preempt_count := preempt_count C - val\<rparr>)"

text \<open>\<open>__schedule_bug\<close> without what it prints; \<open>None\<close> is the \<open>panic\<close>.\<close>

definition schedule_bug :: "('x) prenv \<Rightarrow> 'x pctx \<Rightarrow> 'x pctx option" where
  "schedule_bug P C =
     (if oops_in_progress P then Some C
      else if panic_on_warn P then None
      else Some (C\<lparr>reports := reports C + 1\<rparr>))"

definition schedule_debug :: "('x) prenv \<Rightarrow> 'x pctx \<Rightarrow> 'x pctx option" where
  "schedule_debug P C =
     (if preempt_count C \<noteq> 1 then map_option (\<lambda>C. C\<lparr>preempt_count := 1\<rparr>) (schedule_bug P C) else Some C)"

text \<open>A call of \<open>__schedule\<close> up to its return in the same task; it returns with interrupts enabled.\<close>

definition schedule_call :: "('x) prenv \<Rightarrow> ('x, 'z) env_scheme \<Rightarrow> bool \<Rightarrow> 'x pctx \<Rightarrow> 'x pctx option" where
  "schedule_call P E preempt C = do {
     C \<leftarrow> schedule_debug P C;
     k \<leftarrow> schedule_main E preempt (pk C);
     Some (C\<lparr>pk := until_back P (passes C) k, passes := passes C + 1, irqs_disabled := False\<rparr>)
   }"

text \<open>A loop \<open>do body while (need_resched())\<close>.\<close>

partial_function (option) resched_loop :: "('x pctx \<Rightarrow> 'x pctx option) \<Rightarrow> 'x pctx \<Rightarrow> 'x pctx option" where
  "resched_loop body C =
     (case body C of None \<Rightarrow> None | Some C \<Rightarrow> if need_resched_now C then resched_loop body C else Some C)"

declare resched_loop.simps [code]


section \<open>The entry points\<close>

definition sched_submit_work :: "('x) prenv \<Rightarrow> pid \<Rightarrow> 'x kern \<Rightarrow> 'x kern" where
  "sched_submit_work P t k =
     (if state (tsk k t) = 0 \<or> tsk_is_pi_blocked P t then k
      else if blk_needs_flush_plug P t then blk_schedule_flush_plug P t k else k)"

definition schedule_pass :: "('x) prenv \<Rightarrow> ('x, 'z) env_scheme \<Rightarrow> 'x pctx \<Rightarrow> 'x pctx option" where
  "schedule_pass P E C = map_option (preempt_count_sub P 1) (schedule_call P E False (preempt_count_add P 1 C))"

definition schedule :: "('x) prenv \<Rightarrow> ('x, 'z) env_scheme \<Rightarrow> 'x pctx \<Rightarrow> 'x pctx option" where
  "schedule P E C = resched_loop (schedule_pass P E) (C\<lparr>pk := sched_submit_work P (curr (pk C)) (pk C)\<rparr>)"

definition schedule_idle :: "('x) prenv \<Rightarrow> ('x, 'z) env_scheme \<Rightarrow> 'x pctx \<Rightarrow> 'x pctx option" where
  "schedule_idle P E C = resched_loop (schedule_call P E False) C"

definition schedule_preempt_disabled :: "('x) prenv \<Rightarrow> ('x, 'z) env_scheme \<Rightarrow> 'x pctx \<Rightarrow> 'x pctx option" where
  "schedule_preempt_disabled P E C = map_option (preempt_count_add P 1) (schedule P E (preempt_count_sub P 1 C))"

definition preempt_pass :: "('x) prenv \<Rightarrow> ('x, 'z) env_scheme \<Rightarrow> 'x pctx \<Rightarrow> 'x pctx option" where
  "preempt_pass P E C =
     map_option (\<lambda>C. C\<lparr>preempt_count := preempt_count C - 1\<rparr>) (schedule_call P E True (C\<lparr>preempt_count := preempt_count C + 1\<rparr>))"

definition preempt_schedule_common :: "('x) prenv \<Rightarrow> ('x, 'z) env_scheme \<Rightarrow> 'x pctx \<Rightarrow> 'x pctx option" where
  "preempt_schedule_common P E C = resched_loop (preempt_pass P E) C"

definition preempt_schedule :: "('x) prenv \<Rightarrow> ('x, 'z) env_scheme \<Rightarrow> 'x pctx \<Rightarrow> 'x pctx option" where
  "preempt_schedule P E C =
     (if \<not> (preempt_count C = 0 \<and> \<not> irqs_disabled C) then Some C else preempt_schedule_common P E C)"

definition irq_pass :: "('x) prenv \<Rightarrow> ('x, 'z) env_scheme \<Rightarrow> 'x pctx \<Rightarrow> 'x pctx option" where
  "irq_pass P E C =
     map_option (\<lambda>C. preempt_count_sub P 1 (C\<lparr>irqs_disabled := True\<rparr>))
       (schedule_call P E True ((preempt_count_add P 1 C)\<lparr>irqs_disabled := False\<rparr>))"

definition preempt_schedule_irq :: "('x) prenv \<Rightarrow> ('x, 'z) env_scheme \<Rightarrow> 'x pctx \<Rightarrow> 'x pctx option" where
  "preempt_schedule_irq P E C =
     (if preempt_count C \<noteq> 0 \<or> \<not> irqs_disabled C then None else resched_loop (irq_pass P E) C)"

text \<open>\<open>_cond_resched\<close>, without kernel preemption.\<close>

definition cond_resched :: "('x) prenv \<Rightarrow> ('x, 'z) env_scheme \<Rightarrow> 'x pctx \<Rightarrow> (int \<times> 'x pctx) option" where
  "cond_resched P E C =
     (if preempt_count C = 0 \<and> need_resched_now C then map_option (Pair 1) (preempt_schedule_common P E C) else Some (0, C))"

text \<open>The system call \<open>sched_yield\<close>, and sleeping for input and output, to their end.\<close>

definition sys_sched_yield :: "('x) prenv \<Rightarrow> ('x, 'z) env_scheme \<Rightarrow> 'x pctx \<Rightarrow> (int \<times> 'x pctx) option" where
  "sys_sched_yield P E C = do {
     let C = C\<lparr>irqs_disabled := True\<rparr>;
     k \<leftarrow> cop_yield_task (task_class E (pk C) (curr (pk C))) (pk C);
     let C = preempt_count_add P 1 (C\<lparr>pk := k\<rparr>);
     let C = preempt_count_sub P 1 (C\<lparr>irqs_disabled := False\<rparr>);
     map_option (Pair 0) (schedule P E C)
   }"

definition io_schedule :: "('x) prenv \<Rightarrow> ('x, 'z) env_scheme \<Rightarrow> 'x pctx \<Rightarrow> 'x pctx option" where
  "io_schedule P E C =
     (let (token, k) = io_schedule_prepare (pk C)
      in map_option (\<lambda>C. C\<lparr>pk := io_schedule_finish (pk C) token\<rparr>) (schedule P E (C\<lparr>pk := k\<rparr>)))"



section \<open>The loops\<close>

fun rounds :: "('x pctx \<Rightarrow> 'x pctx option) \<Rightarrow> nat \<Rightarrow> 'x pctx \<Rightarrow> 'x pctx option" where
  "rounds body 0 C = Some C"
| "rounds body (Suc n) C = Option.bind (body C) (rounds body n)"

lemma resched_loop_rounds:
  assumes "resched_loop body C = Some C'"
  shows "\<exists>n. rounds body (Suc n) C = Some C' \<and> \<not> need_resched_now C'"
proof (rule resched_loop.raw_induct [of "\<lambda>body C C'. \<exists>n. rounds body (Suc n) C = Some C' \<and> \<not> need_resched_now C'", OF _ assms])
  fix rl :: "('a pctx \<Rightarrow> 'a pctx option) \<Rightarrow> 'a pctx \<Rightarrow> 'a pctx option" and body C C'
  assume IH: "\<And>body C C'. rl body C = Some C' \<Longrightarrow> \<exists>n. rounds body (Suc n) C = Some C' \<and> \<not> need_resched_now C'"
    and e: "(case body C of None \<Rightarrow> None | Some C \<Rightarrow> if need_resched_now C then rl body C else Some C) = Some C'"
  then obtain D where D: "body C = Some D" by (auto split: option.split_asm)
  show "\<exists>n. rounds body (Suc n) C = Some C' \<and> \<not> need_resched_now C'"
  proof (cases "need_resched_now D")
    case True
    then obtain n where "rounds body (Suc n) D = Some C' \<and> \<not> need_resched_now C'" using IH [of body D C'] e D by auto
    then have "rounds body (Suc (Suc n)) C = Some C' \<and> \<not> need_resched_now C'" using D by simp
    then show ?thesis by blast
  next
    case False
    then have "rounds body (Suc 0) C = Some C' \<and> \<not> need_resched_now C'" using e D by simp
    then show ?thesis by blast
  qed
qed

lemma resched_loop_returns: "rounds body (Suc n) C = Some D \<Longrightarrow> \<not> need_resched_now D \<Longrightarrow> \<exists>C'. resched_loop body C = Some C'"
proof (induction n arbitrary: C)
  case 0
  then show ?case by (subst resched_loop.simps) (auto simp: bind_eq_Some_conv)
next
  case (Suc n)
  then obtain C1 where C1: "body C = Some C1" "rounds body (Suc n) C1 = Some D" by (auto simp: bind_eq_Some_conv)
  then show ?case using Suc.IH [OF C1(2) Suc.prems(2)] by (subst resched_loop.simps) auto
qed

text \<open>What every pass establishes from what it needs holds at the end.\<close>

lemma resched_loop_inv:
  assumes "resched_loop body C = Some C'" and "\<And>D D'. Q D \<Longrightarrow> body D = Some D' \<Longrightarrow> R D'" and "\<And>D. R D \<Longrightarrow> Q D" and "Q C"
  shows "R C' \<and> \<not> need_resched_now C'"
proof -
  obtain n where n: "rounds body (Suc n) C = Some C'" "\<not> need_resched_now C'" using resched_loop_rounds [OF assms(1)] by blast
  have "rounds body (Suc n) D = Some C' \<Longrightarrow> Q D \<Longrightarrow> R C'" for D
    by (induction n arbitrary: D) (use assms(2,3) in \<open>auto simp: bind_eq_Some_conv\<close>)
  then show ?thesis using n assms(4) by blast
qed

text \<open>The state of preemption is restored, and nothing is reported.\<close>

definition restored :: "'x pctx \<Rightarrow> 'x pctx \<Rightarrow> bool" where
  "restored C D \<longleftrightarrow> preempt_count D = preempt_count C \<and> reports D = reports C \<and> warnings D = warnings C"

lemma schedule_call_ok:
  assumes "preempt_count C = 1" "schedule_call P E preempt C = Some D"
  shows "restored C D" "\<not> irqs_disabled D"
  using assms by (auto simp: schedule_call_def schedule_debug_def restored_def bind_eq_Some_conv)

lemma count_one [simp]:
  "preempt_count C = 0 \<Longrightarrow> preempt_count_add P 1 C = C\<lparr>preempt_count := 1\<rparr>"
  "preempt_count C = 1 \<Longrightarrow> preempt_count_sub P 1 C = C\<lparr>preempt_count := 0\<rparr>"
  by (simp_all add: preempt_count_add_def preempt_count_sub_def)

lemma passes_ok:
  assumes "preempt_count C = 0"
  shows "schedule_pass P E C = Some D \<Longrightarrow> restored C D \<and> irqs_disabled D = False"
    "preempt_pass P E C = Some D \<Longrightarrow> restored C D \<and> irqs_disabled D = False"
    "irq_pass P E C = Some D \<Longrightarrow> restored C D \<and> irqs_disabled D = True"
proof -
  have call: "preempt_count D' = 1 \<and> reports D' = reports C \<and> warnings D' = warnings C \<and> \<not> irqs_disabled D'"
    if "schedule_call P E pre C' = Some D'" "C' = C\<lparr>preempt_count := 1\<rparr> \<or> C' = C\<lparr>preempt_count := 1, irqs_disabled := False\<rparr>" for C' D' pre
    using schedule_call_ok [of C' P E pre D'] that by (auto simp: restored_def)
  show "schedule_pass P E C = Some D \<Longrightarrow> restored C D \<and> irqs_disabled D = False"
    using assms call [of False "C\<lparr>preempt_count := 1\<rparr>"] by (auto simp: schedule_pass_def restored_def)
  show "preempt_pass P E C = Some D \<Longrightarrow> restored C D \<and> irqs_disabled D = False"
    using assms call [of True "C\<lparr>preempt_count := 1\<rparr>"] by (auto simp: preempt_pass_def restored_def)
  show "irq_pass P E C = Some D \<Longrightarrow> restored C D \<and> irqs_disabled D = True"
    using assms call [of True "C\<lparr>preempt_count := 1, irqs_disabled := False\<rparr>"] by (auto simp: irq_pass_def restored_def)
qed

lemma restored_loops:
  assumes "preempt_count C = 0" and "\<And>D D'. preempt_count D = 0 \<Longrightarrow> body D = Some D' \<Longrightarrow> restored D D' \<and> irqs_disabled D' = off"
    and "resched_loop body C = Some C'"
  shows "restored C C' \<and> irqs_disabled C' = off \<and> \<not> need_resched_now C'"
proof -
  have pass: "restored C D' \<and> irqs_disabled D' = off" if "restored C D" "body D = Some D'" for D D'
  proof -
    have "preempt_count D = 0" using that(1) assms(1) by (simp add: restored_def)
    from assms(2) [OF this that(2)] show ?thesis using that(1) by (simp add: restored_def)
  qed
  have "(restored C C' \<and> irqs_disabled C' = off) \<and> \<not> need_resched_now C'"
    by (rule resched_loop_inv [where Q = "restored C", OF assms(3) pass]) (simp_all add: restored_def)
  then show ?thesis by blast
qed

lemma schedule_atomic_pass:
  assumes "preempt_count C > 0" "schedule_pass P E C = Some D"
  shows "preempt_count D = 0 \<and> reports D = reports C + of_bool (\<not> oops_in_progress P)"
  using assms
  by (auto simp: schedule_pass_def schedule_call_def schedule_debug_def schedule_bug_def bind_eq_Some_conv preempt_count_add_def Let_def
      split: if_split_asm)

lemma schedule_atomic:
  assumes "preempt_count C > 0" "schedule P E C = Some C'"
  shows "preempt_count C' = 0 \<and> reports C' = reports C + of_bool (\<not> oops_in_progress P)"
proof -
  let ?R = "\<lambda>D. preempt_count D = 0 \<and> reports D = reports C + of_bool (\<not> oops_in_progress P)"
  let ?C = "C\<lparr>pk := sched_submit_work P (curr (pk C)) (pk C)\<rparr>"
  have pass: "?R D'" if q: "?R D \<or> D = ?C" and e: "schedule_pass P E D = Some D'" for D D'
    using q
  proof
    assume r: "?R D"
    then have "restored D D'" using passes_ok(1) [of D P E D'] e by blast
    then show ?thesis using r by (simp add: restored_def)
  next
    assume "D = ?C"
    then show ?thesis using schedule_atomic_pass [of D P E D'] e assms(1) by simp
  qed
  have "?R C' \<and> \<not> need_resched_now C'"
    by (rule resched_loop_inv [where Q = "\<lambda>D. ?R D \<or> D = ?C", OF assms(2) [unfolded schedule_def] pass]) auto
  then show ?thesis by blast
qed


text \<open>The first task of the system calls \<open>schedule\<close>; it is chosen again at once.\<close>

definition demo_prenv :: "unit prenv" where
  "demo_prenv = \<lparr>DEBUG_PREEMPT = True, oops_in_progress = False, panic_on_warn = False, until_back = (\<lambda>_ k. k),
     tsk_is_pi_blocked = (\<lambda>_. False), blk_needs_flush_plug = (\<lambda>_. False), blk_schedule_flush_plug = (\<lambda>_ k. k)\<rparr>"

definition demo_pctx :: "int \<Rightarrow> unit pctx" where
  "demo_pctx n = \<lparr>pk = boot_kern, preempt_count = n, irqs_disabled = False, passes = 0, reports = 0, warnings = 0\<rparr>"


end
